(* ===== verification/Prelude.thy ===== *)
theory Prelude
  imports Main "HOL-Library.Word" "HOL-Library.Signed_Division"
begin

text \<open>
  Shared vocabulary of the development: the machine integer types of the C sources
  (\<^verbatim>\<open>u8\<close>, \<^verbatim>\<open>u16\<close>, \<^verbatim>\<open>u32\<close>, \<^verbatim>\<open>u64\<close> of \<^verbatim>\<open>utils/common.h\<close>), the ways a C run can go wrong as
  values of a result type, the error codes of \<^verbatim>\<open>utils/pma_err.h\<close>, and the generic list and
  word lemmas the component theories use.  A C \<^verbatim>\<open>int\<close> that only counts, indexes or carries an
  error code is an \<^typ>\<open>int\<close>; where a value is converted between signed and unsigned, or where
  wrap-around can be observed, it is a word and the conversion is written out.
\<close>

section \<open>Machine integers\<close>

type_synonym u8 = "8 word"
type_synonym u16 = "16 word"
type_synonym u32 = "32 word"
type_synonym u64 = "64 word"

text \<open>Assigning a \<^verbatim>\<open>u32\<close> to an \<^verbatim>\<open>int\<close> and back (two's complement, as on every target of the build).\<close>

abbreviation int_of_u32 :: "u32 \<Rightarrow> int" where
  "int_of_u32 w \<equiv> sint w"

abbreviation u32_of_int :: "int \<Rightarrow> u32" where
  "u32_of_int i \<equiv> word_of_int i"

section \<open>Runs that go wrong\<close>

text \<open>
  Undefined behaviour and failed assertions are values: a definition that would dereference a
  null pointer, read or write outside an array, read an uninitialised pointer, divide by zero or fail an
  \<^verbatim>\<open>assert\<close> returns \<open>Err\<close> with the kind of fault.  \<open>OutOfFuel\<close> is the result of a model of a loop
  that was not given enough rounds; the theorems about such loops show that it does not occur.
\<close>

datatype c_error = NullDeref | OutOfBounds | AssertFailed | UninitPointer | UseAfterFree | BadConversion | DivByZero | OutOfFuel

datatype 'a res = Ok 'a | Err c_error

primrec res_bind :: "'a res \<Rightarrow> ('a \<Rightarrow> 'b res) \<Rightarrow> 'b res" where
  "res_bind (Ok a) f = f a"
| "res_bind (Err e) f = Err e"

primrec res_map :: "('a \<Rightarrow> 'b) \<Rightarrow> 'a res \<Rightarrow> 'b res" where
  "res_map f (Ok a) = Ok (f a)"
| "res_map f (Err e) = Err e"

definition c_assert :: "bool \<Rightarrow> 'a res \<Rightarrow> 'a res" where
  "c_assert b r = (if b then r else Err AssertFailed)"

primrec is_ok :: "'a res \<Rightarrow> bool" where
  "is_ok (Ok a) = True"
| "is_ok (Err e) = False"

primrec the_ok :: "'a res \<Rightarrow> 'a" where
  "the_ok (Ok a) = a"

named_theorems res_simps \<open>equations that evaluate the result type\<close>
named_theorems pma_inv \<open>preservation of component invariants\<close>
named_theorems pma_frame \<open>state components an operation leaves alone\<close>

lemma res_bind_Ok_iff [res_simps]:
  "res_bind r f = Ok b \<longleftrightarrow> (\<exists>a. r = Ok a \<and> f a = Ok b)"
  by (cases r) auto

lemma res_bind_Err_iff [res_simps]:
  "res_bind r f = Err e \<longleftrightarrow> r = Err e \<or> (\<exists>a. r = Ok a \<and> f a = Err e)"
  by (cases r) auto

lemma res_map_Ok_iff [res_simps]: "res_map f r = Ok b \<longleftrightarrow> (\<exists>a. r = Ok a \<and> b = f a)"
  by (cases r) auto

lemma c_assert_Ok_iff [res_simps]: "c_assert b r = Ok a \<longleftrightarrow> b \<and> r = Ok a"
  by (simp add: c_assert_def)

lemma c_assert_True [simp]: "c_assert True r = r"
  by (simp add: c_assert_def)

lemma is_ok_iff: "is_ok r \<longleftrightarrow> (\<exists>a. r = Ok a)"
  by (cases r) auto

lemma is_ok_bind [simp]: "is_ok (res_bind r f) \<longleftrightarrow> is_ok r \<and> is_ok (f (the_ok r))"
  by (cases r) auto

section \<open>Division\<close>

text \<open>Division and remainder of an \<^verbatim>\<open>int\<close> truncate, and fault on a zero divisor and on the one quotient that overflows.\<close>

definition c_div :: "int \<Rightarrow> int \<Rightarrow> int res" where
  "c_div a b = (if b = 0 \<or> (a = - (2 ^ 31) \<and> b = -1) then Err DivByZero else Ok (a sdiv b))"

definition c_rem :: "int \<Rightarrow> int \<Rightarrow> int res" where
  "c_rem a b = (if b = 0 \<or> (a = - (2 ^ 31) \<and> b = -1) then Err DivByZero else Ok (a smod b))"

lemma nonneg_sdiv: "0 \<le> a \<Longrightarrow> 0 < b \<Longrightarrow> a sdiv b = a div (b :: int)"
  by (cases "a = 0") (simp_all add: signed_divide_int_def)

lemma nonneg_smod: "0 \<le> a \<Longrightarrow> 0 < b \<Longrightarrow> a smod b = a mod (b :: int)"
  by (cases "a = 0") (simp_all add: signed_modulo_int_def)

section \<open>Counting loops\<close>

text \<open>\<^verbatim>\<open>for (i = a; i < b; i++) body\<close> is \<open>res_for body [a..<b]\<close>.\<close>

fun res_for :: "('i \<Rightarrow> 's \<Rightarrow> 's res) \<Rightarrow> 'i list \<Rightarrow> 's \<Rightarrow> 's res" where
  "res_for f [] s = Ok s"
| "res_for f (i # is) s = res_bind (f i s) (res_for f is)"

lemma res_for_append: "res_for f (is @ js) s = res_bind (res_for f is s) (res_for f js)"
proof (induction "is" arbitrary: s)
  case (Cons i "is")
  then show ?case by (cases "f i s") auto
qed simp

lemma res_for_inv:
  assumes "a \<le> b" "I a s" "\<And>i s. a \<le> i \<Longrightarrow> i < b \<Longrightarrow> I i s \<Longrightarrow> \<exists>s'. f i s = Ok s' \<and> I (Suc i) s'"
  shows "\<exists>s'. res_for f [a..<b] s = Ok s' \<and> I b s'"
  using assms
proof (induction b rule: dec_induct)
  case base
  then show ?case by simp
next
  case (step b)
  then obtain s1 where s1: "res_for f [a..<b] s = Ok s1" "I b s1" by auto
  from step.prems(2) [OF step.hyps(1) _ s1(2)] obtain s2 where "f b s1 = Ok s2" "I (Suc b) s2" by auto
  with s1 step.hyps(1) show ?case by (simp add: res_for_append)
qed

section \<open>Error codes of \<^verbatim>\<open>utils/pma_err.h\<close>\<close>

definition NO_ERR :: int where "NO_ERR = 0"
definition NO_MEM_ERR :: int where "NO_MEM_ERR = -1"
definition NOT_FOUND_ERR :: int where "NOT_FOUND_ERR = -2"
definition N0_DEPENDENCE_ERR :: int where "N0_DEPENDENCE_ERR = -4"
definition WR_FROMAT_ERR :: int where "WR_FROMAT_ERR = -5"
definition CONTAINER_EMPTY_ERR :: int where "CONTAINER_EMPTY_ERR = -6"
definition ILLEGAL_ARGS_ERR :: int where "ILLEGAL_ARGS_ERR = -8"
definition IO_ERR :: int where "IO_ERR = -9"

lemmas err_code_defs = NO_ERR_def NO_MEM_ERR_def NOT_FOUND_ERR_def N0_DEPENDENCE_ERR_def
  WR_FROMAT_ERR_def CONTAINER_EMPTY_ERR_def ILLEGAL_ARGS_ERR_def IO_ERR_def

section \<open>Lists\<close>

text \<open>Loops \<^verbatim>\<open>for (i = 0; i < n; i++) if (p (a[i])) ...\<close> that stop at the first hit.\<close>

fun find_index :: "('a \<Rightarrow> bool) \<Rightarrow> 'a list \<Rightarrow> nat option" where
  "find_index p [] = None"
| "find_index p (x # xs) = (if p x then Some 0 else map_option Suc (find_index p xs))"

lemma find_index_map: "find_index p (map f xs) = find_index (\<lambda>x. p (f x)) xs"
  by (induction xs) auto

lemma find_index_None: "find_index p xs = None \<longleftrightarrow> (\<forall>x \<in> set xs. \<not> p x)"
  by (induction xs) auto

lemma find_index_Some:
  "find_index p xs = Some i \<longleftrightarrow> i < length xs \<and> p (xs ! i) \<and> (\<forall>j < i. \<not> p (xs ! j))"
proof (induction xs arbitrary: i)
  case Nil
  then show ?case by simp
next
  case (Cons x xs)
  show ?case
  proof (cases i)
    case 0
    then show ?thesis by auto
  next
    case (Suc k)
    have "(\<forall>j < Suc k. \<not> p ((x # xs) ! j)) \<longleftrightarrow> \<not> p x \<and> (\<forall>j < k. \<not> p (xs ! j))"
      by (auto simp: less_Suc_eq_0_disj)
    with Suc show ?thesis by (auto simp: Cons.IH)
  qed
qed

lemma find_index_find: "find p xs = map_option (nth xs) (find_index p xs)"
  by (induction xs) (auto simp: option.map_comp o_def)

lemma find_append: "find p (xs @ ys) = (case find p xs of Some x \<Rightarrow> Some x | None \<Rightarrow> find p ys)"
  by (induction xs) auto

lemma find_SomeD: "find p xs = Some x \<Longrightarrow> x \<in> set xs \<and> p x"
  by (auto simp: find_Some_iff)

section \<open>Decimal output\<close>

text \<open>The digits \<^verbatim>\<open>printf("%d")\<close> writes.\<close>

definition dec_digit :: "nat \<Rightarrow> char" where
  "dec_digit d = char_of (48 + d)"

fun dec_nat :: "nat \<Rightarrow> string" where
  "dec_nat n = (if n < 10 then [dec_digit n] else dec_nat (n div 10) @ [dec_digit (n mod 10)])"

declare dec_nat.simps [simp del]

definition dec_int :: "int \<Rightarrow> string" where
  "dec_int i = (if i < 0 then CHR ''-'' # dec_nat (nat (- i)) else dec_nat (nat i))"

lemma length_dec_nat: "n < 10 ^ Suc k \<Longrightarrow> length (dec_nat n) \<le> Suc k"
proof (induction k arbitrary: n)
  case 0
  then show ?case by (simp add: dec_nat.simps)
next
  case (Suc k)
  show ?case
  proof (cases "n < 10")
    case True
    then show ?thesis by (simp add: dec_nat.simps)
  next
    case False
    have "n div 10 < 10 ^ Suc k"
      using Suc.prems by (simp add: div_less_iff_less_mult mult.commute)
    with Suc.IH have "length (dec_nat (n div 10)) \<le> Suc k" by blast
    with False show ?thesis by (subst dec_nat.simps) simp
  qed
qed

lemma length_dec_int: "\<bar>i\<bar> < 10 ^ 10 \<Longrightarrow> length (dec_int i) \<le> 11"
  using length_dec_nat [of "nat \<bar>i\<bar>" 9] by (auto simp: dec_int_def nat_less_iff)

section \<open>Arrays\<close>

text \<open>Deleting a slot of an array by shifting the rest to the left.\<close>

lemma take_drop_shift:
  "i < length xs \<Longrightarrow> length (take i xs @ drop (Suc i) xs) = length xs - 1"
  by simp

end
