(* ===== verification/Control.thy ===== *)
theory Control
  imports Prelude
begin

text \<open>
  The dispatch tables of \<^verbatim>\<open>control/control.c\<close>: a \<^verbatim>\<open>struct ctl\<close> holds an array of handlers and an
  array of enable flags, both of the length given at creation; every module of the agent
  dispatches its packets through one.  Handlers (function pointers) are elements of a type
  \<open>'t\<close> with equality, and \<open>run_ctl\<close> takes what calling a handler does as an argument.
\<close>

section \<open>State\<close>

record 't ctl =
  ctl_id :: "'t option list"    \<comment> \<open>\<^verbatim>\<open>trigger *id\<close>, zeroed by \<^verbatim>\<open>calloc\<close>\<close>
  ctl_flag :: "int list"        \<comment> \<open>\<^verbatim>\<open>int *flag\<close>\<close>
  ctl_length :: int

text \<open>
  \<^verbatim>\<open>ctls\<close> is the global head of the chain of tables: \<open>None\<close> before \<^verbatim>\<open>init_ctls\<close>.  Tables are
  named by their position in \<open>ctl_heap\<close>.
\<close>

record 't ctl_state =
  ctl_heap :: "'t ctl list"
  ctls :: "nat list option"

section \<open>Operations\<close>

definition init_ctls :: "bool \<Rightarrow> 't ctl_state \<Rightarrow> int \<times> 't ctl_state" where
  "init_ctls alloc_ok s = (if \<not> alloc_ok then (-1, s\<lparr>ctls := None\<rparr>) else (0, s\<lparr>ctls := Some []\<rparr>))"

text \<open>The result is the handle of the new table, \<open>None\<close> where the code returns \<^verbatim>\<open>-1\<close>.\<close>

definition create_ctl :: "bool \<Rightarrow> int \<Rightarrow> 't ctl_state \<Rightarrow> (nat option \<times> 't ctl_state) res" where
  "create_ctl alloc_ok sz s =
     (if \<not> alloc_ok then Ok (None, s)
      else case ctls s of
        None \<Rightarrow> Err NullDeref
      | Some chain \<Rightarrow>
          (let nctl = \<lparr>ctl_id = replicate (nat sz) None, ctl_flag = replicate (nat sz) 0,
                       ctl_length = sz\<rparr>;
               p = length (ctl_heap s)
           in Ok (Some p, s\<lparr>ctl_heap := ctl_heap s @ [nctl], ctls := Some (p # chain)\<rparr>)))"

definition run_ctl :: "('t \<Rightarrow> 's \<Rightarrow> (int \<times> 's) res) \<Rightarrow> 't ctl \<Rightarrow> int \<Rightarrow> 's \<Rightarrow> (int \<times> 's) res" where
  "run_ctl call c i s =
     (if i < 0 \<or> i > ctl_length c then Ok (-1, s)
      else if nat i \<ge> length (ctl_flag c) then Err OutOfBounds
      else if ctl_flag c ! nat i = 0 then Ok (-1, s)
      else if nat i \<ge> length (ctl_id c) then Err OutOfBounds
      else case ctl_id c ! nat i of None \<Rightarrow> Err NullDeref | Some f \<Rightarrow> call f s)"

definition add_ctl :: "'t ctl \<Rightarrow> int \<Rightarrow> 't \<Rightarrow> int \<Rightarrow> (int \<times> 't ctl) res" where
  "add_ctl c i func enabled =
     (if i < 0 \<or> i > ctl_length c then Ok (-1, c)
      else if nat i \<ge> length (ctl_id c) \<or> nat i \<ge> length (ctl_flag c) then Err OutOfBounds
      else Ok (0, c\<lparr>ctl_id := (if ctl_id c ! nat i \<noteq> Some func then (ctl_id c)[nat i := Some func] else ctl_id c),
                    ctl_flag := (ctl_flag c)[nat i := enabled]\<rparr>))"

section \<open>Invariant\<close>

definition wf_ctl :: "'t ctl \<Rightarrow> bool" where
  "wf_ctl c \<longleftrightarrow> 0 \<le> ctl_length c \<and> length (ctl_id c) = nat (ctl_length c) \<and>
     length (ctl_flag c) = nat (ctl_length c) \<and>
     (\<forall>i < length (ctl_flag c). ctl_flag c ! i \<noteq> 0 \<longrightarrow> ctl_id c ! i \<noteq> None)"

text \<open>What a table means: the handler a packet type is dispatched to.\<close>

definition ctl_target :: "'t ctl \<Rightarrow> int \<Rightarrow> 't option" where
  "ctl_target c i =
     (if 0 \<le> i \<and> i < ctl_length c \<and> ctl_flag c ! nat i \<noteq> 0 then ctl_id c ! nat i else None)"

lemma wf_ctl_new: "0 \<le> n \<Longrightarrow> wf_ctl \<lparr>ctl_id = replicate (nat n) None, ctl_flag = replicate (nat n) 0, ctl_length = n\<rparr>"
  by (simp add: wf_ctl_def)

lemma ctl_target_new:
  "ctl_target \<lparr>ctl_id = replicate (nat n) None, ctl_flag = replicate (nat n) 0, ctl_length = n\<rparr> i = None"
  by (simp add: ctl_target_def)

lemma add_ctl_Ok:
  assumes "wf_ctl c" "0 \<le> i" "i < ctl_length c"
  shows "add_ctl c i f en =
    Ok (0, c\<lparr>ctl_id := (ctl_id c)[nat i := Some f], ctl_flag := (ctl_flag c)[nat i := en]\<rparr>)"
proof -
  have "nat i < length (ctl_id c)" using assms by (simp add: wf_ctl_def)
  then have "(if ctl_id c ! nat i \<noteq> Some f then (ctl_id c)[nat i := Some f] else ctl_id c)
      = (ctl_id c)[nat i := Some f]"
    by (metis list_update_id)
  with assms show ?thesis by (simp add: add_ctl_def wf_ctl_def)
qed

lemma wf_add_ctl [pma_inv]:
  assumes "wf_ctl c" "add_ctl c i f en = Ok (r, c')"
  shows "wf_ctl c'"
proof (cases "0 \<le> i \<and> i < ctl_length c")
  case True
  with assms show ?thesis
    by (auto simp: add_ctl_Ok) (auto simp: wf_ctl_def nth_list_update)
next
  case False
  with assms show ?thesis by (auto simp: add_ctl_def wf_ctl_def split: if_splits)
qed

lemma run_ctl_target:
  assumes "wf_ctl c" "i \<noteq> ctl_length c"
  shows "run_ctl call c i s = (case ctl_target c i of None \<Rightarrow> Ok (-1, s) | Some f \<Rightarrow> call f s)"
proof (cases "0 \<le> i \<and> i < ctl_length c")
  case True
  with assms have "nat i < length (ctl_flag c)" "nat i < length (ctl_id c)" by (auto simp: wf_ctl_def)
  moreover from this assms(1) have "ctl_flag c ! nat i \<noteq> 0 \<longrightarrow> ctl_id c ! nat i \<noteq> None"
    by (simp add: wf_ctl_def)
  ultimately show ?thesis using True by (auto simp: run_ctl_def ctl_target_def split: option.splits)
next
  case False
  with assms show ?thesis by (auto simp: run_ctl_def ctl_target_def)
qed

section \<open>The contract the modules rely on\<close>

text \<open>
  A registry of handlers: registering a handler makes it the target of its packet type and
  leaves the other types alone.  Registering a whole list leaves the last handler of each type.
\<close>

locale handler_registry =
  fixes register :: "'c \<Rightarrow> int \<Rightarrow> 't \<Rightarrow> 'c"
    and target :: "'c \<Rightarrow> int \<Rightarrow> 't option"
    and valid :: "'c \<Rightarrow> bool"
    and in_range :: "'c \<Rightarrow> int \<Rightarrow> bool"
  assumes valid_register: "valid c \<Longrightarrow> in_range c i \<Longrightarrow> valid (register c i f)"
    and range_register: "valid c \<Longrightarrow> in_range c i \<Longrightarrow> in_range (register c i f) j = in_range c j"
    and target_register: "valid c \<Longrightarrow> in_range c i \<Longrightarrow>
          target (register c i f) j = (if j = i then Some f else target c j)"
begin

lemma register_all:
  assumes "valid c" "\<forall>(i, f) \<in> set es. in_range c i"
  shows "valid (foldl (\<lambda>c (i, f). register c i f) c es) \<and>
    target (foldl (\<lambda>c (i, f). register c i f) c es) j =
      (case map_of (rev es) j of None \<Rightarrow> target c j | Some f \<Rightarrow> Some f)"
  using assms
proof (induction es arbitrary: c)
  case Nil
  then show ?case by simp
next
  case (Cons e es)
  obtain i f where e: "e = (i, f)" by (cases e)
  have c': "valid (register c i f)" and r: "\<forall>(k, g) \<in> set es. in_range (register c i f) k"
    using Cons.prems by (auto simp: e valid_register range_register)
  show ?case
    using Cons.IH [OF c' r] Cons.prems
    by (auto simp: e target_register map_add_def split: option.splits)
qed

end

definition ctl_register :: "'t ctl \<Rightarrow> int \<Rightarrow> 't \<Rightarrow> 't ctl" where
  "ctl_register c i f = (case add_ctl c i f 1 of Ok (_, c') \<Rightarrow> c' | Err _ \<Rightarrow> c)"

interpretation ctl: handler_registry ctl_register ctl_target wf_ctl "\<lambda>c i. 0 \<le> i \<and> i < ctl_length c"
proof
  fix c :: "'a ctl" and i j f
  assume wf: "wf_ctl c" and i: "0 \<le> i \<and> i < ctl_length c"
  let ?c' = "c\<lparr>ctl_id := (ctl_id c)[nat i := Some f], ctl_flag := (ctl_flag c)[nat i := 1]\<rparr>"
  have reg: "ctl_register c i f = ?c'"
    using add_ctl_Ok [OF wf] i by (simp add: ctl_register_def)
  then show "wf_ctl (ctl_register c i f)"
    using wf_add_ctl [OF wf] add_ctl_Ok [OF wf, of i f 1] i by simp
  show "(0 \<le> j \<and> j < ctl_length (ctl_register c i f)) = (0 \<le> j \<and> j < ctl_length c)"
    by (simp add: reg)
  show "ctl_target (ctl_register c i f) j = (if j = i then Some f else ctl_target c j)"
    using wf i by (auto simp: reg ctl_target_def wf_ctl_def nth_list_update nat_eq_iff)
qed

section \<open>Properties\<close>

text \<open>A table filled by a list of \<^verbatim>\<open>add_ctl(c, i, f, 1)\<close> calls, as every \<^verbatim>\<open>*_init\<close> function does.\<close>

fun add_ctls :: "'t ctl \<Rightarrow> (int \<times> 't) list \<Rightarrow> 't ctl res" where
  "add_ctls c [] = Ok c"
| "add_ctls c ((i, f) # es) = res_bind (add_ctl c i f 1) (\<lambda>(_, c'). add_ctls c' es)"

lemma add_ctls_register:
  assumes "wf_ctl c" "\<forall>(i, f) \<in> set es. 0 \<le> i \<and> i < ctl_length c"
  shows "add_ctls c es = Ok (foldl (\<lambda>c (i, f). ctl_register c i f) c es) \<and>
    ctl_length (foldl (\<lambda>c (i, f). ctl_register c i f) c es) = ctl_length c"
  using assms
proof (induction es arbitrary: c)
  case Nil
  then show ?case by simp
next
  case (Cons e es)
  obtain i f where e: "e = (i, f)" by (cases e)
  let ?c' = "ctl_register c i f"
  have i: "0 \<le> i" "i < ctl_length c" using Cons.prems by (auto simp: e)
  have add: "add_ctl c i f 1 = Ok (0, ?c')" and len: "ctl_length ?c' = ctl_length c"
    using add_ctl_Ok [OF Cons.prems(1) i] by (auto simp: ctl_register_def)
  have "wf_ctl ?c'" using Cons.prems(1) i by (simp add: ctl.valid_register)
  with Cons.IH [of ?c'] Cons.prems(2) show ?case by (simp add: e add len)
qed

text \<open>
  Dispatch through a table built by \<^verbatim>\<open>create_ctl\<close> and a list of \<^verbatim>\<open>add_ctl\<close> calls with
  in-range packet types: no registration faults, and a packet of any type other than the table
  length runs the handler registered last for that type, or is refused with \<^verbatim>\<open>-1\<close> and no
  effect when there is none.
\<close>

theorem run_ctl_dispatches:
  assumes "create_ctl True n s = Ok (Some p, s')"
    and "\<forall>(i, f) \<in> set es. 0 \<le> i \<and> i < n"
    and "0 \<le> n" and "j \<noteq> n"
  shows "\<exists>c. add_ctls (ctl_heap s' ! p) es = Ok c \<and>
    run_ctl call c j st = (case map_of (rev es) j of None \<Rightarrow> Ok (-1, st) | Some f \<Rightarrow> call f st)"
proof -
  let ?new = "\<lparr>ctl_id = replicate (nat n) None, ctl_flag = replicate (nat n) 0, ctl_length = n\<rparr> :: 'a ctl"
  let ?c = "foldl (\<lambda>c (i, f). ctl_register c i f) ?new es"
  have heap: "ctl_heap s' ! p = ?new"
    using assms(1) by (auto simp: create_ctl_def Let_def split: option.splits)
  have range: "\<forall>(i, f) \<in> set es. 0 \<le> i \<and> i < ctl_length ?new" using assms(2) by auto
  have add: "add_ctls ?new es = Ok ?c" and len: "ctl_length ?c = n"
    using add_ctls_register [OF wf_ctl_new [OF assms(3)] range] by simp_all
  have wf: "wf_ctl ?c" and tgt: "ctl_target ?c j = (case map_of (rev es) j of None \<Rightarrow> None | Some f \<Rightarrow> Some f)"
    using ctl.register_all [OF wf_ctl_new [OF assms(3)] range, of j]
    by (auto simp: ctl_target_new split: option.splits)
  have "run_ctl call ?c j st = (case map_of (rev es) j of None \<Rightarrow> Ok (-1, st) | Some f \<Rightarrow> call f st)"
    using run_ctl_target [OF wf, of j call st] tgt assms(4) len by (auto split: option.splits)
  with add heap show ?thesis by auto
qed

theorem run_ctl_dispatches_witness:
  "\<exists>c. add_ctls (ctl_heap \<lparr>ctl_heap = [\<lparr>ctl_id = replicate 32 None, ctl_flag = replicate 32 0, ctl_length = 32\<rparr>],
            ctls = Some [0]\<rparr> ! 0) [(18, ''handle_ops_ack''), (19, ''handle_ops_ack_failed''), (18, ''handle_trans_message'')] = Ok c \<and>
    run_ctl (\<lambda>f st. Ok (0, f # st)) c 18 [] = Ok (0, [''handle_trans_message''])"
  using run_ctl_dispatches [of 32 "\<lparr>ctl_heap = [], ctls = Some []\<rparr>" 0
      "\<lparr>ctl_heap = [\<lparr>ctl_id = replicate 32 None, ctl_flag = replicate 32 0, ctl_length = 32\<rparr>], ctls = Some [0]\<rparr>"
      "[(18, ''handle_ops_ack''), (19, ''handle_ops_ack_failed''), (18, ''handle_trans_message'')]" 18
      "\<lambda>f st. Ok (0, f # st)" "[]"]
  by (simp add: create_ctl_def)

text \<open>
  The bounds checks of \<^verbatim>\<open>run_ctl\<close> and \<^verbatim>\<open>add_ctl\<close> use \<^verbatim>\<open>i > length\<close>: the packet type equal to
  the table length passes them, and both functions then access their arrays out of bounds, on
  every well-formed table.
\<close>

theorem ctl_bounds_check_off_by_one:
  assumes "wf_ctl c"
  shows "run_ctl call c (ctl_length c) st = Err OutOfBounds \<and>
    add_ctl c (ctl_length c) f en = Err OutOfBounds"
  using assms by (simp add: run_ctl_def add_ctl_def wf_ctl_def)

theorem ctl_bounds_check_off_by_one_witness:
  "run_ctl (\<lambda>f st. Ok (0, f # st)) \<lparr>ctl_id = [None, Some ''ack_handle''], ctl_flag = [0, 1], ctl_length = 2\<rparr> 2 []
      = Err OutOfBounds \<and>
   add_ctl \<lparr>ctl_id = [None, Some ''ack_handle''], ctl_flag = [0, 1], ctl_length = 2\<rparr> 2 ''ack_handle'' 1
      = Err OutOfBounds"
  using ctl_bounds_check_off_by_one [of "\<lparr>ctl_id = [None, Some ''ack_handle''], ctl_flag = [0, 1], ctl_length = 2\<rparr>"
      "\<lambda>f st. Ok (0, f # st)" "[]" "''ack_handle''" 1]
  by (simp add: wf_ctl_def less_Suc_eq nth_Cons')

end
