(* ===== verification/Module_Manager.thy ===== *)
theory Module_Manager
  imports Prelude
begin

text \<open>
  The register of local modules of the base module (\<^verbatim>\<open>mmanager/module_manager.c\<close>): an array of
  100 entries of which the slots 1 to 9 can be used, indexed by module id, recording the socket
  of each registered module and the time of its registration.
\<close>

section \<open>State\<close>

record module_register_table =
  m_id :: int
  m_sockfd :: int
  m_info :: string

definition MAX_MODULE_NUM :: int where "MAX_MODULE_NUM = 10"

text \<open>\<^verbatim>\<open>modlist\<close> has six names, one per id 0 to 5.\<close>

definition modlist :: "string list" where
  "modlist = ['''', ''ICM'', ''DBM'', ''PEM'', ''BM'', ''PMS'']"

definition ICM :: int where "ICM = 1"
definition DBM :: int where "DBM = 2"
definition PEM :: int where "PEM = 3"

text \<open>Broken-down local time, as \<^verbatim>\<open>localtime\<close> returns it.\<close>

record tm =
  tm_year :: int
  tm_mon :: int
  tm_mday :: int
  tm_hour :: int
  tm_min :: int
  tm_sec :: int

section \<open>Operations\<close>

definition module_manager_init :: "module_register_table list" where
  "module_manager_init = replicate 100 \<lparr>m_id = 0, m_sockfd = 0, m_info = ''''\<rparr>"

text \<open>The format \<^verbatim>\<open>"%4d-%d-%d %d:%d:%d"\<close>; \<^verbatim>\<open>%4d\<close> pads on the left to four columns.\<close>

definition get_now_time :: "tm \<Rightarrow> string" where
  "get_now_time t =
     (let y = dec_int (1900 + tm_year t)
      in replicate (4 - length y) CHR '' '' @ y @ ''-'' @ dec_int (1 + tm_mon t) @ ''-'' @
         dec_int (tm_mday t) @ '' '' @ dec_int (tm_hour t) @ '':'' @ dec_int (tm_min t) @ '':'' @
         dec_int (tm_sec t))"

text \<open>
  The debug print reads \<^verbatim>\<open>modlist[m_id]\<close> before the table is touched (the macro always
  evaluates its arguments at the configured debug level).
\<close>

definition insert_register_table ::
  "tm \<Rightarrow> int \<Rightarrow> int \<Rightarrow> module_register_table list \<Rightarrow> (int \<times> module_register_table list) res" where
  "insert_register_table now mid sock t =
     (if mid \<le> 0 \<or> mid \<ge> MAX_MODULE_NUM then Ok (-1, t)
      else if sock \<le> 0 then Ok (-1, t)
      else if nat mid \<ge> length modlist then Err OutOfBounds
      else if nat mid \<ge> length t then Err OutOfBounds
      else (let exist = (if m_id (t ! nat mid) = mid then 1 else 0)
            in Ok (exist, t[nat mid := \<lparr>m_id = mid, m_sockfd = sock, m_info = get_now_time now\<rparr>])))"

definition find_register_table_by_id ::
  "int \<Rightarrow> module_register_table list \<Rightarrow> module_register_table option" where
  "find_register_table_by_id mid t =
     (if mid \<le> 0 \<or> mid \<ge> MAX_MODULE_NUM then None
      else if m_id (t ! nat mid) \<noteq> 0 then Some (t ! nat mid) else None)"

definition module_info_line :: "string \<Rightarrow> module_register_table \<Rightarrow> string" where
  "module_info_line name e =
     name @ '' is Registered'' @ [CHR 0x0A] @ ''Socket FD:['' @ dec_int (m_sockfd e) @ '']'' @ [CHR 0x0A] @
     ''Register Time:'' @ m_info e @ [CHR 0x0A]"

text \<open>One round of the loop of \<^verbatim>\<open>GetModuleInfo\<close>, for slot \<open>i\<close>.\<close>

definition module_info_of :: "int \<Rightarrow> module_register_table \<Rightarrow> string" where
  "module_info_of i e =
     (if m_id e = i \<and> m_sockfd e > 2 then
        (if i = ICM then module_info_line ''ICM(Infomation Module)'' e
         else if i = DBM then module_info_line ''DBM(DataBase Module)'' e
         else if i = PEM then module_info_line ''PEM(Policy Excuate Module)'' e
         else [])
      else [])"

definition GetModuleInfo :: "module_register_table list \<Rightarrow> string \<times> nat" where
  "GetModuleInfo t =
     (let msg = concat (map (\<lambda>i. module_info_of i (t ! nat i)) [0 .. MAX_MODULE_NUM - 1])
      in (msg, length msg))"

section \<open>Invariant and lemmas\<close>

definition wf_table :: "module_register_table list \<Rightarrow> bool" where
  "wf_table t \<longleftrightarrow> length t = 100 \<and>
     (\<forall>i < 100. m_id (t ! i) = 0 \<or> (m_id (t ! i) = int i \<and> 0 < m_sockfd (t ! i)))"

lemma length_modlist [simp]: "length modlist = 6"
  by (simp add: modlist_def)

lemma wf_module_manager_init: "wf_table module_manager_init"
  by (simp add: wf_table_def module_manager_init_def)

lemma wf_insert_register_table [pma_inv]:
  assumes "wf_table t" "insert_register_table now mid sock t = Ok (r, t')"
  shows "wf_table t'"
  using assms
  by (auto simp: insert_register_table_def wf_table_def Let_def nth_list_update split: if_splits)

lemma insert_register_table_known:
  assumes "wf_table t" "0 < mid" "mid < 6" "0 < sock"
  shows "insert_register_table now mid sock t =
    Ok (if find_register_table_by_id mid t = None then 0 else 1,
        t[nat mid := \<lparr>m_id = mid, m_sockfd = sock, m_info = get_now_time now\<rparr>])"
proof -
  have n: "nat mid < 100" "int (nat mid) = mid" using assms by auto
  then have "m_id (t ! nat mid) = 0 \<or> m_id (t ! nat mid) = mid"
    using assms(1) by (metis wf_table_def)
  with assms n show ?thesis
    by (auto simp: insert_register_table_def find_register_table_by_id_def MAX_MODULE_NUM_def
        wf_table_def Let_def nat_le_iff le_nat_iff)
qed

section \<open>Properties\<close>

text \<open>
  Registering one of the known modules (ids 1 to 5) with a valid socket succeeds, the result
  says whether the module had registered before, a lookup of that id then returns the new
  socket, and a lookup of any other id returns what it returned before.
\<close>

theorem register_then_find:
  assumes "wf_table t" "0 < mid" "mid < 6" "0 < sock"
  shows "\<exists>t'. insert_register_table now mid sock t =
        Ok (if find_register_table_by_id mid t = None then 0 else 1, t') \<and> wf_table t' \<and>
      find_register_table_by_id mid t' = Some \<lparr>m_id = mid, m_sockfd = sock, m_info = get_now_time now\<rparr> \<and>
      (\<forall>k. k \<noteq> mid \<longrightarrow> find_register_table_by_id k t' = find_register_table_by_id k t)"
proof -
  let ?t' = "t[nat mid := \<lparr>m_id = mid, m_sockfd = sock, m_info = get_now_time now\<rparr>]"
  have ins: "insert_register_table now mid sock t =
      Ok (if find_register_table_by_id mid t = None then 0 else 1, ?t')"
    by (rule insert_register_table_known [OF assms])
  have "nat mid < length t" using assms by (simp add: wf_table_def)
  then have "find_register_table_by_id mid ?t' = Some \<lparr>m_id = mid, m_sockfd = sock, m_info = get_now_time now\<rparr>"
    using assms by (simp add: find_register_table_by_id_def MAX_MODULE_NUM_def)
  moreover have "find_register_table_by_id k ?t' = find_register_table_by_id k t" if "k \<noteq> mid" for k
    using that assms by (auto simp: find_register_table_by_id_def MAX_MODULE_NUM_def nth_list_update nat_eq_iff)
  ultimately show ?thesis using ins wf_insert_register_table [OF assms(1) ins] by blast
qed

theorem register_then_find_witness:
  "\<exists>t'. insert_register_table \<lparr>tm_year = 114, tm_mon = 5, tm_mday = 10, tm_hour = 12, tm_min = 0, tm_sec = 7\<rparr>
        DBM 9 module_manager_init =
        Ok (if find_register_table_by_id DBM module_manager_init = None then 0 else 1, t') \<and> wf_table t' \<and>
      find_register_table_by_id DBM t' = Some \<lparr>m_id = DBM, m_sockfd = 9,
        m_info = get_now_time \<lparr>tm_year = 114, tm_mon = 5, tm_mday = 10, tm_hour = 12, tm_min = 0, tm_sec = 7\<rparr>\<rparr> \<and>
      (\<forall>k. k \<noteq> DBM \<longrightarrow> find_register_table_by_id k t' = find_register_table_by_id k module_manager_init)"
  by (rule register_then_find [OF wf_module_manager_init]) (simp_all add: DBM_def)

text \<open>
  The ids 6 to 9 pass the range check of \<^verbatim>\<open>insert_register_table\<close> but lie outside
  \<^verbatim>\<open>modlist\<close>: registering one of them reads the name array out of bounds.
\<close>

theorem register_unnamed_module_out_of_bounds:
  assumes "6 \<le> mid" "mid < MAX_MODULE_NUM" "0 < sock"
  shows "insert_register_table now mid sock t = Err OutOfBounds"
  using assms by (simp add: insert_register_table_def MAX_MODULE_NUM_def le_nat_iff)

theorem register_unnamed_module_out_of_bounds_witness:
  "insert_register_table \<lparr>tm_year = 114, tm_mon = 0, tm_mday = 1, tm_hour = 0, tm_min = 0, tm_sec = 0\<rparr>
     7 5 module_manager_init = Err OutOfBounds"
  by (rule register_unnamed_module_out_of_bounds) (simp_all add: MAX_MODULE_NUM_def)

text \<open>
  The report of \<^verbatim>\<open>GetModuleInfo\<close> and its terminator fit the 1024 bytes allocated for it,
  whatever modules are registered, as long as sockets are 32-bit values and the registration
  times fit their 100-byte fields.
\<close>

lemma length_module_info_of:
  assumes "\<bar>m_sockfd e\<bar> < 2 ^ 31" "length (m_info e) < 100"
  shows "length (module_info_of i e) \<le> (if i \<in> {ICM, DBM, PEM} then 200 else 0)"
  using assms length_dec_int [of "m_sockfd e"]
  by (auto simp: module_info_of_def module_info_line_def)

theorem GetModuleInfo_fits_buffer:
  assumes "\<forall>e \<in> set t. \<bar>m_sockfd e\<bar> < 2 ^ 31 \<and> length (m_info e) < 100" "length t = 100"
  shows "snd (GetModuleInfo t) < 1024"
proof -
  have bound: "length (module_info_of (int i) (t ! i)) \<le> (if int i \<in> {ICM, DBM, PEM} then 200 else 0)"
    if "i < 100" for i
    using that assms by (intro length_module_info_of) auto
  have "[0 .. MAX_MODULE_NUM - 1] = [0, 1, 2, 3, 4, 5, 6, 7, 8, 9]"
    by (simp add: MAX_MODULE_NUM_def upto.simps)
  then show ?thesis
    using bound [of 0] bound [of 1] bound [of 2] bound [of 3] bound [of 4] bound [of 5]
      bound [of 6] bound [of 7] bound [of 8] bound [of 9]
    by (simp add: GetModuleInfo_def Let_def ICM_def DBM_def PEM_def)
qed

theorem GetModuleInfo_fits_buffer_witness:
  "snd (GetModuleInfo (module_manager_init[1 := \<lparr>m_id = 1, m_sockfd = 8, m_info = ''2014-6-10 12:0:7''\<rparr>])) < 1024"
  by (rule GetModuleInfo_fits_buffer)
    (auto simp: module_manager_init_def dest!: set_update_subset_insert [THEN subsetD])

end
