(* ===== verification/Timer.thy ===== *)
theory Timer
  imports Prelude
begin

text \<open>
  The one-second timers of \<^verbatim>\<open>timer/timer.c\<close>: an array of at most 100 slots, the first
  \<^verbatim>\<open>timer_num\<close> of which point to timer settings, and a chain of the same settings that is only
  ever linked and unlinked.  Every second \<^verbatim>\<open>exe_timer_callback\<close> decrements the remaining time of
  each timer (an unsigned 32-bit value) and starts a thread for the callbacks that are due; the
  model returns the callbacks started.  Callbacks are elements of a type \<open>'c\<close>, their argument
  blocks are byte lists.
\<close>

section \<open>State\<close>

record 'c pma_timer =
  pt_node :: nat                \<comment> \<open>address of the setting, for the chain\<close>
  timer_id :: u32
  time_val :: u32
  timeout :: u32
  callback :: 'c
  args :: "u8 list option"
  args_len :: u32

text \<open>A slot: \<^verbatim>\<open>t_id\<close> and the pointer \<^verbatim>\<open>timer\<close> (\<open>None\<close> is \<^verbatim>\<open>NULL\<close>).\<close>

type_synonym 'c timer = "u32 \<times> 'c pma_timer option"

record 'c timer_state =
  timer_arr :: "'c timer list"
  timer_num :: nat
  max_timer_id :: u32
  timer_head :: "nat list"
  next_node :: nat

definition TIMER_MAX_COUNT :: nat where "TIMER_MAX_COUNT = 100"

definition timer_state_init :: "'c timer_state" where
  "timer_state_init = \<lparr>timer_arr = replicate TIMER_MAX_COUNT (0, None), timer_num = 0,
     max_timer_id = 0, timer_head = [], next_node = 0\<rparr>"

section \<open>Operations\<close>

text \<open>
  \<open>alloc1\<close> and \<open>alloc2\<close> say whether the two \<^verbatim>\<open>malloc\<close> calls succeed.  The timer id is taken
  before the second one.  The argument block is \<^verbatim>\<open>len\<close> bytes long (\<open>take\<close>: the caller's
  buffer holds at least that many).
\<close>

definition set_timer ::
  "bool \<Rightarrow> bool \<Rightarrow> int \<Rightarrow> 'c \<Rightarrow> u8 list option \<Rightarrow> u8 \<Rightarrow> 'c timer_state \<Rightarrow> u32 \<times> 'c timer_state" where
  "set_timer alloc1 alloc2 val cb a len s =
     (if timer_num s = TIMER_MAX_COUNT then (-1, s)
      else if \<not> alloc1 then (-1, s)
      else
        (let tid = max_timer_id s; s1 = s\<lparr>max_timer_id := tid + 1\<rparr>
         in if a \<noteq> None \<and> \<not> alloc2 then (-1, s1)
            else
              (let new_timer = \<lparr>pt_node = next_node s, timer_id = tid, time_val = u32_of_int val,
                     timeout = u32_of_int val, callback = cb,
                     args = map_option (take (unat len)) a,
                     args_len = (if a \<noteq> None then ucast len else 0)\<rparr>
               in (tid, s1\<lparr>timer_head := timer_head s @ [next_node s],
                           timer_arr := (timer_arr s)[timer_num s := (tid, Some new_timer)],
                           timer_num := Suc (timer_num s),
                           next_node := Suc (next_node s)\<rparr>))))"

text \<open>The index of the slot the loops over \<^verbatim>\<open>timer_arr\<close> stop at.\<close>

definition find_timer :: "u32 \<Rightarrow> 'c timer_state \<Rightarrow> nat option" where
  "find_timer tid s = find_index (\<lambda>e. fst e = tid) (take (timer_num s) (timer_arr s))"

definition upd_timer :: "nat \<Rightarrow> ('c pma_timer \<Rightarrow> 'c pma_timer) \<Rightarrow> 'c timer_state \<Rightarrow> 'c timer_state res" where
  "upd_timer i f s =
     (case snd (timer_arr s ! i) of
        None \<Rightarrow> Err NullDeref
      | Some t \<Rightarrow> Ok (s\<lparr>timer_arr := (timer_arr s)[i := (fst (timer_arr s ! i), Some (f t))]\<rparr>))"

definition update_timer :: "u32 \<Rightarrow> 'c timer_state \<Rightarrow> (u32 \<times> 'c timer_state) res" where
  "update_timer tid s =
     (if timer_num s = 0 then Ok (-1, s)
      else case find_timer tid s of
        None \<Rightarrow> Ok (1, s)
      | Some i \<Rightarrow> res_map (\<lambda>s'. (0, s')) (upd_timer i (\<lambda>t. t\<lparr>timeout := time_val t\<rparr>) s))"

definition modify_timer :: "u32 \<Rightarrow> u32 \<Rightarrow> 'c timer_state \<Rightarrow> (u32 \<times> 'c timer_state) res" where
  "modify_timer tid val s =
     (if timer_num s = 0 then Ok (-1, s)
      else case find_timer tid s of
        None \<Rightarrow> Ok (1, s)
      | Some i \<Rightarrow> res_map (\<lambda>s'. (0, s'))
          (upd_timer i (\<lambda>t. (if timeout t > val then t\<lparr>time_val := val, timeout := val\<rparr>
                             else t\<lparr>time_val := val\<rparr>)) s))"

text \<open>The inner loop of \<^verbatim>\<open>unset_timer\<close> shifts the slots behind \<open>j\<close> to the left and clears the last.\<close>

fun shift_left :: "nat \<Rightarrow> nat \<Rightarrow> 'c timer list \<Rightarrow> 'c timer list" where
  "shift_left 0 j arr = arr[j := (0, None)]"
| "shift_left (Suc k) j arr = shift_left k (Suc j) (arr[j := arr ! Suc j])"

definition unset_timer :: "u32 \<Rightarrow> 'c timer_state \<Rightarrow> (u32 \<times> 'c timer_state) res" where
  "unset_timer tid s =
     (if timer_num s = 0 then Ok (0, s)
      else case find_timer tid s of
        None \<Rightarrow> Ok (0, s)
      | Some i \<Rightarrow>
          (case snd (timer_arr s ! i) of
             None \<Rightarrow> Err NullDeref
           | Some t \<Rightarrow>
               Ok (0, s\<lparr>timer_head := remove1 (pt_node t) (timer_head s),
                        timer_arr := shift_left (timer_num s - 1 - i) i (timer_arr s),
                        timer_num := timer_num s - 1\<rparr>)))"

text \<open>\<^verbatim>\<open>clear_timer\<close> frees every setting and clears its pointer, but not the slot ids and not \<^verbatim>\<open>timer_num\<close>.\<close>

fun clear_loop :: "nat \<Rightarrow> nat \<Rightarrow> 'c timer_state \<Rightarrow> 'c timer_state res" where
  "clear_loop 0 i s = Ok s"
| "clear_loop (Suc k) i s =
     (case snd (timer_arr s ! i) of
        None \<Rightarrow> Err NullDeref
      | Some t \<Rightarrow> clear_loop k (Suc i)
          (s\<lparr>timer_head := remove1 (pt_node t) (timer_head s),
             timer_arr := (timer_arr s)[i := (fst (timer_arr s ! i), None)]\<rparr>))"

definition clear_timer :: "'c timer_state \<Rightarrow> (u32 \<times> 'c timer_state) res" where
  "clear_timer s = res_map (\<lambda>s'. (0, s')) (clear_loop (timer_num s) 0 s)"

text \<open>
  One pass over the array, one second later.  \<open>tick_timer\<close> is the loop body for one setting:
  the decrement is on an unsigned value, so \<^verbatim>\<open><= 0\<close> is \<^verbatim>\<open>== 0\<close> and a timeout of 0 wraps around.
\<close>

definition tick_timer :: "'c pma_timer \<Rightarrow> 'c pma_timer \<times> ('c \<times> u8 list option) list" where
  "tick_timer t =
     (let t1 = t\<lparr>timeout := timeout t - 1\<rparr>
      in if timeout t1 = 0 then (t1\<lparr>timeout := time_val t\<rparr>, [(callback t, args t)]) else (t1, []))"

fun exe_loop :: "nat \<Rightarrow> nat \<Rightarrow> 'c timer_state \<Rightarrow> ('c timer_state \<times> ('c \<times> u8 list option) list) res" where
  "exe_loop 0 i s = Ok (s, [])"
| "exe_loop (Suc k) i s =
     (case snd (timer_arr s ! i) of
        None \<Rightarrow> Err NullDeref
      | Some t \<Rightarrow>
          (let (t', fired) = tick_timer t
           in res_map (\<lambda>(s', fs). (s', fired @ fs))
                (exe_loop k (Suc i) (s\<lparr>timer_arr := (timer_arr s)[i := (fst (timer_arr s ! i), Some t')]\<rparr>))))"

definition exe_timer_callback :: "'c timer_state \<Rightarrow> ('c timer_state \<times> ('c \<times> u8 list option) list) res" where
  "exe_timer_callback s = exe_loop (timer_num s) 0 s"

section \<open>Invariant and abstraction\<close>

text \<open>
  The used slots hold non-null settings whose id is the slot id, and the ids are increasing
  (the counter has not wrapped), so a timer id names at most one slot.
\<close>

definition active :: "'c timer_state \<Rightarrow> 'c pma_timer list" where
  "active s = map (the o snd) (take (timer_num s) (timer_arr s))"

definition wf_timers :: "'c timer_state \<Rightarrow> bool" where
  "wf_timers s \<longleftrightarrow> length (timer_arr s) = TIMER_MAX_COUNT \<and> timer_num s \<le> TIMER_MAX_COUNT \<and>
     (\<forall>i < timer_num s. \<exists>t. timer_arr s ! i = (timer_id t, Some t)) \<and>
     (\<forall>i. timer_num s \<le> i \<and> i < TIMER_MAX_COUNT \<longrightarrow> timer_arr s ! i = (0, None)) \<and>
     sorted_wrt (\<lambda>a b. timer_id a < timer_id b) (active s) \<and>
     (\<forall>t \<in> set (active s). timer_id t < max_timer_id s)"

lemma wf_timers_init: "wf_timers (timer_state_init :: 'c timer_state)"
  by (simp add: wf_timers_def timer_state_init_def active_def)

lemma length_active: "wf_timers s \<Longrightarrow> length (active s) = timer_num s"
  by (simp add: wf_timers_def active_def)

lemma active_nth: "wf_timers s \<Longrightarrow> i < timer_num s \<Longrightarrow> timer_arr s ! i = (timer_id (active s ! i), Some (active s ! i))"
  by (auto simp: wf_timers_def active_def)

text \<open>The array is determined by its active part: a state whose array starts with the settings
  \<open>ts\<close> and is empty behind them.\<close>

definition slots :: "'c pma_timer list \<Rightarrow> 'c timer list" where
  "slots ts = map (\<lambda>t. (timer_id t, Some t)) ts @ replicate (TIMER_MAX_COUNT - length ts) (0, None)"

lemma wf_timers_slots:
  "wf_timers s \<longleftrightarrow> (\<exists>ts. timer_arr s = slots ts \<and> timer_num s = length ts \<and> length ts \<le> TIMER_MAX_COUNT \<and>
     sorted_wrt (\<lambda>a b. timer_id a < timer_id b) ts \<and> (\<forall>t \<in> set ts. timer_id t < max_timer_id s))"
  (is "?l \<longleftrightarrow> (\<exists>ts. ?r ts)")
proof
  assume wf: ?l
  have "timer_arr s = slots (active s)"
  proof (rule nth_equalityI)
    show len: "length (timer_arr s) = length (slots (active s))"
      using wf by (auto simp: slots_def length_active wf_timers_def)
    fix i assume i: "i < length (timer_arr s)"
    show "timer_arr s ! i = slots (active s) ! i"
    proof (cases "i < timer_num s")
      case True
      then show ?thesis using wf by (simp add: slots_def nth_append length_active active_nth)
    next
      case False
      then show ?thesis using wf i by (simp add: slots_def nth_append length_active wf_timers_def)
    qed
  qed
  with wf show "\<exists>ts. ?r ts" by (intro exI [of _ "active s"]) (auto simp: length_active wf_timers_def)
next
  assume "\<exists>ts. ?r ts"
  then obtain ts where r: "?r ts" ..
  then have "active s = ts" by (simp add: active_def slots_def comp_def)
  with r show ?l by (auto simp: wf_timers_def slots_def nth_append)
qed

lemma active_slots: "timer_arr s = slots ts \<Longrightarrow> timer_num s = length ts \<Longrightarrow> active s = ts"
  by (simp add: active_def slots_def comp_def)

lemma wf_timersE:
  assumes "wf_timers s"
  obtains "timer_arr s = slots (active s)" "timer_num s = length (active s)" "length (active s) \<le> TIMER_MAX_COUNT"
    "sorted_wrt (\<lambda>a b. timer_id a < timer_id b) (active s)" "\<forall>t \<in> set (active s). timer_id t < max_timer_id s"
  using assms wf_timers_slots [of s] by (metis active_slots)

lemma wf_timersI:
  assumes "timer_arr s = slots ts" "timer_num s = length ts" "length ts \<le> TIMER_MAX_COUNT"
    "sorted_wrt (\<lambda>a b. timer_id a < timer_id b) ts" "\<forall>t \<in> set ts. timer_id t < max_timer_id s"
  shows "wf_timers s"
  using assms wf_timers_slots by blast

lemma slots_update: "i < length ts \<Longrightarrow> (slots ts)[i := (timer_id t, Some t)] = slots (ts[i := t])"
  by (simp add: slots_def list_update_append map_update)

lemma slots_append: "length ts < TIMER_MAX_COUNT \<Longrightarrow> (slots ts)[length ts := (timer_id t, Some t)] = slots (ts @ [t])"
  by (cases "TIMER_MAX_COUNT - length ts") (auto simp: slots_def list_update_append)

lemma slots_nth: "i < length ts \<Longrightarrow> slots ts ! i = (timer_id (ts ! i), Some (ts ! i))"
  by (simp add: slots_def nth_append)

lemma find_timer_slots:
  assumes "timer_arr s = slots ts" "timer_num s = length ts"
  shows "find_timer tid s = find_index (\<lambda>t. timer_id t = tid) ts"
proof -
  have "take (timer_num s) (timer_arr s) = map (\<lambda>t. (timer_id t, Some t)) ts"
    using assms by (simp add: slots_def)
  moreover have "find_index (\<lambda>e. fst e = tid) (map (\<lambda>t. (timer_id t, Some t)) ts) = find_index (\<lambda>t. timer_id t = tid) ts"
    by (induction ts) auto
  ultimately show ?thesis by (simp add: find_timer_def)
qed

lemma shift_left_slots:
  assumes "i < length ts" "length ts \<le> TIMER_MAX_COUNT"
  shows "shift_left (length ts - 1 - i) i (slots ts) = slots (take i ts @ drop (Suc i) ts)"
proof -
  have gen: "shift_left k j arr = take j arr @ take k (drop (Suc j) arr) @ (0, None) # drop (Suc (j + k)) arr"
    if "j + k < length arr" for k j and arr :: "'a timer list"
    using that
  proof (induction k arbitrary: j arr)
    case 0
    then show ?case by (simp add: upd_conv_take_nth_drop)
  next
    case (Suc k)
    have a: "arr[j := arr ! Suc j] = take j arr @ arr ! Suc j # drop (Suc j) arr"
      using Suc.prems by (simp add: upd_conv_take_nth_drop)
    have d: "drop (Suc j) arr = arr ! Suc j # drop (Suc (Suc j)) arr"
      using Suc.prems by (simp add: Cons_nth_drop_Suc)
    show ?case
      using Suc.prems Suc.IH [of "Suc j" "arr[j := arr ! Suc j]"]
      by (simp add: a take_Suc_conv_app_nth d add.commute del: Cons_nth_drop_Suc)
  qed
  let ?k = "length ts - 1 - i"
  have "i + ?k < length (slots ts)" using assms by (simp add: slots_def)
  note gen [OF this]
  moreover have "Suc (i + ?k) = length ts" using assms by simp
  moreover have "take i (slots ts) = map (\<lambda>t. (timer_id t, Some t)) (take i ts)"
    using assms by (simp add: slots_def take_map)
  moreover have "take ?k (drop (Suc i) (slots ts)) = map (\<lambda>t. (timer_id t, Some t)) (drop (Suc i) ts)"
    using assms by (simp add: slots_def drop_map)
  moreover have "(0, None) # drop (length ts) (slots ts) = replicate (TIMER_MAX_COUNT - (length ts - 1)) (0, None)"
  proof -
    have "TIMER_MAX_COUNT - (length ts - 1) = Suc (TIMER_MAX_COUNT - length ts)" using assms by simp
    then show ?thesis by (simp add: slots_def)
  qed
  ultimately show ?thesis using assms by (simp add: slots_def)
qed

section \<open>What the operations do to the active timers\<close>

lemma set_timer_active:
  assumes "wf_timers s" "timer_num s < TIMER_MAX_COUNT" "a \<noteq> None \<longrightarrow> m2" "set_timer True m2 val cb a len s = (r, s')"
  shows "r = max_timer_id s"
    and "\<exists>t. active s' = active s @ [t] \<and> timer_id t = r \<and> time_val t = u32_of_int val \<and>
           timeout t = u32_of_int val \<and> callback t = cb \<and> args t = map_option (take (unat len)) a"
    and "max_timer_id s' = max_timer_id s + 1" and "timer_arr s' = slots (active s')" and "timer_num s' = length (active s')"
proof -
  obtain 1: "timer_arr s = slots (active s)" "timer_num s = length (active s)"
    using assms(1) by (rule wf_timersE)
  let ?t = "\<lparr>pt_node = next_node s, timer_id = max_timer_id s, time_val = u32_of_int val, timeout = u32_of_int val,
    callback = cb, args = map_option (take (unat len)) a, args_len = (if a \<noteq> None then ucast len else 0)\<rparr>"
  have arr: "timer_arr s' = slots (active s @ [?t])"
    using assms(2-4) 1 slots_append [of "active s" ?t] by (auto simp: set_timer_def Let_def split: if_splits)
  have num: "timer_num s' = length (active s @ [?t])"
    using assms(2-4) 1 by (auto simp: set_timer_def Let_def split: if_splits)
  have act: "active s' = active s @ [?t]" using active_slots [OF arr num] .
  show "r = max_timer_id s" and "max_timer_id s' = max_timer_id s + 1"
    using assms(2-4) by (auto simp: set_timer_def Let_def split: if_splits)
  then show "\<exists>t. active s' = active s @ [t] \<and> timer_id t = r \<and> time_val t = u32_of_int val \<and>
           timeout t = u32_of_int val \<and> callback t = cb \<and> args t = map_option (take (unat len)) a"
    by (intro exI [of _ ?t]) (simp add: act)
  show "timer_arr s' = slots (active s')" "timer_num s' = length (active s')" by (simp_all add: arr num act)
qed

lemma word_less_Suc: "w \<noteq> - 1 \<Longrightarrow> w < (w + 1 :: u32)"
  by (simp add: word_less_nat_alt unatSuc eq_neg_iff_add_eq_0 add.commute)

lemma set_timer_wf:
  assumes "wf_timers s" "max_timer_id s \<noteq> - 1"
  shows "wf_timers (snd (set_timer m1 m2 val cb a len s))"
proof (cases "timer_num s = TIMER_MAX_COUNT \<or> \<not> m1 \<or> (a \<noteq> None \<and> \<not> m2)")
  case True
  have "wf_timers (s\<lparr>max_timer_id := max_timer_id s + 1\<rparr>)"
    using assms(1) word_less_Suc [OF assms(2)]
    by (elim wf_timersE) (rule wf_timersI [of _ "active s"]; force intro: less_trans)
  with True assms(1) show ?thesis by (auto simp: set_timer_def Let_def)
next
  case False
  obtain 1: "timer_num s = length (active s)" "length (active s) \<le> TIMER_MAX_COUNT"
    "sorted_wrt (\<lambda>a b. timer_id a < timer_id b) (active s)" "\<forall>t \<in> set (active s). timer_id t < max_timer_id s"
    using assms(1) by (rule wf_timersE)
  obtain r s' where st: "set_timer m1 m2 val cb a len s = (r, s')" by fastforce
  with False have st': "set_timer True m2 val cb a len s = (r, s')" by simp
  have lt: "timer_num s < TIMER_MAX_COUNT" and m2: "a \<noteq> None \<longrightarrow> m2" using False 1 by auto
  note sa = set_timer_active [OF assms(1) lt m2 st']
  obtain t where act: "active s' = active s @ [t]" and t: "timer_id t = r" using sa(2) by blast
  have "wf_timers s'"
  proof (rule wf_timersI [of _ "active s'"])
    show "timer_arr s' = slots (active s')" "timer_num s' = length (active s')" by (fact sa)+
    show "length (active s') \<le> TIMER_MAX_COUNT" using act lt 1 by simp
    show "sorted_wrt (\<lambda>a b. timer_id a < timer_id b) (active s')"
      using 1(3,4) by (simp add: act sorted_wrt_append t sa(1))
    show "\<forall>t \<in> set (active s'). timer_id t < max_timer_id s'"
      using 1(4) word_less_Suc [OF assms(2)] by (auto simp: act t sa(1,3) intro: less_trans)
  qed
  with st show ?thesis by simp
qed

lemma upd_timer_wf:
  assumes "wf_timers s" "i < timer_num s" "\<And>t. timer_id (f t) = timer_id t"
  shows "\<exists>s'. upd_timer i f s = Ok s' \<and> wf_timers s' \<and> active s' = (active s)[i := f (active s ! i)]"
proof -
  obtain 1: "timer_arr s = slots (active s)" "timer_num s = length (active s)" "length (active s) \<le> TIMER_MAX_COUNT"
    "sorted_wrt (\<lambda>a b. timer_id a < timer_id b) (active s)" "\<forall>t \<in> set (active s). timer_id t < max_timer_id s"
    using assms(1) by (rule wf_timersE)
  let ?ts = "(active s)[i := f (active s ! i)]"
  let ?s = "s\<lparr>timer_arr := slots ?ts\<rparr>"
  have ids: "map timer_id ?ts = map timer_id (active s)"
    using assms(2) 1(2) by (simp add: map_update assms(3) list_update_same_conv)
  have sorted: "sorted_wrt (\<lambda>a b. timer_id a < timer_id b) ?ts"
    using 1(4) ids sorted_wrt_map [of "(<)" timer_id ?ts] sorted_wrt_map [of "(<)" timer_id "active s"] by simp
  have below: "\<forall>t \<in> set ?ts. timer_id t < max_timer_id s"
    using 1(5) ids by (metis (mono_tags, lifting) image_iff list.set_map)
  have "timer_arr s ! i = (timer_id (active s ! i), Some (active s ! i))"
    using assms(2) 1(1,2) by (simp add: slots_nth)
  then have "upd_timer i f s = Ok ?s"
    using assms(2,3) 1(1,2) slots_update [of i "active s" "f (active s ! i)"] by (simp add: upd_timer_def)
  moreover have "wf_timers ?s"
    using sorted below 1(2,3) by (intro wf_timersI [of _ ?ts]) auto
  moreover have "active ?s = ?ts" using 1(2) by (intro active_slots) auto
  ultimately show ?thesis by blast
qed

lemma find_timer_Some:
  assumes "wf_timers s"
  shows "find_timer tid s = Some i \<longleftrightarrow> i < timer_num s \<and> timer_id (active s ! i) = tid \<and>
           (\<forall>j < i. timer_id (active s ! j) \<noteq> tid)"
  using assms by (elim wf_timersE) (simp add: find_timer_slots find_index_Some)

lemma update_timer_wf:
  assumes "wf_timers s" shows "\<exists>r s'. update_timer tid s = Ok (r, s') \<and> wf_timers s'"
proof (cases "find_timer tid s")
  case None
  with assms show ?thesis by (simp add: update_timer_def)
next
  case (Some i)
  then have "i < timer_num s" using assms by (simp add: find_timer_Some)
  from upd_timer_wf [OF assms this, of "\<lambda>t. t\<lparr>timeout := time_val t\<rparr>"] Some assms
  show ?thesis by (auto simp: update_timer_def)
qed

lemma modify_timer_wf:
  assumes "wf_timers s" shows "\<exists>r s'. modify_timer tid v s = Ok (r, s') \<and> wf_timers s'"
proof (cases "find_timer tid s")
  case None
  with assms show ?thesis by (simp add: modify_timer_def)
next
  case (Some i)
  then have "i < timer_num s" using assms by (simp add: find_timer_Some)
  let ?f = "\<lambda>t :: 'a pma_timer. if timeout t > v then t\<lparr>time_val := v, timeout := v\<rparr> else t\<lparr>time_val := v\<rparr>"
  have "timer_id (?f t) = timer_id t" for t by simp
  from upd_timer_wf [of s i ?f, OF assms \<open>i < timer_num s\<close> this]
  obtain s' where "upd_timer i ?f s = Ok s'" "wf_timers s'" by blast
  with Some \<open>i < timer_num s\<close> show ?thesis by (auto simp: modify_timer_def)
qed

lemma unset_timer_found:
  assumes "wf_timers s" "find_timer tid s = Some i"
  shows "\<exists>s'. unset_timer tid s = Ok (0, s') \<and> wf_timers s' \<and> max_timer_id s' = max_timer_id s \<and>
           active s' = take i (active s) @ drop (Suc i) (active s)"
proof -
  obtain 1: "timer_arr s = slots (active s)" "timer_num s = length (active s)" "length (active s) \<le> TIMER_MAX_COUNT"
    "sorted_wrt (\<lambda>a b. timer_id a < timer_id b) (active s)" "\<forall>t \<in> set (active s). timer_id t < max_timer_id s"
    using assms(1) by (rule wf_timersE)
  have i: "i < length (active s)" using assms 1(2) by (simp add: find_timer_Some)
  let ?ts = "take i (active s) @ drop (Suc i) (active s)"
  let ?s = "s\<lparr>timer_head := remove1 (pt_node (active s ! i)) (timer_head s), timer_arr := slots ?ts,
              timer_num := timer_num s - 1\<rparr>"
  have "unset_timer tid s = Ok (0, ?s)"
    using assms(2) i 1(1-3) shift_left_slots [OF i 1(3)] by (auto simp: unset_timer_def slots_nth)
  moreover have len: "timer_num ?s = length ?ts" using i 1(2) by simp
  moreover have "wf_timers ?s"
  proof (rule wf_timersI [of _ ?ts])
    have "sorted_wrt (\<lambda>a b. timer_id a < timer_id b) (take i (active s) @ active s ! i # drop (Suc i) (active s))"
      using 1(4) i by (simp add: id_take_nth_drop [symmetric])
    then show "sorted_wrt (\<lambda>a b. timer_id a < timer_id b) ?ts" by (auto simp: sorted_wrt_append)
    show "\<forall>t \<in> set ?ts. timer_id t < max_timer_id ?s"
      using 1(5) by (auto dest: in_set_takeD in_set_dropD)
    show "length ?ts \<le> TIMER_MAX_COUNT" using 1(3) by simp
  qed (use len in simp_all)
  moreover have "active ?s = ?ts" using len by (intro active_slots) simp_all
  moreover have "max_timer_id ?s = max_timer_id s" by simp
  ultimately show ?thesis by blast
qed

lemma unset_timer_wf:
  assumes "wf_timers s" shows "\<exists>s'. unset_timer tid s = Ok (0, s') \<and> wf_timers s'"
  using assms unset_timer_found [of s tid] by (cases "find_timer tid s") (auto simp: unset_timer_def)

lemma tick_timer_id [simp]: "timer_id (fst (tick_timer t)) = timer_id t"
  by (simp add: tick_timer_def Let_def)

lemma exe_loop_slots:
  assumes "timer_arr s = slots (us @ ts)" "timer_num s = length (us @ ts)" "length (us @ ts) \<le> TIMER_MAX_COUNT"
  shows "exe_loop (length ts) (length us) s =
    Ok (s\<lparr>timer_arr := slots (us @ map (fst o tick_timer) ts)\<rparr>, concat (map (snd o tick_timer) ts))"
  using assms
proof (induction ts arbitrary: us s)
  case Nil
  then show ?case by simp
next
  case (Cons t ts)
  let ?t = "fst (tick_timer t)"
  let ?s = "s\<lparr>timer_arr := (timer_arr s)[length us := (timer_id t, Some ?t)]\<rparr>"
  have "timer_arr ?s = slots ((us @ [?t]) @ ts)"
    using Cons.prems slots_update [of "length us" "us @ t # ts" ?t] by simp
  with Cons.prems Cons.IH [of ?s "us @ [?t]"] show ?case
    by (auto simp: slots_nth split: prod.split)
qed

lemma exe_timer_callback_wf:
  assumes "wf_timers s"
  shows "\<exists>s'. exe_timer_callback s = Ok (s', concat (map (snd o tick_timer) (active s))) \<and> wf_timers s' \<and>
           active s' = map (fst o tick_timer) (active s)"
proof -
  obtain 1: "timer_arr s = slots (active s)" "timer_num s = length (active s)" "length (active s) \<le> TIMER_MAX_COUNT"
    "sorted_wrt (\<lambda>a b. timer_id a < timer_id b) (active s)" "\<forall>t \<in> set (active s). timer_id t < max_timer_id s"
    using assms(1) by (rule wf_timersE)
  let ?ts = "map (fst o tick_timer) (active s)"
  let ?s = "s\<lparr>timer_arr := slots ?ts\<rparr>"
  have "exe_timer_callback s = Ok (?s, concat (map (snd o tick_timer) (active s)))"
    using exe_loop_slots [of s "[]" "active s"] 1(1-3) by (simp add: exe_timer_callback_def)
  moreover have "wf_timers ?s"
    using 1(2-5) by (intro wf_timersI [of _ ?ts]) (auto simp: sorted_wrt_map)
  moreover have "active ?s = ?ts" using 1(2) by (intro active_slots) simp_all
  ultimately show ?thesis by blast
qed

section \<open>Properties\<close>

text \<open>
  \<^verbatim>\<open>timer_thread_daemon\<close> for as many seconds as there are results of \<^verbatim>\<open>pselect\<close>: the callbacks it passed to
  \<^verbatim>\<open>pthread_create\<close>, in order (whose result it ignores).  If \<^verbatim>\<open>pselect\<close> fails the daemon returns.
\<close>

fun timer_thread_daemon :: "bool list \<Rightarrow> 'c timer_state \<Rightarrow> ('c timer_state \<times> ('c \<times> u8 list option) list) res" where
  "timer_thread_daemon [] s = Ok (s, [])"
| "timer_thread_daemon (good # es) s =
     (if \<not> good then Ok (s, [])
      else res_bind (exe_timer_callback s)
        (\<lambda>(s1, fs). res_map (\<lambda>(s2, fs'). (s2, fs @ fs')) (timer_thread_daemon es s1)))"

text \<open>
  The steps other threads and the daemon take on the timers, \<^verbatim>\<open>clear_timer\<close> excepted.  A timer is
  set only while the counter of ids has not wrapped around.
\<close>

inductive timer_step :: "'c timer_state \<Rightarrow> 'c timer_state \<Rightarrow> bool" where
  step_set: "max_timer_id s \<noteq> - 1 \<Longrightarrow> timer_step s (snd (set_timer m1 m2 v cb a len s))"
| step_update: "update_timer tid s = Ok (r, s') \<Longrightarrow> timer_step s s'"
| step_modify: "modify_timer tid v s = Ok (r, s') \<Longrightarrow> timer_step s s'"
| step_unset: "unset_timer tid s = Ok (r, s') \<Longrightarrow> timer_step s s'"
| step_tick: "exe_timer_callback s = Ok (s', fs) \<Longrightarrow> timer_step s s'"

lemma timer_step_wf: "timer_step s s' \<Longrightarrow> wf_timers s \<Longrightarrow> wf_timers s'"
proof (induction rule: timer_step.induct)
  case (step_set s m1 m2 v cb a len)
  then show ?case by (simp add: set_timer_wf)
next
  case (step_update tid s r s')
  then show ?case using update_timer_wf [of s tid] by auto
next
  case (step_modify tid v s r s')
  then show ?case using modify_timer_wf [of s tid v] by auto
next
  case (step_unset tid s r s')
  then show ?case using unset_timer_wf [of s tid] by auto
next
  case (step_tick s s' fs)
  then show ?case using exe_timer_callback_wf [of s] by auto
qed

lemma timer_steps_wf: "timer_step\<^sup>*\<^sup>* s s' \<Longrightarrow> wf_timers s \<Longrightarrow> wf_timers s'"
  by (induction rule: rtranclp_induct) (auto intro: timer_step_wf)

text \<open>A state with one timer of period 3, for the witnesses.\<close>

definition one_timer :: "unit timer_state" where
  "one_timer = snd (set_timer True True 3 () None 0 timer_state_init)"

lemma one_timer_wf: "wf_timers one_timer"
  unfolding one_timer_def by (rule set_timer_wf [OF wf_timers_init]) (simp add: timer_state_init_def)

lemma one_timer_active:
  "active one_timer = [\<lparr>pt_node = 0, timer_id = 0, time_val = 3, timeout = 3, callback = (), args = None, args_len = 0\<rparr>]"
  by code_simp

text \<open>
  C29. Whatever sequence of set, update, modify, unset and tick operations the threads of the agent perform, each as a
  whole and with fewer than \<open>2\<^sup>3\<^sup>2\<close> timers set, the timer array stays well formed (the used slots are the first ones, they
  are not null, ids are distinct), so the next of these operations runs without a null dereference.  \<^verbatim>\<open>clear_timer\<close> is not
  among them: after it the next tick follows a null pointer (see below).
\<close>

theorem timers_reachable_safe:
  assumes "timer_step\<^sup>*\<^sup>* timer_state_init s"
  shows "wf_timers s \<and> is_ok (exe_timer_callback s) \<and> is_ok (unset_timer tid s) \<and>
         is_ok (update_timer tid s) \<and> is_ok (modify_timer tid v s)"
proof -
  have wf: "wf_timers s" using timer_steps_wf [OF assms wf_timers_init] .
  then show ?thesis
    using exe_timer_callback_wf [OF wf] unset_timer_wf [OF wf, of tid] update_timer_wf [OF wf, of tid]
      modify_timer_wf [OF wf, of tid v] by (auto simp: is_ok_iff)
qed

theorem timers_reachable_safe_witness:
  "is_ok (exe_timer_callback one_timer) \<and> is_ok (unset_timer 0 one_timer)"
proof -
  have "timer_step timer_state_init one_timer"
    unfolding one_timer_def by (rule step_set) (simp add: timer_state_init_def)
  then show ?thesis using timers_reachable_safe [of one_timer 0 0] by blast
qed

text \<open>
  Setting a timer while fewer than 100 are active (and memory is available) appends one timer
  with the requested period, callback and arguments behind the others, under an id no active
  timer has, and leaves the active ones as they were; with 100 active timers the call returns -1 and
  changes nothing.
\<close>

theorem set_timer_appends:
  assumes "wf_timers s" "set_timer True True val cb a len s = (r, s')"
  shows "if timer_num s = TIMER_MAX_COUNT then r = - 1 \<and> s' = s
         else (\<exists>t. active s' = active s @ [t] \<and> timer_id t = r \<and> time_val t = u32_of_int val \<and>
                 timeout t = u32_of_int val \<and> callback t = cb \<and> args t = map_option (take (unat len)) a) \<and>
              (\<forall>t \<in> set (active s). timer_id t \<noteq> r)"
proof (cases "timer_num s = TIMER_MAX_COUNT")
  case True
  with assms(2) show ?thesis by (simp add: set_timer_def)
next
  case False
  then have "timer_num s < TIMER_MAX_COUNT" using assms(1) by (simp add: wf_timers_def)
  from set_timer_active [OF assms(1) this _ assms(2)] False assms(1) show ?thesis
    by (auto simp: wf_timers_def)
qed

theorem set_timer_appends_witness:
  "active (snd (set_timer True True 3 () None 0 (timer_state_init :: unit timer_state))) \<noteq> []"
proof -
  obtain r s' where "set_timer True True 3 () None 0 (timer_state_init :: unit timer_state) = (r, s')"
    by (rule prod.exhaust)
  with set_timer_appends [OF wf_timers_init this] show ?thesis
    by (auto simp: timer_state_init_def TIMER_MAX_COUNT_def)
qed

text \<open>
  \<^verbatim>\<open>unset_timer\<close> removes exactly the timer with the given id, keeping the others and their
  order; it returns 0 in every case, also when there is no such timer.
\<close>

theorem unset_timer_removes:
  assumes "wf_timers s"
  shows "\<exists>s'. unset_timer tid s = Ok (0, s') \<and> active s' = filter (\<lambda>t. timer_id t \<noteq> tid) (active s)"
proof (cases "find_timer tid s")
  case None
  obtain "timer_arr s = slots (active s)" "timer_num s = length (active s)" using assms by (rule wf_timersE)
  with None have "\<forall>t \<in> set (active s). timer_id t \<noteq> tid" by (simp add: find_timer_slots find_index_None)
  with None show ?thesis by (simp add: unset_timer_def)
next
  case (Some i)
  obtain 1: "timer_num s = length (active s)" "sorted_wrt (\<lambda>a b. timer_id a < timer_id b) (active s)"
    using assms by (rule wf_timersE)
  have i: "i < length (active s)" "timer_id (active s ! i) = tid" using Some assms 1 by (simp_all add: find_timer_Some)
  have split: "active s = take i (active s) @ active s ! i # drop (Suc i) (active s)"
    using i by (simp add: id_take_nth_drop [symmetric])
  have "sorted_wrt (\<lambda>a b. timer_id a < timer_id b) (take i (active s) @ active s ! i # drop (Suc i) (active s))"
    using 1(2) split by simp
  then have "\<forall>t \<in> set (take i (active s) @ drop (Suc i) (active s)). timer_id t \<noteq> tid"
    using i(2) by (fastforce simp: sorted_wrt_append)
  then have "filter (\<lambda>t. timer_id t \<noteq> tid) (active s) = take i (active s) @ drop (Suc i) (active s)"
    using i(2) by (subst split) (simp add: filter_id_conv)
  with unset_timer_found [OF assms Some] show ?thesis by auto
qed

theorem unset_timer_removes_witness:
  "\<exists>s'. unset_timer 0 one_timer = Ok (0, s') \<and> active s' = []"
  using unset_timer_removes [OF one_timer_wf, of 0] by (simp add: one_timer_active)

text \<open>The firings of one timer over \<open>k\<close> seconds.\<close>

fun tick_fires :: "nat \<Rightarrow> 'c pma_timer \<Rightarrow> nat" where
  "tick_fires 0 t = 0"
| "tick_fires (Suc k) t = length (snd (tick_timer t)) + tick_fires k (fst (tick_timer t))"

lemma unat_minus_1: "w \<noteq> 0 \<Longrightarrow> unat (w - 1 :: u32) = unat w - 1"
  by (simp add: unat_sub_if_size unat_gt_0 Suc_leI)

lemma tick_fires_period:
  assumes "timeout t \<noteq> 0" "timeout t \<le> time_val t"
  shows "tick_fires k t = (k + unat (time_val t) - unat (timeout t)) div unat (time_val t)"
  using assms
proof (induction k arbitrary: t)
  case 0
  then have "0 < unat (timeout t)" "unat (timeout t) \<le> unat (time_val t)"
    by (simp_all add: word_le_nat_alt unat_gt_0)
  then show ?case by simp
next
  case (Suc k)
  show ?case
  proof (cases "timeout t = 1")
    case True
    then have "fst (tick_timer t) = t\<lparr>timeout := time_val t\<rparr>" "length (snd (tick_timer t)) = 1" "0 < unat (time_val t)"
      using Suc.prems by (auto simp: tick_timer_def Let_def unat_gt_0)
    moreover have "(k + unat (time_val t)) div unat (time_val t) = Suc (k div unat (time_val t))"
      using \<open>0 < unat (time_val t)\<close> by (metis Suc_eq_plus1 div_add_self2 less_not_refl2)
    ultimately show ?thesis using Suc.IH [of "t\<lparr>timeout := time_val t\<rparr>"] True by (auto simp: unat_gt_0)
  next
    case False
    then have t: "fst (tick_timer t) = t\<lparr>timeout := timeout t - 1\<rparr>" "length (snd (tick_timer t)) = 0"
      by (auto simp: tick_timer_def Let_def)
    have u: "unat (timeout t - 1) = unat (timeout t) - 1" "timeout t - 1 \<noteq> 0" "0 < unat (timeout t)"
      using Suc.prems False by (auto simp: unat_minus_1 unat_gt_0)
    moreover have "unat (timeout t) \<le> unat (time_val t)" using Suc.prems by (simp add: word_le_nat_alt)
    ultimately show ?thesis
      using Suc.IH [of "t\<lparr>timeout := timeout t - 1\<rparr>"] t by (simp add: word_le_nat_alt)
  qed
qed

definition cb_of :: "'c pma_timer \<Rightarrow> 'c \<times> u8 list option" where
  "cb_of t = (callback t, args t)"

lemma cb_of_tick [simp]: "cb_of (fst (tick_timer t)) = cb_of t"
  by (simp add: cb_of_def tick_timer_def Let_def)

lemma snd_tick_cb: "set (snd (tick_timer t)) \<subseteq> {cb_of t}"
  by (auto simp: cb_of_def tick_timer_def Let_def)

lemma count_tick: "count_list (snd (tick_timer t)) (cb_of t) = length (snd (tick_timer t))"
  by (auto simp: cb_of_def tick_timer_def Let_def)

lemma count_concat_tick:
  assumes "i < length ts" "\<forall>j < length ts. j \<noteq> i \<longrightarrow> cb_of (ts ! j) \<noteq> cb_of (ts ! i)"
  shows "count_list (concat (map (snd o tick_timer) ts)) (cb_of (ts ! i)) = length (snd (tick_timer (ts ! i)))"
proof -
  let ?c = "cb_of (ts ! i)"
  have other: "count_list (concat (map (snd o tick_timer) us)) ?c = 0" if "\<forall>u \<in> set us. cb_of u \<noteq> ?c" for us
  proof -
    have "?c \<notin> set (concat (map (snd o tick_timer) us))" using that snd_tick_cb by fastforce
    then show ?thesis by (simp add: count_notin)
  qed
  have "\<forall>u \<in> set (take i ts) \<union> set (drop (Suc i) ts). cb_of u \<noteq> ?c"
    using assms by (force simp: in_set_conv_nth)
  moreover have "map (snd o tick_timer) ts = map (snd o tick_timer) (take i ts) @ snd (tick_timer (ts ! i)) # map (snd o tick_timer) (drop (Suc i) ts)"
    using assms(1) by (subst id_take_nth_drop [of i ts]) simp_all
  ultimately show ?thesis using other [of "take i ts"] other [of "drop (Suc i) ts"] by (simp add: count_tick)
qed

lemma daemon_counts:
  assumes "wf_timers s" "i < length (active s)"
    "\<forall>j < length (active s). j \<noteq> i \<longrightarrow> cb_of (active s ! j) \<noteq> cb_of (active s ! i)"
  shows "\<exists>s' fs. timer_thread_daemon (replicate k True) s = Ok (s', fs) \<and> count_list fs (cb_of (active s ! i)) = tick_fires k (active s ! i)"
  using assms
proof (induction k arbitrary: s)
  case 0
  then show ?case by simp
next
  case (Suc k)
  from exe_timer_callback_wf [OF Suc.prems(1)] obtain s1 where
    1: "exe_timer_callback s = Ok (s1, concat (map (snd o tick_timer) (active s)))" "wf_timers s1"
       "active s1 = map (fst o tick_timer) (active s)" by blast
  from Suc.IH [OF 1(2)] Suc.prems(2,3) 1(3) obtain s' fs where
    "timer_thread_daemon (replicate k True) s1 = Ok (s', fs)"
    "count_list fs (cb_of (active s ! i)) = tick_fires k (fst (tick_timer (active s ! i)))" by auto
  with 1(1) count_concat_tick [OF Suc.prems(2,3)] show ?case by simp
qed

text \<open>
  C27. Timers are periodic: a timer with period \<open>p\<close> and remaining time \<open>r\<close>, \<open>0 < r \<le> p\<close>, whose callback no other active
  timer has, starts its callback exactly \<open>(k + p - r) div p\<close> times in the next \<open>k\<close> seconds (so first after \<open>r\<close> seconds
  and then every \<open>p\<close> seconds), whatever the other timers do, as long as \<^verbatim>\<open>pselect\<close> does not fail.
\<close>

theorem timer_fires_periodically:
  assumes "wf_timers s" "i < length (active s)"
    "\<forall>j < length (active s). j \<noteq> i \<longrightarrow> cb_of (active s ! j) \<noteq> cb_of (active s ! i)"
    "timeout (active s ! i) \<noteq> 0" "timeout (active s ! i) \<le> time_val (active s ! i)"
  shows "\<exists>s' fs. timer_thread_daemon (replicate k True) s = Ok (s', fs) \<and>
           count_list fs (cb_of (active s ! i)) =
             (k + unat (time_val (active s ! i)) - unat (timeout (active s ! i))) div unat (time_val (active s ! i))"
  using daemon_counts [OF assms(1-3)] tick_fires_period [OF assms(4,5)] by simp

theorem timer_fires_periodically_witness:
  "\<exists>s' fs. timer_thread_daemon (replicate 10 True) one_timer = Ok (s', fs) \<and> count_list fs ((), None) = 3"
  using timer_fires_periodically [OF one_timer_wf, of 0 10] by (simp add: one_timer_active cb_of_def)

lemma clear_loop_slots:
  assumes "snd (timer_arr s ! i) = Some t" "i < length (timer_arr s)" "clear_loop (Suc k) i s = Ok s'"
  shows "snd (timer_arr s' ! i) = None \<and> timer_num s' = timer_num s"
proof -
  have keep: "timer_arr s2 ! i = timer_arr s1 ! i \<and> timer_num s2 = timer_num s1"
    if "clear_loop k j s1 = Ok s2" "i < j" for k j and s1 s2 :: "'a timer_state"
    using that by (induction k j s1 rule: clear_loop.induct) (auto split: option.splits)
  from assms keep [of k "Suc i"] show ?thesis by (auto split: option.splits)
qed

lemma clear_loop_ok:
  assumes "\<forall>j < k. snd (timer_arr s ! (i + j)) \<noteq> None"
  shows "is_ok (clear_loop k i s)"
  using assms
proof (induction k i s rule: clear_loop.induct)
  case (2 k i s)
  then obtain t where "snd (timer_arr s ! i) = Some t" by (metis add.right_neutral option.exhaust zero_less_Suc)
  with 2 show ?case by (fastforce simp: nth_list_update)
qed simp

text \<open>
  \<^verbatim>\<open>clear_timer\<close> frees every active timer but keeps \<^verbatim>\<open>timer_num\<close>: if any timer was active, the
  daemon's next tick dereferences a null pointer.
\<close>

theorem clear_timer_breaks_tick:
  assumes "wf_timers s" "active s \<noteq> []"
  shows "\<exists>s'. clear_timer s = Ok (0, s') \<and> exe_timer_callback s' = Err NullDeref"
proof -
  obtain 1: "timer_arr s = slots (active s)" "timer_num s = length (active s)" "length (active s) \<le> TIMER_MAX_COUNT"
    using assms(1) by (rule wf_timersE)
  have "is_ok (clear_loop (timer_num s) 0 s)" using 1 by (intro clear_loop_ok) (simp add: slots_nth)
  then obtain s' where s': "clear_loop (timer_num s) 0 s = Ok s'" by (auto simp: is_ok_iff)
  obtain k where k: "timer_num s = Suc k" using assms(2) 1(2) by (metis length_0_conv not0_implies_Suc)
  have "snd (timer_arr s ! 0) = Some (active s ! 0)" "0 < length (timer_arr s)"
    using 1 assms(2) by (simp_all add: slots_nth) (simp add: slots_def)
  then have "snd (timer_arr s' ! 0) = None \<and> timer_num s' = timer_num s"
    using s' k by (intro clear_loop_slots) auto
  with s' k show ?thesis by (simp add: clear_timer_def exe_timer_callback_def)
qed

theorem clear_timer_breaks_tick_witness:
  "\<exists>s'. clear_timer one_timer = Ok (0, s') \<and> exe_timer_callback s' = Err NullDeref"
  using clear_timer_breaks_tick [OF one_timer_wf] by (simp add: one_timer_active)

end
