(* ===== verification/Ddc.thy ===== *)
theory Ddc
  imports Prelude
begin

text \<open>
  The path computation of \<^verbatim>\<open>ddc/ddc.c\<close>: the link-state rows of an area become a matrix of
  \<^verbatim>\<open>struct Netnode\<close>, a modified Dijkstra run per router fills in path costs and (equal-cost)
  next hops, every computed path is recorded under the links it uses, and the damage of the
  network is the share of the importance of broken paths.  The row functions of
  \<^verbatim>\<open>db/dbm_lsdb.c\<close>, which ask SQLite, are parameters (record \<open>lsdb_rows\<close>).
\<close>

section \<open>Data\<close>

definition MAX_METRIC :: nat where "MAX_METRIC = 2000"
definition MAX_INTERFACE :: int where "MAX_INTERFACE = 999"
definition MAX_ECMP_LIMIT :: nat where "MAX_ECMP_LIMIT = 4"
definition CONNECTING :: u32 where "CONNECTING = 1"
definition UNCONNECTING :: u32 where "UNCONNECTING = 0"

record link_info =
  areaid :: u32
  rid :: u32
  nrid :: u32
  ifid :: u32
  nifid :: u32
  metric :: u32
  status :: u32
  seq :: u32

definition zero_link :: link_info where
  "zero_link = \<lparr>areaid = 0, rid = 0, nrid = 0, ifid = 0, nifid = 0, metric = 0, status = 0, seq = 0\<rparr>"

text \<open>What the database answers: the areas, the routers of an area and their count, its link states,
  and the one link between two routers (zeroes when there is none, or more than one).  These are the answers of queries
  that succeed; the result -1 of a query that fails, which \<^verbatim>\<open>init_lsdb_info\<close> takes for a count, is not represented.\<close>

record lsdb_rows =
  get_areaes :: "int list"
  get_routers_count :: "int \<Rightarrow> nat"
  get_routers :: "int \<Rightarrow> u32 list"
  get_link_states :: "int \<Rightarrow> link_info list"
  query_link_state_details :: "int \<Rightarrow> u32 \<Rightarrow> u32 \<Rightarrow> link_info"

record netnode =
  nextHop :: u32
  nexthop :: "u32 list"           \<comment> \<open>\<^verbatim>\<open>u32 nexthop[MAX_ECMP_LIMIT]\<close>\<close>
  nexthop_count :: nat
  nmetric :: u32
  path_cost :: u32
  link_index :: u32
  link :: "nat option"            \<comment> \<open>index into \<^verbatim>\<open>lslist\<close>\<close>

record netpath =
  p_rid :: u32
  p_nrid :: u32
  connection :: u32
  importance_value :: u32
  distance_metric :: u32
  nexthop_rid :: u32

text \<open>
  The shortest paths live in \<open>paths\<close> and are named by their index there, so that the chain
  \<^verbatim>\<open>shortpaths\<close> and the chains of \<^verbatim>\<open>linkshadows\<close> share them.  The array of areas is not zeroed after
  its allocation: \<open>shortpaths = None\<close> is a pointer never written.
\<close>

record area_info =
  azid :: int
  routerlist :: "u32 list"
  router_count :: nat
  lslist :: "link_info list"
  ls_count :: nat
  backbone_count :: nat
  access_count :: nat
  nodeinfo :: "(nat \<times> u32) list"
  matrix :: "netnode list"
  paths :: "netpath list"
  shortpaths :: "nat list option"
  linkshadows :: "nat list list"

section \<open>Reading the link states of an area\<close>

definition init_lsdb_info :: "lsdb_rows \<Rightarrow> area_info list" where
  "init_lsdb_info q = map (\<lambda>a. \<lparr>azid = a, routerlist = get_routers q a, router_count = get_routers_count q a,
     lslist = get_link_states q a, ls_count = length (get_link_states q a), backbone_count = 0, access_count = 0,
     nodeinfo = [], matrix = [], paths = [], shortpaths = None, linkshadows = []\<rparr>) (get_areaes q)"

definition get_index_by_rid :: "u32 \<Rightarrow> area_info \<Rightarrow> int" where
  "get_index_by_rid r az =
     (case find (\<lambda>e. snd e = r) (take (router_count az) (nodeinfo az)) of Some (n, _) \<Rightarrow> int n | None \<Rightarrow> -1)"

definition get_rid_by_index :: "u32 \<Rightarrow> area_info \<Rightarrow> u32 res" where
  "get_rid_by_index i az =
     (if unat i < length (nodeinfo az) then Ok (snd (nodeinfo az ! unat i)) else Err OutOfBounds)"

definition empty_node :: netnode where
  "empty_node = \<lparr>nextHop = 0, nexthop = replicate MAX_ECMP_LIMIT 0, nexthop_count = 0,
     nmetric = of_nat MAX_METRIC, path_cost = 0, link_index = - 1, link = None\<rparr>"

definition is_access :: "link_info \<Rightarrow> bool" where
  "is_access l \<longleftrightarrow> nrid l = 0 \<and> nifid l = 0"

text \<open>One round of the loop over the link states: the cell of the link, addressed as
  \<^verbatim>\<open>matrix + x*router_count + y\<close>.\<close>

definition put_link :: "nat \<Rightarrow> area_info \<Rightarrow> area_info res" where
  "put_link j az =
     (let l = lslist az ! j
      in if is_access l then Ok (az\<lparr>access_count := Suc (access_count az)\<rparr>)
         else
           (let x = get_index_by_rid (rid l) az; y = get_index_by_rid (nrid l) az;
                k = x * int (router_count az) + y
            in if k < 0 \<or> k \<ge> int (length (matrix az)) then Err OutOfBounds
               else
                 (let n = matrix az ! nat k;
                      n1 = n\<lparr>link := Some j, link_index := of_nat j, nmetric := metric l, path_cost := metric l\<rparr>;
                      n2 = (if nmetric n1 < of_nat MAX_METRIC
                            then n1\<lparr>nexthop_count := 1, nexthop := (nexthop n1)[0 := u32_of_int y]\<rparr> else n1)
                  in Ok (az\<lparr>matrix := (matrix az)[nat k := n2], backbone_count := Suc (backbone_count az),
                            shortpaths := Some []\<rparr>))))"

definition init_lidb_area :: "area_info \<Rightarrow> area_info res" where
  "init_lidb_area az =
     (if length (routerlist az) < router_count az then Err NullDeref
      else
        (let n = router_count az;
             az1 = az\<lparr>nodeinfo := map (\<lambda>j. (j, routerlist az ! j)) [0..<n],
                      matrix := replicate (n * n) empty_node,
                      linkshadows := replicate (ls_count az) [],
                      access_count := 0, backbone_count := 0\<rparr>
         in res_for put_link [0..<ls_count az] az1))"

section \<open>The modified Dijkstra algorithm\<close>

text \<open>
  \<^verbatim>\<open>min_cost\<close>: an unvisited node of minimal positive cost below \<^verbatim>\<open>MAX_METRIC\<close>; among equals the one
  reached over the interface with the smallest number; 0 when there is none.
\<close>

type_synonym min_state = "int \<times> int \<times> nat"     \<comment> \<open>\<^verbatim>\<open>temp\<close>, \<^verbatim>\<open>min_ifindex\<close>, \<^verbatim>\<open>r_value\<close>\<close>

definition min_cost_round ::
  "lsdb_rows \<Rightarrow> area_info \<Rightarrow> nat \<Rightarrow> nat \<Rightarrow> int list \<Rightarrow> int list \<Rightarrow> nat \<Rightarrow> min_state \<Rightarrow> min_state res" where
  "min_cost_round q az tot sid v d i st =
     (case st of (temp, min_ifindex, r_value) \<Rightarrow>
        if v ! i = 0 \<and> d ! i \<le> temp \<and> d ! i \<noteq> 0
        then
          res_bind (get_rid_by_index (of_nat sid) az) (\<lambda>r.
          res_bind (get_rid_by_index (nexthop (matrix az ! (sid * tot + i)) ! 0) az) (\<lambda>nr.
            let cur_ifindex = int_of_u32 (ifid (query_link_state_details q (azid az) r nr))
            in Ok (if d ! i = temp
                   then (if min_ifindex > cur_ifindex then (d ! i, cur_ifindex, i) else st)
                   else (d ! i, cur_ifindex, i))))
        else Ok st)"

definition min_cost :: "lsdb_rows \<Rightarrow> int list \<Rightarrow> int list \<Rightarrow> nat \<Rightarrow> nat \<Rightarrow> area_info \<Rightarrow> nat res" where
  "min_cost q v d tot sid az =
     res_map (\<lambda>(_, _, r). r)
       (res_for (min_cost_round q az tot sid v d) [0..<tot] (int MAX_METRIC - 1, MAX_INTERFACE, 0))"

text \<open>
  \<^verbatim>\<open>nexthop_copy\<close>: the check of the limit comes after the write, so it never protects the array.
\<close>

fun nexthop_copy_loop :: "u32 list \<Rightarrow> nat \<Rightarrow> netnode \<Rightarrow> netnode res" where
  "nexthop_copy_loop [] i dst = Ok dst"
| "nexthop_copy_loop (h # hs) i dst =
     (if i \<ge> length (nexthop dst) then Err OutOfBounds
      else
        (let dst1 = dst\<lparr>nexthop := (nexthop dst)[i := h], nexthop_count := Suc (nexthop_count dst)\<rparr>
         in if nexthop_count dst1 > MAX_ECMP_LIMIT then Ok dst1
            else nexthop_copy_loop hs (Suc i) dst1))"

definition nexthop_copy :: "netnode \<Rightarrow> netnode \<Rightarrow> netnode res" where
  "nexthop_copy w dst =
     nexthop_copy_loop (take (nexthop_count w) (nexthop w)) 0 (dst\<lparr>nexthop_count := 0\<rparr>)"

text \<open>
  \<^verbatim>\<open>equal_path_copy\<close> appends the hops of \<open>w\<close> that are not among the first \<^verbatim>\<open>origin_ecmp_sum\<close> hops of
  \<open>dst\<close>, without any check of the limit.  (The first \<^verbatim>\<open>origin_ecmp_sum\<close> rounds of the source only
  count \<^verbatim>\<open>i\<close> and \<^verbatim>\<open>index\<close> up together.)
\<close>

fun equal_path_loop :: "u32 list \<Rightarrow> u32 list \<Rightarrow> nat \<Rightarrow> netnode \<Rightarrow> netnode res" where
  "equal_path_loop origin [] index dst = Ok dst"
| "equal_path_loop origin (h # hs) index dst =
     (if h \<in> set origin then equal_path_loop origin hs index dst
      else if index \<ge> length (nexthop dst) then Err OutOfBounds
      else equal_path_loop origin hs (Suc index)
             (dst\<lparr>nexthop := (nexthop dst)[index := h], nexthop_count := Suc (nexthop_count dst)\<rparr>))"

definition equal_path_copy :: "netnode \<Rightarrow> netnode \<Rightarrow> netnode res" where
  "equal_path_copy w dst =
     equal_path_loop (take (nexthop_count dst) (nexthop dst)) (take (nexthop_count w) (nexthop w)) (nexthop_count dst) dst"

text \<open>The relaxation of node \<open>j\<close> over the node \<open>w\<close> just visited.  The sum is computed unsigned.\<close>

definition relax :: "nat \<Rightarrow> nat \<Rightarrow> nat \<Rightarrow> int list \<Rightarrow> nat \<Rightarrow> int list \<times> netnode list \<Rightarrow> (int list \<times> netnode list) res" where
  "relax tot s w visite j st =
     (case st of (distance, mat) \<Rightarrow>
        if j = s then Ok (distance[j := 0], mat)
        else if visite ! j = 0
        then
          (let node_w = mat ! (s * tot + w); node_wj = mat ! (w * tot + j); node_dst = mat ! (s * tot + j);
               sum = int_of_u32 (u32_of_int (distance ! w) + nmetric node_wj)
           in if sum \<le> distance ! j
              then if sum < distance ! j
                   then res_map (\<lambda>nd. (distance[j := sum], mat[s * tot + j := nd])) (nexthop_copy node_w node_dst)
                   else res_map (\<lambda>nd. (distance, mat[s * tot + j := nd])) (equal_path_copy node_w node_dst)
              else Ok (distance, mat))
        else Ok (distance, mat))"

type_synonym dij_state = "int list \<times> int list \<times> area_info"    \<comment> \<open>\<^verbatim>\<open>visite\<close>, \<^verbatim>\<open>distance\<close>, area\<close>

definition dijkstra_round :: "lsdb_rows \<Rightarrow> nat \<Rightarrow> nat \<Rightarrow> dij_state \<Rightarrow> dij_state res" where
  "dijkstra_round q s i st =
     (case st of (visite, distance, az) \<Rightarrow>
        let tot = router_count az
        in res_bind (min_cost q visite distance tot s az) (\<lambda>w.
             let visite1 = visite[w := 1]
             in res_map (\<lambda>(distance1, mat). (visite1, distance1, az\<lparr>matrix := mat\<rparr>))
                  (res_for (relax tot s w visite1) [0..<tot] (distance, matrix az))))"

definition finish_node :: "nat \<Rightarrow> int \<Rightarrow> netnode \<Rightarrow> netnode" where
  "finish_node s d nd = nd\<lparr>path_cost := u32_of_int d,
     nextHop := (if nexthop_count nd \<noteq> 0 then nexthop nd ! 0 else of_nat s)\<rparr>"

definition dijkstra :: "lsdb_rows \<Rightarrow> nat \<Rightarrow> area_info \<Rightarrow> area_info res" where
  "dijkstra q s az =
     (let tot = router_count az;
          distance = map (\<lambda>i. int_of_u32 (nmetric (matrix az ! (s * tot + i)))) [0..<tot]
      in res_map
           (\<lambda>(_, dist, az1). az1\<lparr>matrix :=
              fold (\<lambda>i m. m[s * tot + i := finish_node s (dist ! i) (m ! (s * tot + i))]) [0..<tot] (matrix az1)\<rparr>)
           (res_for (dijkstra_round q s) [0..<tot] (replicate tot 0, distance, az)))"

section \<open>Recording the shortest paths\<close>

text \<open>
  Sums and products of importance values are of type \<^verbatim>\<open>int\<close> in the code; where they leave its range, which C leaves
  undefined, the model has the wrap-around that the compiled program shows.
\<close>

definition get_importance_value_of_router :: "u32 \<Rightarrow> area_info \<Rightarrow> u32" where
  "get_importance_value_of_router r az =
     sum_list (map metric (filter (\<lambda>l. r = rid l \<and> nifid l = 0 \<and> nrid l = 0) (take (ls_count az) (lslist az))))"

definition add_path_to_area_short_path :: "netpath \<Rightarrow> area_info \<Rightarrow> (nat \<times> area_info) res" where
  "add_path_to_area_short_path p az =
     (case shortpaths az of
        None \<Rightarrow> Err UninitPointer
      | Some ps \<Rightarrow> Ok (length (paths az),
          az\<lparr>paths := paths az @ [p], shortpaths := Some (length (paths az) # ps)\<rparr>))"

text \<open>The guard admits the index \<^verbatim>\<open>ls_count\<close>, one past the end.\<close>

definition add_path_of_link :: "int \<Rightarrow> nat \<Rightarrow> area_info \<Rightarrow> (int \<times> area_info) res" where
  "add_path_of_link li p az =
     (if int (ls_count az) < li \<or> li < 0 then Ok (-1, az)
      else if nat li \<ge> length (linkshadows az) then Err OutOfBounds
      else Ok (0, az\<lparr>linkshadows := (linkshadows az)[nat li := p # linkshadows az ! nat li]\<rparr>))"

text \<open>
  The \<^verbatim>\<open>while\<close> loop that follows the next hops from \<^verbatim>\<open>thisnode\<close> to \<open>j\<close>.  \<^verbatim>\<open>nextnode\<close> is read before
  \<^verbatim>\<open>thisnode\<close> moves, so every second round looks at the cell of a node with itself.
\<close>

fun trace_path :: "nat \<Rightarrow> nat \<Rightarrow> nat \<Rightarrow> nat \<Rightarrow> nat \<Rightarrow> int \<Rightarrow> area_info \<Rightarrow> area_info res" where
  "trace_path 0 n j p thisnode nh az = Err OutOfFuel"
| "trace_path (Suc fuel) n j p thisnode nh az =
     (if thisnode \<noteq> j \<and> nh \<ge> 0
      then if thisnode * n + j \<ge> length (matrix az) \<or> thisnode * n + nat nh \<ge> length (matrix az) then Err OutOfBounds
      else
        (let nextnode = matrix az ! (thisnode * n + j); stepnode = matrix az ! (thisnode * n + nat nh);
             ls_index = int_of_u32 (link_index stepnode)
         in res_bind (get_rid_by_index (of_nat thisnode) az) (\<lambda>_.
            res_bind (get_rid_by_index (u32_of_int nh) az) (\<lambda>_.
            res_bind (add_path_of_link ls_index p az) (\<lambda>(_, az1).
              trace_path fuel n j p (nat nh) (int_of_u32 (nextHop nextnode)) az1))))
      else Ok az)"

definition record_path :: "nat \<Rightarrow> nat \<Rightarrow> nat \<Rightarrow> area_info \<Rightarrow> area_info res" where
  "record_path fuel i j az =
     (let n = router_count az; node = matrix az ! (i * n + j)
      in if path_cost node \<ge> of_nat MAX_METRIC \<or> nmetric node = 0 then Ok az
         else
           res_bind (get_rid_by_index (of_nat i) az) (\<lambda>r.
           res_bind (get_rid_by_index (of_nat j) az) (\<lambda>nr.
           res_bind (add_path_to_area_short_path
             \<lparr>p_rid = r, p_nrid = nr, connection = CONNECTING,
              importance_value = get_importance_value_of_router r az * get_importance_value_of_router nr az,
              distance_metric = path_cost node, nexthop_rid = nextHop node\<rparr> az) (\<lambda>(p, az1).
             trace_path fuel n j p i (int_of_u32 (nextHop node)) az1))))"

definition record_short_path :: "nat \<Rightarrow> area_info \<Rightarrow> area_info res" where
  "record_short_path fuel az =
     (let n = router_count az
      in res_for (\<lambda>i. res_for (record_path fuel i) [0..<n]) [0..<n] az)"

section \<open>The computation of all areas\<close>

record ddc_state =
  already_computed :: bool
  azinfo :: "area_info list"

text \<open>The rounds of the tracing loop: two per hop of a path, and a path has fewer than
  \<^verbatim>\<open>MAX_METRIC\<close> hops, since every hop costs at least 1.\<close>

definition trace_fuel :: nat where "trace_fuel = 2 * MAX_METRIC + 1"

definition compute_area :: "lsdb_rows \<Rightarrow> area_info \<Rightarrow> area_info res" where
  "compute_area q az =
     res_bind (res_for (dijkstra q) [0..<router_count az] az) (record_short_path trace_fuel)"

fun res_all :: "('a \<Rightarrow> 'b res) \<Rightarrow> 'a list \<Rightarrow> 'b list res" where
  "res_all f [] = Ok []"
| "res_all f (x # xs) = res_bind (f x) (\<lambda>y. res_map (\<lambda>ys. y # ys) (res_all f xs))"

text \<open>Old results are freed first; the timer that started the computation is cancelled at the end
  (in \<^verbatim>\<open>server/dbm.c\<close>).\<close>

definition path_compute_start :: "lsdb_rows \<Rightarrow> ddc_state \<Rightarrow> ddc_state res" where
  "path_compute_start q st =
     res_bind (res_all init_lidb_area (init_lsdb_info q)) (\<lambda>azs.
     res_map (\<lambda>azs'. \<lparr>already_computed = True, azinfo = azs'\<rparr>) (res_all (compute_area q) azs))"

section \<open>Damage\<close>

definition get_area_by_areaid :: "u32 \<Rightarrow> ddc_state \<Rightarrow> nat option" where
  "get_area_by_areaid a st = find_index (\<lambda>az. u32_of_int (azid az) = a) (azinfo st)"

definition same_link :: "link_info \<Rightarrow> link_info \<Rightarrow> bool" where
  "same_link l ls \<longleftrightarrow> rid ls = rid l \<and> nrid ls = nrid l \<and> ifid ls = ifid l \<and> nifid ls = nifid l"

fun mark_down :: "nat list \<Rightarrow> netpath list \<Rightarrow> netpath list" where
  "mark_down [] ps = ps"
| "mark_down (p # pl) ps = mark_down pl (ps[p := (ps ! p)\<lparr>connection := UNCONNECTING\<rparr>])"

definition broken_path_down :: "link_info \<Rightarrow> area_info \<Rightarrow> area_info" where
  "broken_path_down l az =
     (case find_index (same_link l) (take (ls_count az) (lslist az)) of
        None \<Rightarrow> az
      | Some i \<Rightarrow> az\<lparr>paths := mark_down (linkshadows az ! i) (paths az)\<rparr>)"

definition record_broken_path_down :: "link_info \<Rightarrow> ddc_state \<Rightarrow> int \<times> ddc_state" where
  "record_broken_path_down l st =
     (case get_area_by_areaid (areaid l) st of
        None \<Rightarrow> (-1, st)
      | Some i \<Rightarrow> (0, st\<lparr>azinfo := (azinfo st)[i := broken_path_down l (azinfo st ! i)]\<rparr>))"

text \<open>The two sums of \<^verbatim>\<open>get_net_destory_degree\<close>; the quotient is taken in \<open>Fah\<close>.\<close>

definition net_values :: "area_info \<Rightarrow> (u32 \<times> u32) res" where
  "net_values az =
     (case shortpaths az of
        None \<Rightarrow> Err UninitPointer
      | Some ps \<Rightarrow> Ok (fold (\<lambda>p (broken, net).
            let path = paths az ! p
            in if connection path = CONNECTING then (broken, net + importance_value path)
               else (broken + importance_value path, net + importance_value path)) ps (0, 0)))"

end
