(* ===== verification/Spf.thy ===== *)
theory Spf
  imports Ddc
begin

text \<open>
  Correctness of the path computation of \<open>Ddc\<close>: the modified Dijkstra run of one router computes
  the cost of a cheapest route to every other router, cut off at \<^verbatim>\<open>MAX_METRIC\<close>, and next hops that
  lie on cheapest routes; no array of equal-cost next hops overflows as long as the router has at
  most four neighbours.
\<close>

section \<open>Routes\<close>

text \<open>\<open>route m n i j c\<close>: the routers below \<open>n\<close> with link metrics \<open>m\<close> have a route from \<open>i\<close> to \<open>j\<close> of
  cost \<open>c\<close>; a metric of at least \<^verbatim>\<open>MAX_METRIC\<close> is no link.\<close>

inductive route :: "(nat \<Rightarrow> nat \<Rightarrow> int) \<Rightarrow> nat \<Rightarrow> nat \<Rightarrow> nat \<Rightarrow> int \<Rightarrow> bool" for m n i where
  route_refl: "i < n \<Longrightarrow> route m n i i 0"
| route_step: "route m n i u c \<Longrightarrow> j < n \<Longrightarrow> m u j < int MAX_METRIC \<Longrightarrow> route m n i j (c + m u j)"

lemma route_cons:
  assumes "route m n h j c" "s < n" "h < n" "m s h < int MAX_METRIC"
  shows "route m n s j (m s h + c)"
  using assms
proof (induction rule: route.induct)
  case route_refl
  then show ?case using route_step [OF route.route_refl, of s n h m] by simp
next
  case (route_step u c j)
  then have "route m n s j (m s h + c + m u j)" by (intro route.route_step) auto
  then show ?case by (simp add: add.assoc)
qed

lemma route_less: "route m n i j c \<Longrightarrow> i < n \<and> j < n"
  by (induction rule: route.induct) auto

section \<open>Cells of the matrix\<close>

definition met :: "netnode list \<Rightarrow> nat \<Rightarrow> nat \<Rightarrow> nat \<Rightarrow> int" where
  "met M n i j = uint (nmetric (M ! (i * n + j)))"

lemma idx_less: "i < n \<Longrightarrow> j < n \<Longrightarrow> i * n + j < n * (n :: nat)"
proof -
  assume "i < n" "j < n"
  then have "i * n + j < Suc i * n" by simp
  also have "\<dots> \<le> n * n" using \<open>i < n\<close> by (intro mult_le_mono1) simp
  finally show ?thesis .
qed

lemma idx_inj: "i * n + j = i' * n + j' \<Longrightarrow> j < n \<Longrightarrow> j' < (n :: nat) \<Longrightarrow> i = i' \<and> j = j'"
  by (metis add.commute add_left_cancel div_less div_mult_self1 add_cancel_right_left gr_implies_not0)

lemma cell_update:
  assumes "length M = n * n" "s < n" "j < n" "a < n" "b < n"
  shows "M[s * n + j := x] ! (a * n + b) = (if a = s \<and> b = j then x else M ! (a * n + b))"
proof (cases "a = s \<and> b = j")
  case True
  then show ?thesis using assms idx_less [of s n j] by simp
next
  case False
  then have "a * n + b \<noteq> s * n + j" using idx_inj [of a n b s j] assms by blast
  with False show ?thesis by auto
qed

definition hops :: "netnode \<Rightarrow> nat list" where
  "hops nd = map unat (take (nexthop_count nd) (nexthop nd))"

text \<open>What the path computation never changes in a cell.\<close>

definition same_base :: "netnode \<Rightarrow> netnode \<Rightarrow> bool" where
  "same_base a b \<longleftrightarrow> nmetric a = nmetric b \<and> link_index a = link_index b \<and> link a = link b"

lemma same_base_refl [simp]: "same_base a a"
  by (simp add: same_base_def)

lemma same_base_trans: "same_base a b \<Longrightarrow> same_base b c \<Longrightarrow> same_base a c"
  by (simp add: same_base_def)

section \<open>Copying next hops\<close>

lemma nexthop_copy_loop_ok:
  assumes "i + length hs \<le> MAX_ECMP_LIMIT" "length (nexthop dst) = MAX_ECMP_LIMIT" "nexthop_count dst = i"
  shows "nexthop_copy_loop hs i dst =
    Ok (dst\<lparr>nexthop := take i (nexthop dst) @ hs @ drop (i + length hs) (nexthop dst), nexthop_count := i + length hs\<rparr>)"
  using assms
proof (induction hs arbitrary: i dst)
  case Nil
  then show ?case by simp
next
  case (Cons h hs)
  let ?d = "dst\<lparr>nexthop := (nexthop dst)[i := h], nexthop_count := Suc i\<rparr>"
  have "nexthop_copy_loop (h # hs) i dst = nexthop_copy_loop hs (Suc i) ?d"
    using Cons.prems by (simp add: Let_def)
  also have "\<dots> = Ok (?d\<lparr>nexthop := take (Suc i) (nexthop ?d) @ hs @ drop (Suc i + length hs) (nexthop ?d),
      nexthop_count := Suc i + length hs\<rparr>)"
    using Cons.prems by (intro Cons.IH) simp_all
  also have "take (Suc i) (nexthop ?d) = take i (nexthop dst) @ [h]"
    using Cons.prems by (simp add: take_Suc_conv_app_nth)
  finally show ?case by simp
qed

lemma nexthop_copy_ok:
  assumes "nexthop_count w \<le> MAX_ECMP_LIMIT" "length (nexthop w) = MAX_ECMP_LIMIT" "length (nexthop dst) = MAX_ECMP_LIMIT"
  shows "\<exists>nd. nexthop_copy w dst = Ok nd \<and> hops nd = hops w \<and> same_base nd dst \<and>
           length (nexthop nd) = MAX_ECMP_LIMIT \<and> nexthop_count nd = nexthop_count w"
  using assms nexthop_copy_loop_ok [of 0 "take (nexthop_count w) (nexthop w)" "dst\<lparr>nexthop_count := 0\<rparr>"]
  by (auto simp: nexthop_copy_def hops_def same_base_def)

lemma equal_path_loop_ok:
  assumes "index + length (filter (\<lambda>h. h \<notin> set origin) hs) \<le> MAX_ECMP_LIMIT"
    "length (nexthop dst) = MAX_ECMP_LIMIT" "nexthop_count dst = index"
  shows "equal_path_loop origin hs index dst =
    Ok (dst\<lparr>nexthop := take index (nexthop dst) @ filter (\<lambda>h. h \<notin> set origin) hs @
                 drop (index + length (filter (\<lambda>h. h \<notin> set origin) hs)) (nexthop dst),
            nexthop_count := index + length (filter (\<lambda>h. h \<notin> set origin) hs)\<rparr>)"
  using assms
proof (induction hs arbitrary: index dst)
  case Nil
  then show ?case by simp
next
  case (Cons h hs)
  show ?case
  proof (cases "h \<in> set origin")
    case True
    with Cons show ?thesis by simp
  next
    case False
    let ?xs = "filter (\<lambda>h. h \<notin> set origin) hs"
    let ?d = "dst\<lparr>nexthop := (nexthop dst)[index := h], nexthop_count := Suc index\<rparr>"
    have "equal_path_loop origin (h # hs) index dst = equal_path_loop origin hs (Suc index) ?d"
      using Cons.prems False by simp
    also have "\<dots> = Ok (?d\<lparr>nexthop := take (Suc index) (nexthop ?d) @ ?xs @ drop (Suc index + length ?xs) (nexthop ?d),
        nexthop_count := Suc index + length ?xs\<rparr>)"
      using Cons.prems False by (intro Cons.IH) simp_all
    also have "take (Suc index) (nexthop ?d) = take index (nexthop dst) @ [h]"
      using Cons.prems False by (simp add: take_Suc_conv_app_nth)
    finally show ?thesis using False by simp
  qed
qed

lemma equal_path_copy_ok:
  assumes "length (hops dst) + length (filter (\<lambda>h. h \<notin> set (hops dst)) (hops w)) \<le> MAX_ECMP_LIMIT"
    "length (nexthop dst) = MAX_ECMP_LIMIT" "nexthop_count dst \<le> MAX_ECMP_LIMIT"
  shows "\<exists>nd. equal_path_copy w dst = Ok nd \<and> hops nd = hops dst @ filter (\<lambda>h. h \<notin> set (hops dst)) (hops w) \<and>
           same_base nd dst \<and> length (nexthop nd) = MAX_ECMP_LIMIT \<and> nexthop_count nd \<le> MAX_ECMP_LIMIT"
proof -
  let ?o = "take (nexthop_count dst) (nexthop dst)"
  let ?xs = "filter (\<lambda>h. h \<notin> set ?o) (take (nexthop_count w) (nexthop w))"
  have f: "map unat ?xs = filter (\<lambda>h. h \<notin> set (hops dst)) (hops w)"
  proof -
    have "(unat x \<in> unat ` set ?o) = (x \<in> set ?o)" for x :: u32
      by (auto simp: image_iff dest: unsigned_word_eqI)
    then show ?thesis by (simp add: hops_def filter_map o_def)
  qed
  have len: "nexthop_count dst + length ?xs \<le> MAX_ECMP_LIMIT"
  proof -
    have "length (hops dst) = nexthop_count dst" using assms(2,3) by (simp add: hops_def)
    moreover have "length (filter (\<lambda>h. h \<notin> set (hops dst)) (hops w)) = length ?xs"
      unfolding f [symmetric] by (rule length_map)
    ultimately show ?thesis using assms(1) by simp
  qed
  have "equal_path_copy w dst = Ok (dst\<lparr>nexthop := ?o @ ?xs @ drop (nexthop_count dst + length ?xs) (nexthop dst),
            nexthop_count := nexthop_count dst + length ?xs\<rparr>)"
    unfolding equal_path_copy_def using len assms(2) by (intro equal_path_loop_ok) simp_all
  moreover have "hops (dst\<lparr>nexthop := ?o @ ?xs @ drop (nexthop_count dst + length ?xs) (nexthop dst),
            nexthop_count := nexthop_count dst + length ?xs\<rparr>) = hops dst @ map unat ?xs"
    using assms(2,3) by (simp add: hops_def min_absorb2)
  ultimately show ?thesis using f len assms(2) by (auto simp: same_base_def)
qed

section \<open>The invariant of the outer loop\<close>

text \<open>The metrics an area may have, seen from the router \<open>s\<close>.\<close>

definition good_metric :: "(nat \<Rightarrow> nat \<Rightarrow> int) \<Rightarrow> nat \<Rightarrow> nat \<Rightarrow> bool" where
  "good_metric m n s \<longleftrightarrow> s < n \<and> n < 2 ^ 32 \<and> (\<forall>i < n. \<forall>j < n. 1 \<le> m i j \<and> m i j \<le> int MAX_METRIC) \<and>
     m s s = int MAX_METRIC \<and> card {h. h < n \<and> m s h < int MAX_METRIC} \<le> MAX_ECMP_LIMIT"

definition hop_ok :: "(nat \<Rightarrow> nat \<Rightarrow> int) \<Rightarrow> nat \<Rightarrow> nat \<Rightarrow> nat \<Rightarrow> int \<Rightarrow> netnode \<Rightarrow> bool" where
  "hop_ok m n s j d nd \<longleftrightarrow> length (nexthop nd) = MAX_ECMP_LIMIT \<and> nexthop_count nd \<le> MAX_ECMP_LIMIT \<and>
     distinct (hops nd) \<and>
     (\<forall>h \<in> set (hops nd). h < n \<and> m s h < int MAX_METRIC \<and> (d < int MAX_METRIC \<longrightarrow> route m n h j (d - m s h))) \<and>
     (d < int MAX_METRIC \<longrightarrow> hops nd \<noteq> [])"

definition spf_inv ::
  "(nat \<Rightarrow> nat \<Rightarrow> int) \<Rightarrow> nat \<Rightarrow> nat \<Rightarrow> netnode list \<Rightarrow> int list \<Rightarrow> int list \<Rightarrow> netnode list \<Rightarrow> bool" where
  "spf_inv m n s M0 V D M \<longleftrightarrow> length V = n \<and> length D = n \<and> length M = n * n \<and>
     (\<forall>i < n. \<forall>j < n. same_base (M ! (i * n + j)) (M0 ! (i * n + j)) \<and> met M n i j = m i j \<and>
        (i \<noteq> s \<longrightarrow> M ! (i * n + j) = M0 ! (i * n + j))) \<and>
     nexthop_count (M ! (s * n + s)) = 0 \<and>
     (\<forall>j < n. j \<noteq> s \<longrightarrow> 1 \<le> D ! j \<and> D ! j \<le> m s j \<and> hop_ok m n s j (D ! j) (M ! (s * n + j))) \<and>
     D ! s \<in> {0, int MAX_METRIC}"

text \<open>Visited routers are settled.\<close>

definition settled :: "(nat \<Rightarrow> nat \<Rightarrow> int) \<Rightarrow> nat \<Rightarrow> nat \<Rightarrow> int list \<Rightarrow> int list \<Rightarrow> bool" where
  "settled m n s V D \<longleftrightarrow> (\<forall>u < n. \<forall>j < n. u \<noteq> s \<longrightarrow> j \<noteq> s \<longrightarrow> V ! u \<noteq> 0 \<longrightarrow> D ! u < int MAX_METRIC \<longrightarrow>
     D ! j \<le> D ! u + m u j \<and> (V ! j = 0 \<longrightarrow> D ! u \<le> D ! j))"

definition exhausted :: "nat \<Rightarrow> nat \<Rightarrow> int list \<Rightarrow> int list \<Rightarrow> bool" where
  "exhausted n s V D \<longleftrightarrow> (\<forall>j < n. j \<noteq> s \<longrightarrow> V ! j = 0 \<longrightarrow> D ! j \<ge> int MAX_METRIC)"

text \<open>The node \<^verbatim>\<open>min_cost\<close> returns.\<close>

definition candidate :: "int list \<Rightarrow> int list \<Rightarrow> nat \<Rightarrow> bool" where
  "candidate V D i \<longleftrightarrow> V ! i = 0 \<and> D ! i < int MAX_METRIC \<and> D ! i \<noteq> 0"

definition min_chosen :: "nat \<Rightarrow> int list \<Rightarrow> int list \<Rightarrow> nat \<Rightarrow> bool" where
  "min_chosen k V D w \<longleftrightarrow>
     (w < k \<and> candidate V D w \<and> (\<forall>j < k. candidate V D j \<longrightarrow> D ! w \<le> D ! j)) \<or>
     (w = 0 \<and> (\<forall>j < k. \<not> candidate V D j))"

lemma get_rid_by_index_ok: "i < length (nodeinfo az) \<Longrightarrow> i < 2 ^ 32 \<Longrightarrow> \<exists>r. get_rid_by_index (of_nat i) az = Ok r"
  by (simp add: get_rid_by_index_def unat_of_nat take_bit_nat_eq_self)

lemma get_rid_by_index_ok': "unat i < length (nodeinfo az) \<Longrightarrow> \<exists>r. get_rid_by_index i az = Ok r"
  by (simp add: get_rid_by_index_def)

lemma hop_ok_hd:
  assumes "hop_ok m n s j d nd" "d < int MAX_METRIC"
  shows "unat (nexthop nd ! 0) \<in> set (hops nd) \<and> nexthop_count nd \<noteq> 0"
proof -
  have "hops nd \<noteq> []" using assms by (simp add: hop_ok_def)
  then have "hd (hops nd) = unat (nexthop nd ! 0)" "nexthop_count nd \<noteq> 0"
    by (auto simp: hops_def hd_map hd_conv_nth)
  then show ?thesis using \<open>hops nd \<noteq> []\<close> by (metis list.set_sel(1))
qed

lemma min_cost_ok:
  assumes g: "good_metric m n s" and inv: "spf_inv m n s M0 V D (matrix az)" and nl: "length (nodeinfo az) = n"
    and ifs: "\<And>a r nr. int_of_u32 (ifid (query_link_state_details q a r nr)) < MAX_INTERFACE"
  shows "\<exists>w. min_cost q V D n s az = Ok w \<and> min_chosen n V D w"
proof -
  let ?I = "\<lambda>i (temp, mi, r). (r < i \<and> candidate V D r \<and> temp = D ! r \<and> (\<forall>j < i. candidate V D j \<longrightarrow> D ! r \<le> D ! j)) \<or>
     (r = 0 \<and> temp = int MAX_METRIC - 1 \<and> mi = MAX_INTERFACE \<and> (\<forall>j < i. \<not> candidate V D j))"
  have "\<exists>st. res_for (min_cost_round q az n s V D) [0..<n] (int MAX_METRIC - 1, MAX_INTERFACE, 0) = Ok st \<and> ?I n st"
  proof (rule res_for_inv [where I = ?I])
    fix i st assume i: "i < n" and I: "?I i st"
    obtain temp mi r where st: "st = (temp, mi, r)" by (rule prod_cases3)
    have t: "temp < int MAX_METRIC" using I st by (auto simp: candidate_def)
    show "\<exists>st'. min_cost_round q az n s V D i st = Ok st' \<and> ?I (Suc i) st'"
    proof (cases "V ! i = 0 \<and> D ! i \<le> temp \<and> D ! i \<noteq> 0")
      case False
      then have "\<not> candidate V D i \<or> (candidate V D r \<and> temp = D ! r \<and> r < i \<and> D ! r \<le> D ! i)"
        using I st by (auto simp: candidate_def)
      with False I st show ?thesis by (auto simp: min_cost_round_def less_Suc_eq)
    next
      case True
      then have c: "candidate V D i" using t by (simp add: candidate_def)
      then have "i \<noteq> s" using inv g by (auto simp: spf_inv_def candidate_def)
      then have ho: "hop_ok m n s i (D ! i) (matrix az ! (s * n + i))" using inv i by (simp add: spf_inv_def)
      then have "unat (nexthop (matrix az ! (s * n + i)) ! 0) < n"
        using hop_ok_hd [OF ho] c by (auto simp: hop_ok_def candidate_def)
      then obtain nr where nr: "get_rid_by_index (nexthop (matrix az ! (s * n + i)) ! 0) az = Ok nr"
        using get_rid_by_index_ok' nl by metis
      obtain rr where rr: "get_rid_by_index (of_nat s) az = Ok rr"
        using get_rid_by_index_ok [of s az] g nl by (auto simp: good_metric_def)
      let ?c = "int_of_u32 (ifid (query_link_state_details q (azid az) rr nr))"
      have a: "min_cost_round q az n s V D i st =
          Ok (if D ! i = temp then (if mi > ?c then (D ! i, ?c, i) else st) else (D ! i, ?c, i))"
        using True st rr nr by (simp add: min_cost_round_def Let_def)
      have b: "?I (Suc i) (if D ! i = temp then (if mi > ?c then (D ! i, ?c, i) else st) else (D ! i, ?c, i))"
        using I st True c ifs [of "azid az" rr nr] by (auto simp: less_Suc_eq)
      show ?thesis by (rule exI, rule conjI, rule a, rule b)
    qed
  qed auto
  then show ?thesis by (auto simp: min_cost_def min_chosen_def)
qed

section \<open>Relaxing the neighbours of a visited router\<close>

lemma sum_no_wrap:
  assumes "0 \<le> a" "a \<le> int MAX_METRIC" "uint (x :: u32) \<le> int MAX_METRIC"
  shows "int_of_u32 (u32_of_int a + x) = a + uint x"
proof -
  have e: "u32_of_int a + x = u32_of_int (a + uint x)" by simp
  have i: "int_of_u32 (u32_of_int a + x) = signed_take_bit 31 (a + uint x)"
    by (subst e, subst signed_of_int) simp
  have "0 \<le> a + uint x" using assms(1) by (intro add_nonneg_nonneg) auto
  moreover have "a + uint x \<le> 4000" using assms(2,3) by (simp add: MAX_METRIC_def)
  ultimately have "- (2 ^ 31) \<le> a + uint x" "a + uint x < 2 ^ 31" by simp_all
  then show ?thesis unfolding i by (rule signed_take_bit_int_eq_self)
qed

lemma hops_card:
  assumes "distinct xs" "\<forall>h \<in> set xs. h < n \<and> m s h < int MAX_METRIC" "good_metric m n s"
  shows "length xs \<le> MAX_ECMP_LIMIT"
proof -
  have "card (set xs) \<le> card {h. h < n \<and> m s h < int MAX_METRIC}"
    using assms(2) by (intro card_mono) auto
  with assms(1,3) show ?thesis by (simp add: distinct_card good_metric_def)
qed

lemma hop_ok_extend:
  assumes "hop_ok m n s w dw nw" "dw < int MAX_METRIC" "j < n" "dw + m w j < int MAX_METRIC" "0 \<le> dw"
    "h \<in> set (hops nw)"
  shows "route m n h j (dw + m w j - m s h)"
proof -
  have "route m n h w (dw - m s h)" using assms by (simp add: hop_ok_def)
  then have "route m n h j (dw - m s h + m w j)" using assms by (intro route_step) auto
  then show ?thesis by (simp add: algebra_simps)
qed

text \<open>A relaxation that lowers the cost, and one that finds an equal cost.\<close>

lemma nexthop_copy_hop_ok:
  assumes "hop_ok m n s w dw nw" "hop_ok m n s j d nd" "dw < int MAX_METRIC" "0 \<le> dw" "j < n" "dw + m w j < int MAX_METRIC"
  shows "\<exists>nd'. nexthop_copy nw nd = Ok nd' \<and> same_base nd' nd \<and> hop_ok m n s j (dw + m w j) nd'"
proof -
  obtain nd' where nd': "nexthop_copy nw nd = Ok nd'" "hops nd' = hops nw" "same_base nd' nd"
      "length (nexthop nd') = MAX_ECMP_LIMIT" "nexthop_count nd' = nexthop_count nw"
    using nexthop_copy_ok [of nw nd] assms(1,2) by (auto simp: hop_ok_def)
  have "hop_ok m n s j (dw + m w j) nd'"
    using assms hop_ok_extend [OF assms(1,3,5,6,4)] by (simp add: hop_ok_def nd')
  with nd' show ?thesis by blast
qed

lemma equal_path_copy_hop_ok:
  assumes g: "good_metric m n s" and w: "hop_ok m n s w dw nw \<or> hops nw = []" and j: "hop_ok m n s j d nd"
    and e: "\<And>h. h \<in> set (hops nw) \<Longrightarrow> d < int MAX_METRIC \<Longrightarrow> route m n h j (d - m s h)"
  shows "\<exists>nd'. equal_path_copy nw nd = Ok nd' \<and> same_base nd' nd \<and> hop_ok m n s j d nd'"
proof -
  let ?xs = "hops nd @ filter (\<lambda>h. h \<notin> set (hops nd)) (hops nw)"
  have d: "distinct ?xs" using w j by (auto simp: hop_ok_def)
  have nb: "\<forall>h \<in> set ?xs. h < n \<and> m s h < int MAX_METRIC" using w j by (auto simp: hop_ok_def)
  have "length ?xs \<le> MAX_ECMP_LIMIT" by (rule hops_card [OF d nb g])
  then obtain nd' where nd': "equal_path_copy nw nd = Ok nd'" "hops nd' = ?xs" "same_base nd' nd"
      "length (nexthop nd') = MAX_ECMP_LIMIT" "nexthop_count nd' \<le> MAX_ECMP_LIMIT"
    using equal_path_copy_ok [of nd nw] j by (auto simp: hop_ok_def)
  have "hop_ok m n s j d nd'"
    using d nb e j by (auto simp: hop_ok_def nd')
  with nd' show ?thesis by blast
qed

text \<open>The costs after a pass over all routers \<open>j < k\<close>.\<close>

definition relaxed :: "(nat \<Rightarrow> nat \<Rightarrow> int) \<Rightarrow> nat \<Rightarrow> nat \<Rightarrow> int \<Rightarrow> int list \<Rightarrow> int list \<Rightarrow> nat \<Rightarrow> int" where
  "relaxed m s w dw V D0 i = (if i = s then 0 else if V ! i = 0 then min (D0 ! i) (dw + m w i) else D0 ! i)"

definition relax_inv :: "(nat \<Rightarrow> nat \<Rightarrow> int) \<Rightarrow> nat \<Rightarrow> nat \<Rightarrow> nat \<Rightarrow> int \<Rightarrow> netnode list \<Rightarrow> int list \<Rightarrow> int list \<Rightarrow> netnode list
    \<Rightarrow> nat \<Rightarrow> int list \<times> netnode list \<Rightarrow> bool" where
  "relax_inv m n s w dw M0 V D0 M1 k st \<longleftrightarrow> (case st of (D, M) \<Rightarrow> spf_inv m n s M0 V D M \<and>
     M ! (s * n + w) = M1 ! (s * n + w) \<and>
     (\<forall>i < n. D ! i = (if i < k then relaxed m s w dw V D0 i else D0 ! i)))"

lemma spf_inv_cell:
  assumes "spf_inv m n s M0 V D M" "j < n" "s < n" "j \<noteq> s" "same_base nd (M ! (s * n + j))"
    "1 \<le> d" "d \<le> m s j" "hop_ok m n s j d nd"
  shows "spf_inv m n s M0 V (D[j := d]) (M[s * n + j := nd])"
proof -
  have "length M = n * n" using assms(1) by (simp add: spf_inv_def)
  note cell = cell_update [OF this assms(3,2)]
  have base: "same_base (M[s * n + j := nd] ! (a * n + b)) (M0 ! (a * n + b)) \<and>
      met (M[s * n + j := nd]) n a b = m a b \<and> (a \<noteq> s \<longrightarrow> M[s * n + j := nd] ! (a * n + b) = M0 ! (a * n + b))"
    if "a < n" "b < n" for a b
  proof -
    have "same_base (M ! (a * n + b)) (M0 ! (a * n + b)) \<and> met M n a b = m a b \<and>
        (a \<noteq> s \<longrightarrow> M ! (a * n + b) = M0 ! (a * n + b))"
      using assms(1) that by (simp add: spf_inv_def)
    with assms(5) that show ?thesis by (auto simp: cell met_def same_base_def)
  qed
  have hop: "1 \<le> D[j := d] ! i \<and> D[j := d] ! i \<le> m s i \<and> hop_ok m n s i (D[j := d] ! i) (M[s * n + j := nd] ! (s * n + i))"
    if "i < n" "i \<noteq> s" for i
  proof -
    have "1 \<le> D ! i \<and> D ! i \<le> m s i \<and> hop_ok m n s i (D ! i) (M ! (s * n + i))" "length D = n"
      using assms(1) that by (simp_all add: spf_inv_def)
    with assms(3,6-8) that show ?thesis by (simp add: cell nth_list_update)
  qed
  have "length V = n" "length D = n" "length M = n * n" "nexthop_count (M ! (s * n + s)) = 0" "D ! s \<in> {0, int MAX_METRIC}"
    using assms(1) by (simp_all add: spf_inv_def)
  with base hop assms(3,4) show ?thesis by (simp add: spf_inv_def cell)
qed

lemma relax_step:
  assumes g: "good_metric m n s" and w: "w < n" "V ! w \<noteq> 0" "w = s \<Longrightarrow> s = 0"
    and dw: "dw = (if w = s then 0 else D0 ! w)"
    and hw: "w \<noteq> s \<Longrightarrow> hop_ok m n s w (D0 ! w) (M1 ! (s * n + w)) \<and> 1 \<le> D0 ! w \<and> D0 ! w \<le> m s w"
    and D0: "\<forall>i < n. i \<noteq> s \<longrightarrow> 1 \<le> D0 ! i \<and> D0 ! i \<le> m s i"
    and hs: "hops (M1 ! (s * n + s)) = []"
    and j: "j < n" and inv: "relax_inv m n s w dw M0 V D0 M1 j (D, M)"
  shows "\<exists>st. relax n s w V j (D, M) = Ok st \<and> relax_inv m n s w dw M0 V D0 M1 (Suc j) st"
proof -
  have sn: "s < n" using g by (simp add: good_metric_def)
  have inv': "spf_inv m n s M0 V D M" and Mw: "M ! (s * n + w) = M1 ! (s * n + w)"
    and D: "\<And>i. i < n \<Longrightarrow> D ! i = (if i < j then relaxed m s w dw V D0 i else D0 ! i)"
    using inv by (auto simp: relax_inv_def)
  consider (src) "j = s" | (vis) "j \<noteq> s" "V ! j \<noteq> 0" | (rel) "j \<noteq> s" "V ! j = 0" by blast
  then show ?thesis
  proof cases
    case src
    have "spf_inv m n s M0 V (D[s := 0]) M"
      using inv' sn by (auto simp: spf_inv_def nth_list_update)
    then show ?thesis
      using src j D Mw inv' by (auto simp: relax_def relax_inv_def nth_list_update relaxed_def spf_inv_def less_Suc_eq)
  next
    case vis
    then show ?thesis
      using D [OF j] inv by (auto simp: relax_def relax_inv_def relaxed_def less_Suc_eq)
  next
    case rel
    have Dw: "D ! w = dw"
    proof (cases "w = s")
      case True
      with w(3) rel have "s < j" by simp
      with True dw D [OF w(1)] show ?thesis by (simp add: relaxed_def)
    next
      case False
      with w(2) dw D [OF w(1)] show ?thesis by (simp add: relaxed_def)
    qed
    have wj: "w \<noteq> j" using rel w(2) by auto
    have Dj: "D ! j = D0 ! j" using D [OF j] by simp
    have mb: "1 \<le> m w j" "m w j \<le> int MAX_METRIC" "m s j \<le> int MAX_METRIC" using g w(1) j by (auto simp: good_metric_def)
    have dwb: "0 \<le> dw" "dw \<le> int MAX_METRIC"
      using dw hw g w(1) by (auto simp: good_metric_def intro: order_trans)
    have mw: "uint (nmetric (M ! (w * n + j))) = m w j" using inv' w(1) j by (auto simp: spf_inv_def met_def)
    have sum: "int_of_u32 (u32_of_int (D ! w) + nmetric (M ! (w * n + j))) = dw + m w j"
      using sum_no_wrap [of dw "nmetric (M ! (w * n + j))"] dwb mb mw Dw by simp
    have hj: "hop_ok m n s j (D ! j) (M ! (s * n + j))" and Djb: "1 \<le> D ! j" "D ! j \<le> m s j"
      using inv' j rel by (auto simp: spf_inv_def)
    have keepw: "M[s * n + j := nd] ! (s * n + w) = M1 ! (s * n + w)" for nd using wj Mw by simp
    have close: "relax_inv m n s w dw M0 V D0 M1 (Suc j) (D[j := min (D0 ! j) (dw + m w j)], M[s * n + j := nd])"
      if "same_base nd (M ! (s * n + j))" "hop_ok m n s j (min (D0 ! j) (dw + m w j)) nd" for nd
    proof -
      have "1 \<le> min (D0 ! j) (dw + m w j)" "min (D0 ! j) (dw + m w j) \<le> m s j" using Djb Dj dwb mb by auto
      then have "spf_inv m n s M0 V (D[j := min (D0 ! j) (dw + m w j)]) (M[s * n + j := nd])"
        using that by (intro spf_inv_cell [OF inv' j sn rel(1)]) auto
      then show ?thesis
        using D rel keepw inv' j by (auto simp: relax_inv_def nth_list_update relaxed_def spf_inv_def less_Suc_eq)
    qed
    consider (less) "dw + m w j < D ! j" | (eq) "dw + m w j = D ! j" | (more) "dw + m w j > D ! j" by linarith
    then show ?thesis
    proof cases
      case less
      have "w \<noteq> s" using less dw Djb by auto
      then have h: "hop_ok m n s w dw (M ! (s * n + w))" using hw dw Mw by simp
      have lt: "dw + m w j < int MAX_METRIC" "dw < int MAX_METRIC" using less Djb mb by linarith+
      from nexthop_copy_hop_ok [OF h hj lt(2) dwb(1) j lt(1)] obtain nd where
        nd: "nexthop_copy (M ! (s * n + w)) (M ! (s * n + j)) = Ok nd" "same_base nd (M ! (s * n + j))"
          "hop_ok m n s j (dw + m w j) nd" by blast
      have "relax n s w V j (D, M) = Ok (D[j := dw + m w j], M[s * n + j := nd])"
        using rel less nd(1) sum by (simp add: relax_def Let_def)
      moreover have "min (D0 ! j) (dw + m w j) = dw + m w j" using less Dj by simp
      ultimately show ?thesis using close [of nd] nd(2,3) by simp
    next
      case eq
      have r: "route m n h j (D ! j - m s h)" if "h \<in> set (hops (M ! (s * n + w)))" "D ! j < int MAX_METRIC" for h
      proof -
        have "w \<noteq> s" using that(1) hs Mw by auto
        then have "hop_ok m n s w dw (M ! (s * n + w))" using hw dw Mw by simp
        from hop_ok_extend [OF this _ j _ dwb(1) that(1)] that(2) eq mb show ?thesis by simp
      qed
      have w': "hop_ok m n s w dw (M ! (s * n + w)) \<or> hops (M ! (s * n + w)) = []"
        using hw dw Mw hs by (cases "w = s") auto
      from equal_path_copy_hop_ok [OF g w' hj r] obtain nd where
        nd: "equal_path_copy (M ! (s * n + w)) (M ! (s * n + j)) = Ok nd" "same_base nd (M ! (s * n + j))"
          "hop_ok m n s j (D ! j) nd" by blast
      have "relax n s w V j (D, M) = Ok (D, M[s * n + j := nd])"
        using rel eq nd(1) sum by (simp add: relax_def Let_def)
      moreover have "min (D0 ! j) (dw + m w j) = D ! j" using eq Dj by simp
      ultimately show ?thesis using close [of nd] nd(2,3) by simp
    next
      case more
      have "relax n s w V j (D, M) = Ok (D, M)" using rel more sum by (simp add: relax_def Let_def)
      moreover have "min (D0 ! j) (dw + m w j) = D ! j" using more Dj by simp
      ultimately show ?thesis using close [of "M ! (s * n + j)"] hj by simp
    qed
  qed
qed

section \<open>The outer loop\<close>

definition visited :: "nat \<Rightarrow> nat \<Rightarrow> int list \<Rightarrow> nat set" where
  "visited n s V = {i. i < n \<and> i \<noteq> s \<and> V ! i \<noteq> 0}"

definition progress :: "nat \<Rightarrow> nat \<Rightarrow> nat \<Rightarrow> int list \<Rightarrow> int list \<Rightarrow> bool" where
  "progress n s k V D \<longleftrightarrow> exhausted n s V D \<or>
     (k \<le> card (visited n s V) \<and> (\<forall>j \<in> visited n s V. D ! j < int MAX_METRIC))"

text \<open>The settled routers after a round, for a router \<open>w\<close> of minimal cost and when there is none.\<close>

lemma settled_candidate:
  assumes g: "good_metric m n s" and set: "settled m n s V D" and prog: "progress n s k V D"
    and w: "w < n" "w \<noteq> s" "candidate V D w" "\<forall>j < n. candidate V D j \<longrightarrow> D ! w \<le> D ! j"
    and D: "length V = n" "\<forall>j < n. j \<noteq> s \<longrightarrow> 1 \<le> D ! j"
    and D': "\<forall>i < n. D' ! i = relaxed m s w (D ! w) (V[w := 1]) D i"
  shows "settled m n s (V[w := 1]) D' \<and> progress n s (Suc k) (V[w := 1]) D'"
proof
  have Vw: "V ! w = 0" "D ! w < int MAX_METRIC" using w(3) by (auto simp: candidate_def)
  have nex: "\<not> exhausted n s V D" using w Vw by (auto simp: exhausted_def)
  then have k: "k \<le> card (visited n s V)" and vis: "\<forall>j \<in> visited n s V. D ! j < int MAX_METRIC"
    using prog by (auto simp: progress_def)
  have V1: "V[w := 1] ! i = (if i = w then 1 else V ! i)" if "i < n" for i
    using that D(1) by (simp add: nth_list_update)
  have old: "D ! u \<le> D ! w" if "u < n" "u \<noteq> s" "V ! u \<noteq> 0" for u
    using set w(1,2) Vw(1) vis that by (auto simp: settled_def visited_def)
  have new: "D ! w \<le> D ! j" if "j < n" "j \<noteq> s" "V ! j = 0" for j
    using w(4) D(2) Vw(2) that by (force simp: candidate_def)
  have mpos: "1 \<le> m u j" if "u < n" "j < n" for u j using g that by (simp add: good_metric_def)
  show "settled m n s (V[w := 1]) D'"
    unfolding settled_def
  proof (intro allI impI)
    fix u j assume u: "u < n" "u \<noteq> s" "V[w := 1] ! u \<noteq> 0" "D' ! u < int MAX_METRIC" and j: "j < n" "j \<noteq> s"
    have Du: "D' ! u = D ! u" using D' u by (simp add: relaxed_def)
    have Dj: "D' ! j = (if V[w := 1] ! j = 0 then min (D ! j) (D ! w + m w j) else D ! j)"
      using D' j by (simp add: relaxed_def)
    have uw: "D ! u \<le> D ! w" using old [of u] u V1 [OF u(1)] by (cases "u = w") auto
    have "D' ! j \<le> D ! u + m u j"
    proof (cases "u = w")
      case True
      show ?thesis
      proof (cases "V[w := 1] ! j = 0")
        case True
        with Dj \<open>u = w\<close> show ?thesis by simp
      next
        case False
        then have "D ! j \<le> D ! w" using old [of j] j V1 [OF j(1)] by (cases "j = w") auto
        with False Dj True mpos [OF u(1) j(1)] show ?thesis by simp
      qed
    next
      case False
      then have "D ! j \<le> D ! u + m u j" using set u j Du V1 [OF u(1)] by (auto simp: settled_def)
      with Dj show ?thesis by auto
    qed
    moreover have "D ! u \<le> D' ! j" if "V[w := 1] ! j = 0"
    proof -
      have "V ! j = 0" using that V1 [OF j(1)] by (auto split: if_splits)
      then have "D ! w \<le> D ! j" using new j by blast
      with uw Dj that mpos [OF w(1) j(1)] show ?thesis by simp
    qed
    ultimately show "D' ! j \<le> D' ! u + m u j \<and> (V[w := 1] ! j = 0 \<longrightarrow> D' ! u \<le> D' ! j)" using Du by simp
  qed
  have "visited n s (V[w := 1]) = insert w (visited n s V)" using w(1,2) V1 by (auto simp: visited_def split: if_splits)
  moreover have "w \<notin> visited n s V" "finite (visited n s V)" using Vw by (auto simp: visited_def)
  moreover have "D' ! j = D ! j" if "j \<in> insert w (visited n s V)" for j
    using that D' V1 w(1,2) by (auto simp: relaxed_def visited_def)
  ultimately show "progress n s (Suc k) (V[w := 1]) D'" using k vis Vw(2) by (auto simp: progress_def)
qed

lemma settled_fallback:
  assumes g: "good_metric m n s" and set: "settled m n s V D"
    and w: "w < n" and none: "\<forall>j < n. \<not> candidate V D j"
    and D: "length V = n" "\<forall>j < n. j \<noteq> s \<longrightarrow> 1 \<le> D ! j \<and> D ! j \<le> m s j"
    and D': "\<forall>i < n. D' ! i = relaxed m s w (if w = s then 0 else D ! w) (V[w := 1]) D i"
  shows "settled m n s (V[w := 1]) D' \<and> exhausted n s (V[w := 1]) D'"
proof
  have ex: "D ! j \<ge> int MAX_METRIC" if "j < n" "j \<noteq> s" "V ! j = 0" for j
    using none D(2) that by (force simp: candidate_def)
  have V1: "V[w := 1] ! i = (if i = w then 1 else V ! i)" if "i < n" for i
    using that D(1) by (simp add: nth_list_update)
  have mb: "1 \<le> m u j \<and> m u j \<le> int MAX_METRIC" if "u < n" "j < n" for u j using g that by (simp add: good_metric_def)
  have sn: "s < n" using g by (simp add: good_metric_def)
  have same: "D' ! j = D ! j" if j: "j < n" "j \<noteq> s" for j
  proof -
    have "D ! j \<le> (if w = s then 0 else D ! w) + m w j"
    proof (cases "w = s")
      case True
      with D(2) j show ?thesis by simp
    next
      case False
      show ?thesis
      proof (cases "D ! w < int MAX_METRIC")
        case True
        then have "V ! w \<noteq> 0" using ex [OF w False] by auto
        with True False set w j show ?thesis by (simp add: settled_def)
      next
        case False
        have "D ! j \<le> int MAX_METRIC" using D(2) j mb [OF sn j(1)] by (auto intro: order_trans)
        with False \<open>w \<noteq> s\<close> mb [OF w j(1)] show ?thesis by simp
      qed
    qed
    with D' j show ?thesis by (simp add: relaxed_def)
  qed
  show "settled m n s (V[w := 1]) D'"
    unfolding settled_def
  proof (intro allI impI)
    fix u j assume u: "u < n" "u \<noteq> s" "V[w := 1] ! u \<noteq> 0" "D' ! u < int MAX_METRIC" and j: "j < n" "j \<noteq> s"
    have "V ! u \<noteq> 0" using u same [OF u(1,2)] ex [OF u(1,2)] by auto
    moreover have "V[w := 1] ! j = 0 \<longrightarrow> V ! j = 0" using V1 [OF j(1)] by auto
    ultimately show "D' ! j \<le> D' ! u + m u j \<and> (V[w := 1] ! j = 0 \<longrightarrow> D' ! u \<le> D' ! j)"
      using set u j same [OF u(1,2)] same [OF j] by (auto simp: settled_def)
  qed
  show "exhausted n s (V[w := 1]) D'"
    using same ex V1 by (auto simp: exhausted_def split: if_splits)
qed

definition outer_inv ::
  "(nat \<Rightarrow> nat \<Rightarrow> int) \<Rightarrow> nat \<Rightarrow> nat \<Rightarrow> area_info \<Rightarrow> nat \<Rightarrow> dij_state \<Rightarrow> bool" where
  "outer_inv m n s az0 k st \<longleftrightarrow> (case st of (V, D, az) \<Rightarrow>
     az = az0\<lparr>matrix := matrix az\<rparr> \<and> spf_inv m n s (matrix az0) V D (matrix az) \<and> settled m n s V D \<and>
     progress n s k V D \<and> (0 < k \<longrightarrow> D ! s = 0))"

lemma dijkstra_round_ok:
  assumes g: "good_metric m n s" and nl: "length (nodeinfo az0) = n" "router_count az0 = n"
    and ifs: "\<And>a r nr. int_of_u32 (ifid (query_link_state_details q a r nr)) < MAX_INTERFACE"
    and inv: "outer_inv m n s az0 k (V, D, az)"
  shows "\<exists>st. dijkstra_round q s i (V, D, az) = Ok st \<and> outer_inv m n s az0 (Suc k) st"
proof -
  have az: "az = az0\<lparr>matrix := matrix az\<rparr>" and si: "spf_inv m n s (matrix az0) V D (matrix az)"
    and set: "settled m n s V D" and prog: "progress n s k V D"
    using inv by (auto simp: outer_inv_def)
  have naz: "length (nodeinfo az) = n" "router_count az = n" by (subst az, simp add: nl)+
  have sn: "s < n" using g by (simp add: good_metric_def)
  obtain w where mc: "min_cost q V D n s az = Ok w" and ch: "min_chosen n V D w"
    using min_cost_ok [OF g si naz(1) ifs] by blast
  have lens: "length V = n" "length D = n" and Db: "\<forall>j < n. j \<noteq> s \<longrightarrow> 1 \<le> D ! j \<and> D ! j \<le> m s j"
    and Ds: "D ! s \<in> {0, int MAX_METRIC}" and hs: "hops (matrix az ! (s * n + s)) = []"
    and hw: "\<And>j. j < n \<Longrightarrow> j \<noteq> s \<Longrightarrow> hop_ok m n s j (D ! j) (matrix az ! (s * n + j))"
    using si by (auto simp: spf_inv_def hops_def)
  have cs: "\<not> candidate V D s" using Ds by (auto simp: candidate_def)
  have w: "w < n" "w = s \<Longrightarrow> s = 0" using ch sn cs by (auto simp: min_chosen_def)
  let ?dw = "if w = s then 0 else D ! w"
  let ?V = "V[w := 1]"
  have si1: "spf_inv m n s (matrix az0) ?V D (matrix az)" using si by (simp add: spf_inv_def)
  have V1: "?V ! w \<noteq> 0" using w(1) lens by simp
  have "\<exists>st. res_for (relax n s w ?V) [0..<n] (D, matrix az) = Ok st \<and>
      relax_inv m n s w ?dw (matrix az0) ?V D (matrix az) n st"
  proof (rule res_for_inv [where I = "relax_inv m n s w ?dw (matrix az0) ?V D (matrix az)"])
    show "relax_inv m n s w ?dw (matrix az0) ?V D (matrix az) 0 (D, matrix az)"
      using si1 by (simp add: relax_inv_def)
    fix j st assume "j < n" and I: "relax_inv m n s w ?dw (matrix az0) ?V D (matrix az) j st"
    obtain D1 M1 where "st = (D1, M1)" by (rule prod.exhaust)
    then show "\<exists>st'. relax n s w ?V j st = Ok st' \<and> relax_inv m n s w ?dw (matrix az0) ?V D (matrix az) (Suc j) st'"
      using relax_step [OF g w(1) V1 w(2) refl _ Db hs \<open>j < n\<close>, where D = D1 and M = M1] hw [OF w(1)] Db w(1) I by auto
  qed simp
  then obtain D' M' where rl: "res_for (relax n s w ?V) [0..<n] (D, matrix az) = Ok (D', M')"
    and ri: "relax_inv m n s w ?dw (matrix az0) ?V D (matrix az) n (D', M')" by auto
  have D': "\<forall>i < n. D' ! i = relaxed m s w ?dw ?V D i" and si2: "spf_inv m n s (matrix az0) ?V D' M'"
    using ri by (auto simp: relax_inv_def)
  have fin: "settled m n s ?V D' \<and> progress n s (Suc k) ?V D'"
  proof (cases "candidate V D w")
    case True
    then have "w \<noteq> s" "\<forall>j < n. candidate V D j \<longrightarrow> D ! w \<le> D ! j"
      using cs ch w(1) by (auto simp: min_chosen_def)
    with True D' Db lens show ?thesis by (intro settled_candidate [OF g set prog w(1)]) auto
  next
    case False
    then have "\<forall>j < n. \<not> candidate V D j" using ch by (auto simp: min_chosen_def)
    from settled_fallback [OF g set w(1) this lens(1) Db D'] show ?thesis by (simp add: progress_def)
  qed
  have "D' ! s = 0" using D' sn by (simp add: relaxed_def)
  moreover have "dijkstra_round q s i (V, D, az) = Ok (?V, D', az\<lparr>matrix := M'\<rparr>)"
    using mc rl naz by (simp add: dijkstra_round_def Let_def)
  moreover have "az\<lparr>matrix := M'\<rparr> = az0\<lparr>matrix := M'\<rparr>" by (subst az) simp
  ultimately show ?thesis using fin si2 by (auto simp: outer_inv_def)
qed

section \<open>Correctness of one run\<close>

definition wf_area :: "area_info \<Rightarrow> bool" where
  "wf_area az \<longleftrightarrow> (let n = router_count az; m = met (matrix az) n in
     n < 2 ^ 31 \<and> length (nodeinfo az) = n \<and> length (matrix az) = n * n \<and>
     (\<forall>i < n. \<forall>j < n. 1 \<le> m i j \<and> m i j \<le> int MAX_METRIC) \<and>
     (\<forall>i < n. m i i = int MAX_METRIC \<and> card {h. h < n \<and> m i h < int MAX_METRIC} \<le> MAX_ECMP_LIMIT))"

text \<open>A row of the matrix as the initialisation leaves it: the next hop of a link is its other end.\<close>

definition fresh_cell :: "nat \<Rightarrow> nat \<Rightarrow> netnode \<Rightarrow> bool" where
  "fresh_cell s j nd \<longleftrightarrow> length (nexthop nd) = MAX_ECMP_LIMIT \<and> nexthop_count nd \<le> MAX_ECMP_LIMIT \<and>
     hops nd = (if j \<noteq> s \<and> uint (nmetric nd) < int MAX_METRIC then [j] else [])"

definition fresh_row :: "area_info \<Rightarrow> nat \<Rightarrow> bool" where
  "fresh_row az s \<longleftrightarrow> (\<forall>j < router_count az. fresh_cell s j (matrix az ! (s * router_count az + j)))"

text \<open>A computed row: costs are those of cheapest routes, and the next hop starts one.\<close>

definition shortest_cell :: "(nat \<Rightarrow> nat \<Rightarrow> int) \<Rightarrow> nat \<Rightarrow> nat \<Rightarrow> nat \<Rightarrow> netnode \<Rightarrow> bool" where
  "shortest_cell m n s j nd \<longleftrightarrow> (let c = uint (path_cost nd); h = unat (nextHop nd) in
     c \<le> int MAX_METRIC \<and> (\<forall>c'. route m n s j c' \<longrightarrow> c \<le> c') \<and>
     (c < int MAX_METRIC \<longrightarrow> route m n s j c \<and> h < n \<and>
        (j \<noteq> s \<longrightarrow> m s h < int MAX_METRIC \<and> route m n h j (c - m s h)) \<and> (j = s \<longrightarrow> h = s)))"

definition shortest_row :: "(nat \<Rightarrow> nat \<Rightarrow> int) \<Rightarrow> nat \<Rightarrow> nat \<Rightarrow> netnode list \<Rightarrow> bool" where
  "shortest_row m n s M \<longleftrightarrow> (\<forall>j < n. shortest_cell m n s j (M ! (s * n + j)))"

lemma finish_fold:
  assumes "length M = n * n" "s < n" "k \<le> n"
  shows "length (fold (\<lambda>i m. m[s * n + i := f i (m ! (s * n + i))]) [0..<k] M) = n * n \<and>
    (\<forall>a < n. \<forall>b < n. fold (\<lambda>i m. m[s * n + i := f i (m ! (s * n + i))]) [0..<k] M ! (a * n + b) =
       (if a = s \<and> b < k then f b (M ! (s * n + b)) else M ! (a * n + b)))"
  using assms(3)
proof (induction k)
  case 0
  then show ?case using assms by simp
next
  case (Suc k)
  let ?F = "fold (\<lambda>i m. m[s * n + i := f i (m ! (s * n + i))]) [0..<k] M"
  have IH: "length ?F = n * n" "\<And>a b. a < n \<Longrightarrow> b < n \<Longrightarrow> ?F ! (a * n + b) =
       (if a = s \<and> b < k then f b (M ! (s * n + b)) else M ! (a * n + b))" using Suc by auto
  have kn: "k < n" using Suc.prems by simp
  show ?case using IH(1) by (auto simp: cell_update [OF IH(1) assms(2) kn] IH(2) kn assms(2) less_Suc_eq)
qed

lemma spf_inv_init:
  assumes g: "good_metric m n s" and l: "length M = n * n" and m: "m = met M n"
    and fr: "\<forall>j < n. fresh_cell s j (M ! (s * n + j))"
  shows "spf_inv m n s M (replicate n 0) (map (\<lambda>i. int_of_u32 (nmetric (M ! (s * n + i)))) [0..<n]) M"
proof -
  have sn: "s < n" and mb: "\<And>i j. i < n \<Longrightarrow> j < n \<Longrightarrow> 1 \<le> m i j \<and> m i j \<le> int MAX_METRIC"
    and ms: "m s s = int MAX_METRIC" using g by (auto simp: good_metric_def)
  have d: "int_of_u32 (nmetric (M ! (s * n + j))) = m s j" if "j < n" for j
    using sum_no_wrap [of 0 "nmetric (M ! (s * n + j))"] mb [OF sn that] by (simp add: m met_def)
  have "hop_ok m n s j (m s j) (M ! (s * n + j))" if "j < n" "j \<noteq> s" for j
    using fr that route_refl [of j n m] by (auto simp: hop_ok_def fresh_cell_def m met_def)
  moreover have "nexthop_count (M ! (s * n + s)) = 0"
  proof -
    have "fresh_cell s s (M ! (s * n + s))" using fr sn by blast
    then show ?thesis by (auto simp: fresh_cell_def hops_def MAX_ECMP_LIMIT_def)
  qed
  ultimately show ?thesis using l mb sn ms d by (simp add: spf_inv_def m)
qed

lemma optimal:
  assumes g: "good_metric m n s" and st: "settled m n s V D" and ex: "exhausted n s V D" and Ds: "D ! s = 0"
    and Db: "\<forall>j < n. j \<noteq> s \<longrightarrow> 1 \<le> D ! j \<and> D ! j \<le> m s j" and r: "route m n s j c"
  shows "D ! j \<le> c \<and> 0 \<le> c"
  using r
proof (induction rule: route.induct)
  case route_refl
  then show ?case using Ds by simp
next
  case (route_step u c j)
  have u: "u < n" "s < n" using route_less [OF route_step.hyps(1)] by auto
  have mb: "1 \<le> m u j" "m s j \<le> int MAX_METRIC" using g u route_step.hyps by (auto simp: good_metric_def)
  show ?case
  proof (cases "j = s \<or> u = s")
    case True
    then show ?thesis using Ds Db route_step mb by auto
  next
    case False
    then have j: "1 \<le> D ! j" "D ! j \<le> m s j" using Db route_step.hyps by auto
    show ?thesis
    proof (cases "D ! u < int MAX_METRIC")
      case True
      then have "V ! u \<noteq> 0" using ex u False by (auto simp: exhausted_def)
      with True st u False route_step.hyps have "D ! j \<le> D ! u + m u j" by (simp add: settled_def)
      with route_step.IH mb show ?thesis by simp
    next
      case False
      with j mb route_step.IH show ?thesis by simp
    qed
  qed
qed

lemma finish_shortest:
  assumes g: "good_metric m n s" and si: "spf_inv m n s M0 V D M" and st: "settled m n s V D"
    and ex: "exhausted n s V D" and Ds: "D ! s = 0" and j: "j < n"
  shows "shortest_cell m n s j (finish_node s (D ! j) (M ! (s * n + j)))"
proof -
  let ?nd = "M ! (s * n + j)"
  have sn: "s < n" "n < 2 ^ 32" and mb: "m s j \<le> int MAX_METRIC" using g j by (auto simp: good_metric_def)
  have Db: "\<forall>j < n. j \<noteq> s \<longrightarrow> 1 \<le> D ! j \<and> D ! j \<le> m s j" using si by (simp add: spf_inv_def)
  have b: "0 \<le> D ! j" "D ! j \<le> int MAX_METRIC" using Db Ds j mb by (cases "j = s"; fastforce)+
  have c: "uint (u32_of_int (D ! j)) = D ! j"
    using b by (simp add: uint_word_of_int MAX_METRIC_def)
  have opt: "\<forall>c'. route m n s j c' \<longrightarrow> D ! j \<le> c'" using optimal [OF g st ex Ds Db] by blast
  show ?thesis
  proof (cases "j = s")
    case True
    have "nexthop_count ?nd = 0" using si True by (simp add: spf_inv_def)
    then have "unat (nextHop (finish_node s (D ! j) ?nd)) = s"
      using sn by (simp add: finish_node_def unat_of_nat take_bit_nat_eq_self)
    with True Ds opt c b(2) sn route_refl [of s n m] show ?thesis
      by (simp add: shortest_cell_def Let_def finish_node_def)
  next
    case False
    have ho: "hop_ok m n s j (D ! j) ?nd" using si j False by (simp add: spf_inv_def)
    have "route m n s j (D ! j) \<and> unat (nexthop ?nd ! 0) < n \<and> m s (unat (nexthop ?nd ! 0)) < int MAX_METRIC \<and>
        route m n (unat (nexthop ?nd ! 0)) j (D ! j - m s (unat (nexthop ?nd ! 0))) \<and> nexthop_count ?nd \<noteq> 0"
      if lt: "D ! j < int MAX_METRIC"
    proof -
      have h: "unat (nexthop ?nd ! 0) \<in> set (hops ?nd)" "nexthop_count ?nd \<noteq> 0" using hop_ok_hd [OF ho lt] by auto
      then have r: "unat (nexthop ?nd ! 0) < n" "m s (unat (nexthop ?nd ! 0)) < int MAX_METRIC"
        "route m n (unat (nexthop ?nd ! 0)) j (D ! j - m s (unat (nexthop ?nd ! 0)))"
        using ho lt by (auto simp: hop_ok_def)
      from route_cons [OF r(3) sn(1) r(1,2)] have "route m n s j (D ! j)" by simp
      with r h show ?thesis by simp
    qed
    with False opt b(2) c show ?thesis by (simp add: shortest_cell_def Let_def finish_node_def)
  qed
qed

lemma dijkstra_ok:
  assumes wf: "wf_area az" and fr: "fresh_row az s" and sn: "s < router_count az"
    and ifs: "\<And>a r nr. int_of_u32 (ifid (query_link_state_details q a r nr)) < MAX_INTERFACE"
  shows "\<exists>az'. dijkstra q s az = Ok az' \<and> az' = az\<lparr>matrix := matrix az'\<rparr> \<and> length (matrix az') = length (matrix az) \<and>
    (\<forall>a < router_count az. \<forall>b < router_count az. let k = a * router_count az + b in
        same_base (matrix az' ! k) (matrix az ! k) \<and> (a \<noteq> s \<longrightarrow> matrix az' ! k = matrix az ! k)) \<and>
    shortest_row (met (matrix az) (router_count az)) (router_count az) s (matrix az')"
proof -
  let ?n = "router_count az" and ?m = "met (matrix az) (router_count az)"
  let ?D0 = "map (\<lambda>i. int_of_u32 (nmetric (matrix az ! (s * ?n + i)))) [0..<?n]"
  have g: "good_metric ?m ?n s" using wf sn by (simp add: wf_area_def good_metric_def Let_def)
  have wf': "length (nodeinfo az) = ?n" "length (matrix az) = ?n * ?n" using wf by (auto simp: wf_area_def Let_def)
  have "spf_inv ?m ?n s (matrix az) (replicate ?n 0) ?D0 (matrix az)"
    using fr by (intro spf_inv_init [OF g wf'(2) refl]) (simp add: fresh_row_def)
  then have "outer_inv ?m ?n s az 0 (replicate ?n 0, ?D0, az)"
    by (auto simp: outer_inv_def settled_def progress_def visited_def)
  then have "\<exists>st. res_for (dijkstra_round q s) [0..<?n] (replicate ?n 0, ?D0, az) = Ok st \<and> outer_inv ?m ?n s az ?n st"
    using dijkstra_round_ok [OF g wf'(1) refl ifs]
    by (intro res_for_inv [where I = "outer_inv ?m ?n s az"]) (simp_all add: split_paired_all)
  then obtain V D az1 where loop: "res_for (dijkstra_round q s) [0..<?n] (replicate ?n 0, ?D0, az) = Ok (V, D, az1)"
    and inv: "outer_inv ?m ?n s az ?n (V, D, az1)" by auto
  have az1: "az1 = az\<lparr>matrix := matrix az1\<rparr>" and si: "spf_inv ?m ?n s (matrix az) V D (matrix az1)"
    and st: "settled ?m ?n s V D" and pr: "progress ?n s ?n V D" and Ds: "D ! s = 0"
    using inv sn by (auto simp: outer_inv_def)
  have ex: "exhausted ?n s V D"
  proof (rule ccontr)
    assume "\<not> exhausted ?n s V D"
    then have "?n \<le> card (visited ?n s V)" using pr by (simp add: progress_def)
    also have "\<dots> \<le> card ({..<?n} - {s})" by (intro card_mono) (auto simp: visited_def)
    also have "\<dots> < ?n" using sn by simp
    finally show False by simp
  qed
  have Db: "\<forall>j < ?n. j \<noteq> s \<longrightarrow> 1 \<le> D ! j \<and> D ! j \<le> ?m s j" using si by (simp add: spf_inv_def)
  define M' where "M' = fold (\<lambda>i m. m[s * ?n + i := finish_node s (D ! i) (m ! (s * ?n + i))]) [0..<?n] (matrix az1)"
  have lM: "length (matrix az1) = ?n * ?n" using si by (simp add: spf_inv_def)
  have M': "length M' = ?n * ?n" "\<And>a b. a < ?n \<Longrightarrow> b < ?n \<Longrightarrow> M' ! (a * ?n + b) =
      (if a = s then finish_node s (D ! b) (matrix az1 ! (s * ?n + b)) else matrix az1 ! (a * ?n + b))"
    using finish_fold [OF lM sn order_refl, of "\<lambda>i. finish_node s (D ! i)"] by (simp_all add: M'_def)
  have "dijkstra q s az = Ok (az1\<lparr>matrix := M'\<rparr>)" using loop by (simp add: dijkstra_def Let_def M'_def)
  moreover have "az1\<lparr>matrix := M'\<rparr> = az\<lparr>matrix := M'\<rparr>" by (subst az1) simp
  moreover have "same_base (M' ! (a * ?n + b)) (matrix az ! (a * ?n + b)) \<and> (a \<noteq> s \<longrightarrow> M' ! (a * ?n + b) = matrix az ! (a * ?n + b))"
    if "a < ?n" "b < ?n" for a b
    using si that by (auto simp: M'(2) spf_inv_def same_base_def finish_node_def)
  moreover have "shortest_row ?m ?n s M'"
    using finish_shortest [OF g si st ex Ds] sn by (simp add: shortest_row_def M'(2))
  ultimately show ?thesis using M'(1) wf'(2) by (intro exI [of _ "az\<lparr>matrix := M'\<rparr>"]) (simp add: Let_def)
qed

section \<open>Properties\<close>

text \<open>
  C5. One run of \<^verbatim>\<open>dijkstra\<close> for router \<open>s\<close> returns without overflowing the array of equal-cost next
  hops, changes only row \<open>s\<close> of the matrix and leaves there, for every router \<open>j\<close>, the cost of a
  cheapest route (or \<^verbatim>\<open>MAX_METRIC\<close> when no route is cheaper than that) and a next hop from which
  the rest of the cost reaches \<open>j\<close>.  It needs metrics of at least 1, at most four neighbours of \<open>s\<close>
  and interface numbers below 999.
\<close>

theorem dijkstra_shortest:
  assumes "wf_area az" "fresh_row az s" "s < router_count az"
    and "\<And>a r nr. int_of_u32 (ifid (query_link_state_details q a r nr)) < MAX_INTERFACE"
  shows "\<exists>az'. dijkstra q s az = Ok az' \<and>
    (\<forall>a < router_count az. \<forall>b < router_count az.
       a \<noteq> s \<longrightarrow> matrix az' ! (a * router_count az + b) = matrix az ! (a * router_count az + b)) \<and>
    shortest_row (met (matrix az) (router_count az)) (router_count az) s (matrix az')"
  using dijkstra_ok [OF assms(1-3)] assms(4) by (fastforce simp: Let_def)

text \<open>A triangle: 0 to 1 costs 10, 1 to 2 costs 10 and 0 to 2 costs 30.\<close>

definition link_cell :: "nat \<Rightarrow> u32 \<Rightarrow> u32 \<Rightarrow> netnode" where
  "link_cell l c y = empty_node\<lparr>link := Some l, link_index := of_nat l, nmetric := c, path_cost := c, nexthop_count := 1,
     nexthop := [y, 0, 0, 0]\<rparr>"

definition triangle :: area_info where
  "triangle = \<lparr>azid = 1, routerlist = [7, 8, 9], router_count = 3, lslist = [], ls_count = 0, backbone_count = 3,
     access_count = 0, nodeinfo = [(0, 7), (1, 8), (2, 9)],
     matrix = [empty_node, link_cell 0 10 1, link_cell 2 30 2, empty_node, empty_node, link_cell 1 10 2,
               empty_node, empty_node, empty_node],
     paths = [], shortpaths = Some [], linkshadows = []\<rparr>"

definition no_rows :: lsdb_rows where
  "no_rows = \<lparr>get_areaes = [], get_routers_count = (\<lambda>_. 0), get_routers = (\<lambda>_. []), get_link_states = (\<lambda>_. []),
     query_link_state_details = (\<lambda>_ _ _. zero_link)\<rparr>"

lemma less_3: "(\<forall>i < (3::nat). P i) \<longleftrightarrow> P 0 \<and> P 1 \<and> P 2"
  by (auto simp: eval_nat_numeral less_Suc_eq)

lemma triangle_wf: "wf_area triangle"
proof -
  have deg: "card {h. h < (3::nat) \<and> Q h} \<le> MAX_ECMP_LIMIT" for Q
  proof -
    have "card {h. h < (3::nat) \<and> Q h} \<le> card {..<(3::nat)}" by (intro card_mono) auto
    then show ?thesis by (simp add: MAX_ECMP_LIMIT_def)
  qed
  have n: "router_count triangle = 3" by (simp add: triangle_def)
  have m: "\<forall>i < 3. \<forall>j < 3. 1 \<le> met (matrix triangle) 3 i j \<and> met (matrix triangle) 3 i j \<le> int MAX_METRIC"
    and d: "\<forall>i < 3. met (matrix triangle) 3 i i = int MAX_METRIC"
    unfolding less_3 by (simp_all add: met_def triangle_def link_cell_def empty_node_def MAX_METRIC_def)
  have l: "length (nodeinfo triangle) = 3" "length (matrix triangle) = 3 * 3" by (simp_all add: triangle_def)
  show ?thesis using m d deg l by (simp add: wf_area_def Let_def n)
qed

theorem dijkstra_shortest_witness:
  "\<exists>az'. dijkstra no_rows 0 triangle = Ok az' \<and> shortest_row (met (matrix triangle) 3) 3 0 (matrix az')"
proof -
  have "fresh_row triangle 0"
    by (simp add: fresh_row_def less_3 triangle_def fresh_cell_def link_cell_def empty_node_def hops_def
      MAX_ECMP_LIMIT_def MAX_METRIC_def)
  from dijkstra_shortest [OF triangle_wf this, of no_rows] show ?thesis
    by (auto simp: triangle_def no_rows_def zero_link_def MAX_INTERFACE_def)
qed

end
