(* ===== verification/Ddc_Paths.thy ===== *)
theory Ddc_Paths
  imports Spf
begin

text \<open>
  From the link-state rows of an area to its recorded shortest paths: the initialisation of
  \<open>Ddc\<close> builds a matrix the runs of \<open>Spf\<close> can work on, the runs of all routers make every row
  shortest, the tracing loop of \<^verbatim>\<open>record_short_path\<close> ends, and every path is recorded under exactly
  the links it uses.
\<close>

section \<open>Good link-state rows\<close>

text \<open>Link \<open>l\<close> leads from the \<open>x\<close>-th to the \<open>y\<close>-th router of the area.\<close>

definition link_ends :: "area_info \<Rightarrow> nat \<Rightarrow> nat \<Rightarrow> nat \<Rightarrow> bool" where
  "link_ends az l x y \<longleftrightarrow> \<not> is_access (lslist az ! l) \<and> x < router_count az \<and> y < router_count az \<and>
     rid (lslist az ! l) = routerlist az ! x \<and> nrid (lslist az ! l) = routerlist az ! y"

definition good_links :: "area_info \<Rightarrow> bool" where
  "good_links az \<longleftrightarrow> router_count az < 2 ^ 31 \<and> length (routerlist az) = router_count az \<and> distinct (routerlist az) \<and>
     ls_count az = length (lslist az) \<and> ls_count az < 2 ^ 31 \<and>
     (\<forall>l < ls_count az. \<not> is_access (lslist az ! l) \<longrightarrow>
        (\<exists>x y. link_ends az l x y \<and> x \<noteq> y) \<and> 1 \<le> metric (lslist az ! l) \<and> metric (lslist az ! l) < of_nat MAX_METRIC) \<and>
     (\<forall>x < router_count az. card {y. \<exists>l < ls_count az. link_ends az l x y} \<le> MAX_ECMP_LIMIT)"

text \<open>The cell the initialisation leaves for a pair of routers after the first \<open>k\<close> links.\<close>

definition cell_after :: "area_info \<Rightarrow> nat \<Rightarrow> nat \<Rightarrow> nat \<Rightarrow> netnode \<Rightarrow> bool" where
  "cell_after az k x y nd \<longleftrightarrow>
     (nd = empty_node \<and> (\<forall>l < k. \<not> link_ends az l x y)) \<or>
     (\<exists>l < k. link_ends az l x y \<and> (\<forall>l' < k. link_ends az l' x y \<longrightarrow> l' \<le> l) \<and>
        link_index nd = of_nat l \<and> nmetric nd = metric (lslist az ! l) \<and>
        length (nexthop nd) = MAX_ECMP_LIMIT \<and> nexthop_count nd = 1 \<and> nexthop nd ! 0 = of_nat y)"

lemma get_index_by_rid_nth:
  assumes "nodeinfo az = map (\<lambda>j. (j, rl ! j)) [0..<router_count az]" "length rl = router_count az" "distinct rl"
    "x < router_count az"
  shows "get_index_by_rid (rl ! x) az = int x"
proof -
  have "find (\<lambda>e. snd e = rl ! x) (nodeinfo az) = Some (x, rl ! x)"
    using assms by (auto simp: find_Some_iff nth_eq_iff_index_eq intro!: exI [of _ x])
  with assms(1) show ?thesis by (simp add: get_index_by_rid_def)
qed

lemma link_ends_unique:
  assumes "good_links az" "link_ends az l x y" "link_ends az l x' y'"
  shows "x = x' \<and> y = y'"
  using assms by (auto simp: good_links_def link_ends_def nth_eq_iff_index_eq)

lemma link_ends_neq:
  assumes "good_links az" "l < ls_count az" "link_ends az l x y"
  shows "x \<noteq> y"
proof -
  have "\<not> is_access (lslist az ! l)" using assms(3) by (simp add: link_ends_def)
  then obtain a b where "link_ends az l a b" "a \<noteq> b" using assms(1,2) unfolding good_links_def by blast
  with link_ends_unique [OF assms(1,3)] show ?thesis by blast
qed

definition init_inv :: "area_info \<Rightarrow> nat \<Rightarrow> area_info \<Rightarrow> bool" where
  "init_inv az k az1 \<longleftrightarrow> (let n = router_count az in
     router_count az1 = n \<and> lslist az1 = lslist az \<and> ls_count az1 = ls_count az \<and> routerlist az1 = routerlist az \<and>
     nodeinfo az1 = map (\<lambda>j. (j, routerlist az ! j)) [0..<n] \<and> length (matrix az1) = n * n \<and>
     linkshadows az1 = replicate (ls_count az) [] \<and> paths az1 = paths az \<and>
     (shortpaths az1 = Some [] \<or> (\<forall>l < k. is_access (lslist az ! l))) \<and>
     (\<forall>x < n. \<forall>y < n. cell_after az k x y (matrix az1 ! (x * n + y))))"

lemma put_link_ok:
  assumes g: "good_links az" and k: "k < ls_count az" and inv: "init_inv az k az1"
  shows "\<exists>az2. put_link k az1 = Ok az2 \<and> init_inv az (Suc k) az2"
proof -
  let ?n = "router_count az" and ?l = "lslist az ! k"
  have i: "router_count az1 = ?n" "lslist az1 = lslist az" "nodeinfo az1 = map (\<lambda>j. (j, routerlist az ! j)) [0..<?n]"
    "length (matrix az1) = ?n * ?n" and cells: "\<And>x y. x < ?n \<Longrightarrow> y < ?n \<Longrightarrow> cell_after az k x y (matrix az1 ! (x * ?n + y))"
    using inv by (auto simp: init_inv_def Let_def)
  show ?thesis
  proof (cases "is_access ?l")
    case True
    then have "\<not> link_ends az k x y" for x y by (simp add: link_ends_def)
    then have "cell_after az (Suc k) x y nd" if "cell_after az k x y nd" for x y nd
      using that by (auto simp: cell_after_def less_Suc_eq)
    moreover have "put_link k az1 = Ok (az1\<lparr>access_count := Suc (access_count az1)\<rparr>)"
      using True i by (simp add: put_link_def Let_def)
    ultimately show ?thesis using inv True by (auto simp: init_inv_def Let_def less_Suc_eq)
  next
    case False
    then obtain x y where xy: "link_ends az k x y" "x \<noteq> y" and m: "metric ?l < of_nat MAX_METRIC"
      using g k by (auto simp: good_links_def)
    have b: "x < ?n" "y < ?n" "rid ?l = routerlist az ! x" "nrid ?l = routerlist az ! y"
      using xy by (auto simp: link_ends_def)
    have gi: "get_index_by_rid (rid ?l) az1 = int x" "get_index_by_rid (nrid ?l) az1 = int y"
      using g b i by (auto simp: good_links_def intro!: get_index_by_rid_nth)
    have kk: "int x * int ?n + int y = int (x * ?n + y)" by simp
    let ?old = "matrix az1 ! (x * ?n + y)"
    let ?new = "?old\<lparr>link := Some k, link_index := of_nat k, nmetric := metric ?l, path_cost := metric ?l,
        nexthop_count := 1, nexthop := (nexthop ?old)[0 := of_nat y]\<rparr>"
    let ?az2 = "az1\<lparr>matrix := (matrix az1)[x * ?n + y := ?new], backbone_count := Suc (backbone_count az1), shortpaths := Some []\<rparr>"
    have lt: "x * ?n + y < length (matrix az1)" using idx_less [OF b(1,2)] i(4) by simp
    have "put_link k az1 = Ok ?az2"
      using False i gi lt m unfolding put_link_def Let_def by (simp add: kk del: of_nat_add of_nat_mult)
    moreover have "init_inv az (Suc k) ?az2"
    proof -
      have "cell_after az (Suc k) a b' ((matrix az1)[x * ?n + y := ?new] ! (a * ?n + b'))"
        if "a < ?n" "b' < ?n" for a b'
      proof (cases "a = x \<and> b' = y")
        case True
        have "length (nexthop ?old) = MAX_ECMP_LIMIT"
          using cells [OF b(1,2)] by (auto simp: cell_after_def empty_node_def)
        then have "cell_after az (Suc k) x y ?new"
          using xy by (auto simp: cell_after_def MAX_ECMP_LIMIT_def less_Suc_eq intro!: exI [of _ k])
        with True show ?thesis using that by (simp add: cell_update [OF i(4) b(1,2)])
      next
        case False
        then have "\<not> link_ends az k a b'" using link_ends_unique [OF g xy(1)] by blast
        with cells [OF that] have "cell_after az (Suc k) a b' (matrix az1 ! (a * ?n + b'))"
          by (auto simp: cell_after_def less_Suc_eq)
        with False show ?thesis using that by (auto simp: cell_update [OF i(4) b(1,2)])
      qed
      then show ?thesis using inv by (simp add: init_inv_def Let_def)
    qed
    ultimately show ?thesis by blast
  qed
qed

lemma init_lidb_area_inv:
  assumes g: "good_links az"
  shows "\<exists>az1. init_lidb_area az = Ok az1 \<and> init_inv az (ls_count az) az1"
proof -
  let ?n = "router_count az"
  let ?az1 = "az\<lparr>nodeinfo := map (\<lambda>j. (j, routerlist az ! j)) [0..<?n], matrix := replicate (?n * ?n) empty_node,
      linkshadows := replicate (ls_count az) [], access_count := 0, backbone_count := 0\<rparr>"
  have "init_inv az 0 ?az1"
    using idx_less [where n = ?n] by (auto simp: init_inv_def Let_def cell_after_def)
  then have "\<exists>az1. res_for put_link [0..<ls_count az] ?az1 = Ok az1 \<and> init_inv az (ls_count az) az1"
    using put_link_ok [OF g] by (intro res_for_inv [where I = "init_inv az"]) auto
  with g show ?thesis by (simp add: init_lidb_area_def Let_def good_links_def)
qed

text \<open>
  What \<^verbatim>\<open>init_lidb_area\<close> leaves as the metric of a pair of routers: that of the last link between them, which overwrites the
  others.
\<close>

definition link_metric :: "area_info \<Rightarrow> nat \<Rightarrow> nat \<Rightarrow> int" where
  "link_metric az x y =
     (case find (\<lambda>l. link_ends az l x y) (rev [0..<ls_count az]) of
        None \<Rightarrow> int MAX_METRIC
      | Some l \<Rightarrow> uint (metric (lslist az ! l)))"

lemma find_rev_upt_last:
  "l < k \<Longrightarrow> P l \<Longrightarrow> (\<And>l'. l' < k \<Longrightarrow> P l' \<Longrightarrow> l' \<le> l) \<Longrightarrow> find P (rev [0..<k]) = Some l"
proof (induction k)
  case (Suc k)
  show ?case
  proof (cases "P k")
    case True
    then have "k = l" using Suc.prems(1) Suc.prems(3) [of k] by simp
    with True show ?thesis by simp
  next
    case False
    then have "l < k" using Suc.prems by (metis less_antisym)
    with Suc False show ?thesis by simp
  qed
qed simp

lemma find_rev_upt_None: "(\<And>l. l < k \<Longrightarrow> \<not> P l) \<Longrightarrow> find P (rev [0..<k]) = None"
  by (simp add: find_None_iff)

lemma met_cell:
  assumes "good_links az" "init_inv az (ls_count az) az1" "x < router_count az" "y < router_count az"
  shows "met (matrix az1) (router_count az) x y = link_metric az x y"
proof -
  let ?nd = "matrix az1 ! (x * router_count az + y)"
  have "cell_after az (ls_count az) x y ?nd" using assms by (simp add: init_inv_def Let_def)
  then consider (none) "?nd = empty_node" "\<forall>l < ls_count az. \<not> link_ends az l x y"
    | (some) l where "l < ls_count az" "link_ends az l x y" "\<forall>l' < ls_count az. link_ends az l' x y \<longrightarrow> l' \<le> l"
        "nmetric ?nd = metric (lslist az ! l)"
    by (auto simp: cell_after_def)
  then show ?thesis
  proof cases
    case none
    then show ?thesis by (simp add: met_def link_metric_def find_rev_upt_None empty_node_def MAX_METRIC_def)
  next
    case some
    then have "find (\<lambda>l. link_ends az l x y) (rev [0..<ls_count az]) = Some l"
      by (intro find_rev_upt_last) auto
    with some show ?thesis by (simp add: met_def link_metric_def)
  qed
qed

lemma link_metric_cases:
  assumes "good_links az"
  obtains (none) "link_metric az x y = int MAX_METRIC" "\<forall>l < ls_count az. \<not> link_ends az l x y"
  | (some) l where "l < ls_count az" "link_ends az l x y" "1 \<le> link_metric az x y" "link_metric az x y < int MAX_METRIC"
proof (cases "find (\<lambda>l. link_ends az l x y) (rev [0..<ls_count az])")
  case None
  then have "\<forall>l < ls_count az. \<not> link_ends az l x y" by (simp add: find_None_iff)
  moreover have "link_metric az x y = int MAX_METRIC" using None by (simp add: link_metric_def)
  ultimately show ?thesis using none by blast
next
  case (Some l)
  then have l: "l < ls_count az" "link_ends az l x y" using find_SomeD [OF Some] by auto
  then have "1 \<le> metric (lslist az ! l)" "metric (lslist az ! l) < of_nat MAX_METRIC"
    using assms by (auto simp: good_links_def link_ends_def)
  then have "1 \<le> uint (metric (lslist az ! l))" "uint (metric (lslist az ! l)) < int MAX_METRIC"
    by (simp_all add: word_le_def word_less_def MAX_METRIC_def)
  with l Some show ?thesis by (intro some) (auto simp: link_metric_def)
qed

lemma link_metric_less:
  assumes "good_links az"
  shows "link_metric az x y < int MAX_METRIC \<longleftrightarrow> (\<exists>l < ls_count az. link_ends az l x y)"
  by (rule link_metric_cases [OF assms, of x y]) auto

text \<open>The metric that shortest paths are about: the smallest of the links from one router to the other.\<close>

definition cheapest_link :: "area_info \<Rightarrow> nat \<Rightarrow> nat \<Rightarrow> int" where
  "cheapest_link az x y = Min (insert (int MAX_METRIC) ((\<lambda>l. uint (metric (lslist az ! l))) ` {l. l < ls_count az \<and> link_ends az l x y}))"

text \<open>Parallel links from one router to another do not differ in their metric.\<close>

definition parallel_alike :: "area_info \<Rightarrow> bool" where
  "parallel_alike az \<longleftrightarrow> (\<forall>l < ls_count az. \<forall>l' < ls_count az. \<forall>x y.
     link_ends az l x y \<and> link_ends az l' x y \<longrightarrow> metric (lslist az ! l) = metric (lslist az ! l'))"

lemma link_metric_cheapest:
  assumes "good_links az" "parallel_alike az"
  shows "link_metric az x y = cheapest_link az x y"
proof (cases "find (\<lambda>l. link_ends az l x y) (rev [0..<ls_count az])")
  case None
  then have e: "{l. l < ls_count az \<and> link_ends az l x y} = {}" by (auto simp: find_None_iff)
  show ?thesis using None unfolding cheapest_link_def e by (simp add: link_metric_def)
next
  case (Some l)
  then have l: "l < ls_count az" "link_ends az l x y" using find_SomeD [OF Some] by auto
  let ?S = "{l. l < ls_count az \<and> link_ends az l x y}"
  have m: "uint (metric (lslist az ! l')) = uint (metric (lslist az ! l))" if "l' \<in> ?S" for l'
    using assms(2) [unfolded parallel_alike_def, rule_format, of l' l x y] l that by simp
  have e: "(\<lambda>l. uint (metric (lslist az ! l))) ` ?S = {uint (metric (lslist az ! l))}"
  proof
    show "(\<lambda>l. uint (metric (lslist az ! l))) ` ?S \<subseteq> {uint (metric (lslist az ! l))}" using m by blast
    show "{uint (metric (lslist az ! l))} \<subseteq> (\<lambda>l. uint (metric (lslist az ! l))) ` ?S" using l by blast
  qed
  have eq: "link_metric az x y = uint (metric (lslist az ! l))" using Some by (simp add: link_metric_def)
  moreover have "link_metric az x y \<le> int MAX_METRIC" by (rule link_metric_cases [OF assms(1), of x y]) auto
  ultimately have "min (int MAX_METRIC) (uint (metric (lslist az ! l))) = link_metric az x y" by simp
  moreover have "cheapest_link az x y = min (int MAX_METRIC) (uint (metric (lslist az ! l)))"
    unfolding cheapest_link_def e by (subst Min_insert) simp_all
  ultimately show ?thesis by simp
qed

text \<open>
  With parallel links of different metrics the computation does not see the cheapest: a later link replaces it in the
  matrix, although the key of the link table admits both (\<^verbatim>\<open>initdb.sh\<close>).
\<close>

lemma parallel_link_overwritten:
  assumes "good_links az" "init_lidb_area az = Ok az1" "l < l'" "l' < ls_count az" "link_ends az l x y" "link_ends az l' x y"
    and "\<forall>k < ls_count az. link_ends az k x y \<longrightarrow> k \<le> l'" "metric (lslist az ! l) < metric (lslist az ! l')"
  shows "met (matrix az1) (router_count az) x y > cheapest_link az x y"
proof -
  have xy: "x < router_count az" "y < router_count az" using assms(5) by (auto simp: link_ends_def)
  have i: "init_inv az (ls_count az) az1" using init_lidb_area_inv [OF assms(1)] assms(2) by auto
  have "find (\<lambda>l. link_ends az l x y) (rev [0..<ls_count az]) = Some l'" using assms(4,6,7) by (intro find_rev_upt_last) auto
  then have "met (matrix az1) (router_count az) x y = uint (metric (lslist az ! l'))"
    using met_cell [OF assms(1) i xy] by (simp add: link_metric_def)
  moreover have "cheapest_link az x y \<le> uint (metric (lslist az ! l))"
    unfolding cheapest_link_def using assms(3-5) by (intro Min_le) auto
  ultimately show ?thesis using assms(8) by (simp add: word_less_def)
qed

lemma init_wf_area:
  assumes g: "good_links az" and inv: "init_inv az (ls_count az) az1"
  shows "wf_area az1" "s < router_count az \<Longrightarrow> fresh_row az1 s"
proof -
  let ?n = "router_count az"
  have n: "router_count az1 = ?n" "length (nodeinfo az1) = ?n" "length (matrix az1) = ?n * ?n" "?n < 2 ^ 31"
    using g inv by (auto simp: init_inv_def Let_def good_links_def)
  note m = met_cell [OF g inv]
  have b: "1 \<le> link_metric az x y \<and> link_metric az x y \<le> int MAX_METRIC" for x y
    by (rule link_metric_cases [OF g, of x y]) (auto simp: MAX_METRIC_def)
  have self: "link_metric az x x = int MAX_METRIC" for x
  proof (rule link_metric_cases [OF g, of x x])
    fix l assume "l < ls_count az" "link_ends az l x x"
    with link_ends_neq [OF g] show ?thesis by blast
  qed
  have deg: "card {h. h < ?n \<and> link_metric az x h < int MAX_METRIC} \<le> MAX_ECMP_LIMIT" if x: "x < ?n" for x
  proof -
    have sub: "{h. h < ?n \<and> link_metric az x h < int MAX_METRIC} \<subseteq> {y. \<exists>l < ls_count az. link_ends az l x y}"
      by (auto simp: link_metric_less [OF g])
    have "finite {y. \<exists>l < ls_count az. link_ends az l x y}"
      by (rule finite_subset [of _ "{..<?n}"]) (auto simp: link_ends_def)
    then have "card {h. h < ?n \<and> link_metric az x h < int MAX_METRIC} \<le> card {y. \<exists>l < ls_count az. link_ends az l x y}"
      using sub by (rule card_mono)
    also have "\<dots> \<le> MAX_ECMP_LIMIT" using g x unfolding good_links_def by blast
    finally show ?thesis .
  qed
  have eq: "{h. h < ?n \<and> met (matrix az1) ?n x h < int MAX_METRIC} = {h. h < ?n \<and> link_metric az x h < int MAX_METRIC}"
    if "x < ?n" for x using m that by auto
  show "wf_area az1" using n b self deg m eq by (simp add: wf_area_def Let_def)
  assume s: "s < router_count az"
  have "fresh_cell s j (matrix az1 ! (s * ?n + j))" if j: "j < ?n" for j
  proof -
    let ?nd = "matrix az1 ! (s * ?n + j)"
    have met: "uint (nmetric ?nd) = link_metric az s j" using m [OF s j] by (simp add: met_def)
    have "cell_after az (ls_count az) s j ?nd" using inv s j by (simp add: init_inv_def Let_def)
    then consider (none) "?nd = empty_node" | (some) l where "l < ls_count az" "link_ends az l s j"
        "length (nexthop ?nd) = MAX_ECMP_LIMIT" "nexthop_count ?nd = 1" "nexthop ?nd ! 0 = of_nat j"
      by (auto simp: cell_after_def)
    then show ?thesis
    proof cases
      case none
      then show ?thesis by (simp add: fresh_cell_def empty_node_def hops_def MAX_METRIC_def)
    next
      case some
      have "j \<noteq> s" using link_ends_neq [OF g some(1,2)] by simp
      moreover have "link_metric az s j < int MAX_METRIC"
        using some(1,2) by (auto simp: link_metric_less [OF g])
      moreover have "hops ?nd = [j]"
        using some n(4) j by (cases "nexthop ?nd") (auto simp: hops_def MAX_ECMP_LIMIT_def unat_of_nat take_bit_nat_eq_self)
      ultimately show ?thesis using some met by (simp add: fresh_cell_def MAX_ECMP_LIMIT_def)
    qed
  qed
  then show "fresh_row az1 s" using n by (simp add: fresh_row_def)
qed

section \<open>The rows of all routers\<close>

lemma met_same_base:
  assumes "same_base (M' ! (i * n + j)) (M ! (i * n + j))"
  shows "met M' n i j = met M n i j"
  using assms by (simp add: met_def same_base_def)

lemma route_cong:
  assumes "route m n i j c" "\<And>x y. x < n \<Longrightarrow> y < n \<Longrightarrow> m x y = m' x y"
  shows "route m' n i j c"
  using assms(1)
proof (induction rule: route.induct)
  case route_refl
  then show ?case by (rule route.route_refl)
next
  case (route_step u c j)
  have "u < n" using route_less [OF route_step.hyps(1)] by simp
  then have "m u j = m' u j" using assms(2) route_step.hyps by blast
  with route_step route.route_step [of m' n i u c j] show ?case by simp
qed

lemma shortest_row_cong:
  assumes "shortest_row m n s M" "\<And>x y. x < n \<Longrightarrow> y < n \<Longrightarrow> m x y = m' x y" "s < n"
    "\<And>j. j < n \<Longrightarrow> M' ! (s * n + j) = M ! (s * n + j)"
  shows "shortest_row m' n s M'"
proof -
  have "route m n i j c \<longleftrightarrow> route m' n i j c" for i j c
    using route_cong [of m n i j c m'] route_cong [of m' n i j c m] assms(2) by metis
  then have "shortest_cell m' n s j (M' ! (s * n + j))" if "j < n" for j
    using assms that by (auto simp: shortest_row_def shortest_cell_def Let_def)
  then show ?thesis by (simp add: shortest_row_def)
qed

text \<open>After the runs of the routers below \<open>k\<close>.\<close>

definition rows_inv :: "area_info \<Rightarrow> nat \<Rightarrow> area_info \<Rightarrow> bool" where
  "rows_inv az k az1 \<longleftrightarrow> (let n = router_count az; m = met (matrix az) n in
     az1 = az\<lparr>matrix := matrix az1\<rparr> \<and> length (matrix az1) = length (matrix az) \<and>
     (\<forall>i < n. \<forall>j < n. same_base (matrix az1 ! (i * n + j)) (matrix az ! (i * n + j)) \<and>
        (k \<le> i \<longrightarrow> matrix az1 ! (i * n + j) = matrix az ! (i * n + j))) \<and>
     (\<forall>i < k. shortest_row m n i (matrix az1)))"

lemma rows_step:
  assumes wf: "wf_area az" and fr: "fresh_row az k" and k: "k < router_count az" and inv: "rows_inv az k az1"
    and ifs: "\<And>a r nr. int_of_u32 (ifid (query_link_state_details q a r nr)) < MAX_INTERFACE"
  shows "\<exists>az2. dijkstra q k az1 = Ok az2 \<and> rows_inv az (Suc k) az2"
proof -
  let ?n = "router_count az" and ?m = "met (matrix az) (router_count az)"
  have az1: "az1 = az\<lparr>matrix := matrix az1\<rparr>" and l1: "length (matrix az1) = length (matrix az)"
    and sb: "\<And>i j. i < ?n \<Longrightarrow> j < ?n \<Longrightarrow> same_base (matrix az1 ! (i * ?n + j)) (matrix az ! (i * ?n + j))"
    and eq: "\<And>i j. k \<le> i \<Longrightarrow> i < ?n \<Longrightarrow> j < ?n \<Longrightarrow> matrix az1 ! (i * ?n + j) = matrix az ! (i * ?n + j)"
    and sr: "\<And>i. i < k \<Longrightarrow> shortest_row ?m ?n i (matrix az1)"
    using inv by (auto simp: rows_inv_def Let_def)
  have n1: "router_count az1 = ?n" "nodeinfo az1 = nodeinfo az" by (subst az1, simp)+
  have m1: "met (matrix az1) ?n i j = ?m i j" if "i < ?n" "j < ?n" for i j
    using met_same_base [of "matrix az1" i ?n j "matrix az"] sb [OF that] by simp
  have "{h. h < ?n \<and> met (matrix az1) ?n i h < int MAX_METRIC} = {h. h < ?n \<and> ?m i h < int MAX_METRIC}" if "i < ?n" for i
    using m1 that by auto
  then have wf1: "wf_area az1" using wf n1 l1 m1 by (simp add: wf_area_def Let_def)
  have fr1: "fresh_row az1 k" using fr eq k n1 by (simp add: fresh_row_def)
  obtain az2 where az2: "dijkstra q k az1 = Ok az2" "az2 = az1\<lparr>matrix := matrix az2\<rparr>" "length (matrix az2) = length (matrix az1)"
    and sb2: "\<And>a b. a < ?n \<Longrightarrow> b < ?n \<Longrightarrow> same_base (matrix az2 ! (a * ?n + b)) (matrix az1 ! (a * ?n + b)) \<and>
        (a \<noteq> k \<longrightarrow> matrix az2 ! (a * ?n + b) = matrix az1 ! (a * ?n + b))"
    and sr2: "shortest_row (met (matrix az1) ?n) ?n k (matrix az2)"
    using dijkstra_ok [OF wf1 fr1, of q] k ifs n1 by (auto simp: Let_def)
  have "shortest_row ?m ?n i (matrix az2)" if "i < Suc k" for i
  proof (cases "i = k")
    case True
    then show ?thesis using shortest_row_cong [OF sr2, of ?m "matrix az2"] m1 k by simp
  next
    case False
    then have "i < k" using that by simp
    with shortest_row_cong [OF sr [OF this], of ?m "matrix az2"] sb2 False k show ?thesis by simp
  qed
  moreover have "az2 = az\<lparr>matrix := matrix az2\<rparr>" by (subst az2(2), subst az1) simp
  moreover have "same_base (matrix az2 ! (i * ?n + j)) (matrix az ! (i * ?n + j)) \<and>
      (Suc k \<le> i \<longrightarrow> matrix az2 ! (i * ?n + j) = matrix az ! (i * ?n + j))" if "i < ?n" "j < ?n" for i j
    using sb2 [OF that] sb [OF that] eq [of i j] that by (auto intro: same_base_trans)
  ultimately have "rows_inv az (Suc k) az2" using az2(3) l1 by (simp add: rows_inv_def Let_def)
  with az2(1) show ?thesis by blast
qed

lemma all_rows:
  assumes wf: "wf_area az" and fr: "\<And>s. s < router_count az \<Longrightarrow> fresh_row az s"
    and ifs: "\<And>a r nr. int_of_u32 (ifid (query_link_state_details q a r nr)) < MAX_INTERFACE"
  shows "\<exists>az1. res_for (dijkstra q) [0..<router_count az] az = Ok az1 \<and> rows_inv az (router_count az) az1"
  using rows_step [OF wf fr _ _ ifs]
  by (intro res_for_inv [where I = "rows_inv az"]) (auto simp: rows_inv_def Let_def)

section \<open>Tracing a path\<close>

definition cost :: "area_info \<Rightarrow> nat \<Rightarrow> nat \<Rightarrow> nat" where
  "cost az i j = unat (path_cost (matrix az ! (i * router_count az + j)))"

definition hop :: "area_info \<Rightarrow> nat \<Rightarrow> nat \<Rightarrow> nat" where
  "hop az i j = unat (nextHop (matrix az ! (i * router_count az + j)))"

definition link_of :: "area_info \<Rightarrow> nat \<Rightarrow> nat \<Rightarrow> u32" where
  "link_of az i j = link_index (matrix az ! (i * router_count az + j))"

text \<open>The links on the route from \<open>i\<close> to \<open>j\<close> that the next hops describe.\<close>

inductive on_path :: "area_info \<Rightarrow> nat \<Rightarrow> nat \<Rightarrow> nat \<Rightarrow> bool" for az j where
  here: "i \<noteq> j \<Longrightarrow> link_of az i (hop az i j) = of_nat l \<Longrightarrow> l < ls_count az \<Longrightarrow> on_path az j i l"
| later: "i \<noteq> j \<Longrightarrow> on_path az j (hop az i j) l \<Longrightarrow> on_path az j i l"

inductive_simps on_path_iff: "on_path az j i l"

lemma on_path_self: "\<not> on_path az j j l"
  by (subst on_path_iff) simp

definition computed :: "area_info \<Rightarrow> bool" where
  "computed az \<longleftrightarrow> (let n = router_count az; m = met (matrix az) n in
     n < 2 ^ 31 \<and> length (nodeinfo az) = n \<and> length (matrix az) = n * n \<and> ls_count az < 2 ^ 31 \<and>
     length (linkshadows az) = ls_count az \<and>
     (\<forall>i < n. shortest_row m n i (matrix az) \<and> link_of az i i = - 1) \<and>
     (\<forall>i < n. \<forall>j < n. 1 \<le> m i j \<and> (m i j < int MAX_METRIC \<longrightarrow> (\<exists>l < ls_count az. link_of az i j = of_nat l))))"

lemma hop_step:
  assumes c: "computed az" and ij: "i < router_count az" "j < router_count az" "i \<noteq> j" and lt: "cost az i j < MAX_METRIC"
  shows "hop az i j < router_count az \<and> cost az (hop az i j) j < cost az i j \<and>
    (\<exists>l < ls_count az. link_of az i (hop az i j) = of_nat l)"
proof -
  let ?n = "router_count az" and ?m = "met (matrix az) (router_count az)" and ?h = "hop az i j"
  have uc: "uint (path_cost (matrix az ! (a * ?n + b))) = int (cost az a b)" for a b
    by (simp add: cost_def)
  have sc: "shortest_cell ?m ?n i j (matrix az ! (i * ?n + j))"
    using c ij unfolding computed_def shortest_row_def by (auto simp: Let_def)
  have h: "?h < ?n" "?m i ?h < int MAX_METRIC" "route ?m ?n ?h j (int (cost az i j) - ?m i ?h)"
    using sc lt ij(3) by (auto simp: shortest_cell_def Let_def hop_def uc)
  have "shortest_cell ?m ?n ?h j (matrix az ! (?h * ?n + j))"
    using c ij(2) h(1) unfolding computed_def shortest_row_def by (auto simp: Let_def)
  then have "int (cost az ?h j) \<le> int (cost az i j) - ?m i ?h"
    using h(3) by (auto simp: shortest_cell_def Let_def uc)
  moreover have "1 \<le> ?m i ?h" "\<exists>l < ls_count az. link_of az i ?h = of_nat l"
    using c h(1,2) ij(1) unfolding computed_def by (auto simp: Let_def)
  ultimately show ?thesis using h(1) by auto
qed

lemma int_of_u32_nat: "unat w < 2 ^ 31 \<Longrightarrow> int_of_u32 w = int (unat w)"
proof -
  assume w: "unat w < 2 ^ 31"
  have "int_of_u32 w = signed_take_bit 31 (uint w)" by (simp add: sint_uint)
  also have "uint w = int (unat w)" by simp
  also have "signed_take_bit 31 (int (unat w)) = int (unat w)"
  proof (rule signed_take_bit_int_eq_self)
    have "(0 :: int) \<le> int (unat w)" by (rule of_nat_0_le_iff)
    then show "- (2 ^ 31) \<le> int (unat w)" by (rule order_trans [rotated]) simp
    show "int (unat w) < 2 ^ 31" using w by (simp only: of_nat_less_numeral_power_cancel_iff)
  qed
  finally show ?thesis .
qed

lemma int_of_u32_of_nat: "l < 2 ^ 31 \<Longrightarrow> int_of_u32 (of_nat l) = int l"
  by (subst int_of_u32_nat) (simp_all add: unat_of_nat take_bit_nat_eq_self)

lemma get_rid_ok: "computed az \<Longrightarrow> i < router_count az \<Longrightarrow> get_rid_by_index (of_nat i) az = Ok (snd (nodeinfo az ! i))"
  by (auto simp: get_rid_by_index_def computed_def Let_def unat_of_nat take_bit_nat_eq_self)

lemma computed_shadows:
  "computed az \<Longrightarrow> length sh = ls_count az \<Longrightarrow> computed (az\<lparr>linkshadows := sh\<rparr>)"
  by (simp add: computed_def Let_def link_of_def)

lemma on_path_shadows [simp]: "on_path (az\<lparr>linkshadows := sh\<rparr>) j i l \<longleftrightarrow> on_path az j i l"
proof
  show "on_path az j i l" if "on_path (az\<lparr>linkshadows := sh\<rparr>) j i l"
    using that by (induction rule: on_path.induct) (auto intro: on_path.intros simp: link_of_def hop_def)
  show "on_path (az\<lparr>linkshadows := sh\<rparr>) j i l" if "on_path az j i l"
    using that by (induction rule: on_path.induct) (auto intro: on_path.intros simp: link_of_def hop_def)
qed

text \<open>One round of the tracing loop at a node \<open>i\<close> with next hop \<open>h\<close>.\<close>

lemma trace_round:
  assumes c: "computed az" and ij: "i < router_count az" "j < router_count az" "i \<noteq> j" and h: "h < router_count az"
    and hp: "hop az i j < router_count az"
  shows "trace_path (Suc fuel) (router_count az) j p i (int h) az =
    res_bind (add_path_of_link (int_of_u32 (link_of az i h)) p az)
      (\<lambda>(_, az1). trace_path fuel (router_count az) j p h (int (hop az i j)) az1)"
proof -
  let ?n = "router_count az"
  have n: "?n < 2 ^ 31" "length (matrix az) = ?n * ?n" using c by (auto simp: computed_def Let_def)
  have b: "i * ?n + j < length (matrix az)" "i * ?n + h < length (matrix az)"
    using idx_less ij(1,2) h n(2) by auto
  have nh: "int_of_u32 (nextHop (matrix az ! (i * ?n + j))) = int (hop az i j)"
    using hp n(1) by (subst int_of_u32_nat) (auto simp: hop_def)
  show ?thesis
    using ij(3) b nh get_rid_ok [OF c ij(1)] get_rid_ok [OF c h] by (simp add: Let_def link_of_def)
qed

definition add_shadow :: "nat \<Rightarrow> nat \<Rightarrow> area_info \<Rightarrow> area_info" where
  "add_shadow l p az = az\<lparr>linkshadows := (linkshadows az)[l := p # linkshadows az ! l]\<rparr>"

lemma add_path_of_link_ok:
  assumes "computed az" "l < ls_count az"
  shows "add_path_of_link (int_of_u32 (of_nat l)) p az = Ok (0, add_shadow l p az)"
  using assms by (subst int_of_u32_of_nat) (auto simp: add_path_of_link_def add_shadow_def computed_def Let_def)

lemma add_shadow_simps [simp]:
  "router_count (add_shadow l p az) = router_count az" "cost (add_shadow l p az) = cost az"
  "hop (add_shadow l p az) = hop az" "ls_count (add_shadow l p az) = ls_count az"
  "link_of (add_shadow l p az) = link_of az" "on_path (add_shadow l p az) = on_path az"
  by (auto simp: add_shadow_def cost_def hop_def link_of_def fun_eq_iff)

lemma of_nat_u32_inj: "l < 2 ^ 31 \<Longrightarrow> l' < 2 ^ 31 \<Longrightarrow> (of_nat l :: u32) = of_nat l' \<Longrightarrow> l = l'"
  by (metis int_of_u32_of_nat of_nat_eq_iff)

lemma on_path_step:
  assumes "computed az" "i \<noteq> j" "link_of az i (hop az i j) = of_nat l" "l < ls_count az" "l' < ls_count az"
  shows "on_path az j i l' \<longleftrightarrow> l' = l \<or> on_path az j (hop az i j) l'"
proof -
  have "ls_count az < 2 ^ 31" using assms(1) by (simp add: computed_def Let_def)
  then have "(of_nat l :: u32) = of_nat l' \<longleftrightarrow> l' = l" using of_nat_u32_inj [of l l'] assms(4,5) by auto
  with assms show ?thesis by (subst on_path_iff) auto
qed

lemma trace_path_ok:
  assumes "computed az" "i < router_count az" "j < router_count az" "cost az i j < MAX_METRIC" "2 * cost az i j < fuel"
  shows "\<exists>sh. trace_path fuel (router_count az) j p i (int (hop az i j)) az = Ok (az\<lparr>linkshadows := sh\<rparr>) \<and>
    length sh = ls_count az \<and>
    (\<forall>l < ls_count az. set (sh ! l) = set (linkshadows az ! l) \<union> (if on_path az j i l then {p} else {}))"
  using assms
proof (induction "cost az i j" arbitrary: i az fuel rule: less_induct)
  case less
  let ?n = "router_count az" and ?h = "hop az i j"
  obtain f1 where f1: "fuel = Suc f1" using less.prems(5) by (cases fuel) auto
  show ?case
  proof (cases "i = j")
    case True
    have "\<not> on_path az j i l" for l using True on_path_self by simp
    with True less.prems(1) f1 show ?thesis
      by (intro exI [of _ "linkshadows az"]) (simp add: computed_def Let_def)
  next
    case False
    obtain l where h: "?h < ?n" "cost az ?h j < cost az i j" "l < ls_count az" "link_of az i ?h = of_nat l"
      using hop_step [OF less.prems(1-3) False less.prems(4)] by blast
    let ?az1 = "add_shadow l p az"
    have c1: "computed ?az1" unfolding add_shadow_def
      using less.prems(1) by (intro computed_shadows) (auto simp: computed_def Let_def)
    have r1: "trace_path fuel ?n j p i (int ?h) az = trace_path f1 ?n j p ?h (int ?h) ?az1"
      using trace_round [OF less.prems(1-3) False h(1,1)] f1 h(3,4) add_path_of_link_ok [OF less.prems(1) h(3)] by simp
    note op = on_path_step [OF less.prems(1) False h(4,3)]
    have lsh: "set (linkshadows ?az1 ! l') = set (linkshadows az ! l') \<union> (if l' = l then {p} else {})" if "l' < ls_count az" for l'
      using less.prems(1) h(3) that by (auto simp: add_shadow_def nth_list_update computed_def Let_def)
    have ljj: "length (linkshadows ?az1) = ls_count az" using c1 by (simp add: computed_def Let_def)
    show ?thesis
    proof (cases "?h = j")
      case True
      obtain f2 where "f1 = Suc f2" using f1 h(2) less.prems(5) by (cases f1) auto
      then have "trace_path fuel ?n j p i (int ?h) az = Ok ?az1" using r1 True by simp
      moreover have "\<not> on_path az j j l'" for l' by (rule on_path_self)
      ultimately show ?thesis using True op lsh ljj
        by (intro exI [of _ "linkshadows ?az1"]) (auto simp: add_shadow_def)
    next
      case False
      have lt: "cost az ?h j < MAX_METRIC" using h(2) less.prems(4) by simp
      have hh: "hop az ?h j < ?n" using hop_step [OF less.prems(1) h(1) less.prems(3) False lt] by blast
      obtain f2 where f2: "f1 = Suc f2" using f1 h(2) less.prems(5) by (cases f1) auto
      have "link_of az ?h ?h = - 1" using less.prems(1) h(1) by (simp add: computed_def Let_def)
      then have "add_path_of_link (int_of_u32 (link_of ?az1 ?h ?h)) p ?az1 = Ok (-1, ?az1)"
        by (simp add: add_path_of_link_def)
      then have r2: "trace_path f1 ?n j p ?h (int ?h) ?az1 = trace_path f2 ?n j p ?h (int (hop az ?h j)) ?az1"
        using trace_round [OF c1, of ?h j ?h f2 p] h(1) less.prems(3) False hh f2 by simp
      have "2 * cost ?az1 ?h j < f2" using f1 f2 h(2) less.prems(5) by simp
      from less.hyps [of ?az1 ?h f2] this c1 h lt less.prems(3) obtain sh where
        sh: "trace_path f2 ?n j p ?h (int (hop az ?h j)) ?az1 = Ok (?az1\<lparr>linkshadows := sh\<rparr>)" "length sh = ls_count az"
          "\<forall>l' < ls_count az. set (sh ! l') = set (linkshadows ?az1 ! l') \<union> (if on_path az j ?h l' then {p} else {})"
        by auto
      have "?az1\<lparr>linkshadows := sh\<rparr> = az\<lparr>linkshadows := sh\<rparr>" by (simp add: add_shadow_def)
      with r1 r2 sh lsh op show ?thesis by (intro exI [of _ sh]) auto
    qed
  qed
qed

section \<open>Recording all paths\<close>

definition path_rec :: "area_info \<Rightarrow> nat \<times> nat \<Rightarrow> netpath" where
  "path_rec az ij = (case ij of (i, j) \<Rightarrow>
     \<lparr>p_rid = snd (nodeinfo az ! i), p_nrid = snd (nodeinfo az ! j), connection = CONNECTING,
      importance_value = get_importance_value_of_router (snd (nodeinfo az ! i)) az *
        get_importance_value_of_router (snd (nodeinfo az ! j)) az,
      distance_metric = path_cost (matrix az ! (i * router_count az + j)),
      nexthop_rid = nextHop (matrix az ! (i * router_count az + j))\<rparr>)"

text \<open>The pairs \<open>ps\<close> have been recorded, in this order.\<close>

definition rec_inv :: "area_info \<Rightarrow> (nat \<times> nat) list \<Rightarrow> area_info \<Rightarrow> bool" where
  "rec_inv az ps az1 \<longleftrightarrow>
     az1 = az\<lparr>paths := map (path_rec az) ps, shortpaths := Some (rev [0..<length ps]), linkshadows := linkshadows az1\<rparr> \<and>
     length (linkshadows az1) = ls_count az \<and>
     (\<forall>l < ls_count az. set (linkshadows az1 ! l) =
        {p. p < length ps \<and> on_path az (snd (ps ! p)) (fst (ps ! p)) l})"

lemma on_path_mono:
  assumes "on_path az j i l" "matrix az' = matrix az" "router_count az' = router_count az" "ls_count az' = ls_count az"
  shows "on_path az' j i l"
  using assms by (induction rule: on_path.induct) (auto intro: on_path.intros simp: link_of_def hop_def)

lemma on_path_cong:
  assumes "matrix az' = matrix az" "router_count az' = router_count az" "ls_count az' = ls_count az"
  shows "on_path az' = on_path az"
  using on_path_mono [of az _ _ _ az'] on_path_mono [of az' _ _ _ az] assms by (auto simp: fun_eq_iff)

lemma record_path_ok:
  assumes c: "computed az" and ij: "i < router_count az" "j < router_count az" and inv: "rec_inv az ps az1"
  shows "\<exists>az2. record_path trace_fuel i j az1 = Ok az2 \<and>
    rec_inv az (ps @ (if cost az i j < MAX_METRIC then [(i, j)] else [])) az2"
proof -
  let ?n = "router_count az" and ?nd = "matrix az ! (i * router_count az + j)"
  have az1: "az1 = az\<lparr>paths := map (path_rec az) ps, shortpaths := Some (rev [0..<length ps]), linkshadows := linkshadows az1\<rparr>"
    and lsh: "length (linkshadows az1) = ls_count az"
    and sh: "\<forall>l < ls_count az. set (linkshadows az1 ! l) = {p. p < length ps \<and> on_path az (snd (ps ! p)) (fst (ps ! p)) l}"
    using inv by (auto simp: rec_inv_def)
  have f: "router_count az1 = ?n" "matrix az1 = matrix az" "nodeinfo az1 = nodeinfo az" "ls_count az1 = ls_count az"
    "lslist az1 = lslist az" "paths az1 = map (path_rec az) ps" "shortpaths az1 = Some (rev [0..<length ps])"
    by (subst az1, simp)+
  have m1: "nmetric ?nd \<noteq> 0"
  proof
    assume "nmetric ?nd = 0"
    then have "met (matrix az) ?n i j = 0" by (simp add: met_def)
    moreover have "1 \<le> met (matrix az) ?n i j" using c ij unfolding computed_def Let_def by blast
    ultimately show False by simp
  qed
  have pc: "path_cost ?nd \<ge> of_nat MAX_METRIC \<longleftrightarrow> \<not> cost az i j < MAX_METRIC"
    by (simp add: cost_def word_le_nat_alt MAX_METRIC_def not_less)
  show ?thesis
  proof (cases "cost az i j < MAX_METRIC")
    case False
    then show ?thesis using inv pc by (intro exI [of _ az1]) (simp add: record_path_def Let_def f)
  next
    case True
    let ?p = "length ps"
    let ?az2 = "az1\<lparr>paths := map (path_rec az) (ps @ [(i, j)]), shortpaths := Some (rev [0..<Suc ?p])\<rparr>"
    have c2: "computed ?az2" using c lsh f by (simp add: computed_def Let_def link_of_def)
    have s2: "cost ?az2 i j = cost az i j" "hop ?az2 i j = hop az i j" "on_path ?az2 = on_path az" "router_count ?az2 = ?n"
      using f by (auto simp: cost_def hop_def intro: on_path_cong)
    have hn: "hop az i j < 2 ^ 31"
    proof -
      have "shortest_cell (met (matrix az) ?n) ?n i j ?nd" "?n < 2 ^ 31"
        using c ij unfolding computed_def shortest_row_def by (auto simp: Let_def)
      moreover have "uint (path_cost ?nd) = int (cost az i j)" by (simp add: cost_def)
      then have "uint (path_cost ?nd) < int MAX_METRIC" using True by simp
      ultimately show ?thesis by (auto simp: shortest_cell_def Let_def hop_def)
    qed
    have nh: "int_of_u32 (nextHop ?nd) = int (hop az i j)"
      using hn int_of_u32_nat [of "nextHop ?nd"] by (simp add: hop_def)
    have c1: "computed az1" using c lsh f by (simp add: computed_def Let_def link_of_def)
    have imp: "get_importance_value_of_router r az1 = get_importance_value_of_router r az" for r
      using f by (simp add: get_importance_value_of_router_def)
    have "record_path trace_fuel i j az1 = trace_path trace_fuel ?n j ?p i (int (hop az i j)) ?az2"
      using True pc m1 f nh get_rid_ok [OF c1] ij
      by (simp add: record_path_def Let_def add_path_to_area_short_path_def path_rec_def imp)
    moreover obtain sh2 where sh2: "trace_path trace_fuel ?n j ?p i (int (hop az i j)) ?az2 = Ok (?az2\<lparr>linkshadows := sh2\<rparr>)"
        "length sh2 = ls_count az"
        "\<forall>l < ls_count az. set (sh2 ! l) = set (linkshadows az1 ! l) \<union> (if on_path az j i l then {?p} else {})"
    proof -
      have "2 * cost az i j < trace_fuel" using True by (simp add: trace_fuel_def)
      then show ?thesis
        using trace_path_ok [OF c2, of i j trace_fuel ?p] ij True s2 f that by (auto simp del: trace_path.simps)
    qed
    moreover have "rec_inv az (ps @ [(i, j)]) (?az2\<lparr>linkshadows := sh2\<rparr>)"
    proof -
      have "?az2\<lparr>linkshadows := sh2\<rparr> = az\<lparr>paths := map (path_rec az) (ps @ [(i, j)]),
          shortpaths := Some (rev [0..<length (ps @ [(i, j)])]), linkshadows := sh2\<rparr>"
        by (subst az1) simp
      moreover have "set (sh2 ! l) = {p. p < length (ps @ [(i, j)]) \<and>
          on_path az (snd ((ps @ [(i, j)]) ! p)) (fst ((ps @ [(i, j)]) ! p)) l}" if "l < ls_count az" for l
        using sh2(3) sh that by (auto simp: nth_append less_Suc_eq)
      ultimately show ?thesis using sh2(2) by (simp add: rec_inv_def)
    qed
    ultimately show ?thesis using True by auto
  qed
qed

definition recorded :: "area_info \<Rightarrow> (nat \<times> nat) list" where
  "recorded az = filter (\<lambda>(i, j). cost az i j < MAX_METRIC)
     (List.product [0..<router_count az] [0..<router_count az])"

lemma product_snoc: "List.product (xs @ [x]) ys = List.product xs ys @ map (Pair x) ys"
  by (induction xs) auto

lemma record_short_path_ok:
  assumes c: "computed az" and inv: "rec_inv az [] az"
  shows "\<exists>az2. record_short_path trace_fuel az = Ok az2 \<and> rec_inv az (recorded az) az2"
proof -
  let ?n = "router_count az"
  let ?sel = "filter (\<lambda>(i, j). cost az i j < MAX_METRIC)"
  let ?I = "\<lambda>i. rec_inv az (?sel (List.product [0..<i] [0..<?n]))"
  let ?J = "\<lambda>i j. rec_inv az (?sel (List.product [0..<i] [0..<?n] @ map (Pair i) [0..<j]))"
  have inner: "\<exists>az2. res_for (record_path trace_fuel i) [0..<?n] az1 = Ok az2 \<and> ?J i ?n az2"
    if "i < ?n" "?I i az1" for i az1
  proof (rule res_for_inv [where I = "?J i"])
    fix j az1 assume "j < ?n" "?J i j az1"
    from record_path_ok [OF c that(1) this] show "\<exists>az2. record_path trace_fuel i j az1 = Ok az2 \<and> ?J i (Suc j) az2"
      by (cases "cost az i j < MAX_METRIC") simp_all
  qed (use that in auto)
  have "\<exists>az2. res_for (\<lambda>i. res_for (record_path trace_fuel i) [0..<?n]) [0..<?n] az = Ok az2 \<and> ?I ?n az2"
  proof (rule res_for_inv [where I = ?I])
    fix i az1 assume i: "i < ?n" "?I i az1"
    from inner [OF i] show "\<exists>az2. res_for (record_path trace_fuel i) [0..<?n] az1 = Ok az2 \<and> ?I (Suc i) az2"
      by (simp add: product_snoc)
  qed (use inv in auto)
  then show ?thesis by (simp add: record_short_path_def recorded_def Let_def)
qed

section \<open>The whole computation of an area\<close>

definition has_backbone :: "area_info \<Rightarrow> bool" where
  "has_backbone az \<longleftrightarrow> list_ex (\<lambda>l. \<not> is_access l) (take (ls_count az) (lslist az))"

lemma computed_of_rows:
  assumes g: "good_links az" and i: "init_inv az (ls_count az) az1" and r: "rows_inv az1 (router_count az1) az2"
  shows "computed az2" "\<And>x y. x < router_count az \<Longrightarrow> y < router_count az \<Longrightarrow>
           met (matrix az2) (router_count az) x y = link_metric az x y"
    and "router_count az2 = router_count az"
proof -
  let ?n = "router_count az"
  have n1: "router_count az1 = ?n" "length (nodeinfo az1) = ?n" "length (matrix az1) = ?n * ?n" "ls_count az1 = ls_count az"
      "length (linkshadows az1) = ls_count az"
    using i by (auto simp: init_inv_def Let_def)
  have gl: "?n < 2 ^ 31" "ls_count az < 2 ^ 31" using g by (auto simp: good_links_def)
  have az2: "az2 = az1\<lparr>matrix := matrix az2\<rparr>" "length (matrix az2) = length (matrix az1)"
    and sb: "\<And>x y. x < ?n \<Longrightarrow> y < ?n \<Longrightarrow> same_base (matrix az2 ! (x * ?n + y)) (matrix az1 ! (x * ?n + y))"
    and sr: "\<And>x. x < ?n \<Longrightarrow> shortest_row (met (matrix az1) ?n) ?n x (matrix az2)"
    using r n1 by (auto simp: rows_inv_def Let_def)
  have n2: "router_count az2 = ?n" "nodeinfo az2 = nodeinfo az1" "ls_count az2 = ls_count az" "linkshadows az2 = linkshadows az1"
    by (subst az2(1), simp add: n1)+
  show "router_count az2 = router_count az" by (fact n2)
  have m21: "met (matrix az2) ?n x y = met (matrix az1) ?n x y" if "x < ?n" "y < ?n" for x y
    using met_same_base [OF sb [OF that]] .
  with met_cell [OF g i] show m: "met (matrix az2) ?n x y = link_metric az x y" if "x < ?n" "y < ?n" for x y
    using that by simp
  have sr2: "shortest_row (met (matrix az2) ?n) ?n x (matrix az2)" if "x < ?n" for x
    using shortest_row_cong [OF sr [OF that], of "met (matrix az2) ?n" "matrix az2"] m21 that by simp
  have cell: "cell_after az (ls_count az) x y (matrix az1 ! (x * ?n + y))" if "x < ?n" "y < ?n" for x y
    using i that by (simp add: init_inv_def Let_def)
  have li: "link_of az2 x y = link_index (matrix az1 ! (x * ?n + y))" if "x < ?n" "y < ?n" for x y
    using sb [OF that] n2 by (simp add: link_of_def same_base_def)
  have self: "link_of az2 x x = - 1" if "x < ?n" for x
    using cell [OF that that] li [OF that that] link_ends_neq [OF g]
    by (auto simp: cell_after_def empty_node_def)
  have links: "1 \<le> met (matrix az2) ?n x y \<and> (met (matrix az2) ?n x y < int MAX_METRIC \<longrightarrow>
      (\<exists>l < ls_count az. link_of az2 x y = of_nat l))" if "x < ?n" "y < ?n" for x y
  proof
    show "1 \<le> met (matrix az2) ?n x y"
      unfolding m [OF that] by (rule link_metric_cases [OF g, of x y]) (auto simp: MAX_METRIC_def)
    show "met (matrix az2) ?n x y < int MAX_METRIC \<longrightarrow> (\<exists>l < ls_count az. link_of az2 x y = of_nat l)"
      unfolding m [OF that] link_metric_less [OF g] using cell [OF that] li [OF that] by (auto simp: cell_after_def)
  qed
  show "computed az2"
    unfolding computed_def Let_def n2(1-4)
    using gl n1 az2(2) self links sr2 by auto
qed

lemma compute_area_ok:
  assumes g: "good_links az" and b: "has_backbone az" and p: "paths az = []"
    and ifs: "\<And>a r nr. int_of_u32 (ifid (query_link_state_details q a r nr)) < MAX_INTERFACE"
  shows "\<exists>az1 az2 az3. init_lidb_area az = Ok az1 \<and> compute_area q az1 = Ok az3 \<and>
    rec_inv az2 (recorded az2) az3 \<and> computed az2 \<and> router_count az2 = router_count az \<and> ls_count az2 = ls_count az \<and>
    lslist az2 = lslist az \<and> nodeinfo az2 = map (\<lambda>j. (j, routerlist az ! j)) [0..<router_count az] \<and>
    (\<forall>x < router_count az. \<forall>y < router_count az. met (matrix az2) (router_count az) x y = link_metric az x y)"
proof -
  obtain az1 where i: "init_lidb_area az = Ok az1" "init_inv az (ls_count az) az1" using init_lidb_area_inv [OF g] by blast
  have n1: "router_count az1 = router_count az" "lslist az1 = lslist az" "ls_count az1 = ls_count az" "paths az1 = []"
      "linkshadows az1 = replicate (ls_count az) []" "nodeinfo az1 = map (\<lambda>j. (j, routerlist az ! j)) [0..<router_count az]"
    using i(2) p by (auto simp: init_inv_def Let_def)
  have "\<exists>l < ls_count az. \<not> is_access (lslist az ! l)"
    using b g by (auto simp: has_backbone_def good_links_def list_ex_iff in_set_conv_nth)
  then have sp: "shortpaths az1 = Some []" using i(2) by (auto simp: init_inv_def Let_def)
  obtain az2 where r: "res_for (dijkstra q) [0..<router_count az1] az1 = Ok az2" "rows_inv az1 (router_count az1) az2"
    using all_rows [OF init_wf_area(1) [OF g i(2)], of q] init_wf_area(2) [OF g i(2)] ifs n1(1) by auto
  note c = computed_of_rows [OF g i(2) r(2)]
  have az2: "az2 = az1\<lparr>matrix := matrix az2\<rparr>" using r(2) by (simp add: rows_inv_def Let_def)
  have n2: "paths az2 = []" "shortpaths az2 = Some []" "linkshadows az2 = replicate (ls_count az) []"
      "ls_count az2 = ls_count az" "lslist az2 = lslist az" "nodeinfo az2 = map (\<lambda>j. (j, routerlist az ! j)) [0..<router_count az]"
    by (subst az2, simp add: n1 sp)+
  have "rec_inv az2 [] az2" using n2 by (simp add: rec_inv_def)
  from record_short_path_ok [OF c(1) this] obtain az3 where
    "record_short_path trace_fuel az2 = Ok az3" "rec_inv az2 (recorded az2) az3" by blast
  with i(1) r(1) c n2 show ?thesis by (auto simp: compute_area_def)
qed

section \<open>Damage after a link failure\<close>

lemma length_mark_down [simp]: "length (mark_down pl ps) = length ps"
  by (induction pl arbitrary: ps) auto

lemma mark_down_nth:
  "p < length ps \<Longrightarrow> mark_down pl ps ! p = (if p \<in> set pl then (ps ! p)\<lparr>connection := UNCONNECTING\<rparr> else ps ! p)"
proof (induction pl arbitrary: ps)
  case (Cons a pl)
  then show ?case by (cases "a = p") auto
qed simp

lemma net_values_fold:
  "fold (\<lambda>p (broken, net). let path = f p in if connection path = CONNECTING then (broken, net + importance_value path)
       else (broken + importance_value path, net + importance_value path)) ps (b, t) =
   (b + sum_list (map (\<lambda>p. importance_value (f p)) (filter (\<lambda>p. connection (f p) \<noteq> CONNECTING) ps)),
    t + sum_list (map (\<lambda>p. importance_value (f p)) ps))"
  by (induction ps arbitrary: b t) (auto simp: Let_def)

lemma net_values_eq:
  assumes "shortpaths az = Some ps"
  shows "net_values az =
    Ok (sum_list (map (\<lambda>p. importance_value (paths az ! p)) (filter (\<lambda>p. connection (paths az ! p) \<noteq> CONNECTING) ps)),
        sum_list (map (\<lambda>p. importance_value (paths az ! p)) ps))"
  using assms net_values_fold [of "\<lambda>p. paths az ! p" ps 0 0] by (simp add: net_values_def)

lemma rec_inv_frame:
  assumes "rec_inv az ps az1"
  shows "matrix az1 = matrix az" "router_count az1 = router_count az" "ls_count az1 = ls_count az" "lslist az1 = lslist az"
    "nodeinfo az1 = nodeinfo az" "paths az1 = map (path_rec az) ps" "shortpaths az1 = Some (rev [0..<length ps])"
    "on_path az1 = on_path az"
proof -
  have az1: "az1 = az\<lparr>paths := map (path_rec az) ps, shortpaths := Some (rev [0..<length ps]), linkshadows := linkshadows az1\<rparr>"
    using assms by (simp add: rec_inv_def)
  show f: "matrix az1 = matrix az" "router_count az1 = router_count az" "ls_count az1 = ls_count az" "lslist az1 = lslist az"
    "nodeinfo az1 = nodeinfo az" "paths az1 = map (path_rec az) ps" "shortpaths az1 = Some (rev [0..<length ps])"
    by (subst az1, simp)+
  show "on_path az1 = on_path az" using f by (intro on_path_cong)
qed

lemma sum_list_rev_upt: "sum_list (map f (filter P (rev [0..<n]))) = (\<Sum>p | p < n \<and> P p. f p :: u32)"
proof -
  have "sum_list (map f (filter P (rev [0..<n]))) = sum f (set (filter P (rev [0..<n])))"
    by (rule sum_list_distinct_conv_sum_set) simp
  also have "set (filter P (rev [0..<n])) = {p. p < n \<and> P p}" by auto
  finally show ?thesis .
qed

lemma break_link:
  assumes r: "rec_inv az ps az1" and l: "find_index (same_link lk) (take (ls_count az) (lslist az)) = Some l" "l < ls_count az"
  shows "net_values (broken_path_down lk az1) =
    Ok (\<Sum>p | p < length ps \<and> on_path az (snd (ps ! p)) (fst (ps ! p)) l. importance_value (path_rec az (ps ! p)),
        \<Sum>p | p < length ps. importance_value (path_rec az (ps ! p)))"
proof -
  note f = rec_inv_frame [OF r]
  let ?az2 = "broken_path_down lk az1"
  have az2: "paths ?az2 = mark_down (linkshadows az1 ! l) (paths az1)" "shortpaths ?az2 = Some (rev [0..<length ps])"
    using l f by (simp_all add: broken_path_down_def)
  have sh: "p \<in> set (linkshadows az1 ! l) \<longleftrightarrow> on_path az (snd (ps ! p)) (fst (ps ! p)) l" if "p < length ps" for p
    using r l(2) that by (simp add: rec_inv_def)
  have pth: "paths ?az2 ! p = (if on_path az (snd (ps ! p)) (fst (ps ! p)) l
      then (path_rec az (ps ! p))\<lparr>connection := UNCONNECTING\<rparr> else path_rec az (ps ! p))" if "p < length ps" for p
    using that sh [OF that] f by (simp add: az2 mark_down_nth)
  have imp: "importance_value (paths ?az2 ! p) = importance_value (path_rec az (ps ! p))" if "p < length ps" for p
    using pth [OF that] by simp
  have con: "connection (paths ?az2 ! p) \<noteq> CONNECTING \<longleftrightarrow> on_path az (snd (ps ! p)) (fst (ps ! p)) l" if "p < length ps" for p
    using pth [OF that] by (auto simp: path_rec_def CONNECTING_def UNCONNECTING_def split: prod.splits)
  have "(\<Sum>p | p < length ps \<and> connection (paths ?az2 ! p) \<noteq> CONNECTING. importance_value (paths ?az2 ! p)) =
      (\<Sum>p | p < length ps \<and> on_path az (snd (ps ! p)) (fst (ps ! p)) l. importance_value (path_rec az (ps ! p)))"
    using con imp by (intro sum.cong) auto
  moreover have "(\<Sum>p | p < length ps. importance_value (paths ?az2 ! p)) = (\<Sum>p | p < length ps. importance_value (path_rec az (ps ! p)))"
    using imp by (intro sum.cong) auto
  moreover have "sum_list (map (\<lambda>p. importance_value (paths ?az2 ! p)) (rev [0..<length ps])) =
      (\<Sum>p | p < length ps. importance_value (paths ?az2 ! p))"
    using sum_list_rev_upt [of "\<lambda>p. importance_value (paths ?az2 ! p)" "\<lambda>_. True" "length ps"] by simp
  ultimately show ?thesis
    using net_values_eq [OF az2(2)] sum_list_rev_upt [of "\<lambda>p. importance_value (paths ?az2 ! p)" _ "length ps"]
    by simp
qed

section \<open>Properties\<close>

text \<open>
  C6. From link-state rows to shortest paths: for an area with distinct routers, link metrics between 1 and 1999, parallel
  links without different metrics, at most four neighbours per router, at least one link between routers and no path
  on record yet, and a database that answers with interface numbers below \<^verbatim>\<open>MAX_INTERFACE\<close>, initialisation and computation
  return (the tracing loop ends), the cost kept for every pair of routers is that of a cheapest route over the links of
  the area (or \<^verbatim>\<open>MAX_METRIC\<close>), and a pair with a route below \<^verbatim>\<open>MAX_METRIC\<close> has a connected path of that cost on record.
\<close>

theorem area_shortest_paths:
  assumes "good_links az" "has_backbone az" "paths az = []" "parallel_alike az"
    and "\<And>a r nr. int_of_u32 (ifid (query_link_state_details q a r nr)) < MAX_INTERFACE"
  shows "\<exists>az1 az3. init_lidb_area az = Ok az1 \<and> compute_area q az1 = Ok az3 \<and>
    (\<forall>i < router_count az. \<forall>j < router_count az. let c = int (cost az3 i j) in
       c \<le> int MAX_METRIC \<and> (\<forall>c'. route (cheapest_link az) (router_count az) i j c' \<longrightarrow> c \<le> c') \<and>
       (c < int MAX_METRIC \<longrightarrow> route (cheapest_link az) (router_count az) i j c \<and>
          (\<exists>p \<in> set (paths az3). p_rid p = routerlist az ! i \<and> p_nrid p = routerlist az ! j \<and>
             unat (distance_metric p) = cost az3 i j \<and> connection p = CONNECTING)))"
proof -
  let ?n = "router_count az"
  obtain az1 az2 az3 where ok: "init_lidb_area az = Ok az1" "compute_area q az1 = Ok az3"
    and r: "rec_inv az2 (recorded az2) az3" and c: "computed az2" and n: "router_count az2 = ?n"
    and m: "\<forall>x < ?n. \<forall>y < ?n. met (matrix az2) ?n x y = link_metric az x y" and ni: "nodeinfo az2 = map (\<lambda>j. (j, routerlist az ! j)) [0..<?n]"
    using compute_area_ok [OF assms(1-3,5)] by blast
  have lm: "link_metric az = cheapest_link az" using link_metric_cheapest [OF assms(1,4)] by (simp add: fun_eq_iff)
  note f = rec_inv_frame [OF r]
  have eq: "cost az3 = cost az2" using f by (auto simp: cost_def fun_eq_iff)
  have uc: "uint (path_cost (matrix az2 ! (i * ?n + j))) = int (cost az3 i j)" for i j
    using n by (simp add: cost_def eq)
  have cell: "shortest_cell (cheapest_link az) ?n i j (matrix az2 ! (i * ?n + j))" if "i < ?n" "j < ?n" for i j
  proof -
    have "shortest_row (met (matrix az2) ?n) ?n i (matrix az2)"
      using c n that unfolding computed_def Let_def by simp
    from shortest_row_cong [OF this, of "link_metric az" "matrix az2"] m that
    show ?thesis by (simp add: shortest_row_def lm)
  qed
  have rec: "\<exists>p \<in> set (paths az3). p_rid p = routerlist az ! i \<and> p_nrid p = routerlist az ! j \<and>
       unat (distance_metric p) = cost az3 i j \<and> connection p = CONNECTING"
    if "i < ?n" "j < ?n" "int (cost az3 i j) < int MAX_METRIC" for i j
  proof
    show "path_rec az2 (i, j) \<in> set (paths az3)"
      using that f n by (simp add: recorded_def eq)
    show "p_rid (path_rec az2 (i, j)) = routerlist az ! i \<and> p_nrid (path_rec az2 (i, j)) = routerlist az ! j \<and>
       unat (distance_metric (path_rec az2 (i, j))) = cost az3 i j \<and> connection (path_rec az2 (i, j)) = CONNECTING"
      using f that ni by (simp add: path_rec_def cost_def)
  qed
  show ?thesis
    using ok cell rec by (intro exI [of _ az1] exI [of _ az3]) (auto simp: shortest_cell_def Let_def uc)
qed

text \<open>Two routers 7 and 8, a link each way, and an access network at router 7.\<close>

definition pair_area :: area_info where
  "pair_area = \<lparr>azid = 1, routerlist = [7, 8], router_count = 2,
     lslist = [\<lparr>areaid = 1, rid = 7, nrid = 8, ifid = 1, nifid = 2, metric = 10, status = 1, seq = 0\<rparr>,
               \<lparr>areaid = 1, rid = 8, nrid = 7, ifid = 2, nifid = 1, metric = 10, status = 1, seq = 0\<rparr>,
               \<lparr>areaid = 1, rid = 7, nrid = 0, ifid = 3, nifid = 0, metric = 5, status = 1, seq = 0\<rparr>],
     ls_count = 3, backbone_count = 0, access_count = 0, nodeinfo = [], matrix = [], paths = [],
     shortpaths = None, linkshadows = []\<rparr>"

lemma link_ends_pair: "link_ends pair_area l x y \<Longrightarrow> y < 2"
  by (simp add: link_ends_def pair_area_def)

lemma pair_area_good: "good_links pair_area" "has_backbone pair_area" "paths pair_area = []"
proof -
  have deg: "card {y. \<exists>l < 3. link_ends pair_area l x y} \<le> MAX_ECMP_LIMIT" for x
  proof -
    have "card {y. \<exists>l < 3. link_ends pair_area l x y} \<le> card {..<2 :: nat}"
      by (intro card_mono) (auto dest: link_ends_pair)
    then show ?thesis by (simp add: MAX_ECMP_LIMIT_def)
  qed
  have l: "\<forall>l < 3. \<not> is_access (lslist pair_area ! l) \<longrightarrow>
        (\<exists>x y. link_ends pair_area l x y \<and> x \<noteq> y) \<and> 1 \<le> metric (lslist pair_area ! l) \<and> metric (lslist pair_area ! l) < of_nat MAX_METRIC"
  proof -
    have "link_ends pair_area 0 0 1" "link_ends pair_area 1 1 0"
      by (simp_all add: pair_area_def is_access_def link_ends_def)
    then have "\<exists>x y. link_ends pair_area 0 x y \<and> x \<noteq> y" "\<exists>x y. link_ends pair_area 1 x y \<and> x \<noteq> y"
      by (metis zero_neq_one)+
    then show ?thesis unfolding less_3 by (simp add: pair_area_def is_access_def MAX_METRIC_def)
  qed
  show "good_links pair_area" unfolding good_links_def using deg l by (auto simp: pair_area_def)
  show "has_backbone pair_area" by (simp add: has_backbone_def pair_area_def is_access_def)
  show "paths pair_area = []" by (simp add: pair_area_def)
qed

lemma no_rows_ifs: "int_of_u32 (ifid (query_link_state_details no_rows a r nr)) < MAX_INTERFACE"
  by (simp add: no_rows_def zero_link_def MAX_INTERFACE_def)

lemma pair_area_alike: "parallel_alike pair_area"
proof -
  have "l = l'" if "link_ends pair_area l x y" "link_ends pair_area l' x y" "l < 3" "l' < 3" for l l' x y
    using that by (auto simp: link_ends_def pair_area_def less_3 is_access_def nth_Cons' split: if_splits)
  then show ?thesis unfolding parallel_alike_def by (metis (no_types, lifting) pair_area_def area_info.simps(5))
qed

theorem area_shortest_paths_witness:
  "\<exists>az1 az3. init_lidb_area pair_area = Ok az1 \<and> compute_area no_rows az1 = Ok az3 \<and>
     (\<forall>i < 2. \<forall>j < 2. cost az3 i j \<le> MAX_METRIC)"
proof -
  have n: "router_count pair_area = 2" by (simp add: pair_area_def)
  show ?thesis using area_shortest_paths [OF pair_area_good pair_area_alike no_rows_ifs] unfolding n Let_def by auto
qed

text \<open>
  C7. After the computation of an area (distinct routers, metrics between 1 and 1999, at most four neighbours per router, at
  least one link between routers, no path on record before, interface numbers below \<^verbatim>\<open>MAX_INTERFACE\<close>) every path on record
  is listed under exactly the links its next hops lead over: the path from router \<open>i\<close> to router \<open>j\<close> is in the chain of link
  \<open>l\<close> if and only if \<open>l\<close> lies on the way along the next hops from \<open>i\<close> to \<open>j\<close>.  When then a link of the area fails, the damage
  values are the importance of the paths over that link and the importance of all paths (the sums of \<^verbatim>\<open>int\<close> values
  modulo \<open>2\<^sup>3\<^sup>2\<close>).
\<close>

theorem broken_link_damage:
  assumes "good_links az" "has_backbone az" "paths az = []"
    and "\<And>a r nr. int_of_u32 (ifid (query_link_state_details q a r nr)) < MAX_INTERFACE"
    and "find_index (same_link lk) (take (ls_count az) (lslist az)) = Some l" "l < ls_count az"
  shows "\<exists>az1 az3. init_lidb_area az = Ok az1 \<and> compute_area q az1 = Ok az3 \<and>
    (\<forall>p < length (paths az3). \<exists>i < router_count az. \<exists>j < router_count az.
       p_rid (paths az3 ! p) = routerlist az ! i \<and> p_nrid (paths az3 ! p) = routerlist az ! j \<and>
       (\<forall>l < ls_count az. p \<in> set (linkshadows az3 ! l) \<longleftrightarrow> on_path az3 j i l)) \<and>
    net_values (broken_path_down lk az3) =
      Ok (\<Sum>p | p < length (paths az3) \<and> p \<in> set (linkshadows az3 ! l). importance_value (paths az3 ! p),
          \<Sum>p | p < length (paths az3). importance_value (paths az3 ! p))"
proof -
  obtain az1 az2 az3 where ok: "init_lidb_area az = Ok az1" "compute_area q az1 = Ok az3"
    and r: "rec_inv az2 (recorded az2) az3" and e: "ls_count az2 = ls_count az" "lslist az2 = lslist az" "router_count az2 = router_count az"
      "nodeinfo az2 = map (\<lambda>j. (j, routerlist az ! j)) [0..<router_count az]"
    using compute_area_ok [OF assms(1-4)] by blast
  note f = rec_inv_frame [OF r]
  let ?ps = "recorded az2"
  have len: "length (paths az3) = length ?ps" using f by simp
  have sh: "p \<in> set (linkshadows az3 ! l) \<longleftrightarrow> on_path az3 (snd (?ps ! p)) (fst (?ps ! p)) l" if "p < length ?ps" "l < ls_count az" for p l
    using r that e f(8) by (simp add: rec_inv_def)
  have ends: "\<exists>i < router_count az. \<exists>j < router_count az. p_rid (paths az3 ! p) = routerlist az ! i \<and> p_nrid (paths az3 ! p) = routerlist az ! j \<and>
       (\<forall>l < ls_count az. p \<in> set (linkshadows az3 ! l) \<longleftrightarrow> on_path az3 j i l)" if "p < length ?ps" for p
  proof -
    obtain i j where ij: "?ps ! p = (i, j)" by (cases "?ps ! p")
    have "(i, j) \<in> set ?ps" using nth_mem [OF that] by (simp only: ij)
    then have b: "i < router_count az" "j < router_count az" by (simp_all add: recorded_def e)
    have "p_rid (paths az3 ! p) = routerlist az ! i" "p_nrid (paths az3 ! p) = routerlist az ! j"
      using that b f ij e by (simp_all add: path_rec_def)
    then show ?thesis using b sh [OF that] ij by auto
  qed
  have "(\<Sum>p | p < length ?ps \<and> on_path az2 (snd (?ps ! p)) (fst (?ps ! p)) l. importance_value (path_rec az2 (?ps ! p))) =
      (\<Sum>p | p < length ?ps \<and> p \<in> set (linkshadows az3 ! l). importance_value (paths az3 ! p))"
    using sh assms(6) f by (intro sum.cong) auto
  moreover have "(\<Sum>p | p < length ?ps. importance_value (path_rec az2 (?ps ! p))) = (\<Sum>p | p < length ?ps. importance_value (paths az3 ! p))"
    using f by (intro sum.cong) auto
  ultimately have "net_values (broken_path_down lk az3) =
      Ok (\<Sum>p | p < length ?ps \<and> p \<in> set (linkshadows az3 ! l). importance_value (paths az3 ! p),
          \<Sum>p | p < length ?ps. importance_value (paths az3 ! p))"
    using break_link [OF r, of lk l] assms(5,6) e by simp
  with ok ends len show ?thesis by (intro exI [of _ az1] exI [of _ az3]) simp
qed

theorem broken_link_damage_witness:
  "\<exists>az1 az3. init_lidb_area pair_area = Ok az1 \<and> compute_area no_rows az1 = Ok az3 \<and>
     is_ok (net_values (broken_path_down (lslist pair_area ! 0) az3))"
proof -
  have l: "find_index (same_link (lslist pair_area ! 0)) (take (ls_count pair_area) (lslist pair_area)) = Some 0"
      "0 < ls_count pair_area"
    by (simp_all add: pair_area_def same_link_def)
  show ?thesis using broken_link_damage [OF pair_area_good no_rows_ifs l] by auto
qed

text \<open>
  Equal-cost paths are merged without a check of \<^verbatim>\<open>MAX_ECMP_LIMIT\<close>: when a destination already has
  four next hops, an equal-cost path over a fifth writes behind the array.
\<close>

theorem equal_path_copy_overflow:
  assumes "length (nexthop dst) = MAX_ECMP_LIMIT" "nexthop_count dst = MAX_ECMP_LIMIT"
    "h \<in> set (take (nexthop_count w) (nexthop w))" "h \<notin> set (nexthop dst)"
  shows "equal_path_copy w dst = Err OutOfBounds"
proof -
  have "equal_path_loop (nexthop dst) hs MAX_ECMP_LIMIT dst = Err OutOfBounds" if "h \<in> set hs" for hs
    using that assms(1,4) by (induction hs) auto
  with assms show ?thesis by (simp add: equal_path_copy_def)
qed

theorem equal_path_copy_overflow_witness:
  "equal_path_copy (link_cell 0 10 5) (empty_node\<lparr>nexthop := [1, 2, 3, 4], nexthop_count := 4\<rparr>) = Err OutOfBounds"
  by (rule equal_path_copy_overflow [where h = 5]) (simp_all add: link_cell_def MAX_ECMP_LIMIT_def)

lemma record_path_uninit:
  assumes c: "computed az" and n: "0 < router_count az" and u: "shortpaths az = None"
  shows "record_path fuel 0 0 az = Err UninitPointer"
proof -
  let ?n = "router_count az" and ?m = "met (matrix az) (router_count az)" and ?nd = "matrix az ! 0"
  have "shortest_row ?m ?n 0 (matrix az)" using c n unfolding computed_def Let_def by blast
  then have "shortest_cell ?m ?n 0 0 (matrix az ! (0 * ?n + 0))" using n unfolding shortest_row_def by blast
  then have "uint (path_cost ?nd) \<le> 0" using route_refl [OF n, of ?m] by (auto simp: shortest_cell_def Let_def)
  then have "path_cost ?nd = 0" by (simp add: word_uint_eq_iff)
  moreover have "nmetric ?nd \<noteq> 0"
  proof
    assume "nmetric ?nd = 0"
    then have "?m 0 0 = 0" by (simp add: met_def)
    moreover have "1 \<le> ?m 0 0" using c n unfolding computed_def Let_def by blast
    ultimately show False by simp
  qed
  ultimately show ?thesis
    using get_rid_ok [OF c n] u by (simp add: record_path_def Let_def MAX_METRIC_def add_path_to_area_short_path_def)
qed

text \<open>
  \<^verbatim>\<open>init_lidb_info\<close> sets \<^verbatim>\<open>shortpaths\<close> only when it meets a link between routers: in an area that has
  access links only, the recording of paths follows a pointer that was never written.
\<close>

theorem no_backbone_uninitialised:
  assumes "good_links az" "\<not> has_backbone az" "shortpaths az = None" "0 < router_count az"
    and "\<And>a r nr. int_of_u32 (ifid (query_link_state_details q a r nr)) < MAX_INTERFACE"
  shows "\<exists>az1. init_lidb_area az = Ok az1 \<and> compute_area q az1 = Err UninitPointer"
proof -
  have acc: "is_access (lslist az ! l)" if "l < ls_count az" for l
  proof -
    have "lslist az ! l \<in> set (take (ls_count az) (lslist az))"
      using that assms(1) by (auto simp: good_links_def)
    with assms(2) show ?thesis by (auto simp: has_backbone_def list_ex_iff)
  qed
  let ?J = "\<lambda>k az1. init_inv az k az1 \<and> shortpaths az1 = None"
  let ?az0 = "az\<lparr>nodeinfo := map (\<lambda>j. (j, routerlist az ! j)) [0..<router_count az],
      matrix := replicate (router_count az * router_count az) empty_node,
      linkshadows := replicate (ls_count az) [], access_count := 0, backbone_count := 0\<rparr>"
  have "\<exists>az1. res_for put_link [0..<ls_count az] ?az0 = Ok az1 \<and> ?J (ls_count az) az1"
  proof (rule res_for_inv [where I = ?J])
    show "?J 0 ?az0"
      using assms(3) idx_less [where n = "router_count az"] by (auto simp: init_inv_def Let_def cell_after_def)
    fix k az1 assume k: "k < ls_count az" and J: "?J k az1"
    obtain az2 where az2: "put_link k az1 = Ok az2" "init_inv az (Suc k) az2"
      using put_link_ok [OF assms(1) k] J by blast
    moreover have "lslist az1 = lslist az" using J by (simp add: init_inv_def Let_def)
    then have "shortpaths az2 = None" using az2(1) acc [OF k] J by (auto simp: put_link_def Let_def)
    ultimately show "\<exists>az2. put_link k az1 = Ok az2 \<and> ?J (Suc k) az2" by blast
  qed simp
  then obtain az1 where i: "res_for put_link [0..<ls_count az] ?az0 = Ok az1" "init_inv az (ls_count az) az1" "shortpaths az1 = None"
    by blast
  have ini: "init_lidb_area az = Ok az1" using i(1) assms(1) by (simp add: init_lidb_area_def Let_def good_links_def)
  have n1: "router_count az1 = router_count az" using i(2) by (simp add: init_inv_def Let_def)
  obtain az2 where r: "res_for (dijkstra q) [0..<router_count az1] az1 = Ok az2" "rows_inv az1 (router_count az1) az2"
    using all_rows [OF init_wf_area(1) [OF assms(1) i(2)], of q] init_wf_area(2) [OF assms(1) i(2)] assms(5) n1 by auto
  note c = computed_of_rows [OF assms(1) i(2) r(2)]
  have "az2 = az1\<lparr>matrix := matrix az2\<rparr>" using r(2) by (simp add: rows_inv_def Let_def)
  then have "shortpaths az2 = None" using i(3) by (metis area_info.select_convs(11) area_info.surjective area_info.update_convs(9))
  then have "record_path trace_fuel 0 0 az2 = Err UninitPointer" using record_path_uninit [OF c(1)] c(3) assms(4) by simp
  then have "record_short_path trace_fuel az2 = Err UninitPointer"
    using c(3) assms(4) by (simp add: record_short_path_def Let_def upt_conv_Cons)
  with ini r(1) show ?thesis by (simp add: compute_area_def)
qed

definition stub_area :: area_info where
  "stub_area = pair_area\<lparr>routerlist := [7], router_count := 1, lslist := [lslist pair_area ! 2], ls_count := 1\<rparr>"

theorem no_backbone_uninitialised_witness:
  "\<exists>az1. init_lidb_area stub_area = Ok az1 \<and> compute_area no_rows az1 = Err UninitPointer"
proof (rule no_backbone_uninitialised)
  show "good_links stub_area"
    by (simp add: good_links_def stub_area_def pair_area_def is_access_def link_ends_def)
qed (simp_all add: stub_area_def pair_area_def has_backbone_def is_access_def no_rows_ifs)

end
