(* ===== verification/Xml.thy ===== *)
theory Xml
  imports Prelude
begin

text \<open>
  The document helpers of \<^verbatim>\<open>utils/xml.c\<close> over the part of a libxml2 node the sources read (name,
  properties, children), and the standard library's \<^verbatim>\<open>strtol\<close> in base 10.  The libxml2 functions
  \<^verbatim>\<open>xmlNodeListGetString\<close> and \<^verbatim>\<open>xmlGetProp\<close> are parameters.
\<close>

section \<open>Nodes\<close>

text \<open>An element or a text node; the latter is named \<open>''text''\<close> and has no children.\<close>

datatype xml_node = XmlNode (node_name: string) (node_props: "(string \<times> string) list")
  (node_children: "xml_node list") (node_content: string)

abbreviation text_node :: "string \<Rightarrow> xml_node" where
  "text_node s \<equiv> XmlNode ''text'' [] [] s"

abbreviation elem :: "string \<Rightarrow> xml_node list \<Rightarrow> xml_node" where
  "elem n cs \<equiv> XmlNode n [] cs []"

definition get_value_by_name ::
  "(xml_node list \<Rightarrow> string option) \<Rightarrow> xml_node \<Rightarrow> string \<Rightarrow> string option" where
  "get_value_by_name node_list_string parent name =
     (case find (\<lambda>n. node_name n = name) (node_children parent) of
        None \<Rightarrow> None
      | Some n \<Rightarrow> node_list_string (node_children n))"

definition get_node_by_name :: "xml_node \<Rightarrow> string \<Rightarrow> xml_node option" where
  "get_node_by_name parent name = find (\<lambda>n. node_name n = name) (node_children parent)"

text \<open>\<open>has_prop\<close> and \<open>get_prop\<close> stand for \<^verbatim>\<open>xmlHasProp\<close> and \<^verbatim>\<open>xmlGetProp\<close>.\<close>

definition get_attr_by_name ::
  "(xml_node \<Rightarrow> string \<Rightarrow> bool) \<Rightarrow> (xml_node \<Rightarrow> string \<Rightarrow> string option) \<Rightarrow> xml_node \<Rightarrow> string \<Rightarrow> string option" where
  "get_attr_by_name has_prop get_prop node name =
     (if \<not> has_prop node name then None
      else case find (\<lambda>a. fst a = name) (node_props node) of
        None \<Rightarrow> None
      | Some a \<Rightarrow> get_prop node name)"

text \<open>What \<^verbatim>\<open>xmlNodeListGetString\<close> returns for a list of text nodes, for the witnesses.\<close>

definition text_of :: "xml_node list \<Rightarrow> string option" where
  "text_of ns = (if ns = [] then None else Some (concat (map node_content ns)))"

section \<open>\<^verbatim>\<open>strtol\<close>\<close>

definition is_space :: "char \<Rightarrow> bool" where
  "is_space c \<longleftrightarrow> (of_char c :: nat) = 32 \<or> 9 \<le> (of_char c :: nat) \<and> (of_char c :: nat) \<le> 13"

definition is_digit :: "char \<Rightarrow> bool" where
  "is_digit c \<longleftrightarrow> 48 \<le> (of_char c :: nat) \<and> (of_char c :: nat) \<le> 57"

definition digits_val :: "string \<Rightarrow> int" where
  "digits_val ds = fold (\<lambda>c acc. acc * 10 + (of_char c - 48)) ds 0"

definition LONG_MAX :: int where "LONG_MAX = 2 ^ 63 - 1"
definition LONG_MIN :: int where "LONG_MIN = - (2 ^ 63)"

definition strtol :: "string \<Rightarrow> int" where
  "strtol str =
     (let t = dropWhile is_space str;
          neg = (t \<noteq> [] \<and> hd t = CHR ''-'');
          u = (if t \<noteq> [] \<and> (hd t = CHR ''-'' \<or> hd t = CHR ''+'') then tl t else t);
          v = digits_val (takeWhile is_digit u)
      in max LONG_MIN (min LONG_MAX (if neg then - v else v)))"

text \<open>\<^verbatim>\<open>strtol\<close> of a null pointer is undefined behaviour.\<close>

definition strtol_ptr :: "string option \<Rightarrow> int res" where
  "strtol_ptr p = (case p of None \<Rightarrow> Err NullDeref | Some str \<Rightarrow> Ok (strtol str))"

lemma of_char_dec_digit: "d < 10 \<Longrightarrow> (of_char (dec_digit d) :: nat) = 48 + d"
  by (simp add: dec_digit_def)

lemma of_char_dec_digit_int: "d < 10 \<Longrightarrow> (of_char (dec_digit d) :: int) = 48 + int d"
  using of_char_dec_digit [of d] of_nat_of_char [of "dec_digit d", where ?'a = int] by simp

lemma is_digit_dec_digit: "d < 10 \<Longrightarrow> is_digit (dec_digit d)"
  by (simp add: is_digit_def of_char_dec_digit)

lemma digits_val_snoc: "digits_val (ds @ [c]) = digits_val ds * 10 + (of_char c - 48)"
  by (simp add: digits_val_def)

lemma digits_val_dec_nat: "digits_val (dec_nat n) = int n \<and> (\<forall>c \<in> set (dec_nat n). is_digit c)"
proof (induction n rule: dec_nat.induct)
  case (1 n)
  show ?case
  proof (cases "n < 10")
    case True
    then have "dec_nat n = [dec_digit n]" by (simp add: dec_nat.simps)
    with True show ?thesis by (simp add: is_digit_dec_digit digits_val_def of_char_dec_digit_int)
  next
    case False
    then have "dec_nat n = dec_nat (n div 10) @ [dec_digit (n mod 10)]" by (subst dec_nat.simps) simp
    with 1 [OF False] show ?thesis
      by (simp add: digits_val_snoc is_digit_dec_digit of_char_dec_digit_int zdiv_int zmod_int)
  qed
qed

lemma dec_nat_not_Nil: "dec_nat n \<noteq> []"
  by (simp add: dec_nat.simps)

lemma is_digitD: "is_digit c \<Longrightarrow> \<not> is_space c \<and> c \<noteq> CHR ''-'' \<and> c \<noteq> CHR ''+''"
  by (auto simp: is_digit_def is_space_def)

text \<open>Reading back what \<^verbatim>\<open>printf("%d")\<close> wrote.\<close>

lemma strtol_dec_nat: "int n \<le> LONG_MAX \<Longrightarrow> strtol (dec_nat n) = int n"
proof -
  assume n: "int n \<le> LONG_MAX"
  have d: "\<forall>c \<in> set (dec_nat n). is_digit c" "digits_val (dec_nat n) = int n"
    using digits_val_dec_nat by blast+
  obtain c cs where c: "dec_nat n = c # cs" using dec_nat_not_Nil by (cases "dec_nat n") auto
  then have hd: "\<not> is_space c" "c \<noteq> CHR ''-''" "c \<noteq> CHR ''+''" using d(1) is_digitD [of c] by auto
  have "takeWhile is_digit (dec_nat n) = dec_nat n" using d(1) by (simp add: takeWhile_eq_all_conv)
  with n d(2) hd c show ?thesis by (simp add: strtol_def Let_def LONG_MIN_def)
qed

end
