(* ===== verification/Policy_Table.thy ===== *)
theory Policy_Table
  imports Xml
begin

text \<open>
  The policy table of \<^verbatim>\<open>policy/policy_table.c\<close> and the reader of policy documents of
  \<^verbatim>\<open>policy/policy_parse.c\<close>.  A policy maps a range of network damage (in percent) to the hello and
  dead intervals of the routing protocol; the table keeps at most 20 of them, in the order they
  were added, and a lookup takes the first range that holds the key.
\<close>

section \<open>State\<close>

record policy_element =
  version :: int
  operation :: int
  up_limit :: u32
  lower_limit :: u32
  value0 :: u64
  value1 :: u64

record policy_table =
  policy_table_flag :: u32
  policy_table_len :: nat
  used_len :: nat
  current_used_policy :: int
  p_element :: "policy_element list"

definition POLICY_TABLE_LEN :: nat where "POLICY_TABLE_LEN = 20"
definition POLICY_TABLE_USED :: u32 where "POLICY_TABLE_USED = 0"

definition FRR :: int where "FRR = 1"
definition TIMER_ADJUST :: int where "TIMER_ADJUST = 2"
definition COMPLEX_DDC_FLAG :: int where "COMPLEX_DDC_FLAG = 3"

definition zero_element :: policy_element where
  "zero_element = \<lparr>version = 0, operation = 0, up_limit = 0, lower_limit = 0, value0 = 0, value1 = 0\<rparr>"

section \<open>The table\<close>

definition init_policy_table :: "policy_table option \<Rightarrow> int \<times> policy_table option" where
  "init_policy_table p =
     (case p of None \<Rightarrow> (-1, None)
      | Some t \<Rightarrow> (0, Some (t\<lparr>policy_table_flag := POLICY_TABLE_USED, policy_table_len := POLICY_TABLE_LEN,
                              used_len := 0, current_used_policy := 0\<rparr>)))"

text \<open>\<^verbatim>\<open>policy_init\<close> allocates the table once (the allocation is not checked) and zeroes it.\<close>

definition policy_init :: "policy_table option \<Rightarrow> policy_table option" where
  "policy_init g_pt =
     snd (init_policy_table (Some \<lparr>policy_table_flag = 0, policy_table_len = 0, used_len = 0,
            current_used_policy = 0, p_element = replicate POLICY_TABLE_LEN zero_element\<rparr>))"

definition is_policy_init :: "policy_table option \<Rightarrow> int" where
  "is_policy_init p =
     (case p of None \<Rightarrow> -1
      | Some t \<Rightarrow> if and (policy_table_flag t) POLICY_TABLE_USED = POLICY_TABLE_USED then 0 else -1)"

definition insert_policy_table :: "policy_table option \<Rightarrow> policy_element \<Rightarrow> int \<times> policy_table option" where
  "insert_policy_table p el =
     (case p of None \<Rightarrow> (-1, p)
      | Some t \<Rightarrow>
          if is_policy_init p \<noteq> 0 then (-1, p)
          else if used_len t \<ge> policy_table_len t then (-1, p)
          else
            (let old = p_element t ! used_len t;
                 new = old\<lparr>operation := operation el, up_limit := up_limit el,
                           lower_limit := lower_limit el, value0 := value0 el, value1 := value1 el\<rparr>
             in (0, Some (t\<lparr>p_element := (p_element t)[used_len t := new], used_len := Suc (used_len t)\<rparr>))))"

text \<open>\<^verbatim>\<open>add_policy\<close> drops the result of the insertion: it returns 0 for a full table too.\<close>

definition add_policy :: "policy_table option \<Rightarrow> policy_element option \<Rightarrow> int \<times> policy_table option" where
  "add_policy p el =
     (case el of None \<Rightarrow> (-1, p)
      | Some e \<Rightarrow> if p = None then (-1, p) else (0, snd (insert_policy_table p e)))"

text \<open>The comparison converts the \<^verbatim>\<open>int\<close> key to unsigned.\<close>

definition policy_matches :: "u32 \<Rightarrow> policy_element \<Rightarrow> bool" where
  "policy_matches key e \<longleftrightarrow> lower_limit e \<le> key \<and> key < up_limit e"

definition find_policy_table :: "policy_table option \<Rightarrow> int \<Rightarrow> int" where
  "find_policy_table p key =
     (case p of None \<Rightarrow> -1
      | Some t \<Rightarrow>
          if is_policy_init p \<noteq> 0 then -1
          else (case find_index (policy_matches (u32_of_int key)) (take (used_len t) (p_element t)) of
                  Some i \<Rightarrow> int i
                | None \<Rightarrow> 0))"

section \<open>Reading a policy document\<close>

text \<open>
  One \<^verbatim>\<open>Policy\<close> element: five numbers, each read by name.  The numbers are \<^verbatim>\<open>long\<close> values stored
  in an \<^verbatim>\<open>int\<close> (operation and limits) or an \<^verbatim>\<open>unsigned long long\<close> (values).
\<close>

definition parse_policy_node ::
  "(xml_node list \<Rightarrow> string option) \<Rightarrow> policy_table option \<Rightarrow> xml_node \<Rightarrow> policy_table option res" where
  "parse_policy_node gs g_pt n =
     res_bind (strtol_ptr (get_value_by_name gs n ''operation'')) (\<lambda>op.
     res_bind (strtol_ptr (get_value_by_name gs n ''up_limit'')) (\<lambda>up.
     res_bind (strtol_ptr (get_value_by_name gs n ''lower_limit'')) (\<lambda>lo.
     res_bind (strtol_ptr (get_value_by_name gs n ''value1'')) (\<lambda>v1.
     res_bind (strtol_ptr (get_value_by_name gs n ''value2'')) (\<lambda>v2.
       let opn = sint (u32_of_int op)
       in if opn = FRR then Ok g_pt
          else if opn = TIMER_ADJUST
          then Ok (snd (add_policy g_pt (Some \<lparr>version = 0, operation = opn, up_limit = u32_of_int up,
                      lower_limit = u32_of_int lo, value0 = word_of_int v1, value1 = word_of_int v2\<rparr>)))
          else if opn = COMPLEX_DDC_FLAG then Ok g_pt
          else Ok g_pt)))))"

fun parse_policy_nodes ::
  "(xml_node list \<Rightarrow> string option) \<Rightarrow> policy_table option \<Rightarrow> xml_node list \<Rightarrow> policy_table option res" where
  "parse_policy_nodes gs g_pt [] = Ok g_pt"
| "parse_policy_nodes gs g_pt (n # ns) =
     (if node_name n = ''Version'' then parse_policy_nodes gs g_pt ns
      else res_bind (parse_policy_node gs g_pt n) (\<lambda>g'. parse_policy_nodes gs g' ns))"

definition parse_policy ::
  "(xml_node list \<Rightarrow> string option) \<Rightarrow> policy_table option \<Rightarrow> xml_node \<Rightarrow> (int \<times> policy_table option) res" where
  "parse_policy gs g_pt node =
     (case get_value_by_name gs node ''Version'' of
        None \<Rightarrow> Ok (-1, g_pt)
      | Some _ \<Rightarrow> res_map (\<lambda>g'. (0, g')) (parse_policy_nodes gs g_pt (node_children node)))"

text \<open>
  \<open>parse_doc\<close> stands for \<^verbatim>\<open>xmlParseDoc\<close>: \<open>None\<close> when the text is not a document, else its root
  element, if it has one.
\<close>

definition process_policy ::
  "(string \<Rightarrow> xml_node option option) \<Rightarrow> (xml_node list \<Rightarrow> string option) \<Rightarrow> policy_table option \<Rightarrow> string
    \<Rightarrow> (int \<times> policy_table option) res" where
  "process_policy parse_doc gs g_pt xml =
     (case parse_doc xml of
        None \<Rightarrow> Ok (-1, g_pt)
      | Some None \<Rightarrow> Ok (-1, g_pt)
      | Some (Some root) \<Rightarrow>
          res_map (\<lambda>(r, g'). if r \<noteq> 0 then (-1, g') else (0, g'))
            (parse_policy gs (snd (init_policy_table g_pt)) root))"

section \<open>Invariant\<close>

definition wf_policy_table :: "policy_table \<Rightarrow> bool" where
  "wf_policy_table t \<longleftrightarrow> policy_table_len t = POLICY_TABLE_LEN \<and> length (p_element t) = POLICY_TABLE_LEN \<and>
     used_len t \<le> policy_table_len t"

definition policies :: "policy_table \<Rightarrow> policy_element list" where
  "policies t = take (used_len t) (p_element t)"

lemma policy_init_wf: "\<exists>t. policy_init g = Some t \<and> wf_policy_table t \<and> policies t = []"
  by (simp add: policy_init_def init_policy_table_def wf_policy_table_def policies_def)

lemma is_policy_init_Some [simp]: "is_policy_init (Some t) = 0"
  by (simp add: is_policy_init_def POLICY_TABLE_USED_def)

lemma add_policy_wf:
  assumes "wf_policy_table t"
  shows "\<exists>t'. add_policy (Some t) (Some e) = (0, Some t') \<and> wf_policy_table t' \<and>
    (if used_len t = POLICY_TABLE_LEN then t' = t
     else \<exists>e'. policies t' = policies t @ [e'] \<and> e' \<lparr>version := 0\<rparr> = e \<lparr>version := 0\<rparr>)"
proof (cases "used_len t < policy_table_len t")
  case False
  then show ?thesis
    using assms by (auto simp: add_policy_def insert_policy_table_def wf_policy_table_def)
next
  case True
  let ?old = "p_element t ! used_len t"
  let ?e = "?old\<lparr>operation := operation e, up_limit := up_limit e,
                           lower_limit := lower_limit e, value0 := value0 e, value1 := value1 e\<rparr>"
  let ?t = "t\<lparr>p_element := (p_element t)[used_len t := ?e], used_len := Suc (used_len t)\<rparr>"
  have "add_policy (Some t) (Some e) = (0, Some ?t)"
    using True by (simp add: add_policy_def insert_policy_table_def Let_def)
  moreover have "wf_policy_table ?t" using assms True by (simp add: wf_policy_table_def)
  moreover have "policies ?t = policies t @ [?e]"
    using assms True by (simp add: policies_def wf_policy_table_def take_Suc_conv_app_nth)
  moreover have "?e\<lparr>version := 0\<rparr> = e\<lparr>version := 0\<rparr>" by simp
  ultimately show ?thesis using True assms by (auto simp: wf_policy_table_def)
qed

text \<open>What a \<^verbatim>\<open>Policy\<close> element of a document denotes.\<close>

definition num_of :: "(xml_node list \<Rightarrow> string option) \<Rightarrow> xml_node \<Rightarrow> string \<Rightarrow> int" where
  "num_of gs n name = strtol (the (get_value_by_name gs n name))"

definition policy_of :: "(xml_node list \<Rightarrow> string option) \<Rightarrow> xml_node \<Rightarrow> policy_element" where
  "policy_of gs n = \<lparr>version = 0, operation = sint (u32_of_int (num_of gs n ''operation'')),
     up_limit = u32_of_int (num_of gs n ''up_limit''), lower_limit = u32_of_int (num_of gs n ''lower_limit''),
     value0 = word_of_int (num_of gs n ''value1''), value1 = word_of_int (num_of gs n ''value2'')\<rparr>"

definition readable :: "(xml_node list \<Rightarrow> string option) \<Rightarrow> xml_node \<Rightarrow> bool" where
  "readable gs n \<longleftrightarrow> list_all (\<lambda>name. get_value_by_name gs n name \<noteq> None)
     [''operation'', ''up_limit'', ''lower_limit'', ''value1'', ''value2'']"

lemma parse_policy_node_readable:
  assumes "readable gs n"
  shows "parse_policy_node gs g n =
    Ok (if operation (policy_of gs n) = TIMER_ADJUST then snd (add_policy g (Some (policy_of gs n))) else g)"
proof -
  have "strtol_ptr (get_value_by_name gs n name) = Ok (num_of gs n name)"
    if "name \<in> set [''operation'', ''up_limit'', ''lower_limit'', ''value1'', ''value2'']" for name
    using assms that by (auto simp: readable_def strtol_ptr_def num_of_def)
  then show ?thesis
    by (simp add: parse_policy_node_def Let_def policy_of_def FRR_def TIMER_ADJUST_def)
qed

lemma parse_policy_nodes_readable:
  assumes "wf_policy_table t" "\<forall>n \<in> set ns. node_name n \<noteq> ''Version'' \<longrightarrow> readable gs n"
  shows "\<exists>t'. parse_policy_nodes gs (Some t) ns = Ok (Some t') \<and> wf_policy_table t' \<and>
    map (version_update (\<lambda>_. 0)) (policies t') =
      take POLICY_TABLE_LEN (map (version_update (\<lambda>_. 0)) (policies t) @
        filter (\<lambda>e. operation e = TIMER_ADJUST) (map (policy_of gs) (filter (\<lambda>n. node_name n \<noteq> ''Version'') ns)))"
  using assms
proof (induction ns arbitrary: t)
  case Nil
  then show ?case by (auto simp: policies_def wf_policy_table_def)
next
  case (Cons n ns)
  let ?z = "map (version_update (\<lambda>_. 0))"
  let ?fs = "\<lambda>ns. filter (\<lambda>e. operation e = TIMER_ADJUST) (map (policy_of gs) (filter (\<lambda>n. node_name n \<noteq> ''Version'') ns))"
  show ?case
  proof (cases "node_name n = ''Version'' \<or> operation (policy_of gs n) \<noteq> TIMER_ADJUST")
    case True
    with Cons show ?thesis by (auto simp: parse_policy_node_readable)
  next
    case False
    let ?p = "policy_of gs n"
    obtain t1 where t1: "add_policy (Some t) (Some ?p) = (0, Some t1)" "wf_policy_table t1"
      "if used_len t = POLICY_TABLE_LEN then t1 = t
       else \<exists>e'. policies t1 = policies t @ [e'] \<and> e'\<lparr>version := 0\<rparr> = ?p\<lparr>version := 0\<rparr>"
      using add_policy_wf [OF Cons.prems(1), of ?p] by blast
    have z: "?p\<lparr>version := 0\<rparr> = ?p" by (simp add: policy_of_def)
    have "take POLICY_TABLE_LEN (?z (policies t1) @ ?fs ns) = take POLICY_TABLE_LEN (?z (policies t) @ ?p # ?fs ns)"
    proof (cases "used_len t = POLICY_TABLE_LEN")
      case True
      then have "length (policies t) = POLICY_TABLE_LEN" "t1 = t"
        using Cons.prems(1) t1(3) by (simp_all add: policies_def wf_policy_table_def)
      then show ?thesis by simp
    next
      case False
      with t1(3) z have "?z (policies t1) = ?z (policies t) @ [?p]" by auto
      then show ?thesis by simp
    qed
    with False t1(1) Cons.IH [OF t1(2)] Cons.prems(2) show ?thesis
      by (auto simp: parse_policy_node_readable)
  qed
qed

section \<open>Properties\<close>

text \<open>
  Loading a policy document replaces the table: when every child of the root other than
  \<^verbatim>\<open>Version\<close> carries its five numbers, the table afterwards holds exactly the timer policies of the
  document, in document order, cut off after the twentieth; the surplus is dropped silently (the
  call still returns 0).
\<close>

theorem process_policy_loads:
  assumes "wf_policy_table t" "parse_doc xml = Some (Some root)"
    "get_value_by_name gs root ''Version'' \<noteq> None"
    "\<forall>n \<in> set (node_children root). node_name n \<noteq> ''Version'' \<longrightarrow> readable gs n"
  shows "\<exists>t'. process_policy parse_doc gs (Some t) xml = Ok (0, Some t') \<and> wf_policy_table t' \<and>
    map (version_update (\<lambda>_. 0)) (policies t') =
      take POLICY_TABLE_LEN (filter (\<lambda>e. operation e = TIMER_ADJUST)
        (map (policy_of gs) (filter (\<lambda>n. node_name n \<noteq> ''Version'') (node_children root))))"
proof -
  let ?t = "t\<lparr>policy_table_flag := POLICY_TABLE_USED, policy_table_len := POLICY_TABLE_LEN,
                              used_len := 0, current_used_policy := 0\<rparr>"
  have i: "snd (init_policy_table (Some t)) = Some ?t" by (simp add: init_policy_table_def)
  have w: "wf_policy_table ?t" and e: "policies ?t = []"
    using assms(1) by (simp_all add: wf_policy_table_def policies_def)
  from parse_policy_nodes_readable [OF w assms(4)] obtain t' where
    "parse_policy_nodes gs (Some ?t) (node_children root) = Ok (Some t')" "wf_policy_table t'"
    "map (version_update (\<lambda>_. 0)) (policies t') =
      take POLICY_TABLE_LEN (filter (\<lambda>e. operation e = TIMER_ADJUST)
        (map (policy_of gs) (filter (\<lambda>n. node_name n \<noteq> ''Version'') (node_children root))))"
    by (auto simp: e)
  then show ?thesis using assms(2,3) i by (auto simp: process_policy_def parse_policy_def)
qed

text \<open>A document with one timer policy: between 10 and 50 percent, hello 1000 and dead 4000.\<close>

definition leaf :: "string \<Rightarrow> string \<Rightarrow> xml_node" where
  "leaf n v = elem n [text_node v]"

definition sample_policy :: xml_node where
  "sample_policy = elem ''Policy'' [leaf ''operation'' ''2'', leaf ''up_limit'' ''50'', leaf ''lower_limit'' ''10'',
     leaf ''value1'' ''1000'', leaf ''value2'' ''4000'']"

definition sample_doc :: xml_node where
  "sample_doc = elem ''Policies'' [leaf ''Version'' ''1'', sample_policy]"

definition empty_table :: policy_table where
  "empty_table = the (policy_init None)"

lemma empty_table_wf: "wf_policy_table empty_table"
  using policy_init_wf [of None] by (auto simp: empty_table_def)

theorem process_policy_loads_witness:
  "\<exists>t'. process_policy (\<lambda>_. Some (Some sample_doc)) text_of (Some empty_table) ''x'' = Ok (0, Some t') \<and>
     map (version_update (\<lambda>_. 0)) (policies t') =
       [\<lparr>version = 0, operation = 2, up_limit = 50, lower_limit = 10, value0 = 1000, value1 = 4000\<rparr>]"
proof -
  have r: "readable text_of sample_policy" by code_simp
  have v: "get_value_by_name text_of sample_doc ''Version'' \<noteq> None" by code_simp
  have p: "policy_of text_of sample_policy =
      \<lparr>version = 0, operation = 2, up_limit = 50, lower_limit = 10, value0 = 1000, value1 = 4000\<rparr>" by code_simp
  have c: "node_children sample_doc = [leaf ''Version'' ''1'', sample_policy]"
    "node_name (leaf ''Version'' ''1'') = ''Version''" "node_name sample_policy = ''Policy''"
    by (simp_all add: sample_doc_def leaf_def sample_policy_def)
  show ?thesis
    using process_policy_loads [OF empty_table_wf, of "\<lambda>_. Some (Some sample_doc)" "''x''" sample_doc text_of] r v
    by (auto simp: c p TIMER_ADJUST_def POLICY_TABLE_LEN_def)
qed

text \<open>
  A lookup returns the position of the first policy whose half-open range holds the key
  (compared as an unsigned number), and 0 when no range does; so the answer 0 does not tell the
  first policy from a miss.
\<close>

theorem find_policy_first_match:
  shows "find_policy_table (Some t) key =
    (if \<exists>e \<in> set (policies t). policy_matches (u32_of_int key) e
     then int (LEAST i. i < length (policies t) \<and> policy_matches (u32_of_int key) (policies t ! i)) else 0)"
proof (cases "find_index (policy_matches (u32_of_int key)) (policies t)")
  case None
  then have "\<not> (\<exists>e \<in> set (policies t). policy_matches (u32_of_int key) e)" by (simp add: find_index_None)
  with None show ?thesis by (simp add: find_policy_table_def policies_def)
next
  case (Some i)
  then have i: "i < length (policies t)" "policy_matches (u32_of_int key) (policies t ! i)"
    "\<forall>j < i. \<not> policy_matches (u32_of_int key) (policies t ! j)" by (simp_all add: find_index_Some)
  then have "(LEAST i. i < length (policies t) \<and> policy_matches (u32_of_int key) (policies t ! i)) = i"
    by (intro Least_equality) (auto simp: not_less [symmetric])
  moreover have "\<exists>e \<in> set (policies t). policy_matches (u32_of_int key) e" using i(1,2) nth_mem by blast
  ultimately show ?thesis using Some by (simp add: find_policy_table_def policies_def)
qed

text \<open>
  A text node among the policies, such as the line break of an indented document, makes the
  reader pass a null pointer to \<^verbatim>\<open>strtol\<close>: it has no child named \<^verbatim>\<open>operation\<close>, so
  \<^verbatim>\<open>get_value_by_name\<close> returns \<^verbatim>\<open>NULL\<close>.
\<close>

theorem process_policy_whitespace_crash:
  assumes "parse_doc xml = Some (Some root)" "get_value_by_name gs root ''Version'' \<noteq> None"
    "node_children root = pre @ text_node str # post" "\<forall>n \<in> set pre. node_name n = ''Version''"
  shows "process_policy parse_doc gs (Some t) xml = Err NullDeref"
proof -
  have crash: "parse_policy_nodes gs g (pre @ text_node str # post) = Err NullDeref" for g
    using assms(4) by (induction pre) (auto simp: parse_policy_node_def strtol_ptr_def get_value_by_name_def)
  with assms(1-3) show ?thesis
    by (auto simp: process_policy_def parse_policy_def crash)
qed

theorem process_policy_whitespace_crash_witness:
  "process_policy (\<lambda>_. Some (Some (elem ''Policies'' [leaf ''Version'' ''1'', text_node [CHR 0x0A], sample_policy])))
     text_of (Some empty_table) ''x'' = Err NullDeref"
  by (rule process_policy_whitespace_crash [where pre = "[leaf ''Version'' ''1'']" and str = "[CHR 0x0A]" and post = "[sample_policy]"
        and root = "elem ''Policies'' [leaf ''Version'' ''1'', text_node [CHR 0x0A], sample_policy]"])
     (simp_all add: get_value_by_name_def text_of_def leaf_def)

end
