(* ===== verification/Fah.thy ===== *)
theory Fah
  imports Ddc Policy_Table
begin

text \<open>
  The fast handling of link failures of \<^verbatim>\<open>ddc/fah.c\<close>: a failed link marks its paths, the damage of
  the network chooses a policy, and the policy's hello and dead intervals are sent for the
  interfaces to protect, the dead interval shortened by the time already passed.  Policies sent to
  the module that applies them (\<^verbatim>\<open>send_policy\<close> of \<^verbatim>\<open>server/dbm.c\<close>) are collected in a list; the clock
  (\<^verbatim>\<open>gettimeofday\<close>) is an argument.
\<close>

section \<open>The damage as a percentage\<close>

text \<open>
  \<^verbatim>\<open>(float)a / (float)b\<close> with 24 bits of precision, rounded to nearest, ties to even, and then
  \<^verbatim>\<open>(int)(x * 100.0)\<close>; the product is exact in double precision.  A division by zero gives an
  infinity or no number at all, whose conversion to \<^verbatim>\<open>int\<close> is undefined.
\<close>

fun nbits :: "nat \<Rightarrow> nat" where
  "nbits n = (if n = 0 then 0 else Suc (nbits (n div 2)))"

declare nbits.simps [simp del]

definition round_div :: "nat \<Rightarrow> nat \<Rightarrow> nat" where
  "round_div a b =
     (let q = a div b; r = a mod b
      in if 2 * r < b then q else if 2 * r > b then Suc q else if even q then q else Suc q)"

definition float_of_nat :: "nat \<Rightarrow> nat" where
  "float_of_nat a = (let k = nbits a - 24 in round_div a (2 ^ k) * 2 ^ k)"

definition percent_nat :: "nat \<Rightarrow> nat \<Rightarrow> nat" where
  "percent_nat a b =
     (let fa = float_of_nat a; fb = float_of_nat b;
          s = int (24 + nbits fb) - int (nbits fa);
          num = (\<lambda>s. fa * 2 ^ nat s); den = (\<lambda>s. fb * 2 ^ nat (- s));
          s1 = (if num s \<ge> den s * 2 ^ 24 then s - 1 else s);
          q = round_div (num s1) (den s1)
      in if fa = 0 then 0 else (q * 100 * 2 ^ nat (- s1)) div 2 ^ nat s1)"

definition destory_percent :: "int \<Rightarrow> int \<Rightarrow> int res" where
  "destory_percent broken net =
     (if net = 0 then Err BadConversion
      else Ok (sgn broken * sgn net * int (percent_nat (nat \<bar>broken\<bar>) (nat \<bar>net\<bar>))))"

definition get_net_destory_degree :: "area_info \<Rightarrow> (int \<times> int) res" where
  "get_net_destory_degree az = res_map (\<lambda>(b, n). (int_of_u32 b, int_of_u32 n)) (net_values az)"

section \<open>State\<close>

definition DEFAULT_HELLO :: u32 where "DEFAULT_HELLO = 10000000"
definition DEFAULT_DEAD :: u32 where "DEFAULT_DEAD = 40000000"
definition MAX_INTERFACE_NUM :: int where "MAX_INTERFACE_NUM = 100"

record fah_state =
  ddc :: ddc_state
  dead_timer :: "(int \<times> int) list"       \<comment> \<open>\<^verbatim>\<open>tv_sec\<close>, \<^verbatim>\<open>tv_usec\<close>; \<^verbatim>\<open>MAX_INTERFACE_NUM\<close> entries\<close>
  is_router_need_protect :: bool
  g_pt :: "policy_table option"
  policies_sent :: "(int \<times> u32 \<times> u32) list"

definition send_policy :: "int \<Rightarrow> u32 \<Rightarrow> u32 \<Rightarrow> fah_state \<Rightarrow> fah_state" where
  "send_policy i hello dead st = st\<lparr>policies_sent := policies_sent st @ [(i, hello, dead)]\<rparr>"

section \<open>Operations\<close>

definition fah_set_default_timer :: "u32 \<Rightarrow> link_info \<Rightarrow> fah_state \<Rightarrow> (int \<times> fah_state) res" where
  "fah_set_default_timer routerid lk st =
     (if \<not> already_computed (ddc st) then Ok (-1, st)
      else case get_area_by_areaid (areaid lk) (ddc st) of
        None \<Rightarrow> Ok (-1, st)
      | Some _ \<Rightarrow>
          (let i = int_of_u32 (ifid lk)
           in if i < 0 \<or> i \<ge> int (length (dead_timer st)) then Err OutOfBounds
              else Ok (0, send_policy i DEFAULT_HELLO DEFAULT_DEAD
                            (st\<lparr>dead_timer := (dead_timer st)[nat i := (0, 0)]\<rparr>))))"

text \<open>
  The guard lets the interface number 100 through, one past the array.  All arithmetic on the
  dead value is unsigned: a difference below zero wraps around.
\<close>

definition usec_since :: "int \<times> int \<Rightarrow> int \<times> int \<Rightarrow> u32" where
  "usec_since t0 t = u32_of_int (1000000 * (fst t - fst t0) + snd t - snd t0)"

definition recompute_dead_timer ::
  "(int \<times> int) option \<Rightarrow> int \<Rightarrow> u32 \<Rightarrow> fah_state \<Rightarrow> (u32 \<times> fah_state) res" where
  "recompute_dead_timer now i dead_value st =
     (if i > MAX_INTERFACE_NUM then Ok (dead_value, st)
      else if i < 0 \<or> i \<ge> int (length (dead_timer st)) then Err OutOfBounds
      else
        (let last = dead_timer st ! nat i
         in if fst last = 0 \<and> snd last = 0
            then (case now of
                    None \<Rightarrow> Ok (dead_value, st)
                  | Some t \<Rightarrow> Ok (dead_value, st\<lparr>dead_timer := (dead_timer st)[nat i := t]\<rparr>))
            else (case now of
                    None \<Rightarrow> Ok (dead_value, st)
                  | Some t \<Rightarrow>
                      (let usec_passed = usec_since last t;
                           diff_time = dead_value - usec_passed
                       in Ok (if diff_time > 0 then diff_time else 0, st)))))"

definition protect_local_link ::
  "(int \<times> int) option \<Rightarrow> link_info \<Rightarrow> int \<times> int \<Rightarrow> fah_state \<Rightarrow> fah_state res" where
  "protect_local_link now lk degree st =
     res_bind (destory_percent (fst degree) (snd degree)) (\<lambda>key.
       let ret = find_policy_table (g_pt st) key
       in if ret = -1 then Ok st
          else
            (let i = int_of_u32 (ifid lk);
                 (hello, dead) =
                   (if ret = 0 then (DEFAULT_HELLO, DEFAULT_DEAD)
                    else (let e = p_element (the (g_pt st)) ! nat ret in (ucast (value0 e), ucast (value1 e))))
             in res_map (\<lambda>(dead', st'). send_policy i hello dead' st') (recompute_dead_timer now i dead st)))"

definition needs_reprotect :: "int \<Rightarrow> link_info \<Rightarrow> bool" where
  "needs_reprotect routerid info \<longleftrightarrow>
     status info \<noteq> 3 \<and> rid info = u32_of_int routerid \<and> nrid info \<noteq> 0 \<and> nifid info \<noteq> 0"

definition reprotect_local_link ::
  "(int \<times> int) option \<Rightarrow> int \<Rightarrow> int \<Rightarrow> int \<times> int \<Rightarrow> fah_state \<Rightarrow> fah_state res" where
  "reprotect_local_link now area routerid degree st =
     (case get_area_by_areaid (u32_of_int area) (ddc st) of
        None \<Rightarrow> Ok st
      | Some k \<Rightarrow>
          (let az = azinfo (ddc st) ! k
           in res_for (\<lambda>info s. if needs_reprotect routerid info then protect_local_link now info degree s else Ok s)
                (take (ls_count az) (lslist az)) st))"

definition fah_protect_link ::
  "(int \<times> int) option \<Rightarrow> u32 \<Rightarrow> link_info \<Rightarrow> fah_state \<Rightarrow> (int \<times> fah_state) res" where
  "fah_protect_link now routerid lk st =
     (if \<not> already_computed (ddc st) then Ok (-1, st)
      else case get_area_by_areaid (areaid lk) (ddc st) of
        None \<Rightarrow> Ok (-1, st)
      | Some k \<Rightarrow>
          (let st1 = st\<lparr>ddc := snd (record_broken_path_down lk (ddc st))\<rparr>
           in res_bind (get_net_destory_degree (azinfo (ddc st1) ! k)) (\<lambda>degree.
                if rid lk = routerid \<or> nrid lk = routerid
                then res_map (\<lambda>s. (0, s)) (protect_local_link now lk degree (st1\<lparr>is_router_need_protect := True\<rparr>))
                else if is_router_need_protect st1
                then res_map (\<lambda>s. (0, s)) (reprotect_local_link now (sint (areaid lk)) (sint routerid) degree st1)
                else Ok (0, st1))))"

section \<open>Properties\<close>

text \<open>
  What the values sent have to be, stated on the list of policies without the lookup.  The first
  policy whose limits hold the percentage gives the low 32 bits of its two values, unless it is the
  first of the table; then, and when no policy applies, the default intervals are taken.
\<close>

definition policy_values :: "policy_table \<Rightarrow> int \<Rightarrow> u32 \<Rightarrow> u32 \<Rightarrow> bool" where
  "policy_values tab key h d \<longleftrightarrow>
     ((\<forall>e \<in> set (policies tab). \<not> policy_matches (u32_of_int key) e) \<longrightarrow> h = DEFAULT_HELLO \<and> d = DEFAULT_DEAD) \<and>
     (\<forall>j < length (policies tab).
        policy_matches (u32_of_int key) (policies tab ! j) \<and>
        (\<forall>l < j. \<not> policy_matches (u32_of_int key) (policies tab ! l)) \<longrightarrow>
        (if j = 0 then h = DEFAULT_HELLO \<and> d = DEFAULT_DEAD
         else uint h = uint (value0 (policies tab ! j)) mod 2 ^ 32 \<and> uint d = uint (value1 (policies tab ! j)) mod 2 ^ 32))"

text \<open>
  The dead value sent is the full one at the first adjustment of an interface (no time is recorded);
  later it is the full one minus the microseconds since then, modulo \<open>2\<^sup>3\<^sup>2\<close>.
\<close>

definition dead_sent :: "int \<times> int \<Rightarrow> int \<times> int \<Rightarrow> u32 \<Rightarrow> u32 \<Rightarrow> bool" where
  "dead_sent t0 t d d' \<longleftrightarrow>
     (if t0 = (0, 0) then d' = d
      else uint d' = (uint d - (1000000 * (fst t - fst t0) + (snd t - snd t0))) mod 2 ^ 32)"

definition ifs_ok :: "fah_state \<Rightarrow> link_info \<Rightarrow> bool" where
  "ifs_ok st lk \<longleftrightarrow> int (length (dead_timer st)) = MAX_INTERFACE_NUM \<and> 0 \<le> int_of_u32 (ifid lk) \<and>
     int_of_u32 (ifid lk) < MAX_INTERFACE_NUM"

lemma find_policy_not_m1: "find_policy_table (Some t) key \<noteq> - 1"
  by (auto simp: find_policy_table_def split: option.splits)

lemma policy_values_lookup:
  fixes tab :: policy_table and key :: int
  defines "r \<equiv> find_policy_table (Some tab) key"
  shows "policy_values tab key (if r = 0 then DEFAULT_HELLO else ucast (value0 (p_element tab ! nat r)))
           (if r = 0 then DEFAULT_DEAD else ucast (value1 (p_element tab ! nat r)))"
proof (cases "find_index (policy_matches (u32_of_int key)) (policies tab)")
  case None
  then have "\<forall>e \<in> set (policies tab). \<not> policy_matches (u32_of_int key) e" by (simp add: find_index_None)
  moreover have "r = 0" using None by (simp add: r_def find_policy_table_def policies_def)
  ultimately show ?thesis by (auto simp: policy_values_def)
next
  case (Some i)
  then have i: "i < length (policies tab)" "policy_matches (u32_of_int key) (policies tab ! i)"
    "\<forall>j < i. \<not> policy_matches (u32_of_int key) (policies tab ! j)" by (simp_all add: find_index_Some)
  have r: "r = int i" using Some by (simp add: r_def find_policy_table_def policies_def)
  have n: "p_element tab ! i = policies tab ! i" using i(1) by (simp add: policies_def)
  have u: "uint (ucast w :: u32) = uint w mod 2 ^ 32" for w :: u64 by (simp add: unsigned_ucast_eq take_bit_eq_mod)
  have "j = i" if "policy_matches (u32_of_int key) (policies tab ! j)"
      "\<forall>l < j. \<not> policy_matches (u32_of_int key) (policies tab ! l)" for j
    using that i(2,3) by (meson linorder_neqE_nat)
  moreover have "\<exists>e \<in> set (policies tab). policy_matches (u32_of_int key) e" using i(1,2) nth_mem by blast
  ultimately show ?thesis by (auto simp: policy_values_def r n u)
qed

lemma recompute_dead_timer_ok:
  assumes "ifs_ok st lk"
  defines "i \<equiv> nat (int_of_u32 (ifid lk))"
  shows "\<exists>d' st'. recompute_dead_timer (Some t) (int_of_u32 (ifid lk)) d st = Ok (d', st') \<and>
    dead_sent (dead_timer st ! i) t d d' \<and>
    st' = st\<lparr>dead_timer := (dead_timer st)[i := if dead_timer st ! i = (0, 0) then t else dead_timer st ! i]\<rparr>"
proof (cases "dead_timer st ! i = (0, 0)")
  case True
  with assms show ?thesis by (simp add: recompute_dead_timer_def Let_def dead_sent_def ifs_ok_def)
next
  case False
  let ?t0 = "dead_timer st ! i"
  have n: "\<not> (fst ?t0 = 0 \<and> snd ?t0 = 0)" using False by (simp add: prod_eq_iff)
  have z: "(if w > 0 then w else 0) = w" for w :: u32 by (simp add: word_gt_0)
  have "recompute_dead_timer (Some t) (int_of_u32 (ifid lk)) d st = Ok (d - usec_since ?t0 t, st)"
    using n assms by (auto simp: recompute_dead_timer_def Let_def ifs_ok_def z)
  moreover have "uint (d - usec_since ?t0 t) = (uint d - (1000000 * (fst t - fst ?t0) + (snd t - snd ?t0))) mod 2 ^ 32"
    by (simp add: usec_since_def uint_word_ariths uint_word_of_int mod_simps add_diff_eq)
  ultimately show ?thesis using False by (auto simp: dead_sent_def)
qed

lemma protect_local_link_ok:
  assumes "ifs_ok st lk" "g_pt st = Some tab" "destory_percent b n = Ok key"
  defines "i \<equiv> nat (int_of_u32 (ifid lk))"
  shows "\<exists>st' h d d'. protect_local_link (Some t) lk (b, n) st = Ok st' \<and>
    policies_sent st' = policies_sent st @ [(int_of_u32 (ifid lk), h, d')] \<and>
    policy_values tab key h d \<and> dead_sent (dead_timer st ! i) t d d' \<and>
    dead_timer st' = (dead_timer st)[i := if dead_timer st ! i = (0, 0) then t else dead_timer st ! i] \<and>
    is_router_need_protect st' = is_router_need_protect st \<and> ddc st' = ddc st"
proof -
  let ?r = "find_policy_table (Some tab) key"
  let ?h = "if ?r = 0 then DEFAULT_HELLO else ucast (value0 (p_element tab ! nat ?r))"
  let ?d = "if ?r = 0 then DEFAULT_DEAD else ucast (value1 (p_element tab ! nat ?r))"
  let ?dt = "(dead_timer st)[i := if dead_timer st ! i = (0, 0) then t else dead_timer st ! i]"
  obtain d' where d': "recompute_dead_timer (Some t) (int_of_u32 (ifid lk)) ?d st = Ok (d', st\<lparr>dead_timer := ?dt\<rparr>)"
      "dead_sent (dead_timer st ! i) t ?d d'"
    using recompute_dead_timer_ok [OF assms(1), of t ?d] unfolding i_def by blast
  have "(if ?r = 0 then (DEFAULT_HELLO, DEFAULT_DEAD)
         else (let e = p_element (the (g_pt st)) ! nat ?r in (ucast (value0 e), ucast (value1 e)))) = (?h, ?d)"
    by (simp add: assms(2) Let_def)
  then have "protect_local_link (Some t) lk (b, n) st =
      Ok (send_policy (int_of_u32 (ifid lk)) ?h d' (st\<lparr>dead_timer := ?dt\<rparr>))"
    using assms(2,3) d'(1) find_policy_not_m1 [of tab key] by (simp add: protect_local_link_def Let_def del: Let_def)
  with d'(2) policy_values_lookup [of tab key] show ?thesis by (auto simp: send_policy_def)
qed

text \<open>
  C8. A link of the router itself fails, after the paths of its area have been computed, while the
  percentage of damage is defined, a policy table is present, the clock can be read and the
  interface number of the link is below 100.  Then exactly one policy is sent.  It is for that
  interface; its hello and dead values are those of the first policy of the table whose limits hold
  the percentage, or the defaults (10 and 40 seconds) when there is none and also when it is the
  table's first entry; at the first adjustment of the interface the dead value is sent in full and
  the time recorded, later the microseconds since that time are subtracted, modulo \<open>2\<^sup>3\<^sup>2\<close>.  The
  router counts as one to protect from then on.
\<close>

theorem fah_protect_direct_link:
  assumes "already_computed (ddc st)" "get_area_by_areaid (areaid lk) (ddc st) = Some k"
    "k < length (azinfo (ddc st))"
    "rid lk = routerid \<or> nrid lk = routerid" "ifs_ok st lk" "g_pt st = Some tab"
    "net_values (broken_path_down lk (azinfo (ddc st) ! k)) = Ok (b, n)"
    "destory_percent (int_of_u32 b) (int_of_u32 n) = Ok key" "i = nat (int_of_u32 (ifid lk))"
  shows "\<exists>st' h d d'. fah_protect_link (Some t) routerid lk st = Ok (0, st') \<and>
    policies_sent st' = policies_sent st @ [(int_of_u32 (ifid lk), h, d')] \<and>
    policy_values tab key h d \<and> dead_sent (dead_timer st ! i) t d d' \<and>
    dead_timer st' = (dead_timer st)[i := if dead_timer st ! i = (0, 0) then t else dead_timer st ! i] \<and>
    is_router_need_protect st'"
proof -
  let ?st1 = "st\<lparr>ddc := snd (record_broken_path_down lk (ddc st)), is_router_need_protect := True\<rparr>"
  have "azinfo (snd (record_broken_path_down lk (ddc st))) ! k = broken_path_down lk (azinfo (ddc st) ! k)"
    using assms(2,3) by (simp add: record_broken_path_down_def)
  then have "get_net_destory_degree (azinfo (snd (record_broken_path_down lk (ddc st))) ! k) = Ok (int_of_u32 b, int_of_u32 n)"
    using assms(7) by (simp add: get_net_destory_degree_def)
  then have f: "fah_protect_link (Some t) routerid lk st =
      res_map (\<lambda>s. (0, s)) (protect_local_link (Some t) lk (int_of_u32 b, int_of_u32 n) ?st1)"
    using assms(1,2,4) by (simp add: fah_protect_link_def Let_def)
  have "ifs_ok ?st1 lk" "g_pt ?st1 = Some tab" using assms(5,6) by (simp_all add: ifs_ok_def)
  from protect_local_link_ok [OF this assms(8), of t] show ?thesis
    unfolding f assms(9) by auto
qed

definition fah_sample :: fah_state where
  "fah_sample = \<lparr>ddc = \<lparr>already_computed = True, azinfo = [\<lparr>azid = 1, routerlist = [7, 8], router_count = 2,
       lslist = [\<lparr>areaid = 1, rid = 7, nrid = 8, ifid = 1, nifid = 2, metric = 10, status = 1, seq = 0\<rparr>],
       ls_count = 1, backbone_count = 1, access_count = 0, nodeinfo = [(0, 7), (1, 8)], matrix = [],
       paths = [\<lparr>p_rid = 7, p_nrid = 8, connection = CONNECTING, importance_value = 4, distance_metric = 10, nexthop_rid = 1\<rparr>,
                \<lparr>p_rid = 7, p_nrid = 7, connection = CONNECTING, importance_value = 4, distance_metric = 0, nexthop_rid = 0\<rparr>],
       shortpaths = Some [1, 0], linkshadows = [[0]]\<rparr>]\<rparr>,
     dead_timer = replicate 100 (0, 0), is_router_need_protect = False,
     g_pt = Some \<lparr>policy_table_flag = 0, policy_table_len = 20, used_len = 2, current_used_policy = 0,
       p_element = [\<lparr>version = 0, operation = 2, up_limit = 30, lower_limit = 0, value0 = 5, value1 = 20\<rparr>,
                    \<lparr>version = 0, operation = 2, up_limit = 101, lower_limit = 30, value0 = 1, value1 = 4\<rparr>] @
                   replicate 18 zero_element\<rparr>,
     policies_sent = []\<rparr>"

definition sample_link :: link_info where
  "sample_link = \<lparr>areaid = 1, rid = 7, nrid = 8, ifid = 1, nifid = 2, metric = 10, status = 1, seq = 0\<rparr>"

lemma percent_samples: "destory_percent 4 8 = Ok 50" "destory_percent 1 10 = Ok 10"
  by (simp_all add: destory_percent_def percent_nat_def float_of_nat_def round_div_def nbits.simps Let_def)

theorem fah_protect_direct_link_witness:
  "\<exists>st'. fah_protect_link (Some (103, 500000)) 7 sample_link
       (fah_sample\<lparr>dead_timer := (dead_timer fah_sample)[1 := (103, 499999)]\<rparr>) = Ok (0, st') \<and>
     policies_sent st' = [(1, 1, 3)]"
proof -
  let ?s = "fah_sample\<lparr>dead_timer := (dead_timer fah_sample)[1 := (103, 499999)]\<rparr>"
  have 1: "already_computed (ddc ?s)" and 2: "get_area_by_areaid (areaid sample_link) (ddc ?s) = Some 0"
    and 3: "0 < length (azinfo (ddc ?s))" and 4: "rid sample_link = 7 \<or> nrid sample_link = 7"
    and 5: "ifs_ok ?s sample_link" by code_simp+
  have 6: "g_pt ?s = Some (the (g_pt fah_sample))" by (simp add: fah_sample_def)
  have 7: "net_values (broken_path_down sample_link (azinfo (ddc ?s) ! 0)) = Ok (4, 8)" by code_simp
  have 8: "destory_percent (int_of_u32 4) (int_of_u32 8) = Ok 50" by (simp add: percent_samples)
  have v: "dead_timer ?s ! 1 = (103, 499999)"
    "int_of_u32 (ifid sample_link) = 1" "policies_sent ?s = []" by code_simp+
  have 9: "1 = nat (int_of_u32 (ifid sample_link))" by (simp add: v)
  have p: "length (policies (the (g_pt fah_sample))) = 2"
    "\<not> policy_matches (u32_of_int 50) (policies (the (g_pt fah_sample)) ! 0)"
    "policy_matches (u32_of_int 50) (policies (the (g_pt fah_sample)) ! 1)"
    "value0 (policies (the (g_pt fah_sample)) ! 1) = 1" "value1 (policies (the (g_pt fah_sample)) ! 1) = 4" by code_simp+
  have pv: "h = 1 \<and> d = 4" if "policy_values (the (g_pt fah_sample)) 50 h d" for h d
  proof -
    have "uint h = uint (value0 (policies (the (g_pt fah_sample)) ! 1)) mod 2 ^ 32 \<and>
        uint d = uint (value1 (policies (the (g_pt fah_sample)) ! 1)) mod 2 ^ 32"
      using that p(1-3) by (auto simp: policy_values_def dest!: spec [of _ 1])
    then show ?thesis unfolding p(4,5) by (simp add: word_uint_eq_iff)
  qed
  have ds: "d' = 3" if "dead_sent (103, 499999) (103, 500000) 4 d'" for d'
    using that by (simp add: dead_sent_def word_uint_eq_iff)
  from fah_protect_direct_link [OF 1 2 3 4 5 6 7 8 9, of "(103, 500000)"] show ?thesis
    unfolding v by (auto dest!: pv ds)
qed

text \<open>
  The first policy of the table is never applied: a lookup that finds it returns 0, which is taken
  for \<open>no policy\<close>, and the default intervals are sent instead of its values.
\<close>

theorem first_policy_ignored:
  assumes "ifs_ok st lk" "g_pt st = Some tab" "destory_percent b n = Ok key"
    "policies tab = e # es" "policy_matches (u32_of_int key) e" "dead_timer st ! nat (int_of_u32 (ifid lk)) = (0, 0)"
  shows "\<exists>st'. protect_local_link (Some t) lk (b, n) st = Ok st' \<and>
    policies_sent st' = policies_sent st @ [(int_of_u32 (ifid lk), DEFAULT_HELLO, DEFAULT_DEAD)]"
proof -
  have "find_policy_table (Some tab) key = 0"
    using assms(4,5) by (simp add: find_policy_table_def policies_def)
  moreover from assms(4,5) have "h = DEFAULT_HELLO \<and> d = DEFAULT_DEAD" if "policy_values tab key h d" for h d
    using that by (auto simp: policy_values_def dest!: spec [of _ 0])
  ultimately show ?thesis
    using protect_local_link_ok [OF assms(1-3), of t] assms(6) by (fastforce simp: dead_sent_def)
qed

theorem first_policy_ignored_witness:
  "\<exists>st'. protect_local_link (Some (100, 0)) sample_link (1, 10) fah_sample = Ok st' \<and>
     policies_sent st' = [(1, DEFAULT_HELLO, DEFAULT_DEAD)]"
proof -
  have 1: "ifs_ok fah_sample sample_link" by code_simp
  note 3 = percent_samples(2)
  have 2: "g_pt fah_sample = Some (the (g_pt fah_sample))" by (simp add: fah_sample_def)
  have 4: "policies (the (g_pt fah_sample)) = hd (policies (the (g_pt fah_sample))) # tl (policies (the (g_pt fah_sample)))"
    and 5: "policy_matches (u32_of_int 10) (hd (policies (the (g_pt fah_sample))))"
    and 6: "dead_timer fah_sample ! nat (int_of_u32 (ifid sample_link)) = (0, 0)"
    and v: "int_of_u32 (ifid sample_link) = 1" "policies_sent fah_sample = []" by code_simp+
  show ?thesis using first_policy_ignored [OF 1 2 3 4 5 6, of "(100, 0)"] v by auto
qed

text \<open>
  The dead value of a later adjustment is the policy's value minus the microseconds passed as
  long as not more time has passed; when more time has passed it is not cut off at 0, as the
  code's \<^verbatim>\<open>else\<close> branch intends, but wraps around to a value above the policy's.
\<close>

theorem dead_value_wraps:
  assumes "0 \<le> i" "i < MAX_INTERFACE_NUM" "int (length (dead_timer st)) = MAX_INTERFACE_NUM"
    "dead_timer st ! nat i = t0" "t0 \<noteq> (0, 0)" "el = 1000000 * (fst t - fst t0) + snd t - snd t0" "0 \<le> el" "el < 2 ^ 32"
  shows "\<exists>d. recompute_dead_timer (Some t) i dead st = Ok (d, st) \<and>
    (if el \<le> uint dead then uint d = uint dead - el else uint d = uint dead - el + 2 ^ 32 \<and> d > dead)"
proof -
  have z: "(if w > 0 then w else 0) = w" for w :: u32 by (simp add: word_gt_0)
  have n: "\<not> (fst t0 = 0 \<and> snd t0 = 0)" using assms(5) by (simp add: prod_eq_iff)
  have r: "recompute_dead_timer (Some t) i dead st = Ok (dead - usec_since t0 t, st)"
    using assms(1-4) n by (auto simp: recompute_dead_timer_def Let_def z)
  have us: "usec_since t0 t = u32_of_int el" by (simp only: usec_since_def assms(6))
  have e: "uint (usec_since t0 t) = el"
    unfolding us using assms(7,8) by (simp add: uint_word_of_int)
  have "uint (dead - usec_since t0 t) = (if el \<le> uint dead then uint dead - el else uint dead - el + 2 ^ 32)"
    by (subst uint_sub_if') (simp add: e)
  moreover have "dead < dead - usec_since t0 t" if "\<not> el \<le> uint dead"
    using calculation that assms(8) by (simp add: word_less_def)
  ultimately show ?thesis using r by auto
qed

theorem dead_value_wraps_witness:
  "\<exists>d. recompute_dead_timer (Some (150, 0)) 1 40000000 (fah_sample\<lparr>dead_timer := replicate 100 (100, 0)\<rparr>) =
      Ok (d, fah_sample\<lparr>dead_timer := replicate 100 (100, 0)\<rparr>) \<and> d > 40000000"
proof -
  let ?st = "fah_sample\<lparr>dead_timer := replicate 100 (100, 0)\<rparr>"
  have l: "int (length (dead_timer ?st)) = MAX_INTERFACE_NUM" "dead_timer ?st ! nat 1 = (100, 0)"
    by (simp_all add: MAX_INTERFACE_NUM_def)
  show ?thesis
    using dead_value_wraps [of 1 ?st "(100, 0)" 50000000 "(150, 0)" 40000000] l by (auto simp: MAX_INTERFACE_NUM_def)
qed

text \<open>
  A network whose recorded paths have no importance (no access networks) makes the damage 0/0:
  the conversion of the result to a table key is undefined.
\<close>

theorem no_importance_undefined:
  assumes "already_computed (ddc st)" "get_area_by_areaid (areaid lk) (ddc st) = Some k"
    "k < length (azinfo (ddc st))" "rid lk = routerid"
    "net_values (broken_path_down lk (azinfo (ddc st) ! k)) = Ok (0, 0)"
  shows "fah_protect_link t routerid lk st = Err BadConversion"
proof -
  have "azinfo (snd (record_broken_path_down lk (ddc st))) ! k = broken_path_down lk (azinfo (ddc st) ! k)"
    using assms(2,3) by (simp add: record_broken_path_down_def)
  with assms show ?thesis
    by (simp add: fah_protect_link_def Let_def get_net_destory_degree_def protect_local_link_def destory_percent_def)
qed

definition fah_poor :: fah_state where
  "fah_poor = fah_sample\<lparr>ddc := (ddc fah_sample)\<lparr>azinfo := [(azinfo (ddc fah_sample) ! 0)\<lparr>paths := [], shortpaths := Some []\<rparr>]\<rparr>\<rparr>"

theorem no_importance_undefined_witness: "fah_protect_link (Some (1, 0)) 7 sample_link fah_poor = Err BadConversion"
proof -
  have "already_computed (ddc fah_poor)" "get_area_by_areaid (areaid sample_link) (ddc fah_poor) = Some 0"
    "0 < length (azinfo (ddc fah_poor))" "rid sample_link = 7"
    "net_values (broken_path_down sample_link (azinfo (ddc fah_poor) ! 0)) = Ok (0, 0)" by code_simp+
  then show ?thesis by (rule no_importance_undefined)
qed

end
