(* ===== verification/Lsdb.thy ===== *)
theory Lsdb
  imports Prelude
begin

text \<open>
  The in-memory link-state database of \<^verbatim>\<open>lsdb/\<close>: routers and link states in two chains, every link
  state also in the chain of its router (\<^verbatim>\<open>lsdb_impl.c\<close>), the checked operations on it
  (\<^verbatim>\<open>lsdb_interface.c\<close>), the visitors (\<^verbatim>\<open>lsdb_traverse.c\<close>) and the messages every change sends to the
  base module (\<^verbatim>\<open>lsdb_sender.c\<close>).  Nodes are never freed, so a node is its index in the heap of its
  kind; a chain is the list of its nodes, first node first (\<^verbatim>\<open>cr_list_add\<close> inserts at the front; the
  pointer operations behind it are in \<open>Cr_List\<close>).  The fields \<^verbatim>\<open>shadow\<close> and \<^verbatim>\<open>next\<close> of a stored link
  state are copied along but never read, and are left out.  A handle of a database is its address converted to the 32
  bits of \<^verbatim>\<open>id_t\<close> and back (\<^verbatim>\<open>lsdb_impl.c:18\<close>), which is the identity only where addresses have 32 bits: the operations here
  take the database itself, as on such a machine.
\<close>

section \<open>Data\<close>

record link_state_key =
  rt_id :: u32
  if_id :: u32
  n_rt_id :: u32
  n_if_id :: u32

record cr_lsdb_link_state =
  ls_key :: link_state_key
  ls_addr :: u32
  ls_metric :: u32
  ls_state :: u8
  ls_seq :: u32
  ls_age :: "int \<times> int"             \<comment> \<open>\<^verbatim>\<open>tv_sec\<close>, \<^verbatim>\<open>tv_usec\<close>\<close>

record router_node =
  rn_count :: u32
  rn_id :: u32
  rn_links :: "nat list"

record link_state =
  ls_data :: cr_lsdb_link_state
  ls_rt :: nat

record lsdb =
  routers_count :: u32
  links_state_count :: u32
  routers_head :: "nat list"
  links_state_head :: "nat list"
  rt_heap :: "router_node list"
  ls_heap :: "link_state list"

text \<open>The message to the base module (\<^verbatim>\<open>lsdb_Msg\<close> in a packet).\<close>

record lsdb_msg =
  lm_areaid :: u32
  lm_rid :: u32
  lm_nrid :: u32
  lm_ifid :: u32
  lm_nifid :: u32
  lm_metric :: u32
  lm_status :: u32
  lm_seq :: u32
  lm_age :: "int \<times> int"

record lsdb_packet =
  pkt_type :: u8
  pkt_version :: u8
  pkt_len :: u16
  lh_version :: u8
  lh_length :: u16
  lh_area_id :: u32
  lh_msg :: lsdb_msg

definition ADDLSA :: u8 where "ADDLSA = 11"
definition UPDATELSA :: u8 where "UPDATELSA = 12"
definition PMA_VERSION :: u8 where "PMA_VERSION = 3"

section \<open>The implementation\<close>

definition cr_lsdb_init :: lsdb where
  "cr_lsdb_init = \<lparr>routers_count = 0, links_state_count = 0, routers_head = [], links_state_head = [],
     rt_heap = [], ls_heap = []\<rparr>"

definition lsdb_router_add :: "u32 \<Rightarrow> lsdb \<Rightarrow> nat \<times> lsdb" where
  "lsdb_router_add i db =
     (let p = length (rt_heap db)
      in (p, db\<lparr>rt_heap := rt_heap db @ [\<lparr>rn_count = 0, rn_id = i, rn_links = []\<rparr>],
                routers_head := p # routers_head db, routers_count := routers_count db + 1\<rparr>))"

definition lsdb_router_find :: "u32 \<Rightarrow> lsdb \<Rightarrow> nat option" where
  "lsdb_router_find i db = find (\<lambda>p. rn_id (rt_heap db ! p) = i) (routers_head db)"

definition find_or_add_router :: "u32 \<Rightarrow> lsdb \<Rightarrow> nat \<times> lsdb" where
  "find_or_add_router i db =
     (case lsdb_router_find i db of Some p \<Rightarrow> (p, db) | None \<Rightarrow> lsdb_router_add i db)"

definition lsdb_link_state_add :: "cr_lsdb_link_state \<Rightarrow> lsdb \<Rightarrow> int \<times> lsdb" where
  "lsdb_link_state_add state db =
     (let db1 = (if n_rt_id (ls_key state) \<noteq> 0 then snd (find_or_add_router (n_rt_id (ls_key state)) db) else db);
          (rt, db2) = find_or_add_router (rt_id (ls_key state)) db1;
          l = length (ls_heap db2); node = rt_heap db2 ! rt
      in (NO_ERR, db2\<lparr>ls_heap := ls_heap db2 @ [\<lparr>ls_data = state, ls_rt = rt\<rparr>],
               links_state_head := l # links_state_head db2,
               links_state_count := links_state_count db2 + 1,
               rt_heap := (rt_heap db2)[rt := node\<lparr>rn_links := l # rn_links node, rn_count := rn_count node + 1\<rparr>]\<rparr>))"

definition key_match :: "link_state_key \<Rightarrow> link_state_key \<Rightarrow> bool" where
  "key_match k e \<longleftrightarrow> if_id e = if_id k \<and> n_rt_id e = n_rt_id k \<and> n_if_id e = n_if_id k"

definition lsdb_link_state_find :: "link_state_key \<Rightarrow> lsdb \<Rightarrow> nat option" where
  "lsdb_link_state_find k db =
     (case lsdb_router_find (rt_id k) db of
        None \<Rightarrow> None
      | Some p \<Rightarrow> find (\<lambda>l. key_match k (ls_key (ls_data (ls_heap db ! l)))) (rn_links (rt_heap db ! p)))"

section \<open>Messages\<close>

definition lsdb_msg_create :: "u32 \<Rightarrow> cr_lsdb_link_state \<Rightarrow> lsdb_msg" where
  "lsdb_msg_create area ls = \<lparr>lm_areaid = area, lm_rid = rt_id (ls_key ls), lm_nrid = n_rt_id (ls_key ls),
     lm_ifid = if_id (ls_key ls), lm_nifid = n_if_id (ls_key ls), lm_metric = ls_metric ls,
     lm_status = ucast (ls_state ls), lm_seq = ls_seq ls, lm_age = ls_age ls\<rparr>"

text \<open>Sizes: 48 bytes of message, 12 of message header, 8 of packet header.\<close>

definition create_lsdb_packet :: "u8 \<Rightarrow> lsdb_msg \<Rightarrow> lsdb_packet" where
  "create_lsdb_packet action msg = \<lparr>pkt_type = action, pkt_version = PMA_VERSION, pkt_len = 68,
     lh_version = 1, lh_length = 60, lh_area_id = 0, lh_msg = msg\<rparr>"

section \<open>The checked operations\<close>

text \<open>
  \<open>area\<close> is the answer of \<^verbatim>\<open>get_area_id_by_lsdb_handle\<close>.  The operations return the database and the
  packets they send.
\<close>

definition cr_lsdb_router_add :: "u32 \<Rightarrow> lsdb \<Rightarrow> (int \<times> lsdb) res" where
  "cr_lsdb_router_add i db =
     c_assert (i \<noteq> 0) (c_assert (lsdb_router_find i db = None) (Ok (NO_ERR, snd (lsdb_router_add i db))))"

definition cr_lsdb_router_find :: "u32 \<Rightarrow> lsdb \<Rightarrow> int" where
  "cr_lsdb_router_find i db =
     (if i = 0 then NOT_FOUND_ERR else if lsdb_router_find i db = None then NOT_FOUND_ERR else NO_ERR)"

definition cr_lsdb_router_update :: "u32 \<Rightarrow> lsdb \<Rightarrow> (int \<times> lsdb) res" where
  "cr_lsdb_router_update i db = c_assert (i \<noteq> 0)
     (case lsdb_router_find i db of
        None \<Rightarrow> Ok (NOT_FOUND_ERR, db)
      | Some p \<Rightarrow> Ok (NO_ERR, db\<lparr>rt_heap := (rt_heap db)[p := (rt_heap db ! p)\<lparr>rn_id := i\<rparr>]\<rparr>))"

definition cr_lsdb_link_state_add ::
  "u32 \<Rightarrow> cr_lsdb_link_state \<Rightarrow> lsdb \<Rightarrow> (int \<times> lsdb \<times> lsdb_packet list) res" where
  "cr_lsdb_link_state_add area lnk db =
     c_assert (rt_id (ls_key lnk) \<noteq> 0)
       (c_assert (lsdb_link_state_find (ls_key lnk) db = None)
          (let (r, db') = lsdb_link_state_add lnk db
           in Ok (r, db', [create_lsdb_packet ADDLSA (lsdb_msg_create area lnk)])))"

definition cr_lsdb_link_state_find :: "link_state_key \<Rightarrow> lsdb \<Rightarrow> cr_lsdb_link_state option" where
  "cr_lsdb_link_state_find k db =
     (if rt_id k = 0 then None else map_option (\<lambda>l. ls_data (ls_heap db ! l)) (lsdb_link_state_find k db))"

text \<open>
  \<^verbatim>\<open>cr_lsdb_link_state_update\<close> copies the data through \<^verbatim>\<open>result\<close> also when the search has failed and
  left \<^verbatim>\<open>result\<close> uninitialised.
\<close>

definition cr_lsdb_link_state_update ::
  "u32 \<Rightarrow> cr_lsdb_link_state \<Rightarrow> lsdb \<Rightarrow> (int \<times> lsdb \<times> lsdb_packet list) res" where
  "cr_lsdb_link_state_update area lnk db =
     c_assert (rt_id (ls_key lnk) \<noteq> 0)
       (case lsdb_link_state_find (ls_key lnk) db of
          None \<Rightarrow> Err UninitPointer
        | Some l \<Rightarrow> Ok (NO_ERR, db\<lparr>ls_heap := (ls_heap db)[l := (ls_heap db ! l)\<lparr>ls_data := lnk\<rparr>]\<rparr>,
                      [create_lsdb_packet UPDATELSA (lsdb_msg_create area lnk)]))"

text \<open>The two searches that complete a key: by the interface, and by the neighbour.\<close>

definition find_link_of_router :: "(link_state_key \<Rightarrow> bool) \<Rightarrow> u32 \<Rightarrow> lsdb \<Rightarrow> link_state_key option" where
  "find_link_of_router P i db =
     (case lsdb_router_find i db of
        None \<Rightarrow> None
      | Some p \<Rightarrow> find P (map (\<lambda>l. ls_key (ls_data (ls_heap db ! l))) (rn_links (rt_heap db ! p))))"

definition cr_lsdb_neighbour_info_find :: "link_state_key \<Rightarrow> lsdb \<Rightarrow> int \<times> link_state_key" where
  "cr_lsdb_neighbour_info_find k db =
     (case find_link_of_router (\<lambda>e. if_id e = if_id k) (rt_id k) db of
        None \<Rightarrow> (NOT_FOUND_ERR, k)
      | Some e \<Rightarrow> (NO_ERR, k\<lparr>n_rt_id := n_rt_id e, n_if_id := n_if_id e\<rparr>))"

definition cr_lsdb_ethid_info_find_by_nrt_id :: "link_state_key \<Rightarrow> lsdb \<Rightarrow> int \<times> link_state_key" where
  "cr_lsdb_ethid_info_find_by_nrt_id k db =
     (case find_link_of_router (\<lambda>e. n_rt_id e = n_rt_id k) (rt_id k) db of
        None \<Rightarrow> (NOT_FOUND_ERR, k)
      | Some e \<Rightarrow> (NO_ERR, k\<lparr>if_id := if_id e, n_if_id := n_if_id e\<rparr>))"

definition cr_lsdb_get_routers_count :: "lsdb \<Rightarrow> int" where
  "cr_lsdb_get_routers_count db = int_of_u32 (routers_count db)"

definition cr_lsdb_get_link_states_count :: "lsdb \<Rightarrow> int" where
  "cr_lsdb_get_link_states_count db = int_of_u32 (links_state_count db)"

definition reverse_key :: "link_state_key \<Rightarrow> link_state_key" where
  "reverse_key k = \<lparr>rt_id = n_rt_id k, if_id = n_if_id k, n_rt_id = rt_id k, n_if_id = if_id k\<rparr>"

definition STATE_MASK :: u8 where "STATE_MASK = 3"

definition cr_lsd_is_connected :: "cr_lsdb_link_state \<Rightarrow> lsdb \<Rightarrow> bool" where
  "cr_lsd_is_connected lsa db =
     (case cr_lsdb_link_state_find (reverse_key (ls_key lsa)) db of
        None \<Rightarrow> False
      | Some n_lsa \<Rightarrow> and (ls_state lsa) STATE_MASK = STATE_MASK \<and> and (ls_state n_lsa) STATE_MASK = STATE_MASK)"

section \<open>Visitors\<close>

text \<open>A visitor gets the router's id and the link state; a result other than 0 stops the walk.\<close>

fun accept_all :: "('x \<Rightarrow> 's \<Rightarrow> int \<times> 's) \<Rightarrow> 'x list \<Rightarrow> 's \<Rightarrow> int \<times> 's" where
  "accept_all v [] s = (NO_ERR, s)"
| "accept_all v (x # xs) s = (let (r, s') = v x s in if r \<noteq> 0 then (r, s') else accept_all v xs s')"

definition cr_lsdb_routers_accept :: "(u32 \<Rightarrow> 's \<Rightarrow> int \<times> 's) \<Rightarrow> lsdb \<Rightarrow> 's \<Rightarrow> int \<times> 's" where
  "cr_lsdb_routers_accept v db = accept_all v (map (\<lambda>p. rn_id (rt_heap db ! p)) (routers_head db))"

definition visit_args :: "lsdb \<Rightarrow> nat list \<Rightarrow> (u32 \<times> cr_lsdb_link_state) list" where
  "visit_args db ls = map (\<lambda>l. (rn_id (rt_heap db ! ls_rt (ls_heap db ! l)), ls_data (ls_heap db ! l))) ls"

definition cr_lsdb_links_state_accept ::
  "(u32 \<times> cr_lsdb_link_state \<Rightarrow> 's \<Rightarrow> int \<times> 's) \<Rightarrow> lsdb \<Rightarrow> 's \<Rightarrow> int \<times> 's" where
  "cr_lsdb_links_state_accept v db = accept_all v (visit_args db (links_state_head db))"

definition cr_lsdb_backbone_links_state_accept ::
  "(u32 \<times> cr_lsdb_link_state \<Rightarrow> 's \<Rightarrow> int \<times> 's) \<Rightarrow> lsdb \<Rightarrow> 's \<Rightarrow> int \<times> 's" where
  "cr_lsdb_backbone_links_state_accept v db =
     accept_all v (filter (\<lambda>(_, d). n_rt_id (ls_key d) \<noteq> 0) (visit_args db (links_state_head db)))"

definition accept_by_router ::
  "(link_state_key \<Rightarrow> bool) \<Rightarrow> u32 \<Rightarrow> (u32 \<times> cr_lsdb_link_state \<Rightarrow> 's \<Rightarrow> int \<times> 's) \<Rightarrow> lsdb \<Rightarrow> 's \<Rightarrow> int \<times> 's" where
  "accept_by_router P i v db s =
     (case lsdb_router_find i db of
        None \<Rightarrow> (NOT_FOUND_ERR, s)
      | Some p \<Rightarrow> accept_all v
          (filter (\<lambda>(_, d). P (ls_key d))
             (map (\<lambda>l. (rn_id (rt_heap db ! p), ls_data (ls_heap db ! l))) (rn_links (rt_heap db ! p)))) s)"

definition cr_lsdb_links_state_accept_by_router where
  "cr_lsdb_links_state_accept_by_router i = accept_by_router (\<lambda>_. True) i"

definition cr_lsdb_access_links_state_accept_by_router where
  "cr_lsdb_access_links_state_accept_by_router i = accept_by_router (\<lambda>k. n_rt_id k = 0) i"

definition cr_lsdb_backbone_links_state_accept_by_router where
  "cr_lsdb_backbone_links_state_accept_by_router i = accept_by_router (\<lambda>k. n_rt_id k \<noteq> 0) i"

text \<open>The collecting visitors push to the front of the result.\<close>

definition add_router_into_list :: "u32 \<Rightarrow> u32 list \<Rightarrow> int \<times> u32 list" where
  "add_router_into_list r acc = (NO_ERR, r # acc)"

definition add_link_state_into_list ::
  "u32 \<times> cr_lsdb_link_state \<Rightarrow> cr_lsdb_link_state list \<Rightarrow> int \<times> cr_lsdb_link_state list" where
  "add_link_state_into_list e acc = (NO_ERR, snd e # acc)"

definition cr_lsdb_get_routers :: "lsdb \<Rightarrow> int \<times> u32 list" where
  "cr_lsdb_get_routers db = cr_lsdb_routers_accept add_router_into_list db []"

definition cr_lsdb_get_links_state :: "lsdb \<Rightarrow> int \<times> cr_lsdb_link_state list" where
  "cr_lsdb_get_links_state db = cr_lsdb_links_state_accept add_link_state_into_list db []"

definition cr_lsdb_get_backbone_links_state :: "lsdb \<Rightarrow> int \<times> cr_lsdb_link_state list" where
  "cr_lsdb_get_backbone_links_state db = cr_lsdb_backbone_links_state_accept add_link_state_into_list db []"

definition cr_lsdb_get_links_state_by_router :: "u32 \<Rightarrow> lsdb \<Rightarrow> int \<times> cr_lsdb_link_state list" where
  "cr_lsdb_get_links_state_by_router i db = cr_lsdb_links_state_accept_by_router i add_link_state_into_list db []"

definition cr_lsdb_get_access_links_state_by_router :: "u32 \<Rightarrow> lsdb \<Rightarrow> int \<times> cr_lsdb_link_state list" where
  "cr_lsdb_get_access_links_state_by_router i db =
     cr_lsdb_access_links_state_accept_by_router i add_link_state_into_list db []"

definition cr_lsdb_get_backbone_links_state_by_router :: "u32 \<Rightarrow> lsdb \<Rightarrow> int \<times> cr_lsdb_link_state list" where
  "cr_lsdb_get_backbone_links_state_by_router i db =
     cr_lsdb_backbone_links_state_accept_by_router i add_link_state_into_list db []"

text \<open>
  \<^verbatim>\<open>cr_lsdb_find_adjacent_router\<close> fills an array of \<^verbatim>\<open>MAX_ADJ\<close> entries and terminates it with -1.
\<close>

definition MAX_ADJ :: nat where "MAX_ADJ = 10"

fun fill_adjacent :: "cr_lsdb_link_state list \<Rightarrow> nat \<Rightarrow> int list \<Rightarrow> (nat \<times> int list) res" where
  "fill_adjacent [] i arr = Ok (i, arr)"
| "fill_adjacent (d # ds) i arr =
     (if and (ls_state d) 3 = 3
      then (if i \<ge> length arr then Err OutOfBounds
            else fill_adjacent ds (Suc i) (arr[i := int_of_u32 (rt_id (ls_key d))]))
      else fill_adjacent ds i arr)"

definition cr_lsdb_find_adjacent_router :: "u32 \<Rightarrow> int list \<Rightarrow> lsdb \<Rightarrow> (int \<times> int list) res" where
  "cr_lsdb_find_adjacent_router i arr db =
     res_bind (fill_adjacent (snd (cr_lsdb_get_backbone_links_state_by_router i db)) 0 arr)
       (\<lambda>(n, arr'). if n \<ge> length arr' then Err OutOfBounds else Ok (NO_ERR, arr'[n := -1]))"

section \<open>Invariant and abstraction\<close>

abbreviation key_of :: "lsdb \<Rightarrow> nat \<Rightarrow> link_state_key" where
  "key_of db l \<equiv> ls_key (ls_data (ls_heap db ! l))"

definition wf_routers :: "lsdb \<Rightarrow> bool" where
  "wf_routers db \<longleftrightarrow> distinct (routers_head db) \<and> set (routers_head db) = {..<length (rt_heap db)} \<and>
     distinct (map rn_id (rt_heap db)) \<and> routers_count db = of_nat (length (rt_heap db))"

definition wf_links :: "lsdb \<Rightarrow> bool" where
  "wf_links db \<longleftrightarrow> distinct (links_state_head db) \<and> set (links_state_head db) = {..<length (ls_heap db)} \<and>
     links_state_count db = of_nat (length (ls_heap db)) \<and> distinct (map (ls_key o ls_data) (ls_heap db)) \<and>
     (\<forall>l < length (ls_heap db). ls_rt (ls_heap db ! l) < length (rt_heap db) \<and> rt_id (key_of db l) \<noteq> 0 \<and>
        rn_id (rt_heap db ! ls_rt (ls_heap db ! l)) = rt_id (key_of db l)) \<and>
     (\<forall>p < length (rt_heap db). distinct (rn_links (rt_heap db ! p)) \<and>
        rn_count (rt_heap db ! p) = of_nat (length (rn_links (rt_heap db ! p))) \<and>
        set (rn_links (rt_heap db ! p)) = {l. l < length (ls_heap db) \<and> ls_rt (ls_heap db ! l) = p})"

definition wf_lsdb :: "lsdb \<Rightarrow> bool" where
  "wf_lsdb db \<longleftrightarrow> wf_routers db \<and> wf_links db"

text \<open>What the database is: a finite map from keys to link states.\<close>

definition lsdb_map :: "lsdb \<Rightarrow> link_state_key \<Rightarrow> cr_lsdb_link_state option" where
  "lsdb_map db k = find (\<lambda>d. ls_key d = k) (map ls_data (ls_heap db))"

lemma wf_lsdb_init: "wf_lsdb cr_lsdb_init" "lsdb_map cr_lsdb_init k = None"
  by (simp_all add: wf_lsdb_def wf_routers_def wf_links_def cr_lsdb_init_def lsdb_map_def)

lemma lsdb_router_find_iff:
  assumes "wf_routers db"
  shows "lsdb_router_find i db = Some p \<longleftrightarrow> p < length (rt_heap db) \<and> rn_id (rt_heap db ! p) = i"
proof
  assume "lsdb_router_find i db = Some p"
  from find_SomeD [OF this [unfolded lsdb_router_find_def]] assms
  show "p < length (rt_heap db) \<and> rn_id (rt_heap db ! p) = i" by (auto simp: wf_routers_def)
next
  assume p: "p < length (rt_heap db) \<and> rn_id (rt_heap db ! p) = i"
  show "lsdb_router_find i db = Some p"
  proof (cases "lsdb_router_find i db")
    case None
    then show ?thesis using p assms by (auto simp: lsdb_router_find_def find_None_iff wf_routers_def)
  next
    case (Some q)
    from find_SomeD [OF this [unfolded lsdb_router_find_def]] assms
    have q: "q < length (rt_heap db)" "rn_id (rt_heap db ! q) = i" by (auto simp: wf_routers_def)
    have "p = q"
      using p q assms nth_eq_iff_index_eq [of "map rn_id (rt_heap db)" p q] by (simp add: wf_routers_def)
    with Some show ?thesis by simp
  qed
qed

lemma lsdb_router_find_None:
  assumes "wf_routers db"
  shows "lsdb_router_find i db = None \<longleftrightarrow> i \<notin> rn_id ` set (rt_heap db)"
proof -
  have eq: "set (rt_heap db) = (\<lambda>p. rt_heap db ! p) ` set (routers_head db)"
  proof -
    have "set (routers_head db) = {..<length (rt_heap db)}" using assms by (simp add: wf_routers_def)
    then show ?thesis by (auto simp: set_conv_nth [of "rt_heap db"])
  qed
  show ?thesis by (subst eq) (auto simp: lsdb_router_find_def find_None_iff)
qed

lemma lsdb_link_state_find_iff:
  assumes wf: "wf_lsdb db"
  shows "lsdb_link_state_find k db = Some l \<longleftrightarrow> l < length (ls_heap db) \<and> key_of db l = k"
proof -
  have wr: "wf_routers db" and wl: "wf_links db" using wf by (auto simp: wf_lsdb_def)
  have sound: "a < length (ls_heap db) \<and> key_of db a = k" if h: "lsdb_link_state_find k db = Some a" for a
  proof -
    obtain p where p: "lsdb_router_find (rt_id k) db = Some p"
        "find (\<lambda>l. key_match k (key_of db l)) (rn_links (rt_heap db ! p)) = Some a"
      using h by (auto simp: lsdb_link_state_find_def split: option.splits)
    have pl: "p < length (rt_heap db)" "rn_id (rt_heap db ! p) = rt_id k"
      using p(1) lsdb_router_find_iff [OF wr] by auto
    have a: "a \<in> set (rn_links (rt_heap db ! p))" "key_match k (key_of db a)" using find_SomeD [OF p(2)] by auto
    then have al: "a < length (ls_heap db)" "ls_rt (ls_heap db ! a) = p" using wl pl(1) by (auto simp: wf_links_def)
    then have "rt_id (key_of db a) = rt_id k" using wl pl(2) by (auto simp: wf_links_def)
    with a(2) have "key_of db a = k" by (auto simp: key_match_def)
    with al show ?thesis by blast
  qed
  show ?thesis
  proof
    assume "lsdb_link_state_find k db = Some l"
    with sound show "l < length (ls_heap db) \<and> key_of db l = k" by blast
  next
    assume l: "l < length (ls_heap db) \<and> key_of db l = k"
    let ?p = "ls_rt (ls_heap db ! l)"
    have p: "?p < length (rt_heap db)" "rn_id (rt_heap db ! ?p) = rt_id k" using wl l by (auto simp: wf_links_def)
    then have rf: "lsdb_router_find (rt_id k) db = Some ?p" using lsdb_router_find_iff [OF wr] by auto
    have "l \<in> set (rn_links (rt_heap db ! ?p))" using wl l p(1) by (auto simp: wf_links_def)
    then have "lsdb_link_state_find k db \<noteq> None"
      using l rf by (auto simp: lsdb_link_state_find_def find_None_iff key_match_def)
    then obtain a where a: "lsdb_link_state_find k db = Some a" by blast
    from sound [OF this] l wl have "a = l"
      using nth_eq_iff_index_eq [of "map (ls_key o ls_data) (ls_heap db)" a l] by (simp add: wf_links_def)
    with a show "lsdb_link_state_find k db = Some l" by simp
  qed
qed

lemma lsdb_map_eq:
  assumes wf: "wf_lsdb db"
  shows "lsdb_map db k = map_option (\<lambda>l. ls_data (ls_heap db ! l)) (lsdb_link_state_find k db)"
proof (cases "lsdb_link_state_find k db")
  case None
  then have "\<forall>l < length (ls_heap db). key_of db l \<noteq> k" using lsdb_link_state_find_iff [OF wf, of k] by auto
  then show ?thesis using None by (auto simp: lsdb_map_def find_None_iff in_set_conv_nth)
next
  case (Some l)
  then have l: "l < length (ls_heap db)" "key_of db l = k" using lsdb_link_state_find_iff [OF wf] by auto
  have "key_of db l' \<noteq> k" if "l' < l" for l'
    using wf l that nth_eq_iff_index_eq [of "map (ls_key o ls_data) (ls_heap db)" l' l]
    by (auto simp: wf_lsdb_def wf_links_def)
  with l have "find (\<lambda>d. ls_key d = k) (map ls_data (ls_heap db)) = Some (ls_data (ls_heap db ! l))"
    by (auto simp: find_Some_iff intro!: exI [of _ l])
  with Some show ?thesis by (simp add: lsdb_map_def)
qed

lemma lsdb_map_key: "lsdb_map db k = Some d \<Longrightarrow> ls_key d = k"
  unfolding lsdb_map_def by (drule find_SomeD) simp

lemma cr_lsdb_link_state_find_eq:
  assumes wf: "wf_lsdb db"
  shows "cr_lsdb_link_state_find k db = lsdb_map db k"
proof (cases "rt_id k = 0")
  case True
  have "lsdb_link_state_find k db = None"
  proof (rule ccontr)
    assume "lsdb_link_state_find k db \<noteq> None"
    then obtain l where "l < length (ls_heap db)" "key_of db l = k" using lsdb_link_state_find_iff [OF wf] by blast
    with True wf show False by (auto simp: wf_lsdb_def wf_links_def)
  qed
  with True show ?thesis by (simp add: cr_lsdb_link_state_find_def lsdb_map_eq [OF wf])
next
  case False
  then show ?thesis by (simp add: cr_lsdb_link_state_find_def lsdb_map_eq [OF wf])
qed

section \<open>Changes keep the invariant\<close>

lemma lsdb_router_add_wf:
  assumes wf: "wf_lsdb db" and n: "lsdb_router_find i db = None" and a: "lsdb_router_add i db = (p, db')"
  shows "wf_lsdb db'" "ls_heap db' = ls_heap db" "p < length (rt_heap db')" "rn_id (rt_heap db' ! p) = i"
proof -
  have wr: "wf_routers db" and wl: "wf_links db" using wf by (auto simp: wf_lsdb_def)
  have i: "i \<notin> rn_id ` set (rt_heap db)" using n lsdb_router_find_None [OF wr] by simp
  have db': "db' = db\<lparr>rt_heap := rt_heap db @ [\<lparr>rn_count = 0, rn_id = i, rn_links = []\<rparr>],
      routers_head := length (rt_heap db) # routers_head db, routers_count := routers_count db + 1\<rparr>"
    and p: "p = length (rt_heap db)" using a by (auto simp: lsdb_router_add_def Let_def)
  show "ls_heap db' = ls_heap db" "p < length (rt_heap db')" "rn_id (rt_heap db' ! p) = i"
    by (simp_all add: db' p)
  have "wf_routers db'" using wr i by (auto simp: wf_routers_def db')
  moreover have "wf_links db'"
    using wl by (auto simp: wf_links_def db' nth_append less_Suc_eq dest: less_imp_neq)
  ultimately show "wf_lsdb db'" by (simp add: wf_lsdb_def)
qed

lemma find_or_add_router_wf:
  assumes wf: "wf_lsdb db" and a: "find_or_add_router i db = (p, db')"
  shows "wf_lsdb db'" "ls_heap db' = ls_heap db" "p < length (rt_heap db')" "rn_id (rt_heap db' ! p) = i"
proof -
  have "wf_lsdb db' \<and> ls_heap db' = ls_heap db \<and> p < length (rt_heap db') \<and> rn_id (rt_heap db' ! p) = i"
  proof (cases "lsdb_router_find i db")
    case None
    with a have "lsdb_router_add i db = (p, db')" by (simp add: find_or_add_router_def)
    from lsdb_router_add_wf [OF wf None this] show ?thesis by blast
  next
    case (Some q)
    with a wf lsdb_router_find_iff [of db i q] show ?thesis by (auto simp: find_or_add_router_def wf_lsdb_def)
  qed
  then show "wf_lsdb db'" "ls_heap db' = ls_heap db" "p < length (rt_heap db')" "rn_id (rt_heap db' ! p) = i" by auto
qed

lemma lsdb_link_state_add_wf:
  assumes wf: "wf_lsdb db" and nz: "rt_id (ls_key d) \<noteq> 0" and nf: "lsdb_link_state_find (ls_key d) db = None"
    and a: "lsdb_link_state_add d db = (r, db')"
  shows "r = NO_ERR \<and> wf_lsdb db' \<and> map ls_data (ls_heap db') = map ls_data (ls_heap db) @ [d]"
proof -
  let ?db1 = "if n_rt_id (ls_key d) \<noteq> 0 then snd (find_or_add_router (n_rt_id (ls_key d)) db) else db"
  obtain q db1' where q: "find_or_add_router (n_rt_id (ls_key d)) db = (q, db1')" by (rule prod.exhaust)
  have 1: "wf_lsdb ?db1" "ls_heap ?db1 = ls_heap db" using find_or_add_router_wf [OF wf q] wf by (simp_all add: q)
  obtain rt db2 where f2: "find_or_add_router (rt_id (ls_key d)) ?db1 = (rt, db2)" by (rule prod.exhaust)
  note w2 = find_or_add_router_wf [OF 1(1) f2]
  have wr: "wf_routers db2" and wl: "wf_links db2" using w2(1) by (auto simp: wf_lsdb_def)
  have h2: "ls_heap db2 = ls_heap db" using w2(2) 1(2) by simp
  let ?l = "length (ls_heap db2)" and ?node = "rt_heap db2 ! rt"
  have db': "r = NO_ERR" "db' = db2\<lparr>ls_heap := ls_heap db2 @ [\<lparr>ls_data = d, ls_rt = rt\<rparr>],
               links_state_head := ?l # links_state_head db2, links_state_count := links_state_count db2 + 1,
               rt_heap := (rt_heap db2)[rt := ?node\<lparr>rn_links := ?l # rn_links ?node, rn_count := rn_count ?node + 1\<rparr>]\<rparr>"
    using a f2 by (auto simp: lsdb_link_state_add_def Let_def)
  have new: "ls_key d \<notin> set (map (ls_key o ls_data) (ls_heap db2))"
  proof -
    have "\<forall>l < length (ls_heap db). key_of db l \<noteq> ls_key d"
      using nf lsdb_link_state_find_iff [OF wf, of "ls_key d"] by auto
    then show ?thesis by (auto simp: h2 in_set_conv_nth)
  qed
  have ids: "rn_id ((rt_heap db2)[rt := ?node\<lparr>rn_links := ?l # rn_links ?node, rn_count := rn_count ?node + 1\<rparr>] ! p) =
      rn_id (rt_heap db2 ! p)" if "p < length (rt_heap db2)" for p
    using that w2(3) by (simp add: nth_list_update)
  have "wf_routers db'"
  proof -
    have "map rn_id (rt_heap db') = map rn_id (rt_heap db2)"
      using ids by (intro nth_equalityI) (simp_all add: db')
    with wr show ?thesis by (simp add: wf_routers_def db')
  qed
  moreover have "wf_links db'"
  proof -
    have l: "ls_rt (ls_heap db' ! l) < length (rt_heap db') \<and> rt_id (key_of db' l) \<noteq> 0 \<and>
        rn_id (rt_heap db' ! ls_rt (ls_heap db' ! l)) = rt_id (key_of db' l)" if "l < length (ls_heap db')" for l
      using that wl w2(3,4) nz ids by (auto simp: db' nth_append wf_links_def)
    have p: "distinct (rn_links (rt_heap db' ! p)) \<and>
        rn_count (rt_heap db' ! p) = of_nat (length (rn_links (rt_heap db' ! p))) \<and>
        set (rn_links (rt_heap db' ! p)) = {l. l < length (ls_heap db') \<and> ls_rt (ls_heap db' ! l) = p}"
      if "p < length (rt_heap db')" for p
    proof (cases "p = rt")
      case True
      with wl w2(3) show ?thesis by (auto simp: db' wf_links_def nth_append)
    next
      case False
      with that wl show ?thesis by (auto simp: db' wf_links_def nth_append)
    qed
    show ?thesis using wl new l p by (auto simp: wf_links_def db')
  qed
  ultimately show ?thesis using db' h2 by (simp add: wf_lsdb_def)
qed

lemma update_data_wf:
  assumes wf: "wf_lsdb db" and l: "lsdb_link_state_find (ls_key d) db = Some l"
  shows "wf_lsdb (db\<lparr>ls_heap := (ls_heap db)[l := (ls_heap db ! l)\<lparr>ls_data := d\<rparr>]\<rparr>)" (is "wf_lsdb ?db'")
    and "map ls_data ((ls_heap db)[l := (ls_heap db ! l)\<lparr>ls_data := d\<rparr>]) = (map ls_data (ls_heap db))[l := d]"
proof -
  have ll: "l < length (ls_heap db)" "key_of db l = ls_key d" using l lsdb_link_state_find_iff [OF wf] by auto
  have wl: "wf_links db" using wf by (simp add: wf_lsdb_def)
  have k: "ls_key (ls_data ((ls_heap db)[l := (ls_heap db ! l)\<lparr>ls_data := d\<rparr>] ! x)) = key_of db x \<and>
      ls_rt ((ls_heap db)[l := (ls_heap db ! l)\<lparr>ls_data := d\<rparr>] ! x) = ls_rt (ls_heap db ! x)" if "x < length (ls_heap db)" for x
    using ll that by (auto simp: nth_list_update)
  then have "map (ls_key o ls_data) (ls_heap ?db') = map (ls_key o ls_data) (ls_heap db)"
    by (intro nth_equalityI) simp_all
  with wl k have "wf_links ?db'" by (simp add: wf_links_def cong: conj_cong)
  with wf show "wf_lsdb ?db'" by (simp add: wf_lsdb_def wf_routers_def)
  show "map ls_data ((ls_heap db)[l := (ls_heap db ! l)\<lparr>ls_data := d\<rparr>]) = (map ls_data (ls_heap db))[l := d]"
    by (simp add: map_update)
qed

section \<open>The interface of a link-state store\<close>

text \<open>
  What the flooding protocol relies on: a store of link states under their keys with a search, an
  insertion for new keys and a replacement for known ones.
\<close>

locale link_state_store =
  fixes inv :: "'db \<Rightarrow> bool"
    and search :: "link_state_key \<Rightarrow> 'db \<Rightarrow> cr_lsdb_link_state option"
    and ins :: "cr_lsdb_link_state \<Rightarrow> 'db \<Rightarrow> 'db res"
    and repl :: "cr_lsdb_link_state \<Rightarrow> 'db \<Rightarrow> 'db res"
  assumes search_key: "inv db \<Longrightarrow> search k db = Some d \<Longrightarrow> ls_key d = k"
    and ins_new: "inv db \<Longrightarrow> rt_id (ls_key d) \<noteq> 0 \<Longrightarrow> search (ls_key d) db = None \<Longrightarrow>
      \<exists>db'. ins d db = Ok db' \<and> inv db' \<and> (\<forall>k. search k db' = (if k = ls_key d then Some d else search k db))"
    and repl_old: "inv db \<Longrightarrow> search (ls_key d) db \<noteq> None \<Longrightarrow>
      \<exists>db'. repl d db = Ok db' \<and> inv db' \<and> (\<forall>k. search k db' = (if k = ls_key d then Some d else search k db))"
begin

definition put :: "cr_lsdb_link_state \<Rightarrow> 'db \<Rightarrow> 'db res" where
  "put d db = (case search (ls_key d) db of
     None \<Rightarrow> ins d db | Some old \<Rightarrow> if ls_seq old < ls_seq d then repl d db else Ok db)"

lemma put_newest:
  assumes "inv db" "rt_id (ls_key d) \<noteq> 0"
  shows "\<exists>db'. put d db = Ok db' \<and> inv db' \<and>
    (\<forall>k. search k db' = (if k = ls_key d
        then (case search k db of None \<Rightarrow> Some d | Some old \<Rightarrow> if ls_seq old < ls_seq d then Some d else Some old)
        else search k db))"
proof (cases "search (ls_key d) db")
  case None
  with ins_new [OF assms] show ?thesis by (auto simp: put_def)
next
  case (Some old)
  then show ?thesis using repl_old [OF assms(1), of d] assms(1) by (auto simp: put_def)
qed

end

definition add_only :: "u32 \<Rightarrow> cr_lsdb_link_state \<Rightarrow> lsdb \<Rightarrow> lsdb res" where
  "add_only area d db = res_map (\<lambda>(_, db', _). db') (cr_lsdb_link_state_add area d db)"

definition update_only :: "u32 \<Rightarrow> cr_lsdb_link_state \<Rightarrow> lsdb \<Rightarrow> lsdb res" where
  "update_only area d db = res_map (\<lambda>(_, db', _). db') (cr_lsdb_link_state_update area d db)"

lemma add_spec:
  assumes wf: "wf_lsdb db" and nz: "rt_id (ls_key d) \<noteq> 0" and n: "lsdb_map db (ls_key d) = None"
  shows "\<exists>db'. cr_lsdb_link_state_add area d db = Ok (NO_ERR, db', [create_lsdb_packet ADDLSA (lsdb_msg_create area d)]) \<and>
    wf_lsdb db' \<and> lsdb_map db' = (lsdb_map db)(ls_key d \<mapsto> d)"
proof -
  have nf: "lsdb_link_state_find (ls_key d) db = None" using n lsdb_map_eq [OF wf] by simp
  obtain r db' where a: "lsdb_link_state_add d db = (r, db')" by (rule prod.exhaust)
  from lsdb_link_state_add_wf [OF wf nz nf a]
  have r: "r = NO_ERR" "wf_lsdb db'" "map ls_data (ls_heap db') = map ls_data (ls_heap db) @ [d]" by auto
  have "lsdb_map db' = (lsdb_map db)(ls_key d \<mapsto> d)"
    using n by (auto simp: lsdb_map_def r(3) find_append fun_eq_iff split: option.splits)
  with r a nz nf show ?thesis by (simp add: cr_lsdb_link_state_add_def)
qed

lemma find_update:
  assumes "i < length xs" "P (xs ! i) = P x" "\<forall>j < length xs. j \<noteq> i \<longrightarrow> P x \<longrightarrow> \<not> P (xs ! j)"
  shows "find P (xs[i := x]) = (if P x then Some x else find P xs)"
proof (cases "P x")
  case True
  then show ?thesis using assms
    by (auto simp: find_Some_iff nth_list_update intro!: exI [of _ i])
next
  case False
  have "filter P (xs[i := x]) = filter P xs"
    using assms(1,2) False
    by (subst (2) id_take_nth_drop [OF assms(1)]) (simp add: upd_conv_take_nth_drop)
  moreover have "find P ys = (case filter P ys of [] \<Rightarrow> None | y # _ \<Rightarrow> Some y)" for ys
    by (induction ys) auto
  ultimately show ?thesis using False by simp
qed

lemma update_spec:
  assumes wf: "wf_lsdb db" and s: "lsdb_map db (ls_key d) \<noteq> None"
  shows "\<exists>db'. cr_lsdb_link_state_update area d db = Ok (NO_ERR, db', [create_lsdb_packet UPDATELSA (lsdb_msg_create area d)]) \<and>
    wf_lsdb db' \<and> lsdb_map db' = (lsdb_map db)(ls_key d \<mapsto> d)"
proof -
  obtain l where l: "lsdb_link_state_find (ls_key d) db = Some l" using s lsdb_map_eq [OF wf] by auto
  have ll: "l < length (ls_heap db)" "key_of db l = ls_key d" using l lsdb_link_state_find_iff [OF wf] by auto
  have wl: "wf_links db" using wf by (simp add: wf_lsdb_def)
  have nz: "rt_id (ls_key d) \<noteq> 0" using wl ll by (auto simp: wf_links_def)
  note u = update_data_wf [OF wf l]
  have uniq: "key_of db j \<noteq> ls_key d" if "j < length (ls_heap db)" "j \<noteq> l" for j
    using wl ll that nth_eq_iff_index_eq [of "map (ls_key o ls_data) (ls_heap db)" j l] by (auto simp: wf_links_def)
  have "lsdb_map (db\<lparr>ls_heap := (ls_heap db)[l := (ls_heap db ! l)\<lparr>ls_data := d\<rparr>]\<rparr>) k =
      ((lsdb_map db)(ls_key d \<mapsto> d)) k" for k
    using ll uniq u(2) find_update [of l "map ls_data (ls_heap db)" "\<lambda>e. ls_key e = k" d]
    by (auto simp: lsdb_map_def)
  then have "lsdb_map (db\<lparr>ls_heap := (ls_heap db)[l := (ls_heap db ! l)\<lparr>ls_data := d\<rparr>]\<rparr>) = (lsdb_map db)(ls_key d \<mapsto> d)"
    by (rule ext)
  with l nz u(1) show ?thesis by (simp add: cr_lsdb_link_state_update_def)
qed

interpretation db: link_state_store wf_lsdb cr_lsdb_link_state_find "add_only area" "update_only area" for area
proof
  show "ls_key d = k" if "wf_lsdb db" "cr_lsdb_link_state_find k db = Some d" for db k d
    using that by (simp add: cr_lsdb_link_state_find_eq lsdb_map_key)
  show "\<exists>db'. add_only area d db = Ok db' \<and> wf_lsdb db' \<and>
      (\<forall>k. cr_lsdb_link_state_find k db' = (if k = ls_key d then Some d else cr_lsdb_link_state_find k db))"
    if w: "wf_lsdb db" and "rt_id (ls_key d) \<noteq> 0" "cr_lsdb_link_state_find (ls_key d) db = None" for db d
    using that add_spec [OF w, of d area] by (auto simp: add_only_def cr_lsdb_link_state_find_eq)
  show "\<exists>db'. update_only area d db = Ok db' \<and> wf_lsdb db' \<and>
      (\<forall>k. cr_lsdb_link_state_find k db' = (if k = ls_key d then Some d else cr_lsdb_link_state_find k db))"
    if w: "wf_lsdb db" and "cr_lsdb_link_state_find (ls_key d) db \<noteq> None" for db d
    using that update_spec [OF w, of d area] by (auto simp: update_only_def cr_lsdb_link_state_find_eq)
qed

section \<open>Collecting link states\<close>

lemma accept_all_collect: "accept_all (\<lambda>e acc. (NO_ERR, f e # acc)) xs acc = (NO_ERR, rev (map f xs) @ acc)"
  by (induction xs arbitrary: acc) (auto simp: NO_ERR_def)

lemma add_link_state_eq: "add_link_state_into_list = (\<lambda>e acc. (NO_ERR, snd e # acc))"
  by (intro ext) (simp add: add_link_state_into_list_def)

lemma cr_lsdb_get_links_state_eq:
  "cr_lsdb_get_links_state db = (NO_ERR, rev (map (\<lambda>l. ls_data (ls_heap db ! l)) (links_state_head db)))"
  using accept_all_collect [of snd "visit_args db (links_state_head db)" "[]"]
  by (simp add: cr_lsdb_get_links_state_def cr_lsdb_links_state_accept_def add_link_state_eq visit_args_def
      o_def rev_map)

lemma get_links_state_all:
  assumes "wf_lsdb db"
  shows "fst (cr_lsdb_get_links_state db) = NO_ERR" "set (snd (cr_lsdb_get_links_state db)) = ran (lsdb_map db)"
proof -
  show "fst (cr_lsdb_get_links_state db) = NO_ERR" by (simp add: cr_lsdb_get_links_state_eq)
  have h: "set (links_state_head db) = {..<length (ls_heap db)}" using assms by (simp add: wf_lsdb_def wf_links_def)
  have f: "lsdb_map db k = Some d \<longleftrightarrow> (\<exists>l < length (ls_heap db). key_of db l = k \<and> d = ls_data (ls_heap db ! l))" for k d
    using lsdb_link_state_find_iff [OF assms, of k] by (auto simp: lsdb_map_eq [OF assms])
  show "set (snd (cr_lsdb_get_links_state db)) = ran (lsdb_map db)"
    by (auto simp: cr_lsdb_get_links_state_eq h ran_def f)
qed

lemma get_backbone_by_router:
  assumes wf: "wf_lsdb db" and d: "d \<in> set (snd (cr_lsdb_get_backbone_links_state_by_router i db))"
  shows "rt_id (ls_key d) = i"
proof (cases "lsdb_router_find i db")
  case None
  with d show ?thesis
    by (simp add: cr_lsdb_get_backbone_links_state_by_router_def cr_lsdb_backbone_links_state_accept_by_router_def accept_by_router_def)
next
  case (Some p)
  have p: "p < length (rt_heap db)" "rn_id (rt_heap db ! p) = i"
    using Some wf lsdb_router_find_iff [of db i p] by (auto simp: wf_lsdb_def)
  let ?es = "filter (\<lambda>(_, d). n_rt_id (ls_key d) \<noteq> 0)
             (map (\<lambda>l. (rn_id (rt_heap db ! p), ls_data (ls_heap db ! l))) (rn_links (rt_heap db ! p)))"
  have "snd (cr_lsdb_get_backbone_links_state_by_router i db) = rev (map snd ?es)"
    using Some accept_all_collect [of snd ?es "[]"]
    by (simp add: cr_lsdb_get_backbone_links_state_by_router_def cr_lsdb_backbone_links_state_accept_by_router_def
        accept_by_router_def add_link_state_eq)
  with d obtain l where "l \<in> set (rn_links (rt_heap db ! p))" "d = ls_data (ls_heap db ! l)" by auto
  with wf p show ?thesis by (auto simp: wf_lsdb_def wf_links_def)
qed

section \<open>Properties\<close>

text \<open>Histories of the database, and what they do to a map of link states.\<close>

datatype lsdb_op = Add_Ls cr_lsdb_link_state | Update_Ls cr_lsdb_link_state

fun run_ops :: "u32 \<Rightarrow> lsdb_op list \<Rightarrow> lsdb \<Rightarrow> lsdb res" where
  "run_ops area [] db = Ok db"
| "run_ops area (Add_Ls d # ops) db = res_bind (cr_lsdb_link_state_add area d db) (\<lambda>(_, db', _). run_ops area ops db')"
| "run_ops area (Update_Ls d # ops) db = res_bind (cr_lsdb_link_state_update area d db) (\<lambda>(_, db', _). run_ops area ops db')"

fun abs_ops :: "lsdb_op list \<Rightarrow> (link_state_key \<rightharpoonup> cr_lsdb_link_state) \<Rightarrow> (link_state_key \<rightharpoonup> cr_lsdb_link_state) option" where
  "abs_ops [] m = Some m"
| "abs_ops (Add_Ls d # ops) m =
     (if rt_id (ls_key d) \<noteq> 0 \<and> m (ls_key d) = None then abs_ops ops (m(ls_key d \<mapsto> d)) else None)"
| "abs_ops (Update_Ls d # ops) m = (if m (ls_key d) \<noteq> None then abs_ops ops (m(ls_key d \<mapsto> d)) else None)"

lemma run_ops_refines:
  assumes "wf_lsdb db"
  shows "case abs_ops ops (lsdb_map db) of
      None \<Rightarrow> \<not> is_ok (run_ops area ops db)
    | Some m \<Rightarrow> \<exists>db'. run_ops area ops db = Ok db' \<and> wf_lsdb db' \<and> lsdb_map db' = m"
  using assms
proof (induction area ops db rule: run_ops.induct)
  case (1 area db)
  then show ?case by simp
next
  case (2 area d ops db)
  show ?case
  proof (cases "rt_id (ls_key d) \<noteq> 0 \<and> lsdb_map db (ls_key d) = None")
    case True
    then have "rt_id (ls_key d) \<noteq> 0" "lsdb_map db (ls_key d) = None" by auto
    from add_spec [OF 2(2) this, of area] obtain db' where
      "cr_lsdb_link_state_add area d db = Ok (NO_ERR, db', [create_lsdb_packet ADDLSA (lsdb_msg_create area d)])"
      and db': "wf_lsdb db'" "lsdb_map db' = (lsdb_map db)(ls_key d \<mapsto> d)" by blast
    then have "run_ops area (Add_Ls d # ops) db = run_ops area ops db'"
      "abs_ops (Add_Ls d # ops) (lsdb_map db) = abs_ops ops (lsdb_map db')" using True by simp_all
    then show ?thesis using 2(1) [OF db'(1)] by (simp only:)
  next
    case False
    then have "\<not> is_ok (cr_lsdb_link_state_add area d db)"
      using lsdb_map_eq [OF 2(2), of "ls_key d"] by (auto simp: cr_lsdb_link_state_add_def c_assert_def)
    with False show ?thesis by auto
  qed
next
  case (3 area d ops db)
  show ?case
  proof (cases "lsdb_map db (ls_key d) \<noteq> None")
    case True
    from update_spec [OF 3(2) this, of area] obtain db' where
      "cr_lsdb_link_state_update area d db = Ok (NO_ERR, db', [create_lsdb_packet UPDATELSA (lsdb_msg_create area d)])"
      and db': "wf_lsdb db'" "lsdb_map db' = (lsdb_map db)(ls_key d \<mapsto> d)" by blast
    then have "run_ops area (Update_Ls d # ops) db = run_ops area ops db'"
      "abs_ops (Update_Ls d # ops) (lsdb_map db) = abs_ops ops (lsdb_map db')" using True by simp_all
    then show ?thesis using 3(1) [OF db'(1)] by (simp only:)
  next
    case False
    then have "\<not> is_ok (cr_lsdb_link_state_update area d db)"
      using lsdb_map_eq [OF 3(2), of "ls_key d"] by (auto simp: cr_lsdb_link_state_update_def c_assert_def)
    with False show ?thesis by auto
  qed
qed

text \<open>
  C30. The database refines a map from keys to link states: a history of insertions and updates runs to
  the end exactly when every inserted key is new (and has a router) and every updated key is
  present, and then a search for any key returns what the map holds, which is also what the walk
  over all link states collects.
\<close>

theorem lsdb_refines_map:
  "case abs_ops ops Map.empty of
      None \<Rightarrow> \<not> is_ok (run_ops area ops cr_lsdb_init)
    | Some m \<Rightarrow> \<exists>db. run_ops area ops cr_lsdb_init = Ok db \<and> (\<forall>k. cr_lsdb_link_state_find k db = m k) \<and>
        set (snd (cr_lsdb_get_links_state db)) = ran m"
proof -
  have "lsdb_map cr_lsdb_init = Map.empty" using wf_lsdb_init(2) by (intro ext) simp
  with run_ops_refines [OF wf_lsdb_init(1), of area ops] show ?thesis
    by (auto simp: cr_lsdb_link_state_find_eq get_links_state_all split: option.splits)
qed

text \<open>
  Updating a link state the database does not hold writes through an uninitialised pointer: the copy
  is made whether or not the search succeeded.
\<close>

theorem update_missing_uninitialised:
  assumes "wf_lsdb db" "rt_id (ls_key d) \<noteq> 0" "cr_lsdb_link_state_find (ls_key d) db = None"
  shows "cr_lsdb_link_state_update area d db = Err UninitPointer"
  using assms by (simp add: cr_lsdb_link_state_update_def cr_lsdb_link_state_find_def)

definition sample_ls :: cr_lsdb_link_state where
  "sample_ls = \<lparr>ls_key = \<lparr>rt_id = 1, if_id = 2, n_rt_id = 3, n_if_id = 4\<rparr>, ls_addr = 0, ls_metric = 10, ls_state = 3,
     ls_seq = 7, ls_age = (0, 0)\<rparr>"

theorem update_missing_uninitialised_witness:
  "cr_lsdb_link_state_update 1 sample_ls cr_lsdb_init = Err UninitPointer"
  by (rule update_missing_uninitialised [OF wf_lsdb_init(1)])
     (simp_all add: sample_ls_def cr_lsdb_link_state_find_eq [OF wf_lsdb_init(1)] wf_lsdb_init(2))

lemma fill_adjacent_self:
  assumes "\<forall>d \<in> set ds. rt_id (ls_key d) = i" "i0 \<le> length arr" "\<forall>j < i0. arr ! j = int_of_u32 i"
    "fill_adjacent ds i0 arr = Ok (n, arr')"
  shows "length arr' = length arr \<and> (\<forall>j < n. arr' ! j = int_of_u32 i) \<and> n \<le> length arr"
  using assms
proof (induction ds i0 arr rule: fill_adjacent.induct)
  case (1 i arr)
  then show ?case by simp
next
  case (2 d ds i0 arr)
  then show ?case by (auto simp: nth_list_update less_Suc_eq split: if_splits)
qed

text \<open>
  \<^verbatim>\<open>cr_lsdb_find_adjacent_router\<close> stores the id of the router it was asked for once per connected link
  instead of the ids of the neighbours: before the terminator, every entry of the array is the
  router itself.
\<close>

theorem adjacent_router_is_itself:
  assumes "wf_lsdb db" "length arr = MAX_ADJ" "cr_lsdb_find_adjacent_router i arr db = Ok (r, arr')"
  shows "\<exists>n < MAX_ADJ. (\<forall>j < n. arr' ! j = int_of_u32 i) \<and> arr' ! n = - 1"
proof -
  let ?ds = "snd (cr_lsdb_get_backbone_links_state_by_router i db)"
  obtain n arr1 where f: "fill_adjacent ?ds 0 arr = Ok (n, arr1)" and n: "n < length arr1" "arr' = arr1[n := -1]"
    using assms(3) by (auto simp: cr_lsdb_find_adjacent_router_def res_simps split: if_splits)
  have "length arr1 = length arr \<and> (\<forall>j < n. arr1 ! j = int_of_u32 i) \<and> n \<le> length arr"
    using get_backbone_by_router [OF assms(1)] f by (intro fill_adjacent_self [of ?ds]) auto
  with n assms(2) show ?thesis by (intro exI [of _ n]) auto
qed

definition one_link_db :: lsdb where
  "one_link_db = the_ok (run_ops 1 [Add_Ls sample_ls] cr_lsdb_init)"

lemma one_link_db_wf: "wf_lsdb one_link_db"
proof -
  have "abs_ops [Add_Ls sample_ls] (lsdb_map cr_lsdb_init) = Some ((lsdb_map cr_lsdb_init)(ls_key sample_ls \<mapsto> sample_ls))"
    by (simp add: sample_ls_def wf_lsdb_init(2))
  with run_ops_refines [OF wf_lsdb_init(1), of 1 "[Add_Ls sample_ls]"] show ?thesis
    by (auto simp: one_link_db_def simp del: run_ops.simps abs_ops.simps)
qed

theorem adjacent_router_is_itself_witness:
  "\<exists>n < MAX_ADJ. (\<forall>j < n. [1, -1, 0, 0, 0, 0, 0, 0, 0, 0] ! j = int_of_u32 1) \<and>
     [1, -1, 0, 0, 0, 0, 0, 0, 0, 0] ! n = (-1 :: int)"
proof -
  have "cr_lsdb_find_adjacent_router 1 (replicate MAX_ADJ 0) one_link_db = Ok (0, [1, -1, 0, 0, 0, 0, 0, 0, 0, 0])"
    by code_simp
  from adjacent_router_is_itself [OF one_link_db_wf _ this] show ?thesis by simp
qed

end
