(* ===== verification/Cr_List.thy ===== *)
theory Cr_List
  imports Prelude
begin

text \<open>
  The intrusive circular list of \<^verbatim>\<open>utils/list.c\<close> at the level of its pointers: a heap of \<^verbatim>\<open>next\<close> and
  \<^verbatim>\<open>prev\<close> fields per node address (0 is \<^verbatim>\<open>NULL\<close>), the operations as the pointer assignments of the
  source in their order, and the proof that on a well-formed ring they are the list operations the
  rest of the development uses for chains.
\<close>

section \<open>Operations\<close>

record ring_heap =
  nxt :: "nat \<Rightarrow> nat"
  prv :: "nat \<Rightarrow> nat"

definition set_next :: "nat \<Rightarrow> nat \<Rightarrow> ring_heap \<Rightarrow> ring_heap" where
  "set_next p q h = h\<lparr>nxt := (nxt h)(p := q)\<rparr>"

definition set_prev :: "nat \<Rightarrow> nat \<Rightarrow> ring_heap \<Rightarrow> ring_heap" where
  "set_prev p q h = h\<lparr>prv := (prv h)(p := q)\<rparr>"

definition cr_init_list_head :: "nat \<Rightarrow> ring_heap \<Rightarrow> ring_heap" where
  "cr_init_list_head p h = set_prev p p (set_next p p h)"

text \<open>The pointer assignments of \<^verbatim>\<open>cr_list_add\<close>, \<^verbatim>\<open>cr_list_add_tail\<close> and \<^verbatim>\<open>cr_list_del\<close>, in their order;
  the operations themselves fail on the null pointers these would follow.\<close>

definition link_after :: "nat \<Rightarrow> nat \<Rightarrow> ring_heap \<Rightarrow> ring_heap" where
  "link_after new head h =
     (let next = nxt h head; h1 = set_next head new h; h2 = set_next new next h1;
          h3 = set_prev new head h2
      in set_prev next new h3)"

definition link_before :: "nat \<Rightarrow> nat \<Rightarrow> ring_heap \<Rightarrow> ring_heap" where
  "link_before new head h =
     (let prev = prv h head; h1 = set_prev head new h; h2 = set_prev new prev h1;
          h3 = set_next new head h2
      in set_next prev new h3)"

definition unlink :: "nat \<Rightarrow> ring_heap \<Rightarrow> ring_heap" where
  "unlink entry h =
     (let h1 = set_next (prv h entry) (nxt h entry) h; h2 = set_prev (nxt h1 entry) (prv h1 entry) h1;
          h3 = set_next entry 0 h2
      in set_prev entry 0 h3)"

definition cr_list_add :: "nat \<Rightarrow> nat \<Rightarrow> ring_heap \<Rightarrow> ring_heap res" where
  "cr_list_add new head h =
     (if head = 0 \<or> new = 0 \<or> nxt h head = 0 then Err NullDeref else Ok (link_after new head h))"

definition cr_list_add_tail :: "nat \<Rightarrow> nat \<Rightarrow> ring_heap \<Rightarrow> ring_heap res" where
  "cr_list_add_tail new head h =
     (if head = 0 \<or> new = 0 \<or> prv h head = 0 then Err NullDeref else Ok (link_before new head h))"

text \<open>The search loop of \<^verbatim>\<open>cr_list_add_in_order\<close>; it reads the key of the list head too when it gets
  there.  \<open>fuel\<close> bounds the rounds.\<close>

fun in_order_loop :: "nat \<Rightarrow> nat \<Rightarrow> int \<Rightarrow> (nat \<Rightarrow> int) \<Rightarrow> nat \<Rightarrow> ring_heap \<Rightarrow> nat res" where
  "in_order_loop 0 head key v ptr h = Err OutOfFuel"
| "in_order_loop (Suc fuel) head key v ptr h =
     (let ptr1 = nxt h ptr; key1 = v ptr1
      in if ptr = 0 then Err NullDeref
         else if key > key1 \<and> ptr1 \<noteq> head then in_order_loop fuel head key v ptr1 h else Ok ptr1)"

definition cr_list_add_in_order :: "nat \<Rightarrow> nat \<Rightarrow> nat \<Rightarrow> int \<Rightarrow> (nat \<Rightarrow> int) \<Rightarrow> ring_heap \<Rightarrow> ring_heap res" where
  "cr_list_add_in_order fuel new head key v h =
     res_bind (in_order_loop fuel head key v head h) (\<lambda>ptr. cr_list_add_tail new ptr h)"

definition cr_list_empty :: "nat \<Rightarrow> ring_heap \<Rightarrow> bool" where
  "cr_list_empty head h \<longleftrightarrow> nxt h head = head \<or> prv h head = head"

definition cr_list_del :: "nat \<Rightarrow> ring_heap \<Rightarrow> (int \<times> ring_heap) res" where
  "cr_list_del entry h =
     (if entry = 0 then Err NullDeref
      else if nxt h entry = entry \<or> prv h entry = entry then Ok (CONTAINER_EMPTY_ERR, h)
      else if prv h entry = 0 \<or> nxt h entry = 0 then Err NullDeref
      else Ok (NO_ERR, unlink entry h))"

text \<open>The stack: each allocated node remembers an item pointer; \<open>node\<close> is the address \<^verbatim>\<open>malloc_z\<close>
  returned.\<close>

type_synonym stack_heap = "ring_heap \<times> (nat \<Rightarrow> nat)"

definition cr_stack_push :: "nat \<Rightarrow> nat \<Rightarrow> nat \<Rightarrow> stack_heap \<Rightarrow> stack_heap res" where
  "cr_stack_push node item stack st =
     c_assert (item \<noteq> 0) (c_assert (stack \<noteq> 0)
       (if node = 0 then Err NullDeref
        else res_map (\<lambda>h. (h, (snd st)(node := item))) (cr_list_add node stack (fst st))))"

definition cr_stack_pop :: "nat \<Rightarrow> stack_heap \<Rightarrow> (nat \<times> stack_heap) res" where
  "cr_stack_pop stack st =
     c_assert (stack \<noteq> 0)
       (let item = nxt (fst st) stack
        in res_bind (cr_list_del item (fst st))
             (\<lambda>(r, h). Ok (if r = NO_ERR then (snd st item, h, (snd st)(item := 0)) else (0, st))))"

section \<open>Rings\<close>

fun chain :: "ring_heap \<Rightarrow> nat \<Rightarrow> nat list \<Rightarrow> nat \<Rightarrow> bool" where
  "chain h a [] b \<longleftrightarrow> nxt h a = b \<and> prv h b = a"
| "chain h a (x # xs) b \<longleftrightarrow> nxt h a = x \<and> prv h x = a \<and> chain h x xs b"

text \<open>\<open>ring h head xs\<close>: the list with head node \<open>head\<close> holds the nodes \<open>xs\<close>, first to last.\<close>

definition ring :: "ring_heap \<Rightarrow> nat \<Rightarrow> nat list \<Rightarrow> bool" where
  "ring h head xs \<longleftrightarrow> chain h head xs head \<and> distinct (0 # head # xs)"

lemma chain_append: "chain h a (xs @ y # ys) b \<longleftrightarrow> chain h a xs y \<and> chain h y ys b"
  by (induction xs arbitrary: a) auto

lemma chain_frame:
  assumes "chain h a xs b" "\<And>p. p \<in> set (a # xs) \<Longrightarrow> nxt h' p = nxt h p" "\<And>p. p \<in> set (xs @ [b]) \<Longrightarrow> prv h' p = prv h p"
  shows "chain h' a xs b"
  using assms by (induction xs arbitrary: a) auto

lemma ring_init: "p \<noteq> 0 \<Longrightarrow> ring (cr_init_list_head p h) p []"
  by (simp add: ring_def cr_init_list_head_def set_next_def set_prev_def)

lemma chain_first: "chain h a xs b \<Longrightarrow> nxt h a = hd (xs @ [b])"
  by (cases xs) auto

lemma chain_last: "chain h a xs b \<Longrightarrow> prv h b = last (a # xs)"
  by (induction xs arbitrary: a) auto

lemma link_after_ring:
  assumes "ring h head xs" "new \<notin> set (0 # head # xs)"
  shows "ring (link_after new head h) head (new # xs)"
proof -
  let ?h = "link_after new head h"
  have c: "chain h head xs head" and d: "distinct (head # xs)" using assms(1) by (auto simp: ring_def)
  have n: "nxt h head = hd (xs @ [head])" by (rule chain_first [OF c])
  have hn: "nxt ?h p = (if p = new then nxt h head else if p = head then new else nxt h p)"
    and hp: "prv ?h p = (if p = nxt h head then new else if p = new then head else prv h p)" for p
    using assms(2) by (auto simp: link_after_def Let_def set_next_def set_prev_def)
  have "chain ?h new xs head"
  proof (cases xs)
    case Nil
    then show ?thesis using n by (simp add: hn hp)
  next
    case (Cons x ys)
    then have "chain h x ys head" using c by simp
    then have "chain ?h x ys head"
      using d assms(2) n Cons by (rule_tac chain_frame) (auto simp: hn hp)
    with Cons n show ?thesis by (simp add: hn hp)
  qed
  moreover have "nxt ?h head = new" "prv ?h new = head"
    using assms(2) n d by (auto simp: hn hp hd_append split: if_splits)
  ultimately show ?thesis using assms d by (auto simp: ring_def)
qed

lemma insert_before_chain:
  assumes "chain h a xs b" "distinct (a # xs)" "b \<notin> set xs" "new \<notin> set (a # xs)" "new \<noteq> b"
  shows "chain (link_before new b h) a (xs @ [new]) b"
proof -
  let ?h = "link_before new b h" and ?p = "last (a # xs)"
  have l: "prv h b = ?p" by (rule chain_last [OF assms(1)])
  have hn: "nxt ?h p = (if p = ?p then new else if p = new then b else nxt h p)"
    and hp: "prv ?h p = (if p = new then ?p else if p = b then new else prv h p)" for p
    using l assms(5) by (auto simp: link_before_def Let_def set_next_def set_prev_def)
  have pin: "?p \<in> set (a # xs)" by (rule last_in_set) simp
  show ?thesis
  proof (cases xs rule: rev_cases)
    case Nil
    then show ?thesis using assms(4,5) by (auto simp: hn hp)
  next
    case (snoc ys y)
    then have "chain h a ys y" using assms(1) by (simp add: chain_append)
    then have "chain ?h a ys y"
      using assms(2-5) snoc by (rule_tac chain_frame) (auto simp: hn hp)
    moreover have "?p = y" using snoc by simp
    ultimately show ?thesis using snoc assms(4,5) pin by (auto simp: chain_append hn hp)
  qed
qed

lemma link_before_ring:
  assumes "ring h head (xs @ ys)" "new \<notin> set (0 # head # xs @ ys)" "ptr = hd (ys @ [head])"
  shows "ring (link_before new ptr h) head (xs @ new # ys)"
proof (cases ys)
  case Nil
  then show ?thesis using assms insert_before_chain [of h head xs head new] by (auto simp: ring_def)
next
  case (Cons y zs)
  have c: "chain h head xs y" "chain h y zs head" and d: "distinct (head # xs @ y # zs)"
    using assms(1) Cons by (auto simp: ring_def chain_append)
  let ?h = "link_before new y h"
  have "chain ?h head (xs @ [new]) y"
    using c(1) d assms(2) Cons by (intro insert_before_chain) auto
  moreover have "chain ?h y zs head"
  proof -
    have l: "prv h y = last (head # xs)" by (rule chain_last [OF c(1)])
    have "last (head # xs) \<in> set (head # xs)" by (rule last_in_set) simp
    then have ln: "last (head # xs) \<notin> set (y # zs)" using d by auto
    have hn: "nxt ?h p = nxt h p" if "p \<in> set (y # zs)" for p
      using that ln l assms(2) Cons by (auto simp: link_before_def Let_def set_next_def set_prev_def)
    have hp: "prv ?h p = prv h p" if "p \<in> set (zs @ [head])" for p
      using that d assms(2) Cons by (auto simp: link_before_def Let_def set_next_def set_prev_def)
    show ?thesis by (rule chain_frame [OF c(2) hn hp])
  qed
  ultimately have "chain ?h head (xs @ new # y # zs) head"
    using chain_append [of ?h head xs new "y # zs" head] by (simp add: chain_append)
  then show ?thesis using assms Cons d by (auto simp: ring_def)
qed

lemma cr_list_empty_ring: "ring h head xs \<Longrightarrow> cr_list_empty head h \<longleftrightarrow> xs = []"
proof -
  assume r: "ring h head xs"
  then have c: "chain h head xs head" "distinct (head # xs)" by (auto simp: ring_def)
  have "last (head # xs) \<in> set xs" if "xs \<noteq> []" using that by simp
  then show ?thesis
    using chain_first [OF c(1)] chain_last [OF c(1)] c(2) by (cases xs) (auto simp: cr_list_empty_def)
qed

lemma unlink_ring:
  assumes "ring h head (xs @ e # ys)"
  shows "cr_list_del e h = Ok (NO_ERR, unlink e h)" "ring (unlink e h) head (xs @ ys)"
proof -
  have c: "chain h head xs e" "chain h e ys head" and d: "distinct (head # xs @ e # ys)"
    using assms by (auto simp: ring_def chain_append)
  let ?p = "last (head # xs)" and ?q = "hd (ys @ [head])"
  have p: "prv h e = ?p" "nxt h e = ?q" using chain_last [OF c(1)] chain_first [OF c(2)] by auto
  have pin: "?p \<in> set (head # xs)" by (rule last_in_set) simp
  have qin: "?q \<in> set (ys @ [head])" by (cases ys) auto
  have ne: "?p \<noteq> e" "?q \<noteq> e" using pin qin d by auto
  have nz: "?p \<noteq> 0" "?q \<noteq> 0" "e \<noteq> 0" using pin qin assms by (auto simp: ring_def)
  show "cr_list_del e h = Ok (NO_ERR, unlink e h)" using p ne nz by (simp add: cr_list_del_def)
  let ?h = "unlink e h"
  have hn: "nxt ?h x = (if x = e then 0 else if x = ?p then ?q else nxt h x)"
    and hp: "prv ?h x = (if x = e then 0 else if x = ?q then ?p else prv h x)" for x
    using p ne by (auto simp: unlink_def Let_def set_next_def set_prev_def)
  show "ring ?h head (xs @ ys)"
  proof (cases ys)
    case Nil
    have "chain ?h head xs head"
    proof (cases xs rule: rev_cases)
      case Nil
      with \<open>ys = []\<close> ne show ?thesis by (auto simp: hn hp)
    next
      case (snoc zs z)
      then have "chain h head zs z" using c(1) by (simp add: chain_append)
      then have "chain ?h head zs z"
        using d snoc \<open>ys = []\<close> by (rule_tac chain_frame) (auto simp: hn hp)
      then show ?thesis using snoc \<open>ys = []\<close> ne d by (auto simp: chain_append hn hp)
    qed
    with d Nil assms show ?thesis by (simp add: ring_def)
  next
    case (Cons y zs)
    have "chain h y zs head" using c(2) Cons by simp
    then have "chain ?h y zs head"
      using d Cons pin by (rule_tac chain_frame) (auto simp: hn hp)
    moreover have "chain ?h head xs y"
    proof (cases xs rule: rev_cases)
      case Nil
      with Cons ne show ?thesis by (auto simp: hn hp)
    next
      case (snoc us u)
      then have "chain h head us u" using c(1) by (simp add: chain_append)
      then have "chain ?h head us u"
        using d snoc Cons by (rule_tac chain_frame) (auto simp: hn hp)
      then show ?thesis using snoc Cons ne d by (auto simp: chain_append hn hp)
    qed
    ultimately show ?thesis using d Cons assms by (simp add: ring_def chain_append)
  qed
qed

lemma ring_ends: "ring h head xs \<Longrightarrow> head \<noteq> 0 \<and> nxt h head \<noteq> 0 \<and> prv h head \<noteq> 0"
proof -
  assume r: "ring h head xs"
  then have c: "chain h head xs head" and d: "distinct (0 # head # xs)" by (auto simp: ring_def)
  have "hd (xs @ [head]) \<in> set (head # xs)" by (cases xs) auto
  moreover have "last (head # xs) \<in> set (head # xs)" by (rule last_in_set) simp
  ultimately have "nxt h head \<in> set (head # xs)" "prv h head \<in> set (head # xs)"
    by (simp_all only: chain_first [OF c] chain_last [OF c])
  moreover have "0 \<notin> set (head # xs)" using d by simp
  ultimately show ?thesis by (metis list.set_intros(1))
qed

lemma in_order_loop_ring:
  assumes "chain h a xs head" "distinct (0 # a # xs)" "head \<notin> set xs" "length xs < fuel"
  shows "in_order_loop fuel head key v a h = Ok (hd (dropWhile (\<lambda>x. v x < key) xs @ [head]))"
  using assms
proof (induction xs arbitrary: a fuel)
  case Nil
  then show ?case by (cases fuel) (auto simp: Let_def)
next
  case (Cons x xs)
  then show ?case by (cases fuel) (auto simp: Let_def)
qed

lemma link_after_ok: "ring h head xs \<Longrightarrow> new \<noteq> 0 \<Longrightarrow> cr_list_add new head h = Ok (link_after new head h)"
  using ring_ends [of h head xs] by (simp add: cr_list_add_def)

section \<open>The operations are list operations\<close>

text \<open>
  C31. On a ring of distinct nodes, for a new node outside it: \<^verbatim>\<open>cr_list_add\<close> puts the node first,
  \<^verbatim>\<open>cr_list_add_tail\<close> last, \<^verbatim>\<open>cr_list_empty\<close> tells whether the list is empty, and \<^verbatim>\<open>cr_list_del\<close> takes any
  member out, keeping the order of the others; none of them follows a null pointer.\<close>

theorem cr_list_refines_list:
  assumes "ring h head xs" "new \<notin> set (0 # head # xs)"
  shows "(\<exists>h1. cr_list_add new head h = Ok h1 \<and> ring h1 head (new # xs)) \<and>
    (\<exists>h2. cr_list_add_tail new head h = Ok h2 \<and> ring h2 head (xs @ [new])) \<and>
    (cr_list_empty head h \<longleftrightarrow> xs = []) \<and>
    (\<forall>e. e \<in> set xs \<longrightarrow> (\<exists>h3. cr_list_del e h = Ok (NO_ERR, h3) \<and> ring h3 head (remove1 e xs)))"
proof (intro conjI allI impI)
  show "\<exists>h1. cr_list_add new head h = Ok h1 \<and> ring h1 head (new # xs)"
    using link_after_ok [OF assms(1)] link_after_ring [OF assms] assms(2) by auto
  show "\<exists>h2. cr_list_add_tail new head h = Ok h2 \<and> ring h2 head (xs @ [new])"
    using link_before_ring [of h head xs "[]" new head] ring_ends [OF assms(1)] assms
    by (auto simp: cr_list_add_tail_def)
  show "cr_list_empty head h \<longleftrightarrow> xs = []" by (rule cr_list_empty_ring [OF assms(1)])
next
  fix e
  assume "e \<in> set xs"
  then obtain us vs where xs: "xs = us @ e # vs" by (auto simp: in_set_conv_decomp)
  moreover from this assms(1) have "e \<notin> set us" by (auto simp: ring_def)
  ultimately show "\<exists>h3. cr_list_del e h = Ok (NO_ERR, h3) \<and> ring h3 head (remove1 e xs)"
    using unlink_ring [of h head us e vs] assms(1) by (auto simp: remove1_append)
qed

text \<open>
  On a ring sorted by key, with enough rounds for its length, \<^verbatim>\<open>cr_list_add_in_order\<close> returns and puts
  the new node behind the smaller keys and before the others, so the ring stays sorted; the key read
  from the list head does not matter.\<close>

theorem cr_list_add_in_order_sorted:
  assumes "ring h head xs" "new \<notin> set (0 # head # xs)" "sorted (map v xs)" "v new = key" "length xs < fuel"
  shows "\<exists>h' ys. cr_list_add_in_order fuel new head key v h = Ok h' \<and> ring h' head ys \<and>
    ys = takeWhile (\<lambda>x. v x < key) xs @ new # dropWhile (\<lambda>x. v x < key) xs \<and> sorted (map v ys)"
proof -
  define us vs where uv: "us = takeWhile (\<lambda>x. v x < key) xs" "vs = dropWhile (\<lambda>x. v x < key) xs"
  have xs: "xs = us @ vs" by (simp add: uv)
  let ?ptr = "hd (vs @ [head])"
  have loop: "in_order_loop fuel head key v head h = Ok ?ptr"
    using in_order_loop_ring [of h head xs head fuel key v] assms(1,5) by (auto simp: ring_def uv)
  have p: "prv h ?ptr \<noteq> 0 \<and> ?ptr \<noteq> 0"
  proof (cases vs)
    case Nil
    then show ?thesis using ring_ends [OF assms(1)] by simp
  next
    case (Cons y zs)
    with xs assms(1) have "chain h head us y" and d: "0 \<notin> set (head # us)" "y \<noteq> 0"
      by (auto simp: ring_def chain_append)
    then have "prv h y = last (head # us)" by (intro chain_last)
    moreover have "last (head # us) \<in> set (head # us)" by (rule last_in_set) simp
    ultimately have "prv h y \<noteq> 0" using d(1) by metis
    with Cons d(2) show ?thesis by simp
  qed
  have r: "ring (link_before new ?ptr h) head (us @ new # vs)"
    using link_before_ring [of h head us vs new ?ptr] assms(1,2) xs by simp
  have lo: "\<forall>x\<in>set us. v x \<le> key" using uv by (auto dest: set_takeWhileD)
  have hi: "\<forall>x\<in>set vs. key \<le> v x"
  proof (cases vs)
    case (Cons y zs)
    then have "\<not> v y < key" using uv(2) by (metis dropWhile_eq_Cons_conv)
    with Cons xs assms(3) show ?thesis by (auto simp: sorted_append intro: order_trans)
  qed simp
  have "sorted (map v (us @ new # vs))"
    using assms(3,4) xs lo hi by (auto simp: sorted_append intro: order_trans)
  moreover have "cr_list_add_in_order fuel new head key v h = Ok (link_before new ?ptr h)"
    using loop p assms(2) by (simp add: cr_list_add_in_order_def cr_list_add_tail_def)
  ultimately show ?thesis using r uv by auto
qed

text \<open>\<open>stack_items st stack items\<close>: the stack holds \<open>items\<close>, the top first.\<close>

definition stack_items :: "stack_heap \<Rightarrow> nat \<Rightarrow> nat list \<Rightarrow> bool" where
  "stack_items st stack items \<longleftrightarrow> (\<exists>xs. ring (fst st) stack xs \<and> map (snd st) xs = items)"

lemma stack_itemsI: "ring h stack xs \<Longrightarrow> map f xs = items \<Longrightarrow> stack_items (h, f) stack items"
  by (auto simp: stack_items_def)

lemma cr_stack_pop_items:
  assumes "stack_items st stack items"
  shows "\<exists>st'. cr_stack_pop stack st = Ok (case items of [] \<Rightarrow> 0 | i # is \<Rightarrow> i, st') \<and> stack_items st' stack (tl items)"
proof -
  obtain xs where r: "ring (fst st) stack xs" and m: "map (snd st) xs = items" using assms by (auto simp: stack_items_def)
  have e: "stack \<noteq> 0" using ring_ends [OF r] by simp
  show ?thesis
  proof (cases xs)
    case Nil
    then have "nxt (fst st) stack = stack" using r by (simp add: ring_def)
    with e Nil m r assms show ?thesis by (auto simp: cr_stack_pop_def cr_list_del_def err_code_defs)
  next
    case (Cons x ys)
    then have x: "nxt (fst st) stack = x" and nx: "x \<notin> set ys" using r by (auto simp: ring_def)
    have u: "cr_list_del x (fst st) = Ok (NO_ERR, unlink x (fst st))" "ring (unlink x (fst st)) stack ys"
      using unlink_ring [of "fst st" stack "[]" x ys] r Cons by auto
    have "map ((snd st)(x := 0)) ys = tl items" using m Cons nx by auto
    with u(2) have "stack_items (unlink x (fst st), (snd st)(x := 0)) stack (tl items)" by (rule stack_itemsI)
    with u(1) e x Cons m show ?thesis by (auto simp: cr_stack_pop_def)
  qed
qed

text \<open>
  The stack is last in, first out: pushing an item with a fresh node returns, and the following
  pop returns that item and leaves the stack as it was before; popping an empty stack returns a null
  pointer and leaves it empty.\<close>

theorem cr_stack_lifo:
  assumes "ring (fst st) stack xs" "node \<notin> set (0 # stack # xs)" "map (snd st) xs = items" "item \<noteq> 0"
  shows "\<exists>st1 st2. cr_stack_push node item stack st = Ok st1 \<and> stack_items st1 stack (item # items) \<and>
      cr_stack_pop stack st1 = Ok (item, st2) \<and> stack_items st2 stack items \<and>
      (items = [] \<longrightarrow> (\<exists>st3. cr_stack_pop stack st = Ok (0, st3) \<and> stack_items st3 stack []))"
proof -
  let ?st1 = "(link_after node stack (fst st), (snd st)(node := item))"
  have e: "stack \<noteq> 0" using ring_ends [OF assms(1)] by simp
  have "map ((snd st)(node := item)) (node # xs) = item # items" using assms(2,3) by auto
  then have s1: "stack_items ?st1 stack (item # items)" by (rule stack_itemsI [OF link_after_ring [OF assms(1,2)]])
  have "cr_stack_push node item stack st = Ok ?st1"
    using e assms(2,4) link_after_ok [OF assms(1), of node] by (simp add: cr_stack_push_def)
  moreover obtain st2 where "cr_stack_pop stack ?st1 = Ok (item, st2)" "stack_items st2 stack items"
    using cr_stack_pop_items [OF s1] by auto
  moreover have "stack_items st stack items" using assms(1,3) by (auto simp: stack_items_def)
  moreover have "\<exists>st3. cr_stack_pop stack st = Ok (0, st3) \<and> stack_items st3 stack []" if "items = []"
    using cr_stack_pop_items [of st stack items] \<open>stack_items st stack items\<close> that by simp
  ultimately show ?thesis using s1
    by (rule_tac x = "?st1" in exI, rule_tac x = st2 in exI) simp
qed

section \<open>Witnesses\<close>

definition sample_ring :: ring_heap where
  "sample_ring = link_after 3 1 (link_after 5 1 (cr_init_list_head 1 \<lparr>nxt = (\<lambda>_. 0), prv = (\<lambda>_. 0)\<rparr>))"

lemma sample_ring_ok: "ring sample_ring 1 [3, 5]"
  unfolding sample_ring_def by (intro link_after_ring ring_init) auto

theorem cr_list_refines_list_witness: "\<exists>h3. cr_list_del 5 sample_ring = Ok (NO_ERR, h3) \<and> ring h3 1 [3]"
  using cr_list_refines_list [OF sample_ring_ok, of 4] by auto

theorem cr_list_add_in_order_sorted_witness:
  "\<exists>h'. cr_list_add_in_order 3 4 1 4 int sample_ring = Ok h' \<and> ring h' 1 [3, 4, 5]"
  using cr_list_add_in_order_sorted [OF sample_ring_ok, of 4 int 4 3] by simp

theorem cr_stack_lifo_witness:
  "\<exists>st1 st2. cr_stack_push 4 9 1 (sample_ring, \<lambda>x. x) = Ok st1 \<and> cr_stack_pop 1 st1 = Ok (9, st2) \<and> stack_items st2 1 [3, 5]"
  using cr_stack_lifo [of "(sample_ring, \<lambda>x. x)" 1 "[3, 5]" 4 "[3, 5]" 9] sample_ring_ok by auto

end
