(* ===== verification/Thread_Pool.thy ===== *)
theory Thread_Pool
  imports Prelude
begin

text \<open>
  The event loop of \<^verbatim>\<open>lib/thread.c\<close>.  A \<^verbatim>\<open>struct thread\<close> is a slot of the pool and a thread list is the list
  of its slots from head to tail; slots are recycled through the list of unused ones, so a pointer to
  a thread that has run may later name another one.  \<^verbatim>\<open>func\<close> and \<^verbatim>\<open>arg\<close> are values of type parameters.
  The time of day and the answers of \<^verbatim>\<open>select\<close> are arguments.  Deleting a slot from a list that
  does not hold it would corrupt the list and is the error \<open>UseAfterFree\<close>.
\<close>

section \<open>Times\<close>

type_synonym timeval = "int \<times> int"        \<comment> \<open>\<^verbatim>\<open>tv_sec\<close>, \<^verbatim>\<open>tv_usec\<close>\<close>

definition TIMER_SECOND_MICRO :: int where "TIMER_SECOND_MICRO = 1000000"

function adjust_down :: "timeval \<Rightarrow> timeval" where
  "adjust_down a = (if snd a \<ge> TIMER_SECOND_MICRO then adjust_down (fst a + 1, snd a - TIMER_SECOND_MICRO) else a)"
  by pat_completeness auto
termination by (relation "measure (\<lambda>a. nat (snd a))") (auto simp: TIMER_SECOND_MICRO_def)

function adjust_up :: "timeval \<Rightarrow> timeval" where
  "adjust_up a = (if snd a < 0 then adjust_up (fst a - 1, snd a + TIMER_SECOND_MICRO) else a)"
  by pat_completeness auto
termination by (relation "measure (\<lambda>a. nat (- snd a))") (auto simp: TIMER_SECOND_MICRO_def)

declare adjust_down.simps [simp del] adjust_up.simps [simp del]

definition timeval_adjust :: "timeval \<Rightarrow> timeval" where
  "timeval_adjust a =
     (let b = adjust_up (adjust_down a);
          c = (if fst b < 0 then (0, 10) else b)
      in if fst c > TIMER_SECOND_MICRO then (TIMER_SECOND_MICRO, snd c) else c)"

definition timeval_subtract :: "timeval \<Rightarrow> timeval \<Rightarrow> timeval" where
  "timeval_subtract a b = timeval_adjust (fst a - fst b, snd a - snd b)"

text \<open>The difference is a \<^verbatim>\<open>long\<close> returned as an \<^verbatim>\<open>int\<close>.\<close>

definition timeval_cmp :: "timeval \<Rightarrow> timeval \<Rightarrow> int" where
  "timeval_cmp a b = int_of_u32 (word_of_int (if fst a = fst b then snd a - snd b else fst a - fst b))"

section \<open>Threads and lists\<close>

datatype thread_type = THREAD_READ | THREAD_WRITE | THREAD_TIMER | THREAD_EVENT | THREAD_READY | THREAD_UNUSED

text \<open>The members of the union \<^verbatim>\<open>u\<close> are separate fields: each type reads the one it has written.\<close>

record ('f, 'a) thread =
  th_type :: thread_type
  th_func :: 'f
  th_arg :: 'a
  th_val :: int
  th_fd :: nat
  th_sands :: timeval

record ('f, 'a) thread_master =
  m_read :: "nat list"
  m_write :: "nat list"
  m_timer :: "nat list"
  m_event :: "nat list"
  m_ready :: "nat list"
  m_unuse :: "nat list"
  m_readfd :: "nat set"
  m_writefd :: "nat set"
  m_alloc :: nat
  m_pool :: "('f, 'a) thread list"

definition thread_master_create :: "('f, 'a) thread_master" where
  "thread_master_create = \<lparr>m_read = [], m_write = [], m_timer = [], m_event = [], m_ready = [], m_unuse = [],
     m_readfd = {}, m_writefd = {}, m_alloc = 0, m_pool = []\<rparr>"

definition thread_list_add :: "nat list \<Rightarrow> nat \<Rightarrow> nat list" where
  "thread_list_add l t = l @ [t]"

definition thread_list_add_before :: "nat list \<Rightarrow> nat \<Rightarrow> nat \<Rightarrow> nat list" where
  "thread_list_add_before l point t = takeWhile (\<lambda>x. x \<noteq> point) l @ t # dropWhile (\<lambda>x. x \<noteq> point) l"

definition thread_list_delete :: "nat list \<Rightarrow> nat \<Rightarrow> nat list res" where
  "thread_list_delete l t = (if t \<in> set l then Ok (remove1 t l) else Err UseAfterFree)"

definition set_type :: "nat \<Rightarrow> thread_type \<Rightarrow> ('f, 'a) thread_master \<Rightarrow> ('f, 'a) thread_master" where
  "set_type t ty m = m\<lparr>m_pool := (m_pool m)[t := (m_pool m ! t)\<lparr>th_type := ty\<rparr>]\<rparr>"

text \<open>
  The pointers \<^verbatim>\<open>next\<close> and \<^verbatim>\<open>prev\<close> of a thread: one of them is not null exactly if the thread is in a list with at least
  one other; a deletion sets both to null.
\<close>

definition linked :: "nat \<Rightarrow> ('f, 'a) thread_master \<Rightarrow> bool" where
  "linked t m \<longleftrightarrow> list_ex (\<lambda>l. t \<in> set l \<and> 1 < length l) [m_read m, m_write m, m_timer m, m_event m, m_ready m, m_unuse m]"

definition thread_add_unuse :: "nat \<Rightarrow> ('f, 'a) thread_master \<Rightarrow> ('f, 'a) thread_master res" where
  "thread_add_unuse t m =
     c_assert (\<not> linked t m) (c_assert (th_type (m_pool m ! t) = THREAD_UNUSED) (Ok (m\<lparr>m_unuse := thread_list_add (m_unuse m) t\<rparr>)))"

definition thread_trim_head :: "nat list \<Rightarrow> (nat \<times> nat list) option" where
  "thread_trim_head l = (case l of [] \<Rightarrow> None | t # ts \<Rightarrow> Some (t, ts))"

definition thread_empty :: "nat list \<Rightarrow> bool" where
  "thread_empty l \<longleftrightarrow> l = []"

definition thread_get ::
  "thread_type \<Rightarrow> 'f \<Rightarrow> 'a \<Rightarrow> ('f, 'a) thread_master \<Rightarrow> nat \<times> ('f, 'a) thread_master" where
  "thread_get ty func arg m =
     (let new = \<lparr>th_type = THREAD_READ, th_func = func, th_arg = arg, th_val = 0, th_fd = 0, th_sands = (0, 0)\<rparr>;
          (t, m1) = (case thread_trim_head (m_unuse m) of
             Some (t, ts) \<Rightarrow> (t, m\<lparr>m_unuse := ts\<rparr>)
           | None \<Rightarrow> (length (m_pool m), m\<lparr>m_pool := m_pool m @ [new], m_alloc := m_alloc m + 1\<rparr>))
      in (t, m1\<lparr>m_pool := (m_pool m1)[t := (m_pool m1 ! t)\<lparr>th_type := ty, th_func := func, th_arg := arg\<rparr>]\<rparr>))"

section \<open>Adding and cancelling\<close>

definition thread_add_read :: "'f \<Rightarrow> 'a \<Rightarrow> nat \<Rightarrow> ('f, 'a) thread_master \<Rightarrow> nat option \<times> ('f, 'a) thread_master" where
  "thread_add_read func arg fd m =
     (if fd \<in> m_readfd m then (None, m)
      else let (t, m1) = thread_get THREAD_READ func arg m
           in (Some t, m1\<lparr>m_readfd := insert fd (m_readfd m1),
                 m_pool := (m_pool m1)[t := (m_pool m1 ! t)\<lparr>th_fd := fd\<rparr>],
                 m_read := thread_list_add (m_read m1) t\<rparr>))"

definition thread_add_write :: "'f \<Rightarrow> 'a \<Rightarrow> nat \<Rightarrow> ('f, 'a) thread_master \<Rightarrow> nat option \<times> ('f, 'a) thread_master" where
  "thread_add_write func arg fd m =
     (if fd \<in> m_writefd m then (None, m)
      else let (t, m1) = thread_get THREAD_WRITE func arg m
           in (Some t, m1\<lparr>m_writefd := insert fd (m_writefd m1),
                 m_pool := (m_pool m1)[t := (m_pool m1 ! t)\<lparr>th_fd := fd\<rparr>],
                 m_write := thread_list_add (m_write m1) t\<rparr>))"

definition deadline :: "timeval \<Rightarrow> nat \<Rightarrow> timeval" where
  "deadline now us =
     (let usec = snd now + int us mod TIMER_SECOND_MICRO
      in (fst now + (int us div TIMER_SECOND_MICRO + usec div TIMER_SECOND_MICRO), usec mod TIMER_SECOND_MICRO))"

definition thread_add_timer_high_resolution ::
  "timeval \<Rightarrow> 'f \<Rightarrow> 'a \<Rightarrow> nat \<Rightarrow> ('f, 'a) thread_master \<Rightarrow> nat \<times> ('f, 'a) thread_master" where
  "thread_add_timer_high_resolution now func arg us m =
     (let (t, m1) = thread_get THREAD_TIMER func arg m;
          sands = deadline now us;
          m2 = m1\<lparr>m_pool := (m_pool m1)[t := (m_pool m1 ! t)\<lparr>th_sands := sands\<rparr>]\<rparr>
      in (t, m2\<lparr>m_timer :=
            (case find (\<lambda>tt. timeval_cmp sands (th_sands (m_pool m2 ! tt)) \<le> 0) (m_timer m2) of
               Some tt \<Rightarrow> thread_list_add_before (m_timer m2) tt t
             | None \<Rightarrow> thread_list_add (m_timer m2) t)\<rparr>))"

definition thread_add_timer ::
  "timeval \<Rightarrow> 'f \<Rightarrow> 'a \<Rightarrow> int \<Rightarrow> ('f, 'a) thread_master \<Rightarrow> nat \<times> ('f, 'a) thread_master" where
  "thread_add_timer now func arg sec m =
     thread_add_timer_high_resolution now func arg (unat (word_of_int (sec * TIMER_SECOND_MICRO) :: u64)) m"

definition thread_add_event :: "'f \<Rightarrow> 'a \<Rightarrow> int \<Rightarrow> ('f, 'a) thread_master \<Rightarrow> nat \<times> ('f, 'a) thread_master" where
  "thread_add_event func arg val m =
     (let (t, m1) = thread_get THREAD_EVENT func arg m
      in (t, m1\<lparr>m_pool := (m_pool m1)[t := (m_pool m1 ! t)\<lparr>th_val := val\<rparr>],
               m_event := thread_list_add (m_event m1) t\<rparr>))"

definition thread_retire :: "nat \<Rightarrow> ('f, 'a) thread_master \<Rightarrow> ('f, 'a) thread_master res" where
  "thread_retire t m = thread_add_unuse t (set_type t THREAD_UNUSED m)"

definition thread_cancel :: "nat \<Rightarrow> ('f, 'a) thread_master \<Rightarrow> ('f, 'a) thread_master res" where
  "thread_cancel t m =
     (let th = m_pool m ! t
      in case th_type th of
           THREAD_READ \<Rightarrow> c_assert (th_fd th \<in> m_readfd m)
             (res_bind (thread_list_delete (m_read m) t)
                (\<lambda>l. thread_retire t (m\<lparr>m_readfd := m_readfd m - {th_fd th}, m_read := l\<rparr>)))
         | THREAD_WRITE \<Rightarrow> c_assert (th_fd th \<in> m_writefd m)
             (res_bind (thread_list_delete (m_write m) t)
                (\<lambda>l. thread_retire t (m\<lparr>m_writefd := m_writefd m - {th_fd th}, m_write := l\<rparr>)))
         | THREAD_TIMER \<Rightarrow> res_bind (thread_list_delete (m_timer m) t) (\<lambda>l. thread_retire t (m\<lparr>m_timer := l\<rparr>))
         | THREAD_EVENT \<Rightarrow> res_bind (thread_list_delete (m_event m) t) (\<lambda>l. thread_retire t (m\<lparr>m_event := l\<rparr>))
         | THREAD_READY \<Rightarrow> res_bind (thread_list_delete (m_ready m) t) (\<lambda>l. thread_retire t (m\<lparr>m_ready := l\<rparr>))
         | THREAD_UNUSED \<Rightarrow> Ok m)"

text \<open>\<^verbatim>\<open>THREAD_OFF\<close> on a pointer that may be null; the pointer is null afterwards.\<close>

definition THREAD_OFF :: "nat option \<Rightarrow> ('f, 'a) thread_master \<Rightarrow> ('f, 'a) thread_master res" where
  "THREAD_OFF ptr m = (case ptr of None \<Rightarrow> Ok m | Some t \<Rightarrow> thread_cancel t m)"

definition thread_cancel_event :: "'a \<Rightarrow> ('f, 'a) thread_master \<Rightarrow> ('f, 'a) thread_master res" where
  "thread_cancel_event arg m =
     res_for (\<lambda>t m. if th_arg (m_pool m ! t) = arg
                    then res_bind (thread_list_delete (m_event m) t) (\<lambda>l. thread_retire t (m\<lparr>m_event := l\<rparr>))
                    else Ok m) (m_event m) m"

section \<open>Fetching\<close>

definition thread_timer_wait :: "timeval \<Rightarrow> ('f, 'a) thread_master \<Rightarrow> timeval option" where
  "thread_timer_wait now m =
     (case m_timer m of
        [] \<Rightarrow> None
      | t # _ \<Rightarrow> (let v = timeval_subtract (th_sands (m_pool m ! t)) now
                  in Some (if fst v < 0 then (0, 10) else v)))"

definition thread_run ::
  "nat \<Rightarrow> ('f, 'a) thread_master \<Rightarrow> (('f, 'a) thread option \<times> ('f, 'a) thread_master) res" where
  "thread_run t m = res_map (\<lambda>m'. (Some (m_pool m ! t), m')) (thread_retire t m)"

definition process_read :: "nat set \<Rightarrow> ('f, 'a) thread_master \<Rightarrow> ('f, 'a) thread_master res" where
  "process_read fds m =
     res_for (\<lambda>t m. let fd = th_fd (m_pool m ! t)
        in if fd \<in> fds
           then c_assert (fd \<in> m_readfd m)
                  (res_map (\<lambda>l. set_type t THREAD_READY (m\<lparr>m_readfd := m_readfd m - {fd}, m_read := l,
                                  m_ready := thread_list_add (m_ready m) t\<rparr>))
                     (thread_list_delete (m_read m) t))
           else Ok m) (m_read m) m"

definition process_write :: "nat set \<Rightarrow> ('f, 'a) thread_master \<Rightarrow> ('f, 'a) thread_master res" where
  "process_write fds m =
     res_for (\<lambda>t m. let fd = th_fd (m_pool m ! t)
        in if fd \<in> fds
           then c_assert (fd \<in> m_writefd m)
                  (res_map (\<lambda>l. set_type t THREAD_READY (m\<lparr>m_writefd := m_writefd m - {fd}, m_write := l,
                                  m_ready := thread_list_add (m_ready m) t\<rparr>))
                     (thread_list_delete (m_write m) t))
           else Ok m) (m_write m) m"

text \<open>What \<^verbatim>\<open>select\<close> answers: a time-out or an interrupt (both go round the loop again), another error, or
  the descriptors that are ready.\<close>

datatype select_result = Sel_Again | Sel_Error | Sel_Ready "nat set" "nat set"

fun fetch_loop ::
  "(timeval \<times> select_result) list \<Rightarrow> ('f, 'a) thread_master \<Rightarrow> (('f, 'a) thread option \<times> ('f, 'a) thread_master) res" where
  "fetch_loop [] m = Err OutOfFuel"
| "fetch_loop ((now, sel) # env) m =
     (case thread_trim_head (m_event m) of
        Some (t, ts) \<Rightarrow> thread_run t (m\<lparr>m_event := ts\<rparr>)
      | None \<Rightarrow>
        (case find (\<lambda>t. timeval_cmp now (th_sands (m_pool m ! t)) \<ge> 0) (m_timer m) of
           Some t \<Rightarrow> res_bind (thread_list_delete (m_timer m) t) (\<lambda>l. thread_run t (m\<lparr>m_timer := l\<rparr>))
         | None \<Rightarrow>
           (case thread_trim_head (m_ready m) of
              Some (t, ts) \<Rightarrow> thread_run t (m\<lparr>m_ready := ts\<rparr>)
            | None \<Rightarrow>
              (case sel of
                 Sel_Again \<Rightarrow> fetch_loop env m
               | Sel_Error \<Rightarrow> Ok (None, m)
               | Sel_Ready rd wr \<Rightarrow>
                   res_bind (process_read (rd \<inter> m_readfd m) m)
                     (\<lambda>m1. res_bind (process_write (wr \<inter> m_writefd m) m1)
                       (\<lambda>m2. case thread_trim_head (m_ready m2) of
                          Some (t, ts) \<Rightarrow> thread_run t (m2\<lparr>m_ready := ts\<rparr>)
                        | None \<Rightarrow> fetch_loop env m2))))))"

definition thread_fetch ::
  "(timeval \<times> select_result) list \<Rightarrow> ('f, 'a) thread_master \<Rightarrow> (('f, 'a) thread option \<times> ('f, 'a) thread_master) res" where
  "thread_fetch env m =
     (if thread_empty (m_event m) \<and> thread_empty (m_read m) \<and> thread_empty (m_ready m) \<and> thread_empty (m_timer m) \<and>
         thread_empty (m_write m)
      then Ok (None, m) else fetch_loop env m)"

section \<open>Well-formed masters\<close>

text \<open>The list a thread of each type is in.\<close>

primrec list_of :: "thread_type \<Rightarrow> ('f, 'a) thread_master \<Rightarrow> nat list" where
  "list_of THREAD_READ m = m_read m"
| "list_of THREAD_WRITE m = m_write m"
| "list_of THREAD_TIMER m = m_timer m"
| "list_of THREAD_EVENT m = m_event m"
| "list_of THREAD_READY m = m_ready m"
| "list_of THREAD_UNUSED m = m_unuse m"

lemma list_of_frame [simp]:
  "list_of ty (m\<lparr>m_pool := p\<rparr>) = list_of ty m" "list_of ty (m\<lparr>m_alloc := n\<rparr>) = list_of ty m"
  "list_of ty (m\<lparr>m_readfd := fds\<rparr>) = list_of ty m" "list_of ty (m\<lparr>m_writefd := fds\<rparr>) = list_of ty m"
  by (cases ty; simp)+

lemma list_of_upd [simp]:
  "list_of ty (m\<lparr>m_read := l\<rparr>) = (if ty = THREAD_READ then l else list_of ty m)"
  "list_of ty (m\<lparr>m_write := l\<rparr>) = (if ty = THREAD_WRITE then l else list_of ty m)"
  "list_of ty (m\<lparr>m_timer := l\<rparr>) = (if ty = THREAD_TIMER then l else list_of ty m)"
  "list_of ty (m\<lparr>m_event := l\<rparr>) = (if ty = THREAD_EVENT then l else list_of ty m)"
  "list_of ty (m\<lparr>m_ready := l\<rparr>) = (if ty = THREAD_READY then l else list_of ty m)"
  "list_of ty (m\<lparr>m_unuse := l\<rparr>) = (if ty = THREAD_UNUSED then l else list_of ty m)"
  by (cases ty; simp)+

text \<open>Every slot outside \<open>X\<close> is exactly in the list of its type; the slots of \<open>X\<close> are in none.\<close>

definition wf_lists :: "nat set \<Rightarrow> ('f, 'a) thread_master \<Rightarrow> bool" where
  "wf_lists X m \<longleftrightarrow> (\<forall>ty. distinct (list_of ty m)) \<and> X \<subseteq> {..<length (m_pool m)} \<and> m_alloc m = length (m_pool m) \<and>
     (\<forall>ty t. t \<in> set (list_of ty m) \<longleftrightarrow> t < length (m_pool m) \<and> th_type (m_pool m ! t) = ty \<and> t \<notin> X)"

definition tv_ok :: "timeval \<Rightarrow> bool" where
  "tv_ok a \<longleftrightarrow> 0 \<le> fst a \<and> fst a < 2 ^ 31 \<and> 0 \<le> snd a \<and> snd a < TIMER_SECOND_MICRO"

definition tv_le :: "timeval \<Rightarrow> timeval \<Rightarrow> bool" where
  "tv_le a b \<longleftrightarrow> fst a < fst b \<or> fst a = fst b \<and> snd a \<le> snd b"

abbreviation sands :: "('f, 'a) thread_master \<Rightarrow> nat \<Rightarrow> timeval" where
  "sands m t \<equiv> th_sands (m_pool m ! t)"

abbreviation fd_of :: "('f, 'a) thread_master \<Rightarrow> nat \<Rightarrow> nat" where
  "fd_of m t \<equiv> th_fd (m_pool m ! t)"

definition wf_fds :: "('f, 'a) thread_master \<Rightarrow> bool" where
  "wf_fds m \<longleftrightarrow> distinct (map (fd_of m) (m_read m)) \<and> m_readfd m = set (map (fd_of m) (m_read m)) \<and>
     distinct (map (fd_of m) (m_write m)) \<and> m_writefd m = set (map (fd_of m) (m_write m))"

definition wf_timers :: "('f, 'a) thread_master \<Rightarrow> bool" where
  "wf_timers m \<longleftrightarrow> sorted_wrt tv_le (map (sands m) (m_timer m)) \<and> (\<forall>t \<in> set (m_timer m). tv_ok (sands m t))"

definition wf_master :: "('f, 'a) thread_master \<Rightarrow> bool" where
  "wf_master m \<longleftrightarrow> wf_lists {} m \<and> wf_fds m \<and> wf_timers m"

lemma wf_master_create: "wf_master (thread_master_create :: ('f, 'a) thread_master)"
proof -
  have "list_of ty (thread_master_create :: ('f, 'a) thread_master) = []" for ty by (cases ty) (simp_all add: thread_master_create_def)
  then show ?thesis by (simp add: wf_master_def wf_lists_def wf_fds_def wf_timers_def thread_master_create_def)
qed

text \<open>Comparing two times of the range.\<close>

lemma timeval_cmp_ok:
  assumes "tv_ok a" "tv_ok b"
  shows "timeval_cmp a b \<le> 0 \<longleftrightarrow> tv_le a b" "timeval_cmp a b \<ge> 0 \<longleftrightarrow> tv_le b a"
proof -
  let ?d = "if fst a = fst b then snd a - snd b else fst a - fst b"
  have "- (2 ^ 31) \<le> ?d \<and> ?d < 2 ^ 31" using assms by (auto simp: tv_ok_def TIMER_SECOND_MICRO_def)
  then have "timeval_cmp a b = ?d"
    unfolding timeval_cmp_def by (subst signed_of_int, subst signed_take_bit_int_eq_self) auto
  then show "timeval_cmp a b \<le> 0 \<longleftrightarrow> tv_le a b" "timeval_cmp a b \<ge> 0 \<longleftrightarrow> tv_le b a"
    by (auto simp: tv_le_def)
qed

lemma tv_le_trans: "tv_le a b \<Longrightarrow> tv_le b c \<Longrightarrow> tv_le a c"
  by (auto simp: tv_le_def)

lemma tv_le_linear: "tv_le a b \<or> tv_le b a"
  by (auto simp: tv_le_def)

lemma deadline_ok:
  assumes "tv_ok now" "int us div TIMER_SECOND_MICRO + fst now + 1 < 2 ^ 31"
  shows "tv_ok (deadline now us)"
proof -
  let ?u = "snd now + int us mod TIMER_SECOND_MICRO"
  have "0 \<le> ?u" "?u < 2 * TIMER_SECOND_MICRO" using assms(1)
    by (auto simp: tv_ok_def TIMER_SECOND_MICRO_def)
  then have "0 \<le> ?u div TIMER_SECOND_MICRO" "?u div TIMER_SECOND_MICRO \<le> 1" by (auto simp: TIMER_SECOND_MICRO_def)
  moreover have "0 \<le> int us div TIMER_SECOND_MICRO" by (simp add: TIMER_SECOND_MICRO_def)
  ultimately show ?thesis using assms by (auto simp: deadline_def Let_def tv_ok_def TIMER_SECOND_MICRO_def)
qed

section \<open>Slots in hand\<close>

definition pending :: "('f, 'a) thread_master \<Rightarrow> nat \<Rightarrow> ('f \<times> 'a) option" where
  "pending m t = (if t < length (m_pool m) \<and> th_type (m_pool m ! t) \<noteq> THREAD_UNUSED
                  then Some (th_func (m_pool m ! t), th_arg (m_pool m ! t)) else None)"

lemma wf_lists_mem: "wf_lists X m \<Longrightarrow> t \<in> set (list_of ty m) \<longleftrightarrow> t < length (m_pool m) \<and> th_type (m_pool m ! t) = ty \<and> t \<notin> X"
  by (simp add: wf_lists_def)

lemma thread_get_spec:
  assumes "wf_lists {} m" "thread_get ty f a m = (t, m1)"
  shows "wf_lists {t} m1" "th_type (m_pool m1 ! t) = ty" "t < length (m_pool m1)"
    "\<And>ty'. ty' \<noteq> THREAD_UNUSED \<Longrightarrow> list_of ty' m1 = list_of ty' m"
    "m_readfd m1 = m_readfd m" "m_writefd m1 = m_writefd m"
    "\<And>u. u \<noteq> t \<Longrightarrow> u < length (m_pool m) \<Longrightarrow> m_pool m1 ! u = m_pool m ! u"
    "\<And>ty'. ty' \<noteq> THREAD_UNUSED \<Longrightarrow> t \<notin> set (list_of ty' m)"
    "pending m t = None"
    "ty \<noteq> THREAD_UNUSED \<Longrightarrow> pending m1 = (pending m)(t \<mapsto> (f, a))"
proof -
  note mem = wf_lists_mem [OF assms(1)]
  have "wf_lists {t} m1 \<and> th_type (m_pool m1 ! t) = ty \<and> t < length (m_pool m1) \<and>
    (\<forall>ty'. ty' \<noteq> THREAD_UNUSED \<longrightarrow> list_of ty' m1 = list_of ty' m) \<and> m_readfd m1 = m_readfd m \<and>
    m_writefd m1 = m_writefd m \<and> (\<forall>u. u \<noteq> t \<longrightarrow> u < length (m_pool m) \<longrightarrow> m_pool m1 ! u = m_pool m ! u) \<and>
    (\<forall>ty'. ty' \<noteq> THREAD_UNUSED \<longrightarrow> t \<notin> set (list_of ty' m)) \<and> pending m t = None \<and>
    (ty \<noteq> THREAD_UNUSED \<longrightarrow> pending m1 = (pending m)(t \<mapsto> (f, a)))"
  proof (cases "m_unuse m")
    case Nil
    define th where "th = \<lparr>th_type = ty, th_func = f, th_arg = a, th_val = 0, th_fd = 0, th_sands = (0, 0)\<rparr>"
    have t: "t = length (m_pool m)" and m1: "m1 = m\<lparr>m_pool := m_pool m @ [th], m_alloc := m_alloc m + 1\<rparr>"
      using assms(2) Nil by (auto simp: thread_get_def thread_trim_head_def Let_def th_def)
    have l: "list_of ty' m1 = list_of ty' m" for ty' by (cases ty') (simp_all add: m1)
    have "wf_lists {t} m1" using assms(1) by (auto simp: wf_lists_def l) (auto simp: m1 t nth_append)
    then show ?thesis using mem by (auto simp: l) (auto simp: m1 t nth_append th_def pending_def fun_eq_iff)
  next
    case (Cons x xs)
    define th where "th = (m_pool m ! x)\<lparr>th_type := ty, th_func := f, th_arg := a\<rparr>"
    have t: "t = x" and m1: "m1 = m\<lparr>m_unuse := xs, m_pool := (m_pool m)[x := th]\<rparr>"
      using assms(2) Cons by (auto simp: thread_get_def thread_trim_head_def Let_def th_def)
    have l: "list_of ty' m1 = (if ty' = THREAD_UNUSED then xs else list_of ty' m)" for ty' by (cases ty') (simp_all add: m1)
    have x: "x < length (m_pool m)" "th_type (m_pool m ! x) = THREAD_UNUSED" "x \<notin> set xs" "distinct xs"
      using mem [of x THREAD_UNUSED] assms(1) Cons by (auto simp: wf_lists_def) (metis distinct.simps(2) list_of.simps(6))+
    have xs: "u \<in> set xs \<longleftrightarrow> u \<noteq> x \<and> u < length (m_pool m) \<and> th_type (m_pool m ! u) = THREAD_UNUSED" for u
      using mem [of u THREAD_UNUSED] Cons x(3) by auto
    have "wf_lists {t} m1"
      unfolding wf_lists_def l
      using assms(1) x xs by (auto simp: t m1 nth_list_update wf_lists_def split: if_splits)
    then show ?thesis using mem x by (auto simp: l t) (auto simp: m1 th_def pending_def fun_eq_iff nth_list_update)
  qed
  then show "wf_lists {t} m1" "th_type (m_pool m1 ! t) = ty" "t < length (m_pool m1)"
    "\<And>ty'. ty' \<noteq> THREAD_UNUSED \<Longrightarrow> list_of ty' m1 = list_of ty' m"
    "m_readfd m1 = m_readfd m" "m_writefd m1 = m_writefd m"
    "\<And>u. u \<noteq> t \<Longrightarrow> u < length (m_pool m) \<Longrightarrow> m_pool m1 ! u = m_pool m ! u"
    "\<And>ty'. ty' \<noteq> THREAD_UNUSED \<Longrightarrow> t \<notin> set (list_of ty' m)"
    "pending m t = None"
    "ty \<noteq> THREAD_UNUSED \<Longrightarrow> pending m1 = (pending m)(t \<mapsto> (f, a))"
    by blast+
qed

text \<open>Putting the slot in hand into the list of its type, taking one out, and retiring it.\<close>

lemma wf_lists_insert:
  assumes "wf_lists {t} m" "th_type (m_pool m ! t) = ty"
    and "\<And>ty'. ty' \<noteq> ty \<Longrightarrow> list_of ty' m' = list_of ty' m"
    and "set (list_of ty m') = insert t (set (list_of ty m))" "distinct (list_of ty m')"
    and "length (m_pool m') = length (m_pool m)" "\<And>u. th_type (m_pool m' ! u) = th_type (m_pool m ! u)" "m_alloc m' = m_alloc m"
  shows "wf_lists {} m'"
proof -
  have "distinct (list_of ty' m')" for ty' using assms(1,3,5) by (cases "ty' = ty") (auto simp: wf_lists_def)
  moreover have "u \<in> set (list_of ty' m') \<longleftrightarrow> u < length (m_pool m') \<and> th_type (m_pool m' ! u) = ty' \<and> u \<notin> {}" for u ty'
    using assms(1-4,6,7) by (cases "ty' = ty") (auto simp: wf_lists_def)
  ultimately show ?thesis using assms(1,6,8) by (simp add: wf_lists_def)
qed

lemma wf_lists_remove:
  assumes "wf_lists {} m" "t \<in> set (list_of ty m)" "list_of ty m' = remove1 t (list_of ty m)"
    and "\<And>ty'. ty' \<noteq> ty \<Longrightarrow> list_of ty' m' = list_of ty' m" "m_pool m' = m_pool m" "m_alloc m' = m_alloc m"
  shows "wf_lists {t} m'"
proof -
  have d: "distinct (list_of ty' m)" for ty' using assms(1) by (simp add: wf_lists_def)
  have "distinct (list_of ty' m')" for ty' using d assms(3,4) by (cases "ty' = ty") auto
  moreover have "u \<in> set (list_of ty' m') \<longleftrightarrow> u < length (m_pool m') \<and> th_type (m_pool m' ! u) = ty' \<and> u \<notin> {t}" for u ty'
    using d assms(1-5) by (cases "ty' = ty") (auto simp: wf_lists_def)
  ultimately show ?thesis using assms(1,2,5,6) by (auto simp: wf_lists_def)
qed

lemma thread_retire_spec:
  assumes "wf_lists {t} m"
  shows "\<exists>m'. thread_retire t m = Ok m' \<and> wf_lists {} m' \<and> pending m' = (pending m)(t := None) \<and>
    (\<forall>ty. ty \<noteq> THREAD_UNUSED \<longrightarrow> list_of ty m' = list_of ty m) \<and> m_readfd m' = m_readfd m \<and> m_writefd m' = m_writefd m \<and>
    (\<forall>u. u \<noteq> t \<longrightarrow> m_pool m' ! u = m_pool m ! u)"
proof -
  have t: "t < length (m_pool m)" using assms by (auto simp: wf_lists_def)
  let ?m1 = "set_type t THREAD_UNUSED m"
  let ?m' = "?m1\<lparr>m_unuse := m_unuse m @ [t]\<rparr>"
  have l1: "list_of ty ?m1 = list_of ty m" and l: "list_of ty ?m' = (if ty = THREAD_UNUSED then m_unuse m @ [t] else list_of ty m)" for ty
    by (simp_all add: set_type_def)
  have w1: "wf_lists {t} ?m1"
    using assms unfolding wf_lists_def l1 by (auto simp: set_type_def nth_list_update)
  have "t \<notin> set (m_unuse m)" using wf_lists_mem [OF assms, of t THREAD_UNUSED] by simp
  moreover have "distinct (m_unuse m)" using assms by (auto simp: wf_lists_def) (metis list_of.simps(6))
  ultimately have "wf_lists {} ?m'"
    by (intro wf_lists_insert [OF w1, of THREAD_UNUSED]) (auto simp: l l1 set_type_def t)
  moreover have "\<not> linked t ?m1"
  proof -
    have "t \<notin> set (list_of ty ?m1)" for ty using wf_lists_mem [OF w1, of t ty] by simp
    from this [of THREAD_READ] this [of THREAD_WRITE] this [of THREAD_TIMER] this [of THREAD_EVENT] this [of THREAD_READY] this [of THREAD_UNUSED]
    show ?thesis by (simp add: linked_def)
  qed
  then have "thread_retire t m = Ok ?m'"
    using t by (simp add: thread_retire_def thread_add_unuse_def thread_list_add_def set_type_def c_assert_def)
  moreover have "pending ?m' = (pending m)(t := None)"
    using t by (auto simp: pending_def fun_eq_iff set_type_def nth_list_update)
  ultimately show ?thesis by (auto simp: l) (auto simp: set_type_def)
qed

section \<open>Operations on well-formed masters\<close>

lemma nth_update_same: "f y = f (xs ! t) \<Longrightarrow> f (xs[t := y] ! u) = f (xs ! u)"
  by (cases "t < length xs \<and> u = t") (auto simp: list_update_beyond)

lemma wf_fds_frame:
  assumes "wf_fds m" "m_read m' = m_read m" "m_write m' = m_write m" "m_readfd m' = m_readfd m" "m_writefd m' = m_writefd m"
    and "\<And>u. u \<in> set (m_read m) \<union> set (m_write m) \<Longrightarrow> m_pool m' ! u = m_pool m ! u"
  shows "wf_fds m'"
proof -
  have "map (fd_of m') (m_read m) = map (fd_of m) (m_read m)" "map (fd_of m') (m_write m) = map (fd_of m) (m_write m)"
    using assms(6) by auto
  then show ?thesis using assms(1-5) unfolding wf_fds_def by metis
qed

lemma wf_timers_frame:
  assumes "wf_timers m" "m_timer m' = m_timer m" "\<And>u. u \<in> set (m_timer m) \<Longrightarrow> m_pool m' ! u = m_pool m ! u"
  shows "wf_timers m'"
proof -
  have "map (sands m') (m_timer m) = map (sands m) (m_timer m)" using assms(3) by auto
  then show ?thesis using assms unfolding wf_timers_def by (metis (no_types, lifting))
qed

lemma list_ofD:
  assumes "wf_master m"
  shows "u \<in> set (m_read m) \<Longrightarrow> u < length (m_pool m)" "u \<in> set (m_write m) \<Longrightarrow> u < length (m_pool m)"
    "u \<in> set (m_timer m) \<Longrightarrow> u < length (m_pool m)" "u \<in> set (m_event m) \<Longrightarrow> u < length (m_pool m)"
    "u \<in> set (m_ready m) \<Longrightarrow> u < length (m_pool m)"
  using wf_lists_mem [of "{}" m u] assms unfolding wf_master_def
  by (metis list_of.simps(1), metis list_of.simps(2), metis list_of.simps(3), metis list_of.simps(4), metis list_of.simps(5))

text \<open>A new slot, completed and put into the list of its type.\<close>

lemma put_slot_spec:
  assumes "wf_master m" "thread_get ty f a m = (t, m1)" "ty \<noteq> THREAD_UNUSED"
    and "m_pool m' = (m_pool m1)[t := th]" "th_type th = ty" "th_func th = f" "th_arg th = a"
    and "\<And>ty'. ty' \<noteq> ty \<Longrightarrow> list_of ty' m' = list_of ty' m1" "m_alloc m' = m_alloc m1"
    and "set (list_of ty m') = insert t (set (list_of ty m))" "t \<notin> set (list_of ty m) \<Longrightarrow> distinct (list_of ty m')"
  shows "wf_lists {} m'" "pending m t = None" "pending m' = (pending m)(t \<mapsto> (f, a))"
    "m_pool m' ! t = th" "\<And>u. u \<noteq> t \<Longrightarrow> u < length (m_pool m) \<Longrightarrow> m_pool m' ! u = m_pool m ! u"
    "\<And>ty' u. ty' \<noteq> THREAD_UNUSED \<Longrightarrow> u \<in> set (list_of ty' m) \<Longrightarrow> m_pool m' ! u = m_pool m ! u \<and> u \<noteq> t"
    "\<And>ty'. ty' \<noteq> ty \<Longrightarrow> ty' \<noteq> THREAD_UNUSED \<Longrightarrow> list_of ty' m' = list_of ty' m"
proof -
  have w: "wf_lists {} m" using assms(1) by (simp add: wf_master_def)
  note s = thread_get_spec [OF w assms(2)]
  have ty: "th_type (m_pool m1 ! t) = th_type th" using s(2) assms(5) by simp
  show "wf_lists {} m'"
    using assms(3,8-11) s(4,8) ty by (intro wf_lists_insert [OF s(1,2)]) (auto simp: assms(4) nth_update_same)
  show "pending m t = None" by (rule s(9))
  have "pending m' = (pending m1)(t \<mapsto> (f, a))"
    using s(3) assms(3,5-7) by (auto simp: pending_def fun_eq_iff assms(4) nth_list_update)
  then show "pending m' = (pending m)(t \<mapsto> (f, a))" using s(10) assms(3) by simp
  show "m_pool m' ! t = th" using s(3) by (simp add: assms(4))
  show fr: "m_pool m' ! u = m_pool m ! u" if "u \<noteq> t" "u < length (m_pool m)" for u
    using s(7) that by (simp add: assms(4))
  show "m_pool m' ! u = m_pool m ! u \<and> u \<noteq> t" if "ty' \<noteq> THREAD_UNUSED" "u \<in> set (list_of ty' m)" for ty' u
  proof -
    have "u < length (m_pool m)" using that(2) wf_lists_mem [OF w, of u ty'] by simp
    moreover have "u \<noteq> t" using that s(8) [of ty'] by auto
    ultimately show ?thesis using fr by simp
  qed
  show "list_of ty' m' = list_of ty' m" if "ty' \<noteq> ty" "ty' \<noteq> THREAD_UNUSED" for ty'
    using that assms(8) s(4) by simp
qed

lemma wf_list_distinct: "wf_master m \<Longrightarrow> distinct (list_of ty m)"
  by (simp add: wf_master_def wf_lists_def)

lemma thread_add_event_spec:
  assumes "wf_master m" "thread_add_event f a v m = (t, m')"
  shows "wf_master m' \<and> pending m t = None \<and> pending m' = (pending m)(t \<mapsto> (f, a)) \<and> m_event m' = m_event m @ [t] \<and>
    m_read m' = m_read m \<and> m_readfd m' = m_readfd m"
proof -
  obtain m1 where g: "thread_get THREAD_EVENT f a m = (t, m1)" and
    m': "m' = m1\<lparr>m_pool := (m_pool m1)[t := (m_pool m1 ! t)\<lparr>th_val := v\<rparr>], m_event := m_event m1 @ [t]\<rparr>"
    using assms(2) by (cases "thread_get THREAD_EVENT f a m") (auto simp: thread_add_event_def thread_list_add_def)
  have w: "wf_lists {} m" "wf_fds m" "wf_timers m" using assms(1) by (auto simp: wf_master_def)
  note s = thread_get_spec [OF w(1) g]
  have ev: "m_event m1 = m_event m" using s(4) [of THREAD_EVENT] by simp
  have fa: "th_func (m_pool m1 ! t) = f" "th_arg (m_pool m1 ! t) = a"
    using fun_cong [OF s(10), of t] by (auto simp: pending_def split: if_splits)
  have "m_pool m' = (m_pool m1)[t := (m_pool m1 ! t)\<lparr>th_val := v\<rparr>]" by (simp add: m')
  note q = put_slot_spec [OF assms(1) g _ this]
  have q: "wf_lists {} m'" "pending m t = None" "pending m' = (pending m)(t \<mapsto> (f, a))"
    "\<And>ty' u. ty' \<noteq> THREAD_UNUSED \<Longrightarrow> u \<in> set (list_of ty' m) \<Longrightarrow> m_pool m' ! u = m_pool m ! u \<and> u \<noteq> t"
    by (rule q; use s(2) fa wf_list_distinct [OF assms(1), of THREAD_EVENT] in \<open>simp add: m' ev\<close>)+
  have ls: "m_read m' = m_read m" "m_write m' = m_write m" "m_timer m' = m_timer m"
    using s(4) [of THREAD_READ] s(4) [of THREAD_WRITE] s(4) [of THREAD_TIMER] by (auto simp: m')
  have "wf_fds m'"
    using q(4) [of THREAD_READ] q(4) [of THREAD_WRITE] by (intro wf_fds_frame [OF w(2)]) (auto simp: ls s(5,6), auto simp: m' s(5,6))
  moreover have "wf_timers m'"
    using q(4) [of THREAD_TIMER] by (intro wf_timers_frame [OF w(3)]) (auto simp: ls)
  ultimately show ?thesis using q(1-3) ls by (simp add: wf_master_def) (simp add: m' ev s(5))
qed

lemma find_takeWhile:
  "find P l = Some x \<Longrightarrow> takeWhile (\<lambda>y. y \<noteq> x) l = takeWhile (\<lambda>y. \<not> P y) l \<and> dropWhile (\<lambda>y. y \<noteq> x) l = dropWhile (\<lambda>y. \<not> P y) l"
  by (induction l) (auto split: if_splits dest: find_SomeD)

lemma timer_insert_eq:
  "(case find P l of Some x \<Rightarrow> thread_list_add_before l x t | None \<Rightarrow> thread_list_add l t) =
     takeWhile (\<lambda>y. \<not> P y) l @ t # dropWhile (\<lambda>y. \<not> P y) l"
proof (cases "find P l")
  case None
  then have "\<forall>y\<in>set l. \<not> P y" by (simp add: find_None_iff)
  then have l: "takeWhile (\<lambda>y. \<not> P y) l = l" "dropWhile (\<lambda>y. \<not> P y) l = []"
    unfolding takeWhile_eq_all_conv dropWhile_eq_Nil_conv by auto
  show ?thesis unfolding l None thread_list_add_def by simp
next
  case (Some x)
  then show ?thesis using find_takeWhile [OF Some] by (simp add: thread_list_add_before_def)
qed

lemma sorted_insert:
  assumes "sorted_wrt tv_le (map g l)" "\<And>y. y \<in> set l \<Longrightarrow> P y \<longleftrightarrow> tv_le s (g y)" "g t = s"
  shows "sorted_wrt tv_le (map g (takeWhile (\<lambda>y. \<not> P y) l @ t # dropWhile (\<lambda>y. \<not> P y) l))"
proof -
  let ?u = "takeWhile (\<lambda>y. \<not> P y) l" and ?v = "dropWhile (\<lambda>y. \<not> P y) l"
  have l: "l = ?u @ ?v" by simp
  have sorted: "sorted_wrt tv_le (map g ?u @ map g ?v)" using assms(1) by (simp flip: map_append)
  have srt: "sorted_wrt tv_le (map g ?u)" "sorted_wrt tv_le (map g ?v)" "\<forall>x\<in>set ?u. \<forall>y\<in>set ?v. tv_le (g x) (g y)"
    using sorted by (auto simp: sorted_wrt_append)
  have u: "\<forall>x\<in>set ?u. tv_le (g x) s"
    using assms(2) tv_le_linear by (metis set_takeWhileD)
  have v: "\<forall>y\<in>set ?v. tv_le s (g y)"
  proof (cases ?v)
    case Nil
    show ?thesis unfolding Nil by simp
  next
    case (Cons y ys)
    then have "P y" using hd_dropWhile [of "\<lambda>y. \<not> P y" l] by simp
    moreover have "y \<in> set l" using Cons set_dropWhileD [of y "\<lambda>y. \<not> P y" l] by simp
    ultimately have "tv_le s (g y)" using assms(2) by simp
    then show ?thesis using srt(2) Cons tv_le_trans by auto
  qed
  show ?thesis using srt u v assms(3) by (auto simp: sorted_wrt_append)
qed

lemma distinct_mid: "distinct (xs @ ys) \<Longrightarrow> t \<notin> set (xs @ ys) \<Longrightarrow> distinct (xs @ t # ys)"
  by auto

lemma get_func_arg:
  assumes "wf_master m" "thread_get ty f a m = (t, m1)" "ty \<noteq> THREAD_UNUSED"
  shows "th_func (m_pool m1 ! t) = f" "th_arg (m_pool m1 ! t) = a" "th_type (m_pool m1 ! t) = ty"
proof -
  note s = thread_get_spec [OF _ assms(2)]
  have "wf_lists {} m" using assms(1) by (simp add: wf_master_def)
  with fun_cong [OF s(10), of t] s(2) assms(3)
  show "th_func (m_pool m1 ! t) = f" "th_arg (m_pool m1 ! t) = a" "th_type (m_pool m1 ! t) = ty"
    by (auto simp: pending_def split: if_splits)
qed

lemma thread_add_timer_spec:
  assumes "wf_master m" "thread_add_timer_high_resolution now f a us m = (t, m')" "tv_ok (deadline now us)"
  shows "wf_master m' \<and> pending m t = None \<and> pending m' = (pending m)(t \<mapsto> (f, a)) \<and> m_event m' = m_event m \<and>
    m_read m' = m_read m \<and> m_readfd m' = m_readfd m \<and> set (m_timer m') = insert t (set (m_timer m)) \<and>
    sands m' t = deadline now us"
proof -
  let ?d = "deadline now us"
  obtain m1 where g: "thread_get THREAD_TIMER f a m = (t, m1)" by (cases "thread_get THREAD_TIMER f a m") (use assms(2) in \<open>auto simp: thread_add_timer_high_resolution_def Let_def\<close>)
  define m2 where "m2 = m1\<lparr>m_pool := (m_pool m1)[t := (m_pool m1 ! t)\<lparr>th_sands := ?d\<rparr>]\<rparr>"
  define P where "P = (\<lambda>u. timeval_cmp ?d (sands m2 u) \<le> 0)"
  have w: "wf_lists {} m" "wf_fds m" "wf_timers m" using assms(1) by (auto simp: wf_master_def)
  note s = thread_get_spec [OF w(1) g]
  have tm: "m_timer m1 = m_timer m" using s(4) [of THREAD_TIMER] by simp
  define l where "l = takeWhile (\<lambda>u. \<not> P u) (m_timer m) @ t # dropWhile (\<lambda>u. \<not> P u) (m_timer m)"
  have m': "m' = m2\<lparr>m_timer := l\<rparr>"
    using assms(2) by (simp add: thread_add_timer_high_resolution_def g Let_def timer_insert_eq tm m2_def P_def l_def)
  have set_l: "set l = insert t (set (m_timer m))"
    unfolding l_def set_append list.set by (metis Un_insert_right set_append takeWhile_dropWhile_id)
  have dl: "distinct l" if "t \<notin> set (m_timer m)"
    unfolding l_def using that wf_list_distinct [OF assms(1), of THREAD_TIMER] by (intro distinct_mid) simp_all
  have "m_pool m' = (m_pool m1)[t := (m_pool m1 ! t)\<lparr>th_sands := ?d\<rparr>]" by (simp add: m' m2_def)
  note q = put_slot_spec [OF assms(1) g _ this]
  have q: "wf_lists {} m'" "pending m t = None" "pending m' = (pending m)(t \<mapsto> (f, a))"
    "m_pool m' ! t = (m_pool m1 ! t)\<lparr>th_sands := ?d\<rparr>"
    "\<And>ty' u. ty' \<noteq> THREAD_UNUSED \<Longrightarrow> u \<in> set (list_of ty' m) \<Longrightarrow> m_pool m' ! u = m_pool m ! u \<and> u \<noteq> t"
    by (rule q; use get_func_arg [OF assms(1) g] set_l dl in \<open>simp add: m' m2_def\<close>)+
  have ls: "m_read m' = m_read m" "m_write m' = m_write m" "m_event m' = m_event m"
    using s(4) [of THREAD_READ] s(4) [of THREAD_WRITE] s(4) [of THREAD_EVENT] by (auto simp: m' m2_def)
  have fd: "m_readfd m' = m_readfd m" "m_writefd m' = m_writefd m" by (simp_all add: m' m2_def s(5,6))
  have "wf_fds m'"
    using q(5) [of THREAD_READ] q(5) [of THREAD_WRITE] by (intro wf_fds_frame [OF w(2)]) (auto simp: ls fd)
  moreover have st: "sands m' t = ?d" by (simp add: q(4))
  moreover have eq: "sands m' u = sands m u" if "u \<in> set (m_timer m)" for u using q(5) [of THREAD_TIMER u] that by simp
  moreover have "wf_timers m'"
  proof -
    have ok: "tv_ok (sands m u)" if "u \<in> set (m_timer m)" for u using w(3) that by (auto simp: wf_timers_def)
    have "sorted_wrt tv_le (map (sands m') (m_timer m))" using w(3) eq unfolding wf_timers_def by (metis (no_types, lifting) map_cong)
    moreover have "P u \<longleftrightarrow> tv_le ?d (sands m' u)" if "u \<in> set (m_timer m)" for u
      using timeval_cmp_ok(1) [OF assms(3) ok [OF that]] eq [OF that] by (simp add: P_def m')
    ultimately have "sorted_wrt tv_le (map (sands m') l)" unfolding l_def using st by (intro sorted_insert)
    then show ?thesis using ok eq st assms(3) set_l by (auto simp: wf_timers_def m')
  qed
  ultimately show ?thesis using q(1-3) ls fd st set_l by (simp add: wf_master_def) (simp add: m')
qed

lemma thread_add_read_spec:
  assumes "wf_master m" "thread_add_read f a fd m = (r, m')"
  shows "wf_master m' \<and> m_event m' = m_event m \<and>
    (if fd \<in> m_readfd m then r = None \<and> m' = m
     else \<exists>t. r = Some t \<and> pending m t = None \<and> pending m' = (pending m)(t \<mapsto> (f, a)) \<and> m_readfd m' = insert fd (m_readfd m) \<and>
            m_read m' = m_read m @ [t] \<and> fd_of m' t = fd)"
proof (cases "fd \<in> m_readfd m")
  case True
  with assms show ?thesis by (simp add: thread_add_read_def)
next
  case False
  obtain t m1 where g: "thread_get THREAD_READ f a m = (t, m1)" by (cases "thread_get THREAD_READ f a m")
  have r: "r = Some t" and m': "m' = m1\<lparr>m_readfd := insert fd (m_readfd m1),
      m_pool := (m_pool m1)[t := (m_pool m1 ! t)\<lparr>th_fd := fd\<rparr>], m_read := m_read m1 @ [t]\<rparr>"
    using assms(2) g False by (auto simp: thread_add_read_def thread_list_add_def)
  have w: "wf_lists {} m" "wf_fds m" "wf_timers m" using assms(1) by (auto simp: wf_master_def)
  note s = thread_get_spec [OF w(1) g]
  have rd: "m_read m1 = m_read m" using s(4) [of THREAD_READ] by simp
  have "m_pool m' = (m_pool m1)[t := (m_pool m1 ! t)\<lparr>th_fd := fd\<rparr>]" by (simp add: m')
  note q = put_slot_spec [OF assms(1) g _ this]
  have q: "wf_lists {} m'" "pending m t = None" "pending m' = (pending m)(t \<mapsto> (f, a))"
    "m_pool m' ! t = (m_pool m1 ! t)\<lparr>th_fd := fd\<rparr>"
    "\<And>ty' u. ty' \<noteq> THREAD_UNUSED \<Longrightarrow> u \<in> set (list_of ty' m) \<Longrightarrow> m_pool m' ! u = m_pool m ! u \<and> u \<noteq> t"
    by (rule q; use get_func_arg [OF assms(1) g] wf_list_distinct [OF assms(1), of THREAD_READ] in \<open>simp add: m' rd\<close>)+
  have ls: "m_write m' = m_write m" "m_timer m' = m_timer m" "m_event m' = m_event m" "m_read m' = m_read m @ [t]"
    using s(4) [of THREAD_WRITE] s(4) [of THREAD_TIMER] s(4) [of THREAD_EVENT] rd by (auto simp: m')
  have fd: "m_readfd m' = insert fd (m_readfd m)" "m_writefd m' = m_writefd m" by (simp_all add: m' s(5,6))
  have e: "map (fd_of m') (m_read m) = map (fd_of m) (m_read m)" "map (fd_of m') (m_write m) = map (fd_of m) (m_write m)"
    using q(5) [of THREAD_READ] q(5) [of THREAD_WRITE] by auto
  have "wf_fds m'" using w(2) False q(4) unfolding wf_fds_def ls fd map_append e by auto
  moreover have "wf_timers m'"
    using q(5) [of THREAD_TIMER] by (intro wf_timers_frame [OF w(3)]) (auto simp: ls)
  ultimately show ?thesis using q(1-4) ls fd False r by (simp add: wf_master_def)
qed

lemma thread_add_write_spec:
  assumes "wf_master m" "thread_add_write f a fd m = (r, m')"
  shows "wf_master m' \<and> m_event m' = m_event m \<and>
    (if fd \<in> m_writefd m then r = None \<and> m' = m
     else \<exists>t. r = Some t \<and> pending m t = None \<and> pending m' = (pending m)(t \<mapsto> (f, a)) \<and> m_writefd m' = insert fd (m_writefd m) \<and>
            m_write m' = m_write m @ [t] \<and> fd_of m' t = fd)"
proof (cases "fd \<in> m_writefd m")
  case True
  with assms show ?thesis by (simp add: thread_add_write_def)
next
  case False
  obtain t m1 where g: "thread_get THREAD_WRITE f a m = (t, m1)" by (cases "thread_get THREAD_WRITE f a m")
  have r: "r = Some t" and m': "m' = m1\<lparr>m_writefd := insert fd (m_writefd m1),
      m_pool := (m_pool m1)[t := (m_pool m1 ! t)\<lparr>th_fd := fd\<rparr>], m_write := m_write m1 @ [t]\<rparr>"
    using assms(2) g False by (auto simp: thread_add_write_def thread_list_add_def)
  have w: "wf_lists {} m" "wf_fds m" "wf_timers m" using assms(1) by (auto simp: wf_master_def)
  note s = thread_get_spec [OF w(1) g]
  have rd: "m_write m1 = m_write m" using s(4) [of THREAD_WRITE] by simp
  have "m_pool m' = (m_pool m1)[t := (m_pool m1 ! t)\<lparr>th_fd := fd\<rparr>]" by (simp add: m')
  note q = put_slot_spec [OF assms(1) g _ this]
  have q: "wf_lists {} m'" "pending m t = None" "pending m' = (pending m)(t \<mapsto> (f, a))"
    "m_pool m' ! t = (m_pool m1 ! t)\<lparr>th_fd := fd\<rparr>"
    "\<And>ty' u. ty' \<noteq> THREAD_UNUSED \<Longrightarrow> u \<in> set (list_of ty' m) \<Longrightarrow> m_pool m' ! u = m_pool m ! u \<and> u \<noteq> t"
    by (rule q; use get_func_arg [OF assms(1) g] wf_list_distinct [OF assms(1), of THREAD_WRITE] in \<open>simp add: m' rd\<close>)+
  have ls: "m_read m' = m_read m" "m_timer m' = m_timer m" "m_event m' = m_event m" "m_write m' = m_write m @ [t]"
    using s(4) [of THREAD_READ] s(4) [of THREAD_TIMER] s(4) [of THREAD_EVENT] rd by (auto simp: m')
  have fd: "m_writefd m' = insert fd (m_writefd m)" "m_readfd m' = m_readfd m" by (simp_all add: m' s(5,6))
  have e: "map (fd_of m') (m_write m) = map (fd_of m) (m_write m)" "map (fd_of m') (m_read m) = map (fd_of m) (m_read m)"
    using q(5) [of THREAD_WRITE] q(5) [of THREAD_READ] by auto
  have "wf_fds m'" using w(2) False q(4) unfolding wf_fds_def ls fd map_append e by auto
  moreover have "wf_timers m'"
    using q(5) [of THREAD_TIMER] by (intro wf_timers_frame [OF w(3)]) (auto simp: ls)
  ultimately show ?thesis using q(1-4) ls fd False r by (simp add: wf_master_def)
qed

text \<open>Taking a pending slot out of its list.\<close>

primrec drop_slot :: "thread_type \<Rightarrow> nat \<Rightarrow> ('f, 'a) thread_master \<Rightarrow> ('f, 'a) thread_master" where
  "drop_slot THREAD_READ t m = m\<lparr>m_readfd := m_readfd m - {fd_of m t}, m_read := remove1 t (m_read m)\<rparr>"
| "drop_slot THREAD_WRITE t m = m\<lparr>m_writefd := m_writefd m - {fd_of m t}, m_write := remove1 t (m_write m)\<rparr>"
| "drop_slot THREAD_TIMER t m = m\<lparr>m_timer := remove1 t (m_timer m)\<rparr>"
| "drop_slot THREAD_EVENT t m = m\<lparr>m_event := remove1 t (m_event m)\<rparr>"
| "drop_slot THREAD_READY t m = m\<lparr>m_ready := remove1 t (m_ready m)\<rparr>"
| "drop_slot THREAD_UNUSED t m = m\<lparr>m_unuse := remove1 t (m_unuse m)\<rparr>"

lemma drop_slot_frame [simp]:
  "m_pool (drop_slot ty t m) = m_pool m" "m_alloc (drop_slot ty t m) = m_alloc m"
  "list_of ty' (drop_slot ty t m) = (if ty' = ty then remove1 t (list_of ty m) else list_of ty' m)"
  by (cases ty; simp)+

lemma sorted_remove1: "sorted_wrt R (map g l) \<Longrightarrow> sorted_wrt R (map g (remove1 t l))"
  by (induction l) (auto dest: notin_set_remove1)

lemma wf_timers_subset:
  assumes "wf_timers m" "m_timer m' = remove1 t (m_timer m)" "\<And>u. u \<in> set (m_timer m') \<Longrightarrow> m_pool m' ! u = m_pool m ! u"
  shows "wf_timers m'"
proof -
  have e: "map (sands m') (m_timer m') = map (sands m) (remove1 t (m_timer m))" using assms(2,3) by auto
  have "sorted_wrt tv_le (map (sands m) (remove1 t (m_timer m)))"
    using assms(1) by (simp add: wf_timers_def sorted_remove1)
  then show ?thesis using assms e notin_set_remove1 unfolding wf_timers_def by (metis (no_types, lifting))
qed

lemma remove_fds:
  assumes "distinct l" "distinct (map g l)" "t \<in> set l"
  shows "distinct (map g (remove1 t l)) \<and> set (map g (remove1 t l)) = set (map g l) - {g t}"
  using assms by (induction l) auto

lemma drop_slot_fds:
  assumes "wf_master m" "t \<in> set (list_of ty m)" "ty \<noteq> THREAD_UNUSED"
  shows "wf_fds (drop_slot ty t m)"
proof -
  have d: "distinct (m_read m)" "distinct (m_write m)"
    using wf_list_distinct [OF assms(1), of THREAD_READ] wf_list_distinct [OF assms(1), of THREAD_WRITE] by auto
  have f: "wf_fds m" using assms(1) by (simp add: wf_master_def)
  show ?thesis
  proof (cases ty)
    case THREAD_READ
    then show ?thesis using f remove_fds [OF d(1), of "fd_of m" t] assms(2) by (auto simp: wf_fds_def)
  next
    case THREAD_WRITE
    then show ?thesis using f remove_fds [OF d(2), of "fd_of m" t] assms(2) by (auto simp: wf_fds_def)
  qed (use f assms(3) in \<open>auto simp: wf_fds_def\<close>)
qed

lemma retire_slot_spec:
  assumes "wf_master m" "t < length (m_pool m)" "th_type (m_pool m ! t) = ty" "ty \<noteq> THREAD_UNUSED"
  shows "\<exists>m'. thread_retire t (drop_slot ty t m) = Ok m' \<and> wf_master m' \<and> pending m' = (pending m)(t := None) \<and>
    (\<forall>ty'. ty' \<noteq> THREAD_UNUSED \<longrightarrow> list_of ty' m' = remove1 t (list_of ty' m)) \<and>
    m_readfd m' = (if ty = THREAD_READ then m_readfd m - {fd_of m t} else m_readfd m)"
proof -
  have w: "wf_lists {} m" "wf_timers m" using assms(1) by (auto simp: wf_master_def)
  let ?m1 = "drop_slot ty t m"
  have t: "t \<in> set (list_of ty m)" using assms(2,3) by (simp add: wf_lists_mem [OF w(1)])
  have nt: "t \<notin> set (list_of ty' m)" if "ty' \<noteq> ty" for ty' using assms(3) that by (simp add: wf_lists_mem [OF w(1)])
  have d: "distinct (list_of ty m)" by (rule wf_list_distinct [OF assms(1)])
  have w1: "wf_lists {t} ?m1" by (rule wf_lists_remove [OF w(1) t]) auto
  have l1: "list_of ty' ?m1 = remove1 t (list_of ty' m)" for ty'
    using nt [of ty'] by (cases "ty' = ty") (auto simp: remove1_idem)
  have n1: "t \<notin> set (list_of ty' ?m1)" for ty' using d nt by (simp add: l1)
  from thread_retire_spec [OF w1] obtain m' where m': "thread_retire t ?m1 = Ok m'" "wf_lists {} m'"
    "pending m' = (pending ?m1)(t := None)" "\<forall>ty. ty \<noteq> THREAD_UNUSED \<longrightarrow> list_of ty m' = list_of ty ?m1"
    "m_readfd m' = m_readfd ?m1" "m_writefd m' = m_writefd ?m1" "\<forall>u. u \<noteq> t \<longrightarrow> m_pool m' ! u = m_pool ?m1 ! u"
    by blast
  have ls: "m_read m' = m_read ?m1" "m_write m' = m_write ?m1" "m_timer m' = remove1 t (m_timer m)"
    using m'(4) l1 [of THREAD_TIMER] by (metis list_of.simps thread_type.distinct)+
  have "t \<notin> set (m_read ?m1)" "t \<notin> set (m_write ?m1)"
    using n1 [of THREAD_READ] n1 [of THREAD_WRITE] by (simp_all only: list_of.simps not_False_eq_True)
  then have "wf_fds m'"
    using m'(5-7) ls by (intro wf_fds_frame [OF drop_slot_fds [OF assms(1) t assms(4)]]) auto
  moreover have "wf_timers m'"
    using m'(7) ls(3) n1 [of THREAD_TIMER] l1 [of THREAD_TIMER] by (intro wf_timers_subset [OF w(2) ls(3)]) auto
  moreover have "pending ?m1 = pending m" by (simp add: pending_def fun_eq_iff)
  moreover have "m_readfd ?m1 = (if ty = THREAD_READ then m_readfd m - {fd_of m t} else m_readfd m)" by (cases ty) auto
  ultimately show ?thesis using m' l1 by (auto simp: wf_master_def)
qed

lemma thread_cancel_spec:
  assumes "wf_master m" "t < length (m_pool m)"
  shows "\<exists>m'. thread_cancel t m = Ok m' \<and> wf_master m' \<and> pending m' = (pending m)(t := None) \<and>
    (\<forall>ty. ty \<noteq> THREAD_UNUSED \<longrightarrow> list_of ty m' = remove1 t (list_of ty m))"
proof (cases "th_type (m_pool m ! t) = THREAD_UNUSED")
  case True
  then have "remove1 t (list_of ty m) = list_of ty m" if "ty \<noteq> THREAD_UNUSED" for ty
    using that wf_lists_mem [of "{}" m t ty] assms(1) by (simp add: wf_master_def remove1_idem)
  moreover have "pending m = (pending m)(t := None)" using True by (auto simp: pending_def fun_eq_iff)
  moreover have "thread_cancel t m = Ok m" using True by (simp add: thread_cancel_def)
  ultimately show ?thesis using assms(1) by auto
next
  case False
  define ty where "ty = th_type (m_pool m ! t)"
  have t: "t \<in> set (list_of ty m)" using assms wf_lists_mem [of "{}" m t] by (simp add: wf_master_def ty_def)
  have "wf_fds m" using assms(1) by (simp add: wf_master_def)
  then have "thread_cancel t m = thread_retire t (drop_slot ty t m)"
    using t False by (cases ty) (auto simp: thread_cancel_def Let_def ty_def [symmetric] thread_list_delete_def wf_fds_def)
  with retire_slot_spec [OF assms ty_def [symmetric]] False show ?thesis by (auto simp: ty_def)
qed

text \<open>A read or write slot whose descriptor is ready moves to the ready list.\<close>

definition make_ready :: "thread_type \<Rightarrow> nat \<Rightarrow> ('f, 'a) thread_master \<Rightarrow> ('f, 'a) thread_master" where
  "make_ready ty t m = set_type t THREAD_READY ((drop_slot ty t m)\<lparr>m_ready := m_ready m @ [t]\<rparr>)"

lemma make_ready_spec:
  assumes "wf_master m" "t \<in> set (list_of ty m)" "ty = THREAD_READ \<or> ty = THREAD_WRITE"
  shows "wf_master (make_ready ty t m)" "pending (make_ready ty t m) = pending m"
    "m_event (make_ready ty t m) = m_event m" "m_timer (make_ready ty t m) = m_timer m"
    "m_ready (make_ready ty t m) = m_ready m @ [t]" "list_of ty (make_ready ty t m) = remove1 t (list_of ty m)"
    "fd_of (make_ready ty t m) u = fd_of m u"
    "\<And>ty'. ty' \<noteq> ty \<Longrightarrow> ty' \<noteq> THREAD_READY \<Longrightarrow> list_of ty' (make_ready ty t m) = list_of ty' m"
proof -
  let ?m1 = "drop_slot ty t m" and ?m' = "make_ready ty t m"
  let ?m2 = "set_type t THREAD_READY ?m1"
  have w: "wf_lists {} m" "wf_timers m" using assms(1) by (auto simp: wf_master_def)
  have t: "t < length (m_pool m)" "th_type (m_pool m ! t) = ty" using assms(2) wf_lists_mem [OF w(1)] by auto
  have w1: "wf_lists {t} ?m1" by (rule wf_lists_remove [OF w(1) assms(2)]) auto
  have w2: "wf_lists {t} ?m2"
    using w1 t unfolding wf_lists_def set_type_def by (auto simp: nth_list_update)
  have r: "distinct (m_ready m)" "t \<notin> set (m_ready m)"
    using wf_list_distinct [OF assms(1), of THREAD_READY] wf_lists_mem [OF w(1), of t THREAD_READY] t assms(3) by auto
  have l: "list_of ty' ?m' = (if ty' = THREAD_READY then m_ready m @ [t] else list_of ty' ?m1)" for ty'
    by (simp add: make_ready_def set_type_def)
  have wl: "wf_lists {} ?m'"
    by (rule wf_lists_insert [OF w2, of THREAD_READY])
      (use t r assms(3) in \<open>auto simp: l set_type_def, auto simp: make_ready_def set_type_def\<close>)
  have pool: "m_pool ?m' = (m_pool m)[t := (m_pool m ! t)\<lparr>th_type := THREAD_READY\<rparr>]" by (simp add: make_ready_def set_type_def)
  show fd: "fd_of ?m' u = fd_of m u" for u by (simp add: pool nth_update_same)
  have ls: "m_read ?m' = m_read ?m1" "m_write ?m' = m_write ?m1" "m_readfd ?m' = m_readfd ?m1" "m_writefd ?m' = m_writefd ?m1"
    by (simp_all add: make_ready_def set_type_def)
  have "wf_fds ?m1" using drop_slot_fds [OF assms(1,2)] assms(3) by auto
  then have "wf_fds ?m'" unfolding wf_fds_def ls fd by (simp add: wf_fds_def)
  moreover have tm: "m_timer ?m' = m_timer m" using assms(3) by (auto simp: make_ready_def set_type_def)
  then have "wf_timers ?m'" using w(2) by (simp add: wf_timers_def pool nth_update_same)
  ultimately show "wf_master ?m'" using wl by (simp add: wf_master_def)
  show "pending ?m' = pending m" using t assms(3) by (auto simp: pending_def fun_eq_iff pool nth_list_update)
  show "m_event ?m' = m_event m" "m_timer ?m' = m_timer m" using assms(3) tm by (auto simp: make_ready_def set_type_def)
  show "m_ready ?m' = m_ready m @ [t]" by (simp add: make_ready_def set_type_def)
  show "list_of ty ?m' = remove1 t (list_of ty m)" using assms(3) by (auto simp: l)
  show "list_of ty' ?m' = list_of ty' m" if "ty' \<noteq> ty" "ty' \<noteq> THREAD_READY" for ty' using that by (simp add: l)
qed

lemma process_step_eq:
  assumes "wf_master m" "t \<in> set (list_of ty m)" "ty = THREAD_READ \<or> ty = THREAD_WRITE"
  shows "ty = THREAD_READ \<Longrightarrow> fd_of m t \<in> m_readfd m" "ty = THREAD_WRITE \<Longrightarrow> fd_of m t \<in> m_writefd m"
    "ty = THREAD_READ \<Longrightarrow> set_type t THREAD_READY (m\<lparr>m_readfd := m_readfd m - {fd_of m t}, m_read := remove1 t (m_read m),
        m_ready := m_ready m @ [t]\<rparr>) = make_ready ty t m"
    "ty = THREAD_WRITE \<Longrightarrow> set_type t THREAD_READY (m\<lparr>m_writefd := m_writefd m - {fd_of m t}, m_write := remove1 t (m_write m),
        m_ready := m_ready m @ [t]\<rparr>) = make_ready ty t m"
  using assms by (auto simp: wf_master_def wf_fds_def make_ready_def)

definition ready_step :: "thread_type \<Rightarrow> nat set \<Rightarrow> nat \<Rightarrow> ('f, 'a) thread_master \<Rightarrow> ('f, 'a) thread_master" where
  "ready_step ty fds t m = (if fd_of m t \<in> fds then make_ready ty t m else m)"

lemma process_fold:
  assumes "wf_master m" "set l \<subseteq> set (list_of ty m)" "distinct l" "ty = THREAD_READ \<or> ty = THREAD_WRITE"
    and "\<And>t m. wf_master m \<Longrightarrow> t \<in> set (list_of ty m) \<Longrightarrow> step t m = Ok (ready_step ty fds t m)"
  shows "\<exists>m'. res_for step l m = Ok m' \<and> wf_master m' \<and> pending m' = pending m \<and> m_event m' = m_event m \<and> m_timer m' = m_timer m"
  using assms(1-3)
proof (induction l arbitrary: m)
  case Nil
  then show ?case by simp
next
  case (Cons t l)
  let ?m1 = "ready_step ty fds t m"
  have t: "t \<in> set (list_of ty m)" using Cons.prems(2) by simp
  note mr = make_ready_spec [OF Cons.prems(1) t assms(4)]
  have "wf_master ?m1" "pending ?m1 = pending m" "m_event ?m1 = m_event m" "m_timer ?m1 = m_timer m"
    using mr(1-4) Cons.prems(1) by (auto simp: ready_step_def)
  moreover have "set l \<subseteq> set (list_of ty ?m1)"
    using Cons.prems mr(6) wf_list_distinct [OF Cons.prems(1)] by (auto simp: ready_step_def)
  ultimately show ?case using Cons.IH [of ?m1] Cons.prems assms(5) [OF Cons.prems(1) t] by auto
qed

lemma process_read_spec:
  assumes "wf_master m"
  shows "\<exists>m'. process_read fds m = Ok m' \<and> wf_master m' \<and> pending m' = pending m \<and> m_event m' = m_event m \<and> m_timer m' = m_timer m"
  unfolding process_read_def
  by (rule process_fold [OF assms, of _ THREAD_READ _ fds])
    (use assms wf_list_distinct [OF assms, of THREAD_READ] in \<open>auto simp: Let_def ready_step_def thread_list_delete_def thread_list_add_def
       process_step_eq [where ty = THREAD_READ, simplified]\<close>)

lemma process_write_spec:
  assumes "wf_master m"
  shows "\<exists>m'. process_write fds m = Ok m' \<and> wf_master m' \<and> pending m' = pending m \<and> m_event m' = m_event m \<and> m_timer m' = m_timer m"
  unfolding process_write_def
  by (rule process_fold [OF assms, of _ THREAD_WRITE _ fds])
    (use assms wf_list_distinct [OF assms, of THREAD_WRITE] in \<open>auto simp: Let_def ready_step_def thread_list_delete_def thread_list_add_def
       process_step_eq [where ty = THREAD_WRITE, simplified]\<close>)

section \<open>Fetching from a well-formed master\<close>

text \<open>\<open>took m t m'\<close>: slot \<open>t\<close> has been taken out of \<open>m\<close> to be run, leaving \<open>m'\<close>.\<close>

definition took :: "('f, 'a) thread_master \<Rightarrow> nat \<Rightarrow> ('f, 'a) thread_master \<Rightarrow> bool" where
  "took m t m' \<longleftrightarrow> wf_master m' \<and> t < length (m_pool m) \<and> pending m t \<noteq> None \<and> pending m' = (pending m)(t := None) \<and>
     m_event m' = remove1 t (m_event m)"

lemma thread_run_spec:
  assumes "wf_master m" "t \<in> set (list_of ty m)" "ty \<noteq> THREAD_UNUSED"
  shows "\<exists>m'. thread_run t (drop_slot ty t m) = Ok (Some (m_pool m ! t), m') \<and> took m t m'"
proof -
  have t: "t < length (m_pool m)" "th_type (m_pool m ! t) = ty"
    using assms(2) wf_lists_mem [of "{}" m t ty] assms(1) by (auto simp: wf_master_def)
  from retire_slot_spec [OF assms(1) t assms(3)] obtain m' where
    "thread_retire t (drop_slot ty t m) = Ok m'" "wf_master m'" "pending m' = (pending m)(t := None)"
    "\<forall>ty'. ty' \<noteq> THREAD_UNUSED \<longrightarrow> list_of ty' m' = remove1 t (list_of ty' m)" by blast
  moreover from this(4) [rule_format, of THREAD_EVENT] have "m_event m' = remove1 t (m_event m)" by simp
  ultimately show ?thesis using t assms(3) by (auto simp: thread_run_def took_def pending_def)
qed

lemma took_weaken:
  assumes "took m1 t m'" "pending m1 = pending m" "m_event m1 = m_event m"
  shows "wf_master m'" "pending m t \<noteq> None" "pending m' = (pending m)(t := None)" "m_event m' = remove1 t (m_event m)"
  using assms by (auto simp: took_def)

text \<open>What a fetch may do: run out of rounds, stop after an error of \<^verbatim>\<open>select\<close>, or take a pending thread.\<close>

definition fetch_post :: "('f, 'a) thread_master \<Rightarrow> (('f, 'a) thread option \<times> ('f, 'a) thread_master) res \<Rightarrow> bool" where
  "fetch_post m r \<longleftrightarrow>
     (case r of
        Err e \<Rightarrow> e = OutOfFuel
      | Ok (None, m') \<Rightarrow> wf_master m' \<and> pending m' = pending m \<and> m_event m' = m_event m
      | Ok (Some th, m') \<Rightarrow> wf_master m' \<and> (\<exists>t. pending m t = Some (th_func th, th_arg th) \<and> pending m' = (pending m)(t := None) \<and>
           (if m_event m = [] then m_event m' = [] else t = hd (m_event m) \<and> m_event m' = tl (m_event m))))"

lemma took_post:
  assumes "took m1 t m'" "wf_master m1" "pending m1 = pending m" "m_event m1 = m_event m" "m_event m = [] \<or> t = hd (m_event m)"
  shows "fetch_post m (Ok (Some (m_pool m1 ! t), m'))"
proof -
  have p: "pending m t = Some (th_func (m_pool m1 ! t), th_arg (m_pool m1 ! t))"
  proof -
    have "pending m1 t \<noteq> None" using assms(1) by (simp add: took_def)
    then have "pending m1 t = Some (th_func (m_pool m1 ! t), th_arg (m_pool m1 ! t))" by (simp add: pending_def split: if_splits)
    then show ?thesis using assms(3) by simp
  qed
  have e: "m_event m' = remove1 t (m_event m)" "pending m' = (pending m)(t := None)" "wf_master m'"
    using took_weaken [OF assms(1,3,4)] by simp_all
  show ?thesis
    unfolding fetch_post_def res.case prod.case option.case
    using p e assms(5) by (cases "m_event m") auto
qed

lemma fetch_loop_post: "wf_master m \<Longrightarrow> fetch_post m (fetch_loop env m)"
proof (induction env m rule: fetch_loop.induct)
  case (1 m)
  then show ?case by (simp add: fetch_post_def)
next
  case (2 now sel env m)
  note wf = 2(3)
  let ?due = "find (\<lambda>t. timeval_cmp now (sands m t) \<ge> 0) (m_timer m)"
  have ready: "fetch_post m (thread_run t (m1\<lparr>m_ready := ts\<rparr>))"
    if "wf_master m1" "pending m1 = pending m" "m_event m1 = m_event m" "m_event m = []" "m_ready m1 = t # ts" for m1 t ts
    using thread_run_spec [OF that(1), of t THREAD_READY] took_post [OF _ that(1-3)] that(4,5) by auto
  show ?case
  proof (cases "m_event m")
    case (Cons t ts)
    then show ?thesis
      using thread_run_spec [OF wf, of t THREAD_EVENT] took_post [OF _ wf refl refl] by (auto simp: thread_trim_head_def)
  next
    case Nil
    show ?thesis
    proof (cases ?due)
      case (Some t)
      then have "t \<in> set (m_timer m)" by (auto dest: find_SomeD)
      then show ?thesis
        using Nil Some thread_run_spec [OF wf, of t THREAD_TIMER] took_post [OF _ wf refl refl]
        by (auto simp: thread_trim_head_def thread_list_delete_def)
    next
      case None
      show ?thesis
      proof (cases "m_ready m")
        case (Cons t ts)
        with Nil None ready [OF wf refl refl Nil Cons] show ?thesis by (simp add: thread_trim_head_def)
      next
        case rd: Nil
        show ?thesis
        proof (cases sel)
          case Sel_Again
          then show ?thesis using Nil None rd 2(1) wf by (simp add: thread_trim_head_def)
        next
          case Sel_Error
          then show ?thesis using Nil None rd wf by (simp add: thread_trim_head_def fetch_post_def)
        next
          case (Sel_Ready r w)
          obtain m1 where m1: "process_read (r \<inter> m_readfd m) m = Ok m1" "wf_master m1" "pending m1 = pending m" "m_event m1 = m_event m"
            using process_read_spec [OF wf] by blast
          obtain m2 where m2: "process_write (w \<inter> m_writefd m) m1 = Ok m2" "wf_master m2" "pending m2 = pending m" "m_event m2 = m_event m"
            using process_write_spec [OF m1(2)] m1(3,4) by metis
          show ?thesis
          proof (cases "m_ready m2")
            case (Cons t ts)
            then show ?thesis using ready [OF m2(2-4) Nil Cons] Nil None rd Sel_Ready m1(1) m2(1) by (simp add: thread_trim_head_def)
          next
            case rd2: Nil
            then have "fetch_post m2 (fetch_loop env m2)"
              using 2(2) [OF _ None _ Sel_Ready, of m2] Nil rd m2(2) by (simp add: thread_trim_head_def)
            then have "fetch_post m (fetch_loop env m2)" by (simp only: fetch_post_def m2(3,4))
            then show ?thesis using rd2 Nil None rd Sel_Ready m1(1) m2(1) by (simp add: thread_trim_head_def)
          qed
        qed
      qed
    qed
  qed
qed

lemma thread_fetch_post: "wf_master m \<Longrightarrow> fetch_post m (thread_fetch env m)"
  using fetch_loop_post [of m env] by (simp add: thread_fetch_def fetch_post_def thread_empty_def)

lemma thread_cancel_event_spec:
  fixes m :: "('f, 'a) thread_master"
  assumes "wf_master m"
  shows "\<exists>m'. thread_cancel_event arg m = Ok m' \<and> wf_master m' \<and>
    m_event m' = filter (\<lambda>t. th_arg (m_pool m ! t) \<noteq> arg) (m_event m)"
proof -
  let ?step = "\<lambda>t m. if th_arg (m_pool m ! t) = arg
     then res_bind (thread_list_delete (m_event m) t) (\<lambda>l. thread_retire t (m\<lparr>m_event := l\<rparr>)) else Ok m"
  have "\<exists>m'. res_for ?step l m = Ok m' \<and> wf_master m' \<and> m_event m' = us @ filter (\<lambda>t. th_arg (m_pool m ! t) \<noteq> arg) l"
    if "wf_master m" "m_event m = us @ l" for l us and m :: "('f, 'a) thread_master"
    using that
  proof (induction l arbitrary: us m)
    case Nil
    then show ?case by simp
  next
    case (Cons t l)
    show ?case
    proof (cases "th_arg (m_pool m ! t) = arg")
      case False
      then show ?thesis using Cons.IH [of m "us @ [t]"] Cons.prems by simp
    next
      case True
      have w: "wf_lists {} m" using Cons.prems(1) by (simp add: wf_master_def)
      have t: "t < length (m_pool m)" "th_type (m_pool m ! t) = THREAD_EVENT"
        using Cons.prems(2) wf_lists_mem [OF w, of t THREAD_EVENT] by auto
      have d: "distinct (us @ t # l)" using wf_list_distinct [OF Cons.prems(1), of THREAD_EVENT] Cons.prems(2) by simp
      have w1: "wf_lists {t} (drop_slot THREAD_EVENT t m)"
        using t Cons.prems(2) by (intro wf_lists_remove [OF w, of t THREAD_EVENT]) auto
      from retire_slot_spec [OF Cons.prems(1) t] thread_retire_spec [OF w1] obtain m' where
        m': "thread_retire t (drop_slot THREAD_EVENT t m) = Ok m'" "wf_master m'"
        "\<forall>ty'. ty' \<noteq> THREAD_UNUSED \<longrightarrow> list_of ty' m' = remove1 t (list_of ty' m)" "\<forall>u. u \<noteq> t \<longrightarrow> m_pool m' ! u = m_pool m ! u" by auto
      have ev: "m_event m' = us @ l" using m'(3) [rule_format, of THREAD_EVENT] Cons.prems(2) d by (simp add: remove1_append)
      have "filter (\<lambda>t. th_arg (m_pool m' ! t) \<noteq> arg) l = filter (\<lambda>t. th_arg (m_pool m ! t) \<noteq> arg) l"
        using m'(4) d by (intro filter_cong) auto
      moreover have "?step t m = Ok m'" using True m'(1) Cons.prems(2) by (simp add: thread_list_delete_def)
      ultimately show ?thesis using Cons.IH [OF m'(2) ev] True by auto
    qed
  qed
  from this [OF assms, of "[]"] show ?thesis by (simp add: thread_cancel_event_def)
qed

lemma wf_master_alloc:
  assumes "wf_master m"
  shows "m_alloc m = length (m_read m) + length (m_write m) + length (m_timer m) + length (m_event m) + length (m_ready m) + length (m_unuse m)"
proof -
  have w: "wf_lists {} m" using assms by (simp add: wf_master_def)
  note d = wf_list_distinct [OF assms]
  have mem: "t \<in> set (list_of ty m) \<longleftrightarrow> t < length (m_pool m) \<and> th_type (m_pool m ! t) = ty" for t ty
    using wf_lists_mem [OF w] by simp
  note mems = mem [of _ THREAD_READ] mem [of _ THREAD_WRITE] mem [of _ THREAD_TIMER] mem [of _ THREAD_EVENT]
    mem [of _ THREAD_READY] mem [of _ THREAD_UNUSED]
  let ?all = "m_read m @ m_write m @ m_timer m @ m_event m @ m_ready m @ m_unuse m"
  have "distinct ?all"
    using d [of THREAD_READ] d [of THREAD_WRITE] d [of THREAD_TIMER] d [of THREAD_EVENT] d [of THREAD_READY] d [of THREAD_UNUSED]
      mems by (simp add: disjoint_iff)
  moreover have "t \<in> set ?all \<longleftrightarrow> t < length (m_pool m)" for t
    using mems [of t] by (cases "th_type (m_pool m ! t)") simp_all
  then have "set ?all = {..<length (m_pool m)}" by auto
  ultimately have "length ?all = length (m_pool m)" by (metis card_lessThan distinct_card)
  then show ?thesis using w by (simp add: wf_lists_def)
qed

text \<open>
  The states a program reaches with the operations; a pointer passed to \<^verbatim>\<open>thread_cancel\<close> is one the pool has handed out,
  and a descriptor is below the size of an \<^verbatim>\<open>fd_set\<close>.
\<close>

definition FD_SETSIZE :: nat where "FD_SETSIZE = 1024"

inductive thread_reach :: "('f, 'a) thread_master \<Rightarrow> bool" where
  create: "thread_reach thread_master_create"
| add_read: "thread_reach m \<Longrightarrow> fd < FD_SETSIZE \<Longrightarrow> thread_add_read f a fd m = (r, m') \<Longrightarrow> thread_reach m'"
| add_write: "thread_reach m \<Longrightarrow> fd < FD_SETSIZE \<Longrightarrow> thread_add_write f a fd m = (r, m') \<Longrightarrow> thread_reach m'"
| add_timer: "thread_reach m \<Longrightarrow> tv_ok (deadline now us) \<Longrightarrow> thread_add_timer_high_resolution now f a us m = (t, m') \<Longrightarrow> thread_reach m'"
| add_event: "thread_reach m \<Longrightarrow> thread_add_event f a v m = (t, m') \<Longrightarrow> thread_reach m'"
| cancel: "thread_reach m \<Longrightarrow> t < length (m_pool m) \<Longrightarrow> thread_cancel t m = Ok m' \<Longrightarrow> thread_reach m'"
| cancel_event: "thread_reach m \<Longrightarrow> thread_cancel_event arg m = Ok m' \<Longrightarrow> thread_reach m'"
| fetch: "thread_reach m \<Longrightarrow> thread_fetch env m = Ok (r, m') \<Longrightarrow> thread_reach m'"

lemma thread_reach_wf: "thread_reach m \<Longrightarrow> wf_master m"
proof (induction rule: thread_reach.induct)
  case create
  show ?case by (rule wf_master_create)
next
  case (cancel m t m')
  then show ?case using thread_cancel_spec [of m t] by auto
next
  case (cancel_event m arg m')
  then show ?case using thread_cancel_event_spec [of m arg] by auto
next
  case (fetch m env r m')
  then show ?case using thread_fetch_post [of m env] by (auto simp: fetch_post_def split: option.splits)
next
  case (add_read m fd f a r m')
  then show ?case using thread_add_read_spec [of m f a fd r m'] by simp
next
  case (add_write m fd f a r m')
  then show ?case using thread_add_write_spec [of m f a fd r m'] by simp
next
  case (add_timer m now us f a t m')
  then show ?case using thread_add_timer_spec [of m now f a us t m'] by simp
next
  case (add_event m f a v t m')
  then show ?case using thread_add_event_spec [of m f a v t m'] by simp
qed

text \<open>
  C32. In every state a program reaches through the operations of the event loop, with descriptors below \<^verbatim>\<open>FD_SETSIZE\<close> and
  deadlines before 2038, each allocated thread is in exactly one of the six lists, once, and the lists hold no other;
  timers are in order of their deadlines, the descriptor sets are those of the waiting threads, and no assertion of the loop
  can fail: cancelling any thread the loop has handed out, live or stale, succeeds, and a fetch either
  takes a thread, reports an error of \<^verbatim>\<open>select\<close>, or is still waiting.
\<close>

theorem thread_reach_safe:
  assumes "thread_reach m"
  shows "(\<forall>t < m_alloc m. \<exists>!ty. t \<in> set (list_of ty m)) \<and> (\<forall>ty. distinct (list_of ty m) \<and> set (list_of ty m) \<subseteq> {..<m_alloc m}) \<and>
    sorted_wrt tv_le (map (sands m) (m_timer m)) \<and> m_readfd m = set (map (fd_of m) (m_read m)) \<and>
    m_writefd m = set (map (fd_of m) (m_write m)) \<and>
    (\<forall>t < m_alloc m. is_ok (thread_cancel t m)) \<and> is_ok (thread_cancel_event arg m) \<and>
    (\<forall>env e. thread_fetch env m = Err e \<longrightarrow> e = OutOfFuel)"
proof (intro conjI allI impI)
  have wf: "wf_master m" by (rule thread_reach_wf [OF assms])
  then have w: "wf_lists {} m" and alloc: "m_alloc m = length (m_pool m)" by (simp_all add: wf_master_def wf_lists_def)
  show "\<exists>!ty. t \<in> set (list_of ty m)" if "t < m_alloc m" for t
    using wf_lists_mem [OF w, of t] that by (auto simp: alloc)
  show "distinct (list_of ty m)" for ty using w by (simp add: wf_lists_def)
  show "set (list_of ty m) \<subseteq> {..<m_alloc m}" for ty using wf_lists_mem [OF w] by (auto simp: alloc)
  show "sorted_wrt tv_le (map (sands m) (m_timer m))" "m_readfd m = set (map (fd_of m) (m_read m))"
    "m_writefd m = set (map (fd_of m) (m_write m))" using wf by (auto simp: wf_master_def wf_timers_def wf_fds_def)
  show "is_ok (thread_cancel t m)" if "t < m_alloc m" for t using thread_cancel_spec [OF wf that [unfolded alloc]] by auto
  show "is_ok (thread_cancel_event arg m)" using thread_cancel_event_spec [OF wf, of arg] by auto
  show "e = OutOfFuel" if "thread_fetch env m = Err e" for env e
    using thread_fetch_post [OF wf, of env] that by (simp add: fetch_post_def)
qed

theorem thread_reach_safe_witness:
  "\<exists>m :: (nat, nat) thread_master. m_timer m = [0] \<and> m_event m = [1] \<and> is_ok (thread_cancel 0 m) \<and> is_ok (thread_cancel 1 m)"
proof -
  obtain t1 m1 where e1: "thread_add_timer_high_resolution (5, 0) 7 8 2000000 (thread_master_create :: (nat, nat) thread_master) = (t1, m1)"
    by fastforce
  obtain t2 m2 where e2: "thread_add_event 9 8 0 m1 = (t2, m2)" by fastforce
  have "thread_reach m1"
    by (rule thread_reach.add_timer [OF thread_reach.create _ e1]) (simp add: tv_ok_def deadline_def TIMER_SECOND_MICRO_def)
  then have r: "thread_reach m2" by (rule thread_reach.add_event [OF _ e2])
  have "m_timer m2 = [0]" "m_event m2 = [1]" "m_alloc m2 = 2"
    using e1 e2 by (auto simp: thread_add_event_def thread_add_timer_high_resolution_def thread_get_def thread_trim_head_def
        thread_master_create_def thread_list_add_def Let_def)
  then show ?thesis using thread_reach_safe [OF r, of 0] by (intro exI [of _ m2]) simp
qed

text \<open>
  C33. A fetch serves events first and in the order they were added; without events, when the earliest timer is
  due, it is the one that is run, and no other timer has an earlier deadline; without either, the
  oldest thread whose descriptor was found ready.\<close>

theorem thread_fetch_order:
  assumes "thread_reach m" "tv_ok now"
  shows "(\<forall>t ts. m_event m = t # ts \<longrightarrow>
      (\<exists>m'. thread_fetch ((now, sel) # env) m = Ok (Some (m_pool m ! t), m') \<and> m_event m' = ts)) \<and>
    (\<forall>t ts. m_event m = [] \<and> m_timer m = t # ts \<and> tv_le (sands m t) now \<longrightarrow>
      (\<exists>m'. thread_fetch ((now, sel) # env) m = Ok (Some (m_pool m ! t), m') \<and> t \<notin> set (m_timer m')) \<and>
      (\<forall>u \<in> set (m_timer m). tv_le (sands m t) (sands m u))) \<and>
    (\<forall>t ts. m_event m = [] \<and> (\<forall>u \<in> set (m_timer m). \<not> tv_le (sands m u) now) \<and> m_ready m = t # ts \<longrightarrow>
      (\<exists>m'. thread_fetch ((now, sel) # env) m = Ok (Some (m_pool m ! t), m')))"
proof (intro conjI allI impI ballI)
  have wf: "wf_master m" by (rule thread_reach_wf [OF assms(1)])
  have ok: "tv_ok (sands m u)" if "u \<in> set (m_timer m)" for u using wf that by (auto simp: wf_master_def wf_timers_def)
  note run = thread_run_spec [OF wf]
  fix t ts
  show "\<exists>m'. thread_fetch ((now, sel) # env) m = Ok (Some (m_pool m ! t), m') \<and> m_event m' = ts" if "m_event m = t # ts"
    using that run [of t THREAD_EVENT] by (auto simp: thread_fetch_def thread_empty_def thread_trim_head_def took_def)
  show "\<exists>m'. thread_fetch ((now, sel) # env) m = Ok (Some (m_pool m ! t), m') \<and> t \<notin> set (m_timer m')"
    if a: "m_event m = [] \<and> m_timer m = t # ts \<and> tv_le (sands m t) now"
  proof -
    have "timeval_cmp now (sands m t) \<ge> 0" using a timeval_cmp_ok(2) [OF assms(2) ok, of t] by simp
    moreover from run [of t THREAD_TIMER] a obtain m' where
      m': "thread_run t (m\<lparr>m_timer := ts\<rparr>) = Ok (Some (m_pool m ! t), m')" "took m t m'" by auto
    moreover have "t \<notin> set (m_timer m')"
    proof -
      have "pending m' t = None" "wf_lists {} m'" using m'(2) by (auto simp: took_def wf_master_def)
      then show ?thesis using wf_lists_mem [of "{}" m' t THREAD_TIMER] by (auto simp: pending_def)
    qed
    ultimately show ?thesis using a by (auto simp: thread_fetch_def thread_empty_def thread_trim_head_def thread_list_delete_def)
  qed
  show "tv_le (sands m t) (sands m u)"
    if "m_event m = [] \<and> m_timer m = t # ts \<and> tv_le (sands m t) now" "u \<in> set (m_timer m)" for u
    using that wf by (auto simp: wf_master_def wf_timers_def tv_le_def)
  show "\<exists>m'. thread_fetch ((now, sel) # env) m = Ok (Some (m_pool m ! t), m')"
    if a: "m_event m = [] \<and> (\<forall>u \<in> set (m_timer m). \<not> tv_le (sands m u) now) \<and> m_ready m = t # ts"
  proof -
    have "find (\<lambda>t. timeval_cmp now (sands m t) \<ge> 0) (m_timer m) = None"
      using a timeval_cmp_ok(2) [OF assms(2) ok] by (simp add: find_None_iff)
    then show ?thesis using a run [of t THREAD_READY] by (auto simp: thread_fetch_def thread_empty_def thread_trim_head_def)
  qed
qed

definition micros :: "timeval \<Rightarrow> int" where
  "micros a = fst a * TIMER_SECOND_MICRO + snd a"

lemma timeval_subtract_eq:
  assumes "tv_ok a" "tv_ok b"
  shows "timeval_subtract a b =
    (let d = micros a - micros b; s = d div TIMER_SECOND_MICRO; u = d mod TIMER_SECOND_MICRO
     in if s < 0 then (0, 10) else if s > TIMER_SECOND_MICRO then (TIMER_SECOND_MICRO, u) else (s, u))"
proof -
  have r: "- TIMER_SECOND_MICRO < snd a - snd b" "snd a - snd b < TIMER_SECOND_MICRO" using assms by (auto simp: tv_ok_def)
  have m: "micros a - micros b = (snd a - snd b) + (fst a - fst b) * TIMER_SECOND_MICRO" by (simp add: micros_def algebra_simps)
  have M: "TIMER_SECOND_MICRO \<noteq> 0" "0 < TIMER_SECOND_MICRO" by (simp_all add: TIMER_SECOND_MICRO_def)
  have dv: "(micros a - micros b) div TIMER_SECOND_MICRO = (fst a - fst b) + (snd a - snd b) div TIMER_SECOND_MICRO"
    and md: "(micros a - micros b) mod TIMER_SECOND_MICRO = (snd a - snd b) mod TIMER_SECOND_MICRO"
    using M(1) by (simp_all add: m)
  have "adjust_up (adjust_down (fst a - fst b, snd a - snd b)) =
      ((fst a - fst b) + (snd a - snd b) div TIMER_SECOND_MICRO, (snd a - snd b) mod TIMER_SECOND_MICRO)"
  proof (cases "snd a - snd b < 0")
    case True
    have "(snd a - snd b) div TIMER_SECOND_MICRO = -1" "(snd a - snd b) mod TIMER_SECOND_MICRO = snd a - snd b + TIMER_SECOND_MICRO"
      using True r(1)
      by (auto intro!: int_div_pos_eq [where r = "snd a - snd b + TIMER_SECOND_MICRO"]
            int_mod_pos_eq [where q = "-1"])
    then show ?thesis using True r by (simp add: adjust_down.simps adjust_up.simps)
  next
    case False
    then show ?thesis using r by (simp add: adjust_down.simps adjust_up.simps)
  qed
  then show ?thesis using M(2) by (simp add: timeval_subtract_def timeval_adjust_def Let_def dv md)
qed

text \<open>
  The wait passed to \<^verbatim>\<open>select\<close> is a valid time and never oversleeps: it is at most the time to the earliest
  deadline, or 10 microseconds when that has passed, and it is exactly that time when it is less than
  a million seconds away.\<close>

theorem thread_timer_wait_bound:
  assumes "thread_reach m" "tv_ok now" "m_timer m = t # ts"
  shows "\<exists>w. thread_timer_wait now m = Some w \<and> 0 \<le> fst w \<and> 0 \<le> snd w \<and> snd w < TIMER_SECOND_MICRO \<and>
    micros w \<le> max 10 (micros (sands m t) - micros now) \<and>
    (0 \<le> micros (sands m t) - micros now \<and> micros (sands m t) - micros now < TIMER_SECOND_MICRO * TIMER_SECOND_MICRO \<longrightarrow>
       micros w = micros (sands m t) - micros now)"
proof -
  define d s u where "d = micros (sands m t) - micros now" "s = d div TIMER_SECOND_MICRO" "u = d mod TIMER_SECOND_MICRO"
  have ok: "tv_ok (sands m t)" using thread_reach_wf [OF assms(1)] assms(3) by (auto simp: wf_master_def wf_timers_def)
  have d: "d = s * TIMER_SECOND_MICRO + u" "0 \<le> u" "u < TIMER_SECOND_MICRO" by (simp_all add: d_s_u_def TIMER_SECOND_MICRO_def)
  have w: "thread_timer_wait now m = Some (if s < 0 then (0, 10) else if s > TIMER_SECOND_MICRO then (TIMER_SECOND_MICRO, u) else (s, u))"
    using timeval_subtract_eq [OF ok assms(2)] d(2)
    by (simp add: thread_timer_wait_def assms(3) Let_def d_s_u_def(2,3) flip: d_s_u_def(1)) (simp add: TIMER_SECOND_MICRO_def)
  consider "s < 0" | "s > TIMER_SECOND_MICRO" | "0 \<le> s" "s \<le> TIMER_SECOND_MICRO" by linarith
  then show ?thesis
    unfolding d_s_u_def(1) [symmetric] w using d by cases (auto simp: micros_def TIMER_SECOND_MICRO_def)
qed

text \<open>A master with one timer, due at second 7, and one event.\<close>

definition sample_timer :: "(nat, nat) thread_master" where
  "sample_timer = snd (thread_add_timer_high_resolution (5, 0) 7 8 2000000 thread_master_create)"

lemma sample_timer_reach: "thread_reach sample_timer"
proof -
  have ok: "tv_ok (deadline (5, 0) 2000000)" by (simp add: tv_ok_def deadline_def TIMER_SECOND_MICRO_def)
  show ?thesis unfolding sample_timer_def by (rule thread_reach.add_timer [OF thread_reach.create ok surjective_pairing])
qed

lemma sample_timer_eq:
  "m_event sample_timer = []" "m_timer sample_timer = [0]" "m_ready sample_timer = []" "sands sample_timer 0 = (7, 0)"
  by (simp_all add: sample_timer_def thread_add_timer_high_resolution_def thread_get_def thread_trim_head_def
        thread_master_create_def thread_list_add_def Let_def deadline_def TIMER_SECOND_MICRO_def)

theorem thread_fetch_order_witness:
  "\<exists>m'. thread_fetch [((8, 0), Sel_Again)] sample_timer = Ok (Some (m_pool sample_timer ! 0), m') \<and> 0 \<notin> set (m_timer m')"
  using thread_fetch_order [OF sample_timer_reach, of "(8, 0)" Sel_Again "[]"]
  by (simp add: sample_timer_eq tv_ok_def TIMER_SECOND_MICRO_def tv_le_def)

theorem thread_timer_wait_bound_witness:
  "\<exists>w. thread_timer_wait (6, 500000) sample_timer = Some w \<and> micros w = 500000"
  using thread_timer_wait_bound [OF sample_timer_reach _ sample_timer_eq(2), of "(6, 500000)"]
  by (auto simp: sample_timer_eq tv_ok_def TIMER_SECOND_MICRO_def micros_def)

section \<open>Timer pointers\<close>

text \<open>
  What a client that keeps a pointer to its timer relies on: starting a timer for a job gives a fresh
  slot, stopping a pending one removes exactly it, and neither touches other jobs.  \<open>jobs m j\<close> is the
  set of slots pending for job \<open>j\<close>; a pointer variable owns a job when this set is what it points to.
\<close>

locale timer_service =
  fixes inv :: "'m \<Rightarrow> bool"
    and pend :: "'m \<Rightarrow> nat \<Rightarrow> 'j option"
    and start_ok :: "nat \<Rightarrow> 'j \<Rightarrow> bool"
    and start :: "nat \<Rightarrow> 'j \<Rightarrow> 'm \<Rightarrow> nat \<times> 'm"
    and stop :: "nat \<Rightarrow> 'm \<Rightarrow> 'm res"
  assumes start_law: "inv m \<Longrightarrow> start_ok d job \<Longrightarrow> start d job m = (t, m') \<Longrightarrow>
      inv m' \<and> pend m t = None \<and> pend m' = (pend m)(t \<mapsto> job)"
    and stop_law: "inv m \<Longrightarrow> pend m t \<noteq> None \<Longrightarrow> \<exists>m'. stop t m = Ok m' \<and> inv m' \<and> pend m' = (pend m)(t := None)"
begin

definition jobs :: "'m \<Rightarrow> 'j \<Rightarrow> nat set" where
  "jobs m job = {t. pend m t = Some job}"

definition off :: "nat option \<Rightarrow> 'm \<Rightarrow> 'm res" where
  "off ptr m = (case ptr of None \<Rightarrow> Ok m | Some t \<Rightarrow> stop t m)"

lemma jobs_start:
  assumes "inv m" "start_ok d job" "start d job m = (t, m')"
  shows "inv m' \<and> t \<notin> jobs m job \<and> (\<forall>j. jobs m' j = (if j = job then insert t (jobs m job) else jobs m j))"
  using start_law [OF assms] by (auto simp: jobs_def)

lemma jobs_taken:
  assumes "pend m t = Some job" "pend m' = (pend m)(t := None)"
  shows "jobs m' j = (if j = job then jobs m job - {t} else jobs m j)"
  using assms by (auto simp: jobs_def)

lemma jobs_off:
  assumes "inv m" "set_option ptr \<subseteq> jobs m job"
  shows "\<exists>m'. off ptr m = Ok m' \<and> inv m' \<and> (\<forall>j. jobs m' j = (if j = job then jobs m job - set_option ptr else jobs m j))"
proof (cases ptr)
  case None
  then show ?thesis using assms by (simp add: off_def)
next
  case (Some t)
  then have p: "pend m t = Some job" using assms(2) by (simp add: jobs_def)
  then obtain m' where m': "stop t m = Ok m'" "inv m'" "pend m' = (pend m)(t := None)" using stop_law [OF assms(1), of t] by auto
  show ?thesis using Some m'(1,2) jobs_taken [OF p m'(3)] by (simp add: off_def)
qed

end

end
