(* ===== verification/Lsd_State.thy ===== *)
theory Lsd_State
  imports Lsdb Thread_Pool
begin

text \<open>
  The state of the link-state daemon (\<^verbatim>\<open>lsd/\<close>) and the operations its protocols share: interfaces and
  areas (\<^verbatim>\<open>lsd_if.c\<close>), packets and sending (\<^verbatim>\<open>lsd_socket.c\<close>), timers on the event loop, and access to the
  link-state database of an area.  Interfaces, areas and router interfaces are never freed: a pointer is
  an index into the list of all objects of its kind, and a chain is the list of indices from its first
  element.  Time of day, socket options and the configuration are fields of the state.
\<close>

section \<open>Packets\<close>

record link_state_adv =
  la_key :: link_state_key
  la_addr :: u32
  la_metric :: u32
  la_state :: u8
  la_seq :: u32

text \<open>
  The packet behind the common header, by packet type: the two hellos (\<^verbatim>\<open>hello_interval\<close>, \<^verbatim>\<open>dead_interval\<close>),
  an exchange packet (\<^verbatim>\<open>type\<close>, \<^verbatim>\<open>more\<close>, \<^verbatim>\<open>length\<close>, \<^verbatim>\<open>seq\<close> and the advertisements behind the header), a flood
  packet (\<^verbatim>\<open>type\<close>, \<^verbatim>\<open>seq\<close>, \<^verbatim>\<open>size\<close> and the advertisements), or a packet of another type.
\<close>

datatype lsd_body =
    HelloHigh u32 u32
  | HelloLow u32 u32
  | Exchange u8 u8 u16 u32 "link_state_adv list"
  | Flood u8 u32 u32 "link_state_adv list"
  | OtherPkt u8

fun pktype :: "lsd_body \<Rightarrow> u8" where
  "pktype (HelloHigh _ _) = 1"
| "pktype (HelloLow _ _) = 2"
| "pktype (Exchange _ _ _ _ _) = 3"
| "pktype (Flood _ _ _ _) = 4"
| "pktype (OtherPkt n) = n"

record lsd_head =
  hd_version :: u8
  hd_pklen :: u16
  hd_r_id :: u32
  hd_area_id :: u32
  hd_if_id :: u32
  hd_icsum :: u32

definition LSD_VERSION :: u8 where "LSD_VERSION = 2"
definition LSD_CHECKSUM :: u32 where "LSD_CHECKSUM = 0x12345"
definition IC_H_PORT :: u16 where "IC_H_PORT = 19000"
definition IC_L_PORT :: u16 where "IC_L_PORT = 18000"
definition MAX_MESSAGE_LEN :: nat where "MAX_MESSAGE_LEN = 2048"

text \<open>Sizes of the packet structures in bytes.\<close>

definition SIZEOF_HELLO :: nat where "SIZEOF_HELLO = 28"
definition SIZEOF_EXCHANGE :: nat where "SIZEOF_EXCHANGE = 28"
definition SIZEOF_FLOOD :: nat where "SIZEOF_FLOOD = 32"
definition SIZEOF_LSA :: nat where "SIZEOF_LSA = 32"

record sent_packet =
  sp_addr :: u32
  sp_port :: u16
  sp_ttl :: "int option"        \<comment> \<open>the TTL set for the packet; \<open>None\<close> leaves the default of the socket\<close>
  sp_head :: lsd_head
  sp_body :: lsd_body

section \<open>Protocol state\<close>

datatype eth_state = ETH_DOWN | ETH_UP
datatype lsd_status = LSD_DISCONNETED | LSD_CONNECTED
datatype priority_type = HIGH_PRIORITY_DETECTION | LOW_PRIORITY_DETECTION
datatype exchange_send_state = EXCHANGE_STATE_SEND_TERMINATED | EXCHANGE_STATE_SEND_WAITING | EXCHANGE_STATE_SEND_END
datatype exchange_rcv_state = EXCHANGE_STATE_RCV_TREMINATED | EXCHANGE_STATE_RCV_WAITING | EXCHANGE_STATE_RCV_END
datatype flood_state = FLOOD_READY | FLOOD_BUSY | FLOOD_ACK_WAITING | FLOOD_TERMINATED

record lsd_neighbor_info =
  ni_rt_id :: u32
  ni_if_id :: u32

record hello_master =
  h_dead_timer_high :: "nat option"
  h_dead_timer_low :: "nat option"
  h_hello_timer_high :: "nat option"
  h_hello_timer_low :: "nat option"
  high_status :: lsd_status
  low_status :: lsd_status
  h_neighbor :: lsd_neighbor_info
  h_hello_val :: u32
  h_dead_val :: u32
  l_hello_val :: u32
  l_dead_val :: u32

text \<open>A send buffer holds the length and the body of the last packet; the rest of its header is written by
  \<^verbatim>\<open>lsd_send\<close>.  \<^verbatim>\<open>has_more\<close> of the exchange master is never used.\<close>

record exchange_master =
  send_state :: exchange_send_state
  rcv_state :: exchange_rcv_state
  ex_links_state :: "cr_lsdb_link_state list"
  ex_pkg_no :: u32
  ex_sendbuf :: "u16 \<times> lsd_body"
  ex_ack_ctrl :: "nat option"
  ex_rcv_ctrl :: "nat option"
  retry_times :: int

record flood_master =
  fl_queue :: "link_state_adv list"
  fl_sendbuf :: "u16 \<times> lsd_body"
  fl_pkg_no :: u32
  fl_state :: flood_state
  fl_ack_ctrl :: "nat option"
  fl_snd_ctrl :: "nat option"

section \<open>Interfaces and areas\<close>

datatype if_type = ACCESS | BACKBONE | UNKNOWN_IF

record neighbor =
  nb_devid :: u32
  nb_rid :: u32
  nb_router_addr :: u32
  nb_agent_addr :: u32

record proto_info =
  proto_type :: u32
  pi_areaid :: u32
  pi_cost :: u32

text \<open>A router interface (\<^verbatim>\<open>router/interface.h\<close>) as the daemon sees it; \<open>ri_connected\<close> are the addresses of its
  details, \<open>ri_vinterface\<close> the daemon's own object for it.\<close>

record rinterface =
  ri_type :: if_type
  ri_op_state :: eth_state
  ri_ctl_id :: u32
  ri_proto :: "proto_info option"
  ri_neighbor :: "neighbor option"
  ri_connected :: "u32 list option"
  ri_vinterface :: "nat option"

definition ROUTER_OSPF :: u32 where "ROUTER_OSPF = 1"
definition ROUTER_BGP :: u32 where "ROUTER_BGP = 2"

record neighbor_pma =
  np_rid :: u32
  np_device_id :: u32
  np_ctl_addr :: u32
  np_router_addr :: u32

record backbone_eth =
  bb_ifid :: u32
  bb_state :: eth_state
  bb_neighbor :: neighbor_pma
  bb_az :: nat
  bb_interface :: nat
  bb_exchange :: "exchange_master option"
  bb_flood :: "flood_master option"
  bb_hello :: "hello_master option"

record access_eth =
  ac_ifid :: u32
  ac_state :: eth_state
  ac_interface :: nat

record autonomous_zone =
  az_device_id :: u32
  az_r_id :: u32
  az_id :: u32
  az_lsdb :: lsdb
  az_backbones :: "nat list"

text \<open>The callbacks given to the event loop, and their arguments.\<close>

datatype lsd_func = Interface_up | Interface_down | Hello_high_send | Hello_low_send | Dead_timer_high | Dead_timer_low
  | Ack_time_excceed | Flood_ack_timeout | Flood_send_lsa | Spread_local_link_state | Lsd_receive

datatype lsd_arg = NoArg | Bb nat | Acc nat

type_synonym job = "lsd_func \<times> lsd_arg"

text \<open>The whole daemon.  Values the code leaves uninitialised are read from \<open>junk\<close>.\<close>

record lsd =
  zones :: "autonomous_zone list"
  azs :: "nat list"
  bbs :: "backbone_eth list"
  acs :: "access_eth list"
  accesses :: "nat list"
  ifs :: "rinterface list"
  tm :: "(lsd_func, lsd_arg) thread_master"
  now :: timeval
  sent :: "sent_packet list"
  to_bm :: "lsdb_packet list"
  periodctrl :: "nat option"
  flood_called :: bool
  outside :: int
  default_ttl :: int
  ttl_ok :: bool
  lr_inited :: bool
  lr_agentid :: u32
  lr_routerid :: u32
  junk :: u32

definition upd_bb :: "nat \<Rightarrow> (backbone_eth \<Rightarrow> backbone_eth) \<Rightarrow> lsd \<Rightarrow> lsd" where
  "upd_bb e f w = w\<lparr>bbs := (bbs w)[e := f (bbs w ! e)]\<rparr>"

abbreviation bb :: "lsd \<Rightarrow> nat \<Rightarrow> backbone_eth" where
  "bb w e \<equiv> bbs w ! e"

abbreviation zone_of :: "lsd \<Rightarrow> nat \<Rightarrow> autonomous_zone" where
  "zone_of w e \<equiv> zones w ! bb_az (bb w e)"

section \<open>Timers\<close>

definition add_timer :: "nat \<Rightarrow> job \<Rightarrow> lsd \<Rightarrow> nat \<times> lsd" where
  "add_timer us job w =
     (let (t, m) = thread_add_timer_high_resolution (now w) (fst job) (snd job) us (tm w) in (t, w\<lparr>tm := m\<rparr>))"

definition add_event :: "job \<Rightarrow> lsd \<Rightarrow> nat \<times> lsd" where
  "add_event job w = (let (t, m) = thread_add_event (fst job) (snd job) 0 (tm w) in (t, w\<lparr>tm := m\<rparr>))"

definition stop_timer :: "nat \<Rightarrow> lsd \<Rightarrow> lsd res" where
  "stop_timer t w = res_map (\<lambda>m. w\<lparr>tm := m\<rparr>) (thread_cancel t (tm w))"

definition timer_off :: "nat option \<Rightarrow> lsd \<Rightarrow> lsd res" where
  "timer_off ptr w = (case ptr of None \<Rightarrow> Ok w | Some t \<Rightarrow> stop_timer t w)"

section \<open>Areas and interfaces (\<^verbatim>\<open>lsd_if.c\<close>)\<close>

definition eth_state_update :: "eth_state \<Rightarrow> lsd_arg \<Rightarrow> lsd \<Rightarrow> lsd" where
  "eth_state_update st p w = snd (add_event (if st = ETH_UP then Interface_up else Interface_down, p) w)"

definition get_backbone_by_neighbor_id :: "nat \<Rightarrow> u32 \<Rightarrow> lsd \<Rightarrow> nat option" where
  "get_backbone_by_neighbor_id z i w = find (\<lambda>e. np_device_id (bb_neighbor (bb w e)) = i) (az_backbones (zones w ! z))"

definition find_autonomous_zone :: "u32 \<Rightarrow> lsd \<Rightarrow> nat option" where
  "find_autonomous_zone area w = find (\<lambda>z. az_id (zones w ! z) = area) (azs w)"

definition get_autonomous_zone_by_id :: "u32 \<Rightarrow> lsd \<Rightarrow> nat option" where
  "get_autonomous_zone_by_id area w = find (\<lambda>z. az_id (zones w ! z) = area) (azs w)"

text \<open>A database handle is the area that owns the database.\<close>

definition get_area_id_by_lsdb_handle :: "nat \<Rightarrow> lsd \<Rightarrow> u32" where
  "get_area_id_by_lsdb_handle h w =
     (case find (\<lambda>z. z = h) (azs w) of Some z \<Rightarrow> az_id (zones w ! z) | None \<Rightarrow> word_of_int NOT_FOUND_ERR)"

text \<open>The array of \<^verbatim>\<open>get_all_areas\<close> has 256 entries.\<close>

definition get_all_areas :: "lsd \<Rightarrow> (int list option) res" where
  "get_all_areas w =
     (if azs w = [] then Ok None
      else if length (azs w) > 256 then Err OutOfBounds
      else Ok (Some (map (\<lambda>z. int_of_u32 (az_id (zones w ! z))) (azs w))))"

definition backbone_eth_add :: "nat \<Rightarrow> nat \<Rightarrow> lsd \<Rightarrow> lsd" where
  "backbone_eth_add z e w =
     (let w1 = upd_bb e (\<lambda>b. b\<lparr>bb_az := z\<rparr>) w
      in w1\<lparr>zones := (zones w1)[z := (zones w1 ! z)\<lparr>az_backbones := e # az_backbones (zones w1 ! z)\<rparr>]\<rparr>)"

definition access_eth_add :: "nat \<Rightarrow> lsd \<Rightarrow> lsd" where
  "access_eth_add a w = w\<lparr>accesses := a # accesses w\<rparr>"

definition autonomous_zone_add :: "nat \<Rightarrow> lsd \<Rightarrow> lsd" where
  "autonomous_zone_add z w = w\<lparr>azs := z # azs w\<rparr>"

definition cost_of :: "nat \<Rightarrow> lsd \<Rightarrow> u32 res" where
  "cost_of i w = (case ri_proto (ifs w ! i) of None \<Rightarrow> Err NullDeref | Some p \<Rightarrow> Ok (pi_cost p))"

definition get_metric_of_backbone :: "nat \<Rightarrow> lsd \<Rightarrow> u32 res" where
  "get_metric_of_backbone e w = cost_of (bb_interface (bb w e)) w"

definition get_metric_of_access :: "nat \<Rightarrow> lsd \<Rightarrow> u32 res" where
  "get_metric_of_access a w = cost_of (ac_interface (acs w ! a)) w"

definition get_address_of_interface :: "nat \<Rightarrow> lsd \<Rightarrow> u32 list res" where
  "get_address_of_interface i w = (case ri_connected (ifs w ! i) of None \<Rightarrow> Err NullDeref | Some l \<Rightarrow> Ok l)"

text \<open>The first address; without one the result is not written.\<close>

definition first_address :: "nat \<Rightarrow> lsd \<Rightarrow> (int \<times> u32) res" where
  "first_address i w =
     res_map (\<lambda>l. case l of [] \<Rightarrow> (-1, junk w) | a # _ \<Rightarrow> (0, a)) (get_address_of_interface i w)"

definition get_address_of_backbone :: "nat \<Rightarrow> lsd \<Rightarrow> (int \<times> u32) res" where
  "get_address_of_backbone e w = first_address (bb_interface (bb w e)) w"

definition get_address_of_access :: "nat \<Rightarrow> lsd \<Rightarrow> (int \<times> u32) res" where
  "get_address_of_access a w = first_address (ac_interface (acs w ! a)) w"

text \<open>\<^verbatim>\<open>lsd_iflist_init\<close>: one interface of the router after the other.\<close>

definition new_zone :: "u32 \<Rightarrow> lsd \<Rightarrow> nat \<times> lsd" where
  "new_zone area w =
     (let z = length (zones w)
      in (z, autonomous_zone_add z (w\<lparr>zones := zones w @
            [\<lparr>az_device_id = lr_agentid w, az_r_id = lr_routerid w, az_id = area, az_lsdb = cr_lsdb_init, az_backbones = []\<rparr>]\<rparr>)))"

definition new_backbone :: "nat \<Rightarrow> lsd \<Rightarrow> nat \<times> lsd" where
  "new_backbone i w =
     (length (bbs w), w\<lparr>bbs := bbs w @
        [\<lparr>bb_ifid = 0, bb_state = ETH_DOWN, bb_neighbor = \<lparr>np_rid = 0, np_device_id = 0, np_ctl_addr = 0, np_router_addr = 0\<rparr>,
          bb_az = 0, bb_interface = i, bb_exchange = None, bb_flood = None, bb_hello = None\<rparr>]\<rparr>)"

definition copy_neighbor :: "neighbor option \<Rightarrow> neighbor_pma \<Rightarrow> neighbor_pma" where
  "copy_neighbor n p = (case n of None \<Rightarrow> p
     | Some nb \<Rightarrow> \<lparr>np_rid = nb_rid nb, np_device_id = nb_devid nb, np_ctl_addr = nb_agent_addr nb, np_router_addr = nb_router_addr nb\<rparr>)"

definition init_backbone :: "nat \<Rightarrow> lsd \<Rightarrow> lsd res" where
  "init_backbone i w =
     (let face = ifs w ! i;
          (e, w1) = (case ri_vinterface face of Some e \<Rightarrow> (e, w) | None \<Rightarrow> new_backbone i w);
          w2 = upd_bb e (\<lambda>b. b\<lparr>bb_interface := i, bb_ifid := ri_ctl_id face, bb_state := ri_op_state face,
                               bb_neighbor := copy_neighbor (ri_neighbor face) (bb_neighbor b)\<rparr>) w1
      in case ri_proto face of
           None \<Rightarrow> Err NullDeref
         | Some p \<Rightarrow>
             (let area = (if proto_type p = ROUTER_BGP then 0 else if proto_type p = ROUTER_OSPF then pi_areaid p else 0);
                  (z, w3) = (case find_autonomous_zone area w2 of Some z \<Rightarrow> (z, w2) | None \<Rightarrow> new_zone area w2);
                  w4 = w3\<lparr>ifs := (ifs w3)[i := (ifs w3 ! i)\<lparr>ri_vinterface := Some e\<rparr>]\<rparr>;
                  w5 = (if ri_vinterface face = None then backbone_eth_add z e w4 else w4)
              in Ok (eth_state_update (bb_state (bb w5 e)) (Bb e) w5)))"

definition init_access :: "nat \<Rightarrow> lsd \<Rightarrow> lsd" where
  "init_access i w =
     (let face = ifs w ! i;
          (a, w1) = (case ri_vinterface face of
             Some a \<Rightarrow> (a, w)
           | None \<Rightarrow> (length (acs w), access_eth_add (length (acs w))
                        (w\<lparr>acs := acs w @ [\<lparr>ac_ifid = 0, ac_state = ETH_DOWN, ac_interface = i\<rparr>]\<rparr>)));
          w2 = w1\<lparr>acs := (acs w1)[a := \<lparr>ac_ifid = ri_ctl_id face, ac_state = ri_op_state face, ac_interface = i\<rparr>],
                   ifs := (ifs w1)[i := (ifs w1 ! i)\<lparr>ri_vinterface := Some a\<rparr>]\<rparr>
      in eth_state_update (ri_op_state face) (Acc a) w2)"

definition init_interface :: "nat \<Rightarrow> lsd \<Rightarrow> lsd res" where
  "init_interface i w =
     (case ri_type (ifs w ! i) of
        BACKBONE \<Rightarrow> init_backbone i w
      | ACCESS \<Rightarrow> Ok (init_access i w)
      | UNKNOWN_IF \<Rightarrow> Ok w)"

definition lsd_iflist_init :: "lsd \<Rightarrow> (int \<times> lsd) res" where
  "lsd_iflist_init w =
     (if \<not> lr_inited w then Ok (-1, w)
      else res_map (\<lambda>w'. (0, w')) (res_for init_interface [0..<length (ifs w)] w))"

section \<open>Sending (\<^verbatim>\<open>lsd_socket.c\<close>)\<close>

definition hello_ttl :: "lsd \<Rightarrow> int" where
  "hello_ttl w = (if outside w = 1 then 3 else if outside w = 0 then 1 else default_ttl w)"

definition lsd_send :: "nat \<Rightarrow> u16 \<Rightarrow> lsd_body \<Rightarrow> lsd \<Rightarrow> int \<times> lsd" where
  "lsd_send e len body w =
     (let nb = bb_neighbor (bb w e); az = zone_of w e; ty = pktype body
      in if np_device_id nb = 0 \<or> np_ctl_addr nb = 0 then (-1, w)
         else if ty \<notin> {1, 2, 3, 4, 6} then (IO_ERR, w)
         else if (ty = 1 \<or> ty = 2) \<and> \<not> ttl_ok w then (IO_ERR, w)
         else (0, w\<lparr>sent := sent w @
                [\<lparr>sp_addr = np_ctl_addr nb, sp_port = (if ty = 2 then IC_L_PORT else IC_H_PORT),
                  sp_ttl = (if ty = 1 \<or> ty = 2 then Some (hello_ttl w) else None),
                  sp_head = \<lparr>hd_version = LSD_VERSION, hd_pklen = len, hd_r_id = az_device_id az, hd_area_id = az_id az,
                             hd_if_id = bb_ifid (bb w e), hd_icsum = LSD_CHECKSUM\<rparr>,
                  sp_body = body\<rparr>]\<rparr>))"

section \<open>The link-state database of an area\<close>

definition ls_find :: "nat \<Rightarrow> link_state_key \<Rightarrow> lsd \<Rightarrow> cr_lsdb_link_state option" where
  "ls_find z k w = cr_lsdb_link_state_find k (az_lsdb (zones w ! z))"

definition put_db :: "nat \<Rightarrow> (int \<times> lsdb \<times> lsdb_packet list) \<Rightarrow> lsd \<Rightarrow> int \<times> lsd" where
  "put_db z r w = (case r of (c, db, pk) \<Rightarrow>
     (c, w\<lparr>zones := (zones w)[z := (zones w ! z)\<lparr>az_lsdb := db\<rparr>], to_bm := to_bm w @ pk\<rparr>))"

definition ls_add :: "nat \<Rightarrow> cr_lsdb_link_state \<Rightarrow> lsd \<Rightarrow> (int \<times> lsd) res" where
  "ls_add z st w =
     res_map (\<lambda>r. put_db z r w)
       (cr_lsdb_link_state_add (get_area_id_by_lsdb_handle z w) st (az_lsdb (zones w ! z)))"

definition ls_update :: "nat \<Rightarrow> cr_lsdb_link_state \<Rightarrow> lsd \<Rightarrow> (int \<times> lsd) res" where
  "ls_update z st w =
     res_map (\<lambda>r. put_db z r w)
       (cr_lsdb_link_state_update (get_area_id_by_lsdb_handle z w) st (az_lsdb (zones w ! z)))"

end
