(* ===== verification/Lsd_Flood.thy ===== *)
theory Lsd_Flood
  imports Lsd_State
begin

text \<open>
  Flooding of link states (\<^verbatim>\<open>lsd_flood.c\<close>) and the acceptance of received ones (\<^verbatim>\<open>lsd_utils.c\<close>): per
  interface a queue of advertisements sent a few at a time, each packet repeated until it is
  acknowledged.  The part of \<^verbatim>\<open>flood_pkt_received\<close> that only prints a destroy degree changes nothing and is
  left out.
\<close>

section \<open>Conversions and comparisons (\<^verbatim>\<open>lsd_utils.c\<close>)\<close>

definition LSDB_LINK_FRESH_TIME :: int where "LSDB_LINK_FRESH_TIME = 10000000"

definition lsdb_to_lsa_info :: "cr_lsdb_link_state \<Rightarrow> link_state_adv" where
  "lsdb_to_lsa_info d = \<lparr>la_key = ls_key d, la_addr = ls_addr d, la_metric = ls_metric d, la_state = ls_state d, la_seq = ls_seq d\<rparr>"

definition lsa_to_lsdb_info :: "timeval \<Rightarrow> link_state_adv \<Rightarrow> cr_lsdb_link_state" where
  "lsa_to_lsdb_info t l = \<lparr>ls_key = la_key l, ls_addr = la_addr l, ls_metric = la_metric l, ls_state = la_state l,
     ls_seq = la_seq l, ls_age = t\<rparr>"

text \<open>The elapsed microseconds are an \<^verbatim>\<open>unsigned long\<close>.\<close>

definition is_out_of_date :: "timeval \<Rightarrow> cr_lsdb_link_state \<Rightarrow> bool" where
  "is_out_of_date t old \<longleftrightarrow>
     uint (word_of_int ((fst t - fst (ls_age old)) * 1000000 + (snd t - snd (ls_age old))) :: u64) > LSDB_LINK_FRESH_TIME * 15 div 10"

definition link_state_compare :: "cr_lsdb_link_state \<Rightarrow> cr_lsdb_link_state \<Rightarrow> int res" where
  "link_state_compare s1 s2 =
     c_assert (ls_key s1 = ls_key s2)
       (Ok (if ls_seq s1 > ls_seq s2 then 1 else if ls_seq s1 = ls_seq s2 then 0 else -1))"

definition lsa_compare :: "link_state_adv \<Rightarrow> link_state_adv \<Rightarrow> int res" where
  "lsa_compare l1 l2 =
     c_assert (la_key l1 = la_key l2)
       (Ok (if la_seq l1 > la_seq l2 then 1 else if la_seq l1 = la_seq l2 then 0 else -1))"

definition is_keys_equals :: "link_state_key \<Rightarrow> link_state_key \<Rightarrow> bool" where
  "is_keys_equals k1 k2 \<longleftrightarrow> n_rt_id k1 = n_rt_id k2 \<and> n_if_id k1 = n_if_id k2 \<and> rt_id k1 = rt_id k2 \<and> if_id k1 = if_id k2"

section \<open>The send queue\<close>

definition LSA_CT_PER_PAK :: nat where "LSA_CT_PER_PAK = 5"
definition FLOOD_BUFFER_TIME :: nat where "FLOOD_BUFFER_TIME = 100000"
definition FLOOD_ACK_OVER_TIME :: nat where "FLOOD_ACK_OVER_TIME = 20 * 1000000"
definition FLOOD_PERIOD :: nat where "FLOOD_PERIOD = 30000000"
definition FLOOD_PKG_TYPE_LSA :: u8 where "FLOOD_PKG_TYPE_LSA = 0"
definition FLOOD_PKG_TYPE_ACK :: u8 where "FLOOD_PKG_TYPE_ACK = 1"

definition set_flood :: "nat \<Rightarrow> flood_master \<Rightarrow> lsd \<Rightarrow> lsd" where
  "set_flood e f = upd_bb e (\<lambda>b. b\<lparr>bb_flood := Some f\<rparr>)"

definition flood_add_flood_lsa :: "link_state_adv \<Rightarrow> nat \<Rightarrow> lsd \<Rightarrow> lsd" where
  "flood_add_flood_lsa lsa e w =
     (case bb_flood (bb w e) of
        None \<Rightarrow> w
      | Some f \<Rightarrow>
          if fl_state f = FLOOD_TERMINATED then w
          else let f1 = f\<lparr>fl_queue := fl_queue f @ [lsa]\<rparr>
               in if fl_state f = FLOOD_READY
                  then let (t, w1) = add_timer FLOOD_BUFFER_TIME (Flood_send_lsa, Bb e) w
                       in set_flood e (f1\<lparr>fl_state := FLOOD_BUSY, fl_snd_ctrl := Some t\<rparr>) w1
                  else set_flood e f1 w)"

text \<open>The callback that sends the next packet: up to five advertisements from the queue.\<close>

definition flood_send_lsa :: "nat \<Rightarrow> lsd \<Rightarrow> lsd res" where
  "flood_send_lsa e w =
     (case bb_flood (bb w e) of
        None \<Rightarrow> Err NullDeref
      | Some f \<Rightarrow>
          (let lsas = take LSA_CT_PER_PAK (fl_queue f); no = fl_pkg_no f + 1;
               len = of_nat (SIZEOF_FLOOD + SIZEOF_LSA * length lsas);
               body = Flood FLOOD_PKG_TYPE_LSA no (of_nat (length lsas)) lsas;
               (t, w1) = add_timer FLOOD_ACK_OVER_TIME (Flood_ack_timeout, Bb e) w;
               w2 = set_flood e (f\<lparr>fl_snd_ctrl := None, fl_pkg_no := no, fl_queue := drop LSA_CT_PER_PAK (fl_queue f),
                      fl_sendbuf := (len, body), fl_state := FLOOD_ACK_WAITING, fl_ack_ctrl := Some t\<rparr>) w1
           in Ok (snd (lsd_send e len body w2))))"

definition flood_ack_timeout :: "nat \<Rightarrow> lsd \<Rightarrow> lsd res" where
  "flood_ack_timeout e w =
     (case bb_flood (bb w e) of
        None \<Rightarrow> Err NullDeref
      | Some f \<Rightarrow>
          (let w1 = snd (lsd_send e (fst (fl_sendbuf f)) (snd (fl_sendbuf f)) w);
               (t, w2) = add_timer FLOOD_ACK_OVER_TIME (Flood_ack_timeout, Bb e) w1
           in Ok (set_flood e (f\<lparr>fl_ack_ctrl := Some t\<rparr>) w2)))"

definition flood_terminate :: "nat \<Rightarrow> lsd \<Rightarrow> lsd res" where
  "flood_terminate e w =
     (case bb_flood (bb w e) of
        None \<Rightarrow> Err NullDeref
      | Some f \<Rightarrow>
          res_bind (timer_off (fl_ack_ctrl f) w) (\<lambda>w1.
          res_bind (timer_off (fl_snd_ctrl f) w1) (\<lambda>w2.
            Ok (set_flood e (f\<lparr>fl_ack_ctrl := None, fl_snd_ctrl := None, fl_state := FLOOD_TERMINATED, fl_queue := []\<rparr>) w2))))"

definition flood_start :: "nat \<Rightarrow> lsd \<Rightarrow> lsd res" where
  "flood_start e w =
     res_bind (flood_terminate e w) (\<lambda>w1.
       case bb_flood (bb w1 e) of
         None \<Rightarrow> Err NullDeref
       | Some f \<Rightarrow> c_assert (fl_state f = FLOOD_TERMINATED) (Ok (set_flood e (f\<lparr>fl_state := FLOOD_READY\<rparr>) w1)))"

section \<open>Spreading\<close>

definition flood_lsa_spread :: "link_state_adv \<Rightarrow> nat \<Rightarrow> lsd \<Rightarrow> lsd" where
  "flood_lsa_spread lsa z w = fold (flood_add_flood_lsa lsa) (az_backbones (zones w ! z)) w"

definition flood_lsa_forward :: "link_state_adv \<Rightarrow> nat \<Rightarrow> lsd \<Rightarrow> lsd" where
  "flood_lsa_forward lsa e w =
     fold (\<lambda>e'. if e' \<noteq> e then flood_add_flood_lsa lsa e' else id) (az_backbones (zone_of w e)) w"

definition hello_get_neighbor_info :: "nat \<Rightarrow> lsd \<Rightarrow> lsd_neighbor_info res" where
  "hello_get_neighbor_info e w = (case bb_hello (bb w e) of None \<Rightarrow> Err NullDeref | Some h \<Rightarrow> Ok (h_neighbor h))"

definition link_key :: "nat \<Rightarrow> lsd_neighbor_info \<Rightarrow> lsd \<Rightarrow> link_state_key" where
  "link_key e n w = \<lparr>rt_id = az_device_id (zone_of w e), if_id = bb_ifid (bb w e), n_rt_id = ni_rt_id n, n_if_id = ni_if_id n\<rparr>"

definition flood_spread_backbone_link_state :: "nat \<Rightarrow> u8 \<Rightarrow> lsd \<Rightarrow> lsd res" where
  "flood_spread_backbone_link_state e st w =
     res_bind (hello_get_neighbor_info e w) (\<lambda>n.
     c_assert (ni_rt_id n \<noteq> 0)
       (let z = bb_az (bb w e); key = link_key e n w
        in case ls_find z key w of
             Some l \<Rightarrow>
               (let l1 = l\<lparr>ls_state := st, ls_seq := ls_seq l + 1\<rparr>
                in res_bind (ls_update z l1 w) (\<lambda>(_, w1). Ok (flood_lsa_spread (lsdb_to_lsa_info l1) z w1)))
           | None \<Rightarrow>
               res_bind (get_address_of_backbone e w) (\<lambda>(_, addr).
               res_bind (get_metric_of_backbone e w) (\<lambda>metric.
                 let l1 = \<lparr>ls_key = key, ls_addr = addr, ls_metric = metric, ls_state = st, ls_seq = 1,
                           ls_age = (uint (junk w), uint (junk w))\<rparr>
                 in res_bind (ls_add z l1 w) (\<lambda>(_, w1). Ok (flood_lsa_spread (lsdb_to_lsa_info l1) z w1))))))"

text \<open>Every 30 seconds the daemon floods its own link states again, each with the next sequence number.\<close>

definition respread :: "nat \<Rightarrow> link_state_key \<Rightarrow> lsd \<Rightarrow> lsd res" where
  "respread z key w =
     (case ls_find z key w of
        None \<Rightarrow> Ok w
      | Some l \<Rightarrow> (let l1 = l\<lparr>ls_seq := ls_seq l + 1\<rparr>; w1 = flood_lsa_spread (lsdb_to_lsa_info l1) z w
                   in res_map snd (ls_update z l1 w1)))"

definition spread_access :: "nat \<Rightarrow> lsd \<Rightarrow> lsd res" where
  "spread_access a w =
     res_for (\<lambda>z w. respread z \<lparr>rt_id = az_device_id (zones w ! z), if_id = ac_ifid (acs w ! a), n_rt_id = 0, n_if_id = 0\<rparr> w) (azs w) w"

definition spread_backbone :: "nat \<Rightarrow> nat \<Rightarrow> lsd \<Rightarrow> lsd res" where
  "spread_backbone z e w =
     res_bind (hello_get_neighbor_info e w) (\<lambda>n.
       if ni_rt_id n \<noteq> 0
       then respread z \<lparr>rt_id = az_device_id (zones w ! z), if_id = bb_ifid (bb w e), n_rt_id = ni_rt_id n, n_if_id = ni_if_id n\<rparr> w
       else Ok w)"

definition spread_local_link_state :: "lsd \<Rightarrow> lsd res" where
  "spread_local_link_state w =
     res_bind (res_for spread_access (accesses w) w) (\<lambda>w1.
     res_bind (res_for (\<lambda>z w. res_for (spread_backbone z) (az_backbones (zones w ! z)) w) (azs w1) w1) (\<lambda>w2.
       let (t, w3) = add_timer FLOOD_PERIOD (Spread_local_link_state, NoArg) w2 in Ok (w3\<lparr>periodctrl := Some t\<rparr>)))"

definition flood_periodically_flood_terminate :: "lsd \<Rightarrow> lsd res" where
  "flood_periodically_flood_terminate w = res_map (\<lambda>w1. w1\<lparr>periodctrl := None\<rparr>) (timer_off (periodctrl w) w)"

definition flood_periodically_flood_start :: "lsd \<Rightarrow> lsd res" where
  "flood_periodically_flood_start w =
     res_bind (flood_periodically_flood_terminate w) (\<lambda>w1.
       let (t, w2) = add_timer FLOOD_PERIOD (Spread_local_link_state, NoArg) w1 in Ok (w2\<lparr>periodctrl := Some t\<rparr>))"

definition flood_on_eth_state_changed :: "nat \<Rightarrow> lsd \<Rightarrow> lsd res" where
  "flood_on_eth_state_changed e w =
     (let w1 = (case bb_flood (bb w e) of
            Some _ \<Rightarrow> w
          | None \<Rightarrow> set_flood e \<lparr>fl_queue = [], fl_sendbuf = (0, OtherPkt 0), fl_pkg_no = 0, fl_state = FLOOD_TERMINATED,
                                fl_ack_ctrl = None, fl_snd_ctrl = None\<rparr> w)
      in if flood_called w1 then Ok w1
         else res_map (\<lambda>w2. w2\<lparr>flood_called := True\<rparr>) (flood_periodically_flood_start w1))"

section \<open>Accepting an advertisement\<close>

definition check_local_lsdb :: "nat \<Rightarrow> cr_lsdb_link_state \<Rightarrow> lsd \<Rightarrow> (bool \<times> lsd) res" where
  "check_local_lsdb e st w =
     (if rt_id (ls_key st) \<noteq> az_r_id (zone_of w e) then Ok (False, w)
      else case ls_find (bb_az (bb w e)) (ls_key st) w of
             None \<Rightarrow> Ok (True, w)
           | Some local_st \<Rightarrow>
               res_bind (link_state_compare local_st st) (\<lambda>c.
                 Ok (True, if c \<noteq> 0 then flood_add_flood_lsa (lsdb_to_lsa_info local_st) e w else w)))"

definition accept_lsa_into_lsdb :: "nat \<Rightarrow> link_state_adv \<Rightarrow> lsd \<Rightarrow> lsd res" where
  "accept_lsa_into_lsdb e ic_lsa w =
     (let lsa = lsa_to_lsdb_info (now w) ic_lsa; z = bb_az (bb w e)
      in res_bind (check_local_lsdb e lsa w) (\<lambda>(is_local, w0).
           if is_local then Ok w0
           else case ls_find z (ls_key lsa) w0 of
                  None \<Rightarrow> res_bind (ls_add z lsa w0) (\<lambda>(_, w1). Ok (flood_lsa_forward ic_lsa e w1))
                | Some lnk \<Rightarrow>
                    if is_out_of_date (now w0) lnk
                    then res_bind (ls_update z lsa w0) (\<lambda>(_, w1). Ok (flood_lsa_forward ic_lsa e w1))
                    else res_bind (link_state_compare lnk lsa) (\<lambda>ra.
                           if ra < 0
                           then res_bind (ls_update z lsa w0) (\<lambda>(_, w1). Ok (flood_lsa_forward ic_lsa e w1))
                           else if ra > 0 then Ok (flood_add_flood_lsa (lsdb_to_lsa_info lnk) e w0)
                           else Ok w0)))"

text \<open>
  The advertisements behind a packet header lie in the receive buffer of 2048 bytes, which is zeroed before each
  packet: behind the advertisements that were received there are zero ones, and behind the 63 that fit
  there is other memory.
\<close>

definition zero_lsa :: link_state_adv where
  "zero_lsa = \<lparr>la_key = \<lparr>rt_id = 0, if_id = 0, n_rt_id = 0, n_if_id = 0\<rparr>, la_addr = 0, la_metric = 0, la_state = 0, la_seq = 0\<rparr>"

definition LSA_PER_BUF :: nat where "LSA_PER_BUF = 63"

definition lsa_at :: "link_state_adv list \<Rightarrow> nat \<Rightarrow> link_state_adv res" where
  "lsa_at lsas i = (if i \<ge> LSA_PER_BUF then Err OutOfBounds else if i < length lsas then Ok (lsas ! i) else Ok zero_lsa)"

definition accept_lsas :: "nat \<Rightarrow> nat \<Rightarrow> link_state_adv list \<Rightarrow> lsd \<Rightarrow> lsd res" where
  "accept_lsas e count lsas = res_for (\<lambda>i w. res_bind (lsa_at lsas i) (\<lambda>l. accept_lsa_into_lsdb e l w)) [0..<count]"

definition flood_send_ack :: "nat \<Rightarrow> u32 \<Rightarrow> lsd \<Rightarrow> lsd" where
  "flood_send_ack e seq w = snd (lsd_send e (of_nat SIZEOF_FLOOD) (Flood FLOOD_PKG_TYPE_ACK seq 0 []) w)"

definition flood_ack_received :: "nat \<Rightarrow> flood_master \<Rightarrow> u32 \<Rightarrow> lsd \<Rightarrow> lsd res" where
  "flood_ack_received e f seq w =
     (if seq \<noteq> fl_pkg_no f then Ok w
      else res_bind (timer_off (fl_ack_ctrl f) w) (\<lambda>w1.
             if fl_queue f = [] then Ok (set_flood e (f\<lparr>fl_ack_ctrl := None, fl_state := FLOOD_READY\<rparr>) w1)
             else let (t, w2) = add_timer 0 (Flood_send_lsa, Bb e) w1
                  in Ok (set_flood e (f\<lparr>fl_ack_ctrl := None, fl_state := FLOOD_BUSY, fl_snd_ctrl := Some t\<rparr>) w2)))"

text \<open>\<^verbatim>\<open>size\<close> is read into an \<^verbatim>\<open>int\<close>; the loop does not run for a negative count.\<close>

definition flood_pkt_received :: "nat \<Rightarrow> lsd_body \<Rightarrow> lsd \<Rightarrow> lsd res" where
  "flood_pkt_received e body w =
     (case body of
        Flood ty seq sz lsas \<Rightarrow>
          if ty = FLOOD_PKG_TYPE_ACK
          then (case bb_flood (bb w e) of
                  None \<Rightarrow> Err NullDeref
                | Some f \<Rightarrow> if fl_state f = FLOOD_ACK_WAITING then flood_ack_received e f seq w else Ok w)
          else if ty = FLOOD_PKG_TYPE_LSA
          then accept_lsas e (nat (int_of_u32 sz)) lsas (flood_send_ack e seq w)
          else Ok w
      | _ \<Rightarrow> Ok w)"

end
