(* ===== verification/Lsd_Hello.thy ===== *)
theory Lsd_Hello
  imports Lsd_Flood
begin

text \<open>
  The database exchange with a new neighbour (\<^verbatim>\<open>lsd_exchange.c\<close>), the hello protocol that detects
  neighbours (\<^verbatim>\<open>lsd_hello.c\<close>), and the handlers that record a change of a link and start or stop exchange
  and flooding (\<^verbatim>\<open>lsd_handler.c\<close>).  No handler is ever registered for the end of an exchange, so that
  queue is empty.
\<close>

section \<open>Exchange\<close>

definition EX_ACK_OVER_TIME :: nat where "EX_ACK_OVER_TIME = 20000"
definition LINK_LSA_CT_PER_PAK :: nat where "LINK_LSA_CT_PER_PAK = 1"
definition EXCHANGE_PKG_TYPE_LINKS_STATE :: u8 where "EXCHANGE_PKG_TYPE_LINKS_STATE = 0"
definition EXCHANGE_PKG_TYPE_NO_DATA :: u8 where "EXCHANGE_PKG_TYPE_NO_DATA = 2"
definition EXCHANGE_PKG_TYPE_ACK :: u8 where "EXCHANGE_PKG_TYPE_ACK = 3"

definition set_exchange :: "nat \<Rightarrow> exchange_master \<Rightarrow> lsd \<Rightarrow> lsd" where
  "set_exchange e x = upd_bb e (\<lambda>b. b\<lparr>bb_exchange := Some x\<rparr>)"

definition exchange_on_eth_state_changed :: "nat \<Rightarrow> lsd \<Rightarrow> lsd" where
  "exchange_on_eth_state_changed e w =
     (case bb_exchange (bb w e) of
        Some _ \<Rightarrow> w
      | None \<Rightarrow> set_exchange e \<lparr>send_state = EXCHANGE_STATE_SEND_TERMINATED, rcv_state = EXCHANGE_STATE_RCV_WAITING,
                  ex_links_state = [], ex_pkg_no = 0, ex_sendbuf = (0, OtherPkt 0), ex_ack_ctrl = None, ex_rcv_ctrl = None,
                  retry_times = 0\<rparr> w)"

text \<open>\<^verbatim>\<open>exchange_send\<close> fills the buffer with the next link state and starts the acknowledgement timer.\<close>

definition exchange_send :: "nat \<Rightarrow> exchange_master \<Rightarrow> lsd \<Rightarrow> lsd" where
  "exchange_send e x w =
     (let ls = take LINK_LSA_CT_PER_PAK (ex_links_state x); rest = drop LINK_LSA_CT_PER_PAK (ex_links_state x);
          len = of_nat (SIZEOF_EXCHANGE + SIZEOF_LSA * length ls);
          body = Exchange (if ls = [] then EXCHANGE_PKG_TYPE_NO_DATA else EXCHANGE_PKG_TYPE_LINKS_STATE)
                   (if rest = [] then 0 else 1) (of_nat (length ls)) (ex_pkg_no x) (map lsdb_to_lsa_info ls);
          (t, w1) = add_timer EX_ACK_OVER_TIME (Ack_time_excceed, Bb e) w;
          w2 = set_exchange e (x\<lparr>ex_links_state := rest, ex_sendbuf := (len, body),
                 send_state := EXCHANGE_STATE_SEND_WAITING, ex_ack_ctrl := Some t\<rparr>) w1
      in snd (lsd_send e len body w2))"

definition exchange_send_start :: "nat \<Rightarrow> lsd \<Rightarrow> lsd res" where
  "exchange_send_start e w =
     (case bb_exchange (bb w e) of
        None \<Rightarrow> Err AssertFailed
      | Some x \<Rightarrow>
          c_assert (send_state x = EXCHANGE_STATE_SEND_TERMINATED)
            (let (r, ls) = cr_lsdb_get_links_state (az_lsdb (zone_of w e));
                 x1 = x\<lparr>send_state := EXCHANGE_STATE_SEND_WAITING, ex_links_state := ls\<rparr>
             in if r \<noteq> NO_ERR then Ok (set_exchange e x1 w) else Ok (exchange_send e x1 w)))"

definition exchange_terminate :: "nat \<Rightarrow> lsd \<Rightarrow> lsd res" where
  "exchange_terminate e w =
     (case bb_exchange (bb w e) of
        None \<Rightarrow> Err AssertFailed
      | Some x \<Rightarrow>
          res_bind (timer_off (ex_ack_ctrl x) w) (\<lambda>w1.
          res_bind (timer_off (ex_rcv_ctrl x) w1) (\<lambda>w2.
            Ok (set_exchange e (x\<lparr>ex_links_state := [], ex_ack_ctrl := None, ex_rcv_ctrl := None, retry_times := 0,
                  ex_pkg_no := 0, send_state := EXCHANGE_STATE_SEND_TERMINATED,
                  rcv_state := EXCHANGE_STATE_RCV_TREMINATED\<rparr>) w2))))"

definition ack_time_excceed :: "nat \<Rightarrow> lsd \<Rightarrow> lsd res" where
  "ack_time_excceed e w =
     (case bb_exchange (bb w e) of
        None \<Rightarrow> Err NullDeref
      | Some x \<Rightarrow>
          c_assert (send_state x = EXCHANGE_STATE_SEND_WAITING)
            (let (t, w1) = add_timer EX_ACK_OVER_TIME (Ack_time_excceed, Bb e) w;
                 w2 = set_exchange e (x\<lparr>ex_ack_ctrl := Some t\<rparr>) w1
             in Ok (snd (lsd_send e (fst (ex_sendbuf x)) (snd (ex_sendbuf x)) w2))))"

definition exchange_send_ack :: "nat \<Rightarrow> u32 \<Rightarrow> lsd \<Rightarrow> lsd" where
  "exchange_send_ack e seq w = snd (lsd_send e (of_nat SIZEOF_EXCHANGE) (Exchange EXCHANGE_PKG_TYPE_ACK 0 0 seq []) w)"

definition link_lsa_received :: "u16 \<Rightarrow> link_state_adv list \<Rightarrow> nat \<Rightarrow> lsd \<Rightarrow> lsd res" where
  "link_lsa_received len lsas e w = accept_lsas e (unat len) lsas w"

definition ex_ack_received :: "nat \<Rightarrow> exchange_master \<Rightarrow> u32 \<Rightarrow> lsd \<Rightarrow> lsd res" where
  "ex_ack_received e x seq w =
     (if seq \<noteq> ex_pkg_no x then Ok w
      else res_bind (timer_off (ex_ack_ctrl x) w) (\<lambda>w1.
             let x1 = x\<lparr>ex_ack_ctrl := None, retry_times := 0\<rparr>
             in if ex_links_state x \<noteq> [] then Ok (exchange_send e (x1\<lparr>ex_pkg_no := ex_pkg_no x + 1\<rparr>) w1)
                else Ok (set_exchange e (x1\<lparr>send_state := EXCHANGE_STATE_SEND_END\<rparr>) w1)))"

definition set_rcv :: "nat \<Rightarrow> (exchange_master \<Rightarrow> exchange_master) \<Rightarrow> lsd \<Rightarrow> lsd" where
  "set_rcv e f = upd_bb e (\<lambda>b. b\<lparr>bb_exchange := map_option f (bb_exchange b)\<rparr>)"

definition exchange_pkt_received :: "nat \<Rightarrow> lsd_body \<Rightarrow> lsd \<Rightarrow> lsd res" where
  "exchange_pkt_received e body w =
     (case body of
        Exchange ty mr len seq lsas \<Rightarrow>
          (case bb_exchange (bb w e) of
             None \<Rightarrow> Err AssertFailed
           | Some x \<Rightarrow>
               if ty = EXCHANGE_PKG_TYPE_ACK
               then (if send_state x = EXCHANGE_STATE_SEND_WAITING then ex_ack_received e x seq w else Ok w)
               else
                 (let rcv = (if rcv_state x = EXCHANGE_STATE_RCV_TREMINATED then EXCHANGE_STATE_RCV_WAITING else rcv_state x);
                      w1 = set_rcv e (\<lambda>x. x\<lparr>rcv_state := rcv\<rparr>) w
                  in if rcv \<noteq> EXCHANGE_STATE_RCV_WAITING \<or> ty \<noteq> EXCHANGE_PKG_TYPE_LINKS_STATE then Ok w1
                     else res_bind (link_lsa_received len lsas e w1) (\<lambda>w2.
                            let w3 = exchange_send_ack e seq w2
                            in res_bind (timer_off (ex_rcv_ctrl x) w3) (\<lambda>w4.
                                 Ok (set_rcv e (\<lambda>x. x\<lparr>ex_rcv_ctrl := None,
                                       rcv_state := (if mr = 0 then EXCHANGE_STATE_RCV_END else rcv_state x)\<rparr>) w4)))))
      | _ \<Rightarrow> Ok w)"

section \<open>Recording a change of a link\<close>

definition clear_bit_u8 :: "nat \<Rightarrow> u8 \<Rightarrow> u8" where
  "clear_bit_u8 n s = and s (not (push_bit n 1))"

definition set_bit_u8 :: "nat \<Rightarrow> u8 \<Rightarrow> u8" where
  "set_bit_u8 n s = or s (push_bit n 1)"

text \<open>The state byte: bit 0 is \<^verbatim>\<open>hello_low\<close>, bit 1 \<^verbatim>\<open>hello_high\<close> of the union \<^verbatim>\<open>state_changer\<close>.\<close>

definition state_bit :: "nat \<Rightarrow> lsd_status \<Rightarrow> u8 \<Rightarrow> u8" where
  "state_bit n status s = (if status = LSD_CONNECTED then set_bit_u8 n s else clear_bit_u8 n s)"

definition own_link_state :: "nat \<Rightarrow> lsd_neighbor_info \<Rightarrow> lsd \<Rightarrow> cr_lsdb_link_state res" where
  "own_link_state e n w =
     res_bind (get_metric_of_backbone e w) (\<lambda>metric.
     res_bind (get_address_of_backbone e w) (\<lambda>(_, addr).
       Ok \<lparr>ls_key = link_key e n w, ls_addr = addr, ls_metric = metric, ls_state = 0, ls_seq = 0, ls_age = now w\<rparr>))"

definition hello_changed_high :: "nat \<Rightarrow> lsd_status \<Rightarrow> lsd \<Rightarrow> lsd res" where
  "hello_changed_high e status w =
     res_bind (hello_get_neighbor_info e w) (\<lambda>n.
     res_bind (own_link_state e n w) (\<lambda>st0.
       let z = bb_az (bb w e)
       in res_bind
            (case ls_find z (ls_key st0) w of
               None \<Rightarrow>
                 (let st = st0\<lparr>ls_seq := 0, ls_state := (if status = LSD_CONNECTED then 2 else 0)\<rparr>
                  in res_bind (ls_add z st w) (\<lambda>(r, w1). c_assert (r = NO_ERR) (Ok (ls_state st, w1))))
             | Some h_result \<Rightarrow>
                 (let st = st0\<lparr>ls_seq := ls_seq h_result, ls_state := state_bit 1 status (ls_state h_result)\<rparr>
                  in res_bind (ls_update z st w) (\<lambda>(r, w1). c_assert (r = NO_ERR) (Ok (ls_state st, w1)))))
            (\<lambda>(s, w1).
               if status = LSD_CONNECTED
               then res_bind (exchange_send_start e w1) (\<lambda>w2.
                    res_bind (flood_start e w2) (\<lambda>w3. flood_spread_backbone_link_state e s w3))
               else res_bind (exchange_terminate e w1) (\<lambda>w2.
                    res_bind (flood_spread_backbone_link_state e s w2) (\<lambda>w3. flood_terminate e w3)))))"

definition hello_changed_low :: "nat \<Rightarrow> lsd_status \<Rightarrow> lsd \<Rightarrow> lsd res" where
  "hello_changed_low e status w =
     res_bind (hello_get_neighbor_info e w) (\<lambda>n.
     res_bind (own_link_state e n w) (\<lambda>st0.
       let z = bb_az (bb w e)
       in case ls_find z (ls_key st0) w of
            None \<Rightarrow>
              (let st = st0\<lparr>ls_seq := 0, ls_state := (if status = LSD_CONNECTED then 1 else 0)\<rparr>
               in res_bind (ls_add z st w) (\<lambda>(r, w1). c_assert (r = NO_ERR) (flood_spread_backbone_link_state e (ls_state st) w1)))
          | Some l_result \<Rightarrow>
              (let st = st0\<lparr>ls_seq := ls_seq l_result, ls_state := state_bit 0 status (ls_state l_result)\<rparr>
               in res_bind (flood_spread_backbone_link_state e (ls_state st) w) (\<lambda>w1.
                  res_bind (ls_update z st w1) (\<lambda>(r, w2). c_assert (r = NO_ERR) (Ok w2))))))"

definition hello_changed_handler :: "nat \<Rightarrow> priority_type \<Rightarrow> lsd_status \<Rightarrow> lsd \<Rightarrow> lsd res" where
  "hello_changed_handler e ty status w =
     (if ty = HIGH_PRIORITY_DETECTION then hello_changed_high e status w else hello_changed_low e status w)"

definition ace_up_zone :: "nat \<Rightarrow> u32 \<Rightarrow> nat \<Rightarrow> lsd \<Rightarrow> lsd res" where
  "ace_up_zone a addr z w =
     res_bind (get_metric_of_access a w) (\<lambda>metric.
       let st = \<lparr>ls_key = \<lparr>rt_id = az_device_id (zones w ! z), if_id = ac_ifid (acs w ! a), n_rt_id = 0, n_if_id = 0\<rparr>,
                 ls_addr = addr, ls_metric = metric, ls_state = 0, ls_seq = 0, ls_age = now w\<rparr>
       in if ls_find z (ls_key st) w = None
          then res_bind (ls_add z st w) (\<lambda>(r, w1). c_assert (r = NO_ERR) (Ok w1))
          else res_map snd (ls_update z st w))"

definition ace_up_handler :: "nat \<Rightarrow> lsd \<Rightarrow> lsd res" where
  "ace_up_handler a w =
     res_bind (get_address_of_access a w) (\<lambda>(_, addr). res_for (ace_up_zone a addr) (azs w) w)"

section \<open>Hello\<close>

definition TMP_VAR :: u32 where "TMP_VAR = 100000"
definition H_HELLO_VAL :: u32 where "H_HELLO_VAL = 1"
definition L_HELLO_VAL :: u32 where "L_HELLO_VAL = 20"
definition H_DEAD_VAL :: u32 where "H_DEAD_VAL = 4"
definition L_DEAD_VAL :: u32 where "L_DEAD_VAL = 80"

definition set_hello :: "nat \<Rightarrow> hello_master \<Rightarrow> lsd \<Rightarrow> lsd" where
  "set_hello e h = upd_bb e (\<lambda>b. b\<lparr>bb_hello := Some h\<rparr>)"

definition new_hello_master :: hello_master where
  "new_hello_master = \<lparr>h_dead_timer_high = None, h_dead_timer_low = None, h_hello_timer_high = None, h_hello_timer_low = None,
     high_status = LSD_DISCONNETED, low_status = LSD_DISCONNETED, h_neighbor = \<lparr>ni_rt_id = 0, ni_if_id = 0\<rparr>,
     h_hello_val = 0, h_dead_val = 0, l_hello_val = 0, l_dead_val = 0\<rparr>"

definition hello_on_eth_state_changed :: "nat \<Rightarrow> lsd \<Rightarrow> lsd res" where
  "hello_on_eth_state_changed e w =
     (let h = (case bb_hello (bb w e) of None \<Rightarrow> new_hello_master | Some h \<Rightarrow> h); w0 = set_hello e h w
      in case bb_state (bb w e) of
           ETH_DOWN \<Rightarrow>
             res_bind (timer_off (h_hello_timer_high h) w0) (\<lambda>w1.
             res_bind (timer_off (h_hello_timer_low h) w1) (\<lambda>w2.
               Ok (set_hello e (h\<lparr>h_hello_timer_high := None, h_hello_timer_low := None\<rparr>) w2)))
         | ETH_UP \<Rightarrow>
             (let (t1, w1) = add_event (Hello_high_send, Bb e) w0; (t2, w2) = add_event (Hello_low_send, Bb e) w1
              in Ok (set_hello e (h\<lparr>h_hello_val := H_HELLO_VAL, l_hello_val := L_HELLO_VAL, h_dead_val := H_DEAD_VAL,
                       l_dead_val := L_DEAD_VAL, h_hello_timer_high := Some t1, h_hello_timer_low := Some t2\<rparr>) w2)))"

definition hello_high_send :: "nat \<Rightarrow> lsd \<Rightarrow> lsd res" where
  "hello_high_send e w =
     (case bb_hello (bb w e) of
        None \<Rightarrow> Err NullDeref
      | Some h \<Rightarrow>
          (let (t, w1) = add_timer (unat (h_hello_val h * TMP_VAR)) (Hello_high_send, Bb e) w;
               w2 = set_hello e (h\<lparr>h_hello_timer_high := Some t\<rparr>) w1
           in Ok (snd (lsd_send e (of_nat SIZEOF_HELLO) (HelloHigh (TMP_VAR * h_hello_val h) (TMP_VAR * h_dead_val h)) w2))))"

definition hello_low_send :: "nat \<Rightarrow> lsd \<Rightarrow> lsd res" where
  "hello_low_send e w =
     (case bb_hello (bb w e) of
        None \<Rightarrow> Err NullDeref
      | Some h \<Rightarrow>
          (let (t, w1) = add_timer (unat (TMP_VAR * l_hello_val h)) (Hello_low_send, Bb e) w;
               w2 = set_hello e (h\<lparr>h_hello_timer_low := Some t\<rparr>) w1
           in Ok (snd (lsd_send e (of_nat SIZEOF_HELLO) (HelloLow (TMP_VAR * l_hello_val h) (TMP_VAR * l_dead_val h)) w2))))"

definition hello_on_high_packet_received :: "nat \<Rightarrow> lsd_head \<Rightarrow> lsd_body \<Rightarrow> lsd \<Rightarrow> lsd res" where
  "hello_on_high_packet_received e head body w =
     (if pktype body \<noteq> 1 then Ok w
      else case bb_hello (bb w e) of
             None \<Rightarrow> Err NullDeref
           | Some h \<Rightarrow>
               res_bind (timer_off (h_dead_timer_high h) w) (\<lambda>w1.
                 let (t, w2) = add_timer (unat (TMP_VAR * h_dead_val h)) (Dead_timer_high, Bb e) w1;
                     h1 = h\<lparr>h_dead_timer_high := Some t\<rparr>
                 in if high_status h = LSD_DISCONNETED
                    then hello_changed_handler e HIGH_PRIORITY_DETECTION LSD_CONNECTED
                           (set_hello e (h1\<lparr>high_status := LSD_CONNECTED,
                              h_neighbor := \<lparr>ni_rt_id = hd_r_id head, ni_if_id = hd_if_id head\<rparr>\<rparr>) w2)
                    else Ok (set_hello e h1 w2)))"

definition hello_on_low_packet_received :: "nat \<Rightarrow> lsd_head \<Rightarrow> lsd_body \<Rightarrow> lsd \<Rightarrow> lsd res" where
  "hello_on_low_packet_received e head body w =
     (if pktype body \<noteq> 2 then Ok w
      else case bb_hello (bb w e) of
             None \<Rightarrow> Err NullDeref
           | Some h \<Rightarrow>
               res_bind (timer_off (h_dead_timer_low h) w) (\<lambda>w1.
                 let (t, w2) = add_timer (unat (TMP_VAR * l_dead_val h)) (Dead_timer_low, Bb e) w1;
                     h1 = h\<lparr>h_dead_timer_low := Some t\<rparr>
                 in if low_status h = LSD_DISCONNETED
                    then hello_changed_handler e LOW_PRIORITY_DETECTION LSD_CONNECTED
                           (set_hello e (h1\<lparr>low_status := LSD_CONNECTED,
                              h_neighbor := \<lparr>ni_rt_id = hd_r_id head, ni_if_id = hd_if_id head\<rparr>\<rparr>) w2)
                    else Ok (set_hello e h1 w2)))"

definition dead_timer_high :: "nat \<Rightarrow> lsd \<Rightarrow> lsd res" where
  "dead_timer_high e w =
     (case bb_hello (bb w e) of
        None \<Rightarrow> Err NullDeref
      | Some h \<Rightarrow>
          c_assert (high_status h = LSD_CONNECTED)
            (hello_changed_handler e HIGH_PRIORITY_DETECTION LSD_DISCONNETED
               (set_hello e (h\<lparr>h_dead_timer_high := None, high_status := LSD_DISCONNETED\<rparr>) w)))"

definition dead_timer_low :: "nat \<Rightarrow> lsd \<Rightarrow> lsd res" where
  "dead_timer_low e w =
     (case bb_hello (bb w e) of
        None \<Rightarrow> Err NullDeref
      | Some h \<Rightarrow>
          c_assert (low_status h = LSD_CONNECTED)
            (hello_changed_handler e LOW_PRIORITY_DETECTION LSD_DISCONNETED
               (set_hello e (h\<lparr>h_dead_timer_low := None, low_status := LSD_DISCONNETED\<rparr>) w)))"

definition hello_get_eth_state :: "nat \<Rightarrow> lsd \<Rightarrow> (lsd_status \<times> lsd_status) res" where
  "hello_get_eth_state e w = (case bb_hello (bb w e) of None \<Rightarrow> Err NullDeref | Some h \<Rightarrow> Ok (high_status h, low_status h))"

section \<open>Events, packets and the main loop (\<^verbatim>\<open>lsd_event.c\<close>, \<^verbatim>\<open>lsd_socket.c\<close>, \<^verbatim>\<open>lsdsrv.c\<close>)\<close>

text \<open>
  A handler queue is extended at the front (\<^verbatim>\<open>lib/event.c\<close>), so \<^verbatim>\<open>lsd_init\<close> makes the handlers run in the
  opposite order of their registration.
\<close>

definition add_event_handler :: "'h list \<Rightarrow> 'h \<Rightarrow> 'h list" where
  "add_event_handler queue h = h # queue"

definition backbone_queue :: "(nat \<Rightarrow> lsd \<Rightarrow> lsd res) list" where
  "backbone_queue = fold (\<lambda>h q. add_event_handler q h)
     [hello_on_eth_state_changed, \<lambda>e w. Ok (exchange_on_eth_state_changed e w), flood_on_eth_state_changed] []"

definition access_queue :: "(nat \<Rightarrow> lsd \<Rightarrow> lsd res) list" where
  "access_queue = fold (\<lambda>h q. add_event_handler q h) [ace_up_handler] []"

definition pkt_rcv_queue :: "(nat \<Rightarrow> lsd_head \<Rightarrow> lsd_body \<Rightarrow> lsd \<Rightarrow> lsd res) list" where
  "pkt_rcv_queue = fold (\<lambda>h q. add_event_handler q h)
     [hello_on_high_packet_received, hello_on_low_packet_received, \<lambda>e h. exchange_pkt_received e, \<lambda>e h. flood_pkt_received e] []"

definition interface_changed :: "lsd_arg \<Rightarrow> lsd \<Rightarrow> lsd res" where
  "interface_changed p w =
     (case p of
        Acc a \<Rightarrow> res_for (\<lambda>h. h a) access_queue w
      | Bb e \<Rightarrow> res_for (\<lambda>h. h e) backbone_queue w
      | NoArg \<Rightarrow> Err AssertFailed)"

text \<open>\<^verbatim>\<open>interface_up\<close> and \<^verbatim>\<open>interface_down\<close> do the same work.\<close>

definition interface_up :: "lsd_arg \<Rightarrow> lsd \<Rightarrow> lsd res" where
  "interface_up = interface_changed"

definition interface_down :: "lsd_arg \<Rightarrow> lsd \<Rightarrow> lsd res" where
  "interface_down = interface_changed"

definition lsd_receive :: "nat \<Rightarrow> lsd_head \<Rightarrow> lsd_body \<Rightarrow> lsd \<Rightarrow> (int \<times> lsd) res" where
  "lsd_receive fd head body w0 =
     (let w = w0\<lparr>tm := snd (thread_add_read Lsd_receive NoArg fd (tm w0))\<rparr>
      in case get_autonomous_zone_by_id (hd_area_id head) w of
           None \<Rightarrow> Ok (WR_FROMAT_ERR, w)
         | Some z \<Rightarrow>
             (case get_backbone_by_neighbor_id z (hd_r_id head) w of
                None \<Rightarrow> Ok (WR_FROMAT_ERR, w)
              | Some e \<Rightarrow>
                  if bb_state (bb w e) = ETH_DOWN then Ok (WR_FROMAT_ERR, w)
                  else if hd_version head \<noteq> LSD_VERSION then Ok (WR_FROMAT_ERR, w)
                  else if hd_icsum head \<noteq> LSD_CHECKSUM then Ok (WR_FROMAT_ERR, w)
                  else res_map (\<lambda>w'. (0, w')) (res_for (\<lambda>h. h e head body) pkt_rcv_queue w)))"

text \<open>Running a fetched thread; a read thread takes the packet that has arrived.\<close>

definition bb_arg :: "lsd_arg \<Rightarrow> (nat \<Rightarrow> lsd res) \<Rightarrow> lsd res" where
  "bb_arg p f = (case p of Bb e \<Rightarrow> f e | _ \<Rightarrow> Err NullDeref)"

definition thread_call :: "(lsd_func, lsd_arg) thread \<Rightarrow> lsd_head \<times> lsd_body \<Rightarrow> lsd \<Rightarrow> lsd res" where
  "thread_call th pkt w =
     (case th_func th of
        Interface_up \<Rightarrow> interface_up (th_arg th) w
      | Interface_down \<Rightarrow> interface_down (th_arg th) w
      | Hello_high_send \<Rightarrow> bb_arg (th_arg th) (\<lambda>e. hello_high_send e w)
      | Hello_low_send \<Rightarrow> bb_arg (th_arg th) (\<lambda>e. hello_low_send e w)
      | Dead_timer_high \<Rightarrow> bb_arg (th_arg th) (\<lambda>e. dead_timer_high e w)
      | Dead_timer_low \<Rightarrow> bb_arg (th_arg th) (\<lambda>e. dead_timer_low e w)
      | Ack_time_excceed \<Rightarrow> bb_arg (th_arg th) (\<lambda>e. ack_time_excceed e w)
      | Flood_ack_timeout \<Rightarrow> bb_arg (th_arg th) (\<lambda>e. flood_ack_timeout e w)
      | Flood_send_lsa \<Rightarrow> bb_arg (th_arg th) (\<lambda>e. flood_send_lsa e w)
      | Spread_local_link_state \<Rightarrow> spread_local_link_state w
      | Lsd_receive \<Rightarrow> res_map snd (lsd_receive (th_fd th) (fst pkt) (snd pkt) w))"

definition lsd_serv_sock :: "nat \<Rightarrow> nat \<Rightarrow> lsd \<Rightarrow> lsd" where
  "lsd_serv_sock h_sock l_sock w =
     (let m1 = snd (thread_add_read Lsd_receive NoArg h_sock (tm w)); m2 = snd (thread_add_read Lsd_receive NoArg l_sock m1)
      in w\<lparr>tm := m2\<rparr>)"

text \<open>One round of \<^verbatim>\<open>lsd_start\<close>: fetch a thread with the given rounds of the clock and \<^verbatim>\<open>select\<close>, and run it at
  time \<open>t\<close>; \<open>None\<close> ends the loop.\<close>

definition lsd_round :: "(timeval \<times> select_result) list \<Rightarrow> timeval \<Rightarrow> lsd_head \<times> lsd_body \<Rightarrow> lsd \<Rightarrow> lsd option res" where
  "lsd_round env t pkt w =
     res_bind (thread_fetch env (tm w)) (\<lambda>(th, m).
       case th of
         None \<Rightarrow> Ok None
       | Some x \<Rightarrow> res_map Some (thread_call x pkt (w\<lparr>tm := m, now := t\<rparr>)))"

end
