(* ===== verification/Lsd_Timers.thy ===== *)
theory Lsd_Timers
  imports Lsd_Hello
begin

text \<open>
  The timers of the daemon on the event loop: the loop provides the interface \<open>timer_service\<close> on the
  daemon's state, and the daemon's interface changes are always pending as events.
\<close>

section \<open>Timers of the daemon\<close>

definition J :: "lsd \<Rightarrow> job \<Rightarrow> nat set" where
  "J w j = {t. pending (tm w) t = Some j}"

definition event_funcs :: "lsd_func set" where
  "event_funcs = {Interface_up, Interface_down, Hello_high_send, Hello_low_send}"

definition intf_funcs :: "lsd_func set" where
  "intf_funcs = {Interface_up, Interface_down}"

text \<open>Interface changes are pending as events, and events are interface changes or first hellos.\<close>

definition events_ok :: "(lsd_func, lsd_arg) thread_master \<Rightarrow> bool" where
  "events_ok m \<longleftrightarrow>
     (\<forall>t j. pending m t = Some j \<and> fst j \<in> intf_funcs \<longrightarrow> t \<in> set (m_event m)) \<and>
     (\<forall>t \<in> set (m_event m). \<exists>j. pending m t = Some j \<and> fst j \<in> event_funcs)"

text \<open>
  A clock whose seconds, with the longest interval of a timer (\<open>2\<^sup>3\<^sup>2\<close> microseconds) added, stay below \<open>2\<^sup>3\<^sup>1\<close>: up to January
  2038.  \<^verbatim>\<open>timeval_cmp\<close> returns a difference of seconds as an \<^verbatim>\<open>int\<close>.
\<close>

definition time_ok :: "timeval \<Rightarrow> bool" where
  "time_ok t \<longleftrightarrow> tv_ok t \<and> fst t < 2 ^ 31 - 5000"

definition tinv :: "lsd \<Rightarrow> bool" where
  "tinv w \<longleftrightarrow> wf_master (tm w) \<and> events_ok (tm w) \<and> time_ok (now w)"

lemma timers_frame [simp]:
  "J (w\<lparr>zones := x0\<rparr>) = J w" "tinv (w\<lparr>zones := x0\<rparr>) = tinv w"
  "J (w\<lparr>azs := x1\<rparr>) = J w" "tinv (w\<lparr>azs := x1\<rparr>) = tinv w"
  "J (w\<lparr>bbs := x2\<rparr>) = J w" "tinv (w\<lparr>bbs := x2\<rparr>) = tinv w"
  "J (w\<lparr>acs := x3\<rparr>) = J w" "tinv (w\<lparr>acs := x3\<rparr>) = tinv w"
  "J (w\<lparr>accesses := x4\<rparr>) = J w" "tinv (w\<lparr>accesses := x4\<rparr>) = tinv w"
  "J (w\<lparr>ifs := x5\<rparr>) = J w" "tinv (w\<lparr>ifs := x5\<rparr>) = tinv w"
  "J (w\<lparr>sent := x6\<rparr>) = J w" "tinv (w\<lparr>sent := x6\<rparr>) = tinv w"
  "J (w\<lparr>to_bm := x7\<rparr>) = J w" "tinv (w\<lparr>to_bm := x7\<rparr>) = tinv w"
  "J (w\<lparr>periodctrl := x8\<rparr>) = J w" "tinv (w\<lparr>periodctrl := x8\<rparr>) = tinv w"
  "J (w\<lparr>flood_called := x9\<rparr>) = J w" "tinv (w\<lparr>flood_called := x9\<rparr>) = tinv w"
  by (simp_all add: J_def tinv_def fun_eq_iff)

definition start_ok :: "nat \<Rightarrow> job \<Rightarrow> bool" where
  "start_ok us j \<longleftrightarrow> us < 2 ^ 32 \<and> fst j \<notin> intf_funcs"

lemma deadline_in_range: "time_ok t \<Longrightarrow> us < 2 ^ 32 \<Longrightarrow> tv_ok (deadline t us)"
proof -
  assume t: "time_ok t" and us: "us < 2 ^ 32"
  have "int us div TIMER_SECOND_MICRO < 5000"
    using us by (simp add: TIMER_SECOND_MICRO_def div_less_iff_less_mult)
  then show ?thesis using t by (intro deadline_ok) (auto simp: time_ok_def)
qed

lemma add_timer_law:
  assumes "tinv w" "start_ok us j" "add_timer us j w = (t, w')"
  shows "tinv w' \<and> pending (tm w) t = None \<and> pending (tm w') = (pending (tm w))(t \<mapsto> j)"
proof -
  obtain m where m: "thread_add_timer_high_resolution (now w) (fst j) (snd j) us (tm w) = (t, m)" and w': "w' = w\<lparr>tm := m\<rparr>"
    using assms(3) by (auto simp: add_timer_def split: prod.splits)
  have s: "wf_master m" "pending (tm w) t = None" "pending m = (pending (tm w))(t \<mapsto> j)" "m_event m = m_event (tm w)"
    using thread_add_timer_spec [OF _ m deadline_in_range] assms(1,2) by (auto simp: tinv_def start_ok_def)
  have "events_ok m"
    using assms(1,2) s(2) by (auto simp: events_ok_def tinv_def start_ok_def s(3,4) split: if_splits)
  then show ?thesis using s w' assms(1) by (simp add: tinv_def)
qed

lemma stop_timer_law:
  assumes "tinv w" "pending (tm w) t \<noteq> None"
  shows "\<exists>w'. stop_timer t w = Ok w' \<and> tinv w' \<and> pending (tm w') = (pending (tm w))(t := None)"
proof -
  have wf: "wf_master (tm w)" using assms(1) by (simp add: tinv_def)
  have "t < length (m_pool (tm w))" using assms(2) by (simp add: pending_def split: if_splits)
  from thread_cancel_spec [OF wf this] obtain m where m: "thread_cancel t (tm w) = Ok m" "wf_master m"
    "pending m = (pending (tm w))(t := None)" "\<forall>ty. ty \<noteq> THREAD_UNUSED \<longrightarrow> list_of ty m = remove1 t (list_of ty (tm w))" by blast
  have e: "m_event m = remove1 t (m_event (tm w))" using m(4) [rule_format, of THREAD_EVENT] by simp
  have "distinct (m_event (tm w))" using wf_list_distinct [OF wf, of THREAD_EVENT] by simp
  then have "events_ok m" using assms(1) by (auto simp: events_ok_def tinv_def m(3) e)
  then show ?thesis using m assms(1) by (auto simp: stop_timer_def tinv_def)
qed

interpretation ts: timer_service tinv "\<lambda>w. pending (tm w)" start_ok add_timer stop_timer
  by unfold_locales (rule add_timer_law, assumption+, rule stop_timer_law)

lemma ts_eqs: "ts.jobs = J" "ts.off = timer_off"
  by (auto simp: ts.jobs_def J_def ts.off_def timer_off_def fun_eq_iff)

text \<open>The two laws in the form the proofs below use: which fields change, and how the pending jobs do.\<close>

lemma add_timer_J:
  assumes "tinv w" "us < 2 ^ 32" "fst j \<notin> intf_funcs"
  obtains t m where "add_timer us j w = (t, w\<lparr>tm := m\<rparr>)" "tinv (w\<lparr>tm := m\<rparr>)"
    "J (w\<lparr>tm := m\<rparr>) = (J w)(j := insert t (J w j))"
proof -
  obtain t m where e: "add_timer us j w = (t, w\<lparr>tm := m\<rparr>)"
    by (cases "thread_add_timer_high_resolution (now w) (fst j) (snd j) us (tm w)") (simp add: add_timer_def)
  have "start_ok us j" using assms by (simp add: start_ok_def)
  from ts.jobs_start [OF assms(1) this e] that [OF e] show thesis by (auto simp: ts_eqs fun_eq_iff)
qed

lemma timer_off_J:
  assumes "tinv w" "set_option ptr \<subseteq> J w j"
  obtains m where "timer_off ptr w = Ok (w\<lparr>tm := m\<rparr>)" "tinv (w\<lparr>tm := m\<rparr>)" "J (w\<lparr>tm := m\<rparr>) = (J w)(j := J w j - set_option ptr)"
proof -
  from ts.jobs_off [OF assms(1), of ptr j] assms(2) obtain w' where
    w': "timer_off ptr w = Ok w'" "tinv w'" "\<forall>i. J w' i = (if i = j then J w j - set_option ptr else J w i)" by (auto simp: ts_eqs)
  have "\<exists>m. w' = w\<lparr>tm := m\<rparr>"
    using w'(1) by (cases ptr) (auto simp: timer_off_def stop_timer_def res_simps intro: exI [of _ "tm w"])
  then show thesis using that w' by (auto simp: fun_eq_iff)
qed

lemma add_event_J:
  assumes "tinv w" "fst j \<in> event_funcs"
  obtains t m where "add_event j w = (t, w\<lparr>tm := m\<rparr>)" "tinv (w\<lparr>tm := m\<rparr>)"
    "J (w\<lparr>tm := m\<rparr>) = (J w)(j := insert t (J w j))"
proof -
  obtain t m where m: "thread_add_event (fst j) (snd j) 0 (tm w) = (t, m)" by fastforce
  have s: "wf_master m" "pending (tm w) t = None" "pending m = (pending (tm w))(t \<mapsto> j)" "m_event m = m_event (tm w) @ [t]"
    using thread_add_event_spec [OF _ m] assms(1) by (auto simp: tinv_def)
  have "events_ok m" using assms s(2) by (cases j) (auto simp: events_ok_def tinv_def s(3,4))
  then have "tinv (w\<lparr>tm := m\<rparr>)" using assms(1) s(1) by (simp add: tinv_def)
  moreover have "J (w\<lparr>tm := m\<rparr>) = (J w)(j := insert t (J w j))" using s(2,3) by (auto simp: J_def fun_eq_iff)
  ultimately show thesis using that m by (simp add: add_event_def)
qed

end
