(* ===== verification/Lsd_Invariant.thy ===== *)
theory Lsd_Invariant
  imports Lsd_Timers
begin

text \<open>
  The invariant of the daemon's state and its preservation by the flooding, exchange and database
  operations: which timers are pending for an interface follows from the state of its protocols, the
  timer pointers are never stale, queues hold only advertisements with an origin, and what is sent is
  what a receiver relies on.
\<close>

section \<open>Sound packets\<close>

definition lsa_ok :: "link_state_adv \<Rightarrow> bool" where
  "lsa_ok l \<longleftrightarrow> rt_id (la_key l) \<noteq> 0"

definition lsas_ok :: "link_state_adv list \<Rightarrow> bool" where
  "lsas_ok ls \<longleftrightarrow> length ls \<le> LSA_PER_BUF \<and> (\<forall>l \<in> set ls. lsa_ok l)"

text \<open>The announced number of advertisements is the number that follows, and each names its origin.\<close>

fun body_ok :: "lsd_body \<Rightarrow> bool" where
  "body_ok (Exchange ty mr len seq ls) \<longleftrightarrow> lsas_ok ls \<and> unat len = length ls"
| "body_ok (Flood ty seq sz ls) \<longleftrightarrow> lsas_ok ls \<and> int_of_u32 sz = int (length ls)"
| "body_ok _ \<longleftrightarrow> True"

definition packet_ok :: "lsd_head \<Rightarrow> lsd_body \<Rightarrow> bool" where
  "packet_ok h b \<longleftrightarrow> hd_r_id h \<noteq> 0 \<and> body_ok b"

section \<open>The invariant\<close>

text \<open>\<open>P\<close> gives the slots pending for a job.\<close>

definition ex_ok :: "(job \<Rightarrow> nat set) \<Rightarrow> nat \<Rightarrow> exchange_master option \<Rightarrow> bool" where
  "ex_ok P e xo \<longleftrightarrow>
     (case xo of
        None \<Rightarrow> P (Ack_time_excceed, Bb e) = {}
      | Some x \<Rightarrow> P (Ack_time_excceed, Bb e) = set_option (ex_ack_ctrl x) \<and> ex_rcv_ctrl x = None \<and>
          (send_state x = EXCHANGE_STATE_SEND_WAITING \<longleftrightarrow> ex_ack_ctrl x \<noteq> None) \<and>
          body_ok (snd (ex_sendbuf x)) \<and> (\<forall>d \<in> set (ex_links_state x). rt_id (ls_key d) \<noteq> 0))"

definition fl_ok :: "(job \<Rightarrow> nat set) \<Rightarrow> nat \<Rightarrow> flood_master option \<Rightarrow> bool" where
  "fl_ok P e fo \<longleftrightarrow>
     (case fo of
        None \<Rightarrow> P (Flood_ack_timeout, Bb e) = {} \<and> P (Flood_send_lsa, Bb e) = {}
      | Some f \<Rightarrow> P (Flood_ack_timeout, Bb e) = set_option (fl_ack_ctrl f) \<and> P (Flood_send_lsa, Bb e) = set_option (fl_snd_ctrl f) \<and>
          (fl_state f = FLOOD_ACK_WAITING \<longleftrightarrow> fl_ack_ctrl f \<noteq> None) \<and> (fl_state f = FLOOD_BUSY \<longleftrightarrow> fl_snd_ctrl f \<noteq> None) \<and>
          (fl_state f = FLOOD_READY \<or> fl_state f = FLOOD_TERMINATED \<longrightarrow> fl_queue f = []) \<and>
          (fl_state f = FLOOD_BUSY \<longrightarrow> fl_queue f \<noteq> []) \<and>
          body_ok (snd (fl_sendbuf f)) \<and> (\<forall>l \<in> set (fl_queue f). lsa_ok l))"

definition he_ok :: "(job \<Rightarrow> nat set) \<Rightarrow> nat \<Rightarrow> hello_master option \<Rightarrow> bool" where
  "he_ok P e ho \<longleftrightarrow>
     (case ho of
        None \<Rightarrow> P (Dead_timer_high, Bb e) = {} \<and> P (Dead_timer_low, Bb e) = {} \<and>
                P (Hello_high_send, Bb e) = {} \<and> P (Hello_low_send, Bb e) = {}
      | Some h \<Rightarrow> P (Dead_timer_high, Bb e) = set_option (h_dead_timer_high h) \<and> P (Dead_timer_low, Bb e) = set_option (h_dead_timer_low h) \<and>
          set_option (h_hello_timer_high h) \<subseteq> P (Hello_high_send, Bb e) \<and> set_option (h_hello_timer_low h) \<subseteq> P (Hello_low_send, Bb e) \<and>
          (high_status h = LSD_CONNECTED \<longleftrightarrow> h_dead_timer_high h \<noteq> None) \<and> (low_status h = LSD_CONNECTED \<longleftrightarrow> h_dead_timer_low h \<noteq> None) \<and>
          (high_status h = LSD_CONNECTED \<or> low_status h = LSD_CONNECTED \<longrightarrow> ni_rt_id (h_neighbor h) \<noteq> 0))"

definition eth_ok :: "(job \<Rightarrow> nat set) \<Rightarrow> nat \<Rightarrow> backbone_eth \<Rightarrow> bool" where
  "eth_ok P e b \<longleftrightarrow> ex_ok P e (bb_exchange b) \<and> fl_ok P e (bb_flood b) \<and> he_ok P e (bb_hello b) \<and>
     (bb_hello b \<noteq> None \<longrightarrow> bb_exchange b \<noteq> None \<and> bb_flood b \<noteq> None)"

definition zones_ok :: "lsd \<Rightarrow> bool" where
  "zones_ok w \<longleftrightarrow> lr_agentid w \<noteq> 0 \<and> set (azs w) \<subseteq> {..<length (zones w)} \<and>
     (\<forall>z < length (zones w). wf_lsdb (az_lsdb (zones w ! z)) \<and> az_device_id (zones w ! z) \<noteq> 0 \<and>
        set (az_backbones (zones w ! z)) \<subseteq> {..<length (bbs w)})"

text \<open>The daemon's object of a router interface is a backbone or an access interface, as the type says.\<close>

definition vif_ok :: "nat \<Rightarrow> nat \<Rightarrow> rinterface \<Rightarrow> bool" where
  "vif_ok nb na r \<longleftrightarrow> ri_proto r \<noteq> None \<and> ri_connected r \<noteq> None \<and>
     (\<forall>v. ri_vinterface r = Some v \<longrightarrow> (ri_type r = BACKBONE \<longrightarrow> v < nb) \<and> (ri_type r = ACCESS \<longrightarrow> v < na))"

definition ifs_ok :: "lsd \<Rightarrow> bool" where
  "ifs_ok w \<longleftrightarrow> (\<forall>i < length (ifs w). vif_ok (length (bbs w)) (length (acs w)) (ifs w ! i)) \<and>
     (\<forall>a < length (acs w). ac_interface (acs w ! a) < length (ifs w)) \<and> set (accesses w) \<subseteq> {..<length (acs w)}"

definition eths_ok :: "lsd \<Rightarrow> bool" where
  "eths_ok w \<longleftrightarrow> (\<forall>e < length (bbs w). bb_az (bb w e) < length (zones w) \<and> bb_interface (bb w e) < length (ifs w) \<and> eth_ok (J w) e (bb w e))"

fun job_ok :: "lsd \<Rightarrow> job \<Rightarrow> bool" where
  "job_ok w (f, p) \<longleftrightarrow>
     (if f \<in> intf_funcs then (\<exists>e < length (bbs w). p = Bb e) \<or> (\<exists>a < length (acs w). p = Acc a)
      else if f = Spread_local_link_state \<or> f = Lsd_receive then p = NoArg
      else (\<exists>e < length (bbs w). p = Bb e))"

declare job_ok.simps [simp del]

definition jobs_ok :: "lsd \<Rightarrow> bool" where
  "jobs_ok w \<longleftrightarrow> (\<forall>j. J w j \<noteq> {} \<longrightarrow> job_ok w j)"

definition period_ok :: "lsd \<Rightarrow> bool" where
  "period_ok w \<longleftrightarrow> set_option (periodctrl w) \<subseteq> J w (Spread_local_link_state, NoArg)"

definition sent_ok :: "lsd \<Rightarrow> bool" where
  "sent_ok w \<longleftrightarrow> (\<forall>p \<in> set (sent w). packet_ok (sp_head p) (sp_body p))"

definition lsd_inv :: "lsd \<Rightarrow> bool" where
  "lsd_inv w \<longleftrightarrow> tinv w \<and> zones_ok w \<and> ifs_ok w \<and> eths_ok w \<and> jobs_ok w \<and> sent_ok w"

lemmas inv_parts = lsd_inv_def zones_ok_def ifs_ok_def eths_ok_def jobs_ok_def sent_ok_def

section \<open>What an operation leaves alone\<close>

definition same_net :: "lsd \<Rightarrow> lsd \<Rightarrow> bool" where
  "same_net w w' \<longleftrightarrow> azs w' = azs w \<and> acs w' = acs w \<and> accesses w' = accesses w \<and> ifs w' = ifs w \<and> now w' = now w \<and>
     lr_agentid w' = lr_agentid w \<and> flood_called w' = flood_called w \<and>
     map (az_lsdb_update (\<lambda>_. cr_lsdb_init)) (zones w') = map (az_lsdb_update (\<lambda>_. cr_lsdb_init)) (zones w) \<and>
     map (bb_exchange_update (\<lambda>_. None) o bb_flood_update (\<lambda>_. None)) (bbs w') =
     map (bb_exchange_update (\<lambda>_. None) o bb_flood_update (\<lambda>_. None)) (bbs w) \<and>
     map (\<lambda>b. bb_flood b = None) (bbs w') = map (\<lambda>b. bb_flood b = None) (bbs w) \<and>
     map (\<lambda>b. bb_exchange b = None) (bbs w') = map (\<lambda>b. bb_exchange b = None) (bbs w) \<and>
     periodctrl w' = periodctrl w \<and>
     (\<forall>f p. f \<in> {Spread_local_link_state, Interface_up, Interface_down} \<longrightarrow> J w' (f, p) = J w (f, p))"

definition ex_same :: "lsd \<Rightarrow> lsd \<Rightarrow> bool" where
  "ex_same w w' \<longleftrightarrow> map bb_exchange (bbs w') = map bb_exchange (bbs w)"

text \<open>Operations that keep the invariant and change only queues, timers, databases and what is sent.\<close>

definition keeps :: "lsd \<Rightarrow> lsd \<Rightarrow> bool" where
  "keeps w w' \<longleftrightarrow> lsd_inv w' \<and> same_net w w' \<and> ex_same w w'"

lemma same_net_refl [simp]: "same_net w w"
  by (simp add: same_net_def)

lemma same_net_trans: "same_net a b \<Longrightarrow> same_net b c \<Longrightarrow> same_net a c"
  by (simp add: same_net_def)

lemma ex_same_trans: "ex_same a b \<Longrightarrow> ex_same b c \<Longrightarrow> ex_same a c"
  by (simp add: ex_same_def)

lemma keeps_refl: "lsd_inv w \<Longrightarrow> keeps w w"
  by (simp add: keeps_def ex_same_def)

lemma keeps_trans: "keeps a b \<Longrightarrow> keeps b c \<Longrightarrow> keeps a c"
  unfolding keeps_def by (blast intro: same_net_trans ex_same_trans)

lemma keepsD: "keeps w w' \<Longrightarrow> lsd_inv w'" "keeps w w' \<Longrightarrow> same_net w w'"
  by (simp_all add: keeps_def)

lemma same_net_len:
  assumes "same_net w w'"
  shows "length (bbs w') = length (bbs w)" "length (zones w') = length (zones w)"
  using assms unfolding same_net_def by (metis length_map)+

lemma same_net_bb:
  assumes "same_net w w'" "e < length (bbs w)"
  shows "bb_hello (bb w' e) = bb_hello (bb w e)" "bb_az (bb w' e) = bb_az (bb w e)" "bb_ifid (bb w' e) = bb_ifid (bb w e)"
    "bb_interface (bb w' e) = bb_interface (bb w e)" "bb_state (bb w' e) = bb_state (bb w e)" "bb_neighbor (bb w' e) = bb_neighbor (bb w e)"
    "bb_flood (bb w' e) = None \<longleftrightarrow> bb_flood (bb w e) = None" "bb_exchange (bb w' e) = None \<longleftrightarrow> bb_exchange (bb w e) = None"
proof -
  let ?s = "bb_exchange_update (\<lambda>_. None) o bb_flood_update (\<lambda>_. None)"
  have l: "e < length (bbs w')" using assms same_net_len by simp
  have "?s (bb w' e) = ?s (bb w e)"
    using assms l nth_map [of e "bbs w'" ?s] nth_map [of e "bbs w" ?s] unfolding same_net_def by metis
  then have "bb_hello (?s (bb w' e)) = bb_hello (?s (bb w e))" "bb_az (?s (bb w' e)) = bb_az (?s (bb w e))" "bb_ifid (?s (bb w' e)) = bb_ifid (?s (bb w e))"
    "bb_interface (?s (bb w' e)) = bb_interface (?s (bb w e))" "bb_state (?s (bb w' e)) = bb_state (?s (bb w e))" "bb_neighbor (?s (bb w' e)) = bb_neighbor (?s (bb w e))"
    by simp_all
  then show "bb_hello (bb w' e) = bb_hello (bb w e)" "bb_az (bb w' e) = bb_az (bb w e)" "bb_ifid (bb w' e) = bb_ifid (bb w e)"
    "bb_interface (bb w' e) = bb_interface (bb w e)" "bb_state (bb w' e) = bb_state (bb w e)" "bb_neighbor (bb w' e) = bb_neighbor (bb w e)"
    by simp_all
  show "bb_flood (bb w' e) = None \<longleftrightarrow> bb_flood (bb w e) = None" "bb_exchange (bb w' e) = None \<longleftrightarrow> bb_exchange (bb w e) = None"
    using assms l nth_map [of e "bbs w'" "\<lambda>b. bb_flood b = None"] nth_map [of e "bbs w" "\<lambda>b. bb_flood b = None"]
      nth_map [of e "bbs w'" "\<lambda>b. bb_exchange b = None"] nth_map [of e "bbs w" "\<lambda>b. bb_exchange b = None"]
    unfolding same_net_def by metis+
qed

lemma same_net_zone:
  assumes "same_net w w'" "z < length (zones w)"
  shows "az_backbones (zones w' ! z) = az_backbones (zones w ! z)" "az_device_id (zones w' ! z) = az_device_id (zones w ! z)"
    "az_id (zones w' ! z) = az_id (zones w ! z)" "az_r_id (zones w' ! z) = az_r_id (zones w ! z)"
proof -
  let ?s = "az_lsdb_update (\<lambda>_. cr_lsdb_init)"
  have l: "z < length (zones w')" using assms same_net_len by simp
  have "?s (zones w' ! z) = ?s (zones w ! z)"
    using assms l nth_map [of z "zones w'" ?s] nth_map [of z "zones w" ?s] unfolding same_net_def by metis
  then have "az_backbones (?s (zones w' ! z)) = az_backbones (?s (zones w ! z))" "az_device_id (?s (zones w' ! z)) = az_device_id (?s (zones w ! z))"
    "az_id (?s (zones w' ! z)) = az_id (?s (zones w ! z))" "az_r_id (?s (zones w' ! z)) = az_r_id (?s (zones w ! z))" by simp_all
  then show "az_backbones (zones w' ! z) = az_backbones (zones w ! z)" "az_device_id (zones w' ! z) = az_device_id (zones w ! z)"
    "az_id (zones w' ! z) = az_id (zones w ! z)" "az_r_id (zones w' ! z) = az_r_id (zones w ! z)" by simp_all
qed

lemma ex_same_bb: "ex_same w w' \<Longrightarrow> e < length (bbs w) \<Longrightarrow> bb_exchange (bb w' e) = bb_exchange (bb w e)"
  unfolding ex_same_def by (metis length_map nth_map)

section \<open>Changing one interface\<close>

definition eth_jobs :: "nat \<Rightarrow> job set" where
  "eth_jobs e = (\<lambda>f. (f, Bb e)) ` {Ack_time_excceed, Flood_ack_timeout, Flood_send_lsa, Dead_timer_high, Dead_timer_low,
     Hello_high_send, Hello_low_send}"

lemma eth_ok_cong:
  assumes "\<And>j. j \<in> eth_jobs e \<Longrightarrow> P j = Q j"
  shows "eth_ok P e b = eth_ok Q e b"
proof -
  have "P (f, Bb e) = Q (f, Bb e)" if "f \<in> {Ack_time_excceed, Flood_ack_timeout, Flood_send_lsa, Dead_timer_high, Dead_timer_low,
      Hello_high_send, Hello_low_send}" for f using that assms unfolding eth_jobs_def by blast
  then show ?thesis by (simp add: eth_ok_def ex_ok_def fl_ok_def he_ok_def cong: option.case_cong)
qed

lemma job_ok_eth: "j \<in> eth_jobs e \<Longrightarrow> e < length (bbs w) \<Longrightarrow> job_ok w j"
  by (auto simp: eth_jobs_def intf_funcs_def job_ok.simps)

lemma job_ok_mono: "job_ok w j \<Longrightarrow> length (bbs w) \<le> length (bbs w') \<Longrightarrow> length (acs w) \<le> length (acs w') \<Longrightarrow> job_ok w' j"
  by (cases j) (auto simp: job_ok.simps split: if_splits)

lemma lsd_inv_upd:
  assumes "lsd_inv w" "e < length (bbs w)" "tinv w'" "bbs w' = (bbs w)[e := b]" "bb_az b = bb_az (bb w e)" "bb_interface b = bb_interface (bb w e)"
    and "zones w' = zones w" "azs w' = azs w" "acs w' = acs w" "accesses w' = accesses w" "ifs w' = ifs w" "lr_agentid w' = lr_agentid w"
    and "\<And>j. j \<notin> eth_jobs e \<Longrightarrow> J w' j = J w j" "eth_ok (J w') e b"
    and "\<forall>p \<in> set (sent w'). p \<in> set (sent w) \<or> packet_ok (sp_head p) (sp_body p)"
  shows "lsd_inv w'"
proof -
  have len: "length (bbs w') = length (bbs w)" by (simp add: assms(4))
  have other: "eth_jobs e' \<inter> eth_jobs e = {}" if "e' \<noteq> e" for e' using that by (auto simp: eth_jobs_def)
  have "eth_ok (J w') e' (bb w' e')" if "e' < length (bbs w)" for e'
  proof (cases "e' = e")
    case True
    then show ?thesis using assms(2,4,14) by simp
  next
    case False
    then have "J w' j = J w j" if "j \<in> eth_jobs e'" for j using other that assms(13) by blast
    then have "eth_ok (J w') e' (bb w e') = eth_ok (J w) e' (bb w e')" by (rule eth_ok_cong)
    then show ?thesis using False assms(1,4) \<open>e' < length (bbs w)\<close> by (simp add: inv_parts)
  qed
  moreover have "bb_az (bb w' e') = bb_az (bb w e')" "bb_interface (bb w' e') = bb_interface (bb w e')" for e'
    using assms(5,6) by (simp_all add: assms(4) nth_update_same)
  ultimately have "eths_ok w'" using assms(1,7,11) len by (simp add: lsd_inv_def eths_ok_def)
  moreover have "jobs_ok w'"
    unfolding jobs_ok_def
  proof (intro conjI allI impI)
    show "job_ok w' j" if "J w' j \<noteq> {}" for j
    proof (cases "j \<in> eth_jobs e")
      case True
      then show ?thesis using assms(2) len by (intro job_ok_eth) simp_all
    next
      case False
      then have "J w j \<noteq> {}" using that assms(13) by simp
      then have "job_ok w j" using assms(1) unfolding lsd_inv_def jobs_ok_def by blast
      then show ?thesis by (rule job_ok_mono) (simp_all add: len assms(9))
    qed
  qed
  moreover have "zones_ok w'" using assms(1,7,8,12) len by (simp add: lsd_inv_def zones_ok_def)
  moreover have "ifs_ok w'" using assms(1) unfolding lsd_inv_def ifs_ok_def assms(9-11) len by blast
  moreover have "sent_ok w'" using assms(1,15) by (auto simp: lsd_inv_def sent_ok_def)
  ultimately show ?thesis using assms(3) by (simp add: lsd_inv_def)
qed

section \<open>Sending\<close>

lemma lsd_send_cases:
  "lsd_send e len body w = (-1, w) \<or> lsd_send e len body w = (IO_ERR, w) \<or>
   (\<exists>p. lsd_send e len body w = (0, w\<lparr>sent := sent w @ [p]\<rparr>) \<and> hd_r_id (sp_head p) = az_device_id (zone_of w e) \<and> sp_body p = body)"
proof (cases "np_device_id (bb_neighbor (bb w e)) = 0 \<or> np_ctl_addr (bb_neighbor (bb w e)) = 0")
  case True
  then show ?thesis by (simp add: lsd_send_def)
next
  case nb: False
  show ?thesis
  proof (cases "pktype body \<notin> {1, 2, 3, 4, 6}")
    case True
    with nb show ?thesis by (simp only: lsd_send_def Let_def if_True if_False simp_thms)
  next
    case False
    show ?thesis
      by (cases "(pktype body = 1 \<or> pktype body = 2) \<and> \<not> ttl_ok w";
          simp only: nb False lsd_send_def Let_def if_True if_False simp_thms)
        (rule disjI2, rule disjI2, rule exI, rule conjI, rule refl, simp)
  qed
qed

lemma lsd_send_sent:
  obtains s where "snd (lsd_send e len body w) = w\<lparr>sent := s\<rparr>"
    "\<forall>p \<in> set s. p \<in> set (sent w) \<or> hd_r_id (sp_head p) = az_device_id (zone_of w e) \<and> sp_body p = body"
  using lsd_send_cases [of e len body w]
proof (elim disjE exE conjE)
  fix p
  assume "lsd_send e len body w = (0, w\<lparr>sent := sent w @ [p]\<rparr>)" "hd_r_id (sp_head p) = az_device_id (zone_of w e)" "sp_body p = body"
  then show thesis by (intro that [of "sent w @ [p]"]) auto
qed (use that [of "sent w"] in auto)

lemma device_id_ok:
  assumes "lsd_inv w" "e < length (bbs w)"
  shows "az_device_id (zone_of w e) \<noteq> 0" "bb_az (bb w e) < length (zones w)"
  using assms by (auto simp: inv_parts)

text \<open>The canonical form of an update of one protocol master, with its timers and what it sends.\<close>

lemma flood_upd:
  assumes "lsd_inv w" "e < length (bbs w)" "bb_flood (bb w e) \<noteq> None"
    and "w' = w\<lparr>tm := m, bbs := (bbs w)[e := (bb w e)\<lparr>bb_flood := Some f\<rparr>], sent := s\<rparr>" "tinv w'"
    and "\<And>j. j \<noteq> (Flood_ack_timeout, Bb e) \<Longrightarrow> j \<noteq> (Flood_send_lsa, Bb e) \<Longrightarrow> J w' j = J w j" "fl_ok (J w') e (Some f)"
    and "\<forall>p \<in> set s. p \<in> set (sent w) \<or> packet_ok (sp_head p) (sp_body p)"
  shows "keeps w w'"
proof -
  have e: "eth_ok (J w) e (bb w e)" using assms(1,2) by (simp add: inv_parts)
  have "eth_ok (J w') e ((bb w e)\<lparr>bb_flood := Some f\<rparr>)"
    using e assms(3,6,7) by (auto simp: eth_ok_def ex_ok_def he_ok_def cong: option.case_cong)
  then have "lsd_inv w'"
    using assms(1-6,8) by (intro lsd_inv_upd [OF assms(1,2,5)]) (auto simp: eth_jobs_def)
  moreover have "same_net w w'" "ex_same w w'"
    using assms(2,3,6) by (auto simp: same_net_def ex_same_def assms(4) list_eq_iff_nth_eq nth_list_update)
  ultimately show ?thesis by (simp add: keeps_def)
qed

lemma exchange_upd:
  assumes "lsd_inv w" "e < length (bbs w)" "bb_exchange (bb w e) \<noteq> None"
    and "w' = w\<lparr>tm := m, bbs := (bbs w)[e := (bb w e)\<lparr>bb_exchange := Some x\<rparr>], sent := s\<rparr>" "tinv w'"
    and "\<And>j. j \<noteq> (Ack_time_excceed, Bb e) \<Longrightarrow> J w' j = J w j" "ex_ok (J w') e (Some x)"
    and "\<forall>p \<in> set s. p \<in> set (sent w) \<or> packet_ok (sp_head p) (sp_body p)"
  shows "lsd_inv w' \<and> same_net w w' \<and> (\<forall>e' < length (bbs w). e' \<noteq> e \<longrightarrow> bb_exchange (bb w' e') = bb_exchange (bb w e')) \<and>
    bb_exchange (bb w' e) = Some x"
proof -
  have e: "eth_ok (J w) e (bb w e)" using assms(1,2) by (simp add: inv_parts)
  have "eth_ok (J w') e ((bb w e)\<lparr>bb_exchange := Some x\<rparr>)"
    using e assms(6,7) by (auto simp: eth_ok_def fl_ok_def he_ok_def cong: option.case_cong)
  then have "lsd_inv w'"
    using assms(1-6,8) by (intro lsd_inv_upd [OF assms(1,2,5)]) (auto simp: eth_jobs_def)
  moreover have "same_net w w'"
    using assms(2,3,6) by (auto simp: same_net_def assms(4) list_eq_iff_nth_eq nth_list_update)
  ultimately show ?thesis using assms(2) by (simp add: assms(4))
qed

section \<open>Flooding\<close>

lemma flood_add_keeps:
  assumes "lsd_inv w" "e < length (bbs w)" "lsa_ok lsa"
  shows "keeps w (flood_add_flood_lsa lsa e w)"
proof (cases "bb_flood (bb w e)")
  case None
  then show ?thesis using assms(1) by (simp add: flood_add_flood_lsa_def keeps_refl)
next
  case (Some f)
  have tv: "tinv w" and fo: "fl_ok (J w) e (Some f)" using assms(1,2) Some by (auto simp: inv_parts eth_ok_def)
  show ?thesis
  proof (cases "fl_state f = FLOOD_READY")
    case True
    obtain t m where t: "add_timer FLOOD_BUFFER_TIME (Flood_send_lsa, Bb e) w = (t, w\<lparr>tm := m\<rparr>)" "tinv (w\<lparr>tm := m\<rparr>)"
      "J (w\<lparr>tm := m\<rparr>) = (J w)((Flood_send_lsa, Bb e) := insert t (J w (Flood_send_lsa, Bb e)))"
      by (rule add_timer_J [OF tv]) (auto simp: FLOOD_BUFFER_TIME_def intf_funcs_def)
    let ?f = "f\<lparr>fl_queue := fl_queue f @ [lsa], fl_state := FLOOD_BUSY, fl_snd_ctrl := Some t\<rparr>"
    have eq: "flood_add_flood_lsa lsa e w = w\<lparr>tm := m, bbs := (bbs w)[e := (bb w e)\<lparr>bb_flood := Some ?f\<rparr>], sent := sent w\<rparr>"
      using Some True t(1) by (simp add: flood_add_flood_lsa_def set_flood_def upd_bb_def)
    show ?thesis
      by (rule flood_upd [OF assms(1,2) _ eq])
        (use Some fo True assms(3) t(2,3) in \<open>auto simp: eq fl_ok_def\<close>)
  next
    case False
    let ?f = "f\<lparr>fl_queue := fl_queue f @ [lsa]\<rparr>"
    show ?thesis
    proof (cases "fl_state f = FLOOD_TERMINATED")
      case True
      then show ?thesis using Some assms(1) by (simp add: flood_add_flood_lsa_def keeps_refl)
    next
      case nt: False
      have eq: "flood_add_flood_lsa lsa e w = w\<lparr>tm := tm w, bbs := (bbs w)[e := (bb w e)\<lparr>bb_flood := Some ?f\<rparr>], sent := sent w\<rparr>"
        using Some False nt by (simp add: flood_add_flood_lsa_def set_flood_def upd_bb_def)
      show ?thesis
        by (rule flood_upd [OF assms(1,2) _ eq])
          (use Some fo False nt assms(3) tv in \<open>auto simp: eq fl_ok_def\<close>)
    qed
  qed
qed

text \<open>The state in which a callback runs: its slot has been taken off.\<close>

definition fired :: "lsd \<Rightarrow> job \<Rightarrow> lsd \<Rightarrow> bool" where
  "fired w j w1 \<longleftrightarrow> (\<exists>t m. w1 = w\<lparr>tm := m\<rparr> \<and> tinv w1 \<and> t \<in> J w j \<and> J w1 = (J w)(j := J w j - {t}))"

lemma fired_eth:
  assumes "lsd_inv w" "fired w (f, Bb e) w1"
  shows "e < length (bbs w)" "eth_ok (J w) e (bb w e)"
proof -
  have "job_ok w (f, Bb e)" using assms unfolding fired_def lsd_inv_def jobs_ok_def by blast
  then show "e < length (bbs w)" by (auto simp: job_ok.simps split: if_splits)
  then show "eth_ok (J w) e (bb w e)" using assms(1) by (simp add: inv_parts)
qed

lemma packets_ok:
  assumes "lsd_inv w" "e < length (bbs w)" "body_ok body"
    and "\<forall>p \<in> set s. p \<in> set (sent w) \<or> hd_r_id (sp_head p) = az_device_id (zone_of w e) \<and> sp_body p = body"
  shows "\<forall>p \<in> set s. p \<in> set (sent w) \<or> packet_ok (sp_head p) (sp_body p)"
  using assms device_id_ok(1) [OF assms(1,2)] by (auto simp: packet_ok_def)

lemma int_of_small: "n < 2 ^ 31 \<Longrightarrow> int_of_u32 (of_nat n) = int n"
  by (simp add: signed_of_nat signed_take_bit_int_eq_self)

lemma flood_body_ok:
  "\<forall>l \<in> set q. lsa_ok l \<Longrightarrow> body_ok (Flood ty no (of_nat (length (take LSA_CT_PER_PAK q))) (take LSA_CT_PER_PAK q))"
proof -
  assume "\<forall>l \<in> set q. lsa_ok l"
  moreover have "length (take LSA_CT_PER_PAK q) \<le> 5" by (simp add: LSA_CT_PER_PAK_def)
  ultimately show ?thesis by (auto simp: lsas_ok_def LSA_PER_BUF_def int_of_small dest: in_set_takeD)
qed

lemma flood_send_lsa_keeps:
  assumes "lsd_inv w" "fired w (Flood_send_lsa, Bb e) w1"
  shows "\<exists>w'. flood_send_lsa e w1 = Ok w' \<and> keeps w w'"
proof -
  note e = fired_eth [OF assms]
  obtain t m where w1: "w1 = w\<lparr>tm := m\<rparr>" "tinv w1" "t \<in> J w (Flood_send_lsa, Bb e)"
    "J w1 = (J w)((Flood_send_lsa, Bb e) := J w (Flood_send_lsa, Bb e) - {t})" using assms(2) by (auto simp: fired_def)
  obtain f where f: "bb_flood (bb w e) = Some f" using e(2) w1(3) by (auto simp: eth_ok_def fl_ok_def split: option.splits)
  have fo: "fl_ok (J w) e (Some f)" using e(2) f by (simp add: eth_ok_def)
  obtain t2 m2 where t2: "add_timer FLOOD_ACK_OVER_TIME (Flood_ack_timeout, Bb e) w1 = (t2, w1\<lparr>tm := m2\<rparr>)" "tinv (w1\<lparr>tm := m2\<rparr>)"
    "J (w1\<lparr>tm := m2\<rparr>) = (J w1)((Flood_ack_timeout, Bb e) := insert t2 (J w1 (Flood_ack_timeout, Bb e)))"
    by (rule add_timer_J [OF w1(2)]) (auto simp: FLOOD_ACK_OVER_TIME_def intf_funcs_def)
  define lsas where "lsas = take LSA_CT_PER_PAK (fl_queue f)"
  define len :: u16 where "len = of_nat (SIZEOF_FLOOD + SIZEOF_LSA * length lsas)"
  define body where "body = Flood FLOOD_PKG_TYPE_LSA (fl_pkg_no f + 1) (of_nat (length lsas)) lsas"
  define f' where "f' = f\<lparr>fl_snd_ctrl := None, fl_pkg_no := fl_pkg_no f + 1, fl_queue := drop LSA_CT_PER_PAK (fl_queue f),
                      fl_sendbuf := (len, body), fl_state := FLOOD_ACK_WAITING, fl_ack_ctrl := Some t2\<rparr>"
  define w2 where "w2 = set_flood e f' (w1\<lparr>tm := m2\<rparr>)"
  obtain s where s: "snd (lsd_send e len body w2) = w2\<lparr>sent := s\<rparr>"
    "\<forall>p \<in> set s. p \<in> set (sent w2) \<or> hd_r_id (sp_head p) = az_device_id (zone_of w2 e) \<and> sp_body p = body"
    by (rule lsd_send_sent)
  have b: "body_ok body" using fo unfolding body_def lsas_def by (intro flood_body_ok) (simp add: fl_ok_def)
  have z: "zone_of w2 e = zone_of w e" "sent w2 = sent w" using e(1) by (simp_all add: w2_def set_flood_def upd_bb_def w1)
  have eq: "w2\<lparr>sent := s\<rparr> = w\<lparr>tm := m2, bbs := (bbs w)[e := (bb w e)\<lparr>bb_flood := Some f'\<rparr>], sent := s\<rparr>"
    by (simp add: w2_def set_flood_def upd_bb_def w1)
  have t2': "tinv (w\<lparr>tm := m2\<rparr>)" "J (w\<lparr>tm := m2\<rparr>) = (J w)((Flood_send_lsa, Bb e) := {}, (Flood_ack_timeout, Bb e) := {t2})"
    using t2(2,3) fo w1(3,4) by (auto simp: w1(1) fl_ok_def fun_eq_iff)
  have "keeps w (w2\<lparr>sent := s\<rparr>)"
    by (rule flood_upd [OF assms(1) e(1) _ eq])
      (use f fo t2' b packets_ok [OF assms(1) e(1) b s(2) [unfolded z]] in \<open>auto simp: eq fl_ok_def f'_def dest: in_set_dropD\<close>)
  moreover have "flood_send_lsa e w1 = Ok (w2\<lparr>sent := s\<rparr>)"
    using f t2(1) s(1) by (simp add: flood_send_lsa_def w1(1) Let_def w2_def f'_def body_def len_def lsas_def)
  ultimately show ?thesis by blast
qed

lemma flood_ack_timeout_keeps:
  assumes "lsd_inv w" "fired w (Flood_ack_timeout, Bb e) w1"
  shows "\<exists>w'. flood_ack_timeout e w1 = Ok w' \<and> keeps w w'"
proof -
  note e = fired_eth [OF assms]
  obtain t m where w1: "w1 = w\<lparr>tm := m\<rparr>" "tinv w1" "t \<in> J w (Flood_ack_timeout, Bb e)"
    "J w1 = (J w)((Flood_ack_timeout, Bb e) := J w (Flood_ack_timeout, Bb e) - {t})" using assms(2) by (auto simp: fired_def)
  obtain f where f: "bb_flood (bb w e) = Some f" using e(2) w1(3) by (auto simp: eth_ok_def fl_ok_def split: option.splits)
  have fo: "fl_ok (J w) e (Some f)" using e(2) f by (simp add: eth_ok_def)
  define body where "body = snd (fl_sendbuf f)"
  obtain s where s: "snd (lsd_send e (fst (fl_sendbuf f)) body w1) = w1\<lparr>sent := s\<rparr>"
    "\<forall>p \<in> set s. p \<in> set (sent w1) \<or> hd_r_id (sp_head p) = az_device_id (zone_of w1 e) \<and> sp_body p = body"
    by (rule lsd_send_sent)
  have b: "body_ok body" using fo by (simp add: fl_ok_def body_def)
  have ws: "tinv (w1\<lparr>sent := s\<rparr>)" using w1(2) by simp
  obtain t2 m2 where t2: "add_timer FLOOD_ACK_OVER_TIME (Flood_ack_timeout, Bb e) (w1\<lparr>sent := s\<rparr>) = (t2, w1\<lparr>sent := s, tm := m2\<rparr>)"
    "tinv (w1\<lparr>sent := s, tm := m2\<rparr>)"
    "J (w1\<lparr>sent := s, tm := m2\<rparr>) = (J (w1\<lparr>sent := s\<rparr>))((Flood_ack_timeout, Bb e) := insert t2 (J (w1\<lparr>sent := s\<rparr>) (Flood_ack_timeout, Bb e)))"
    by (rule add_timer_J [OF ws]) (auto simp: FLOOD_ACK_OVER_TIME_def intf_funcs_def)
  define f' where "f' = f\<lparr>fl_ack_ctrl := Some t2\<rparr>"
  define w2 where "w2 = w\<lparr>tm := m2, bbs := (bbs w)[e := (bb w e)\<lparr>bb_flood := Some f'\<rparr>], sent := s\<rparr>"
  have wt: "w1\<lparr>sent := s, tm := m2\<rparr> = w\<lparr>tm := m2, sent := s\<rparr>" by (simp add: w1)
  have t2': "tinv (w\<lparr>tm := m2\<rparr>)" "J (w\<lparr>tm := m2\<rparr>) = (J w)((Flood_ack_timeout, Bb e) := {t2})"
    using t2(2,3) fo w1(3,4) unfolding wt by (auto simp: fl_ok_def)
  have z: "zone_of w1 e = zone_of w e" "sent w1 = sent w" by (simp_all add: w1)
  have "keeps w w2"
    by (rule flood_upd [OF assms(1) e(1) _ w2_def])
      (use f fo t2' w1(3) packets_ok [OF assms(1) e(1) b s(2) [unfolded z]] in \<open>auto simp: w2_def fl_ok_def f'_def\<close>)
  moreover have "flood_ack_timeout e w1 = Ok w2"
    using f t2(1) s(1) by (simp add: flood_ack_timeout_def w1(1) Let_def w2_def f'_def body_def set_flood_def upd_bb_def)
  ultimately show ?thesis by blast
qed

lemma flood_terminate_keeps:
  assumes "lsd_inv w" "e < length (bbs w)" "bb_flood (bb w e) \<noteq> None"
  shows "\<exists>w'. flood_terminate e w = Ok w' \<and> keeps w w' \<and>
    (\<exists>f. bb_flood (bb w' e) = Some f \<and> fl_state f = FLOOD_TERMINATED \<and> fl_queue f = [])"
proof -
  obtain f where f: "bb_flood (bb w e) = Some f" using assms(3) by blast
  have tv: "tinv w" and fo: "fl_ok (J w) e (Some f)" using assms(1,2) f by (auto simp: inv_parts eth_ok_def)
  obtain m1 where m1: "timer_off (fl_ack_ctrl f) w = Ok (w\<lparr>tm := m1\<rparr>)" "tinv (w\<lparr>tm := m1\<rparr>)"
    "J (w\<lparr>tm := m1\<rparr>) = (J w)((Flood_ack_timeout, Bb e) := J w (Flood_ack_timeout, Bb e) - set_option (fl_ack_ctrl f))"
    by (rule timer_off_J [OF tv, of "fl_ack_ctrl f" "(Flood_ack_timeout, Bb e)"]) (use fo in \<open>auto simp: fl_ok_def\<close>)
  obtain m2 where m2: "timer_off (fl_snd_ctrl f) (w\<lparr>tm := m1\<rparr>) = Ok (w\<lparr>tm := m1, tm := m2\<rparr>)" "tinv (w\<lparr>tm := m1, tm := m2\<rparr>)"
    "J (w\<lparr>tm := m1, tm := m2\<rparr>) = (J (w\<lparr>tm := m1\<rparr>))((Flood_send_lsa, Bb e) := J (w\<lparr>tm := m1\<rparr>) (Flood_send_lsa, Bb e) - set_option (fl_snd_ctrl f))"
    by (rule timer_off_J [OF m1(2), of "fl_snd_ctrl f" "(Flood_send_lsa, Bb e)"]) (use fo m1(3) in \<open>auto simp: fl_ok_def\<close>)
  define f' where "f' = f\<lparr>fl_ack_ctrl := None, fl_snd_ctrl := None, fl_state := FLOOD_TERMINATED, fl_queue := []\<rparr>"
  define w' where "w' = w\<lparr>tm := m2, bbs := (bbs w)[e := (bb w e)\<lparr>bb_flood := Some f'\<rparr>], sent := sent w\<rparr>"
  have J2: "tinv (w\<lparr>tm := m2\<rparr>)" "J (w\<lparr>tm := m2\<rparr>) = (J w)((Flood_ack_timeout, Bb e) := {}, (Flood_send_lsa, Bb e) := {})"
    using m1(3) m2(2,3) fo by (auto simp: fl_ok_def fun_eq_iff)
  have "keeps w w'"
    by (rule flood_upd [OF assms w'_def]) (use f fo J2 in \<open>auto simp: w'_def fl_ok_def f'_def\<close>)
  moreover have "flood_terminate e w = Ok w'"
    using f m1(1) m2(1) by (simp add: flood_terminate_def w'_def f'_def set_flood_def upd_bb_def)
  moreover have "bb_flood (bb w' e) = Some f'" using assms(2) by (simp add: w'_def)
  ultimately show ?thesis by (auto simp: f'_def)
qed

lemma flood_start_keeps:
  assumes "lsd_inv w" "e < length (bbs w)" "bb_flood (bb w e) \<noteq> None"
  shows "\<exists>w'. flood_start e w = Ok w' \<and> keeps w w'"
proof -
  obtain w1 f where w1: "flood_terminate e w = Ok w1" "keeps w w1" "bb_flood (bb w1 e) = Some f" "fl_state f = FLOOD_TERMINATED" "fl_queue f = []"
    using flood_terminate_keeps [OF assms] by blast
  have i: "lsd_inv w1" "e < length (bbs w1)" using w1(2) assms(2) same_net_len by (auto simp: keeps_def)
  then have fo: "tinv w1" "fl_ok (J w1) e (Some f)" using w1(3) by (auto simp: inv_parts eth_ok_def)
  define w' where "w' = w1\<lparr>tm := tm w1, bbs := (bbs w1)[e := (bb w1 e)\<lparr>bb_flood := Some (f\<lparr>fl_state := FLOOD_READY\<rparr>)\<rparr>], sent := sent w1\<rparr>"
  have "keeps w1 w'"
    by (rule flood_upd [OF i _ w'_def]) (use w1(3,4,5) fo in \<open>auto simp: w'_def fl_ok_def\<close>)
  moreover have "flood_start e w = Ok w'"
    using w1 by (simp add: flood_start_def w'_def set_flood_def upd_bb_def)
  ultimately show ?thesis using keeps_trans [OF w1(2)] by blast
qed

lemma flood_ack_received_keeps:
  assumes "lsd_inv w" "e < length (bbs w)" "bb_flood (bb w e) = Some f" "fl_state f = FLOOD_ACK_WAITING"
  shows "\<exists>w'. flood_ack_received e f seq w = Ok w' \<and> keeps w w'"
proof (cases "seq = fl_pkg_no f")
  case False
  then show ?thesis using assms(1) by (simp add: flood_ack_received_def keeps_refl)
next
  case True
  have tv: "tinv w" and fo: "fl_ok (J w) e (Some f)" using assms by (auto simp: inv_parts eth_ok_def)
  obtain m1 where m1: "timer_off (fl_ack_ctrl f) w = Ok (w\<lparr>tm := m1\<rparr>)" "tinv (w\<lparr>tm := m1\<rparr>)"
    "J (w\<lparr>tm := m1\<rparr>) = (J w)((Flood_ack_timeout, Bb e) := J w (Flood_ack_timeout, Bb e) - set_option (fl_ack_ctrl f))"
    by (rule timer_off_J [OF tv, of "fl_ack_ctrl f" "(Flood_ack_timeout, Bb e)"]) (use fo in \<open>auto simp: fl_ok_def\<close>)
  show ?thesis
  proof (cases "fl_queue f = []")
    case q: True
    define w' where "w' = w\<lparr>tm := m1, bbs := (bbs w)[e := (bb w e)\<lparr>bb_flood := Some (f\<lparr>fl_ack_ctrl := None, fl_state := FLOOD_READY\<rparr>)\<rparr>], sent := sent w\<rparr>"
    have "keeps w w'"
      by (rule flood_upd [OF assms(1,2) _ w'_def]) (use assms(3,4) fo m1 q in \<open>auto simp: w'_def fl_ok_def\<close>)
    then show ?thesis using True q m1(1) by (simp add: flood_ack_received_def w'_def set_flood_def upd_bb_def)
  next
    case q: False
    obtain t2 m2 where t2: "add_timer 0 (Flood_send_lsa, Bb e) (w\<lparr>tm := m1\<rparr>) = (t2, w\<lparr>tm := m1, tm := m2\<rparr>)" "tinv (w\<lparr>tm := m1, tm := m2\<rparr>)"
      "J (w\<lparr>tm := m1, tm := m2\<rparr>) = (J (w\<lparr>tm := m1\<rparr>))((Flood_send_lsa, Bb e) := insert t2 (J (w\<lparr>tm := m1\<rparr>) (Flood_send_lsa, Bb e)))"
      by (rule add_timer_J [OF m1(2)]) (auto simp: intf_funcs_def)
    define w' where "w' = w\<lparr>tm := m2, bbs := (bbs w)[e := (bb w e)\<lparr>bb_flood := Some (f\<lparr>fl_ack_ctrl := None, fl_state := FLOOD_BUSY, fl_snd_ctrl := Some t2\<rparr>)\<rparr>], sent := sent w\<rparr>"
    have "keeps w w'"
      by (rule flood_upd [OF assms(1,2) _ w'_def]) (use assms(3,4) fo m1 t2(2,3) q in \<open>auto simp: w'_def fl_ok_def\<close>)
    then show ?thesis using True q m1(1) t2(1) by (simp add: flood_ack_received_def w'_def set_flood_def upd_bb_def Let_def)
  qed
qed

text \<open>Spreading an advertisement over the interfaces of an area.\<close>

lemma fold_keeps:
  assumes "lsd_inv w" "set es \<subseteq> {..<length (bbs w)}"
    and "\<And>e w. lsd_inv w \<Longrightarrow> e < length (bbs w) \<Longrightarrow> keeps w (g e w)"
  shows "keeps w (fold g es w)"
  using assms(1,2)
proof (induction es arbitrary: w)
  case Nil
  then show ?case by (simp add: keeps_refl)
next
  case (Cons e es)
  have k: "keeps w (g e w)" using Cons.prems by (intro assms(3)) auto
  then have "keeps (g e w) (fold g es (g e w))"
    using Cons.prems(2) same_net_len(1) [OF keepsD(2) [OF k]] by (intro Cons.IH keepsD(1) [OF k]) auto
  then show ?case using keeps_trans [OF k] by simp
qed

lemma zone_backbones: "lsd_inv w \<Longrightarrow> z < length (zones w) \<Longrightarrow> set (az_backbones (zones w ! z)) \<subseteq> {..<length (bbs w)}"
  by (simp add: inv_parts)

lemma flood_lsa_spread_keeps:
  "lsd_inv w \<Longrightarrow> z < length (zones w) \<Longrightarrow> lsa_ok lsa \<Longrightarrow> keeps w (flood_lsa_spread lsa z w)"
  unfolding flood_lsa_spread_def by (rule fold_keeps [OF _ zone_backbones]) (auto intro: flood_add_keeps)

lemma flood_lsa_forward_keeps:
  "lsd_inv w \<Longrightarrow> e < length (bbs w) \<Longrightarrow> lsa_ok lsa \<Longrightarrow> keeps w (flood_lsa_forward lsa e w)"
  unfolding flood_lsa_forward_def
  by (rule fold_keeps [OF _ zone_backbones]) (auto intro: flood_add_keeps keeps_refl device_id_ok)

section \<open>Databases\<close>

lemma ls_find_map: "lsd_inv w \<Longrightarrow> z < length (zones w) \<Longrightarrow> ls_find z k w = lsdb_map (az_lsdb (zones w ! z)) k"
  by (simp add: ls_find_def inv_parts cr_lsdb_link_state_find_eq)

lemma put_db_keeps:
  assumes "lsd_inv w" "z < length (zones w)" "wf_lsdb db"
  shows "keeps w (snd (put_db z (c, db, pk) w))"
proof -
  let ?w = "snd (put_db z (c, db, pk) w)"
  have eq: "?w = w\<lparr>zones := (zones w)[z := (zones w ! z)\<lparr>az_lsdb := db\<rparr>], to_bm := to_bm w @ pk\<rparr>" by (simp add: put_db_def)
  have "zones_ok ?w" using assms by (auto simp: eq inv_parts nth_list_update)
  moreover have "eths_ok ?w" "ifs_ok ?w" "sent_ok ?w" "tinv ?w" using assms(1) by (auto simp: eq inv_parts)
  moreover have "jobs_ok ?w"
    using assms(1) job_ok_mono [of w _ ?w] unfolding jobs_ok_def lsd_inv_def by (auto simp: eq)
  moreover have "same_net w ?w" "ex_same w ?w"
    using assms(2) by (auto simp: eq same_net_def ex_same_def list_eq_iff_nth_eq nth_list_update)
  ultimately show ?thesis by (simp add: keeps_def lsd_inv_def)
qed

lemma ls_put_find:
  assumes "z < length (zones w)" "wf_lsdb (az_lsdb (zones w ! z))" "wf_lsdb db" "lsdb_map db = (lsdb_map (az_lsdb (zones w ! z)))(ls_key st \<mapsto> st)"
  shows "ls_find z k (snd (put_db z (c, db, pk) w)) = (if k = ls_key st then Some st else ls_find z k w)"
    "bbs (snd (put_db z (c, db, pk) w)) = bbs w" "fst (put_db z (c, db, pk) w) = c"
  using assms by (simp_all add: ls_find_def put_db_def cr_lsdb_link_state_find_eq)

lemma ls_add_keeps:
  assumes "lsd_inv w" "z < length (zones w)" "rt_id (ls_key st) \<noteq> 0" "ls_find z (ls_key st) w = None"
  shows "\<exists>w'. ls_add z st w = Ok (NO_ERR, w') \<and> keeps w w' \<and> (\<forall>k. ls_find z k w' = (if k = ls_key st then Some st else ls_find z k w)) \<and>
    bbs w' = bbs w"
proof -
  let ?db = "az_lsdb (zones w ! z)" and ?a = "get_area_id_by_lsdb_handle z w"
  have wf: "wf_lsdb ?db" using assms(1,2) by (simp add: inv_parts)
  from add_spec [OF wf assms(3), of ?a] assms(4) ls_find_map [OF assms(1,2)] obtain db' pk where
    db': "cr_lsdb_link_state_add ?a st ?db = Ok (NO_ERR, db', pk)" "wf_lsdb db'" "lsdb_map db' = (lsdb_map ?db)(ls_key st \<mapsto> st)" by auto
  note p = ls_put_find [OF assms(2) wf db'(2,3), where c = NO_ERR and pk = pk]
  have "ls_add z st w = Ok (NO_ERR, snd (put_db z (NO_ERR, db', pk) w))"
    using db'(1) p(3) by (simp add: ls_add_def prod_eq_iff)
  then show ?thesis using put_db_keeps [OF assms(1,2) db'(2), of NO_ERR pk] p(1,2) by auto
qed

lemma ls_update_keeps:
  assumes "lsd_inv w" "z < length (zones w)" "ls_find z (ls_key st) w \<noteq> None"
  shows "\<exists>w'. ls_update z st w = Ok (NO_ERR, w') \<and> keeps w w' \<and> (\<forall>k. ls_find z k w' = (if k = ls_key st then Some st else ls_find z k w)) \<and>
    bbs w' = bbs w"
proof -
  let ?db = "az_lsdb (zones w ! z)" and ?a = "get_area_id_by_lsdb_handle z w"
  have wf: "wf_lsdb ?db" using assms(1,2) by (simp add: inv_parts)
  from update_spec [OF wf, of st ?a] assms(3) ls_find_map [OF assms(1,2)] obtain db' pk where
    db': "cr_lsdb_link_state_update ?a st ?db = Ok (NO_ERR, db', pk)" "wf_lsdb db'" "lsdb_map db' = (lsdb_map ?db)(ls_key st \<mapsto> st)" by auto
  note p = ls_put_find [OF assms(2) wf db'(2,3), where c = NO_ERR and pk = pk]
  have "ls_update z st w = Ok (NO_ERR, snd (put_db z (NO_ERR, db', pk) w))"
    using db'(1) p(3) by (simp add: ls_update_def prod_eq_iff)
  then show ?thesis using put_db_keeps [OF assms(1,2) db'(2), of NO_ERR pk] p(1,2) by auto
qed

lemma ls_find_key:
  assumes "lsd_inv w" "z < length (zones w)" "ls_find z k w = Some l"
  shows "ls_key l = k" "rt_id k \<noteq> 0"
proof -
  show "ls_key l = k" using assms(3) ls_find_map [OF assms(1,2)] by (auto dest: lsdb_map_key)
  show "rt_id k \<noteq> 0" using assms(3) by (auto simp: ls_find_def cr_lsdb_link_state_find_def split: if_splits)
qed

section \<open>Accepting advertisements\<close>

lemma forward_keeps:
  assumes "keeps w w1" "e < length (bbs w)" "lsa_ok lsa"
  shows "keeps w (flood_lsa_forward lsa e w1)"
  using assms keeps_trans [OF assms(1) flood_lsa_forward_keeps [of w1 e lsa]] same_net_len by (auto simp: keeps_def)

lemma spread_keeps:
  assumes "keeps w w1" "z < length (zones w)" "lsa_ok lsa"
  shows "keeps w (flood_lsa_spread lsa z w1)"
  using assms keeps_trans [OF assms(1) flood_lsa_spread_keeps [of w1 z lsa]] same_net_len by (auto simp: keeps_def)

lemma check_local_keeps:
  assumes "lsd_inv w" "e < length (bbs w)"
  shows "\<exists>b w'. check_local_lsdb e st w = Ok (b, w') \<and> keeps w w' \<and> (\<not> b \<longrightarrow> w' = w)"
proof -
  let ?z = "bb_az (bb w e)"
  have z: "?z < length (zones w)" using assms device_id_ok by blast
  show ?thesis
  proof (cases "rt_id (ls_key st) \<noteq> az_r_id (zone_of w e) \<or> ls_find ?z (ls_key st) w = None")
    case True
    then show ?thesis using assms(1) by (auto simp: check_local_lsdb_def keeps_refl)
  next
    case False
    then obtain l where l: "ls_find ?z (ls_key st) w = Some l" by auto
    note k = ls_find_key [OF assms(1) z l]
    have "keeps w (flood_add_flood_lsa (lsdb_to_lsa_info l) e w)"
      using k by (intro flood_add_keeps assms) (simp add: lsa_ok_def lsdb_to_lsa_info_def)
    then show ?thesis using False l k assms(1) by (auto simp: check_local_lsdb_def link_state_compare_def keeps_refl)
  qed
qed

lemma accept_lsa_keeps:
  assumes "lsd_inv w" "e < length (bbs w)" "lsa_ok lsa"
  shows "\<exists>w'. accept_lsa_into_lsdb e lsa w = Ok w' \<and> keeps w w'"
proof -
  let ?z = "bb_az (bb w e)" and ?st = "lsa_to_lsdb_info (now w) lsa"
  have z: "?z < length (zones w)" using assms device_id_ok by blast
  have key: "ls_key ?st = la_key lsa" by (simp add: lsa_to_lsdb_info_def)
  obtain b w0 where c: "check_local_lsdb e ?st w = Ok (b, w0)" "keeps w w0" "\<not> b \<longrightarrow> w0 = w"
    using check_local_keeps [OF assms(1,2)] by blast
  show ?thesis
  proof (cases b)
    case True
    then show ?thesis using c by (simp add: accept_lsa_into_lsdb_def Let_def)
  next
    case False
    then have w0: "w0 = w" using c(3) by simp
    show ?thesis
    proof (cases "ls_find ?z (ls_key ?st) w")
      case None
      then obtain w1 where "ls_add ?z ?st w = Ok (NO_ERR, w1)" "keeps w w1"
        using ls_add_keeps [OF assms(1) z, of ?st] assms(3) key by (auto simp: lsa_ok_def)
      then show ?thesis using c(1) False w0 None forward_keeps [OF _ assms(2,3)] by (auto simp: accept_lsa_into_lsdb_def Let_def)
    next
      case (Some l)
      note k = ls_find_key [OF assms(1) z Some]
      obtain w1 where u: "ls_update ?z ?st w = Ok (NO_ERR, w1)" "keeps w w1"
        using ls_update_keeps [OF assms(1) z, of ?st] Some by auto
      have "keeps w (flood_add_flood_lsa (lsdb_to_lsa_info l) e w)"
        using k by (intro flood_add_keeps assms) (simp add: lsa_ok_def lsdb_to_lsa_info_def)
      then show ?thesis
        using c(1) False w0 Some u forward_keeps [OF u(2) assms(2,3)] k assms(1)
        by (auto simp: accept_lsa_into_lsdb_def Let_def link_state_compare_def keeps_refl)
    qed
  qed
qed

text \<open>A loop whose body keeps the state.\<close>

lemma res_for_keeps:
  assumes "lsd_inv w" "\<And>i w1. i \<in> set is \<Longrightarrow> keeps w w1 \<Longrightarrow> \<exists>w'. g i w1 = Ok w' \<and> keeps w1 w'"
  shows "\<exists>w'. res_for g is w = Ok w' \<and> keeps w w'"
proof -
  have "\<exists>w'. res_for g is w1 = Ok w' \<and> keeps w w'" if "keeps w w1" "set js \<subseteq> set is" "is = js" for w1 js
    using that assms(2)
  proof (induction "is" arbitrary: w1 js)
    case Nil
    then show ?case by simp
  next
    case (Cons i "is")
    obtain w2 where "g i w1 = Ok w2" "keeps w1 w2" using Cons.prems(1,4) by (meson list.set_intros(1))
    moreover from this Cons.prems(1) have "keeps w w2" using keeps_trans by blast
    ultimately show ?case using Cons.IH [OF \<open>keeps w w2\<close> _ refl] Cons.prems(4) by (auto simp: subset_iff)
  qed
  then show ?thesis using keeps_refl [OF assms(1)] by blast
qed

lemma accept_lsas_keeps:
  assumes "lsd_inv w" "e < length (bbs w)" "lsas_ok lsas"
  shows "\<exists>w'. accept_lsas e (length lsas) lsas w = Ok w' \<and> keeps w w'"
  unfolding accept_lsas_def
proof (rule res_for_keeps [OF assms(1)])
  fix i w1
  assume i: "i \<in> set [0..<length lsas]" and k: "keeps w w1"
  have "lsa_at lsas i = Ok (lsas ! i)" "lsa_ok (lsas ! i)" using i assms(3) by (auto simp: lsas_ok_def lsa_at_def)
  then show "\<exists>w'. res_bind (lsa_at lsas i) (\<lambda>l. accept_lsa_into_lsdb e l w1) = Ok w' \<and> keeps w1 w'"
    using accept_lsa_keeps [of w1 e "lsas ! i"] k assms(2) same_net_len by (auto simp: keeps_def)
qed

lemma lsd_send_keeps:
  assumes "lsd_inv w" "e < length (bbs w)" "body_ok body"
  shows "keeps w (snd (lsd_send e len body w))"
proof -
  obtain s where s: "snd (lsd_send e len body w) = w\<lparr>sent := s\<rparr>"
    "\<forall>p \<in> set s. p \<in> set (sent w) \<or> hd_r_id (sp_head p) = az_device_id (zone_of w e) \<and> sp_body p = body" by (rule lsd_send_sent)
  have "sent_ok (w\<lparr>sent := s\<rparr>)" using packets_ok [OF assms s(2)] assms(1) by (auto simp: inv_parts)
  moreover have "jobs_ok (w\<lparr>sent := s\<rparr>)"
    using assms(1) job_ok_mono [of w _ "w\<lparr>sent := s\<rparr>"] unfolding jobs_ok_def lsd_inv_def by auto
  ultimately show ?thesis using assms(1) unfolding s(1) by (auto simp: keeps_def inv_parts same_net_def ex_same_def)
qed

lemma flood_pkt_received_keeps:
  assumes "lsd_inv w" "e < length (bbs w)" "body_ok body" "bb_flood (bb w e) \<noteq> None"
  shows "\<exists>w'. flood_pkt_received e body w = Ok w' \<and> keeps w w'"
proof (cases body)
  case (Flood ty seq sz lsas)
  have ls: "lsas_ok lsas" "nat (int_of_u32 sz) = length lsas" using assms(3) Flood by auto
  let ?w = "flood_send_ack e seq w"
  have k: "keeps w ?w" unfolding flood_send_ack_def
    by (rule lsd_send_keeps [OF assms(1,2)]) (simp add: lsas_ok_def)
  then have "\<exists>w'. accept_lsas e (length lsas) lsas ?w = Ok w' \<and> keeps ?w w'"
    using assms(2) ls(1) same_net_len by (intro accept_lsas_keeps) (auto simp: keeps_def)
  then have "\<exists>w'. accept_lsas e (length lsas) lsas ?w = Ok w' \<and> keeps w w'" using keeps_trans [OF k] by blast
  then show ?thesis
    using assms(1,4) Flood ls(2) flood_ack_received_keeps [OF assms(1,2)] keeps_refl [OF assms(1)]
    by (auto simp: flood_pkt_received_def)
qed (use assms(1) in \<open>auto simp: flood_pkt_received_def keeps_refl\<close>)

section \<open>Spreading own link states\<close>

lemma if_data_ok:
  assumes "lsd_inv w" "i < length (ifs w)"
  shows "\<exists>c. cost_of i w = Ok c" "\<exists>r a. first_address i w = Ok (r, a)"
proof -
  have v: "vif_ok (length (bbs w)) (length (acs w)) (ifs w ! i)" using assms by (simp add: inv_parts)
  then show "\<exists>c. cost_of i w = Ok c" by (auto simp: cost_of_def vif_ok_def)
  from v obtain l where "ri_connected (ifs w ! i) = Some l" by (auto simp: vif_ok_def)
  then show "\<exists>r a. first_address i w = Ok (r, a)" by (cases l) (auto simp: first_address_def get_address_of_interface_def)
qed

lemma eth_if: "lsd_inv w \<Longrightarrow> e < length (bbs w) \<Longrightarrow> bb_interface (bb w e) < length (ifs w)"
  by (simp add: inv_parts)

lemma flood_spread_backbone_keeps:
  assumes "lsd_inv w" "e < length (bbs w)" "bb_hello (bb w e) = Some h" "ni_rt_id (h_neighbor h) \<noteq> 0"
  shows "\<exists>w'. flood_spread_backbone_link_state e st w = Ok w' \<and> keeps w w' \<and>
    (\<exists>l. ls_find (bb_az (bb w e)) (link_key e (h_neighbor h) w) w' = Some l)"
proof -
  let ?z = "bb_az (bb w e)" and ?k = "link_key e (h_neighbor h) w"
  have z: "?z < length (zones w)" and kz: "rt_id ?k \<noteq> 0" using device_id_ok [OF assms(1,2)] by (auto simp: link_key_def)
  have spread: "keeps w (flood_lsa_spread (lsdb_to_lsa_info l) ?z w1) \<and>
      ls_find ?z ?k (flood_lsa_spread (lsdb_to_lsa_info l) ?z w1) = ls_find ?z ?k w1"
    if "keeps w w1" "ls_key l = ?k" for w1 l
  proof -
    have "zones (fold (flood_add_flood_lsa (lsdb_to_lsa_info l)) es w1) = zones w1" for es
      by (induction es arbitrary: w1) (auto simp: flood_add_flood_lsa_def set_flood_def upd_bb_def add_timer_def Let_def split: option.splits prod.splits)
    then show ?thesis
      using that spread_keeps [OF that(1) z, of "lsdb_to_lsa_info l"] kz
      by (simp add: lsa_ok_def lsdb_to_lsa_info_def flood_lsa_spread_def ls_find_def)
  qed
  show ?thesis
  proof (cases "ls_find ?z ?k w")
    case (Some l)
    let ?l = "l\<lparr>ls_state := st, ls_seq := ls_seq l + 1\<rparr>"
    have k: "ls_key ?l = ?k" using ls_find_key [OF assms(1) z Some] by simp
    obtain w1 where w1: "ls_update ?z ?l w = Ok (NO_ERR, w1)" "keeps w w1" "ls_find ?z ?k w1 = Some ?l"
      using ls_update_keeps [OF assms(1) z, of ?l] Some k by auto
    then show ?thesis
      using spread [OF w1(2) k] Some assms(3,4) by (auto simp: flood_spread_backbone_link_state_def hello_get_neighbor_info_def Let_def)
  next
    case None
    obtain c r a where m: "get_metric_of_backbone e w = Ok c" "get_address_of_backbone e w = Ok (r, a)"
      using if_data_ok [OF assms(1) eth_if [OF assms(1,2)]] by (auto simp: get_metric_of_backbone_def get_address_of_backbone_def)
    let ?l = "\<lparr>ls_key = ?k, ls_addr = a, ls_metric = c, ls_state = st, ls_seq = 1, ls_age = (uint (junk w), uint (junk w))\<rparr>"
    obtain w1 where w1: "ls_add ?z ?l w = Ok (NO_ERR, w1)" "keeps w w1" "ls_find ?z ?k w1 = Some ?l"
      using ls_add_keeps [OF assms(1) z, of ?l] None kz by auto
    then show ?thesis
      using spread [OF w1(2), of ?l] None m assms(3,4) by (auto simp: flood_spread_backbone_link_state_def hello_get_neighbor_info_def Let_def)
  qed
qed

lemma respread_keeps:
  assumes "lsd_inv w" "z < length (zones w)"
  shows "\<exists>w'. respread z k w = Ok w' \<and> keeps w w'"
proof (cases "ls_find z k w")
  case None
  then show ?thesis using assms(1) by (simp add: respread_def keeps_refl)
next
  case (Some l)
  note k = ls_find_key [OF assms Some]
  let ?l = "l\<lparr>ls_seq := ls_seq l + 1\<rparr>"
  let ?w = "flood_lsa_spread (lsdb_to_lsa_info ?l) z w"
  have kp: "keeps w ?w" using k by (intro flood_lsa_spread_keeps assms) (simp add: lsa_ok_def lsdb_to_lsa_info_def)
  have "zones (fold (flood_add_flood_lsa lsa) es w1) = zones w1" for lsa es w1
    by (induction es arbitrary: w1) (auto simp: flood_add_flood_lsa_def set_flood_def upd_bb_def add_timer_def Let_def split: option.splits prod.splits)
  then have "ls_find z (ls_key ?l) ?w \<noteq> None" using Some k by (simp add: ls_find_def flood_lsa_spread_def)
  then obtain w1 where "ls_update z ?l ?w = Ok (NO_ERR, w1)" "keeps ?w w1"
    using ls_update_keeps [of ?w z ?l] kp assms(2) same_net_len by (auto simp: keeps_def)
  then show ?thesis using Some keeps_trans [OF kp] by (auto simp: respread_def Let_def)
qed

lemma spread_access_keeps:
  assumes "lsd_inv w"
  shows "\<exists>w'. spread_access a w = Ok w' \<and> keeps w w'"
  unfolding spread_access_def
proof (rule res_for_keeps [OF assms])
  fix z w1
  assume "z \<in> set (azs w)" "keeps w w1"
  then have "lsd_inv w1" "z < length (zones w1)" using assms same_net_len by (auto simp: keeps_def inv_parts)
  then show "\<exists>w'. respread z \<lparr>rt_id = az_device_id (zones w1 ! z), if_id = ac_ifid (acs w1 ! a), n_rt_id = 0, n_if_id = 0\<rparr> w1 = Ok w' \<and> keeps w1 w'"
    by (rule respread_keeps)
qed

definition hellos_present :: "lsd \<Rightarrow> bool" where
  "hellos_present w \<longleftrightarrow> (\<forall>e < length (bbs w). bb_hello (bb w e) \<noteq> None)"

lemma hellos_present_same: "same_net w w' \<Longrightarrow> hellos_present w \<Longrightarrow> hellos_present w'"
  by (simp add: hellos_present_def same_net_bb(1) same_net_len)

lemma spread_zone_keeps:
  assumes "lsd_inv w" "hellos_present w" "z < length (zones w)"
  shows "\<exists>w'. res_for (spread_backbone z) (az_backbones (zones w ! z)) w = Ok w' \<and> keeps w w'"
proof (rule res_for_keeps [OF assms(1)])
  fix e w1
  assume e: "e \<in> set (az_backbones (zones w ! z))" and k: "keeps w w1"
  then have "e < length (bbs w)" using assms(1,3) zone_backbones by blast
  then obtain h where "bb_hello (bb w1 e) = Some h"
    using hellos_present_same [OF keepsD(2) [OF k] assms(2)] same_net_len [OF keepsD(2) [OF k]] by (auto simp: hellos_present_def)
  then show "\<exists>w'. spread_backbone z e w1 = Ok w' \<and> keeps w1 w'"
    using respread_keeps [of w1 z] k assms(3) same_net_len [OF keepsD(2) [OF k]]
    by (auto simp: spread_backbone_def hello_get_neighbor_info_def keeps_def [of w w1] intro: keeps_refl)
qed

text \<open>A change of timers that belong to no interface leaves the invariant as it is.\<close>

lemma job_ok_frame: "bbs w' = bbs w \<Longrightarrow> acs w' = acs w \<Longrightarrow> job_ok w' j = job_ok w j"
  by (cases j) (simp add: job_ok.simps)

lemma inv_frame [simp]:
  "lsd_inv (w\<lparr>periodctrl := p\<rparr>) = lsd_inv w" "lsd_inv (w\<lparr>flood_called := c\<rparr>) = lsd_inv w"
  using job_ok_frame [of "w\<lparr>periodctrl := p\<rparr>" w] job_ok_frame [of "w\<lparr>flood_called := c\<rparr>" w]
  by (simp_all add: lsd_inv_def zones_ok_def ifs_ok_def sent_ok_def eths_ok_def jobs_ok_def)

lemma inv_tm:
  assumes "lsd_inv w" "tinv (w\<lparr>tm := m\<rparr>)" "\<And>e j. j \<in> eth_jobs e \<Longrightarrow> J (w\<lparr>tm := m\<rparr>) j = J w j"
    and "\<And>j. J (w\<lparr>tm := m\<rparr>) j \<noteq> {} \<Longrightarrow> J w j \<noteq> {} \<or> job_ok w j"
  shows "lsd_inv (w\<lparr>tm := m\<rparr>)"
proof -
  have "eth_ok (J (w\<lparr>tm := m\<rparr>)) e b = eth_ok (J w) e b" for e b using assms(3) by (rule eth_ok_cong)
  then have "eths_ok (w\<lparr>tm := m\<rparr>)" using assms(1) unfolding lsd_inv_def eths_ok_def by simp
  moreover have "job_ok (w\<lparr>tm := m\<rparr>) i" if "J (w\<lparr>tm := m\<rparr>) i \<noteq> {}" for i
  proof -
    have "job_ok w i" using assms(1) assms(4) [OF that] unfolding lsd_inv_def jobs_ok_def by blast
    then show ?thesis by (rule job_ok_mono) simp_all
  qed
  ultimately show ?thesis using assms(1,2) by (simp add: lsd_inv_def zones_ok_def ifs_ok_def sent_ok_def jobs_ok_def)
qed

lemma fired_inv:
  assumes "lsd_inv w" "fired w j w1" "\<And>e. j \<notin> eth_jobs e"
  shows "lsd_inv w1"
proof -
  obtain t m where w1: "w1 = w\<lparr>tm := m\<rparr>" "tinv w1" "J w1 = (J w)(j := J w j - {t})" using assms(2) by (auto simp: fired_def)
  show ?thesis unfolding w1(1)
    by (rule inv_tm [OF assms(1)]) (use w1(2,3) assms(3) in \<open>auto simp: w1(1) split: if_splits\<close>)
qed

lemma add_timer_inv:
  assumes "lsd_inv w" "us < 2 ^ 32" "j = (Spread_local_link_state, NoArg)" "add_timer us j w = (t, w')"
  shows "lsd_inv w'" "\<exists>m. w' = w\<lparr>tm := m\<rparr>" "J w' = (J w)(j := insert t (J w j))"
proof -
  obtain t0 m where t: "add_timer us j w = (t0, w\<lparr>tm := m\<rparr>)" "tinv (w\<lparr>tm := m\<rparr>)" "J (w\<lparr>tm := m\<rparr>) = (J w)(j := insert t0 (J w j))"
    by (rule add_timer_J [of w us j]) (use assms in \<open>auto simp: lsd_inv_def intf_funcs_def\<close>)
  have w': "w' = w\<lparr>tm := m\<rparr>" "t0 = t" using t(1) assms(4) by auto
  then show "\<exists>m. w' = w\<lparr>tm := m\<rparr>" "J w' = (J w)(j := insert t (J w j))" using t(3) by auto
  have "job_ok w j" by (simp add: assms(3) job_ok.simps intf_funcs_def)
  then show "lsd_inv w'" unfolding w'(1)
    by (intro inv_tm [OF assms(1) t(2)]) (auto simp: t(3) assms(3) eth_jobs_def split: if_splits)
qed

end
