(* ===== verification/Lsd_Handlers.thy ===== *)
theory Lsd_Handlers
  imports Lsd_Invariant
begin

text \<open>
  The exchange and hello callbacks keep the invariant.  Two clauses relate the protocols of an interface: the
  state of an exchange follows the state of the high-priority hello, and an interface without
  protocol state has an event pending that creates it.
\<close>

section \<open>Clauses across the protocols of an interface\<close>

text \<open>While the neighbour is not detected, no exchange is under way, except on the interfaces of \<open>X\<close>.\<close>

definition idle :: "hello_master option \<Rightarrow> bool" where
  "idle ho \<longleftrightarrow> (\<forall>h. ho = Some h \<longrightarrow> high_status h = LSD_DISCONNETED)"

definition terminated :: "exchange_master option \<Rightarrow> bool" where
  "terminated xo \<longleftrightarrow> (\<forall>x. xo = Some x \<longrightarrow> send_state x = EXCHANGE_STATE_SEND_TERMINATED)"

definition sync :: "nat set \<Rightarrow> lsd \<Rightarrow> bool" where
  "sync X w \<longleftrightarrow> (\<forall>e < length (bbs w). e \<notin> X \<longrightarrow> idle (bb_hello (bb w e)) \<longrightarrow> terminated (bb_exchange (bb w e)))"

lemma idle_simps [simp]: "idle None" "idle (Some h) \<longleftrightarrow> high_status h = LSD_DISCONNETED"
  by (simp_all add: idle_def)

lemma terminated_simps [simp]: "terminated None" "terminated (Some x) \<longleftrightarrow> send_state x = EXCHANGE_STATE_SEND_TERMINATED"
  by (simp_all add: terminated_def)

lemma terminated_map: "map_option send_state a = map_option send_state b \<Longrightarrow> terminated a = terminated b"
  by (cases a; cases b) simp_all

definition intf_pending :: "lsd \<Rightarrow> nat \<Rightarrow> bool" where
  "intf_pending w e \<longleftrightarrow> J w (Interface_up, Bb e) \<noteq> {} \<or> J w (Interface_down, Bb e) \<noteq> {}"

definition masters :: "nat set \<Rightarrow> lsd \<Rightarrow> bool" where
  "masters X w \<longleftrightarrow> (\<forall>e < length (bbs w). e \<notin> X \<longrightarrow> bb_hello (bb w e) = None \<longrightarrow> intf_pending w e)"

definition lsd_good :: "nat set \<Rightarrow> nat set \<Rightarrow> lsd \<Rightarrow> bool" where
  "lsd_good X Y w \<longleftrightarrow> lsd_inv w \<and> sync X w \<and> masters Y w \<and> period_ok w"

text \<open>An operation that may also change the exchange of interface \<open>e\<close>.\<close>

definition keeps_but :: "nat \<Rightarrow> lsd \<Rightarrow> lsd \<Rightarrow> bool" where
  "keeps_but e w w' \<longleftrightarrow> lsd_inv w' \<and> same_net w w' \<and>
     (\<forall>e' < length (bbs w). e' \<noteq> e \<longrightarrow> bb_exchange (bb w' e') = bb_exchange (bb w e'))"

lemma keeps_keeps_but: "keeps w w' \<Longrightarrow> keeps_but e w w'"
  by (simp add: keeps_def keeps_but_def ex_same_bb)

lemma keeps_but_trans: "keeps_but e a b \<Longrightarrow> keeps_but e b c \<Longrightarrow> keeps_but e a c"
  unfolding keeps_but_def using same_net_trans same_net_len(1) by metis

lemma keeps_butD: "keeps_but e w w' \<Longrightarrow> lsd_inv w'" "keeps_but e w w' \<Longrightarrow> same_net w w'"
  by (simp_all add: keeps_but_def)

lemma masters_same: "same_net w w' \<Longrightarrow> masters Y w \<Longrightarrow> masters Y w'"
  by (auto simp: masters_def intf_pending_def same_net_len same_net_bb(1)) (simp add: same_net_def)+

lemma period_same: "same_net w w' \<Longrightarrow> period_ok w \<Longrightarrow> period_ok w'"
  by (simp add: period_ok_def same_net_def)

lemma good_keeps_but:
  assumes "lsd_good X Y w" "keeps_but e w w'"
    and "e \<in> X' \<or> (idle (bb_hello (bb w e)) \<longrightarrow> terminated (bb_exchange (bb w' e)))" "X \<subseteq> insert e X'"
  shows "lsd_good X' Y w'"
proof -
  note n = keeps_butD(2) [OF assms(2)]
  have "sync X' w'"
    unfolding sync_def
  proof (intro allI impI)
    fix i
    assume i: "i < length (bbs w')" "i \<notin> X'" "idle (bb_hello (bb w' i))"
    then have l: "i < length (bbs w)" "idle (bb_hello (bb w i))" using same_net_len(1) [OF n] same_net_bb(1) [OF n] by auto
    show "terminated (bb_exchange (bb w' i))"
    proof (cases "i = e")
      case True
      then show ?thesis using assms(3) i l by blast
    next
      case False
      then have "i \<notin> X" using i(2) assms(4) by blast
      then have "terminated (bb_exchange (bb w i))" using assms(1) l unfolding lsd_good_def sync_def by blast
      then show ?thesis using assms(2) False l(1) by (simp add: keeps_but_def)
    qed
  qed
  then show ?thesis using assms(1) keeps_butD(1) [OF assms(2)] masters_same [OF n] period_same [OF n] by (simp add: lsd_good_def)
qed

lemma sync_keeps:
  assumes "sync X w" "keeps w w'"
  shows "sync X w'"
  unfolding sync_def
proof (intro allI impI)
  fix i
  assume i: "i < length (bbs w')" "i \<notin> X" "idle (bb_hello (bb w' i))"
  have n: "same_net w w'" "ex_same w w'" using assms(2) by (simp_all add: keeps_def)
  have l: "i < length (bbs w)" using i(1) same_net_len(1) [OF n(1)] by simp
  have "idle (bb_hello (bb w i))" using i(3) same_net_bb(1) [OF n(1) l] by simp
  then have "terminated (bb_exchange (bb w i))" using assms(1) i(2) l unfolding sync_def by blast
  then show "terminated (bb_exchange (bb w' i))" using ex_same_bb [OF n(2) l] by simp
qed

lemma good_keeps: "lsd_good X Y w \<Longrightarrow> keeps w w' \<Longrightarrow> lsd_good X Y w'"
  using sync_keeps masters_same period_same by (auto simp: lsd_good_def keeps_def)

section \<open>Exchange\<close>

lemma eth_okD:
  assumes "lsd_inv w" "e < length (bbs w)"
  shows "tinv w" "ex_ok (J w) e (bb_exchange (bb w e))" "fl_ok (J w) e (bb_flood (bb w e))" "he_ok (J w) e (bb_hello (bb w e))"
    "bb_hello (bb w e) \<noteq> None \<Longrightarrow> bb_exchange (bb w e) \<noteq> None \<and> bb_flood (bb w e) \<noteq> None"
  using assms by (simp_all add: inv_parts eth_ok_def)

lemma exchange_body_ok:
  assumes "\<forall>d \<in> set ls. rt_id (ls_key d) \<noteq> 0"
  shows "body_ok (Exchange ty mr (of_nat (length (take LINK_LSA_CT_PER_PAK ls))) seq (map lsdb_to_lsa_info (take LINK_LSA_CT_PER_PAK ls)))"
proof -
  have "length (take LINK_LSA_CT_PER_PAK ls) \<le> 1" by (simp add: LINK_LSA_CT_PER_PAK_def)
  then show ?thesis using assms
    by (auto simp: lsas_ok_def LSA_PER_BUF_def lsa_ok_def lsdb_to_lsa_info_def unat_of_nat dest!: in_set_takeD)
qed

text \<open>Sending the next packet of an exchange, with no acknowledgement timer running.\<close>

lemma exchange_send_keeps:
  assumes "lsd_inv w" "e < length (bbs w)" "bb_exchange (bb w e) \<noteq> None" "w0 = w\<lparr>tm := m0\<rparr>" "tinv w0"
    and "J w0 = (J w)((Ack_time_excceed, Bb e) := {})" "ex_rcv_ctrl x = None" "\<forall>d \<in> set (ex_links_state x). rt_id (ls_key d) \<noteq> 0"
  shows "\<exists>x'. keeps_but e w (exchange_send e x w0) \<and> bb_exchange (bb (exchange_send e x w0) e) = Some x' \<and>
    send_state x' = EXCHANGE_STATE_SEND_WAITING"
proof -
  obtain t m where t: "add_timer EX_ACK_OVER_TIME (Ack_time_excceed, Bb e) w0 = (t, w0\<lparr>tm := m\<rparr>)" "tinv (w0\<lparr>tm := m\<rparr>)"
    "J (w0\<lparr>tm := m\<rparr>) = (J w0)((Ack_time_excceed, Bb e) := insert t (J w0 (Ack_time_excceed, Bb e)))"
    by (rule add_timer_J [OF assms(5)]) (auto simp: EX_ACK_OVER_TIME_def intf_funcs_def)
  define ls where "ls = take LINK_LSA_CT_PER_PAK (ex_links_state x)"
  define rest where "rest = drop LINK_LSA_CT_PER_PAK (ex_links_state x)"
  define len :: u16 where "len = of_nat (SIZEOF_EXCHANGE + SIZEOF_LSA * length ls)"
  define body where "body = Exchange (if ls = [] then EXCHANGE_PKG_TYPE_NO_DATA else EXCHANGE_PKG_TYPE_LINKS_STATE)
                   (if rest = [] then 0 else 1) (of_nat (length ls)) (ex_pkg_no x) (map lsdb_to_lsa_info ls)"
  define x' where "x' = x\<lparr>ex_links_state := rest, ex_sendbuf := (len, body), send_state := EXCHANGE_STATE_SEND_WAITING, ex_ack_ctrl := Some t\<rparr>"
  define w2 where "w2 = set_exchange e x' (w0\<lparr>tm := m\<rparr>)"
  obtain s where s: "snd (lsd_send e len body w2) = w2\<lparr>sent := s\<rparr>"
    "\<forall>p \<in> set s. p \<in> set (sent w2) \<or> hd_r_id (sp_head p) = az_device_id (zone_of w2 e) \<and> sp_body p = body"
    by (rule lsd_send_sent)
  have b: "body_ok body" using assms(8) unfolding body_def ls_def by (rule exchange_body_ok)
  have z: "zone_of w2 e = zone_of w e" "sent w2 = sent w" using assms(2) by (simp_all add: w2_def set_exchange_def upd_bb_def assms(4))
  have eq: "w2\<lparr>sent := s\<rparr> = w\<lparr>tm := m, bbs := (bbs w)[e := (bb w e)\<lparr>bb_exchange := Some x'\<rparr>], sent := s\<rparr>"
    by (simp add: w2_def set_exchange_def upd_bb_def assms(4))
  have res: "exchange_send e x w0 = w2\<lparr>sent := s\<rparr>"
    using t(1) s(1) by (simp add: exchange_send_def Let_def w2_def x'_def body_def len_def ls_def rest_def)
  have t': "tinv (w\<lparr>tm := m\<rparr>)" "J (w\<lparr>tm := m\<rparr>) = (J w)((Ack_time_excceed, Bb e) := {t})"
    using t(2,3) assms(6) by (auto simp: assms(4))
  have "lsd_inv (w2\<lparr>sent := s\<rparr>) \<and> same_net w (w2\<lparr>sent := s\<rparr>) \<and>
    (\<forall>e' < length (bbs w). e' \<noteq> e \<longrightarrow> bb_exchange (bb (w2\<lparr>sent := s\<rparr>) e') = bb_exchange (bb w e')) \<and> bb_exchange (bb (w2\<lparr>sent := s\<rparr>) e) = Some x'"
    by (rule exchange_upd [OF assms(1-3) eq])
      (use t' b assms(7,8) packets_ok [OF assms(1,2) b s(2) [unfolded z]] in \<open>auto simp: eq ex_ok_def x'_def rest_def dest: in_set_dropD\<close>)
  then show ?thesis by (simp add: res keeps_but_def x'_def)
qed

lemma exchange_send_start_keeps:
  assumes "lsd_inv w" "e < length (bbs w)" "bb_exchange (bb w e) = Some x" "send_state x = EXCHANGE_STATE_SEND_TERMINATED"
  shows "\<exists>w'. exchange_send_start e w = Ok w' \<and> keeps_but e w w'"
proof -
  let ?db = "az_lsdb (zone_of w e)"
  let ?x = "x\<lparr>send_state := EXCHANGE_STATE_SEND_WAITING, ex_links_state := snd (cr_lsdb_get_links_state ?db)\<rparr>"
  have wf: "wf_lsdb ?db" using device_id_ok(2) [OF assms(1,2)] assms(1) by (simp add: inv_parts)
  have xo: "tinv w" "ex_ok (J w) e (Some x)" using eth_okD [OF assms(1,2)] assms(3) by simp_all
  then have none: "J w (Ack_time_excceed, Bb e) = {}" "ex_rcv_ctrl x = None" using assms(4) by (auto simp: ex_ok_def)
  have "\<forall>d \<in> ran (lsdb_map ?db). rt_id (ls_key d) \<noteq> 0"
    using ls_find_key [OF assms(1) device_id_ok(2) [OF assms(1,2)]] ls_find_map [OF assms(1) device_id_ok(2) [OF assms(1,2)]]
    by (auto simp: ran_def)
  then have "\<forall>d \<in> set (ex_links_state ?x). rt_id (ls_key d) \<noteq> 0" using get_links_state_all [OF wf] by simp
  then have "keeps_but e w (exchange_send e ?x w)"
    using exchange_send_keeps [OF assms(1,2) _ _ xo(1), of "tm w" ?x] none assms(3) by (simp add: fun_upd_idem)
  moreover have "exchange_send_start e w = Ok (exchange_send e ?x w)"
    using assms(3,4) get_links_state_all(1) [OF wf] by (cases "cr_lsdb_get_links_state ?db") (simp add: exchange_send_start_def)
  ultimately show ?thesis by blast
qed

lemma exchange_terminate_keeps:
  assumes "lsd_inv w" "e < length (bbs w)" "bb_exchange (bb w e) = Some x"
  shows "\<exists>w' x'. exchange_terminate e w = Ok w' \<and> keeps_but e w w' \<and> bb_exchange (bb w' e) = Some x' \<and>
    send_state x' = EXCHANGE_STATE_SEND_TERMINATED"
proof -
  have xo: "tinv w" "ex_ok (J w) e (Some x)" using eth_okD [OF assms(1,2)] assms(3) by simp_all
  obtain m where m: "timer_off (ex_ack_ctrl x) w = Ok (w\<lparr>tm := m\<rparr>)" "tinv (w\<lparr>tm := m\<rparr>)"
    "J (w\<lparr>tm := m\<rparr>) = (J w)((Ack_time_excceed, Bb e) := J w (Ack_time_excceed, Bb e) - set_option (ex_ack_ctrl x))"
    by (rule timer_off_J [OF xo(1), of "ex_ack_ctrl x" "(Ack_time_excceed, Bb e)"]) (use xo(2) in \<open>auto simp: ex_ok_def\<close>)
  define x' where "x' = x\<lparr>ex_links_state := [], ex_ack_ctrl := None, ex_rcv_ctrl := None, retry_times := 0,
                  ex_pkg_no := 0, send_state := EXCHANGE_STATE_SEND_TERMINATED, rcv_state := EXCHANGE_STATE_RCV_TREMINATED\<rparr>"
  define w' where "w' = w\<lparr>tm := m, bbs := (bbs w)[e := (bb w e)\<lparr>bb_exchange := Some x'\<rparr>], sent := sent w\<rparr>"
  have "lsd_inv w' \<and> same_net w w' \<and> (\<forall>e' < length (bbs w). e' \<noteq> e \<longrightarrow> bb_exchange (bb w' e') = bb_exchange (bb w e')) \<and>
    bb_exchange (bb w' e) = Some x'"
    by (rule exchange_upd [OF assms(1,2) _ w'_def]) (use assms(3) xo(2) m in \<open>auto simp: w'_def ex_ok_def x'_def\<close>)
  moreover have "exchange_terminate e w = Ok w'"
    using assms(3) m(1) xo(2) by (simp add: exchange_terminate_def w'_def x'_def ex_ok_def timer_off_def [of None] set_exchange_def upd_bb_def)
  ultimately show ?thesis by (auto simp: keeps_but_def x'_def)
qed

lemma ack_time_excceed_keeps:
  assumes "lsd_inv w" "fired w (Ack_time_excceed, Bb e) w1"
  shows "\<exists>w'. ack_time_excceed e w1 = Ok w' \<and> keeps_but e w w' \<and> map_option send_state (bb_exchange (bb w' e)) = map_option send_state (bb_exchange (bb w e))"
proof -
  note e = fired_eth [OF assms]
  obtain t m where w1: "w1 = w\<lparr>tm := m\<rparr>" "tinv w1" "t \<in> J w (Ack_time_excceed, Bb e)"
    "J w1 = (J w)((Ack_time_excceed, Bb e) := J w (Ack_time_excceed, Bb e) - {t})" using assms(2) by (auto simp: fired_def)
  obtain x where x: "bb_exchange (bb w e) = Some x" using e(2) w1(3) by (auto simp: eth_ok_def ex_ok_def split: option.splits)
  have xo: "ex_ok (J w) e (Some x)" using e(2) x by (simp add: eth_ok_def)
  then have st: "send_state x = EXCHANGE_STATE_SEND_WAITING" "J w (Ack_time_excceed, Bb e) = {t}"
    using w1(3) by (cases "ex_ack_ctrl x"; auto simp: ex_ok_def)+
  obtain t2 m2 where t2: "add_timer EX_ACK_OVER_TIME (Ack_time_excceed, Bb e) w1 = (t2, w1\<lparr>tm := m2\<rparr>)" "tinv (w1\<lparr>tm := m2\<rparr>)"
    "J (w1\<lparr>tm := m2\<rparr>) = (J w1)((Ack_time_excceed, Bb e) := insert t2 (J w1 (Ack_time_excceed, Bb e)))"
    by (rule add_timer_J [OF w1(2)]) (auto simp: EX_ACK_OVER_TIME_def intf_funcs_def)
  define x' where "x' = x\<lparr>ex_ack_ctrl := Some t2\<rparr>"
  define w2 where "w2 = set_exchange e x' (w1\<lparr>tm := m2\<rparr>)"
  obtain s where s: "snd (lsd_send e (fst (ex_sendbuf x)) (snd (ex_sendbuf x)) w2) = w2\<lparr>sent := s\<rparr>"
    "\<forall>p \<in> set s. p \<in> set (sent w2) \<or> hd_r_id (sp_head p) = az_device_id (zone_of w2 e) \<and> sp_body p = snd (ex_sendbuf x)"
    by (rule lsd_send_sent)
  have b: "body_ok (snd (ex_sendbuf x))" using xo by (simp add: ex_ok_def)
  have z: "zone_of w2 e = zone_of w e" "sent w2 = sent w" using e(1) by (simp_all add: w2_def set_exchange_def upd_bb_def w1)
  have eq: "w2\<lparr>sent := s\<rparr> = w\<lparr>tm := m2, bbs := (bbs w)[e := (bb w e)\<lparr>bb_exchange := Some x'\<rparr>], sent := s\<rparr>"
    by (simp add: w2_def set_exchange_def upd_bb_def w1)
  have t2': "tinv (w\<lparr>tm := m2\<rparr>)" "J (w\<lparr>tm := m2\<rparr>) = (J w)((Ack_time_excceed, Bb e) := {t2})"
    using t2(2,3) st(2) w1(4) by (auto simp: w1(1))
  have "lsd_inv (w2\<lparr>sent := s\<rparr>) \<and> same_net w (w2\<lparr>sent := s\<rparr>) \<and>
    (\<forall>e' < length (bbs w). e' \<noteq> e \<longrightarrow> bb_exchange (bb (w2\<lparr>sent := s\<rparr>) e') = bb_exchange (bb w e')) \<and> bb_exchange (bb (w2\<lparr>sent := s\<rparr>) e) = Some x'"
    by (rule exchange_upd [OF assms(1) e(1) _ eq])
      (use x xo st(1) t2' packets_ok [OF assms(1) e(1) b s(2) [unfolded z]] in \<open>auto simp: eq ex_ok_def x'_def\<close>)
  moreover have "ack_time_excceed e w1 = Ok (w2\<lparr>sent := s\<rparr>)"
    using x st(1) t2(1) s(1) by (simp add: ack_time_excceed_def Let_def w2_def x'_def w1(1))
  ultimately show ?thesis using x by (auto simp: keeps_but_def x'_def)
qed

lemma ex_ack_received_keeps:
  assumes "lsd_inv w" "e < length (bbs w)" "bb_exchange (bb w e) = Some x" "send_state x = EXCHANGE_STATE_SEND_WAITING"
  shows "\<exists>w'. ex_ack_received e x seq w = Ok w' \<and> keeps_but e w w'"
proof (cases "seq = ex_pkg_no x")
  case False
  then show ?thesis using keeps_keeps_but [OF keeps_refl [OF assms(1)]] by (simp add: ex_ack_received_def)
next
  case True
  have xo: "tinv w" "ex_ok (J w) e (Some x)" using eth_okD [OF assms(1,2)] assms(3) by simp_all
  obtain m where m: "timer_off (ex_ack_ctrl x) w = Ok (w\<lparr>tm := m\<rparr>)" "tinv (w\<lparr>tm := m\<rparr>)"
    "J (w\<lparr>tm := m\<rparr>) = (J w)((Ack_time_excceed, Bb e) := J w (Ack_time_excceed, Bb e) - set_option (ex_ack_ctrl x))"
    by (rule timer_off_J [OF xo(1), of "ex_ack_ctrl x" "(Ack_time_excceed, Bb e)"]) (use xo(2) in \<open>auto simp: ex_ok_def\<close>)
  have e: "J (w\<lparr>tm := m\<rparr>) = (J w)((Ack_time_excceed, Bb e) := {})" using m(3) xo(2) by (simp add: ex_ok_def)
  show ?thesis
  proof (cases "ex_links_state x = []")
    case fin: True
    define w' where "w' = w\<lparr>tm := m, bbs := (bbs w)[e := (bb w e)\<lparr>bb_exchange := Some (x\<lparr>ex_ack_ctrl := None, retry_times := 0,
      send_state := EXCHANGE_STATE_SEND_END\<rparr>)\<rparr>], sent := sent w\<rparr>"
    have "lsd_inv w' \<and> same_net w w' \<and> (\<forall>e' < length (bbs w). e' \<noteq> e \<longrightarrow> bb_exchange (bb w' e') = bb_exchange (bb w e')) \<and>
      bb_exchange (bb w' e) = Some (x\<lparr>ex_ack_ctrl := None, retry_times := 0, send_state := EXCHANGE_STATE_SEND_END\<rparr>)"
      by (rule exchange_upd [OF assms(1,2) _ w'_def]) (use assms(3) xo(2) m(2) e in \<open>auto simp: w'_def ex_ok_def\<close>)
    moreover have "ex_ack_received e x seq w = Ok w'"
      using True fin m(1) by (simp add: ex_ack_received_def w'_def set_exchange_def upd_bb_def)
    ultimately show ?thesis by (auto simp: keeps_but_def)
  next
    case more: False
    let ?x = "x\<lparr>ex_ack_ctrl := None, retry_times := 0, ex_pkg_no := ex_pkg_no x + 1\<rparr>"
    have "keeps_but e w (exchange_send e ?x (w\<lparr>tm := m\<rparr>))"
      using exchange_send_keeps [OF assms(1,2) _ refl m(2) e, of ?x] assms(3) xo(2) by (simp add: ex_ok_def)
    then show ?thesis using True more m(1) by (simp add: ex_ack_received_def)
  qed
qed

lemma set_rcv_keeps:
  assumes "lsd_inv w" "e < length (bbs w)" "bb_exchange (bb w e) = Some x" "ex_ok (J w) e (Some (f x))" "send_state (f x) = send_state x"
  shows "keeps_but e w (set_rcv e f w)" "map_option send_state (bb_exchange (bb (set_rcv e f w) e)) = map_option send_state (bb_exchange (bb w e))"
proof -
  define w' where "w' = w\<lparr>tm := tm w, bbs := (bbs w)[e := (bb w e)\<lparr>bb_exchange := Some (f x)\<rparr>], sent := sent w\<rparr>"
  have eq: "set_rcv e f w = w'" using assms(3) by (simp add: set_rcv_def upd_bb_def w'_def)
  have "lsd_inv w' \<and> same_net w w' \<and> (\<forall>e' < length (bbs w). e' \<noteq> e \<longrightarrow> bb_exchange (bb w' e') = bb_exchange (bb w e')) \<and>
      bb_exchange (bb w' e) = Some (f x)"
    by (rule exchange_upd [OF assms(1,2) _ w'_def]) (use assms(3,4) eth_okD(1) [OF assms(1,2)] in \<open>auto simp: w'_def\<close>)
  then show "keeps_but e w (set_rcv e f w)" "map_option send_state (bb_exchange (bb (set_rcv e f w) e)) = map_option send_state (bb_exchange (bb w e))"
    using assms(3,5) by (auto simp: keeps_but_def eq)
qed

lemma keeps_but_ex_state:
  assumes "lsd_good X Y w" "keeps_but e w w'" "e < length (bbs w)"
    and "map_option send_state (bb_exchange (bb w' e)) = map_option send_state (bb_exchange (bb w e))"
  shows "lsd_good X Y w'"
proof (rule good_keeps_but [OF assms(1,2)])
  have "terminated (bb_exchange (bb w' e))" if "e \<notin> X" "idle (bb_hello (bb w e))"
    using assms(1,3) that terminated_map [OF assms(4)] unfolding lsd_good_def sync_def by blast
  then show "e \<in> X \<or> (idle (bb_hello (bb w e)) \<longrightarrow> terminated (bb_exchange (bb w' e)))" by blast
qed blast

lemma good_inv: "lsd_good X Y w \<Longrightarrow> lsd_inv w"
  by (simp add: lsd_good_def)

lemma exchange_links_good:
  assumes "lsd_good X Y w" "e < length (bbs w)" "bb_exchange (bb w e) = Some x" "lsas_ok lsas"
  shows "\<exists>w'. accept_lsas e (length lsas) lsas w = Ok w' \<and> lsd_good X Y w' \<and> same_net w w' \<and> bb_exchange (bb w' e) = Some x"
proof -
  obtain w' where w': "accept_lsas e (length lsas) lsas w = Ok w'" "keeps w w'"
    using accept_lsas_keeps [OF good_inv [OF assms(1)] assms(2,4)] by blast
  then show ?thesis
    using good_keeps [OF assms(1) w'(2)] ex_same_bb [of w w' e] assms(2,3) by (auto simp: keeps_def)
qed

lemma set_rcv_good:
  assumes "lsd_good X Y w" "e < length (bbs w)" "bb_exchange (bb w e) = Some x" "ex_ok (J w) e (Some (f x))" "send_state (f x) = send_state x"
  shows "lsd_good X Y (set_rcv e f w)" "same_net w (set_rcv e f w)" "bb_exchange (bb (set_rcv e f w) e) = Some (f x)"
proof -
  note s = set_rcv_keeps [where f = f, OF good_inv [OF assms(1)] assms(2-5)]
  show "lsd_good X Y (set_rcv e f w)" using keeps_but_ex_state [OF assms(1) s(1) assms(2) s(2)] .
  show "same_net w (set_rcv e f w)" using s(1) by (simp add: keeps_but_def)
  show "bb_exchange (bb (set_rcv e f w) e) = Some (f x)" using assms(2,3) by (simp add: set_rcv_def upd_bb_def)
qed

lemma exchange_pkt_received_good:
  assumes "lsd_good X Y w" "e < length (bbs w)" "bb_exchange (bb w e) \<noteq> None" "body_ok body"
  shows "\<exists>w'. exchange_pkt_received e body w = Ok w' \<and> lsd_good X Y w' \<and> same_net w w'"
proof (cases body)
  case (Exchange ty mr len seq lsas)
  have ls: "lsas_ok lsas" "unat len = length lsas" using assms(4) Exchange by auto
  note inv = good_inv [OF assms(1)]
  obtain x where x: "bb_exchange (bb w e) = Some x" using assms(3) by blast
  have xo: "ex_ok (J w) e (Some x)" using eth_okD(2) [OF inv assms(2)] x by simp
  consider (ack) "ty = EXCHANGE_PKG_TYPE_ACK" "send_state x = EXCHANGE_STATE_SEND_WAITING" | (no) "ty = EXCHANGE_PKG_TYPE_ACK" "send_state x \<noteq> EXCHANGE_STATE_SEND_WAITING"
    | (data) "ty \<noteq> EXCHANGE_PKG_TYPE_ACK" by blast
  then show ?thesis
  proof cases
    case ack
    obtain w' where w': "ex_ack_received e x seq w = Ok w'" "keeps_but e w w'"
      using ex_ack_received_keeps [OF inv assms(2) x ack(2)] by blast
    have "e \<notin> X \<Longrightarrow> \<not> idle (bb_hello (bb w e))"
      using assms(1,2) x ack(2) unfolding lsd_good_def sync_def by fastforce
    then have "lsd_good X Y w'" by (intro good_keeps_but [OF assms(1) w'(2)]) auto
    then show ?thesis using w' Exchange x ack by (simp add: exchange_pkt_received_def keeps_but_def)
  next
    case no
    then show ?thesis using assms(1) Exchange x by (simp add: exchange_pkt_received_def)
  next
    case data
    define rcv where "rcv = (if rcv_state x = EXCHANGE_STATE_RCV_TREMINATED then EXCHANGE_STATE_RCV_WAITING else rcv_state x)"
    define w1 where "w1 = set_rcv e (\<lambda>x. x\<lparr>rcv_state := rcv\<rparr>) w"
    have "ex_ok (J w) e (Some (x\<lparr>rcv_state := rcv\<rparr>))" using xo by (simp add: ex_ok_def)
    note s1 = set_rcv_good [where f = "\<lambda>x. x\<lparr>rcv_state := rcv\<rparr>", OF assms(1,2) x, simplified, OF this, folded w1_def]
    show ?thesis
    proof (cases "rcv \<noteq> EXCHANGE_STATE_RCV_WAITING \<or> ty \<noteq> EXCHANGE_PKG_TYPE_LINKS_STATE")
      case True
      then show ?thesis using Exchange x data s1(1,2) by (auto simp: exchange_pkt_received_def rcv_def w1_def)
    next
      case False
      have l1: "e < length (bbs w1)" using assms(2) same_net_len(1) [OF s1(2)] by simp
      obtain w2 where w2: "accept_lsas e (length lsas) lsas w1 = Ok w2" "lsd_good X Y w2" "same_net w1 w2" "bb_exchange (bb w2 e) = Some (x\<lparr>rcv_state := rcv\<rparr>)"
        using exchange_links_good [OF s1(1) l1 s1(3) ls(1)] by blast
      have l2: "e < length (bbs w2)" using l1 same_net_len(1) [OF w2(3)] by simp
      define w3 where "w3 = exchange_send_ack e seq w2"
      have k3: "keeps w2 w3" unfolding w3_def exchange_send_ack_def
        by (rule lsd_send_keeps [OF good_inv [OF w2(2)] l2]) (simp add: lsas_ok_def)
      have g3: "lsd_good X Y w3" using good_keeps [OF w2(2) k3] .
      have n3: "same_net w2 w3" "bb_exchange (bb w3 e) = Some (x\<lparr>rcv_state := rcv\<rparr>)"
        using k3 ex_same_bb [of w2 w3 e] l2 w2(4) by (auto simp: keeps_def)
      have l3: "e < length (bbs w3)" using l2 same_net_len(1) [OF n3(1)] by simp
      define f where "f = (\<lambda>x :: exchange_master. x\<lparr>ex_rcv_ctrl := None, rcv_state := (if mr = 0 then EXCHANGE_STATE_RCV_END else rcv_state x)\<rparr>)"
      have "ex_ok (J w3) e (Some (x\<lparr>rcv_state := rcv\<rparr>))" using eth_okD(2) [OF good_inv [OF g3] l3] n3(2) by simp
      then have fo: "ex_ok (J w3) e (Some (f (x\<lparr>rcv_state := rcv\<rparr>)))" by (simp add: ex_ok_def f_def)
      note s4 = set_rcv_good [where f = f, OF g3 l3 n3(2) fo]
      have "ex_rcv_ctrl x = None" using xo by (simp add: ex_ok_def)
      then have off: "timer_off (ex_rcv_ctrl x) w3 = Ok w3" by (simp add: timer_off_def)
      have rcv: "rcv = EXCHANGE_STATE_RCV_WAITING" "ty = EXCHANGE_PKG_TYPE_LINKS_STATE" using False by simp_all
      have "exchange_pkt_received e body w = res_bind (link_lsa_received len lsas e w1) (\<lambda>w2. res_bind (timer_off (ex_rcv_ctrl x) (exchange_send_ack e seq w2))
          (\<lambda>w4. Ok (set_rcv e f w4)))"
        unfolding exchange_pkt_received_def Exchange lsd_body.case x option.case rcv_def [symmetric] Let_def w1_def f_def
        using data rcv by (simp only: if_False simp_thms if_True)
      then have "exchange_pkt_received e body w = Ok (set_rcv e f w3)"
        using w2(1) off by (simp only: link_lsa_received_def w3_def ls(2) res_bind.simps)
      moreover have "same_net w (set_rcv e f w3)" 
        by (rule same_net_trans [OF same_net_trans [OF same_net_trans [OF s1(2) w2(3)] n3(1)] s4(2)]) (simp add: f_def)
      ultimately show ?thesis using s4(1) by (simp add: f_def)
    qed
  qed
qed (use assms(1) in \<open>auto simp: exchange_pkt_received_def\<close>)

section \<open>Hello\<close>

definition hello_funcs :: "lsd_func set" where
  "hello_funcs = {Dead_timer_high, Dead_timer_low, Hello_high_send, Hello_low_send}"

lemma hello_upd:
  assumes "lsd_good X Y w" "e < length (bbs w)" "bb_exchange (bb w e) \<noteq> None" "bb_flood (bb w e) \<noteq> None"
    and "w' = w\<lparr>tm := m, bbs := (bbs w)[e := (bb w e)\<lparr>bb_hello := Some h\<rparr>], sent := s\<rparr>" "tinv w'"
    and "\<And>f p. f \<notin> hello_funcs \<or> p \<noteq> Bb e \<Longrightarrow> J w' (f, p) = J w (f, p)" "he_ok (J w') e (Some h)"
    and "\<forall>p \<in> set s. p \<in> set (sent w) \<or> packet_ok (sp_head p) (sp_body p)"
    and "e \<in> X' \<or> (high_status h = LSD_DISCONNETED \<longrightarrow> terminated (bb_exchange (bb w e)))"
    and "X \<subseteq> insert e X'" "Y \<subseteq> insert e Y'"
  shows "lsd_good X' Y' w'"
proof -
  have e: "eth_ok (J w) e (bb w e)" using good_inv [OF assms(1)] assms(2) by (simp add: inv_parts)
  have "eth_ok (J w') e ((bb w e)\<lparr>bb_hello := Some h\<rparr>)"
    using e assms(3,4,7,8) by (auto simp: eth_ok_def fl_ok_def ex_ok_def hello_funcs_def cong: option.case_cong)
  moreover have "J w' j = J w j" if "j \<notin> eth_jobs e" for j
    using that assms(7) by (cases j) (auto simp: eth_jobs_def hello_funcs_def)
  ultimately have "lsd_inv w'"
    by (intro lsd_inv_upd [OF good_inv [OF assms(1)] assms(2,6), where b = "(bb w e)\<lparr>bb_hello := Some h\<rparr>"])
      (use assms(9) in \<open>simp_all add: assms(5)\<close>)
  moreover have "sync X' w'"
    unfolding sync_def
  proof (intro allI impI)
    fix i
    assume i: "i < length (bbs w')" "i \<notin> X'" "idle (bb_hello (bb w' i))"
    show "terminated (bb_exchange (bb w' i))"
    proof (cases "i = e")
      case True
      then show ?thesis using i assms(2,10) by (simp add: assms(5))
    next
      case False
      then have "i \<notin> X" "bb w' i = bb w i" using i(2) assms(11) by (auto simp: assms(5))
      then show ?thesis using assms(1) i unfolding lsd_good_def sync_def by (simp add: assms(5))
    qed
  qed
  moreover have "masters Y' w'"
    unfolding masters_def
  proof (intro allI impI)
    fix i
    assume i: "i < length (bbs w')" "i \<notin> Y'" "bb_hello (bb w' i) = None"
    then have "i \<noteq> e" using assms(2) by (auto simp: assms(5))
    then have "bb_hello (bb w i) = None" "i \<notin> Y" "i < length (bbs w)" using i assms(12) by (auto simp: assms(5))
    then have "intf_pending w i" using assms(1) by (simp add: lsd_good_def masters_def)
    then show "intf_pending w' i" using assms(7) by (simp add: intf_pending_def hello_funcs_def)
  qed
  moreover have "period_ok w'" using assms(1,7) by (simp add: lsd_good_def period_ok_def hello_funcs_def) (simp add: assms(5))
  ultimately show ?thesis by (simp add: lsd_good_def)
qed

lemma own_link_state_ok:
  assumes "lsd_inv w" "e < length (bbs w)"
  shows "\<exists>st. own_link_state e n w = Ok st \<and> ls_key st = link_key e n w"
proof -
  note d = if_data_ok [OF assms(1) eth_if [OF assms]]
  show ?thesis using d by (auto simp: own_link_state_def get_metric_of_backbone_def get_address_of_backbone_def)
qed

lemma link_key_same: "same_net w w' \<Longrightarrow> e < length (bbs w) \<Longrightarrow> bb_az (bb w e) < length (zones w) \<Longrightarrow> link_key e n w' = link_key e n w"
  by (simp add: link_key_def same_net_bb same_net_zone)

text \<open>Recording a link state, whether the database holds one for the link or not.\<close>

lemma record_keeps:
  assumes "lsd_inv w" "z < length (zones w)" "rt_id (ls_key st) \<noteq> 0"
  shows "ls_find z (ls_key st) w = None \<Longrightarrow> \<exists>w'. ls_add z st w = Ok (NO_ERR, w') \<and> keeps w w' \<and> bbs w' = bbs w"
    "ls_find z (ls_key st) w \<noteq> None \<Longrightarrow> \<exists>w'. ls_update z st w = Ok (NO_ERR, w') \<and> keeps w w' \<and> bbs w' = bbs w"
  using ls_add_keeps [OF assms] ls_update_keeps [OF assms(1,2), of st] by blast+

lemma hello_changed_low_keeps:
  assumes "lsd_inv w" "e < length (bbs w)" "bb_hello (bb w e) = Some h" "ni_rt_id (h_neighbor h) \<noteq> 0"
  shows "\<exists>w'. hello_changed_low e status w = Ok w' \<and> keeps w w'"
proof -
  let ?z = "bb_az (bb w e)" and ?k = "link_key e (h_neighbor h) w"
  have z: "?z < length (zones w)" and kz: "rt_id ?k \<noteq> 0" using device_id_ok [OF assms(1,2)] by (auto simp: link_key_def)
  have n: "hello_get_neighbor_info e w = Ok (h_neighbor h)" using assms(3) by (simp add: hello_get_neighbor_info_def)
  obtain st where st: "own_link_state e (h_neighbor h) w = Ok st" "ls_key st = ?k" using own_link_state_ok [OF assms(1,2)] by blast
  show ?thesis
  proof (cases "ls_find ?z ?k w")
    case None
    let ?st = "st\<lparr>ls_seq := 0, ls_state := (if status = LSD_CONNECTED then 1 else 0)\<rparr>"
    obtain w1 where w1: "ls_add ?z ?st w = Ok (NO_ERR, w1)" "keeps w w1" "bbs w1 = bbs w"
      using record_keeps(1) [OF assms(1) z, of ?st] None st(2) kz by auto
    obtain w2 where "flood_spread_backbone_link_state e (ls_state ?st) w1 = Ok w2" "keeps w1 w2"
      using flood_spread_backbone_keeps [OF keepsD(1) [OF w1(2)], of e h "ls_state ?st"] w1(3) assms(2-4) by auto
    then show ?thesis using None n st w1(1) keeps_trans [OF w1(2)] by (auto simp: hello_changed_low_def)
  next
    case (Some l)
    let ?st = "st\<lparr>ls_seq := ls_seq l, ls_state := state_bit 0 status (ls_state l)\<rparr>"
    obtain w1 where w1: "flood_spread_backbone_link_state e (ls_state ?st) w = Ok w1" "keeps w w1" "ls_find ?z ?k w1 \<noteq> None"
      using flood_spread_backbone_keeps [OF assms, of "ls_state ?st"] by auto
    have z1: "?z < length (zones w1)" using z same_net_len(2) [OF keepsD(2) [OF w1(2)]] by simp
    obtain w2 where "ls_update ?z ?st w1 = Ok (NO_ERR, w2)" "keeps w1 w2"
      using ls_update_keeps [OF keepsD(1) [OF w1(2)] z1, of ?st] w1(3) st(2) by auto
    then show ?thesis using Some n st w1(1) keeps_trans [OF w1(2)] by (auto simp: hello_changed_low_def)
  qed
qed

text \<open>\<open>hello_changed_high\<close> first records the new state of the link.\<close>

definition record_high :: "nat \<Rightarrow> lsd_status \<Rightarrow> cr_lsdb_link_state \<Rightarrow> lsd \<Rightarrow> (u8 \<times> lsd) res" where
  "record_high z status st0 w =
     (case ls_find z (ls_key st0) w of
        None \<Rightarrow>
          (let st = st0\<lparr>ls_seq := 0, ls_state := (if status = LSD_CONNECTED then 2 else 0)\<rparr>
           in res_bind (ls_add z st w) (\<lambda>(r, w1). c_assert (r = NO_ERR) (Ok (ls_state st, w1))))
      | Some h_result \<Rightarrow>
          (let st = st0\<lparr>ls_seq := ls_seq h_result, ls_state := state_bit 1 status (ls_state h_result)\<rparr>
           in res_bind (ls_update z st w) (\<lambda>(r, w1). c_assert (r = NO_ERR) (Ok (ls_state st, w1)))))"

lemma record_high_keeps:
  assumes "lsd_inv w" "z < length (zones w)" "rt_id (ls_key st) \<noteq> 0"
  shows "\<exists>s w'. record_high z status st w = Ok (s, w') \<and> keeps w w' \<and> bbs w' = bbs w"
proof (cases "ls_find z (ls_key st) w")
  case None
  then show ?thesis
    using record_keeps(1) [OF assms(1,2), of "st\<lparr>ls_seq := 0, ls_state := (if status = LSD_CONNECTED then 2 else 0)\<rparr>"] assms(3)
    by (auto simp: record_high_def)
next
  case (Some l)
  then show ?thesis
    using record_keeps(2) [OF assms(1,2), of "st\<lparr>ls_seq := ls_seq l, ls_state := state_bit 1 status (ls_state l)\<rparr>"] assms(3)
    by (auto simp: record_high_def)
qed

lemma hello_changed_high_eq:
  assumes "bb_hello (bb w e) = Some h" "own_link_state e (h_neighbor h) w = Ok st" "record_high (bb_az (bb w e)) status st w = Ok (s, w1)"
  shows "hello_changed_high e status w =
     (if status = LSD_CONNECTED
      then res_bind (exchange_send_start e w1) (\<lambda>w2. res_bind (flood_start e w2) (flood_spread_backbone_link_state e s))
      else res_bind (exchange_terminate e w1) (\<lambda>w2. res_bind (flood_spread_backbone_link_state e s w2) (flood_terminate e)))"
  using assms(1,2) assms(3) [unfolded record_high_def]
  by (simp only: hello_changed_high_def hello_get_neighbor_info_def option.case res_bind.simps Let_def prod.case)

lemma hello_changed_high_good:
  assumes "lsd_good {e} Y w" "e < length (bbs w)" "bb_hello (bb w e) = Some h" "ni_rt_id (h_neighbor h) \<noteq> 0" "high_status h = status"
    and "status = LSD_CONNECTED \<Longrightarrow> terminated (bb_exchange (bb w e))"
  shows "\<exists>w'. hello_changed_high e status w = Ok w' \<and> lsd_good {} Y w' \<and> same_net w w'"
proof -
  note inv = good_inv [OF assms(1)]
  let ?z = "bb_az (bb w e)" and ?k = "link_key e (h_neighbor h) w"
  have z: "?z < length (zones w)" and kz: "rt_id ?k \<noteq> 0" using device_id_ok [OF inv assms(2)] by (auto simp: link_key_def)
  obtain st where st: "own_link_state e (h_neighbor h) w = Ok st" "ls_key st = ?k" using own_link_state_ok [OF inv assms(2)] by blast
  obtain s w1 where w1: "record_high ?z status st w = Ok (s, w1)" "keeps w w1" "bbs w1 = bbs w"
    using record_high_keeps [OF inv z, of st status] st(2) kz by auto
  note eq = hello_changed_high_eq [OF assms(3) st(1) w1(1)]
  have i1: "lsd_inv w1" "e < length (bbs w1)" "same_net w w1" using w1 assms(2) by (simp_all add: keeps_def)
  obtain x where x: "bb_exchange (bb w1 e) = Some x" and fl: "bb_flood (bb w1 e) \<noteq> None"
    using eth_okD(5) [OF inv assms(2)] assms(3) w1(3) by auto
  have bbs: "bb_hello (bb w' e) = Some h \<and> bb_flood (bb w' e) \<noteq> None \<and> e < length (bbs w')" if "same_net w1 w'" for w'
    using same_net_bb [OF that i1(2)] same_net_len(1) [OF that] i1(2) w1(3) assms(3) fl by simp
  show ?thesis
  proof (cases "status = LSD_CONNECTED")
    case True
    obtain w2 where w2: "exchange_send_start e w1 = Ok w2" "keeps_but e w1 w2"
      using exchange_send_start_keeps [OF i1(1,2) x] assms(6) True x w1(3) by auto
    note b2 = bbs [OF keeps_butD(2) [OF w2(2)]]
    obtain w3 where w3: "flood_start e w2 = Ok w3" "keeps w2 w3"
      using flood_start_keeps [OF keeps_butD(1) [OF w2(2)], of e] b2 by auto
    have n3: "same_net w1 w3" using same_net_trans [OF keeps_butD(2) [OF w2(2)] keepsD(2) [OF w3(2)]] .
    obtain w4 where w4: "flood_spread_backbone_link_state e s w3 = Ok w4" "keeps w3 w4"
      using flood_spread_backbone_keeps [OF keepsD(1) [OF w3(2)], of e h s] bbs [OF n3] assms(4) by auto
    have k: "keeps_but e w w4"
      using keeps_but_trans [OF keeps_keeps_but [OF w1(2)] keeps_but_trans [OF w2(2) keeps_keeps_but [OF keeps_trans [OF w3(2) w4(2)]]]] .
    have "lsd_good {} Y w4" using assms(3,5) True by (intro good_keeps_but [OF assms(1) k]) auto
    then show ?thesis using eq True w2(1) w3(1) w4(1) keeps_butD(2) [OF k] by simp
  next
    case False
    obtain w2 x2 where w2: "exchange_terminate e w1 = Ok w2" "keeps_but e w1 w2" "bb_exchange (bb w2 e) = Some x2" "send_state x2 = EXCHANGE_STATE_SEND_TERMINATED"
      using exchange_terminate_keeps [OF i1(1,2) x] by blast
    note b2 = bbs [OF keeps_butD(2) [OF w2(2)]]
    obtain w3 where w3: "flood_spread_backbone_link_state e s w2 = Ok w3" "keeps w2 w3"
      using flood_spread_backbone_keeps [OF keeps_butD(1) [OF w2(2)], of e h s] b2 assms(4) by auto
    have n3: "same_net w1 w3" using same_net_trans [OF keeps_butD(2) [OF w2(2)] keepsD(2) [OF w3(2)]] .
    obtain w4 where w4: "flood_terminate e w3 = Ok w4" "keeps w3 w4"
      using flood_terminate_keeps [OF keepsD(1) [OF w3(2)], of e] bbs [OF n3] by auto
    have k: "keeps_but e w w4"
      using keeps_but_trans [OF keeps_keeps_but [OF w1(2)] keeps_but_trans [OF w2(2) keeps_keeps_but [OF keeps_trans [OF w3(2) w4(2)]]]] .
    have "bb_exchange (bb w4 e) = Some x2" using ex_same_bb [of w2 w4 e] keeps_trans [OF w3(2) w4(2)] b2 w2(3) by (simp add: keeps_def)
    then have "lsd_good {} Y w4" using w2(4) by (intro good_keeps_but [OF assms(1) k]) auto
    then show ?thesis using eq False w2(1) w3(1) w4(1) keeps_butD(2) [OF k] by simp
  qed
qed

section \<open>Hello callbacks\<close>

lemma micros_bound: "unat (a * b :: u32) < 2 ^ 32"
  by (rule order_less_le_trans [OF unsigned_less]) simp

text \<open>The two senders differ in the pointer they keep to their timer.\<close>

definition put_timer :: "lsd_func \<Rightarrow> nat \<Rightarrow> hello_master \<Rightarrow> hello_master" where
  "put_timer f t h = (if f = Hello_high_send then h\<lparr>h_hello_timer_high := Some t\<rparr> else h\<lparr>h_hello_timer_low := Some t\<rparr>)"

lemma hello_send_step:
  assumes "lsd_good {} Y w" "fired w (f, Bb e) w1" "f \<in> {Hello_high_send, Hello_low_send}" "us < 2 ^ 32" "body_ok body"
    and "bb_hello (bb w e) = Some h" "add_timer us (f, Bb e) w1 = (t2, w2)"
  shows "lsd_good {} Y (snd (lsd_send e len body (set_hello e (put_timer f t2 h) w2)))"
proof -
  note inv = good_inv [OF assms(1)]
  note e = fired_eth [OF inv assms(2)]
  obtain t m where w1: "w1 = w\<lparr>tm := m\<rparr>" "tinv w1" "J w1 = (J w)((f, Bb e) := J w (f, Bb e) - {t})"
    using assms(2) by (auto simp: fired_def)
  have ho: "he_ok (J w) e (Some h)" using e(2) assms(6) by (simp add: eth_ok_def)
  obtain m2 where t2: "w2 = w1\<lparr>tm := m2\<rparr>" "tinv (w1\<lparr>tm := m2\<rparr>)" "J (w1\<lparr>tm := m2\<rparr>) = (J w1)((f, Bb e) := insert t2 (J w1 (f, Bb e)))"
    by (rule add_timer_J [OF w1(2) assms(4), of "(f, Bb e)"]) (use assms(3,7) in \<open>auto simp: intf_funcs_def\<close>)
  define w3 where "w3 = set_hello e (put_timer f t2 h) w2"
  obtain s where s: "snd (lsd_send e len body w3) = w3\<lparr>sent := s\<rparr>"
    "\<forall>p \<in> set s. p \<in> set (sent w3) \<or> hd_r_id (sp_head p) = az_device_id (zone_of w3 e) \<and> sp_body p = body"
    by (rule lsd_send_sent)
  have z: "zone_of w3 e = zone_of w e" "sent w3 = sent w" using e(1) by (simp_all add: w3_def set_hello_def upd_bb_def w1 t2)
  have eq: "w3\<lparr>sent := s\<rparr> = w\<lparr>tm := m2, bbs := (bbs w)[e := (bb w e)\<lparr>bb_hello := Some (put_timer f t2 h)\<rparr>], sent := s\<rparr>"
    by (simp add: w3_def set_hello_def upd_bb_def w1 t2)
  have t2': "tinv (w\<lparr>tm := m2\<rparr>)" "J (w\<lparr>tm := m2\<rparr>) = (J w)((f, Bb e) := insert t2 (J w (f, Bb e) - {t}))"
    using t2(2,3) w1(3) by (auto simp: w1(1))
  have "lsd_good {} Y (w3\<lparr>sent := s\<rparr>)"
  proof (rule hello_upd [OF assms(1) e(1) _ _ eq])
    show "he_ok (J (w3\<lparr>sent := s\<rparr>)) e (Some (put_timer f t2 h))"
      using ho t2' assms(3) by (auto simp: eq he_ok_def put_timer_def)
    show "\<forall>p \<in> set s. p \<in> set (sent w) \<or> packet_ok (sp_head p) (sp_body p)"
      using packets_ok [OF inv e(1) assms(5) s(2) [unfolded z]] .
    show "e \<in> {} \<or> (high_status (put_timer f t2 h) = LSD_DISCONNETED \<longrightarrow>
        terminated (bb_exchange (bb w e)))"
      using assms(1,6) e(1) by (auto simp: put_timer_def lsd_good_def sync_def)
  qed (use t2' assms(3,6) eth_okD(5) [OF inv e(1)] in \<open>auto simp: eq hello_funcs_def\<close>)
  then show ?thesis using s(1) by (simp add: w3_def)
qed

lemma fired_hello:
  assumes "lsd_inv w" "fired w (f, Bb e) w1" "f \<in> hello_funcs"
  obtains h where "bb_hello (bb w e) = Some h" "bb_hello (bb w1 e) = Some h" "he_ok (J w) e (Some h)"
proof -
  note e = fired_eth [OF assms(1,2)]
  have "J w (f, Bb e) \<noteq> {}" "bbs w1 = bbs w" using assms(2) by (auto simp: fired_def)
  then show thesis using e(2) assms(3) that by (auto simp: eth_ok_def he_ok_def hello_funcs_def split: option.splits)
qed

lemma hello_high_send_good:
  assumes "lsd_good {} Y w" "fired w (Hello_high_send, Bb e) w1"
  shows "\<exists>w'. hello_high_send e w1 = Ok w' \<and> lsd_good {} Y w'"
proof -
  obtain h where h: "bb_hello (bb w e) = Some h" "bb_hello (bb w1 e) = Some h"
    by (rule fired_hello [OF good_inv [OF assms(1)] assms(2)]) (simp add: hello_funcs_def)
  obtain t w2 where t: "add_timer (unat (h_hello_val h * TMP_VAR)) (Hello_high_send, Bb e) w1 = (t, w2)" by fastforce
  show ?thesis
    using hello_send_step [OF assms _ micros_bound _ h(1) t] h(2) t by (simp add: hello_high_send_def put_timer_def)
qed

lemma hello_low_send_good:
  assumes "lsd_good {} Y w" "fired w (Hello_low_send, Bb e) w1"
  shows "\<exists>w'. hello_low_send e w1 = Ok w' \<and> lsd_good {} Y w'"
proof -
  obtain h where h: "bb_hello (bb w e) = Some h" "bb_hello (bb w1 e) = Some h"
    by (rule fired_hello [OF good_inv [OF assms(1)] assms(2)]) (simp add: hello_funcs_def)
  obtain t w2 where t: "add_timer (unat (TMP_VAR * l_hello_val h)) (Hello_low_send, Bb e) w1 = (t, w2)" by fastforce
  show ?thesis
    using hello_send_step [OF assms _ micros_bound _ h(1) t] h(2) t by (simp add: hello_low_send_def put_timer_def)
qed

lemma dead_timer_high_good:
  assumes "lsd_good {} Y w" "fired w (Dead_timer_high, Bb e) w1"
  shows "\<exists>w'. dead_timer_high e w1 = Ok w' \<and> lsd_good {} Y w'"
proof -
  note inv = good_inv [OF assms(1)]
  note e = fired_eth [OF inv assms(2)]
  obtain h where h: "bb_hello (bb w e) = Some h" "bb_hello (bb w1 e) = Some h" "he_ok (J w) e (Some h)"
    by (rule fired_hello [OF inv assms(2)]) (simp add: hello_funcs_def)
  obtain t m where w1: "w1 = w\<lparr>tm := m\<rparr>" "tinv w1" "t \<in> J w (Dead_timer_high, Bb e)"
    "J w1 = (J w)((Dead_timer_high, Bb e) := J w (Dead_timer_high, Bb e) - {t})" using assms(2) by (auto simp: fired_def)
  have t: "high_status h = LSD_CONNECTED" "J w (Dead_timer_high, Bb e) = {t}" "ni_rt_id (h_neighbor h) \<noteq> 0"
    using h(3) w1(3) by (cases "h_dead_timer_high h"; auto simp: he_ok_def)+
  define h' where "h' = h\<lparr>h_dead_timer_high := None, high_status := LSD_DISCONNETED\<rparr>"
  define w2 where "w2 = set_hello e h' w1"
  have eq: "w2 = w\<lparr>tm := m, bbs := (bbs w)[e := (bb w e)\<lparr>bb_hello := Some h'\<rparr>], sent := sent w\<rparr>"
    by (simp add: w2_def set_hello_def upd_bb_def w1)
  have "tinv (w\<lparr>tm := m\<rparr>)" "J (w\<lparr>tm := m\<rparr>) = (J w)((Dead_timer_high, Bb e) := {})" using w1(2,4) t(2) by (auto simp: w1(1))
  then have "lsd_good {e} Y w2"
    by (intro hello_upd [OF assms(1) e(1) _ _ eq])
      (use h eth_okD(5) [OF inv e(1)] in \<open>auto simp: eq he_ok_def h'_def hello_funcs_def\<close>)
  then have "\<exists>w'. hello_changed_high e LSD_DISCONNETED w2 = Ok w' \<and> lsd_good {} Y w' \<and> same_net w2 w'"
    by (rule hello_changed_high_good [where h = h']) (use e(1) t(3) in \<open>auto simp: eq h'_def\<close>)
  then show ?thesis using h(2) t(1) by (auto simp: dead_timer_high_def hello_changed_handler_def w2_def h'_def)
qed

lemma dead_timer_low_good:
  assumes "lsd_good {} Y w" "fired w (Dead_timer_low, Bb e) w1"
  shows "\<exists>w'. dead_timer_low e w1 = Ok w' \<and> lsd_good {} Y w'"
proof -
  note inv = good_inv [OF assms(1)]
  note e = fired_eth [OF inv assms(2)]
  obtain h where h: "bb_hello (bb w e) = Some h" "bb_hello (bb w1 e) = Some h" "he_ok (J w) e (Some h)"
    by (rule fired_hello [OF inv assms(2)]) (simp add: hello_funcs_def)
  obtain t m where w1: "w1 = w\<lparr>tm := m\<rparr>" "tinv w1" "t \<in> J w (Dead_timer_low, Bb e)"
    "J w1 = (J w)((Dead_timer_low, Bb e) := J w (Dead_timer_low, Bb e) - {t})" using assms(2) by (auto simp: fired_def)
  have t: "low_status h = LSD_CONNECTED" "J w (Dead_timer_low, Bb e) = {t}" "ni_rt_id (h_neighbor h) \<noteq> 0"
    using h(3) w1(3) by (cases "h_dead_timer_low h"; auto simp: he_ok_def)+
  define h' where "h' = h\<lparr>h_dead_timer_low := None, low_status := LSD_DISCONNETED\<rparr>"
  define w2 where "w2 = set_hello e h' w1"
  have eq: "w2 = w\<lparr>tm := m, bbs := (bbs w)[e := (bb w e)\<lparr>bb_hello := Some h'\<rparr>], sent := sent w\<rparr>"
    by (simp add: w2_def set_hello_def upd_bb_def w1)
  have "tinv (w\<lparr>tm := m\<rparr>)" "J (w\<lparr>tm := m\<rparr>) = (J w)((Dead_timer_low, Bb e) := {})" using w1(2,4) t(2) by (auto simp: w1(1))
  then have g: "lsd_good {} Y w2"
    by (intro hello_upd [OF assms(1) e(1) _ _ eq])
      (use h eth_okD(5) [OF inv e(1)] assms(1) e(1) in \<open>auto simp: eq he_ok_def h'_def hello_funcs_def lsd_good_def sync_def\<close>)
  then have "\<exists>w'. hello_changed_low e LSD_DISCONNETED w2 = Ok w' \<and> keeps w2 w'"
    by (intro hello_changed_low_keeps [where h = h'] good_inv [OF g]) (use e(1) t(3) in \<open>auto simp: eq h'_def\<close>)
  then show ?thesis using h(2) t(1) good_keeps [OF g] by (auto simp: dead_timer_low_def hello_changed_handler_def w2_def h'_def)
qed

lemma hello_high_received_good:
  assumes "lsd_good {} Y w" "e < length (bbs w)" "bb_hello (bb w e) = Some h" "hd_r_id head \<noteq> 0"
  shows "\<exists>w'. hello_on_high_packet_received e head body w = Ok w' \<and> lsd_good {} Y w'"
proof (cases "pktype body = 1")
  case False
  then show ?thesis using assms(1) by (simp add: hello_on_high_packet_received_def)
next
  case True
  note inv = good_inv [OF assms(1)]
  note eo = eth_okD [OF inv assms(2)]
  have ho: "he_ok (J w) e (Some h)" using eo(4) assms(3) by simp
  have mas: "bb_exchange (bb w e) \<noteq> None" "bb_flood (bb w e) \<noteq> None" using eo(5) assms(3) by simp_all
  let ?j = "(Dead_timer_high, Bb e)"
  obtain m where m: "timer_off (h_dead_timer_high h) w = Ok (w\<lparr>tm := m\<rparr>)" "tinv (w\<lparr>tm := m\<rparr>)"
    "J (w\<lparr>tm := m\<rparr>) = (J w)(?j := J w ?j - set_option (h_dead_timer_high h))"
    by (rule timer_off_J [OF eo(1), of "h_dead_timer_high h" ?j]) (use ho in \<open>auto simp: he_ok_def\<close>)
  obtain t m2 where t: "add_timer (unat (TMP_VAR * h_dead_val h)) ?j (w\<lparr>tm := m\<rparr>) = (t, w\<lparr>tm := m, tm := m2\<rparr>)" "tinv (w\<lparr>tm := m, tm := m2\<rparr>)"
    "J (w\<lparr>tm := m, tm := m2\<rparr>) = (J (w\<lparr>tm := m\<rparr>))(?j := insert t (J (w\<lparr>tm := m\<rparr>) ?j))"
    by (rule add_timer_J [OF m(2) micros_bound]) (auto simp: intf_funcs_def)
  have J2: "tinv (w\<lparr>tm := m2\<rparr>)" "J (w\<lparr>tm := m2\<rparr>) = (J w)(?j := {t})"
    using t(2,3) m(3) ho by (auto simp: he_ok_def)
  have up: "lsd_good X' Y (set_hello e h' (w\<lparr>tm := m2\<rparr>))"
    if "he_ok ((J w)(?j := {t})) e (Some h')" "e \<in> X' \<or> high_status h' = LSD_CONNECTED" for X' h'
  proof -
    have eq: "set_hello e h' (w\<lparr>tm := m2\<rparr>) = w\<lparr>tm := m2, bbs := (bbs w)[e := (bb w e)\<lparr>bb_hello := Some h'\<rparr>], sent := sent w\<rparr>"
      by (simp add: set_hello_def upd_bb_def)
    show ?thesis by (rule hello_upd [OF assms(1,2) mas eq]) (use that J2 in \<open>auto simp: eq hello_funcs_def\<close>)
  qed
  show ?thesis
  proof (cases "high_status h")
    case LSD_DISCONNETED
    define h' where "h' = h\<lparr>h_dead_timer_high := Some t, high_status := LSD_CONNECTED, h_neighbor := \<lparr>ni_rt_id = hd_r_id head, ni_if_id = hd_if_id head\<rparr>\<rparr>"
    define w2 where "w2 = set_hello e h' (w\<lparr>tm := m2\<rparr>)"
    have g: "lsd_good {e} Y w2" unfolding w2_def by (rule up) (use ho assms(4) in \<open>auto simp: he_ok_def h'_def\<close>)
    have x: "terminated (bb_exchange (bb w2 e))"
      using assms(1-3) LSD_DISCONNETED by (auto simp: lsd_good_def sync_def w2_def set_hello_def upd_bb_def)
    have "\<exists>w'. hello_changed_high e LSD_CONNECTED w2 = Ok w' \<and> lsd_good {} Y w' \<and> same_net w2 w'"
      by (rule hello_changed_high_good [where h = h', OF g]) (use assms(2,4) x in \<open>auto simp: w2_def set_hello_def upd_bb_def h'_def\<close>)
    then show ?thesis
      using True assms(3) m(1) t(1) LSD_DISCONNETED
      by (auto simp: hello_on_high_packet_received_def hello_changed_handler_def w2_def h'_def)
  next
    case LSD_CONNECTED
    have "lsd_good {} Y (set_hello e (h\<lparr>h_dead_timer_high := Some t\<rparr>) (w\<lparr>tm := m2\<rparr>))"
      by (rule up) (use ho LSD_CONNECTED in \<open>auto simp: he_ok_def\<close>)
    then show ?thesis using True assms(3) m(1) t(1) LSD_CONNECTED by (simp add: hello_on_high_packet_received_def)
  qed
qed

lemma hello_low_received_good:
  assumes "lsd_good {} Y w" "e < length (bbs w)" "bb_hello (bb w e) = Some h" "hd_r_id head \<noteq> 0"
  shows "\<exists>w'. hello_on_low_packet_received e head body w = Ok w' \<and> lsd_good {} Y w'"
proof (cases "pktype body = 2")
  case False
  then show ?thesis using assms(1) by (simp add: hello_on_low_packet_received_def)
next
  case True
  note inv = good_inv [OF assms(1)]
  note eo = eth_okD [OF inv assms(2)]
  have ho: "he_ok (J w) e (Some h)" using eo(4) assms(3) by simp
  have mas: "bb_exchange (bb w e) \<noteq> None" "bb_flood (bb w e) \<noteq> None" using eo(5) assms(3) by simp_all
  let ?j = "(Dead_timer_low, Bb e)"
  obtain m where m: "timer_off (h_dead_timer_low h) w = Ok (w\<lparr>tm := m\<rparr>)" "tinv (w\<lparr>tm := m\<rparr>)"
    "J (w\<lparr>tm := m\<rparr>) = (J w)(?j := J w ?j - set_option (h_dead_timer_low h))"
    by (rule timer_off_J [OF eo(1), of "h_dead_timer_low h" ?j]) (use ho in \<open>auto simp: he_ok_def\<close>)
  obtain t m2 where t: "add_timer (unat (TMP_VAR * l_dead_val h)) ?j (w\<lparr>tm := m\<rparr>) = (t, w\<lparr>tm := m, tm := m2\<rparr>)" "tinv (w\<lparr>tm := m, tm := m2\<rparr>)"
    "J (w\<lparr>tm := m, tm := m2\<rparr>) = (J (w\<lparr>tm := m\<rparr>))(?j := insert t (J (w\<lparr>tm := m\<rparr>) ?j))"
    by (rule add_timer_J [OF m(2) micros_bound]) (auto simp: intf_funcs_def)
  have J2: "tinv (w\<lparr>tm := m2\<rparr>)" "J (w\<lparr>tm := m2\<rparr>) = (J w)(?j := {t})"
    using t(2,3) m(3) ho by (auto simp: he_ok_def)
  have up: "lsd_good {} Y (set_hello e h' (w\<lparr>tm := m2\<rparr>))"
    if "he_ok ((J w)(?j := {t})) e (Some h')" "high_status h' = high_status h" for h'
  proof -
    have eq: "set_hello e h' (w\<lparr>tm := m2\<rparr>) = w\<lparr>tm := m2, bbs := (bbs w)[e := (bb w e)\<lparr>bb_hello := Some h'\<rparr>], sent := sent w\<rparr>"
      by (simp add: set_hello_def upd_bb_def)
    show ?thesis by (rule hello_upd [OF assms(1,2) mas eq])
        (use that J2 assms(1-3) in \<open>auto simp: eq hello_funcs_def lsd_good_def sync_def\<close>)
  qed
  show ?thesis
  proof (cases "low_status h")
    case LSD_DISCONNETED
    define h' where "h' = h\<lparr>h_dead_timer_low := Some t, low_status := LSD_CONNECTED, h_neighbor := \<lparr>ni_rt_id = hd_r_id head, ni_if_id = hd_if_id head\<rparr>\<rparr>"
    define w2 where "w2 = set_hello e h' (w\<lparr>tm := m2\<rparr>)"
    have g: "lsd_good {} Y w2" unfolding w2_def by (rule up) (use ho assms(4) in \<open>auto simp: he_ok_def h'_def\<close>)
    have "\<exists>w'. hello_changed_low e LSD_CONNECTED w2 = Ok w' \<and> keeps w2 w'"
      by (rule hello_changed_low_keeps [where h = h', OF good_inv [OF g]]) (use assms(2,4) in \<open>auto simp: w2_def set_hello_def upd_bb_def h'_def\<close>)
    then show ?thesis
      using True assms(3) m(1) t(1) LSD_DISCONNETED good_keeps [OF g]
      by (auto simp: hello_on_low_packet_received_def hello_changed_handler_def w2_def h'_def)
  next
    case LSD_CONNECTED
    have "lsd_good {} Y (set_hello e (h\<lparr>h_dead_timer_low := Some t\<rparr>) (w\<lparr>tm := m2\<rparr>))"
      by (rule up) (use ho LSD_CONNECTED in \<open>auto simp: he_ok_def\<close>)
    then show ?thesis using True assms(3) m(1) t(1) LSD_CONNECTED by (simp add: hello_on_low_packet_received_def)
  qed
qed

end
