(* ===== verification/Lsd_Safety.thy ===== *)
theory Lsd_Safety
  imports Lsd_Handlers "HOL-Library.Code_Target_Nat"
begin

text \<open>
  The daemon never fails: from every state it can reach, the next round of its main loop and a new pass
  over the interfaces return, provided received packets are of the form the daemon itself sends.
\<close>

section \<open>Interface events\<close>

text \<open>A callback whose job belongs to no protocol of an interface.\<close>

lemma fired_good:
  assumes "lsd_good {} {} w" "fired w (f, p) w1" "f \<in> intf_funcs \<or> f = Lsd_receive"
  shows "lsd_good {} {e. p = Bb e \<and> f \<in> intf_funcs} w1"
proof -
  obtain t m where w1: "w1 = w\<lparr>tm := m\<rparr>" "J w1 = (J w)((f, p) := J w (f, p) - {t})" using assms(2) by (auto simp: fired_def)
  have "lsd_inv w1" by (rule fired_inv [OF good_inv [OF assms(1)] assms(2)]) (use assms(3) in \<open>auto simp: eth_jobs_def intf_funcs_def\<close>)
  moreover have "sync {} w1" using assms(1) by (simp add: lsd_good_def sync_def w1(1))
  moreover have "intf_pending w1 e" if "intf_pending w e" "\<not> (p = Bb e \<and> f \<in> intf_funcs)" for e
    using that assms(3) by (auto simp: intf_pending_def w1(2) intf_funcs_def)
  then have "masters {e. p = Bb e \<and> f \<in> intf_funcs} w1" using assms(1) by (simp add: lsd_good_def masters_def w1(1))
  moreover have "period_ok w1" using assms(1,3) w1(2) by (auto simp: lsd_good_def period_ok_def intf_funcs_def w1(1))
  ultimately show ?thesis by (simp add: lsd_good_def)
qed

text \<open>Giving an interface new protocol state, with no timer changed.\<close>

lemma bb_upd_good:
  assumes "lsd_good X Y w" "e < length (bbs w)" "eth_ok (J w) e b" "bb_hello b = bb_hello (bb w e)"
    and "bb_az b = bb_az (bb w e)" "bb_interface b = bb_interface (bb w e)" "terminated (bb_exchange b) \<or> bb_exchange b = bb_exchange (bb w e)"
  shows "lsd_good X Y (w\<lparr>bbs := (bbs w)[e := b]\<rparr>)"
proof -
  let ?w = "w\<lparr>bbs := (bbs w)[e := b]\<rparr>"
  have "lsd_inv ?w"
    by (rule lsd_inv_upd [OF good_inv [OF assms(1)] assms(2)]) (use assms eth_okD(1) [OF good_inv [OF assms(1)] assms(2)] in auto)
  moreover have "sync X ?w" using assms by (auto simp: lsd_good_def sync_def nth_list_update)
  moreover have "masters Y ?w" using assms by (auto simp: lsd_good_def masters_def nth_list_update intf_pending_def)
  ultimately show ?thesis using assms(1) by (simp add: lsd_good_def period_ok_def)
qed

lemma good_tm:
  assumes "lsd_good X Y w" "w' = w\<lparr>tm := m, periodctrl := p\<rparr>" "lsd_inv w'" "period_ok w'"
    and "\<And>f p. f \<in> intf_funcs \<Longrightarrow> J w (f, p) \<subseteq> J w' (f, p)"
  shows "lsd_good X Y w'"
proof -
  have "intf_pending w' e" if "intf_pending w e" for e
    using that assms(5) [of Interface_up "Bb e"] assms(5) [of Interface_down "Bb e"] by (auto simp: intf_pending_def intf_funcs_def)
  then show ?thesis using assms(1,3,4) by (simp add: lsd_good_def sync_def masters_def assms(2))
qed

lemma periodically_start_good:
  assumes "lsd_good X Y w"
  shows "\<exists>w'. flood_periodically_flood_start w = Ok w' \<and> lsd_good X Y w' \<and> bbs w' = bbs w"
proof -
  note inv = good_inv [OF assms]
  let ?j = "(Spread_local_link_state, NoArg)"
  have p: "tinv w" "set_option (periodctrl w) \<subseteq> J w ?j" using assms by (auto simp: lsd_good_def lsd_inv_def period_ok_def)
  obtain m where m: "timer_off (periodctrl w) w = Ok (w\<lparr>tm := m\<rparr>)" "tinv (w\<lparr>tm := m\<rparr>)" "J (w\<lparr>tm := m\<rparr>) = (J w)(?j := J w ?j - set_option (periodctrl w))"
    by (rule timer_off_J [OF p])
  have "lsd_inv (w\<lparr>tm := m\<rparr>)" by (rule inv_tm [OF inv m(2)]) (auto simp: m(3) eth_jobs_def split: if_splits)
  then have i1: "lsd_inv (w\<lparr>tm := m, periodctrl := None\<rparr>)" by simp
  obtain t w2 where t: "add_timer FLOOD_PERIOD ?j (w\<lparr>tm := m, periodctrl := None\<rparr>) = (t, w2)" by fastforce
  have "FLOOD_PERIOD < 2 ^ 32" by (simp add: FLOOD_PERIOD_def)
  note a = add_timer_inv [OF i1 this refl t]
  obtain m2 where w2: "w2 = w\<lparr>tm := m, periodctrl := None, tm := m2\<rparr>" using a(2) by blast
  have "lsd_good X Y (w2\<lparr>periodctrl := Some t\<rparr>)"
  proof (rule good_tm [OF assms])
    show "w2\<lparr>periodctrl := Some t\<rparr> = w\<lparr>tm := m2, periodctrl := Some t\<rparr>" by (simp add: w2)
    show "lsd_inv (w2\<lparr>periodctrl := Some t\<rparr>)" using a(1) by simp
    show "period_ok (w2\<lparr>periodctrl := Some t\<rparr>)" using a(3) by (simp add: period_ok_def)
    show "J w (f, p) \<subseteq> J (w2\<lparr>periodctrl := Some t\<rparr>) (f, p)" if "f \<in> intf_funcs" for f p
      using that a(3) m(3) by (auto simp: intf_funcs_def)
  qed
  then show ?thesis using m(1) t by (auto simp: flood_periodically_flood_start_def flood_periodically_flood_terminate_def w2)
qed

lemma good_flood_called [simp]: "lsd_good X Y (w\<lparr>flood_called := c\<rparr>) = lsd_good X Y w"
  by (simp add: lsd_good_def sync_def masters_def period_ok_def intf_pending_def)

lemma flood_on_good:
  assumes "lsd_good {} Y w" "e < length (bbs w)"
  shows "\<exists>w'. flood_on_eth_state_changed e w = Ok w' \<and> lsd_good {} Y w' \<and> length (bbs w') = length (bbs w) \<and> bb_flood (bb w' e) \<noteq> None"
proof -
  note eo = eth_okD [OF good_inv [OF assms(1)] assms(2)]
  define w1 where "w1 = (case bb_flood (bb w e) of
            Some _ \<Rightarrow> w
          | None \<Rightarrow> set_flood e \<lparr>fl_queue = [], fl_sendbuf = (0, OtherPkt 0), fl_pkg_no = 0, fl_state = FLOOD_TERMINATED,
                                fl_ack_ctrl = None, fl_snd_ctrl = None\<rparr> w)"
  have g1: "lsd_good {} Y w1 \<and> length (bbs w1) = length (bbs w) \<and> bb_flood (bb w1 e) \<noteq> None"
  proof (cases "bb_flood (bb w e)")
    case None
    have "lsd_good {} Y (w\<lparr>bbs := (bbs w)[e := (bb w e)\<lparr>bb_flood := Some \<lparr>fl_queue = [], fl_sendbuf = (0, OtherPkt 0), fl_pkg_no = 0,
        fl_state = FLOOD_TERMINATED, fl_ack_ctrl = None, fl_snd_ctrl = None\<rparr>\<rparr>]\<rparr>)"
      by (rule bb_upd_good [OF assms]) (use None eo in \<open>auto simp: eth_ok_def fl_ok_def\<close>)
    then show ?thesis using None assms(2) by (simp add: w1_def set_flood_def upd_bb_def)
  next
    case (Some f)
    then show ?thesis using assms by (simp add: w1_def)
  qed
  have eq: "flood_on_eth_state_changed e w = (if flood_called w1 then Ok w1
         else res_map (\<lambda>w2. w2\<lparr>flood_called := True\<rparr>) (flood_periodically_flood_start w1))"
    by (simp add: flood_on_eth_state_changed_def w1_def)
  obtain w2 where w2: "flood_periodically_flood_start w1 = Ok w2" "lsd_good {} Y w2" "bbs w2 = bbs w1"
    using periodically_start_good [of "{}" Y w1] g1 by blast
  show ?thesis unfolding eq using g1 w2 by (cases "flood_called w1") simp_all
qed

lemma exchange_on_good:
  assumes "lsd_good {} Y w" "e < length (bbs w)"
  shows "lsd_good {} Y (exchange_on_eth_state_changed e w)" "length (bbs (exchange_on_eth_state_changed e w)) = length (bbs w)"
    "bb_exchange (bb (exchange_on_eth_state_changed e w) e) \<noteq> None" "bb_flood (bb (exchange_on_eth_state_changed e w) e) = bb_flood (bb w e)"
proof -
  note eo = eth_okD [OF good_inv [OF assms(1)] assms(2)]
  let ?x = "\<lparr>send_state = EXCHANGE_STATE_SEND_TERMINATED, rcv_state = EXCHANGE_STATE_RCV_WAITING,
                  ex_links_state = [], ex_pkg_no = 0, ex_sendbuf = (0, OtherPkt 0), ex_ack_ctrl = None, ex_rcv_ctrl = None,
                  retry_times = 0\<rparr>"
  have *: "lsd_good {} Y (exchange_on_eth_state_changed e w) \<and> length (bbs (exchange_on_eth_state_changed e w)) = length (bbs w) \<and>
    bb_exchange (bb (exchange_on_eth_state_changed e w) e) \<noteq> None \<and> bb_flood (bb (exchange_on_eth_state_changed e w) e) = bb_flood (bb w e)"
  proof (cases "bb_exchange (bb w e)")
    case None
    have "lsd_good {} Y (w\<lparr>bbs := (bbs w)[e := (bb w e)\<lparr>bb_exchange := Some ?x\<rparr>]\<rparr>)"
      by (rule bb_upd_good [OF assms]) (use None eo in \<open>auto simp: eth_ok_def ex_ok_def\<close>)
    then show ?thesis using None assms(2) by (simp add: exchange_on_eth_state_changed_def set_exchange_def upd_bb_def)
  next
    case (Some x)
    then show ?thesis using assms by (simp add: exchange_on_eth_state_changed_def)
  qed
  then show "lsd_good {} Y (exchange_on_eth_state_changed e w)" "length (bbs (exchange_on_eth_state_changed e w)) = length (bbs w)"
    "bb_exchange (bb (exchange_on_eth_state_changed e w) e) \<noteq> None" "bb_flood (bb (exchange_on_eth_state_changed e w) e) = bb_flood (bb w e)"
    by simp_all
qed

lemma hello_on_good:
  assumes "lsd_good {} {e} w" "e < length (bbs w)" "bb_exchange (bb w e) \<noteq> None" "bb_flood (bb w e) \<noteq> None"
  shows "\<exists>w'. hello_on_eth_state_changed e w = Ok w' \<and> lsd_good {} {} w'"
proof -
  note inv = good_inv [OF assms(1)]
  note eo = eth_okD [OF inv assms(2)]
  define h where "h = (case bb_hello (bb w e) of None \<Rightarrow> new_hello_master | Some h \<Rightarrow> h)"
  have ho: "he_ok (J w) e (Some h)" using eo(4) by (cases "bb_hello (bb w e)") (auto simp: h_def he_ok_def new_hello_master_def)
  have hx: "high_status h = LSD_DISCONNETED \<Longrightarrow> terminated (bb_exchange (bb w e))"
    using assms(1,2) by (cases "bb_hello (bb w e)") (auto simp: h_def lsd_good_def sync_def)
  have up: "lsd_good {} {} (set_hello e h' (set_hello e h w\<lparr>tm := m\<rparr>))"
    if "tinv (w\<lparr>tm := m\<rparr>)" "he_ok (J (w\<lparr>tm := m\<rparr>)) e (Some h')" "high_status h' = high_status h"
      "\<And>f p. f \<notin> hello_funcs \<or> p \<noteq> Bb e \<Longrightarrow> J (w\<lparr>tm := m\<rparr>) (f, p) = J w (f, p)" for m h'
  proof -
    have eq: "set_hello e h' (set_hello e h w\<lparr>tm := m\<rparr>) = w\<lparr>tm := m, bbs := (bbs w)[e := (bb w e)\<lparr>bb_hello := Some h'\<rparr>], sent := sent w\<rparr>"
      using assms(2) by (simp add: set_hello_def upd_bb_def)
    show ?thesis by (rule hello_upd [OF assms(1-4) eq]) (use that hx in \<open>auto simp: eq\<close>)
  qed
  have w0: "J (set_hello e h w) = J w" "tinv (set_hello e h w)" using eo(1) by (simp_all add: set_hello_def upd_bb_def)
  have fr: "J (set_hello e h w\<lparr>tm := m\<rparr>) = J (w\<lparr>tm := m\<rparr>)" "tinv (set_hello e h w\<lparr>tm := m\<rparr>) = tinv (w\<lparr>tm := m\<rparr>)" for m
    by (simp_all add: set_hello_def upd_bb_def J_def tinv_def fun_eq_iff)
  show ?thesis
  proof (cases "bb_state (bb w e)")
    case ETH_DOWN
    obtain m1 where m1: "timer_off (h_hello_timer_high h) (set_hello e h w) = Ok (set_hello e h w\<lparr>tm := m1\<rparr>)" "tinv (set_hello e h w\<lparr>tm := m1\<rparr>)"
      "J (set_hello e h w\<lparr>tm := m1\<rparr>) = (J (set_hello e h w))((Hello_high_send, Bb e) := J (set_hello e h w) (Hello_high_send, Bb e) - set_option (h_hello_timer_high h))"
      by (rule timer_off_J [OF w0(2), of "h_hello_timer_high h" "(Hello_high_send, Bb e)"]) (use ho w0(1) in \<open>auto simp: he_ok_def\<close>)
    obtain m2 where m2: "timer_off (h_hello_timer_low h) (set_hello e h w\<lparr>tm := m1\<rparr>) = Ok (set_hello e h w\<lparr>tm := m1, tm := m2\<rparr>)" "tinv (set_hello e h w\<lparr>tm := m1, tm := m2\<rparr>)"
      "J (set_hello e h w\<lparr>tm := m1, tm := m2\<rparr>) = (J (set_hello e h w\<lparr>tm := m1\<rparr>))((Hello_low_send, Bb e) := J (set_hello e h w\<lparr>tm := m1\<rparr>) (Hello_low_send, Bb e) - set_option (h_hello_timer_low h))"
      by (rule timer_off_J [OF m1(2), of "h_hello_timer_low h" "(Hello_low_send, Bb e)"]) (use ho m1(3) w0(1) in \<open>auto simp: he_ok_def\<close>)
    have J2: "tinv (w\<lparr>tm := m2\<rparr>)" "J (w\<lparr>tm := m2\<rparr>) = (J w)((Hello_high_send, Bb e) := J w (Hello_high_send, Bb e) - set_option (h_hello_timer_high h),
        (Hello_low_send, Bb e) := J w (Hello_low_send, Bb e) - set_option (h_hello_timer_low h))"
      using m1(3) m2(2,3) fr w0(1) by auto
    let ?h = "h\<lparr>h_hello_timer_high := None, h_hello_timer_low := None\<rparr>"
    have "lsd_good {} {} (set_hello e ?h (set_hello e h w\<lparr>tm := m2\<rparr>))"
      by (rule up [OF J2(1)]) (use ho J2(2) in \<open>auto simp: he_ok_def hello_funcs_def\<close>)
    then show ?thesis using ETH_DOWN m1(1) m2(1) by (simp add: hello_on_eth_state_changed_def h_def [symmetric])
  next
    case ETH_UP
    obtain t1 m1 where m1: "add_event (Hello_high_send, Bb e) (set_hello e h w) = (t1, set_hello e h w\<lparr>tm := m1\<rparr>)" "tinv (set_hello e h w\<lparr>tm := m1\<rparr>)"
      "J (set_hello e h w\<lparr>tm := m1\<rparr>) = (J (set_hello e h w))((Hello_high_send, Bb e) := insert t1 (J (set_hello e h w) (Hello_high_send, Bb e)))"
      by (rule add_event_J [OF w0(2)]) (auto simp: event_funcs_def)
    obtain t2 m2 where m2: "add_event (Hello_low_send, Bb e) (set_hello e h w\<lparr>tm := m1\<rparr>) = (t2, set_hello e h w\<lparr>tm := m1, tm := m2\<rparr>)" "tinv (set_hello e h w\<lparr>tm := m1, tm := m2\<rparr>)"
      "J (set_hello e h w\<lparr>tm := m1, tm := m2\<rparr>) = (J (set_hello e h w\<lparr>tm := m1\<rparr>))((Hello_low_send, Bb e) := insert t2 (J (set_hello e h w\<lparr>tm := m1\<rparr>) (Hello_low_send, Bb e)))"
      by (rule add_event_J [OF m1(2)]) (auto simp: event_funcs_def)
    have J2: "tinv (w\<lparr>tm := m2\<rparr>)" "J (w\<lparr>tm := m2\<rparr>) = (J w)((Hello_high_send, Bb e) := insert t1 (J w (Hello_high_send, Bb e)),
        (Hello_low_send, Bb e) := insert t2 (J w (Hello_low_send, Bb e)))"
      using m1(3) m2(2,3) fr w0(1) by auto
    let ?h = "h\<lparr>h_hello_val := H_HELLO_VAL, l_hello_val := L_HELLO_VAL, h_dead_val := H_DEAD_VAL,
                       l_dead_val := L_DEAD_VAL, h_hello_timer_high := Some t1, h_hello_timer_low := Some t2\<rparr>"
    have "lsd_good {} {} (set_hello e ?h (set_hello e h w\<lparr>tm := m2\<rparr>))"
      by (rule up [OF J2(1)]) (use ho J2(2) in \<open>auto simp: he_ok_def hello_funcs_def\<close>)
    then show ?thesis using ETH_UP m1(1) m2(1) by (simp add: hello_on_eth_state_changed_def h_def [symmetric])
  qed
qed

lemma ace_up_zone_keeps:
  assumes "lsd_inv w" "a < length (acs w)" "z < length (zones w)"
  shows "\<exists>w'. ace_up_zone a addr z w = Ok w' \<and> keeps w w'"
proof -
  have i: "ac_interface (acs w ! a) < length (ifs w)" "az_device_id (zones w ! z) \<noteq> 0" using assms by (auto simp: inv_parts)
  obtain c where c: "get_metric_of_access a w = Ok c" using if_data_ok(1) [OF assms(1) i(1)] by (auto simp: get_metric_of_access_def)
  let ?st = "\<lparr>ls_key = \<lparr>rt_id = az_device_id (zones w ! z), if_id = ac_ifid (acs w ! a), n_rt_id = 0, n_if_id = 0\<rparr>,
                 ls_addr = addr, ls_metric = c, ls_state = 0, ls_seq = 0, ls_age = now w\<rparr>"
  show ?thesis
    using record_keeps [OF assms(1,3), of ?st] i(2) c
    by (cases "ls_find z (ls_key ?st) w = None") (auto simp: ace_up_zone_def)
qed

lemma ace_up_handler_keeps:
  assumes "lsd_inv w" "a < length (acs w)"
  shows "\<exists>w'. ace_up_handler a w = Ok w' \<and> keeps w w'"
proof -
  have i: "ac_interface (acs w ! a) < length (ifs w)" using assms by (auto simp: inv_parts)
  obtain r addr where ad: "get_address_of_access a w = Ok (r, addr)" using if_data_ok(2) [OF assms(1) i] by (auto simp: get_address_of_access_def)
  have "\<exists>w'. res_for (ace_up_zone a addr) (azs w) w = Ok w' \<and> keeps w w'"
  proof (rule res_for_keeps [OF assms(1)])
    fix z w1
    assume "z \<in> set (azs w)" "keeps w w1"
    then have "lsd_inv w1" "z < length (zones w1)" "a < length (acs w1)"
      using assms same_net_len by (auto simp: keeps_def inv_parts same_net_def)
    then show "\<exists>w'. ace_up_zone a addr z w1 = Ok w' \<and> keeps w1 w'" using ace_up_zone_keeps by blast
  qed
  then show ?thesis using ad by (simp add: ace_up_handler_def)
qed

lemma interface_changed_good:
  assumes "lsd_good {} {} w" "fired w (f, p) w1" "f \<in> intf_funcs"
  shows "\<exists>w'. interface_changed p w1 = Ok w' \<and> lsd_good {} {} w'"
proof -
  note g = fired_good [OF assms(1,2)]
  have len: "length (bbs w1) = length (bbs w)" "acs w1 = acs w" using assms(2) by (auto simp: fired_def)
  have "job_ok w (f, p)" using assms(1,2) unfolding fired_def lsd_good_def lsd_inv_def jobs_ok_def by blast
  then consider (bb) e where "p = Bb e" "e < length (bbs w)" | (acc) a where "p = Acc a" "a < length (acs w)"
    using assms(3) by (auto simp: job_ok.simps)
  then show ?thesis
  proof cases
    case bb
    have g1: "lsd_good {} {e} w1" "e < length (bbs w1)" using g assms(3) bb len by simp_all
    obtain w2 where w2: "flood_on_eth_state_changed e w1 = Ok w2" "lsd_good {} {e} w2" "length (bbs w2) = length (bbs w1)" "bb_flood (bb w2 e) \<noteq> None"
      using flood_on_good [OF g1] by blast
    define w3 where "w3 = exchange_on_eth_state_changed e w2"
    have l2: "e < length (bbs w2)" using w2(3) g1(2) by simp
    note x = exchange_on_good [OF w2(2) l2, folded w3_def]
    have "\<exists>w'. hello_on_eth_state_changed e w3 = Ok w' \<and> lsd_good {} {} w'"
      by (rule hello_on_good [OF x(1)]) (use x l2 w2(4) in auto)
    then show ?thesis using bb w2(1) by (auto simp: interface_changed_def backbone_queue_def add_event_handler_def w3_def)
  next
    case acc
    have g1: "lsd_good {} {} w1" using g assms(3) acc by simp
    have "\<exists>w'. ace_up_handler a w1 = Ok w' \<and> keeps w1 w'" using acc len by (intro ace_up_handler_keeps [OF good_inv [OF g1]]) simp
    then show ?thesis using acc good_keeps [OF g1] by (auto simp: interface_changed_def access_queue_def add_event_handler_def)
  qed
qed

section \<open>The periodic flood\<close>

lemma spread_local_good:
  assumes "lsd_good {} {} w" "fired w (Spread_local_link_state, p) w1" "hellos_present w"
  shows "\<exists>w'. spread_local_link_state w1 = Ok w' \<and> lsd_good {} {} w'"
proof -
  note inv = good_inv [OF assms(1)]
  obtain t m where w1: "w1 = w\<lparr>tm := m\<rparr>" "J w1 = (J w)((Spread_local_link_state, p) := J w (Spread_local_link_state, p) - {t})"
    using assms(2) by (auto simp: fired_def)
  have i1: "lsd_inv w1" "hellos_present w1"
    using fired_inv [OF inv assms(2)] assms(3) by (auto simp: eth_jobs_def hellos_present_def w1(1))
  obtain w2 where w2: "res_for spread_access (accesses w1) w1 = Ok w2" "keeps w1 w2"
    using res_for_keeps [OF i1(1), of "accesses w1" spread_access] spread_access_keeps by (auto simp: keeps_def)
  have i2: "lsd_inv w2" "hellos_present w2" using w2(2) hellos_present_same i1(2) by (auto simp: keeps_def)
  have "\<exists>w'. res_for (\<lambda>z w. res_for (spread_backbone z) (az_backbones (zones w ! z)) w) (azs w2) w2 = Ok w' \<and> keeps w2 w'"
  proof (rule res_for_keeps [OF i2(1)])
    fix z v
    assume zv: "z \<in> set (azs w2)" "keeps w2 v"
    then have "lsd_inv v" "hellos_present v" "z < length (zones v)"
      using i2 hellos_present_same same_net_len by (auto simp: keeps_def inv_parts)
    then show "\<exists>w'. res_for (spread_backbone z) (az_backbones (zones v ! z)) v = Ok w' \<and> keeps v w'" by (rule spread_zone_keeps)
  qed
  then obtain w3 where w3: "res_for (\<lambda>z w. res_for (spread_backbone z) (az_backbones (zones w ! z)) w) (azs w2) w2 = Ok w3" "keeps w2 w3" by blast
  have k: "keeps w1 w3" using keeps_trans [OF w2(2) w3(2)] .
  obtain t3 w4 where t3: "add_timer FLOOD_PERIOD (Spread_local_link_state, NoArg) w3 = (t3, w4)" by fastforce
  have "FLOOD_PERIOD < 2 ^ 32" by (simp add: FLOOD_PERIOD_def)
  note a = add_timer_inv [OF keepsD(1) [OF k] this refl t3]
  obtain m4 where w4: "w4 = w3\<lparr>tm := m4\<rparr>" using a(2) by blast
  have s1: "sync {} w1" "masters {} w1"
    using assms(1) by (auto simp: lsd_good_def sync_def masters_def w1(1) intf_pending_def) (auto simp: w1(2) [unfolded w1(1)])
  have "sync {} w3" using sync_keeps [OF s1(1) k] .
  moreover have "masters {} w3" using masters_same [OF keepsD(2) [OF k] s1(2)] .
  ultimately have "sync {} w4" "masters {} w4"
    using a(3) by (auto simp: sync_def masters_def intf_pending_def w4)
  then have "lsd_good {} {} (w4\<lparr>periodctrl := Some t3\<rparr>)"
    using a(1,3) by (simp add: lsd_good_def period_ok_def sync_def masters_def intf_pending_def)
  then show ?thesis using w2(1) w3(1) t3 by (simp add: spread_local_link_state_def)
qed

section \<open>Receiving\<close>

lemma get_backbone_ok:
  assumes "lsd_inv w" "get_autonomous_zone_by_id area w = Some z" "get_backbone_by_neighbor_id z i w = Some e"
  shows "e < length (bbs w)"
proof -
  have "z \<in> set (azs w)" using assms(2) by (auto simp: get_autonomous_zone_by_id_def find_Some_iff)
  then have "z < length (zones w)" using assms(1) by (auto simp: inv_parts)
  moreover have "e \<in> set (az_backbones (zones w ! z))" using assms(3) by (auto simp: get_backbone_by_neighbor_id_def find_Some_iff)
  ultimately show ?thesis using zone_backbones [OF assms(1)] by blast
qed

lemma add_read_good:
  assumes "lsd_good {} {} w"
  shows "lsd_good {} {} (w\<lparr>tm := snd (thread_add_read Lsd_receive NoArg fd (tm w))\<rparr>)"
proof -
  obtain r m where m: "thread_add_read Lsd_receive NoArg fd (tm w) = (r, m)" by fastforce
  have tv: "tinv w" using good_inv [OF assms] by (simp add: lsd_inv_def)
  have s: "wf_master m" "m_event m = m_event (tm w)"
    "pending m = pending (tm w) \<or> (\<exists>t. pending (tm w) t = None \<and> pending m = (pending (tm w))(t \<mapsto> (Lsd_receive, NoArg)))"
    using thread_add_read_spec [OF _ m] tv by (auto simp: tinv_def split: if_splits)
  have "events_ok m" using s(2,3) tv
    by (elim disjE exE conjE) (fastforce simp: events_ok_def tinv_def intf_funcs_def split: if_splits)+
  then have tv': "tinv (w\<lparr>tm := m\<rparr>)" using tv s(1) by (simp add: tinv_def)
  have J: "J (w\<lparr>tm := m\<rparr>) j = J w j" if "j \<noteq> (Lsd_receive, NoArg)" for j using s(3) that by (auto simp: J_def split: if_splits)
  have "lsd_inv (w\<lparr>tm := m\<rparr>)"
  proof (rule inv_tm [OF good_inv [OF assms] tv'])
    show "J (w\<lparr>tm := m\<rparr>) j = J w j" if "j \<in> eth_jobs e" for e j using that by (intro J) (auto simp: eth_jobs_def)
    show "J w j \<noteq> {} \<or> job_ok w j" if "J (w\<lparr>tm := m\<rparr>) j \<noteq> {}" for j
      using that J [of j] by (cases "j = (Lsd_receive, NoArg)") (auto simp: job_ok.simps intf_funcs_def)
  qed
  moreover have "period_ok (w\<lparr>tm := m\<rparr>)" using assms J [of "(Spread_local_link_state, NoArg)"] by (simp add: lsd_good_def period_ok_def)
  ultimately have "lsd_good {} {} (w\<lparr>tm := m\<rparr>)"
    by (intro good_tm [OF assms, where m = m and p = "periodctrl w"]) (use J in \<open>auto simp: intf_funcs_def\<close>)
  then show ?thesis by (simp add: m)
qed

lemma handlers_good:
  assumes "lsd_good {} {} w" "e < length (bbs w)" "bb_hello (bb w e) \<noteq> None" "packet_ok head body"
  shows "\<exists>w'. res_for (\<lambda>h. h e head body) pkt_rcv_queue w = Ok w' \<and> lsd_good {} {} w'"
proof -
  note inv = good_inv [OF assms(1)]
  obtain h where h: "bb_hello (bb w e) = Some h" using assms(3) by blast
  have p: "hd_r_id head \<noteq> 0" "body_ok body" using assms(4) by (auto simp: packet_ok_def)
  have mas: "bb_exchange (bb w e) \<noteq> None" "bb_flood (bb w e) \<noteq> None" using eth_okD(5) [OF inv assms(2) assms(3)] by simp_all
  obtain w1 where w1: "flood_pkt_received e body w = Ok w1" "keeps w w1" using flood_pkt_received_keeps [OF inv assms(2) p(2) mas(2)] by blast
  have g1: "lsd_good {} {} w1" using good_keeps [OF assms(1) w1(2)] .
  note n1 = keepsD(2) [OF w1(2)]
  have b1: "e < length (bbs w1)" "bb_exchange (bb w1 e) \<noteq> None" "bb_hello (bb w1 e) = Some h"
    using same_net_len(1) [OF n1] same_net_bb [OF n1 assms(2)] assms(2) mas(1) h by auto
  obtain w2 where w2: "exchange_pkt_received e body w1 = Ok w2" "lsd_good {} {} w2" "same_net w1 w2"
    using exchange_pkt_received_good [OF g1 b1(1,2) p(2)] by blast
  have b2: "e < length (bbs w2)" "bb_hello (bb w2 e) = Some h" using same_net_len(1) [OF w2(3)] same_net_bb [OF w2(3) b1(1)] b1 by auto
  have "\<exists>w'. res_bind (hello_on_low_packet_received e head body w2) (hello_on_high_packet_received e head body) = Ok w' \<and> lsd_good {} {} w'"
  proof (cases "pktype body = 1")
    case True
    then have "hello_on_low_packet_received e head body w2 = Ok w2" by (simp add: hello_on_low_packet_received_def)
    then show ?thesis using hello_high_received_good [OF w2(2) b2 p(1)] by simp
  next
    case False
    then have "hello_on_high_packet_received e head body v = Ok v" for v by (simp add: hello_on_high_packet_received_def)
    then show ?thesis using hello_low_received_good [OF w2(2) b2 p(1), of body] by auto
  qed
  moreover have "res_for (\<lambda>h. h e head body) [hello_on_high_packet_received] v = hello_on_high_packet_received e head body v" for v
    by (cases "hello_on_high_packet_received e head body v") simp_all
  then have "res_for (\<lambda>h. h e head body) [hello_on_high_packet_received] = hello_on_high_packet_received e head body" by blast
  ultimately show ?thesis using w1(1) w2(1) by (simp add: pkt_rcv_queue_def add_event_handler_def)
qed

lemma lsd_receive_good:
  assumes "lsd_good {} {} w" "fired w (Lsd_receive, p) w1" "hellos_present w" "packet_ok head body"
  shows "\<exists>r w'. lsd_receive fd head body w1 = Ok (r, w') \<and> lsd_good {} {} w'"
proof -
  define w2 where "w2 = w1\<lparr>tm := snd (thread_add_read Lsd_receive NoArg fd (tm w1))\<rparr>"
  have g: "lsd_good {} {} w2" unfolding w2_def using fired_good [OF assms(1,2)] by (intro add_read_good) (simp add: intf_funcs_def)
  have bbs: "bbs w2 = bbs w" using assms(2) by (auto simp: fired_def w2_def)
  have "\<exists>w'. res_for (\<lambda>h. h e head body) pkt_rcv_queue w2 = Ok w' \<and> lsd_good {} {} w'"
    if "get_autonomous_zone_by_id a w2 = Some z" "get_backbone_by_neighbor_id z i w2 = Some e" for a z i e
    using get_backbone_ok [OF good_inv [OF g] that] assms(3) bbs by (intro handlers_good [OF g _ _ assms(4)]) (auto simp: hellos_present_def)
  note run = this
  have "(\<exists>r. lsd_receive fd head body w1 = Ok (r, w2)) \<or>
    (\<exists>a z i e. get_autonomous_zone_by_id a w2 = Some z \<and> get_backbone_by_neighbor_id z i w2 = Some e \<and>
       lsd_receive fd head body w1 = res_map (\<lambda>w'. (0, w')) (res_for (\<lambda>h. h e head body) pkt_rcv_queue w2))"
    unfolding lsd_receive_def w2_def [symmetric] Let_def by (force split: option.split)
  then show ?thesis
  proof (elim disjE exE conjE)
    fix r
    assume "lsd_receive fd head body w1 = Ok (r, w2)"
    then show ?thesis using g by blast
  next
    fix a z i e
    assume z: "get_autonomous_zone_by_id a w2 = Some z" "get_backbone_by_neighbor_id z i w2 = Some e"
      and r: "lsd_receive fd head body w1 = res_map (\<lambda>w'. (0, w')) (res_for (\<lambda>h. h e head body) pkt_rcv_queue w2)"
    from run [OF z] obtain w' where "res_for (\<lambda>h. h e head body) pkt_rcv_queue w2 = Ok w'" "lsd_good {} {} w'" by blast
    then show ?thesis unfolding r by simp
  qed
qed

section \<open>The interfaces of the router\<close>

lemma no_jobs_new: "lsd_inv w \<Longrightarrow> length (bbs w) \<le> e \<Longrightarrow> f \<noteq> Spread_local_link_state \<Longrightarrow> J w (f, Bb e) = {}"
proof (rule ccontr)
  assume "lsd_inv w" "length (bbs w) \<le> e" "f \<noteq> Spread_local_link_state" "J w (f, Bb e) \<noteq> {}"
  moreover from this have "job_ok w (f, Bb e)" unfolding lsd_inv_def jobs_ok_def by blast
  ultimately show False by (auto simp: job_ok.simps split: if_splits)
qed

text \<open>New or renamed interfaces and areas, with the protocol state of the others unchanged.\<close>

lemma grow_good:
  assumes "lsd_good {} Y w" "w' = w\<lparr>zones := Z, azs := A, bbs := B, acs := C, accesses := D, ifs := I\<rparr>" "zones_ok w'" "ifs_ok w'"
    and "length (bbs w) \<le> length B" "length (acs w) \<le> length C" "\<forall>e < length B. bb_az (B ! e) < length Z \<and> bb_interface (B ! e) < length I"
    and "\<forall>e < length (bbs w). bb_hello (B ! e) = bb_hello (bb w e) \<and> bb_exchange (B ! e) = bb_exchange (bb w e) \<and> bb_flood (B ! e) = bb_flood (bb w e)"
    and "\<forall>e < length B. length (bbs w) \<le> e \<longrightarrow> bb_hello (B ! e) = None \<and> bb_exchange (B ! e) = None \<and> bb_flood (B ! e) = None"
  shows "lsd_good {} (Y \<union> {length (bbs w)..<length B}) w'"
proof -
  note inv = good_inv [OF assms(1)]
  have J: "J w' = J w" "tinv w' = tinv w" by (simp_all add: assms(2))
  have "eth_ok (J w) e (B ! e)" if "e < length B" for e
  proof (cases "e < length (bbs w)")
    case True
    then show ?thesis using inv assms(8) by (simp add: inv_parts eth_ok_def)
  next
    case False
    then show ?thesis using that assms(9) no_jobs_new [OF inv] by (simp add: eth_ok_def ex_ok_def fl_ok_def he_ok_def)
  qed
  then have "eths_ok w'" using assms(7) J by (simp add: eths_ok_def) (simp add: assms(2))
  moreover have "job_ok w' j" if "J w j \<noteq> {}" for j
  proof -
    have "job_ok w j" using inv that unfolding lsd_inv_def jobs_ok_def by blast
    then show ?thesis by (rule job_ok_mono) (use assms(5,6) in \<open>simp_all add: assms(2)\<close>)
  qed
  then have "jobs_ok w'" unfolding jobs_ok_def J by blast
  moreover have "sent_ok w'" using inv by (simp add: lsd_inv_def sent_ok_def assms(2))
  ultimately have "lsd_inv w'" using assms(3,4) inv J by (simp add: lsd_inv_def)
  moreover have "terminated (bb_exchange (B ! e))" if "e < length B" "idle (bb_hello (B ! e))" for e
    using assms(1,8,9) that by (cases "e < length (bbs w)") (auto simp: lsd_good_def sync_def)
  then have "sync {} w'" by (simp add: sync_def assms(2))
  moreover have "masters (Y \<union> {length (bbs w)..<length B}) w'"
    using assms(1,8) by (simp add: lsd_good_def masters_def intf_pending_def J) (simp add: assms(2))
  ultimately show ?thesis using assms(1) J by (simp add: lsd_good_def period_ok_def) (simp add: assms(2))
qed

lemma eth_state_update_good:
  assumes "lsd_good {} Y w" "(\<exists>e < length (bbs w). p = Bb e) \<or> (\<exists>a < length (acs w). p = Acc a)"
  shows "lsd_good {} (Y - {e. p = Bb e}) (eth_state_update st p w)"
    "\<exists>m. eth_state_update st p w = w\<lparr>tm := m\<rparr>"
proof -
  note inv = good_inv [OF assms(1)]
  define f where "f = (if st = ETH_UP then Interface_up else Interface_down)"
  have tv: "tinv w" "f \<in> event_funcs" using inv by (auto simp: lsd_inv_def f_def event_funcs_def)
  obtain t m where t: "add_event (f, p) w = (t, w\<lparr>tm := m\<rparr>)" "tinv (w\<lparr>tm := m\<rparr>)" "J (w\<lparr>tm := m\<rparr>) = (J w)((f, p) := insert t (J w (f, p)))"
    by (rule add_event_J [OF tv(1), of "(f, p)"]) (use tv(2) in auto)
  have jf: "job_ok w (f, p)" using assms(2) by (auto simp: job_ok.simps f_def intf_funcs_def)
  have "lsd_inv (w\<lparr>tm := m\<rparr>)"
    by (rule inv_tm [OF inv t(2)]) (use jf in \<open>auto simp: t(3) eth_jobs_def f_def split: if_splits\<close>)
  moreover have "sync {} (w\<lparr>tm := m\<rparr>)" using assms(1) by (simp add: lsd_good_def sync_def)
  moreover have "masters (Y - {e. p = Bb e}) (w\<lparr>tm := m\<rparr>)"
    using assms(1) by (auto simp: lsd_good_def masters_def intf_pending_def t(3) f_def)
  moreover have "period_ok (w\<lparr>tm := m\<rparr>)" using assms(1) by (auto simp: lsd_good_def period_ok_def t(3) f_def)
  ultimately show "lsd_good {} (Y - {e. p = Bb e}) (eth_state_update st p w)" "\<exists>m. eth_state_update st p w = w\<lparr>tm := m\<rparr>"
    using t(1) by (auto simp: eth_state_update_def f_def lsd_good_def)
qed

lemma init_access_good:
  assumes "lsd_good {} {} w" "i < length (ifs w)" "ri_type (ifs w ! i) = ACCESS"
  shows "lsd_good {} {} (init_access i w)" "length (ifs (init_access i w)) = length (ifs w)"
proof -
  note inv = good_inv [OF assms(1)]
  define face where "face = ifs w ! i"
  define a where "a = (case ri_vinterface face of Some a \<Rightarrow> a | None \<Rightarrow> length (acs w))"
  define C where "C = (if ri_vinterface face = None then acs w @ [\<lparr>ac_ifid = 0, ac_state = ETH_DOWN, ac_interface = i\<rparr>] else acs w)"
  define D where "D = (if ri_vinterface face = None then a # accesses w else accesses w)"
  define w2 where "w2 = w\<lparr>zones := zones w, azs := azs w, bbs := bbs w, acs := C[a := \<lparr>ac_ifid = ri_ctl_id face, ac_state = ri_op_state face, ac_interface = i\<rparr>],
      accesses := D, ifs := (ifs w)[i := face\<lparr>ri_vinterface := Some a\<rparr>]\<rparr>"
  have vf: "\<forall>k < length (ifs w). vif_ok (length (bbs w)) (length (acs w)) (ifs w ! k)" "\<forall>k < length (acs w). ac_interface (acs w ! k) < length (ifs w)"
    "set (accesses w) \<subseteq> {..<length (acs w)}" using inv by (auto simp: lsd_inv_def ifs_ok_def)
  have v: "vif_ok (length (bbs w)) (length (acs w)) face" using vf(1) assms(2) by (simp add: face_def)
  have a: "a < length C" "length (acs w) \<le> length C" using v assms(3) by (auto simp: a_def C_def vif_ok_def face_def split: option.splits)
  have mono: "vif_ok (length (bbs w)) (length C) r" if "vif_ok (length (bbs w)) (length (acs w)) r" for r
    using that a(2) by (auto simp: vif_ok_def)
  have "vif_ok (length (bbs w)) (length C) (face\<lparr>ri_vinterface := Some a\<rparr>)"
    using v a(1) assms(3) by (auto simp: vif_ok_def face_def)
  then have "ifs_ok w2"
    using vf mono a assms(2) by (auto simp: ifs_ok_def w2_def C_def D_def nth_list_update nth_append less_Suc_eq a_def)
  moreover have "zones_ok w2" using inv by (simp add: lsd_inv_def zones_ok_def w2_def)
  ultimately have "lsd_good {} ({} \<union> {length (bbs w)..<length (bbs w)}) w2"
    by (intro grow_good [OF assms(1) w2_def]) (use inv a in \<open>auto simp: lsd_inv_def eths_ok_def\<close>)
  then have g: "lsd_good {} {} w2" by simp
  have "init_access i w = eth_state_update (ri_op_state face) (Acc a) w2"
    by (cases "ri_vinterface face")
      (auto simp: init_access_def face_def [symmetric] Let_def w2_def a_def C_def D_def access_eth_add_def intro!: arg_cong [where f = "eth_state_update _ _"])
  moreover have "a < length (acs w2)" using a by (simp add: w2_def)
  ultimately show "lsd_good {} {} (init_access i w)" "length (ifs (init_access i w)) = length (ifs w)"
    using eth_state_update_good [OF g, of "Acc a" "ri_op_state face"] by (auto simp: w2_def)
qed

lemma find_zone_lt: "lsd_inv w \<Longrightarrow> find_autonomous_zone area w = Some z \<Longrightarrow> z < length (zones w)"
  by (auto simp: find_autonomous_zone_def find_Some_iff inv_parts subset_iff)

lemma init_backbone_good:
  assumes "lsd_good {} {} w" "i < length (ifs w)" "ri_type (ifs w ! i) = BACKBONE"
  shows "\<exists>w'. init_backbone i w = Ok w' \<and> lsd_good {} {} w' \<and> length (ifs w') = length (ifs w)"
proof -
  note inv = good_inv [OF assms(1)]
  define face where "face = ifs w ! i"
  have vf: "\<forall>k < length (ifs w). vif_ok (length (bbs w)) (length (acs w)) (ifs w ! k)" "\<forall>k < length (acs w). ac_interface (acs w ! k) < length (ifs w)"
    "set (accesses w) \<subseteq> {..<length (acs w)}" using inv by (auto simp: lsd_inv_def ifs_ok_def)
  have v: "vif_ok (length (bbs w)) (length (acs w)) face" using vf(1) assms(2) by (simp add: face_def)
  obtain p where p: "ri_proto face = Some p" using v by (auto simp: vif_ok_def)
  define area where "area = (if proto_type p = ROUTER_BGP then 0 else if proto_type p = ROUTER_OSPF then pi_areaid p else 0)"
  define e where "e = (case ri_vinterface face of Some e \<Rightarrow> e | None \<Rightarrow> length (bbs w))"
  define B0 where "B0 = (if ri_vinterface face = None then bbs (snd (new_backbone i w)) else bbs w)"
  define B1 where "B1 = B0[e := (B0 ! e)\<lparr>bb_interface := i, bb_ifid := ri_ctl_id face, bb_state := ri_op_state face,
                               bb_neighbor := copy_neighbor (ri_neighbor face) (bb_neighbor (B0 ! e))\<rparr>]"
  define w2 where "w2 = w\<lparr>bbs := B1\<rparr>"
  define z where "z = (case find_autonomous_zone area w of Some z \<Rightarrow> z | None \<Rightarrow> length (zones w))"
  define w3 where "w3 = (case find_autonomous_zone area w of Some z \<Rightarrow> w2 | None \<Rightarrow> snd (new_zone area w2))"
  define B where "B = (if ri_vinterface face = None then B1[e := (B1 ! e)\<lparr>bb_az := z\<rparr>] else B1)"
  define Z where "Z = (if ri_vinterface face = None then (zones w3)[z := (zones w3 ! z)\<lparr>az_backbones := e # az_backbones (zones w3 ! z)\<rparr>] else zones w3)"
  define w5 where "w5 = w\<lparr>zones := Z, azs := azs w3, bbs := B, acs := acs w, accesses := accesses w, ifs := (ifs w)[i := face\<lparr>ri_vinterface := Some e\<rparr>]\<rparr>"
  have fz: "find_autonomous_zone area w2 = find_autonomous_zone area w" by (simp add: find_autonomous_zone_def w2_def)
  have eq: "init_backbone i w = Ok (eth_state_update (bb_state (bb w5 e)) (Bb e) w5)"
    unfolding init_backbone_def face_def [symmetric]
    by (cases "ri_vinterface face"; cases "find_autonomous_zone area w")
      (use p fz in \<open>auto intro!: arg_cong2 [where f = "\<lambda>s. eth_state_update s _"] simp: Let_def area_def [symmetric] upd_bb_def new_zone_def new_backbone_def autonomous_zone_add_def backbone_eth_add_def
        w5_def w2_def w3_def e_def z_def B_def B1_def B0_def Z_def face_def find_autonomous_zone_def\<close>)
  have len: "e < length B" "length (bbs w) \<le> length B" "length B = length B0" "ri_vinterface face \<noteq> None \<Longrightarrow> length B = length (bbs w)"
    "ri_vinterface face = None \<Longrightarrow> length B = Suc (length (bbs w)) \<and> e = length (bbs w)"
    using v assms(3) by (auto simp: B_def B1_def B0_def e_def new_backbone_def vif_ok_def face_def)
  have old: "bb_hello (B ! k) = bb_hello (bb w k) \<and> bb_exchange (B ! k) = bb_exchange (bb w k) \<and> bb_flood (B ! k) = bb_flood (bb w k) \<and>
      bb_az (B ! k) = bb_az (bb w k) \<and> (bb_interface (B ! k) = bb_interface (bb w k) \<or> bb_interface (B ! k) = i)" if "k < length (bbs w)" for k
    using that len by (cases "k = e") (auto simp: B_def B1_def B0_def new_backbone_def nth_append)
  have new: "bb_hello (B ! e) = None \<and> bb_exchange (B ! e) = None \<and> bb_flood (B ! e) = None \<and> bb_az (B ! e) = z \<and> bb_interface (B ! e) = i"
    if "ri_vinterface face = None" using that len by (auto simp: B_def B1_def B0_def new_backbone_def)
  have w3: "z < length (zones w) \<and> zones w3 = zones w \<and> azs w3 = azs w \<or> z = length (zones w) \<and> azs w3 = z # azs w \<and>
      (\<exists>az. zones w3 = zones w @ [az] \<and> az_device_id az = lr_agentid w \<and> az_lsdb az = cr_lsdb_init \<and> az_backbones az = [])"
    using find_zone_lt [OF inv] by (auto simp: w3_def z_def w2_def new_zone_def autonomous_zone_add_def Let_def split: option.splits)
  have zs: "z < length Z" "length (zones w) \<le> length Z" "set (azs w3) \<subseteq> {..<length Z}"
    using w3 inv by (auto simp: Z_def lsd_inv_def zones_ok_def)
  have zk: "wf_lsdb (az_lsdb (Z ! k)) \<and> az_device_id (Z ! k) \<noteq> 0 \<and> set (az_backbones (Z ! k)) \<subseteq> {..<length B}" if "k < length Z" for k
    using that w3 inv len(1,2) wf_lsdb_init(1)
    by (fastforce simp: Z_def lsd_inv_def zones_ok_def nth_list_update nth_append less_Suc_eq split: if_splits)
  have vB: "vif_ok (length B) (length (acs w)) r" if "vif_ok (length (bbs w)) (length (acs w)) r" for r
    using that len(2) by (auto simp: vif_ok_def)
  have "vif_ok (length B) (length (acs w)) (face\<lparr>ri_vinterface := Some e\<rparr>)" using v len(1) assms(3) by (auto simp: vif_ok_def face_def)
  then have "ifs_ok w5" using vf vB assms(2) by (auto simp: ifs_ok_def w5_def nth_list_update)
  moreover have "zones_ok w5" using zs zk inv by (simp add: lsd_inv_def zones_ok_def w5_def)
  moreover have "bb_az (B ! k) < length Z \<and> bb_interface (B ! k) < length (ifs w)" if "k < length B" for k
  proof (cases "k < length (bbs w)")
    case True
    then have "bb_az (bb w k) < length (zones w)" "bb_interface (bb w k) < length (ifs w)" using inv by (auto simp: inv_parts)
    then show ?thesis using old [OF True] zs(2) assms(2) by auto
  next
    case False
    then have "ri_vinterface face = None" "k = e" using that len(4,5) by (cases "ri_vinterface face"; simp)+
    then show ?thesis using new zs(1) assms(2) by simp
  qed
  moreover have "bb_hello (B ! k) = None \<and> bb_exchange (B ! k) = None \<and> bb_flood (B ! k) = None" if "k < length B" "length (bbs w) \<le> k" for k
  proof -
    have "ri_vinterface face = None" "k = e" using that len(4,5) by (cases "ri_vinterface face"; simp)+
    then show ?thesis using new by simp
  qed
  ultimately have "lsd_good {} ({} \<union> {length (bbs w)..<length B}) w5"
    by (intro grow_good [OF assms(1) w5_def]) (use old len(2) in auto)
  then have g5: "lsd_good {} {length (bbs w)..<length B} w5" by simp
  have d: "{length (bbs w)..<length B} - {k. Bb e = Bb k} = {}" using len(4,5) by (cases "ri_vinterface face") auto
  have "e < length (bbs w5)" using len(1) by (simp add: w5_def)
  then show ?thesis
    using eth_state_update_good [OF g5, of "Bb e" "bb_state (bb w5 e)", unfolded d] eq by (auto simp: w5_def)
qed

lemma lsd_iflist_init_good:
  assumes "lsd_good {} {} w"
  shows "\<exists>r w'. lsd_iflist_init w = Ok (r, w') \<and> lsd_good {} {} w'"
proof -
  have "\<exists>w'. res_for init_interface is w1 = Ok w' \<and> lsd_good {} {} w'"
    if "lsd_good {} {} w1" "set is \<subseteq> {..<length (ifs w1)}" for "is" w1
    using that
  proof (induction "is" arbitrary: w1)
    case Nil
    then show ?case by simp
  next
    case (Cons i "is")
    have "\<exists>w2. init_interface i w1 = Ok w2 \<and> lsd_good {} {} w2 \<and> length (ifs w2) = length (ifs w1)"
      using Cons.prems init_access_good [of w1 i] init_backbone_good [of w1 i]
      by (cases "ri_type (ifs w1 ! i)") (auto simp: init_interface_def)
    then show ?case using Cons by auto
  qed
  from this [OF assms, of "[0..<length (ifs w)]"] show ?thesis using assms by (auto simp: lsd_iflist_init_def lessThan_atLeast0)
qed

section \<open>Rounds of the main loop\<close>

lemma good_now: "lsd_good X Y w \<Longrightarrow> time_ok t \<Longrightarrow> lsd_good X Y (w\<lparr>now := t\<rparr>)"
proof -
  assume g: "lsd_good X Y w" and t: "time_ok t"
  have J: "J (w\<lparr>now := t\<rparr>) = J w" by (simp add: J_def fun_eq_iff)
  have j: "job_ok (w\<lparr>now := t\<rparr>) = job_ok w" by (rule ext, rule job_ok_frame) simp_all
  have "tinv (w\<lparr>now := t\<rparr>)" using good_inv [OF g] t by (simp add: lsd_inv_def tinv_def)
  then show ?thesis
    using g by (simp add: lsd_good_def lsd_inv_def zones_ok_def ifs_ok_def sent_ok_def eths_ok_def jobs_ok_def J j sync_def masters_def intf_pending_def period_ok_def)
qed

lemma fetch_fired:
  assumes "lsd_good {} {} w" "time_ok t" "thread_fetch env (tm w) = Ok (Some x, m)"
  shows "fired (w\<lparr>now := t\<rparr>) (th_func x, th_arg x) (w\<lparr>tm := m, now := t\<rparr>)" "th_func x \<notin> event_funcs \<Longrightarrow> hellos_present w"
proof -
  have tv: "tinv w" using good_inv [OF assms(1)] by (simp add: lsd_inv_def)
  then have wf: "wf_master (tm w)" and ev: "events_ok (tm w)" by (auto simp: tinv_def)
  obtain s where s: "wf_master m" "pending (tm w) s = Some (th_func x, th_arg x)" "pending m = (pending (tm w))(s := None)"
    "if m_event (tm w) = [] then m_event m = [] else s = hd (m_event (tm w)) \<and> m_event m = tl (m_event (tm w))"
    using thread_fetch_post [OF wf, of env] by (auto simp: fetch_post_def assms(3))
  have d: "distinct (m_event (tm w))" using wf_list_distinct [OF wf, of THREAD_EVENT] by simp
  have "events_ok m"
  proof (cases "m_event (tm w)")
    case Nil
    then show ?thesis using ev s(3,4) by (auto simp: events_ok_def)
  next
    case (Cons a as)
    then show ?thesis using ev s(3,4) d by (auto simp: events_ok_def)
  qed
  then have "tinv (w\<lparr>tm := m, now := t\<rparr>)" using s(1) assms(2) by (simp add: tinv_def)
  moreover have "J (w\<lparr>tm := m, now := t\<rparr>) = (J (w\<lparr>now := t\<rparr>))((th_func x, th_arg x) := J (w\<lparr>now := t\<rparr>) (th_func x, th_arg x) - {s})"
    using s(2,3) by (auto simp: J_def fun_eq_iff)
  moreover have "s \<in> J (w\<lparr>now := t\<rparr>) (th_func x, th_arg x)" using s(2) by (simp add: J_def)
  ultimately show "fired (w\<lparr>now := t\<rparr>) (th_func x, th_arg x) (w\<lparr>tm := m, now := t\<rparr>)"
    unfolding fired_def by (intro exI [of _ s] exI [of _ m]) simp
  show "hellos_present w" if nf: "th_func x \<notin> event_funcs"
  proof -
    have "m_event (tm w) = []"
    proof (rule ccontr)
      assume n: "m_event (tm w) \<noteq> []"
      then have "s \<in> set (m_event (tm w))" using s(4) by simp
      then show False using ev s(2) nf by (auto simp: events_ok_def)
    qed
    then have "\<not> intf_pending w e" for e using ev by (auto simp: events_ok_def intf_pending_def J_def intf_funcs_def)
    then show ?thesis using assms(1) by (auto simp: lsd_good_def masters_def hellos_present_def)
  qed
qed

lemma job_arg:
  assumes "lsd_inv w" "fired w (f, p) w1" "f \<notin> intf_funcs" "f \<noteq> Spread_local_link_state" "f \<noteq> Lsd_receive"
  obtains e where "p = Bb e"
proof -
  have "job_ok w (f, p)" using assms(1,2) unfolding fired_def lsd_inv_def jobs_ok_def by blast
  then show thesis using assms(3-5) that by (auto simp: job_ok.simps)
qed

lemma thread_call_good:
  assumes "lsd_good {} {} w" "fired w (th_func x, th_arg x) w1" "th_func x \<notin> event_funcs \<Longrightarrow> hellos_present w" "packet_ok (fst pkt) (snd pkt)"
  shows "\<exists>w'. thread_call x pkt w1 = Ok w' \<and> lsd_good {} {} w'"
proof -
  note inv = good_inv [OF assms(1)]
  have bb: "\<exists>e. th_arg x = Bb e" if "th_func x \<notin> intf_funcs" "th_func x \<noteq> Spread_local_link_state" "th_func x \<noteq> Lsd_receive"
    by (rule job_arg [OF inv assms(2) that]) blast
  note defs = thread_call_def bb_arg_def intf_funcs_def event_funcs_def
  show ?thesis
  proof (cases "th_func x")
    case Interface_up
    then show ?thesis using interface_changed_good [OF assms(1,2)] by (simp add: defs interface_up_def)
  next
    case Interface_down
    then show ?thesis using interface_changed_good [OF assms(1,2)] by (simp add: defs interface_down_def)
  next
    case Hello_high_send
    then show ?thesis using bb assms(2) hello_high_send_good [OF assms(1)] by (auto simp: defs)
  next
    case Hello_low_send
    then show ?thesis using bb assms(2) hello_low_send_good [OF assms(1)] by (auto simp: defs)
  next
    case Dead_timer_high
    then show ?thesis using bb assms(2) dead_timer_high_good [OF assms(1)] by (auto simp: defs)
  next
    case Dead_timer_low
    then show ?thesis using bb assms(2) dead_timer_low_good [OF assms(1)] by (auto simp: defs)
  next
    case Ack_time_excceed
    then obtain e where e: "th_arg x = Bb e" "fired w (Ack_time_excceed, Bb e) w1" using bb assms(2) by (auto simp: intf_funcs_def)
    obtain w' where w': "ack_time_excceed e w1 = Ok w'" "keeps_but e w w'"
      "map_option send_state (bb_exchange (bb w' e)) = map_option send_state (bb_exchange (bb w e))"
      using ack_time_excceed_keeps [OF inv e(2)] by blast
    then show ?thesis using keeps_but_ex_state [OF assms(1) w'(2) fired_eth(1) [OF inv e(2)] w'(3)] e(1) Ack_time_excceed by (simp add: defs)
  next
    case Flood_ack_timeout
    then obtain e where e: "th_arg x = Bb e" "fired w (Flood_ack_timeout, Bb e) w1" using bb assms(2) by (auto simp: intf_funcs_def)
    then show ?thesis using flood_ack_timeout_keeps [OF inv e(2)] good_keeps [OF assms(1)] Flood_ack_timeout by (auto simp: defs)
  next
    case Flood_send_lsa
    then obtain e where e: "th_arg x = Bb e" "fired w (Flood_send_lsa, Bb e) w1" using bb assms(2) by (auto simp: intf_funcs_def)
    then show ?thesis using flood_send_lsa_keeps [OF inv e(2)] good_keeps [OF assms(1)] Flood_send_lsa by (auto simp: defs)
  next
    case Spread_local_link_state
    then show ?thesis using spread_local_good [OF assms(1)] assms(2,3) by (auto simp: defs)
  next
    case Lsd_receive
    then obtain r w' where "lsd_receive (th_fd x) (fst pkt) (snd pkt) w1 = Ok (r, w')" "lsd_good {} {} w'"
      using lsd_receive_good [OF assms(1), of "th_arg x" w1 "fst pkt" "snd pkt" "th_fd x"] assms(2-4) by (auto simp: defs)
    then show ?thesis using Lsd_receive by (simp add: defs)
  qed
qed

lemma lsd_round_good:
  assumes "lsd_good {} {} w" "time_ok t" "packet_ok (fst pkt) (snd pkt)"
  shows "lsd_round env t pkt w = Err OutOfFuel \<or> lsd_round env t pkt w = Ok None \<or> (\<exists>w'. lsd_round env t pkt w = Ok (Some w') \<and> lsd_good {} {} w')"
proof (cases "thread_fetch env (tm w)")
  case (Err e)
  then have "e = OutOfFuel" using thread_fetch_post [of "tm w" env] good_inv [OF assms(1)] by (simp add: fetch_post_def lsd_inv_def tinv_def)
  then show ?thesis using Err by (simp add: lsd_round_def)
next
  case (Ok r)
  obtain xo m where r: "r = (xo, m)" by fastforce
  show ?thesis
  proof (cases xo)
    case None
    then show ?thesis using Ok r by (simp add: lsd_round_def)
  next
    case (Some x)
    note f = fetch_fired [OF assms(1,2), of env x m] 
    have f: "fired (w\<lparr>now := t\<rparr>) (th_func x, th_arg x) (w\<lparr>tm := m, now := t\<rparr>)" "th_func x \<notin> event_funcs \<Longrightarrow> hellos_present (w\<lparr>now := t\<rparr>)"
      using f Ok r Some by (auto simp: hellos_present_def)
    from thread_call_good [OF good_now [OF assms(1,2)] f assms(3)] show ?thesis using Ok r Some by (auto simp: lsd_round_def)
  qed
qed

section \<open>Reachable states\<close>

text \<open>
  A run of the daemon: it starts with its sockets registered and no interface; the interfaces of the
  router are read again whenever a neighbour list arrives; the router may change the data of its
  interfaces and add new ones; and the main loop runs one callback after the other.  The reading of the interfaces and the
  update of the table, which \<^verbatim>\<open>server/icm.c\<close> runs in other threads without a lock, are single steps between two
  callbacks here: their interleaving with a callback is not described.
\<close>

definition lsd_initial :: "lsd \<Rightarrow> bool" where
  "lsd_initial w \<longleftrightarrow> zones w = [] \<and> azs w = [] \<and> bbs w = [] \<and> acs w = [] \<and> accesses w = [] \<and> sent w = [] \<and> periodctrl w = None \<and>
     tm w = thread_master_create \<and> time_ok (now w) \<and> lr_agentid w \<noteq> 0 \<and>
     (\<forall>r \<in> set (ifs w). ri_proto r \<noteq> None \<and> ri_connected r \<noteq> None \<and> ri_vinterface r = None)"

definition router_change :: "rinterface list \<Rightarrow> rinterface list \<Rightarrow> bool" where
  "router_change rs rs' \<longleftrightarrow> length rs \<le> length rs' \<and>
     (\<forall>i < length rs'. ri_proto (rs' ! i) \<noteq> None \<and> ri_connected (rs' ! i) \<noteq> None \<and>
        (if i < length rs then ri_type (rs' ! i) = ri_type (rs ! i) \<and> ri_vinterface (rs' ! i) = ri_vinterface (rs ! i)
         else ri_vinterface (rs' ! i) = None))"

inductive lsd_reach :: "lsd \<Rightarrow> bool" where
  Start: "lsd_initial w \<Longrightarrow> lsd_reach (lsd_serv_sock hs ls w)"
| Iflist: "lsd_reach w \<Longrightarrow> lsd_iflist_init w = Ok (r, w') \<Longrightarrow> lsd_reach w'"
| Router: "lsd_reach w \<Longrightarrow> router_change (ifs w) rs \<Longrightarrow> lsd_reach (w\<lparr>ifs := rs\<rparr>)"
| Round: "lsd_reach w \<Longrightarrow> time_ok t \<Longrightarrow> packet_ok (fst pkt) (snd pkt) \<Longrightarrow> lsd_round env t pkt w = Ok (Some w') \<Longrightarrow> lsd_reach w'"

lemma initial_good:
  assumes "lsd_initial w"
  shows "lsd_good {} {} (lsd_serv_sock hs ls w)"
proof -
  have "pending (thread_master_create :: (lsd_func, lsd_arg) thread_master) t = None" for t
    by (simp add: pending_def thread_master_create_def)
  then have J: "J w j = {}" for j using assms by (simp add: J_def lsd_initial_def)
  have "events_ok (thread_master_create :: (lsd_func, lsd_arg) thread_master)"
    by (simp add: events_ok_def thread_master_create_def pending_def)
  then have "tinv w" using assms wf_master_create by (simp add: tinv_def lsd_initial_def)
  then have "lsd_good {} {} w"
    using assms by (auto simp: lsd_good_def inv_parts sync_def masters_def period_ok_def lsd_initial_def J vif_ok_def)
  from add_read_good [OF add_read_good [OF this, of hs], of ls] show ?thesis by (simp add: lsd_serv_sock_def Let_def)
qed

lemma router_good:
  assumes "lsd_good {} {} w" "router_change (ifs w) rs"
  shows "lsd_good {} {} (w\<lparr>ifs := rs\<rparr>)"
proof -
  note inv = good_inv [OF assms(1)]
  have io: "ifs_ok w" "length (ifs w) \<le> length rs" using inv assms(2) by (auto simp: lsd_inv_def router_change_def)
  have "vif_ok (length (bbs w)) (length (acs w)) (rs ! i)" if "i < length rs" for i
    using io(1) assms(2) that unfolding router_change_def ifs_ok_def vif_ok_def by (metis option.distinct(1))
  then have "ifs_ok (w\<lparr>ifs := rs\<rparr>)" using io by (auto simp: ifs_ok_def)
  moreover have "zones_ok (w\<lparr>ifs := rs\<rparr>)" using inv by (simp add: lsd_inv_def zones_ok_def)
  ultimately have "lsd_good {} ({} \<union> {length (bbs w)..<length (bbs w)}) (w\<lparr>ifs := rs\<rparr>)"
    by (intro grow_good [OF assms(1), where Z = "zones w" and A = "azs w" and B = "bbs w" and C = "acs w" and D = "accesses w" and I = rs])
      (use inv io(2) in \<open>auto simp: lsd_inv_def eths_ok_def intro: order_less_le_trans\<close>)
  then show ?thesis by simp
qed

lemma lsd_reach_good: "lsd_reach w \<Longrightarrow> lsd_good {} {} w"
proof (induction rule: lsd_reach.induct)
  case (Start w hs ls)
  then show ?case by (rule initial_good)
next
  case (Iflist w r w')
  then show ?case using lsd_iflist_init_good [of w] by auto
next
  case (Router w rs)
  then show ?case using router_good by blast
next
  case (Round w t pkt env w')
  then show ?case using lsd_round_good [of w t pkt env] by auto
qed

section \<open>Theorems\<close>

text \<open>
  C1. The daemon never fails: in every state it can reach (interface passes and changes of the router's table being
  single steps between rounds), when the clock is before January 2038 and a packet that arrives is sound (its router
  identifier is not zero and its announced number of advertisements is that of the advertisements in it), the next round of
  the main loop runs its callback to the end (the only other outcomes are that no descriptor becomes ready in the given
  rounds of \<^verbatim>\<open>select\<close>, or that \<^verbatim>\<open>select\<close> reports an error and the loop ends), and a pass over the interfaces of the router
  returns.  No assertion fails, no null pointer is followed and no list or buffer is read outside.
\<close>

theorem lsd_never_fails:
  assumes "lsd_reach w" "time_ok t" "packet_ok (fst pkt) (snd pkt)"
  shows "(case lsd_round env t pkt w of Err e \<Rightarrow> e = OutOfFuel | Ok None \<Rightarrow> True | Ok (Some w') \<Rightarrow> lsd_reach w') \<and>
    (\<exists>r w'. lsd_iflist_init w = Ok (r, w') \<and> lsd_reach w')"
proof -
  note g = lsd_reach_good [OF assms(1)]
  have "\<exists>r w'. lsd_iflist_init w = Ok (r, w') \<and> lsd_reach w'"
    using lsd_iflist_init_good [OF g] lsd_reach.Iflist [OF assms(1)] by blast
  then show ?thesis
    using lsd_round_good [OF g assms(2,3), of env] lsd_reach.Round [OF assms] by auto
qed

text \<open>A router with one backbone and one access interface.\<close>

definition sample_lsd :: lsd where
  "sample_lsd = \<lparr>zones = [], azs = [], bbs = [], acs = [], accesses = [],
     ifs = [\<lparr>ri_type = BACKBONE, ri_op_state = ETH_UP, ri_ctl_id = 1, ri_proto = Some \<lparr>proto_type = ROUTER_OSPF, pi_areaid = 7, pi_cost = 10\<rparr>,
              ri_neighbor = Some \<lparr>nb_devid = 2, nb_rid = 2, nb_router_addr = 20, nb_agent_addr = 21\<rparr>, ri_connected = Some [30], ri_vinterface = None\<rparr>,
            \<lparr>ri_type = ACCESS, ri_op_state = ETH_UP, ri_ctl_id = 2, ri_proto = Some \<lparr>proto_type = ROUTER_OSPF, pi_areaid = 7, pi_cost = 5\<rparr>,
              ri_neighbor = None, ri_connected = Some [40], ri_vinterface = None\<rparr>],
     tm = thread_master_create, now = (100, 0), sent = [], to_bm = [], periodctrl = None, flood_called = False, outside = 0, default_ttl = 64,
     ttl_ok = True, lr_inited = True, lr_agentid = 1, lr_routerid = 1, junk = 0\<rparr>"

definition sample_pkt :: "lsd_head \<times> lsd_body" where
  "sample_pkt = (\<lparr>hd_version = LSD_VERSION, hd_pklen = 28, hd_r_id = 2, hd_area_id = 7, hd_if_id = 9, hd_icsum = LSD_CHECKSUM\<rparr>, HelloHigh 100000 400000)"

lemma sample_reach: "lsd_reach (lsd_serv_sock 3 4 sample_lsd)"
  by (rule lsd_reach.Start) (simp add: lsd_initial_def sample_lsd_def time_ok_def tv_ok_def TIMER_SECOND_MICRO_def)

lemma sample_ok: "time_ok (101, 0)" "packet_ok (fst sample_pkt) (snd sample_pkt)"
  by (simp_all add: time_ok_def tv_ok_def TIMER_SECOND_MICRO_def packet_ok_def sample_pkt_def)

theorem lsd_never_fails_witness:
  "(case lsd_round [((101, 0), Sel_Ready {3} {})] (101, 0) sample_pkt (lsd_serv_sock 3 4 sample_lsd) of
      Err e \<Rightarrow> e = OutOfFuel | Ok None \<Rightarrow> True | Ok (Some w') \<Rightarrow> lsd_reach w') \<and>
   (\<exists>r w'. lsd_iflist_init (lsd_serv_sock 3 4 sample_lsd) = Ok (r, w') \<and> lsd_reach w')"
  by (rule lsd_never_fails [OF sample_reach sample_ok])

text \<open>Running the sample: rounds that wait or end the loop leave the state as it is.\<close>

fun lsd_rounds :: "(timeval \<times> select_result \<times> (lsd_head \<times> lsd_body)) list \<Rightarrow> lsd \<Rightarrow> lsd" where
  "lsd_rounds [] w = w"
| "lsd_rounds ((t, sel, pkt) # ins) w =
     lsd_rounds ins (case lsd_round [(t, sel)] t pkt w of Ok (Some w') \<Rightarrow> w' | _ \<Rightarrow> w)"

lemma lsd_rounds_reach:
  "lsd_reach w \<Longrightarrow> \<forall>(t, sel, pkt) \<in> set ins. time_ok t \<and> packet_ok (fst pkt) (snd pkt) \<Longrightarrow> lsd_reach (lsd_rounds ins w)"
proof (induction ins arbitrary: w)
  case Nil
  then show ?case by simp
next
  case (Cons i ins)
  obtain t sel pkt where i: "i = (t, sel, pkt)" by (metis prod_cases3)
  have "lsd_reach (case lsd_round [(t, sel)] t pkt w of Ok (Some w') \<Rightarrow> w' | _ \<Rightarrow> w)"
    using Cons.prems lsd_reach.Round [of w t pkt "[(t, sel)]"] by (auto simp: i split: res.split option.split)
  then show ?case using Cons by (simp add: i)
qed

definition sample_up :: lsd where
  "sample_up = (case lsd_iflist_init (lsd_serv_sock 3 4 sample_lsd) of Ok (r, w) \<Rightarrow> w | Err e \<Rightarrow> sample_lsd)"

text \<open>After six rounds: both interfaces are up, two hellos have been sent and one high-priority hello has been received.\<close>

definition sample_run :: lsd where
  "sample_run = lsd_rounds (replicate 5 ((101, 0), Sel_Ready {3} {}, sample_pkt)) sample_up"

lemma sample_up_reach: "lsd_reach sample_up"
  using lsd_iflist_init_good [OF lsd_reach_good [OF sample_reach]] lsd_reach.Iflist [OF sample_reach] by (auto simp: sample_up_def)

lemma sample_run_reach: "lsd_reach sample_run"
  unfolding sample_run_def by (rule lsd_rounds_reach [OF sample_up_reach]) (simp add: sample_ok)

text \<open>
  C28. In every reachable state the pending acknowledgement, flood, exchange and dead timers of an interface, and its
  pointers to them, are exactly those its protocol states call for: an acknowledgement timer of the flood runs if and only
  if a packet waits for its acknowledgement, a send timer of the flood if and only if the flood is busy, and then it has
  advertisements queued, an acknowledgement timer of the exchange if and only if the exchange waits, a neighbour is detected
  if and only if its dead timer runs, and without a detected neighbour no exchange is under way.  (Of the timers that send
  hellos several can be pending, after several changes of the interface.)
\<close>

theorem lsd_timers_match_state:
  assumes "lsd_reach w" "e < length (bbs w)" "bb_hello (bb w e) = Some h"
  shows "\<exists>x f. bb_exchange (bb w e) = Some x \<and> bb_flood (bb w e) = Some f \<and>
    (J w (Flood_ack_timeout, Bb e) = set_option (fl_ack_ctrl f)) \<and> (fl_ack_ctrl f \<noteq> None \<longleftrightarrow> fl_state f = FLOOD_ACK_WAITING) \<and>
    (J w (Flood_send_lsa, Bb e) = set_option (fl_snd_ctrl f)) \<and> (fl_snd_ctrl f \<noteq> None \<longleftrightarrow> fl_state f = FLOOD_BUSY) \<and>
    (fl_state f \<in> {FLOOD_READY, FLOOD_TERMINATED} \<longrightarrow> fl_queue f = []) \<and> (fl_state f = FLOOD_BUSY \<longrightarrow> fl_queue f \<noteq> []) \<and>
    (J w (Ack_time_excceed, Bb e) = set_option (ex_ack_ctrl x)) \<and> (ex_ack_ctrl x \<noteq> None \<longleftrightarrow> send_state x = EXCHANGE_STATE_SEND_WAITING) \<and>
    (J w (Dead_timer_high, Bb e) = set_option (h_dead_timer_high h)) \<and> (h_dead_timer_high h \<noteq> None \<longleftrightarrow> high_status h = LSD_CONNECTED) \<and>
    (J w (Dead_timer_low, Bb e) = set_option (h_dead_timer_low h)) \<and> (h_dead_timer_low h \<noteq> None \<longleftrightarrow> low_status h = LSD_CONNECTED) \<and>
    (high_status h = LSD_DISCONNETED \<longrightarrow> send_state x = EXCHANGE_STATE_SEND_TERMINATED)"
proof -
  note g = lsd_reach_good [OF assms(1)]
  note eo = eth_okD [OF good_inv [OF g] assms(2)]
  obtain x f where xf: "bb_exchange (bb w e) = Some x" "bb_flood (bb w e) = Some f" using eo(5) assms(3) by auto
  have "high_status h = LSD_DISCONNETED \<longrightarrow> send_state x = EXCHANGE_STATE_SEND_TERMINATED"
    using g assms(2,3) xf by (auto simp: lsd_good_def sync_def)
  then show ?thesis using eo(2-4) xf assms(3) by (simp add: ex_ok_def fl_ok_def he_ok_def)
qed

theorem lsd_timers_match_state_witness:
  "\<exists>x h t. bb_exchange (bb sample_run 0) = Some x \<and> bb_hello (bb sample_run 0) = Some h \<and> high_status h = LSD_CONNECTED \<and>
     send_state x = EXCHANGE_STATE_SEND_WAITING \<and> J sample_run (Ack_time_excceed, Bb 0) = {t} \<and> ex_ack_ctrl x = Some t"
proof -
  have c: "length (bbs sample_run) = 1 \<and> map_option high_status (bb_hello (bb sample_run 0)) = Some LSD_CONNECTED \<and>
      map_option send_state (bb_exchange (bb sample_run 0)) = Some EXCHANGE_STATE_SEND_WAITING" by code_simp
  then obtain h where h: "bb_hello (bb sample_run 0) = Some h" "high_status h = LSD_CONNECTED" by (auto simp: map_option_eq_Some)
  show ?thesis
    using lsd_timers_match_state [OF sample_run_reach _ h(1)] c h by auto
qed

end
