(* ===== verification/Lsd_Protocol.thy ===== *)
theory Lsd_Protocol
  imports Lsd_Safety
begin

text \<open>
  What the protocols of the daemon achieve: accepting advertisements keeps the newest one of each link, a
  flood queue and an exchange are delivered completely and in order, one acknowledged packet after
  the other; and four situations in which they fail.
\<close>

section \<open>Accepting keeps the newest advertisement\<close>

text \<open>The reference: of the advertisements for a link the first with the greatest sequence number.\<close>

definition newer :: "link_state_adv \<Rightarrow> link_state_adv option \<Rightarrow> link_state_adv option" where
  "newer l b = (case b of None \<Rightarrow> Some l | Some x \<Rightarrow> if la_seq x < la_seq l then Some l else Some x)"

definition newest :: "link_state_key \<Rightarrow> link_state_adv list \<Rightarrow> link_state_adv option" where
  "newest k lsas = fold newer [l \<leftarrow> lsas. la_key l = k] None"

definition merge_newest ::
  "timeval \<Rightarrow> u32 \<Rightarrow> link_state_adv list \<Rightarrow> (link_state_key \<Rightarrow> cr_lsdb_link_state option) \<Rightarrow> link_state_key \<Rightarrow> cr_lsdb_link_state option" where
  "merge_newest t own lsas m k =
     (if rt_id k = own then m k
      else case newest k lsas of
             None \<Rightarrow> m k
           | Some l \<Rightarrow> (case m k of
               None \<Rightarrow> Some (lsa_to_lsdb_info t l)
             | Some d \<Rightarrow> if ls_seq d < la_seq l then Some (lsa_to_lsdb_info t l) else Some d))"

lemma newest_snoc:
  "newest k (lsas @ [l]) = (if la_key l = k then newer l (newest k lsas) else newest k lsas)"
  by (simp add: newest_def)

lemma newest_in: "newest k lsas = Some l \<Longrightarrow> l \<in> set lsas \<and> la_key l = k"
proof (induction lsas arbitrary: l rule: rev_induct)
  case Nil
  then show ?case by (simp add: newest_def)
next
  case (snoc x lsas)
  show ?case
  proof (cases "la_key x = k \<and> newest k (lsas @ [x]) = Some x")
    case True
    then show ?thesis using snoc.prems by simp
  next
    case False
    then have "newest k lsas = Some l"
      using snoc.prems by (cases "newest k lsas") (simp_all add: newest_snoc newer_def split: if_splits)
    then show ?thesis using snoc.IH by simp
  qed
qed

lemma merge_snoc:
  "merge_newest t own (lsas @ [l]) m k = merge_newest t own [l] (merge_newest t own lsas m) k"
proof -
  have one: "newest k [l] = (if la_key l = k then Some l else None)" by (simp add: newest_def newer_def)
  show ?thesis
    by (auto simp: merge_newest_def newest_snoc one newer_def lsa_to_lsdb_info_def split: option.splits)
qed

lemma flood_zones [simp]:
  "zones (flood_add_flood_lsa l e w) = zones w" "now (flood_add_flood_lsa l e w) = now w"
  by (auto simp: flood_add_flood_lsa_def set_flood_def upd_bb_def add_timer_def Let_def split: option.splits prod.splits)

lemma forward_zones [simp]: "zones (flood_lsa_forward l e w) = zones w" "now (flood_lsa_forward l e w) = now w"
proof -
  have "zones (fold (\<lambda>e'. if e' \<noteq> e then flood_add_flood_lsa l e' else id) es v) = zones v \<and>
        now (fold (\<lambda>e'. if e' \<noteq> e then flood_add_flood_lsa l e' else id) es v) = now v" for es v
    by (induction es arbitrary: v) auto
  then show "zones (flood_lsa_forward l e w) = zones w" "now (flood_lsa_forward l e w) = now w"
    by (simp_all add: flood_lsa_forward_def)
qed

lemma ls_find_zones: "zones w' = zones w \<Longrightarrow> ls_find z k w' = ls_find z k w"
  by (simp add: ls_find_def)

definition fresh_db :: "nat \<Rightarrow> lsd \<Rightarrow> bool" where
  "fresh_db z w \<longleftrightarrow> (\<forall>k d. ls_find z k w = Some d \<longrightarrow> \<not> is_out_of_date (now w) d)"

lemma just_stored_fresh: "\<not> is_out_of_date t (lsa_to_lsdb_info t l)"
  by (simp add: is_out_of_date_def lsa_to_lsdb_info_def LSDB_LINK_FRESH_TIME_def)

lemma accept_lsa_merge:
  assumes "lsd_inv w" "e < length (bbs w)" "lsa_ok lsa" "fresh_db (bb_az (bb w e)) w"
  shows "\<exists>w'. accept_lsa_into_lsdb e lsa w = Ok w' \<and> keeps w w' \<and>
    (\<lambda>k. ls_find (bb_az (bb w e)) k w') = merge_newest (now w) (az_r_id (zone_of w e)) [lsa] (\<lambda>k. ls_find (bb_az (bb w e)) k w)"
proof -
  let ?z = "bb_az (bb w e)" and ?st = "lsa_to_lsdb_info (now w) lsa"
  have z: "?z < length (zones w)" using assms device_id_ok by blast
  have key: "ls_key ?st = la_key lsa" "ls_seq ?st = la_seq lsa" by (simp_all add: lsa_to_lsdb_info_def)
  have new: "newest k [lsa] = (if la_key lsa = k then Some lsa else None)" for k by (simp add: newest_def newer_def)
  obtain w' where w': "accept_lsa_into_lsdb e lsa w = Ok w'" "keeps w w'" using accept_lsa_keeps [OF assms(1-3)] by blast
  have "ls_find ?z k w' = merge_newest (now w) (az_r_id (zone_of w e)) [lsa] (\<lambda>k. ls_find ?z k w) k" for k
  proof (cases "rt_id (la_key lsa) = az_r_id (zone_of w e)")
    case True
    then have "\<exists>v. check_local_lsdb e ?st w = Ok (True, v) \<and> zones v = zones w"
      using ls_find_key(1) [OF assms(1) z]
      by (cases "ls_find ?z (la_key lsa) w") (auto simp: check_local_lsdb_def key link_state_compare_def)
    then have "zones w' = zones w" using w'(1) by (auto simp: accept_lsa_into_lsdb_def)
    then show ?thesis using True by (auto simp: merge_newest_def new ls_find_def split: option.splits)
  next
    case False
    then have loc: "check_local_lsdb e ?st w = Ok (False, w)" by (simp add: check_local_lsdb_def key)
    show ?thesis
    proof (cases "ls_find ?z (la_key lsa) w")
      case None
      obtain w1 where w1: "ls_add ?z ?st w = Ok (NO_ERR, w1)" "\<forall>k. ls_find ?z k w1 = (if k = la_key lsa then Some ?st else ls_find ?z k w)"
        using ls_add_keeps [OF assms(1) z, of ?st] None assms(3) key by (auto simp: lsa_ok_def)
      then have "w' = flood_lsa_forward lsa e w1" using w'(1) loc None by (simp add: accept_lsa_into_lsdb_def key)
      then show ?thesis using w1(2) None False ls_find_zones [of "flood_lsa_forward lsa e w1" w1] by (auto simp: merge_newest_def new)
    next
      case (Some d)
      have d: "ls_key d = la_key lsa" "\<not> is_out_of_date (now w) d"
        using ls_find_key [OF assms(1) z Some] assms(4) Some by (auto simp: fresh_db_def)
      obtain w1 where w1: "ls_update ?z ?st w = Ok (NO_ERR, w1)" "\<forall>k. ls_find ?z k w1 = (if k = la_key lsa then Some ?st else ls_find ?z k w)"
        using ls_update_keeps [OF assms(1) z, of ?st] Some key by auto
      have cmp: "link_state_compare d ?st = Ok (if la_seq lsa < ls_seq d then 1 else if ls_seq d = la_seq lsa then 0 else -1)"
        using d(1) by (simp add: link_state_compare_def key)
      have "accept_lsa_into_lsdb e lsa w = res_bind (link_state_compare d ?st) (\<lambda>ra.
          if ra < 0 then res_bind (ls_update ?z ?st w) (\<lambda>(_, w1). Ok (flood_lsa_forward lsa e w1))
          else if ra > 0 then Ok (flood_add_flood_lsa (lsdb_to_lsa_info d) e w) else Ok w)"
        using loc Some d(2) by (simp add: accept_lsa_into_lsdb_def Let_def key)
      then have w'_eq: "w' = (if la_seq lsa < ls_seq d then flood_add_flood_lsa (lsdb_to_lsa_info d) e w
          else if ls_seq d = la_seq lsa then w else flood_lsa_forward lsa e w1)"
        using w'(1) w1(1) by (simp add: cmp split: if_splits)
      have "ls_find ?z k w' = (if ls_seq d < la_seq lsa then ls_find ?z k w1 else ls_find ?z k w)"
        by (cases rule: linorder_cases [of "ls_seq d" "la_seq lsa"]) (auto simp: w'_eq ls_find_def)
      then show ?thesis using w1(2) Some False by (auto simp: merge_newest_def new)
    qed
  qed
  then show ?thesis using w' by blast
qed

lemma accept_lsas_merge:
  assumes "lsd_inv w" "e < length (bbs w)" "lsas_ok lsas" "fresh_db (bb_az (bb w e)) w" "n \<le> length lsas"
  shows "\<exists>w'. res_for (\<lambda>i w. res_bind (lsa_at lsas i) (\<lambda>l. accept_lsa_into_lsdb e l w)) [0..<n] w = Ok w' \<and> keeps w w' \<and>
    (\<lambda>k. ls_find (bb_az (bb w e)) k w') = merge_newest (now w) (az_r_id (zone_of w e)) (take n lsas) (\<lambda>k. ls_find (bb_az (bb w e)) k w)"
  using assms(5)
proof (induction n)
  case 0
  then show ?case using assms(1) by (simp add: keeps_refl merge_newest_def newest_def fun_eq_iff)
next
  case (Suc n)
  let ?z = "bb_az (bb w e)" and ?own = "az_r_id (zone_of w e)"
  have zl: "?z < length (zones w)" using assms device_id_ok by blast
  obtain w1 where w1: "res_for (\<lambda>i w. res_bind (lsa_at lsas i) (\<lambda>l. accept_lsa_into_lsdb e l w)) [0..<n] w = Ok w1" "keeps w w1"
    "(\<lambda>k. ls_find ?z k w1) = merge_newest (now w) ?own (take n lsas) (\<lambda>k. ls_find ?z k w)" using Suc by auto
  have l: "lsa_at lsas n = Ok (lsas ! n)" "lsa_ok (lsas ! n)" using Suc.prems assms(3) by (auto simp: lsas_ok_def lsa_at_def)
  note n1 = keepsD(2) [OF w1(2)]
  have b1: "e < length (bbs w1)" "bb_az (bb w1 e) = ?z" "now w1 = now w" "az_r_id (zones w1 ! ?z) = ?own"
    using same_net_len(1) [OF n1] same_net_bb(2) [OF n1 assms(2)] same_net_zone(4) [OF n1 zl] assms(2) n1 by (auto simp: same_net_def)
  have fr: "fresh_db ?z w1"
    unfolding fresh_db_def
  proof (intro allI impI)
    fix k d
    assume "ls_find ?z k w1 = Some d"
    then have "merge_newest (now w) ?own (take n lsas) (\<lambda>k. ls_find ?z k w) k = Some d" using w1(3) by metis
    then show "\<not> is_out_of_date (now w1) d"
      using assms(4) b1(3) by (auto simp: merge_newest_def fresh_db_def just_stored_fresh split: if_splits option.splits)
  qed
  obtain w2 where w2: "accept_lsa_into_lsdb e (lsas ! n) w1 = Ok w2" "keeps w1 w2"
    "(\<lambda>k. ls_find ?z k w2) = merge_newest (now w) ?own [lsas ! n] (\<lambda>k. ls_find ?z k w1)"
    using accept_lsa_merge [OF keepsD(1) [OF w1(2)] b1(1) l(2), unfolded b1(2-4), OF fr] by auto
  have "merge_newest (now w) ?own (take (Suc n) lsas) (\<lambda>k. ls_find ?z k w) = (\<lambda>k. ls_find ?z k w2)"
    unfolding w2(3) w1(3) using Suc.prems by (intro ext) (simp add: take_Suc_conv_app_nth merge_snoc)
  moreover have "res_for (\<lambda>i w. res_bind (lsa_at lsas i) (\<lambda>l. accept_lsa_into_lsdb e l w)) [0..<Suc n] w = Ok w2"
    using w1(1) w2(1) l(1) by (simp add: res_for_append)
  ultimately show ?case using keeps_trans [OF w1(2) w2(2)] by metis
qed

text \<open>
  C2. Accepting the advertisements of a packet, in a reachable state in which no stored link state is out of date, is the
  merge with the newest: afterwards every link has the newest of the received advertisements when that is newer than the
  stored one, and the stored one otherwise, except the links whose first end is the router identifier of the area, which
  are untouched.
\<close>

theorem accept_lsas_newest:
  assumes "lsd_reach w" "e < length (bbs w)" "lsas_ok lsas"
    and "\<forall>d \<in> set (snd (cr_lsdb_get_links_state (az_lsdb (zone_of w e)))). \<not> is_out_of_date (now w) d"
  shows "\<exists>w'. accept_lsas e (length lsas) lsas w = Ok w' \<and>
    (\<lambda>k. ls_find (bb_az (bb w e)) k w') = merge_newest (now w) (az_r_id (zone_of w e)) lsas (\<lambda>k. ls_find (bb_az (bb w e)) k w)"
proof -
  note inv = good_inv [OF lsd_reach_good [OF assms(1)]]
  let ?z = "bb_az (bb w e)"
  have z: "?z < length (zones w)" using device_id_ok(2) [OF inv assms(2)] .
  have wf: "wf_lsdb (az_lsdb (zone_of w e))" using inv z by (simp add: inv_parts)
  have "fresh_db ?z w"
    using assms(4) get_links_state_all(2) [OF wf] by (auto simp: fresh_db_def ls_find_map [OF inv z] ran_def)
  from accept_lsas_merge [OF inv assms(2,3) this order_refl] show ?thesis by (auto simp: accept_lsas_def)
qed

definition sample_lsa :: "u32 \<Rightarrow> link_state_adv" where
  "sample_lsa n = \<lparr>la_key = \<lparr>rt_id = 5, if_id = 1, n_rt_id = 6, n_if_id = 2\<rparr>, la_addr = 50, la_metric = 3, la_state = 3, la_seq = n\<rparr>"

theorem accept_lsas_newest_witness:
  "\<exists>w'. accept_lsas 0 2 [sample_lsa 3, sample_lsa 5] sample_run = Ok w' \<and>
     ls_find 0 (la_key (sample_lsa 3)) w' = Some (lsa_to_lsdb_info (now sample_run) (sample_lsa 5))"
proof -
  have c: "length (bbs sample_run) = 1 \<and> bb_az (bb sample_run 0) = 0 \<and> az_r_id (zones sample_run ! 0) = 1 \<and>
      ls_find 0 (la_key (sample_lsa 3)) sample_run = None \<and>
      (\<forall>d \<in> set (snd (cr_lsdb_get_links_state (az_lsdb (zones sample_run ! 0)))). \<not> is_out_of_date (now sample_run) d)" by code_simp
  have k: "la_key (sample_lsa n) = la_key (sample_lsa 3)" "la_seq (sample_lsa n) = n" "rt_id (la_key (sample_lsa 3)) = 5" for n
    by (simp_all add: sample_lsa_def)
  have "\<exists>w'. accept_lsas 0 (length [sample_lsa 3, sample_lsa 5]) [sample_lsa 3, sample_lsa 5] sample_run = Ok w' \<and>
    (\<lambda>k. ls_find (bb_az (bb sample_run 0)) k w') =
      merge_newest (now sample_run) (az_r_id (zone_of sample_run 0)) [sample_lsa 3, sample_lsa 5] (\<lambda>k. ls_find (bb_az (bb sample_run 0)) k sample_run)"
    by (rule accept_lsas_newest [OF sample_run_reach]) (use c in \<open>auto simp: lsas_ok_def lsa_ok_def sample_lsa_def LSA_PER_BUF_def\<close>)
  then obtain w' where w': "accept_lsas 0 2 [sample_lsa 3, sample_lsa 5] sample_run = Ok w'"
    "(\<lambda>k. ls_find 0 k w') = merge_newest (now sample_run) 1 [sample_lsa 3, sample_lsa 5] (\<lambda>k. ls_find 0 k sample_run)"
    using c by (auto simp: numeral_2_eq_2)
  have "newest (la_key (sample_lsa 3)) [sample_lsa 3, sample_lsa 5] = Some (sample_lsa 5)"
    by (simp add: newest_def newer_def k(1) [of 5] k(2))
  then have "ls_find 0 (la_key (sample_lsa 3)) w' = Some (lsa_to_lsdb_info (now sample_run) (sample_lsa 5))"
    using fun_cong [OF w'(2), of "la_key (sample_lsa 3)"] c k(3) by (simp add: merge_newest_def)
  then show ?thesis using w'(1) by blast
qed

section \<open>A flood queue is delivered in order\<close>

lemma lsd_send_exact:
  assumes "np_device_id (bb_neighbor (bb w e)) \<noteq> 0" "np_ctl_addr (bb_neighbor (bb w e)) \<noteq> 0" "pktype body \<in> {3, 4}"
  obtains p where "snd (lsd_send e len body w) = w\<lparr>sent := sent w @ [p]\<rparr>" "sp_body p = body" "hd_pklen (sp_head p) = len"
    "hd_r_id (sp_head p) = az_device_id (zone_of w e)"
proof -
  have a: "(np_device_id (bb_neighbor (bb w e)) = 0 \<or> np_ctl_addr (bb_neighbor (bb w e)) = 0) = False"
    "(pktype body \<notin> {1, 2, 3, 4, 6}) = False" "((pktype body = 1 \<or> pktype body = 2) \<and> \<not> ttl_ok w) = False" using assms by auto
  show thesis
    by (rule that, simp only: lsd_send_def Let_def a if_False snd_conv) simp_all
qed

text \<open>
  One delivery, as the surroundings of the daemon let it happen: the send timer fires, the callback runs, and the
  acknowledgement of the packet it sent arrives.
\<close>

definition delivered :: "nat \<Rightarrow> lsd \<Rightarrow> lsd \<Rightarrow> bool" where
  "delivered e w w' \<longleftrightarrow> (\<exists>w1 w2 f. fired w (Flood_send_lsa, Bb e) w1 \<and> flood_send_lsa e w1 = Ok w2 \<and> bb_flood (bb w2 e) = Some f \<and>
     flood_pkt_received e (Flood FLOOD_PKG_TYPE_ACK (fl_pkg_no f) 0 []) w2 = Ok w')"

definition neighbor_known :: "lsd \<Rightarrow> nat \<Rightarrow> bool" where
  "neighbor_known w e \<longleftrightarrow> np_device_id (bb_neighbor (bb w e)) \<noteq> 0 \<and> np_ctl_addr (bb_neighbor (bb w e)) \<noteq> 0"

fun lsas_of :: "lsd_body \<Rightarrow> link_state_adv list" where
  "lsas_of (Exchange _ _ _ _ lsas) = lsas"
| "lsas_of (Flood _ _ _ lsas) = lsas"
| "lsas_of _ = []"

lemma pending_fires:
  assumes "tinv w" "t \<in> J w j"
  obtains w1 where "fired w j w1"
proof -
  obtain m where "tinv (w\<lparr>tm := m\<rparr>)" "J (w\<lparr>tm := m\<rparr>) = (J w)(j := J w j - set_option (Some t))"
    by (rule timer_off_J [OF assms(1), of "Some t" j]) (use assms(2) in auto)
  then show thesis using that [of "w\<lparr>tm := m\<rparr>"] assms(2) by (auto simp: fired_def)
qed

lemma flood_send_exact:
  assumes "bb_flood (bb w e) = Some f" "e < length (bbs w)" "neighbor_known w e"
  obtains p t m where "flood_send_lsa e w = Ok (w\<lparr>tm := m, bbs := (bbs w)[e := (bb w e)\<lparr>bb_flood := Some (f\<lparr>fl_snd_ctrl := None,
      fl_pkg_no := fl_pkg_no f + 1, fl_queue := drop LSA_CT_PER_PAK (fl_queue f), fl_sendbuf := (hd_pklen (sp_head p), sp_body p),
      fl_state := FLOOD_ACK_WAITING, fl_ack_ctrl := Some t\<rparr>)\<rparr>], sent := sent w @ [p]\<rparr>)"
    "lsas_of (sp_body p) = take LSA_CT_PER_PAK (fl_queue f)" "pktype (sp_body p) = 4"
proof -
  define lsas where "lsas = take LSA_CT_PER_PAK (fl_queue f)"
  define len :: u16 where "len = of_nat (SIZEOF_FLOOD + SIZEOF_LSA * length lsas)"
  define body where "body = Flood FLOOD_PKG_TYPE_LSA (fl_pkg_no f + 1) (of_nat (length lsas)) lsas"
  obtain t m where t: "add_timer FLOOD_ACK_OVER_TIME (Flood_ack_timeout, Bb e) w = (t, w\<lparr>tm := m\<rparr>)"
    by (cases "thread_add_timer_high_resolution (now w) Flood_ack_timeout (Bb e) FLOOD_ACK_OVER_TIME (tm w)") (simp add: add_timer_def)
  define w2 where "w2 = set_flood e (f\<lparr>fl_snd_ctrl := None, fl_pkg_no := fl_pkg_no f + 1, fl_queue := drop LSA_CT_PER_PAK (fl_queue f),
                      fl_sendbuf := (len, body), fl_state := FLOOD_ACK_WAITING, fl_ack_ctrl := Some t\<rparr>) (w\<lparr>tm := m\<rparr>)"
  have nk: "np_device_id (bb_neighbor (bb w2 e)) \<noteq> 0" "np_ctl_addr (bb_neighbor (bb w2 e)) \<noteq> 0"
    using assms(2,3) by (simp_all add: neighbor_known_def w2_def set_flood_def upd_bb_def)
  obtain p where p: "snd (lsd_send e len body w2) = w2\<lparr>sent := sent w2 @ [p]\<rparr>" "sp_body p = body" "hd_pklen (sp_head p) = len"
    by (rule lsd_send_exact [OF nk, of body len]) (auto simp: body_def)
  show thesis
    by (rule that [where p = p and t = t and m = m])
      (use assms(1) t p in \<open>simp_all add: flood_send_lsa_def Let_def w2_def lsas_def len_def body_def set_flood_def upd_bb_def\<close>)
qed

text \<open>What a delivery from a busy state leads to.\<close>

definition delivery_result :: "nat \<Rightarrow> flood_master \<Rightarrow> lsd \<Rightarrow> lsd \<Rightarrow> bool" where
  "delivery_result e f w w' \<longleftrightarrow> lsd_inv w' \<and> length (bbs w') = length (bbs w) \<and> neighbor_known w' e \<and>
    (\<exists>p f'. sent w' = sent w @ [p] \<and> pktype (sp_body p) = 4 \<and> lsas_of (sp_body p) = take LSA_CT_PER_PAK (fl_queue f) \<and>
      bb_flood (bb w' e) = Some f' \<and> fl_queue f' = drop LSA_CT_PER_PAK (fl_queue f) \<and>
      fl_state f' = (if drop LSA_CT_PER_PAK (fl_queue f) = [] then FLOOD_READY else FLOOD_BUSY))"

lemma fired_delivery:
  assumes "lsd_inv w" "e < length (bbs w)" "bb_flood (bb w e) = Some f" "fl_state f = FLOOD_BUSY" "neighbor_known w e"
    and fi: "fired w (Flood_send_lsa, Bb e) w1"
  shows "\<exists>w2 f2 w'. flood_send_lsa e w1 = Ok w2 \<and> bb_flood (bb w2 e) = Some f2 \<and>
    flood_pkt_received e (Flood FLOOD_PKG_TYPE_ACK (fl_pkg_no f2) 0 []) w2 = Ok w' \<and> delivery_result e f w w'"
proof -
  obtain m where w1: "w1 = w\<lparr>tm := m\<rparr>" using fi by (auto simp: fired_def)
  obtain w2 where w2: "flood_send_lsa e w1 = Ok w2" "keeps w w2" using flood_send_lsa_keeps [OF assms(1) fi] by blast
  obtain p f2 where p: "sent w2 = sent w @ [p]" "lsas_of (sp_body p) = take LSA_CT_PER_PAK (fl_queue f)" "pktype (sp_body p) = 4"
    "bb_flood (bb w2 e) = Some f2" "fl_queue f2 = drop LSA_CT_PER_PAK (fl_queue f)" "fl_state f2 = FLOOD_ACK_WAITING"
    by (rule flood_send_exact [of w1 e f]) (use assms(2,3,5) w2(1) in \<open>auto simp: w1 neighbor_known_def\<close>)
  have i2: "lsd_inv w2" "e < length (bbs w2)" using w2(2) assms(2) same_net_len by (auto simp: keeps_def)
  obtain w3 where w3: "flood_ack_received e f2 (fl_pkg_no f2) w2 = Ok w3" "keeps w2 w3"
    using flood_ack_received_keeps [OF i2 p(4,6)] by blast
  have "flood_pkt_received e (Flood FLOOD_PKG_TYPE_ACK (fl_pkg_no f2) 0 []) w2 = Ok w3"
    using p(4,6) w3(1) by (simp add: flood_pkt_received_def)
  moreover have "lsd_inv w3" "length (bbs w3) = length (bbs w)" "neighbor_known w3 e"
    using keeps_trans [OF w2(2) w3(2)] same_net_len(1) [of w w3] same_net_bb(6) [of w w3 e] assms(2,5) by (auto simp: keeps_def neighbor_known_def)
  moreover have "sent w3 = sent w2 \<and> (\<exists>f'. bb_flood (bb w3 e) = Some f' \<and> fl_queue f' = fl_queue f2 \<and>
      fl_state f' = (if fl_queue f2 = [] then FLOOD_READY else FLOOD_BUSY))"
  proof -
    have fo2: "tinv w2" "fl_ok (J w2) e (Some f2)" using eth_okD [OF i2] p(4) by auto
    obtain m1 where m1: "timer_off (fl_ack_ctrl f2) w2 = Ok (w2\<lparr>tm := m1\<rparr>)"
      by (rule timer_off_J [OF fo2(1), of "fl_ack_ctrl f2" "(Flood_ack_timeout, Bb e)"]) (use fo2(2) in \<open>auto simp: fl_ok_def\<close>)
    obtain t3 m3 where t3: "add_timer 0 (Flood_send_lsa, Bb e) (w2\<lparr>tm := m1\<rparr>) = (t3, w2\<lparr>tm := m1, tm := m3\<rparr>)"
      by (cases "thread_add_timer_high_resolution (now w2) Flood_send_lsa (Bb e) 0 m1") (simp add: add_timer_def)
    show ?thesis using w3(1) m1 t3 i2(2) by (auto simp: flood_ack_received_def set_flood_def upd_bb_def)
  qed
  ultimately show ?thesis using w2(1) p unfolding delivery_result_def by (intro exI [of _ w2] exI [of _ f2] exI [of _ w3]) auto
qed

text \<open>A delivery is possible, and every one has this result.\<close>

lemma delivered_step:
  assumes "lsd_inv w" "e < length (bbs w)" "bb_flood (bb w e) = Some f" "fl_state f = FLOOD_BUSY" "neighbor_known w e"
  shows "\<exists>w'. delivered e w w'" "delivered e w w' \<Longrightarrow> delivery_result e f w w'"
proof -
  have "fl_ok (J w) e (Some f)" using eth_okD(3) [OF assms(1,2)] assms(3) by simp
  then obtain t where "t \<in> J w (Flood_send_lsa, Bb e)" using assms(4) by (auto simp: fl_ok_def)
  then obtain w1 where "fired w (Flood_send_lsa, Bb e) w1" using pending_fires [OF eth_okD(1) [OF assms(1,2)]] by blast
  then show "\<exists>w'. delivered e w w'" using fired_delivery [OF assms] unfolding delivered_def by blast
  show "delivery_result e f w w'" if "delivered e w w'"
    using that fired_delivery [OF assms] unfolding delivered_def by fastforce
qed


lemma deliveries:
  assumes "lsd_inv w" "e < length (bbs w)" "bb_flood (bb w e) = Some f" "fl_state f = FLOOD_BUSY" "neighbor_known w e" "fl_queue f \<noteq> []"
  shows "(\<exists>w'. (delivered e ^^ ((length (fl_queue f) + 4) div 5)) w w') \<and>
    (\<forall>w'. (delivered e ^^ ((length (fl_queue f) + 4) div 5)) w w' \<longrightarrow>
      (\<exists>ps f'. sent w' = sent w @ ps \<and> concat (map (\<lambda>p. lsas_of (sp_body p)) ps) = fl_queue f \<and>
        (\<forall>p \<in> set ps. length (lsas_of (sp_body p)) \<le> 5) \<and> bb_flood (bb w' e) = Some f' \<and> fl_state f' = FLOOD_READY \<and> fl_queue f' = []))"
  using assms
proof (induction "length (fl_queue f)" arbitrary: w f rule: less_induct)
  case less
  note step = delivered_step [OF less.prems(1-5)]
  let ?n = "(length (fl_queue f) + 4) div 5"
  have res: "\<exists>p f1. lsd_inv w1 \<and> length (bbs w1) = length (bbs w) \<and> neighbor_known w1 e \<and> sent w1 = sent w @ [p] \<and>
      lsas_of (sp_body p) = take 5 (fl_queue f) \<and> bb_flood (bb w1 e) = Some f1 \<and> fl_queue f1 = drop 5 (fl_queue f) \<and>
      fl_state f1 = (if drop 5 (fl_queue f) = [] then FLOOD_READY else FLOOD_BUSY)" if "delivered e w w1" for w1
    using step(2) [OF that] unfolding delivery_result_def LSA_CT_PER_PAK_def by blast
  show ?case
  proof (cases "drop 5 (fl_queue f) = []")
    case True
    then have n: "?n = 1" using less.prems(6) by (cases "fl_queue f") auto
    have "\<exists>ps f'. sent w1 = sent w @ ps \<and> concat (map (\<lambda>p. lsas_of (sp_body p)) ps) = fl_queue f \<and>
        (\<forall>p \<in> set ps. length (lsas_of (sp_body p)) \<le> 5) \<and> bb_flood (bb w1 e) = Some f' \<and> fl_state f' = FLOOD_READY \<and> fl_queue f' = []"
      if d: "delivered e w w1" for w1
    proof -
      obtain p f1 where "sent w1 = sent w @ [p]" "lsas_of (sp_body p) = take 5 (fl_queue f)" "bb_flood (bb w1 e) = Some f1"
          "fl_queue f1 = drop 5 (fl_queue f)" "fl_state f1 = FLOOD_READY" using res [OF d] True by auto
      then show ?thesis using True by (intro exI [of _ "[p]"] exI [of _ f1]) auto
    qed
    then show ?thesis using step(1) unfolding n relpowp_1 by blast
  next
    case False
    have n: "?n = Suc ((length (drop 5 (fl_queue f)) + 4) div 5)" using False by simp
    have lt: "length (drop 5 (fl_queue f)) < length (fl_queue f)" using less.prems(6) by (cases "fl_queue f") auto
    have IH: "(\<exists>w'. (delivered e ^^ ((length (drop 5 (fl_queue f)) + 4) div 5)) w1 w') \<and>
        (\<forall>w'. (delivered e ^^ ((length (drop 5 (fl_queue f)) + 4) div 5)) w1 w' \<longrightarrow>
          (\<exists>ps f'. sent w' = sent w @ ps \<and> concat (map (\<lambda>p. lsas_of (sp_body p)) ps) = fl_queue f \<and>
            (\<forall>p \<in> set ps. length (lsas_of (sp_body p)) \<le> 5) \<and> bb_flood (bb w' e) = Some f' \<and> fl_state f' = FLOOD_READY \<and> fl_queue f' = []))"
      if d: "delivered e w w1" for w1
    proof -
      obtain p f1 where r: "lsd_inv w1" "length (bbs w1) = length (bbs w)" "neighbor_known w1 e" "sent w1 = sent w @ [p]"
          "lsas_of (sp_body p) = take 5 (fl_queue f)" "bb_flood (bb w1 e) = Some f1" "fl_queue f1 = drop 5 (fl_queue f)" "fl_state f1 = FLOOD_BUSY"
        using res [OF d] False by auto
      have IH: "(\<exists>w'. (delivered e ^^ ((length (fl_queue f1) + 4) div 5)) w1 w') \<and>
          (\<forall>w'. (delivered e ^^ ((length (fl_queue f1) + 4) div 5)) w1 w' \<longrightarrow>
            (\<exists>ps f'. sent w' = sent w1 @ ps \<and> concat (map (\<lambda>p. lsas_of (sp_body p)) ps) = fl_queue f1 \<and>
              (\<forall>p \<in> set ps. length (lsas_of (sp_body p)) \<le> 5) \<and> bb_flood (bb w' e) = Some f' \<and> fl_state f' = FLOOD_READY \<and> fl_queue f' = []))"
        by (rule less.hyps) (use r lt False less.prems(2) in auto)
      have "\<exists>ps f'. sent w' = sent w @ ps \<and> concat (map (\<lambda>p. lsas_of (sp_body p)) ps) = fl_queue f \<and>
            (\<forall>p \<in> set ps. length (lsas_of (sp_body p)) \<le> 5) \<and> bb_flood (bb w' e) = Some f' \<and> fl_state f' = FLOOD_READY \<and> fl_queue f' = []"
        if d': "(delivered e ^^ ((length (fl_queue f1) + 4) div 5)) w1 w'" for w'
      proof -
        obtain ps f' where "sent w' = sent w1 @ ps" "concat (map (\<lambda>p. lsas_of (sp_body p)) ps) = fl_queue f1"
            "\<forall>p \<in> set ps. length (lsas_of (sp_body p)) \<le> 5" "bb_flood (bb w' e) = Some f'" "fl_state f' = FLOOD_READY" "fl_queue f' = []"
          using IH d' by blast
        then show ?thesis using r(4,5,7) by (intro exI [of _ "p # ps"] exI [of _ f']) auto
      qed
      then show ?thesis using IH unfolding r(7) by blast
    qed
    have "\<exists>w'. (delivered e ^^ ?n) w w'" using step(1) IH unfolding n by (meson relpowp_Suc_I2)
    moreover have "\<exists>w1. delivered e w w1 \<and> (delivered e ^^ ((length (drop 5 (fl_queue f)) + 4) div 5)) w1 w'" if "(delivered e ^^ ?n) w w'" for w'
      using that unfolding n by (meson relpowp_Suc_D2)
    ultimately show ?thesis using IH by blast
  qed
qed

text \<open>
  C4. A flood queue is delivered, if every packet is acknowledged: when the flood of an interface with a known neighbour is
  busy with a queue of \<open>n\<close> advertisements, \<open>(n + 4) div 5\<close> deliveries (the send timer fires, and the packet is acknowledged)
  are possible, and every such run has sent the whole queue, in order, in packets of at most five advertisements, and
  leaves the flood ready with an empty queue.
\<close>

theorem flood_queue_delivered:
  assumes "lsd_reach w" "e < length (bbs w)" "bb_flood (bb w e) = Some f" "fl_state f = FLOOD_BUSY" "neighbor_known w e"
  shows "(\<exists>w'. (delivered e ^^ ((length (fl_queue f) + 4) div 5)) w w') \<and>
    (\<forall>w'. (delivered e ^^ ((length (fl_queue f) + 4) div 5)) w w' \<longrightarrow>
      (\<exists>ps f'. sent w' = sent w @ ps \<and> concat (map (\<lambda>p. lsas_of (sp_body p)) ps) = fl_queue f \<and>
        (\<forall>p \<in> set ps. length (lsas_of (sp_body p)) \<le> 5) \<and> bb_flood (bb w' e) = Some f' \<and> fl_state f' = FLOOD_READY \<and> fl_queue f' = []))"
proof -
  note inv = good_inv [OF lsd_reach_good [OF assms(1)]]
  have "fl_queue f \<noteq> []" using eth_okD(3) [OF inv assms(2)] assms(3,4) by (simp add: fl_ok_def)
  then show ?thesis by (rule deliveries [OF inv assms(2-5)])
qed

theorem flood_queue_delivered_witness:
  "\<exists>f w' ps f'. bb_flood (bb sample_run 0) = Some f \<and> length (fl_queue f) = 1 \<and> delivered 0 sample_run w' \<and>
     sent w' = sent sample_run @ ps \<and> concat (map (\<lambda>p. lsas_of (sp_body p)) ps) = fl_queue f \<and>
     bb_flood (bb w' 0) = Some f' \<and> fl_state f' = FLOOD_READY"
proof -
  have c: "length (bbs sample_run) = 1 \<and> map_option fl_state (bb_flood (bb sample_run 0)) = Some FLOOD_BUSY \<and>
      map_option (length o fl_queue) (bb_flood (bb sample_run 0)) = Some 1 \<and> neighbor_known sample_run 0" by code_simp
  then obtain f where f: "bb_flood (bb sample_run 0) = Some f" "fl_state f = FLOOD_BUSY" "length (fl_queue f) = 1"
    by (auto simp: map_option_eq_Some)
  have n: "(length (fl_queue f) + 4) div 5 = 1" using f(3) by simp
  note t = flood_queue_delivered [OF sample_run_reach _ f(1,2), unfolded n relpowp_1]
  obtain w' where w': "delivered 0 sample_run w'" using t c by auto
  then obtain ps f' where "sent w' = sent sample_run @ ps" "concat (map (\<lambda>p. lsas_of (sp_body p)) ps) = fl_queue f"
      "bb_flood (bb w' 0) = Some f'" "fl_state f' = FLOOD_READY" using t c by auto
  then show ?thesis using w' f(1,3) by blast
qed

section \<open>An exchange transfers the whole database\<close>

lemma exchange_send_exact:
  assumes "bb_exchange (bb w e) = Some x0" "e < length (bbs w)" "neighbor_known w e"
  obtains p t m where "exchange_send e x w = w\<lparr>tm := m, bbs := (bbs w)[e := (bb w e)\<lparr>bb_exchange := Some (x\<lparr>
      ex_links_state := drop 1 (ex_links_state x), ex_sendbuf := (hd_pklen (sp_head p), sp_body p),
      send_state := EXCHANGE_STATE_SEND_WAITING, ex_ack_ctrl := Some t\<rparr>)\<rparr>], sent := sent w @ [p]\<rparr>"
    "sp_body p = Exchange (if ex_links_state x = [] then EXCHANGE_PKG_TYPE_NO_DATA else EXCHANGE_PKG_TYPE_LINKS_STATE)
       (if length (ex_links_state x) \<le> 1 then 0 else 1) (of_nat (length (take 1 (ex_links_state x)))) (ex_pkg_no x)
       (map lsdb_to_lsa_info (take 1 (ex_links_state x)))"
proof -
  define ls where "ls = take LINK_LSA_CT_PER_PAK (ex_links_state x)"
  define rest where "rest = drop LINK_LSA_CT_PER_PAK (ex_links_state x)"
  define len :: u16 where "len = of_nat (SIZEOF_EXCHANGE + SIZEOF_LSA * length ls)"
  define body where "body = Exchange (if ls = [] then EXCHANGE_PKG_TYPE_NO_DATA else EXCHANGE_PKG_TYPE_LINKS_STATE)
                   (if rest = [] then 0 else 1) (of_nat (length ls)) (ex_pkg_no x) (map lsdb_to_lsa_info ls)"
  obtain t m where t: "add_timer EX_ACK_OVER_TIME (Ack_time_excceed, Bb e) w = (t, w\<lparr>tm := m\<rparr>)"
    by (cases "thread_add_timer_high_resolution (now w) Ack_time_excceed (Bb e) EX_ACK_OVER_TIME (tm w)") (simp add: add_timer_def)
  define w2 where "w2 = set_exchange e (x\<lparr>ex_links_state := rest, ex_sendbuf := (len, body), send_state := EXCHANGE_STATE_SEND_WAITING,
    ex_ack_ctrl := Some t\<rparr>) (w\<lparr>tm := m\<rparr>)"
  have nk: "np_device_id (bb_neighbor (bb w2 e)) \<noteq> 0" "np_ctl_addr (bb_neighbor (bb w2 e)) \<noteq> 0"
    using assms(2,3) by (simp_all add: neighbor_known_def w2_def set_exchange_def upd_bb_def)
  obtain p where p: "snd (lsd_send e len body w2) = w2\<lparr>sent := sent w2 @ [p]\<rparr>" "sp_body p = body" "hd_pklen (sp_head p) = len"
    by (rule lsd_send_exact [OF nk, of body len]) (auto simp: body_def)
  have "body = Exchange (if ex_links_state x = [] then EXCHANGE_PKG_TYPE_NO_DATA else EXCHANGE_PKG_TYPE_LINKS_STATE)
       (if length (ex_links_state x) \<le> 1 then 0 else 1) (of_nat (length (take 1 (ex_links_state x)))) (ex_pkg_no x)
       (map lsdb_to_lsa_info (take 1 (ex_links_state x)))"
    by (simp add: body_def ls_def rest_def LINK_LSA_CT_PER_PAK_def)
  then show thesis
    by (intro that [where p = p and t = t and m = m])
      (use t p in \<open>simp_all add: exchange_send_def Let_def w2_def ls_def rest_def len_def body_def set_exchange_def upd_bb_def LINK_LSA_CT_PER_PAK_def\<close>)
qed

text \<open>\<open>ex_acks e n\<close> delivers \<open>n\<close> acknowledgements, each for the packet sent last.\<close>

fun ex_acks :: "nat \<Rightarrow> nat \<Rightarrow> lsd \<Rightarrow> lsd res" where
  "ex_acks e 0 w = Ok w"
| "ex_acks e (Suc n) w =
     (case bb_exchange (bb w e) of
        None \<Rightarrow> Err NullDeref
      | Some x \<Rightarrow> res_bind (exchange_pkt_received e (Exchange EXCHANGE_PKG_TYPE_ACK 0 0 (ex_pkg_no x) []) w) (ex_acks e n))"

text \<open>The packets an exchange of the given link states consists of, numbered from \<open>n\<close>.\<close>

fun ex_packets :: "u32 \<Rightarrow> cr_lsdb_link_state list \<Rightarrow> lsd_body list" where
  "ex_packets n [] = []"
| "ex_packets n (d # ds) = Exchange EXCHANGE_PKG_TYPE_LINKS_STATE (if ds = [] then 0 else 1) 1 n [lsdb_to_lsa_info d] # ex_packets (n + 1) ds"

lemma ex_acks_run:
  assumes "lsd_inv w" "e < length (bbs w)" "neighbor_known w e" "bb_exchange (bb w e) = Some x" "send_state x = EXCHANGE_STATE_SEND_WAITING"
  shows "\<exists>w' ps x'. ex_acks e (Suc (length (ex_links_state x))) w = Ok w' \<and> sent w' = sent w @ ps \<and>
    map sp_body ps = ex_packets (ex_pkg_no x + 1) (ex_links_state x) \<and> bb_exchange (bb w' e) = Some x' \<and> send_state x' = EXCHANGE_STATE_SEND_END"
  using assms
proof (induction "ex_links_state x" arbitrary: w x)
  case Nil
  have xo: "tinv w" "ex_ok (J w) e (Some x)" using eth_okD [OF Nil.prems(1,2)] Nil.prems(4) by simp_all
  obtain m where m: "timer_off (ex_ack_ctrl x) w = Ok (w\<lparr>tm := m\<rparr>)"
    by (rule timer_off_J [OF xo(1), of "ex_ack_ctrl x" "(Ack_time_excceed, Bb e)"]) (use xo(2) in \<open>auto simp: ex_ok_def\<close>)
  show ?case
    using Nil m by (simp add: exchange_pkt_received_def ex_ack_received_def set_exchange_def upd_bb_def)
next
  case (Cons d ds)
  have xo: "tinv w" "ex_ok (J w) e (Some x)" using eth_okD [OF Cons.prems(1,2)] Cons.prems(4) by simp_all
  obtain m where m: "timer_off (ex_ack_ctrl x) w = Ok (w\<lparr>tm := m\<rparr>)"
    by (rule timer_off_J [OF xo(1), of "ex_ack_ctrl x" "(Ack_time_excceed, Bb e)"]) (use xo(2) in \<open>auto simp: ex_ok_def\<close>)
  define x1 where "x1 = x\<lparr>ex_ack_ctrl := None, retry_times := 0, ex_pkg_no := ex_pkg_no x + 1\<rparr>"
  define w1 where "w1 = exchange_send e x1 (w\<lparr>tm := m\<rparr>)"
  have links: "ex_links_state x1 = d # ds" "ex_pkg_no x1 = ex_pkg_no x + 1" using Cons.hyps(2) by (simp_all add: x1_def)
  have ack: "ex_ack_received e x (ex_pkg_no x) w = Ok w1"
    using m Cons.hyps(2) [symmetric] by (simp add: ex_ack_received_def w1_def x1_def)
  have k: "keeps_but e w w1" using ex_ack_received_keeps [OF Cons.prems(1,2,4,5)] ack by (metis res.inject(1))
  obtain p x2 where p: "sent w1 = sent w @ [p]" "sp_body p = Exchange EXCHANGE_PKG_TYPE_LINKS_STATE (if ds = [] then 0 else 1) 1 (ex_pkg_no x + 1) [lsdb_to_lsa_info d]"
    "bb_exchange (bb w1 e) = Some x2" "ex_links_state x2 = ds" "send_state x2 = EXCHANGE_STATE_SEND_WAITING" "ex_pkg_no x2 = ex_pkg_no x + 1"
    unfolding w1_def
    by (rule exchange_send_exact [of "w\<lparr>tm := m\<rparr>" e x x1]) (use Cons.prems(2-4) links in \<open>auto simp: neighbor_known_def\<close>)
  have "e < length (bbs w1)" "neighbor_known w1 e"
    using k Cons.prems(2,3) same_net_len(1) same_net_bb(6) [of w w1 e] by (auto simp: keeps_but_def neighbor_known_def)
  with Cons.hyps(1) [OF p(4) [symmetric] keeps_butD(1) [OF k]] p obtain w' ps x' where
    r: "ex_acks e (Suc (length ds)) w1 = Ok w'" "sent w' = sent w1 @ ps" "map sp_body ps = ex_packets (ex_pkg_no x + 1 + 1) ds"
      "bb_exchange (bb w' e) = Some x'" "send_state x' = EXCHANGE_STATE_SEND_END" by metis
  have "ex_acks e (Suc (length (d # ds))) w = Ok w'"
    using Cons.prems(4,5) ack r(1) by (simp only: ex_acks.simps list.size) (simp add: exchange_pkt_received_def)
  then show ?case unfolding Cons.hyps(2) [symmetric]
    using r p(1,2) by (intro exI [of _ w'] exI [of _ "p # ps"] exI [of _ x']) simp
qed

text \<open>
  C3. An exchange ends, if its packets are acknowledged: started in a reachable state on an interface with a known neighbour
  and a database that is not empty, it sends every link state of the database once, in order, one per packet with
  consecutive numbers and the flag \<^verbatim>\<open>more\<close> on all but the last, and after as many acknowledgements of its packets as link
  states it is in its final state.
\<close>

theorem exchange_transfers_database:
  assumes "lsd_reach w" "e < length (bbs w)" "neighbor_known w e" "bb_exchange (bb w e) = Some x"
    and "send_state x = EXCHANGE_STATE_SEND_TERMINATED" "ls = snd (cr_lsdb_get_links_state (az_lsdb (zone_of w e)))" "ls \<noteq> []"
  shows "\<exists>w1 w' ps x'. exchange_send_start e w = Ok w1 \<and> ex_acks e (length ls) w1 = Ok w' \<and> sent w' = sent w @ ps \<and>
    map sp_body ps = ex_packets (ex_pkg_no x) ls \<and> bb_exchange (bb w' e) = Some x' \<and> send_state x' = EXCHANGE_STATE_SEND_END"
proof -
  note inv = good_inv [OF lsd_reach_good [OF assms(1)]]
  have wf: "wf_lsdb (az_lsdb (zone_of w e))" using inv device_id_ok(2) [OF inv assms(2)] by (simp add: inv_parts)
  define x1 where "x1 = x\<lparr>send_state := EXCHANGE_STATE_SEND_WAITING, ex_links_state := ls\<rparr>"
  define w1 where "w1 = exchange_send e x1 w"
  have st: "exchange_send_start e w = Ok w1"
    using assms(4-6) get_links_state_all(1) [OF wf]
    by (cases "cr_lsdb_get_links_state (az_lsdb (zone_of w e))") (simp add: exchange_send_start_def w1_def x1_def)
  have k: "keeps_but e w w1" using exchange_send_start_keeps [OF inv assms(2,4,5)] st by (metis res.inject(1))
  obtain d ds where ds: "ls = d # ds" using assms(7) by (cases ls) auto
  obtain p x2 where p: "sent w1 = sent w @ [p]" "sp_body p = Exchange EXCHANGE_PKG_TYPE_LINKS_STATE (if ds = [] then 0 else 1) 1 (ex_pkg_no x) [lsdb_to_lsa_info d]"
    "bb_exchange (bb w1 e) = Some x2" "ex_links_state x2 = ds" "send_state x2 = EXCHANGE_STATE_SEND_WAITING" "ex_pkg_no x2 = ex_pkg_no x"
    unfolding w1_def by (rule exchange_send_exact [of w e x x1]) (use assms(2-4) in \<open>auto simp: x1_def ds\<close>)
  have "e < length (bbs w1)" "neighbor_known w1 e"
    using k assms(2,3) same_net_len(1) same_net_bb(6) [of w w1 e] by (auto simp: keeps_but_def neighbor_known_def)
  from ex_acks_run [OF keeps_butD(1) [OF k] this p(3,5)] p(4,6) ds st p(1,2) show ?thesis
    by (fastforce intro: exI [of _ "p # _"])
qed

definition sample_idle :: lsd where
  "sample_idle = lsd_rounds (replicate 2 ((101, 0), Sel_Again, sample_pkt)) sample_up"

lemma sample_idle_reach: "lsd_reach sample_idle"
  unfolding sample_idle_def by (rule lsd_rounds_reach [OF sample_up_reach]) (simp add: sample_ok)

theorem exchange_transfers_database_witness:
  "\<exists>w1 w' ps d x'. exchange_send_start 0 sample_idle = Ok w1 \<and> ex_acks 0 1 w1 = Ok w' \<and> sent w' = sent sample_idle @ ps \<and>
     map sp_body ps = [Exchange EXCHANGE_PKG_TYPE_LINKS_STATE 0 1 0 [lsdb_to_lsa_info d]] \<and>
     bb_exchange (bb w' 0) = Some x' \<and> send_state x' = EXCHANGE_STATE_SEND_END"
proof -
  let ?ls = "snd (cr_lsdb_get_links_state (az_lsdb (zone_of sample_idle 0)))"
  have c: "length (bbs sample_idle) = 1 \<and> map_option (\<lambda>x. (send_state x, ex_pkg_no x)) (bb_exchange (bb sample_idle 0)) =
      Some (EXCHANGE_STATE_SEND_TERMINATED, 0) \<and> length ?ls = 1 \<and> neighbor_known sample_idle 0" by code_simp
  then obtain x where x: "bb_exchange (bb sample_idle 0) = Some x" "send_state x = EXCHANGE_STATE_SEND_TERMINATED" "ex_pkg_no x = 0"
    by (auto simp: map_option_eq_Some)
  obtain d where d: "?ls = [d]" using c by (auto simp: length_Suc_conv)
  show ?thesis
    using exchange_transfers_database [OF sample_idle_reach _ _ x(1,2) refl] c x(3) d by auto
qed

section \<open>Where the protocols fail\<close>

text \<open>
  An exchange whose last acknowledgement is lost never ends: the receiver, having seen the last packet, neither
  processes nor acknowledges a repetition of it, and each timeout of the sender only sends the same
  packet again and starts the same timer.
\<close>

theorem exchange_lost_final_ack:
  assumes "bb_exchange (bb wr r) = Some xr" "rcv_state xr = EXCHANGE_STATE_RCV_END" "ty \<noteq> EXCHANGE_PKG_TYPE_ACK"
    and "lsd_reach ws" "fired ws (Ack_time_excceed, Bb e) w1" "bb_exchange (bb ws e) = Some xs"
  shows "exchange_pkt_received r (Exchange ty mr len seq lsas) wr = Ok wr \<and>
    (\<exists>w' t. ack_time_excceed e w1 = Ok w' \<and> bb_exchange (bb w' e) = Some (xs\<lparr>ex_ack_ctrl := Some t\<rparr>) \<and>
       send_state xs = EXCHANGE_STATE_SEND_WAITING \<and> J w' (Ack_time_excceed, Bb e) = {t} \<and>
       (neighbor_known ws e \<and> pktype (snd (ex_sendbuf xs)) = 3 \<longrightarrow> (\<exists>p. sent w' = sent ws @ [p] \<and> sp_body p = snd (ex_sendbuf xs))))"
proof
  have "set_rcv r (\<lambda>x. x\<lparr>rcv_state := EXCHANGE_STATE_RCV_END\<rparr>) wr = wr"
  proof -
    have "xr\<lparr>rcv_state := EXCHANGE_STATE_RCV_END\<rparr> = xr" using assms(2) by (cases xr) simp
    then have "(bb wr r)\<lparr>bb_exchange := map_option (\<lambda>x. x\<lparr>rcv_state := EXCHANGE_STATE_RCV_END\<rparr>) (bb_exchange (bb wr r))\<rparr> = bb wr r"
      using assms(1) by (cases "bb wr r") simp
    then show ?thesis by (simp add: set_rcv_def upd_bb_def)
  qed
  then show "exchange_pkt_received r (Exchange ty mr len seq lsas) wr = Ok wr"
    using assms(1-3) by (simp add: exchange_pkt_received_def)
  note inv = good_inv [OF lsd_reach_good [OF assms(4)]]
  note e = fired_eth [OF inv assms(5)]
  obtain m where w1: "w1 = ws\<lparr>tm := m\<rparr>" using assms(5) by (auto simp: fired_def)
  have "J ws (Ack_time_excceed, Bb e) \<noteq> {}" using assms(5) by (auto simp: fired_def)
  then have st: "send_state xs = EXCHANGE_STATE_SEND_WAITING" using eth_okD(2) [OF inv e(1)] assms(6) by (auto simp: ex_ok_def)
  obtain w' where w': "ack_time_excceed e w1 = Ok w'" "keeps_but e ws w'" using ack_time_excceed_keeps [OF inv assms(5)] by blast
  obtain t m2 where t: "add_timer EX_ACK_OVER_TIME (Ack_time_excceed, Bb e) w1 = (t, w1\<lparr>tm := m2\<rparr>)"
    by (cases "thread_add_timer_high_resolution (now w1) Ack_time_excceed (Bb e) EX_ACK_OVER_TIME (tm w1)") (simp add: add_timer_def)
  define w2 where "w2 = set_exchange e (xs\<lparr>ex_ack_ctrl := Some t\<rparr>) (w1\<lparr>tm := m2\<rparr>)"
  have r: "w' = snd (lsd_send e (fst (ex_sendbuf xs)) (snd (ex_sendbuf xs)) w2)"
    using w'(1) assms(6) st t by (simp add: ack_time_excceed_def w2_def w1)
  have b: "bb w2 e = (bb ws e)\<lparr>bb_exchange := Some (xs\<lparr>ex_ack_ctrl := Some t\<rparr>)\<rparr>" "sent w2 = sent ws"
    using e(1) by (simp_all add: w2_def set_exchange_def upd_bb_def w1)
  obtain s where s: "w' = w2\<lparr>sent := s\<rparr>" using lsd_send_sent [of e "fst (ex_sendbuf xs)" "snd (ex_sendbuf xs)" w2] r by metis
  have x: "bb_exchange (bb w' e) = Some (xs\<lparr>ex_ack_ctrl := Some t\<rparr>)" using s b by simp
  have l: "e < length (bbs w')" using keeps_butD(2) [OF w'(2)] e(1) same_net_len by simp
  have "J w' (Ack_time_excceed, Bb e) = {t}" using eth_okD(2) [OF keeps_butD(1) [OF w'(2)] l] x by (simp add: ex_ok_def)
  moreover have "\<exists>p. sent w' = sent ws @ [p] \<and> sp_body p = snd (ex_sendbuf xs)"
    if "neighbor_known ws e" "pktype (snd (ex_sendbuf xs)) = 3"
    by (rule lsd_send_exact [of w2 e "snd (ex_sendbuf xs)" "fst (ex_sendbuf xs)"]) (use that b r in \<open>auto simp: neighbor_known_def\<close>)
  ultimately show "\<exists>w' t. ack_time_excceed e w1 = Ok w' \<and> bb_exchange (bb w' e) = Some (xs\<lparr>ex_ack_ctrl := Some t\<rparr>) \<and>
       send_state xs = EXCHANGE_STATE_SEND_WAITING \<and> J w' (Ack_time_excceed, Bb e) = {t} \<and>
       (neighbor_known ws e \<and> pktype (snd (ex_sendbuf xs)) = 3 \<longrightarrow> (\<exists>p. sent w' = sent ws @ [p] \<and> sp_body p = snd (ex_sendbuf xs)))"
    using w'(1) x st by blast
qed

definition sample_end :: lsd where
  "sample_end = (case exchange_pkt_received 0 (Exchange EXCHANGE_PKG_TYPE_LINKS_STATE 0 1 0 [sample_lsa 3]) sample_run of Ok w \<Rightarrow> w | Err e \<Rightarrow> sample_run)"

theorem exchange_lost_final_ack_witness:
  "exchange_pkt_received 0 (Exchange EXCHANGE_PKG_TYPE_LINKS_STATE 0 1 0 [sample_lsa 3]) sample_end = Ok sample_end \<and>
   (\<exists>w1 w' p. fired sample_run (Ack_time_excceed, Bb 0) w1 \<and> ack_time_excceed 0 w1 = Ok w' \<and> sent w' = sent sample_run @ [p])"
proof -
  have r: "map_option rcv_state (bb_exchange (bb sample_end 0)) = Some EXCHANGE_STATE_RCV_END" by code_simp
  then obtain xr where xr: "bb_exchange (bb sample_end 0) = Some xr" "rcv_state xr = EXCHANGE_STATE_RCV_END" by (auto simp: map_option_eq_Some)
  have s: "length (bbs sample_run) = 1 \<and> map_option send_state (bb_exchange (bb sample_run 0)) = Some EXCHANGE_STATE_SEND_WAITING \<and>
      map_option (\<lambda>x. pktype (snd (ex_sendbuf x))) (bb_exchange (bb sample_run 0)) = Some 3 \<and> neighbor_known sample_run 0" by code_simp
  then obtain xs where xs: "bb_exchange (bb sample_run 0) = Some xs" "send_state xs = EXCHANGE_STATE_SEND_WAITING" "pktype (snd (ex_sendbuf xs)) = 3"
    by (auto simp: map_option_eq_Some)
  have inv: "lsd_inv sample_run" "0 < length (bbs sample_run)" using good_inv [OF lsd_reach_good [OF sample_run_reach]] s by simp_all
  then have "ex_ok (J sample_run) 0 (Some xs)" using eth_okD(2) [of sample_run 0] xs(1) by simp
  then obtain t where "t \<in> J sample_run (Ack_time_excceed, Bb 0)" using xs(2) by (auto simp: ex_ok_def)
  then obtain w1 where w1: "fired sample_run (Ack_time_excceed, Bb 0) w1" using pending_fires [OF eth_okD(1) [OF inv]] by blast
  have ty: "EXCHANGE_PKG_TYPE_LINKS_STATE \<noteq> EXCHANGE_PKG_TYPE_ACK" by (simp add: EXCHANGE_PKG_TYPE_LINKS_STATE_def EXCHANGE_PKG_TYPE_ACK_def)
  show ?thesis
    using exchange_lost_final_ack [OF xr ty sample_run_reach w1 xs(1), of 0 1 0 "[sample_lsa 3]"] w1 s xs(3) by auto
qed

text \<open>
  C39. A flood packet that announces more advertisements than the 63 that fit into the receive buffer, the 63 in the buffer
  being sound, makes the daemon, in any reachable state, read behind the buffer: nothing compares the announced number with
  the length of what was received.
\<close>

theorem flood_size_over_read:
  assumes "lsd_reach w" "e < length (bbs w)" "lsas_ok lsas" "length lsas = LSA_PER_BUF" "int_of_u32 sz > int LSA_PER_BUF"
  shows "flood_pkt_received e (Flood FLOOD_PKG_TYPE_LSA seq sz lsas) w = Err OutOfBounds"
proof -
  note inv = good_inv [OF lsd_reach_good [OF assms(1)]]
  define w1 where "w1 = flood_send_ack e seq w"
  have k: "keeps w w1" unfolding w1_def flood_send_ack_def by (rule lsd_send_keeps [OF inv assms(2)]) (simp add: lsas_ok_def)
  have "e < length (bbs w1)" using same_net_len(1) [OF keepsD(2) [OF k]] assms(2) by simp
  then obtain w2 where w2: "res_for (\<lambda>i w. res_bind (lsa_at lsas i) (\<lambda>l. accept_lsa_into_lsdb e l w)) [0..<LSA_PER_BUF] w1 = Ok w2"
    using accept_lsas_keeps [OF keepsD(1) [OF k] _ assms(3)] assms(4) by (auto simp: accept_lsas_def)
  have "LSA_PER_BUF < nat (int_of_u32 sz)" using assms(5) by linarith
  then obtain n where n: "nat (int_of_u32 sz) = LSA_PER_BUF + Suc n" using less_imp_Suc_add by fastforce
  have "[0..<LSA_PER_BUF + Suc n] = [0..<LSA_PER_BUF] @ LSA_PER_BUF # [Suc LSA_PER_BUF..<LSA_PER_BUF + Suc n]"
    using upt_add_eq_append [of 0 LSA_PER_BUF "Suc n"] upt_conv_Cons [of LSA_PER_BUF "LSA_PER_BUF + Suc n"] by simp
  then have "accept_lsas e (nat (int_of_u32 sz)) lsas w1 = Err OutOfBounds"
    using w2 by (simp add: accept_lsas_def n res_for_append lsa_at_def)
  then show ?thesis by (simp add: flood_pkt_received_def w1_def FLOOD_PKG_TYPE_ACK_def FLOOD_PKG_TYPE_LSA_def)
qed

theorem flood_size_over_read_witness:
  "flood_pkt_received 0 (Flood FLOOD_PKG_TYPE_LSA 1 64 (replicate 63 (sample_lsa 3))) sample_run = Err OutOfBounds"
proof -
  have "length (bbs sample_run) = 1" by code_simp
  then show ?thesis
    by (intro flood_size_over_read sample_run_reach) (simp_all add: lsas_ok_def lsa_ok_def LSA_PER_BUF_def sample_lsa_def)
qed

text \<open>A daemon whose interface has no known neighbour, after its start.\<close>

definition sample_alone :: lsd where
  "sample_alone = sample_lsd\<lparr>ifs := [(ifs sample_lsd ! 0)\<lparr>ri_neighbor := None\<rparr>]\<rparr>"

definition sample_alone_up :: lsd where
  "sample_alone_up = lsd_rounds (replicate 3 ((101, 0), Sel_Again, sample_pkt))
     (case lsd_iflist_init (lsd_serv_sock 3 4 sample_alone) of Ok (r, w) \<Rightarrow> w | Err e \<Rightarrow> lsd_serv_sock 3 4 sample_alone)"

lemma sample_alone_reach: "lsd_reach sample_alone_up"
proof -
  have "lsd_reach (lsd_serv_sock 3 4 sample_alone)"
    by (rule lsd_reach.Start) (simp add: lsd_initial_def sample_alone_def sample_lsd_def time_ok_def tv_ok_def TIMER_SECOND_MICRO_def)
  then show ?thesis unfolding sample_alone_up_def
    by (intro lsd_rounds_reach) (auto simp: sample_ok lsd_reach.Iflist split: res.split)
qed

text \<open>
  A hello without a router identifier stops the daemon: on an interface whose neighbour is not known, which the
  lookup finds for the identifier zero, the first such hello makes an assertion fail.
\<close>

theorem hello_zero_id_stops_daemon:
  "lsd_reach sample_alone_up \<and>
   lsd_round [((101, 0), Sel_Ready {3} {})] (101, 0) ((fst sample_pkt)\<lparr>hd_r_id := 0\<rparr>, snd sample_pkt) sample_alone_up = Err AssertFailed"
proof
  show "lsd_reach sample_alone_up" by (rule sample_alone_reach)
  show "lsd_round [((101, 0), Sel_Ready {3} {})] (101, 0) ((fst sample_pkt)\<lparr>hd_r_id := 0\<rparr>, snd sample_pkt) sample_alone_up = Err AssertFailed"
    by code_simp
qed

text \<open>An interface whose flood is running gets every advertisement that is spread in its area.\<close>

definition queued :: "link_state_adv \<Rightarrow> flood_master option \<Rightarrow> bool" where
  "queued l fo \<longleftrightarrow> (\<exists>f. fo = Some f \<and> l \<in> set (fl_queue f))"

definition flooding :: "flood_master option \<Rightarrow> bool" where
  "flooding fo \<longleftrightarrow> (\<exists>f. fo = Some f \<and> fl_state f \<noteq> FLOOD_TERMINATED)"

lemma flood_add_queued:
  assumes "e < length (bbs w)"
  shows "queued l (bb_flood (bb w i)) \<Longrightarrow> queued l (bb_flood (bb (flood_add_flood_lsa a e w) i))"
    "flooding (bb_flood (bb w i)) \<Longrightarrow> flooding (bb_flood (bb (flood_add_flood_lsa a e w) i))"
    "flooding (bb_flood (bb w e)) \<Longrightarrow> queued a (bb_flood (bb (flood_add_flood_lsa a e w) e))"
    "length (bbs (flood_add_flood_lsa a e w)) = length (bbs w)"
  using assms
  by (cases "i = e"; auto simp: queued_def flooding_def flood_add_flood_lsa_def set_flood_def upd_bb_def add_timer_def Let_def
      split: option.splits prod.splits)+

lemma spread_queued:
  assumes "set es \<subseteq> {..<length (bbs w)}" "i \<in> set es" "flooding (bb_flood (bb w i))"
  shows "queued a (bb_flood (bb (fold (flood_add_flood_lsa a) es w) i))"
proof -
  have keep: "queued a (bb_flood (bb (fold (flood_add_flood_lsa a) es w) i))"
    if "set es \<subseteq> {..<length (bbs w)}" "queued a (bb_flood (bb w i))" for es w
    using that by (induction es arbitrary: w) (auto simp: flood_add_queued)
  show ?thesis using assms
  proof (induction es arbitrary: w)
    case Nil
    then show ?case by simp
  next
    case (Cons e es)
    let ?w = "flood_add_flood_lsa a e w"
    have e: "e < length (bbs w)" "set es \<subseteq> {..<length (bbs ?w)}" using Cons.prems(1) by (auto simp: flood_add_queued(4))
    show ?case
    proof (cases "i = e")
      case True
      then show ?thesis using keep [OF e(2)] flood_add_queued(3) [OF e(1)] Cons.prems(3) by simp
    next
      case False
      then show ?thesis using Cons.IH [OF e(2)] flood_add_queued(2) [OF e(1)] Cons.prems by simp
    qed
  qed
qed

text \<open>
  A change of a low-priority hello loses its sequence number: the link state is advertised with the next sequence number
  to every running flood of the area, but the database is then set back to the old number, so that
  the next change is advertised under the number neighbours have already seen and ignore.
\<close>

theorem hello_low_sequence_reset:
  assumes "lsd_reach w" "e < length (bbs w)" "bb_hello (bb w e) = Some h" "ni_rt_id (h_neighbor h) \<noteq> 0"
    and "ls_find (bb_az (bb w e)) (link_key e (h_neighbor h) w) w = Some l"
  shows "\<exists>w' d. hello_changed_low e status w = Ok w' \<and> ls_find (bb_az (bb w e)) (link_key e (h_neighbor h) w) w' = Some d \<and>
    ls_seq d = ls_seq l \<and> ls_state d = state_bit 0 status (ls_state l) \<and>
    (\<forall>i \<in> set (az_backbones (zone_of w e)). flooding (bb_flood (bb w i)) \<longrightarrow>
       queued (lsdb_to_lsa_info (l\<lparr>ls_state := ls_state d, ls_seq := ls_seq l + 1\<rparr>)) (bb_flood (bb w' i)))"
proof -
  note inv = good_inv [OF lsd_reach_good [OF assms(1)]]
  let ?z = "bb_az (bb w e)" and ?k = "link_key e (h_neighbor h) w"
  have z: "?z < length (zones w)" using device_id_ok(2) [OF inv assms(2)] .
  have n: "hello_get_neighbor_info e w = Ok (h_neighbor h)" using assms(3) by (simp add: hello_get_neighbor_info_def)
  obtain st where st: "own_link_state e (h_neighbor h) w = Ok st" "ls_key st = ?k" using own_link_state_ok [OF inv assms(2)] by blast
  define s where "s = state_bit 0 status (ls_state l)"
  define l1 where "l1 = l\<lparr>ls_state := s, ls_seq := ls_seq l + 1\<rparr>"
  have k: "ls_key l1 = ?k" "rt_id ?k \<noteq> 0" using ls_find_key [OF inv z assms(5)] by (simp_all add: l1_def)
  obtain w1 where w1: "ls_update ?z l1 w = Ok (NO_ERR, w1)" "keeps w w1" "\<forall>k. ls_find ?z k w1 = (if k = ?k then Some l1 else ls_find ?z k w)"
    "bbs w1 = bbs w" using ls_update_keeps [OF inv z, of l1] assms(5) k by auto
  define w2 where "w2 = flood_lsa_spread (lsdb_to_lsa_info l1) ?z w1"
  have sp: "flood_spread_backbone_link_state e s w = Ok w2"
    using n assms(4,5) w1(1) by (simp add: flood_spread_backbone_link_state_def Let_def l1_def w2_def)
  have k2: "keeps w w2" using spread_keeps [OF w1(2) z, of "lsdb_to_lsa_info l1"] k by (simp add: w2_def lsa_ok_def lsdb_to_lsa_info_def)
  have fz: "ls_find ?z ?k w2 \<noteq> None"
    using flood_spread_backbone_keeps [OF inv assms(2-4), of s] sp by auto
  have z2: "?z < length (zones w2)" using z same_net_len(2) [OF keepsD(2) [OF k2]] by simp
  let ?st = "st\<lparr>ls_seq := ls_seq l, ls_state := s\<rparr>"
  obtain w3 where w3: "ls_update ?z ?st w2 = Ok (NO_ERR, w3)" "\<forall>k. ls_find ?z k w3 = (if k = ?k then Some ?st else ls_find ?z k w2)" "bbs w3 = bbs w2"
    using ls_update_keeps [OF keepsD(1) [OF k2] z2, of ?st] fz st(2) by auto
  have r: "hello_changed_low e status w = Ok w3"
    using n st assms(5) sp w3(1) by (simp add: hello_changed_low_def s_def)
  have "az_backbones (zones w1 ! ?z) = az_backbones (zone_of w e)" using same_net_zone(1) [OF keepsD(2) [OF w1(2)] z] .
  then have "queued (lsdb_to_lsa_info l1) (bb_flood (bb w3 i))" if "i \<in> set (az_backbones (zone_of w e))" "flooding (bb_flood (bb w i))" for i
    using spread_queued [of "az_backbones (zone_of w e)" w1 i "lsdb_to_lsa_info l1"] that zone_backbones [OF inv z] w1(4)
    by (simp add: w3(3) w2_def flood_lsa_spread_def)
  then show ?thesis using r w3(2)
    by (intro exI [of _ w3] exI [of _ ?st]) (simp add: l1_def s_def)
qed

theorem hello_low_sequence_reset_witness:
  "\<exists>h l w' d. bb_hello (bb sample_run 0) = Some h \<and> ls_find 0 (link_key 0 (h_neighbor h) sample_run) sample_run = Some l \<and>
     hello_changed_low 0 LSD_CONNECTED sample_run = Ok w' \<and> ls_find 0 (link_key 0 (h_neighbor h) sample_run) w' = Some d \<and> ls_seq d = ls_seq l"
proof -
  have c: "length (bbs sample_run) = 1 \<and> bb_az (bb sample_run 0) = 0 \<and> map_option (\<lambda>h. ni_rt_id (h_neighbor h)) (bb_hello (bb sample_run 0)) = Some 2 \<and>
      (case bb_hello (bb sample_run 0) of None \<Rightarrow> False | Some h \<Rightarrow> ls_find 0 (link_key 0 (h_neighbor h) sample_run) sample_run \<noteq> None)" by code_simp
  then obtain h l where hl: "bb_hello (bb sample_run 0) = Some h" "ni_rt_id (h_neighbor h) \<noteq> 0"
    "ls_find 0 (link_key 0 (h_neighbor h) sample_run) sample_run = Some l" by (auto simp: map_option_eq_Some)
  then show ?thesis
    using hello_low_sequence_reset [OF sample_run_reach _ hl(1,2), of l LSD_CONNECTED] c by auto
qed

end
