(* ===== verification/Inet.thy ===== *)
theory Inet
  imports Xml "HOL-Library.Code_Target_Nat"
begin

text \<open>
  Internet addresses as the sources use them: an \<^verbatim>\<open>in_addr_t\<close> holds its four octets in memory
  order on a little-endian host, so octet 0 is the low byte of the word.  The theory has the
  functions of the C library that the interface and route components call (\<^verbatim>\<open>inet_ntoa\<close>,
  \<^verbatim>\<open>inet_aton\<close>, \<^verbatim>\<open>inet_pton\<close>, \<^verbatim>\<open>ntohl\<close>, \<^verbatim>\<open>atoi\<close>) and the mask functions of \<^verbatim>\<open>netlink/route.c\<close>,
  \<^verbatim>\<open>router/routertable.c\<close> and \<^verbatim>\<open>router/interface.c\<close>.
\<close>

unbundle bit_operations_syntax

section \<open>Octets\<close>

definition octet :: "nat \<Rightarrow> u32 \<Rightarrow> nat" where
  "octet k w = unat (take_bit 8 (drop_bit (8 * k) w))"

definition of_octets :: "nat \<Rightarrow> nat \<Rightarrow> nat \<Rightarrow> nat \<Rightarrow> u32" where
  "of_octets a b c d = word_of_nat (a + 256 * b + 65536 * c + 16777216 * d)"

definition ntohl :: "u32 \<Rightarrow> u32" where
  "ntohl w = of_octets (octet 3 w) (octet 2 w) (octet 1 w) (octet 0 w)"

definition inet_ntoa :: "u32 \<Rightarrow> string" where
  "inet_ntoa w = dec_nat (octet 0 w) @ ''.'' @ dec_nat (octet 1 w) @ ''.'' @
     dec_nat (octet 2 w) @ ''.'' @ dec_nat (octet 3 w)"

text \<open>\<^verbatim>\<open>atoi\<close> truncates the \<^verbatim>\<open>long\<close> that \<^verbatim>\<open>strtol\<close> reads to an \<^verbatim>\<open>int\<close>.\<close>

definition atoi :: "string \<Rightarrow> int" where
  "atoi s = int_of_u32 (u32_of_int (strtol s))"

section \<open>Reading addresses\<close>

definition is_octal :: "char \<Rightarrow> bool" where
  "is_octal c \<longleftrightarrow> 48 \<le> (of_char c :: nat) \<and> (of_char c :: nat) \<le> 55"

definition hex_val :: "char \<Rightarrow> nat option" where
  "hex_val c =
     (let n = (of_char c :: nat)
      in if 48 \<le> n \<and> n \<le> 57 then Some (n - 48)
         else if 97 \<le> n \<and> n \<le> 102 then Some (n - 87)
         else if 65 \<le> n \<and> n \<le> 70 then Some (n - 55) else None)"

definition base_val :: "nat \<Rightarrow> string \<Rightarrow> nat" where
  "base_val b ds = fold (\<lambda>c acc. acc * b + the (hex_val c)) ds 0"

text \<open>
  One number of \<^verbatim>\<open>inet_aton\<close>, in the base that its prefix gives, with the rest of the text.
\<close>

definition aton_number :: "string \<Rightarrow> (nat \<times> string) option" where
  "aton_number s =
     (if s = [] \<or> \<not> is_digit (hd s) then None
      else if hd s = CHR ''0'' then
        (if tl s \<noteq> [] \<and> hd (tl s) \<in> {CHR ''x'', CHR ''X''} \<and> tl (tl s) \<noteq> [] \<and> hex_val (hd (tl (tl s))) \<noteq> None
         then Some (base_val 16 (takeWhile (\<lambda>c. hex_val c \<noteq> None) (tl (tl s))),
                    dropWhile (\<lambda>c. hex_val c \<noteq> None) (tl (tl s)))
         else Some (base_val 8 (takeWhile is_octal s), dropWhile is_octal s))
      else Some (nat (digits_val (takeWhile is_digit s)), dropWhile is_digit s))"

fun aton_parts :: "nat \<Rightarrow> string \<Rightarrow> (nat list \<times> string) option" where
  "aton_parts 0 s = None"
| "aton_parts (Suc n) s =
     (case aton_number s of
        None \<Rightarrow> None
      | Some (v, r) \<Rightarrow>
          if r \<noteq> [] \<and> hd r = CHR ''.'' then
            (if v > 255 then None
             else map_option (\<lambda>(vs, q). (v # vs, q)) (aton_parts n (tl r)))
          else Some ([v], r))"

text \<open>One to four numbers; the last one fills the remaining octets.\<close>

definition inet_aton :: "string \<Rightarrow> u32 option" where
  "inet_aton s =
     (case aton_parts 4 s of
        None \<Rightarrow> None
      | Some (vs, rest) \<Rightarrow>
          if rest \<noteq> [] \<and> \<not> is_space (hd rest) then None
          else if last vs \<ge> 256 ^ (5 - length vs) then None
          else Some (ntohl (word_of_nat (fold (\<lambda>v acc. acc * 256 + v) (butlast vs) 0 * 256 ^ (5 - length vs) + last vs))))"

text \<open>\<^verbatim>\<open>inet_pton(AF_INET, ...)\<close>: exactly four decimal numbers without leading zeros.\<close>

fun pton_parts :: "nat \<Rightarrow> string \<Rightarrow> nat list option" where
  "pton_parts n s =
     (let ds = takeWhile is_digit s; r = dropWhile is_digit s; v = nat (digits_val ds)
      in if ds = [] \<or> length ds > 1 \<and> hd ds = CHR ''0'' \<or> v > 255 then None
         else if n = 0 then (if r = [] then Some [v] else None)
         else if r \<noteq> [] \<and> hd r = CHR ''.'' then map_option (Cons v) (pton_parts (n - 1) (tl r))
         else None)"

declare pton_parts.simps [simp del]

definition inet_pton :: "string \<Rightarrow> u32 option" where
  "inet_pton s = (case pton_parts 3 s of Some [a, b, c, d] \<Rightarrow> Some (of_octets a b c d) | _ \<Rightarrow> None)"

section \<open>Masks\<close>

text \<open>
  \<^verbatim>\<open>getmask\<close> shifts one bits into the low end of the word and prints it as an address; a length
  outside 0 to 32 gives a null pointer and leaves the buffer alone.
\<close>

fun getmask_loop :: "nat \<Rightarrow> u32 \<Rightarrow> u32" where
  "getmask_loop 0 d = d"
| "getmask_loop (Suc n) d = getmask_loop n (push_bit 1 d OR 1)"

definition getmask :: "int \<Rightarrow> string option" where
  "getmask len = (if len < 0 \<or> len > 32 then None else Some (inet_ntoa (getmask_loop (nat len) 0)))"

text \<open>\<^verbatim>\<open>while (b_mask) { b_mask = b_mask << 1; count++; }\<close>\<close>

function shift_count :: "u32 \<Rightarrow> int \<Rightarrow> int" where
  "shift_count b count = (if b = 0 then count else shift_count (push_bit 1 b) (count + 1))"
  by auto

text \<open>
  A word that is shifted to the left often enough becomes zero: the number of the lowest set bit
  grows until it leaves the word.
\<close>

definition low_zeros :: "u32 \<Rightarrow> nat" where
  "low_zeros b = length (takeWhile (\<lambda>n. \<not> bit b n) [0..<32])"

lemma takeWhile_upt_le:
  assumes "j < n" "P j" "\<forall>i < j. \<not> P i"
  shows "takeWhile (\<lambda>i. \<not> P i) [0..<n] = [0..<j]"
proof -
  have "[0..<n] = [0..<j] @ j # [Suc j..<n]"
    using assms(1) by (metis le0 less_imp_le_nat upt_add_eq_append upt_conv_Cons le_add_diff_inverse)
  moreover have "takeWhile (\<lambda>i. \<not> P i) ([0..<j] @ j # [Suc j..<n]) = [0..<j] @ takeWhile (\<lambda>i. \<not> P i) (j # [Suc j..<n])"
    using assms(3) by (intro takeWhile_append2) simp
  ultimately show ?thesis using assms(2) by simp
qed

lemma low_zeros_least: "bit b j \<Longrightarrow> \<forall>i < j. \<not> bit b i \<Longrightarrow> low_zeros b = j"
  for b :: u32
  using takeWhile_upt_le [of j 32 "bit b"] bit_imp_le_length [of b j] by (simp add: low_zeros_def)

lemma word_nonzero_bit:
  fixes b :: u32
  assumes "b \<noteq> 0"
  obtains j where "j < 32" "bit b j" "\<forall>i < j. \<not> bit b i"
proof -
  from assms obtain n where "bit b n" by (auto simp: bit_eq_iff)
  then have l: "bit b (LEAST n. bit b n)" by (rule LeastI)
  have m: "\<forall>i < (LEAST n. bit b n). \<not> bit b i" using not_less_Least by blast
  from l have "(LEAST n. bit b n) < 32" using bit_imp_le_length [of b "LEAST n. bit b n"] by simp
  then show thesis using that l m by blast
qed

lemma low_zeros_push:
  assumes "b \<noteq> 0" "push_bit 1 b \<noteq> 0"
  shows "low_zeros b < low_zeros (push_bit 1 b)"
proof -
  obtain j where j: "j < 32" "bit b j" "\<forall>i < j. \<not> bit b i" using word_nonzero_bit [OF assms(1)] .
  obtain k where k: "k < 32" "bit (push_bit 1 b) k" "\<forall>i < k. \<not> bit (push_bit 1 b) i"
    using word_nonzero_bit [OF assms(2)] .
  have "bit b (k - 1)" "1 \<le> k" using k(2) [unfolded bit_push_bit_iff] by simp_all
  with j(3) have "j < k" by (metis Suc_pred' le_eq_less_or_eq not_less_eq less_one linorder_not_less zero_less_one)
  with j k show ?thesis by (simp add: low_zeros_least)
qed

lemma low_zeros_lt: "b \<noteq> 0 \<Longrightarrow> low_zeros b < 32"
  using word_nonzero_bit [of b] low_zeros_least by metis

termination shift_count
proof (relation "measure (\<lambda>(b, _). if b = 0 then 0 else 33 - low_zeros b)", simp)
  fix b :: u32 and count :: int
  assume "b \<noteq> 0"
  then show "((push_bit 1 b, count + 1), b, count) \<in> measure (\<lambda>(b, _). if b = 0 then 0 else 33 - low_zeros b)"
    using low_zeros_push [of b] low_zeros_lt [of b] low_zeros_lt [of "push_bit 1 b"] by auto
qed

declare shift_count.simps [simp del]

text \<open>
  \<open>junk\<close> is the value of the uninitialised \<^verbatim>\<open>n_mask\<close>, read when \<^verbatim>\<open>inet_aton\<close> does not accept the text.
\<close>

definition mask_word :: "u32 \<Rightarrow> string \<Rightarrow> u32" where
  "mask_word junk s = (case inet_aton s of Some w \<Rightarrow> w | None \<Rightarrow> junk)"

definition get_prefix_length :: "u32 \<Rightarrow> string \<Rightarrow> int" where
  "get_prefix_length junk m =
     (if m = [] then 0
      else (let w = mask_word junk m;
                b = (if hd m = CHR ''0'' then ntohl w else w)
            in 32 - shift_count (NOT b) 0))"

text \<open>The netmask of a length: the leading bits of the address, octet by octet.\<close>

definition netmask :: "nat \<Rightarrow> u32" where
  "netmask n = ntohl (push_bit (32 - n) (getmask_loop n 0))"

definition get_prefix_len :: "u32 \<Rightarrow> string \<Rightarrow> int" where
  "get_prefix_len junk m =
     (if m = [] then 0 else 32 - shift_count (NOT (mask_word junk m)) 0)"

section \<open>Text and word\<close>

lemma octet_alt: "octet k w = unat w div 2 ^ (8 * k) mod 256"
proof -
  have "octet k w = take_bit 8 (drop_bit (8 * k) (unat w))"
    by (simp only: octet_def unsigned_take_bit_eq unat_drop_bit_eq)
  then show ?thesis by (simp add: take_bit_eq_mod drop_bit_eq_div)
qed

lemma octet_lt [simp]: "octet k w < 256"
  by (simp add: octet_alt)

lemma base256: "a < 256 \<Longrightarrow> (a + 256 * x) mod 256 = a \<and> (a + 256 * x) div 256 = x"
  for a x :: nat
  by simp

lemma div_65536: "n div 65536 = n div 256 div 256" and div_16777216: "n div 16777216 = n div 256 div 256 div 256"
  for n :: nat
  by (simp_all add: div_mult2_eq [symmetric])

lemma octets_sum: "octet 0 w + 256 * octet 1 w + 65536 * octet 2 w + 16777216 * octet 3 w = unat w"
proof -
  define n where "n = unat w"
  have "n < 256 * (256 * (256 * 256))" using unsigned_less [of w] by (simp add: n_def)
  then have n4: "n div 256 div 256 div 256 < 256" by (simp add: div_less_iff_less_mult)
  have "n = n mod 256 + 256 * (n div 256 mod 256 + 256 * (n div 256 div 256 mod 256 + 256 * (n div 256 div 256 div 256)))"
    by (simp only: mod_mult_div_eq)
  also have "\<dots> = n mod 256 + 256 * (n div 256 mod 256) + 65536 * (n div 256 div 256 mod 256) + 16777216 * (n div 256 div 256 div 256)"
    by (simp only: distrib_left mult.assoc [symmetric] add.assoc mult_numeral_left_semiring_numeral)
  finally show ?thesis
    using n4 by (simp add: octet_alt n_def [symmetric] div_65536 div_16777216)
qed

lemma of_octets_octet: "of_octets (octet 0 w) (octet 1 w) (octet 2 w) (octet 3 w) = w"
  unfolding of_octets_def octets_sum by simp

lemma unat_of_octets:
  assumes "a < 256" "b < 256" "c < 256" "d < 256"
  shows "unat (of_octets a b c d) = a + 256 * (b + 256 * (c + 256 * d))"
proof -
  have "a + 256 * b + 65536 * c + 16777216 * d < 2 ^ 32" using assms by simp
  then have "unat (of_octets a b c d) = a + 256 * b + 65536 * c + 16777216 * d"
    unfolding of_octets_def unsigned_of_nat by (simp add: take_bit_nat_eq_self)
  then show ?thesis by simp
qed

lemma octet_of_octets:
  assumes "a < 256" "b < 256" "c < 256" "d < 256"
  shows "octet 0 (of_octets a b c d) = a" "octet 1 (of_octets a b c d) = b"
    "octet 2 (of_octets a b c d) = c" "octet 3 (of_octets a b c d) = d"
proof -
  define n where "n = unat (of_octets a b c d)"
  have n: "n = a + 256 * (b + 256 * (c + 256 * d))" using unat_of_octets [OF assms] n_def by simp
  have n0: "n mod 256 = a" "n div 256 = b + 256 * (c + 256 * d)" using base256 [OF assms(1)] n by metis+
  have n1: "n div 256 mod 256 = b" "n div 256 div 256 = c + 256 * d" using base256 [OF assms(2)] n0 by metis+
  have n2: "n div 256 div 256 mod 256 = c" "n div 256 div 256 div 256 mod 256 = d"
    using base256 [OF assms(3)] assms(4) n1 mod_less by metis+
  show "octet 0 (of_octets a b c d) = a" "octet 1 (of_octets a b c d) = b"
    "octet 2 (of_octets a b c d) = c" "octet 3 (of_octets a b c d) = d"
    using n0(1) n1(1) n2 by (simp_all add: octet_alt n_def [symmetric] div_65536 div_16777216)
qed

lemma ntohl_of_octets:
  assumes "a < 256" "b < 256" "c < 256" "d < 256"
  shows "ntohl (of_octets a b c d) = of_octets d c b a"
  unfolding ntohl_def octet_of_octets [OF assms] ..

lemma ntohl_ntohl [simp]: "ntohl (ntohl w) = w"
proof -
  have "ntohl (ntohl w) = of_octets (octet 0 w) (octet 1 w) (octet 2 w) (octet 3 w)"
    unfolding ntohl_def by (subst ntohl_of_octets [unfolded ntohl_def]) simp_all
  then show ?thesis by (simp only: of_octets_octet)
qed

lemma dec_nat_head: "0 < n \<Longrightarrow> hd (dec_nat n) \<noteq> CHR ''0''"
proof (induction n rule: dec_nat.induct)
  case (1 n)
  show ?case
  proof (cases "n < 10")
    case True
    then have "dec_nat n = [dec_digit n]" by (simp add: dec_nat.simps)
    moreover have "of_char (dec_digit n) \<noteq> (of_char (CHR ''0'') :: nat)"
      using True 1(2) by (simp add: of_char_dec_digit)
    ultimately show ?thesis by auto
  next
    case False
    then have "dec_nat n = dec_nat (n div 10) @ [dec_digit (n mod 10)]" by (subst dec_nat.simps) simp
    with 1(1) [OF False] False show ?thesis by (simp add: dec_nat_not_Nil)
  qed
qed

lemma dec_nat_zero: "dec_nat 0 = ''0''"
proof -
  have "char_of (48 :: nat) = CHR ''0''" by code_simp
  then show ?thesis by (simp add: dec_nat.simps dec_digit_def)
qed

lemma dec_nat_stop:
  assumes "r = [] \<or> hd r = CHR ''.''"
  shows "takeWhile is_digit (dec_nat n @ r) = dec_nat n" "dropWhile is_digit (dec_nat n @ r) = r"
proof -
  have d: "\<forall>c \<in> set (dec_nat n). is_digit c" using digits_val_dec_nat by blast
  have r: "takeWhile is_digit r = []" "dropWhile is_digit r = r"
    using assms by (cases r; simp add: is_digit_def)+
  show "takeWhile is_digit (dec_nat n @ r) = dec_nat n" "dropWhile is_digit (dec_nat n @ r) = r"
    using d r by simp_all
qed

lemma aton_number_dec:
  assumes "r = [] \<or> hd r = CHR ''.''"
  shows "aton_number (dec_nat n @ r) = Some (n, r)"
proof (cases "n = 0")
  case True
  have "takeWhile is_octal r = []" "dropWhile is_octal r = r" "\<not> (r \<noteq> [] \<and> hd r \<in> {CHR ''x'', CHR ''X''})"
    using assms by (cases r; simp add: is_octal_def)+
  with True show ?thesis
    by (auto simp: aton_number_def dec_nat_zero is_digit_def is_octal_def base_val_def hex_val_def)
next
  case False
  have "hd (dec_nat n) \<in> set (dec_nat n)" by (simp add: dec_nat_not_Nil)
  then have "is_digit (hd (dec_nat n @ r))"
    using digits_val_dec_nat [of n] by (simp add: dec_nat_not_Nil)
  moreover have "hd (dec_nat n @ r) \<noteq> CHR ''0''"
    using False dec_nat_head [of n] by (simp add: dec_nat_not_Nil)
  ultimately show ?thesis
    using digits_val_dec_nat [of n]
    by (simp add: aton_number_def dec_nat_not_Nil dec_nat_stop [OF assms])
qed

lemmas aton_number_dot = aton_number_dec [of "CHR ''.'' # q" for q, simplified]
lemmas aton_number_end = aton_number_dec [of "[]", simplified]

lemma aton_parts_ntoa:
  "aton_parts 4 (inet_ntoa w) = Some ([octet 0 w, octet 1 w, octet 2 w, octet 3 w], [])"
proof -
  have "\<not> 255 < octet k w" for k using octet_lt [of k w] by linarith
  then show ?thesis
    by (simp add: inet_ntoa_def numeral_eq_Suc aton_number_dot aton_number_end)
qed

lemma inet_aton_ntoa [simp]: "inet_aton (inet_ntoa w) = Some w"
proof -
  have "ntohl (of_octets (octet 3 w) (octet 2 w) (octet 1 w) (octet 0 w)) = w"
    by (simp only: ntohl_of_octets octet_lt of_octets_octet)
  moreover have "\<not> 256 \<le> octet 3 w" using octet_lt [of 3 w] by linarith
  ultimately show ?thesis
    by (simp add: inet_aton_def aton_parts_ntoa of_octets_def algebra_simps)
qed

lemma pton_parts_dec:
  assumes "v < 256"
  shows "pton_parts 0 (dec_nat v) = Some [v]"
    "pton_parts (Suc n) (dec_nat v @ CHR ''.'' # r) = map_option (Cons v) (pton_parts n r)"
proof -
  have h: "\<not> (length (dec_nat v) > 1 \<and> hd (dec_nat v) = CHR ''0'')"
    using dec_nat_head [of v] by (cases "v = 0") (auto simp: dec_nat_zero)
  have v: "nat (digits_val (dec_nat v)) = v" using digits_val_dec_nat [of v] by simp
  show "pton_parts 0 (dec_nat v) = Some [v]"
    using assms h v
    by (subst pton_parts.simps) (auto simp: Let_def dec_nat_not_Nil dec_nat_stop [of "[]" v, unfolded append_Nil2])
  show "pton_parts (Suc n) (dec_nat v @ CHR ''.'' # r) = map_option (Cons v) (pton_parts n r)"
    using assms h v dec_nat_stop [of "CHR ''.'' # r" v]
    by (subst pton_parts.simps) (auto simp: Let_def dec_nat_not_Nil)
qed

lemma inet_pton_ntoa [simp]: "inet_pton (inet_ntoa w) = Some w"
proof -
  have "pton_parts (Suc (Suc (Suc 0))) (inet_ntoa w) = Some [octet 0 w, octet 1 w, octet 2 w, octet 3 w]"
    by (simp add: inet_ntoa_def pton_parts_dec)
  then show ?thesis using of_octets_octet [of w] by (simp add: inet_pton_def numeral_eq_Suc)
qed

lemma inet_ntoa_not_Nil [simp]: "inet_ntoa w \<noteq> []"
  by (simp add: inet_ntoa_def)

lemma hd_inet_ntoa: "hd (inet_ntoa w) = CHR ''0'' \<longleftrightarrow> octet 0 w = 0"
  using dec_nat_head [of "octet 0 w"]
  by (cases "octet 0 w = 0") (auto simp: inet_ntoa_def dec_nat_not_Nil dec_nat_zero)

lemma length_inet_ntoa: "length (inet_ntoa w) \<le> 15"
proof -
  have "octet k w < 10 ^ Suc 2" for k using octet_lt [of k w] by (rule less_trans) simp
  then have "length (dec_nat (octet k w)) \<le> 3" for k using length_dec_nat [of "octet k w" 2] by simp
  from add_mono [OF add_mono [OF this [of 0] this [of 1]] add_mono [OF this [of 2] this [of 3]]]
  show ?thesis by (simp add: inet_ntoa_def)
qed

section \<open>Mask lengths\<close>

lemma shift_count_low_zeros: "b \<noteq> 0 \<Longrightarrow> shift_count b c = c + 32 - int (low_zeros b)"
proof (induction b c rule: shift_count.induct)
  case (1 b c)
  obtain j where j: "j < 32" "bit b j" "\<forall>i < j. \<not> bit b i" using word_nonzero_bit [OF 1(2)] .
  have eq: "shift_count b c = shift_count (push_bit 1 b) (c + 1)" using 1(2) by (subst shift_count.simps) simp
  show ?case
  proof (cases "push_bit 1 b = 0")
    case True
    have "\<not> j < 31"
    proof
      assume "j < 31"
      with j(2) have "bit (push_bit 1 b) (Suc j)" by (simp only: bit_push_bit_iff) simp
      with True show False by simp
    qed
    with j have "low_zeros b = 31" using low_zeros_least [of b j] by simp
    moreover have "shift_count (push_bit 1 b) (c + 1) = c + 1" unfolding True by (simp add: shift_count.simps)
    ultimately show ?thesis using eq by simp
  next
    case False
    then obtain k where k: "k < 32" "bit (push_bit 1 b) k" "\<forall>i < k. \<not> bit (push_bit 1 b) i"
      using word_nonzero_bit by blast
    then have "bit b (k - 1)" "1 \<le> k" using k(2) [unfolded bit_push_bit_iff] by simp_all
    moreover have "\<not> bit b i" if "i < k - 1" for i
    proof -
      have "\<not> bit (push_bit 1 b) (Suc i)" "Suc i < 32" using k that by auto
      then show ?thesis by (simp only: bit_push_bit_iff) simp
    qed
    ultimately have "low_zeros b = k - 1" by (simp add: low_zeros_least)
    moreover have "low_zeros (push_bit 1 b) = k" using k by (simp add: low_zeros_least)
    ultimately show ?thesis using eq 1(1) [OF 1(2) False] \<open>1 \<le> k\<close> by simp
  qed
qed

text \<open>The length that the shift loop finds is the number of one bits at the low end of the word.\<close>

lemma shift_count_low_ones:
  assumes "n \<le> 32" "\<forall>i < n. bit w i" "n < 32 \<longrightarrow> \<not> bit w n"
  shows "32 - shift_count (NOT w) 0 = int n"
proof (cases "n < 32")
  case True
  then have b: "bit (NOT w) n" "\<forall>i < n. \<not> bit (NOT w) i" using assms by (auto simp: bit_not_iff)
  then have "NOT w \<noteq> 0" by auto
  with b show ?thesis by (simp add: shift_count_low_zeros low_zeros_least)
next
  case False
  with assms have n: "n = 32" "\<forall>i < 32. bit w i" by auto
  have "NOT w = 0"
  proof (rule bit_word_eqI)
    fix i assume "i < LENGTH(32)"
    with n(2) show "bit (NOT w) i \<longleftrightarrow> bit (0 :: u32) i" by (simp add: bit_not_iff)
  qed
  with n(1) show ?thesis by (simp add: shift_count.simps)
qed

lemma getmask_loop_bits: "bit (getmask_loop n d) i \<longleftrightarrow> i < 32 \<and> (i < n \<or> bit d (i - n))"
proof (induction n arbitrary: d)
  case 0
  then show ?case using bit_imp_le_length [of d i] by auto
next
  case (Suc n)
  have step: "bit (push_bit 1 d OR 1) k \<longleftrightarrow> k = 0 \<or> k < 32 \<and> bit d (k - 1)" for k
    by (cases k) (auto simp only: bit_or_iff bit_push_bit_iff bit_1_iff len_bit0 len_num1; simp)+
  have "bit (getmask_loop (Suc n) d) i \<longleftrightarrow> i < 32 \<and> (i < n \<or> i - n = 0 \<or> i - n < 32 \<and> bit d (i - n - 1))"
    by (simp only: getmask_loop.simps Suc step)
  also have "\<dots> \<longleftrightarrow> i < 32 \<and> (i < Suc n \<or> bit d (i - Suc n))" by auto
  finally show ?case .
qed

lemma getmask_bits: "bit (getmask_loop n 0) i \<longleftrightarrow> i < 32 \<and> i < n"
  by (simp add: getmask_loop_bits)

lemma low_ones_octet0: "bit w 0 \<Longrightarrow> octet 0 w \<noteq> 0"
proof
  assume w: "bit w 0" "octet 0 w = 0"
  then have "take_bit 8 w = 0" by (simp add: octet_def unsigned_eq_0_iff)
  moreover have "bit (take_bit 8 w) 0" using w(1) by (simp add: bit_take_bit_iff)
  ultimately show False by simp
qed

lemma bit_octet: "j < 8 \<Longrightarrow> bit (octet k w) j \<longleftrightarrow> bit w (8 * k + j)"
  by (auto simp: octet_def bit_unsigned_iff bit_take_bit_iff bit_drop_bit_eq dest: bit_imp_le_length)

lemma octet_ntohl: "k < 4 \<Longrightarrow> octet k (ntohl w) = octet (3 - k) w"
proof -
  assume "k < 4"
  then consider "k = 0" | "k = 1" | "k = 2" | "k = 3" by linarith
  then show ?thesis by cases (simp_all only: ntohl_def octet_of_octets octet_lt, simp_all)
qed

lemma bit_netmask:
  assumes "n \<le> 32" "k < 4" "j < 8"
  shows "bit (netmask n) (8 * k + j) \<longleftrightarrow> 8 * Suc k \<le> n + j"
proof -
  let ?v = "push_bit (32 - n) (getmask_loop n 0)"
  have "bit (netmask n) (8 * k + j) \<longleftrightarrow> bit (octet k (netmask n)) j" using assms(3) by (simp add: bit_octet)
  also have "\<dots> \<longleftrightarrow> bit (octet (3 - k) ?v) j" unfolding netmask_def octet_ntohl [OF assms(2)] ..
  also have "\<dots> \<longleftrightarrow> bit ?v (8 * (3 - k) + j)" using assms(3) by (simp add: bit_octet)
  also have "\<dots> \<longleftrightarrow> 8 * Suc k \<le> n + j"
    using assms by (simp only: bit_push_bit_iff getmask_bits) auto
  finally show ?thesis .
qed

lemma netmask_shift_count:
  assumes "n \<le> 32"
  shows "32 - shift_count (NOT (netmask n)) 0 = int (8 * (n div 8))"
proof (rule shift_count_low_ones)
  show "8 * (n div 8) \<le> 32" using assms by linarith
  show "\<forall>i < 8 * (n div 8). bit (netmask n) i"
  proof (intro allI impI)
    fix i assume i: "i < 8 * (n div 8)"
    then have "i div 8 < n div 8" by (simp add: div_less_iff_less_mult mult.commute)
    then have "8 * Suc (i div 8) \<le> 8 * (n div 8)" by simp
    also have "\<dots> \<le> n" by simp
    finally have le: "8 * Suc (i div 8) \<le> n" .
    then have "i div 8 < 4" using assms by simp
    moreover have "8 * Suc (i div 8) \<le> n + i mod 8" using le by (rule trans_le_add1)
    ultimately have "bit (netmask n) (8 * (i div 8) + i mod 8)" by (simp only: bit_netmask [OF assms] mod_less_divisor zero_less_numeral)
    then show "bit (netmask n) i" by simp
  qed
  show "8 * (n div 8) < 32 \<longrightarrow> \<not> bit (netmask n) (8 * (n div 8))"
  proof
    assume "8 * (n div 8) < 32"
    then have "\<not> bit (netmask n) (8 * (n div 8) + 0)" by (subst bit_netmask [OF assms]) auto
    then show "\<not> bit (netmask n) (8 * (n div 8))" by simp
  qed
qed

lemma netmask_octet0:
  assumes "0 < n" "n \<le> 32"
  shows "octet 0 (netmask n) \<noteq> 0"
proof
  assume "octet 0 (netmask n) = 0"
  then have "\<not> bit (netmask n) (8 * 0 + 7)" using bit_octet [of 7 0 "netmask n"] by simp
  with bit_netmask [OF assms(2), of 0 7] assms(1) show False by simp
qed

text \<open>
  C34. For every length from 0 to 32 \<^verbatim>\<open>getmask\<close> writes a text of at most 15 characters, and
  \<^verbatim>\<open>get_prefix_length\<close> (and \<^verbatim>\<open>get_prefix_len\<close>) read the length back from it.
\<close>

theorem getmask_prefix_length:
  assumes "0 \<le> n" "n \<le> 32"
  shows "\<exists>m. getmask n = Some m \<and> length m \<le> 15 \<and>
    get_prefix_length junk m = n \<and> get_prefix_len junk m = n"
proof (intro exI conjI)
  let ?w = "getmask_loop (nat n) 0"
  show "getmask n = Some (inet_ntoa ?w)" using assms by (simp add: getmask_def)
  show "length (inet_ntoa ?w) \<le> 15" by (rule length_inet_ntoa)
  have s: "32 - shift_count (NOT ?w) 0 = n"
    using shift_count_low_ones [of "nat n" ?w] assms by (simp add: getmask_bits)
  then show "get_prefix_len junk (inet_ntoa ?w) = n" by (simp add: get_prefix_len_def mask_word_def)
  show "get_prefix_length junk (inet_ntoa ?w) = n"
  proof (cases "n = 0")
    case True
    have "octet 0 0 = 0" "ntohl 0 = 0" by code_simp+
    with True s show ?thesis by (simp add: get_prefix_length_def mask_word_def hd_inet_ntoa)
  next
    case False
    then have "octet 0 ?w \<noteq> 0" using assms by (intro low_ones_octet0) (simp add: getmask_bits)
    with s show ?thesis by (simp add: get_prefix_length_def mask_word_def hd_inet_ntoa)
  qed
qed

theorem getmask_prefix_length_witness:
  "\<exists>m. getmask 25 = Some m \<and> length m \<le> 15 \<and> get_prefix_length 0 m = 25 \<and> get_prefix_len 0 m = 25"
  by (rule getmask_prefix_length) simp_all

text \<open>
  Both functions work on the word in memory order, so they are right for lengths that are
  multiples of eight only: from the usual netmask of a length, \<^verbatim>\<open>get_prefix_length\<close> and
  \<^verbatim>\<open>get_prefix_len\<close> find the length rounded down to a multiple of eight.
\<close>

theorem netmask_length_rounded:
  assumes "n \<le> 32"
  shows "get_prefix_length junk (inet_ntoa (netmask n)) = int (8 * (n div 8)) \<and>
    get_prefix_len junk (inet_ntoa (netmask n)) = int (8 * (n div 8))"
proof -
  have n: "32 - shift_count (NOT (netmask n)) 0 = int (8 * (n div 8))" "n \<noteq> 0 \<longrightarrow> octet 0 (netmask n) \<noteq> 0"
    using netmask_shift_count [OF assms] netmask_octet0 [OF _ assms] by simp_all
  have z: "netmask 0 = 0" "ntohl 0 = 0" by code_simp+
  show ?thesis
    using n z by (cases "n = 0") (simp_all add: get_prefix_length_def get_prefix_len_def mask_word_def hd_inet_ntoa)
qed

theorem netmask_length_rounded_witness:
  "get_prefix_length 0 (inet_ntoa (netmask 25)) = 24 \<and> get_prefix_len 0 (inet_ntoa (netmask 25)) = 24"
  using netmask_length_rounded [of 25 0] by simp

lemma netmask_25_texts:
  "inet_ntoa (netmask 25) = ''255.255.255.128'' \<and> getmask 25 = Some ''255.255.255.1''"
  by code_simp

end
