(* ===== verification/Bytes.thy ===== *)
theory Bytes
  imports Inet
begin

text \<open>
  Memory as a list of bytes, a pointer into it as an offset: little-endian reads, which fault outside the memory,
  the encodings that they read back, and the statement that a sequence of bytes stands at a place.
\<close>

section \<open>Memory\<close>

type_synonym bytes = "u8 list"

definition rd8 :: "bytes \<Rightarrow> nat \<Rightarrow> nat res" where
  "rd8 buf p = (if p < length buf then Ok (unat (buf ! p)) else Err OutOfBounds)"

definition rd16 :: "bytes \<Rightarrow> nat \<Rightarrow> nat res" where
  "rd16 buf p = (if p + 2 \<le> length buf then Ok (unat (buf ! p) + 256 * unat (buf ! (p + 1))) else Err OutOfBounds)"

definition rd32 :: "bytes \<Rightarrow> nat \<Rightarrow> u32 res" where
  "rd32 buf p =
     (if p + 4 \<le> length buf
      then Ok (of_octets (unat (buf ! p)) (unat (buf ! (p + 1))) (unat (buf ! (p + 2))) (unat (buf ! (p + 3))))
      else Err OutOfBounds)"

section \<open>Encoding\<close>

definition enc16 :: "nat \<Rightarrow> bytes" where
  "enc16 n = [word_of_nat n, word_of_nat (n div 256)]"

definition enc32 :: "u32 \<Rightarrow> bytes" where
  "enc32 w = [word_of_nat (octet 0 w), word_of_nat (octet 1 w), word_of_nat (octet 2 w), word_of_nat (octet 3 w)]"

text \<open>The bytes \<open>bs\<close> stand at place \<open>p\<close> of the buffer.\<close>

definition bytes_at :: "bytes \<Rightarrow> nat \<Rightarrow> bytes \<Rightarrow> bool" where
  "bytes_at buf p bs \<longleftrightarrow> p + length bs \<le> length buf \<and> (\<forall>i < length bs. buf ! (p + i) = bs ! i)"

lemma bytes_at_append:
  "bytes_at buf p (as @ bs) \<longleftrightarrow> bytes_at buf p as \<and> bytes_at buf (p + length as) bs"
proof
  assume a: "bytes_at buf p (as @ bs)"
  then have e: "buf ! (p + i) = (as @ bs) ! i" if "i < length as + length bs" for i
    using that by (simp add: bytes_at_def)
  have "buf ! (p + i) = as ! i" if "i < length as" for i using e [of i] that by (simp add: nth_append)
  moreover have "buf ! (p + length as + i) = bs ! i" if "i < length bs" for i
    using e [of "length as + i"] that by (simp add: add.assoc)
  ultimately show "bytes_at buf p as \<and> bytes_at buf (p + length as) bs" using a by (simp add: bytes_at_def)
next
  assume a: "bytes_at buf p as \<and> bytes_at buf (p + length as) bs"
  have "buf ! (p + i) = (as @ bs) ! i" if "i < length as + length bs" for i
  proof (cases "i < length as")
    case True
    with a show ?thesis by (simp add: bytes_at_def nth_append)
  next
    case False
    then obtain j where "i = length as + j" by (metis le_Suc_ex linorder_not_less)
    with a that show ?thesis by (simp add: bytes_at_def add.assoc)
  qed
  with a show "bytes_at buf p (as @ bs)" by (simp add: bytes_at_def)
qed

lemma length_enc [simp]: "length (enc16 n) = 2" "length (enc32 w) = 4"
  by (simp_all add: enc16_def enc32_def)

lemma unat_byte: "n < 256 \<Longrightarrow> unat (word_of_nat n :: u8) = n"
  by (simp add: unsigned_of_nat take_bit_nat_eq_self)

lemma rd16_at: "n < 65536 \<Longrightarrow> bytes_at buf p (enc16 n) \<Longrightarrow> rd16 buf p = Ok n"
proof -
  assume n: "n < 65536" and a: "bytes_at buf p (enc16 n)"
  then have e: "buf ! (p + i) = enc16 n ! i" "p + 2 \<le> length buf" if "i < 2" for i using that by (auto simp: bytes_at_def)
  have b: "buf ! p = word_of_nat n" "buf ! (p + 1) = word_of_nat (n div 256)" "p + 2 \<le> length buf"
    using e(1) [of 0] e(1) [of 1] e(2) [of 0] by (simp_all add: enc16_def)
  have "unat (word_of_nat n :: u8) = n mod 256" by (simp add: unsigned_of_nat take_bit_eq_mod)
  moreover have "unat (word_of_nat (n div 256) :: u8) = n div 256" using n by (intro unat_byte) simp
  ultimately show ?thesis using b by (simp add: rd16_def)
qed

lemma rd32_at: "bytes_at buf p (enc32 w) \<Longrightarrow> rd32 buf p = Ok w"
proof -
  assume a: "bytes_at buf p (enc32 w)"
  then have b: "buf ! (p + i) = enc32 w ! i" "p + 4 \<le> length buf" if "i < 4" for i using that by (auto simp: bytes_at_def)
  have "buf ! p = word_of_nat (octet 0 w)" "buf ! (p + 1) = word_of_nat (octet 1 w)"
    "buf ! (p + 2) = word_of_nat (octet 2 w)" "buf ! (p + 3) = word_of_nat (octet 3 w)"
    using b(1) [of 0] b(1) [of 1] b(1) [of 2] b(1) [of 3] by (simp_all add: enc32_def)
  with b(2) [of 0] show ?thesis by (simp only: rd32_def unat_byte octet_lt of_octets_octet) simp
qed

lemma rd8_at: "bytes_at buf p (b # bs) \<Longrightarrow> rd8 buf p = Ok (unat b)"
  by (auto simp: bytes_at_def rd8_def)

lemmas read_at = rd8_at rd16_at rd32_at

lemma bytes_at_take_drop: "p + length bs \<le> length buf \<Longrightarrow> bytes_at buf p bs \<longleftrightarrow> take (length bs) (drop p buf) = bs"
  by (auto simp: bytes_at_def list_eq_iff_nth_eq)

section \<open>Writing\<close>

text \<open>\<^verbatim>\<open>memcpy\<close> to place \<open>p\<close>; outside the memory it faults.\<close>

definition wr_bytes :: "bytes \<Rightarrow> nat \<Rightarrow> bytes \<Rightarrow> bytes res" where
  "wr_bytes buf p bs = (if p + length bs \<le> length buf then Ok (take p buf @ bs @ drop (p + length bs) buf) else Err OutOfBounds)"

lemma length_wr_bytes: "wr_bytes buf p bs = Ok buf' \<Longrightarrow> length buf' = length buf"
  by (auto simp: wr_bytes_def split: if_splits)

lemma wr_bytes_nth:
  "wr_bytes buf p bs = Ok buf' \<Longrightarrow> i < length buf \<Longrightarrow>
    buf' ! i = (if p \<le> i \<and> i < p + length bs then bs ! (i - p) else buf ! i)"
  by (auto simp: wr_bytes_def nth_append min_def split: if_splits)

lemma bytes_at_written: "wr_bytes buf p bs = Ok buf' \<Longrightarrow> bytes_at buf' p bs"
  using length_wr_bytes [of buf p bs buf'] wr_bytes_nth [of buf p bs buf']
  by (auto simp: bytes_at_def wr_bytes_def split: if_splits)

lemma bytes_at_kept:
  assumes "wr_bytes buf p bs = Ok buf'" "bytes_at buf q cs" "q + length cs \<le> p \<or> p + length bs \<le> q"
  shows "bytes_at buf' q cs"
  using assms(2,3) length_wr_bytes [OF assms(1)] wr_bytes_nth [OF assms(1)] by (auto simp: bytes_at_def)

text \<open>\<^verbatim>\<open>strlen\<close> of the string at place \<open>p\<close>: without a zero byte up to the end of the memory it reads outside.\<close>

definition c_strlen :: "bytes \<Rightarrow> nat \<Rightarrow> nat res" where
  "c_strlen buf p = (case find_index (\<lambda>b. b = 0) (drop p buf) of None \<Rightarrow> Err OutOfBounds | Some n \<Rightarrow> Ok n)"

lemma c_strlen_at: "0 \<notin> set s \<Longrightarrow> length as = p \<Longrightarrow> c_strlen (as @ s @ 0 # bs) p = Ok (length s)"
proof -
  assume "0 \<notin> set s" "length as = p"
  moreover have "0 \<notin> set s \<Longrightarrow> find_index (\<lambda>b. b = 0) (s @ 0 # bs) = Some (length s)" by (induction s) auto
  ultimately show ?thesis by (simp add: c_strlen_def)
qed

end
