(* ===== verification/Netlink.thy ===== *)
theory Netlink
  imports Bytes
begin

text \<open>
  Reading messages of the kernel's netlink socket (\<^verbatim>\<open>netlink/netlink.c\<close>), at the level of bytes: the receive buffer is a
  list of bytes, a pointer into it an offset, and a read outside it a fault.  The accessor macros of
  \<^verbatim>\<open>linux/netlink.h\<close> and \<^verbatim>\<open>linux/rtnetlink.h\<close> are written out.  The datagrams that \<^verbatim>\<open>recvmsg\<close> returns one after the
  other are a list.
\<close>

lemma res_bind_cong [fundef_cong]:
  "r = r' \<Longrightarrow> (\<And>a. r' = Ok a \<Longrightarrow> f a = g a) \<Longrightarrow> res_bind r f = res_bind r' g"
  by (cases r') auto

section \<open>Attributes\<close>

text \<open>\<^verbatim>\<open>RTA_ALIGN\<close> and \<^verbatim>\<open>NLMSG_ALIGN\<close> round up to a multiple of four.\<close>

definition RTA_ALIGN :: "nat \<Rightarrow> nat" where
  "RTA_ALIGN n = (n + 3) div 4 * 4"

lemma RTA_ALIGN_ge: "n \<le> RTA_ALIGN n" "RTA_ALIGN n < n + 4"
  unfolding RTA_ALIGN_def by linarith+

lemma RTA_ALIGN_dvd: "4 dvd n \<Longrightarrow> RTA_ALIGN n = n"
  by (auto simp: RTA_ALIGN_def elim!: dvdE)

text \<open>
  The table maps the type of an attribute to its place.  \<open>len\<close> is an \<^verbatim>\<open>int\<close>: after the last attribute it can be
  negative.
\<close>

function netlink_parse_rtattr ::
  "bytes \<Rightarrow> nat \<Rightarrow> nat \<Rightarrow> int \<Rightarrow> (nat \<Rightarrow> nat option) \<Rightarrow> (nat \<Rightarrow> nat option) res" where
  "netlink_parse_rtattr buf mx p len tb =
     (if len < 4 then Ok tb
      else res_bind (rd16 buf p) (\<lambda>rta_len.
        if rta_len < 4 \<or> int rta_len > len then Ok tb
        else res_bind (rd16 buf (p + 2)) (\<lambda>rta_type.
          netlink_parse_rtattr buf mx (p + RTA_ALIGN rta_len) (len - int (RTA_ALIGN rta_len))
            (if rta_type \<le> mx then tb(rta_type \<mapsto> p) else tb))))"
  by auto

termination netlink_parse_rtattr
proof (relation "measure (\<lambda>(buf, mx, p, len, tb). nat len)", simp)
  fix buf :: bytes and mx p :: nat and len :: int and tb :: "nat \<Rightarrow> nat option" and rta_len rta_type :: nat
  assume "\<not> len < 4" "\<not> (rta_len < 4 \<or> len < int rta_len)"
  with RTA_ALIGN_ge(1) [of rta_len]
  show "((buf, mx, p + RTA_ALIGN rta_len, len - int (RTA_ALIGN rta_len), if rta_type \<le> mx then tb(rta_type \<mapsto> p) else tb),
      buf, mx, p, len, tb) \<in> measure (\<lambda>(buf, mx, p, len, tb). nat len)" by simp
qed

declare netlink_parse_rtattr.simps [simp del]

section \<open>Messages\<close>

definition NL_PKT_BUF_SIZE :: nat where "NL_PKT_BUF_SIZE = 4096"
definition NLMSG_ERROR :: nat where "NLMSG_ERROR = 2"
definition NLMSG_DONE :: nat where "NLMSG_DONE = 3"
definition NLM_F_MULTI :: nat where "NLM_F_MULTI = 2"
definition RTM_NEWROUTE :: nat where "RTM_NEWROUTE = 24"
definition RTM_DELROUTE :: nat where "RTM_DELROUTE = 25"
definition ENODEV :: int where "ENODEV = 19"
definition ESRCH :: int where "ESRCH = 3"
definition EEXIST :: int where "EEXIST = 17"
definition EINTR :: int where "EINTR = 4"
definition EAGAIN :: int where "EAGAIN = 11"

text \<open>\<^verbatim>\<open>NLMSG_ALIGN\<close> on the unsigned length of a message.\<close>

definition NLMSG_ALIGN :: "u32 \<Rightarrow> u32" where
  "NLMSG_ALIGN l = drop_bit 2 (l + 3) * 4"

text \<open>
  \<^verbatim>\<open>NLMSG_OK (h, (unsigned int) status)\<close>: the length of the message is read only when a header is left.  The
  remaining length is compared as an unsigned number.
\<close>

definition NLMSG_OK :: "bytes \<Rightarrow> nat \<Rightarrow> u32 \<Rightarrow> bool res" where
  "NLMSG_OK buf h status =
     (if status < 16 then Ok False
      else res_map (\<lambda>nlmsg_len. 16 \<le> nlmsg_len \<and> nlmsg_len \<le> status) (rd32 buf h))"

text \<open>
  What the loop over the messages of one datagram does: return from the function, or leave the loop with the
  length that remains and the error of the filter, if any.
\<close>

datatype 's nl_outcome = Returned int 's | Left u32 int 's

text \<open>The socket that \<open>nl\<close> is, and the port of the command socket.\<close>

record nl_env =
  is_cmd :: bool
  cmd_pid :: u32

text \<open>The branch for error messages; \<open>None\<close> goes on with the next message.\<close>

definition nlmsg_error :: "nl_env \<Rightarrow> bytes \<Rightarrow> nat \<Rightarrow> int option res" where
  "nlmsg_error env buf h =
     res_bind (rd32 buf (h + 16)) (\<lambda>e.
     res_bind (rd16 buf (h + 24)) (\<lambda>msg_type.
     res_bind (rd16 buf (h + 6)) (\<lambda>flags.
     res_bind (rd32 buf h) (\<lambda>nlmsg_len.
       let errnum = int_of_u32 e
       in Ok (if errnum = 0 then (if and flags NLM_F_MULTI = 0 then Some 0 else None)
              else if nlmsg_len < 36 then Some (-1)
              else if is_cmd env \<and>
                (msg_type = RTM_DELROUTE \<and> (- errnum = ENODEV \<or> - errnum = ESRCH) \<or>
                 msg_type = RTM_NEWROUTE \<and> - errnum = EEXIST)
              then Some 0
              else Some (-1))))))"

fun nl_messages ::
  "nat \<Rightarrow> nl_env \<Rightarrow> (nat \<Rightarrow> 's \<Rightarrow> (int \<times> 's) res) \<Rightarrow> bytes \<Rightarrow> nat \<Rightarrow> u32 \<Rightarrow> int \<Rightarrow> 's \<Rightarrow> 's nl_outcome res" where
  "nl_messages 0 env filter_fn buf h status ret s = Err OutOfFuel"
| "nl_messages (Suc n) env filter_fn buf h status ret s =
     res_bind (NLMSG_OK buf h status) (\<lambda>ok.
       if \<not> ok then Ok (Left status ret s)
       else
         res_bind (rd32 buf h) (\<lambda>nlmsg_len.
         res_bind (rd16 buf (h + 4)) (\<lambda>nlmsg_type.
         let next_msg = nl_messages n env filter_fn buf (h + unat (NLMSG_ALIGN nlmsg_len)) (status - NLMSG_ALIGN nlmsg_len)
         in if nlmsg_type = NLMSG_DONE then Ok (Returned ret s)
            else if nlmsg_type = NLMSG_ERROR then
              res_bind (nlmsg_error env buf h) (\<lambda>r. case r of Some v \<Rightarrow> Ok (Returned v s) | None \<Rightarrow> next_msg ret s)
            else
              res_bind (rd32 buf (h + 12)) (\<lambda>pid.
                if \<not> is_cmd env \<and> pid = cmd_pid env then next_msg ret s
                else res_bind (filter_fn h s) (\<lambda>(error, s1). next_msg (if error < 0 then error else ret) s1)))))"

text \<open>
  One call of \<^verbatim>\<open>recvmsg\<close>: an error number, or the bytes received, with the length of the sender's address and whether
  the datagram was cut.  The rest of the buffer holds what was there before (\<open>stale\<close>).
\<close>

datatype nl_recv = Recv_error int | Recv_data bytes nat bool

definition SIZEOF_SOCKADDR_NL :: nat where "SIZEOF_SOCKADDR_NL = 12"

text \<open>
  The result is \<open>None\<close> while the function waits for the next datagram.  The number of rounds for one datagram is
  bounded by the number of bytes of the buffer.
\<close>

fun netlink_parse_info ::
  "nl_env \<Rightarrow> (bytes \<Rightarrow> nat \<Rightarrow> 's \<Rightarrow> (int \<times> 's) res) \<Rightarrow> bytes \<Rightarrow> nl_recv list \<Rightarrow> int \<Rightarrow> 's \<Rightarrow> (int option \<times> 's) res" where
  "netlink_parse_info env filter_fn stale [] ret s = Ok (None, s)"
| "netlink_parse_info env filter_fn stale (Recv_error errno # rs) ret s =
     (if errno = EINTR then netlink_parse_info env filter_fn stale rs ret s
      else if errno = EAGAIN then Ok (Some ret, s)
      else netlink_parse_info env filter_fn stale rs ret s)"
| "netlink_parse_info env filter_fn stale (Recv_data dat namelen trunc # rs) ret s =
     (if dat = [] then Ok (Some (-1), s)
      else if namelen \<noteq> SIZEOF_SOCKADDR_NL then Ok (Some (-1), s)
      else
        (let buf = take NL_PKT_BUF_SIZE (dat @ drop (length dat) stale)
         in res_bind (nl_messages (Suc NL_PKT_BUF_SIZE) env (filter_fn buf) buf 0 (word_of_nat (length dat)) ret s) (\<lambda>out.
              case out of
                Returned v s1 \<Rightarrow> Ok (Some v, s1)
              | Left status ret1 s1 \<Rightarrow>
                  if trunc then netlink_parse_info env filter_fn stale rs ret1 s1
                  else if status \<noteq> 0 then Ok (Some (-1), s1)
                  else netlink_parse_info env filter_fn stale rs ret1 s1)))"

text \<open>\<^verbatim>\<open>netlink_interface\<close>: only whether a link message has a name is looked at; \<open>ifla_max\<close> is \<^verbatim>\<open>IFLA_MAX\<close>.\<close>

definition RTM_NEWLINK :: nat where "RTM_NEWLINK = 16"
definition IFLA_IFNAME :: nat where "IFLA_IFNAME = 3"

definition netlink_interface :: "nat \<Rightarrow> bytes \<Rightarrow> nat \<Rightarrow> int res" where
  "netlink_interface ifla_max buf h =
     res_bind (rd16 buf (h + 4)) (\<lambda>nlmsg_type.
       if nlmsg_type \<noteq> RTM_NEWLINK then Ok 0
       else res_bind (rd32 buf h) (\<lambda>nlmsg_len.
         let len = int_of_u32 (nlmsg_len - 32)
         in if len < 0 then Ok (-1)
            else res_bind (netlink_parse_rtattr buf ifla_max (h + 32) len Map.empty) (\<lambda>tb.
              Ok (if tb IFLA_IFNAME = None then -1 else 0))))"

section \<open>Attributes stay inside the message\<close>

text \<open>Place \<open>a\<close> holds an attribute of type \<open>t\<close> that lies between \<open>p\<close> and \<open>q\<close>.\<close>

definition rta_at :: "bytes \<Rightarrow> nat \<Rightarrow> nat \<Rightarrow> nat \<Rightarrow> nat \<Rightarrow> bool" where
  "rta_at buf p q t a \<longleftrightarrow> p \<le> a \<and> (\<exists>l. rd16 buf a = Ok l \<and> 4 \<le> l \<and> a + l \<le> q) \<and> rd16 buf (a + 2) = Ok t"

lemma rta_at_mono: "rta_at buf p q t a \<Longrightarrow> p' \<le> p \<Longrightarrow> rta_at buf p' q t a"
  by (auto simp: rta_at_def)

lemma rd16_ok: "p + 2 \<le> length buf \<Longrightarrow> rd16 buf p = Ok (unat (buf ! p) + 256 * unat (buf ! (p + 1)))"
  by (simp add: rd16_def)

lemma netlink_parse_rtattr_inside:
  assumes "int p + len \<le> int q" "q \<le> length buf"
  shows "\<exists>tb'. netlink_parse_rtattr buf mx p len tb = Ok tb' \<and>
    (\<forall>t a. tb' t = Some a \<longrightarrow> tb t = Some a \<or> t \<le> mx \<and> rta_at buf p q t a)"
  using assms
proof (induction buf mx p len tb rule: netlink_parse_rtattr.induct)
  case (1 buf mx p len tb)
  show ?case
  proof (cases "len < 4")
    case True
    then show ?thesis by (subst netlink_parse_rtattr.simps) auto
  next
    case False
    then have pq: "p + 4 \<le> q" using 1(2) by linarith
    define l where "l = unat (buf ! p) + 256 * unat (buf ! (p + 1))"
    have l: "rd16 buf p = Ok l" using rd16_ok [of p buf] pq 1(3) by (simp add: l_def)
    obtain ty where ty: "rd16 buf (p + 2) = Ok ty" using rd16_ok [of "p + 2" buf] pq 1(3) by auto
    show ?thesis
    proof (cases "l < 4 \<or> len < int l")
      case True
      then show ?thesis using l False by (subst netlink_parse_rtattr.simps) auto
    next
      case False2: False
      let ?tb = "if ty \<le> mx then tb(ty \<mapsto> p) else tb"
      have "int (p + RTA_ALIGN l) + (len - int (RTA_ALIGN l)) \<le> int q" using 1(2) by simp
      from 1(1) [OF False l False2 ty this 1(3)] obtain tb' where
        tb': "netlink_parse_rtattr buf mx (p + RTA_ALIGN l) (len - int (RTA_ALIGN l)) ?tb = Ok tb'"
        "\<forall>t a. tb' t = Some a \<longrightarrow> ?tb t = Some a \<or> t \<le> mx \<and> rta_at buf (p + RTA_ALIGN l) q t a" by blast
      have "rta_at buf p q ty p" using l ty False2 1(2) by (auto simp: rta_at_def)
      then have "tb t = Some a \<or> t \<le> mx \<and> rta_at buf p q t a" if "?tb t = Some a" for t a
        using that by (auto split: if_splits)
      then have "\<forall>t a. tb' t = Some a \<longrightarrow> tb t = Some a \<or> t \<le> mx \<and> rta_at buf p q t a"
        using tb'(2) rta_at_mono [of buf "p + RTA_ALIGN l" q _ _ p] by (metis le_add1)
      then show ?thesis using tb'(1) l ty False False2 by (subst netlink_parse_rtattr.simps) auto
    qed
  qed
qed

text \<open>
  C26. Collecting the attributes of a message whose bytes are in the buffer returns, whatever the bytes are: no
  read leaves the message, and every entry of the table is an attribute of the type it is entered
  under, with its whole length inside the message.
\<close>

theorem netlink_parse_rtattr_safe:
  assumes "p + n \<le> length buf"
  shows "\<exists>tb. netlink_parse_rtattr buf mx p (int n) Map.empty = Ok tb \<and>
    (\<forall>t a. tb t = Some a \<longrightarrow> t \<le> mx \<and> rta_at buf p (p + n) t a)"
  using netlink_parse_rtattr_inside [of p "int n" "p + n" buf mx Map.empty] assms by auto

theorem netlink_parse_rtattr_safe_witness:
  "\<exists>tb. netlink_parse_rtattr [8, 0, 4, 0, 2, 0, 0, 0, 9, 9] 30 0 (int 10) Map.empty = Ok tb \<and>
    (\<forall>t a. tb t = Some a \<longrightarrow> t \<le> 30 \<and> rta_at [8, 0, 4, 0, 2, 0, 0, 0, 9, 9] 0 (0 + 10) t a)"
  by (rule netlink_parse_rtattr_safe) simp

section \<open>Lengths that are not a multiple of four\<close>

lemma unat_NLMSG_ALIGN:
  assumes "unat l + 3 < 2 ^ 32"
  shows "unat (NLMSG_ALIGN l) = RTA_ALIGN (unat l)"
proof -
  have "unat (l + 3) = unat l + 3" using assms by (subst unat_plus_if') simp
  then have "unat (drop_bit 2 (l + 3)) = (unat l + 3) div 4" by (simp only: unat_drop_bit_eq) (simp add: drop_bit_eq_div)
  moreover have "(unat l + 3) div 4 * 4 < 2 ^ 32" using assms by linarith
  ultimately show ?thesis
    by (simp add: NLMSG_ALIGN_def RTA_ALIGN_def unat_mult_lem [THEN iffD1])
qed

text \<open>
  A last message whose length is not a multiple of four makes the remaining length negative, and since
  \<^verbatim>\<open>NLMSG_OK\<close> gets it as an unsigned number the loop goes on behind the received bytes, as if almost four
  gigabytes were left.
\<close>

theorem netlink_unaligned_runs_on:
  assumes "rd32 buf h = Ok status" "16 \<le> status" "unat status + 3 < 2 ^ 32" "\<not> 4 dvd unat status"
    and "rd16 buf (h + 4) = Ok ty" "ty \<noteq> NLMSG_DONE" "ty \<noteq> NLMSG_ERROR" "rd32 buf (h + 12) = Ok pid"
    and "is_cmd env" "f h s = Ok (0, s1)"
  shows "\<exists>left. 2 ^ 32 - 4 < unat left \<and>
    nl_messages (Suc n) env f buf h status ret s =
      nl_messages n env f buf (h + RTA_ALIGN (unat status)) left ret s1"
proof (intro exI conjI)
  let ?a = "RTA_ALIGN (unat status)"
  have lt: "unat status < ?a" "?a < unat status + 4"
    using RTA_ALIGN_ge [of "unat status"] assms(4) by (auto simp: RTA_ALIGN_def le_less intro: dvdI [of _ _ "(unat status + 3) div 4"])
  have a: "unat (NLMSG_ALIGN status) = ?a" using assms(3) by (rule unat_NLMSG_ALIGN)
  show "2 ^ 32 - 4 < unat (status - NLMSG_ALIGN status)"
    using lt a by (simp add: unat_sub_if')
  show "nl_messages (Suc n) env f buf h status ret s = nl_messages n env f buf (h + ?a) (status - NLMSG_ALIGN status) ret s1"
    using assms a leD [OF assms(2)] by (simp add: NLMSG_OK_def)
qed

theorem netlink_unaligned_runs_on_witness:
  "\<exists>left. 2 ^ 32 - 4 < unat left \<and>
    nl_messages (Suc 4) \<lparr>is_cmd = True, cmd_pid = 0\<rparr> (\<lambda>h s. Ok (0, s)) [17, 0, 0, 0, 24, 0, 2, 0, 0, 0, 0, 0, 0, 0, 0, 0, 1] 0 17 0 () =
      nl_messages 4 \<lparr>is_cmd = True, cmd_pid = 0\<rparr> (\<lambda>h s. Ok (0, s)) [17, 0, 0, 0, 24, 0, 2, 0, 0, 0, 0, 0, 0, 0, 0, 0, 1]
        (0 + RTA_ALIGN (unat (17 :: u32))) left 0 ()"
  by (rule netlink_unaligned_runs_on [where ty = 24 and pid = 0])
    (simp_all add: rd32_def rd16_def of_octets_def NLMSG_DONE_def NLMSG_ERROR_def)

end
