(* ===== verification/Route_Table.thy ===== *)
theory Route_Table
  imports Netlink
begin

text \<open>
  The routing table the agent watches: the list of routes with a header node (\<^verbatim>\<open>netlink/route.c\<close>), filling it from
  netlink messages or from rows of an SNMP table (\<^verbatim>\<open>router/routertable.c\<close>), and the periodic comparison that
  reports changes (\<^verbatim>\<open>route_table_detect\<close>, \<^verbatim>\<open>send_route_table\<close> of \<^verbatim>\<open>server/icm.c\<close>).  A list is its header and the routes
  behind it; a pointer to the node before a route is the number of that route.
\<close>

section \<open>Routes\<close>

definition FRESH_STATUS :: int where "FRESH_STATUS = 3"
definition OLD_STATUS :: int where "OLD_STATUS = 2"
definition NEW_STATUS :: int where "NEW_STATUS = 1"
definition ROUTE_TYPE_LOCAL :: int where "ROUTE_TYPE_LOCAL = 0"
definition ROUTE_TYPE_REMOTE :: int where "ROUTE_TYPE_REMOTE = 1"

record prefix_ipv4 =
  pf_family :: u8
  pf_prefixlen :: u8
  pf_prefix :: u32

record route =
  rt_prefix :: prefix_ipv4
  rt_gateway :: u32
  rt_interface_id :: int
  rt_metric :: int
  rt_type :: int
  rt_dirty :: int

type_synonym rlist = "route \<times> route list"

text \<open>\<^verbatim>\<open>malloc_z(struct route)\<close>\<close>

definition zero_route :: route where
  "zero_route = \<lparr>rt_prefix = \<lparr>pf_family = 0, pf_prefixlen = 0, pf_prefix = 0\<rparr>, rt_gateway = 0,
     rt_interface_id = 0, rt_metric = 0, rt_type = 0, rt_dirty = 0\<rparr>"

definition prefixv4_cmp :: "prefix_ipv4 \<Rightarrow> prefix_ipv4 \<Rightarrow> int" where
  "prefixv4_cmp a b = (if pf_prefix a = pf_prefix b \<and> pf_prefixlen a = pf_prefixlen b then 1 else 0)"

definition is_route_same_exactly :: "route \<Rightarrow> route \<Rightarrow> int" where
  "is_route_same_exactly a b =
     (if rt_gateway a = rt_gateway b then
        if rt_interface_id a = rt_interface_id b then
          if rt_metric a = rt_metric b then 1 else 0
        else 0
      else 0)"

definition add_route :: "rlist \<Rightarrow> route \<Rightarrow> rlist" where
  "add_route l r = (fst l, r\<lparr>rt_dirty := FRESH_STATUS\<rparr> # snd l)"

definition update_route :: "nat \<Rightarrow> rlist \<Rightarrow> route \<Rightarrow> rlist" where
  "update_route i l r = (fst l, (snd l)[i := r\<lparr>rt_dirty := NEW_STATUS\<rparr>])"

definition find_before_route :: "rlist \<Rightarrow> route \<Rightarrow> nat option" where
  "find_before_route l rt =
     find_index (\<lambda>h. prefixv4_cmp (rt_prefix h) (rt_prefix rt) \<noteq> 0 \<and> is_route_same_exactly h rt \<noteq> 0) (snd l)"

text \<open>The loop marks a node while it has a successor.\<close>

fun refresh_loop :: "route \<Rightarrow> route list \<Rightarrow> route list" where
  "refresh_loop r [] = [r]"
| "refresh_loop r (n # ns) = r\<lparr>rt_dirty := OLD_STATUS\<rparr> # refresh_loop n ns"

definition refresh_route_status :: "rlist \<Rightarrow> rlist" where
  "refresh_route_status l = (let ns = refresh_loop (fst l) (snd l) in (hd ns, tl ns))"

text \<open>What \<^verbatim>\<open>watch_route_change\<close> prints.\<close>

datatype route_report = Route_added route | Route_deleted route

fun watch_loop :: "route list \<Rightarrow> route list \<times> int \<times> route_report list" where
  "watch_loop [] = ([], 0, [])"
| "watch_loop (h # hs) =
     (let (rs, ischanged, out) = watch_loop hs
      in if rt_dirty h = NEW_STATUS then (h # rs, ischanged, out)
         else if rt_dirty h = FRESH_STATUS then (h # rs, 1, Route_added h # out)
         else (rs, 1, Route_deleted h # out))"

definition watch_route_change :: "rlist \<Rightarrow> int \<times> rlist \<times> route_report list" where
  "watch_route_change l = (let (rs, ischanged, out) = watch_loop (snd l) in (ischanged, (fst l, rs), out))"

text \<open>
  The text of a route.  \<open>junk\<close> is the content of the uninitialised buffer for the mask, used when \<^verbatim>\<open>getmask\<close>
  refuses the length.
\<close>

definition route_text :: "string \<Rightarrow> route \<Rightarrow> string" where
  "route_text junk h =
     inet_ntoa (pf_prefix (rt_prefix h)) @ '' '' @
     (case getmask (int (unat (pf_prefixlen (rt_prefix h)))) of Some m \<Rightarrow> m | None \<Rightarrow> junk) @ '' '' @
     (if rt_gateway h \<noteq> 0 then inet_ntoa (rt_gateway h) @ '' '' else ''0.0.0.0 '') @
     dec_int (rt_interface_id h) @ '' '' @ (if rt_type h \<noteq> 0 then ''remote'' else ''local'') @ '' '' @ dec_int (rt_metric h)"

text \<open>The text is written to a buffer of 100 bytes.\<close>

definition get_single_route :: "string \<Rightarrow> route \<Rightarrow> string res" where
  "get_single_route junk h =
     (if length (route_text junk h) < 100 then Ok (route_text junk h) else Err OutOfBounds)"

section \<open>Routes of the kernel\<close>

text \<open>The source address is only tested for being there: \<open>src\<close>.\<close>

definition nexthop_ipv4_ifindex_add :: "route \<Rightarrow> u32 \<Rightarrow> bool \<Rightarrow> u32 \<Rightarrow> route" where
  "nexthop_ipv4_ifindex_add r gate src ifdex =
     (if src then r\<lparr>rt_gateway := gate\<rparr>
      else r\<lparr>rt_gateway := gate, rt_interface_id := int_of_u32 ifdex\<rparr>)"

definition nexthop_ipv4_add :: "route \<Rightarrow> u32 \<Rightarrow> route" where
  "nexthop_ipv4_add r gate = r\<lparr>rt_gateway := gate\<rparr>"

definition nexthop_ifindex_add :: "route \<Rightarrow> u32 \<Rightarrow> route" where
  "nexthop_ifindex_add r ifdex = r\<lparr>rt_interface_id := int_of_u32 ifdex\<rparr>"

definition new_route :: "int \<Rightarrow> prefix_ipv4 \<Rightarrow> u32 option \<Rightarrow> bool \<Rightarrow> u32 \<Rightarrow> u32 \<Rightarrow> route" where
  "new_route ty p gate src ifindex metric =
     (let r = zero_route\<lparr>rt_prefix := p, rt_type := ty, rt_metric := int_of_u32 metric\<rparr>
      in case gate of
           Some g \<Rightarrow> if ifindex \<noteq> 0 then nexthop_ipv4_ifindex_add r g src ifindex else nexthop_ipv4_add r g
         | None \<Rightarrow> nexthop_ifindex_add r ifindex)"

text \<open>Entering a route, shared by the two sources of routes.\<close>

definition enter_route :: "rlist \<Rightarrow> route \<Rightarrow> rlist" where
  "enter_route l r = (case find_before_route l r of None \<Rightarrow> add_route l r | Some i \<Rightarrow> update_route i l r)"

definition route_add_ipv4 ::
  "int \<Rightarrow> prefix_ipv4 \<Rightarrow> u32 option \<Rightarrow> bool \<Rightarrow> u32 \<Rightarrow> u32 \<Rightarrow> rlist \<Rightarrow> rlist" where
  "route_add_ipv4 ty p gate src ifindex metric l = enter_route l (new_route ty p gate src ifindex metric)"

definition AF_INET :: nat where "AF_INET = 2"
definition RTN_UNICAST :: nat where "RTN_UNICAST = 1"
definition RTM_F_CLONED :: u32 where "RTM_F_CLONED = 0x200"
definition RTPROT_REDIRECT :: nat where "RTPROT_REDIRECT = 1"
definition RTA_DST :: nat where "RTA_DST = 1"
definition RTA_OIF :: nat where "RTA_OIF = 4"
definition RTA_GATEWAY :: nat where "RTA_GATEWAY = 5"
definition RTA_PRIORITY :: nat where "RTA_PRIORITY = 6"
definition RTA_PREFSRC :: nat where "RTA_PREFSRC = 7"
definition RTA_MULTIPATH :: nat where "RTA_MULTIPATH = 9"

text \<open>The four bytes behind the header of an attribute, if there is one.\<close>

definition rta_u32 :: "bytes \<Rightarrow> (nat \<Rightarrow> nat option) \<Rightarrow> nat \<Rightarrow> u32 option res" where
  "rta_u32 buf tb t = (case tb t of None \<Rightarrow> Ok None | Some a \<Rightarrow> res_map Some (rd32 buf (a + 4)))"

text \<open>
  The message of type \<^verbatim>\<open>rtmsg\<close> lies behind the message header: family, length of the destination, length of the
  source, table, protocol, type and flags at 0, 1, 2, 4, 5, 7 and 8.  \<open>rta_max\<close> is \<^verbatim>\<open>RTA_MAX\<close> of the
  kernel headers.
\<close>

definition route_of_attributes ::
  "bytes \<Rightarrow> (nat \<Rightarrow> nat option) \<Rightarrow> nat \<Rightarrow> nat \<Rightarrow> nat \<Rightarrow> rlist \<Rightarrow> (int \<times> rlist) res" where
  "route_of_attributes buf tb family dst_len protocol l =
     res_bind (rta_u32 buf tb RTA_OIF) (\<lambda>oif.
     res_bind (rta_u32 buf tb RTA_PRIORITY) (\<lambda>prio.
       if family = AF_INET then
         res_bind (rta_u32 buf tb RTA_DST) (\<lambda>dest.
           let p = \<lparr>pf_family = word_of_nat AF_INET, pf_prefixlen = word_of_nat dst_len,
                    pf_prefix = (case dest of Some d \<Rightarrow> d | None \<Rightarrow> 0)\<rparr>
           in if tb RTA_MULTIPATH = None
              then res_bind (rta_u32 buf tb RTA_GATEWAY) (\<lambda>gate.
                Ok (0, route_add_ipv4 (int protocol) p gate (tb RTA_PREFSRC \<noteq> None)
                         (case oif of Some i \<Rightarrow> i | None \<Rightarrow> 0) (case prio of Some m \<Rightarrow> m | None \<Rightarrow> 0) l))
              else Ok (0, l))
       else Ok (0, l)))"

definition netlink_routing_table :: "nat \<Rightarrow> bytes \<Rightarrow> nat \<Rightarrow> rlist \<Rightarrow> (int \<times> rlist) res" where
  "netlink_routing_table rta_max buf h l =
     res_bind (rd16 buf (h + 4)) (\<lambda>nlmsg_type.
       if nlmsg_type \<noteq> RTM_NEWROUTE then Ok (0, l)
       else
         res_bind (rd8 buf (h + 23)) (\<lambda>rtm_type.
           if rtm_type \<noteq> RTN_UNICAST then Ok (0, l)
           else
             res_bind (rd32 buf h) (\<lambda>nlmsg_len.
               let len = int_of_u32 (nlmsg_len - 28)
               in if len < 0 then Ok (-1, l)
                  else
                    res_bind (netlink_parse_rtattr buf rta_max (h + 28) len Map.empty) (\<lambda>tb.
                    res_bind (rd32 buf (h + 24)) (\<lambda>rtm_flags.
                    res_bind (rd8 buf (h + 21)) (\<lambda>rtm_protocol.
                    res_bind (rd8 buf (h + 18)) (\<lambda>rtm_src_len.
                    res_bind (rd8 buf (h + 16)) (\<lambda>rtm_family.
                    res_bind (rd8 buf (h + 17)) (\<lambda>rtm_dst_len.
                      if rtm_flags AND RTM_F_CLONED \<noteq> 0 then Ok (0, l)
                      else if rtm_protocol = RTPROT_REDIRECT then Ok (0, l)
                      else if rtm_src_len \<noteq> 0 then Ok (0, l)
                      else route_of_attributes buf tb rtm_family rtm_dst_len rtm_protocol l)))))))))"

section \<open>The two sources of the table\<close>

definition NETLINK_ROUTE :: int where "NETLINK_ROUTE = 1"
definition SNMP_ROUTE :: int where "SNMP_ROUTE = 2"

text \<open>
  \<^verbatim>\<open>struct route_table\<close> with the list it was created with (\<open>own_routes\<close>) and the global \<^verbatim>\<open>route_list\<close> of
  \<^verbatim>\<open>netlink/route.c\<close>; the field \<^verbatim>\<open>routes\<close> points to one or the other.
\<close>

record route_table =
  route_table_len :: int
  acquire_type :: int
  own_routes :: rlist
  route_list :: "rlist option"
  routes_global :: bool

text \<open>The table of \<^verbatim>\<open>conf_handle\<close> before the first round.\<close>

definition init_route_table :: "bool \<Rightarrow> route_table" where
  "init_route_table outside = \<lparr>route_table_len = 0, acquire_type = (if outside then SNMP_ROUTE else NETLINK_ROUTE),
     own_routes = (zero_route, []), route_list = None, routes_global = False\<rparr>"

definition routes :: "route_table \<Rightarrow> rlist" where
  "routes rt = (if routes_global rt then (case route_list rt of Some l \<Rightarrow> l | None \<Rightarrow> own_routes rt) else own_routes rt)"

definition put_routes :: "rlist \<Rightarrow> route_table \<Rightarrow> route_table" where
  "put_routes l rt = (if routes_global rt then rt\<lparr>route_list := Some l\<rparr> else rt\<lparr>own_routes := l\<rparr>)"

text \<open>
  What the socket does in one request: whether it can be opened and written to (if not, \<^verbatim>\<open>netlink_parse_info\<close> reads
  from a bad descriptor for ever, so this case never returns), and the datagrams of the answer.
\<close>

definition get_route_table ::
  "nat \<Rightarrow> bytes \<Rightarrow> nl_recv list \<Rightarrow> rlist option \<Rightarrow> (int option \<times> rlist) res" where
  "get_route_table rta_max stale answer l =
     netlink_parse_info \<lparr>is_cmd = False, cmd_pid = 0\<rparr> (netlink_routing_table rta_max) stale answer 0
       (case l of None \<Rightarrow> (zero_route, []) | Some l \<Rightarrow> l)"

definition get_route_table_by_netlink ::
  "nat \<Rightarrow> bytes \<Rightarrow> nl_recv list \<Rightarrow> route_table \<Rightarrow> route_table option res" where
  "get_route_table_by_netlink rta_max stale answer rt =
     res_map (\<lambda>(ret, l). case ret of
         None \<Rightarrow> None
       | Some _ \<Rightarrow> Some (rt\<lparr>route_list := Some l, route_table_len := int (Suc (length (snd l))), routes_global := True\<rparr>))
       (get_route_table rta_max stale answer (route_list rt))"

text \<open>A row of the SNMP table, as text.\<close>

record ipRouteTable =
  ipRouteDest :: string
  ipRouteMask :: string
  ipRouteNextHop :: string
  ipRouteIfIndex :: string
  ipRouteMetric :: string
  ipRouteType :: string

definition snmp_route :: "u32 \<Rightarrow> ipRouteTable \<Rightarrow> route" where
  "snmp_route junk r =
     \<lparr>rt_prefix = \<lparr>pf_family = word_of_nat AF_INET, pf_prefixlen = word_of_int (get_prefix_length junk (ipRouteMask r)),
        pf_prefix = (case inet_pton (ipRouteDest r) of Some a \<Rightarrow> a | None \<Rightarrow> 0)\<rparr>,
      rt_gateway = (case inet_pton (ipRouteNextHop r) of Some a \<Rightarrow> a | None \<Rightarrow> 0),
      rt_interface_id = atoi (ipRouteIfIndex r), rt_metric = atoi (ipRouteMetric r),
      rt_type = (if ipRouteType r = ''local'' then ROUTE_TYPE_LOCAL else ROUTE_TYPE_REMOTE), rt_dirty = FRESH_STATUS\<rparr>"

text \<open>\<open>None\<close> is a table that could not be read.\<close>

definition get_route_table_by_snmp :: "u32 \<Rightarrow> ipRouteTable list option \<Rightarrow> route_table \<Rightarrow> route_table" where
  "get_route_table_by_snmp junk table rt =
     (case table of
        None \<Rightarrow> rt
      | Some rows \<Rightarrow>
          (put_routes (fold (\<lambda>r l. enter_route l (snmp_route junk r)) rows (routes rt)) rt)\<lparr>route_table_len := int (length rows)\<rparr>)"

section \<open>Reporting changes\<close>

text \<open>
  The message is built in a buffer of 80 bytes for each of the \<^verbatim>\<open>route_table_len\<close> routes; it lists the header node too.
\<close>

definition route_lines :: "string \<Rightarrow> rlist \<Rightarrow> string res" where
  "route_lines junk l =
     res_for (\<lambda>r msg. res_map (\<lambda>c. msg @ c @ [CHR 0x0A]) (get_single_route junk r)) (fst l # snd l)
       (''Destination Mask Gateway Nexthop Type Metric'' @ [CHR 0x0A])"

definition send_route_table :: "string \<Rightarrow> route_table \<Rightarrow> string res" where
  "send_route_table junk rt =
     res_bind (route_lines junk (routes rt)) (\<lambda>msg.
       if int (length msg) < route_table_len rt * 80 then Ok msg else Err OutOfBounds)"

text \<open>What the source of the routes answers in one round.\<close>

datatype route_source = Kernel nat bytes "nl_recv list" | Snmp u32 "ipRouteTable list option"

text \<open>\<open>None\<close>: still waiting for the kernel.\<close>

definition route_table_get :: "route_source \<Rightarrow> route_table \<Rightarrow> route_table option res" where
  "route_table_get src rt =
     (if acquire_type rt = NETLINK_ROUTE
      then (case src of Kernel rta_max stale answer \<Rightarrow> get_route_table_by_netlink rta_max stale answer rt | Snmp _ _ \<Rightarrow> Ok None)
      else if acquire_type rt = SNMP_ROUTE
      then (case src of Snmp junk table \<Rightarrow> Ok (Some (get_route_table_by_snmp junk table rt)) | Kernel _ _ _ \<Rightarrow> Ok None)
      else Ok (Some rt))"

definition route_table_detect ::
  "string \<Rightarrow> int \<Rightarrow> route_source \<Rightarrow> route_table \<Rightarrow> (route_table \<times> string list \<times> route_report list) option res" where
  "route_table_detect junk ty src rt =
     res_bind (route_table_get src rt) (\<lambda>got.
       case got of
         None \<Rightarrow> Ok None
       | Some rt1 \<Rightarrow>
           (let (ret, l, out) = watch_route_change (routes rt1); rt2 = put_routes l rt1
            in if ret \<noteq> 0 \<or> ty = 2
               then res_map (\<lambda>msg. Some (put_routes (refresh_route_status l) rt2, [msg], out)) (send_route_table junk rt2)
               else Ok (Some (put_routes (refresh_route_status l) rt2, [], out))))"

section \<open>One round\<close>

text \<open>What makes two routes the same: everything but the type and the mark.\<close>

definition rt_key :: "route \<Rightarrow> u32 \<times> u8 \<times> u32 \<times> int \<times> int" where
  "rt_key r = (pf_prefix (rt_prefix r), pf_prefixlen (rt_prefix r), rt_gateway r, rt_interface_id r, rt_metric r)"

lemmas route_status_defs = FRESH_STATUS_def OLD_STATUS_def NEW_STATUS_def

lemma rt_key_dirty [simp]: "rt_key (r\<lparr>rt_dirty := d\<rparr>) = rt_key r"
  by (simp add: rt_key_def)

lemma find_before_route_key: "find_before_route l r = find_index (\<lambda>h. rt_key h = rt_key r) (snd l)"
  unfolding find_before_route_def
  by (rule arg_cong [where f = "\<lambda>P. find_index P (snd l)"])
    (auto simp: fun_eq_iff prefixv4_cmp_def is_route_same_exactly_def rt_key_def)

lemma list_update_find_index:
  assumes "distinct (map f xs)" "find_index (\<lambda>x. f x = k) xs = Some i"
  shows "xs[i := y] = map (\<lambda>x. if f x = k then y else x) xs"
proof (rule nth_equalityI)
  from assms(2) have i: "i < length xs" "f (xs ! i) = k" by (auto simp: find_index_Some)
  fix j assume j: "j < length (xs[i := y])"
  have "f (xs ! j) = k \<longleftrightarrow> j = i" using assms(1) i j by (auto simp: distinct_conv_nth)
  with i j show "xs[i := y] ! j = map (\<lambda>x. if f x = k then y else x) xs ! j" by (auto simp: nth_list_update)
qed simp

lemma enter_route_alt:
  assumes "distinct (map rt_key (snd l))"
  shows "enter_route l r =
    (fst l, if rt_key r \<in> rt_key ` set (snd l)
            then map (\<lambda>h. if rt_key h = rt_key r then r\<lparr>rt_dirty := NEW_STATUS\<rparr> else h) (snd l)
            else r\<lparr>rt_dirty := FRESH_STATUS\<rparr> # snd l)"
proof (cases "find_before_route l r")
  case None
  then have "rt_key r \<notin> rt_key ` set (snd l)" by (auto simp: find_before_route_key find_index_None)
  with None show ?thesis by (simp add: enter_route_def add_route_def)
next
  case (Some i)
  then have f: "find_index (\<lambda>h. rt_key h = rt_key r) (snd l) = Some i" by (simp add: find_before_route_key)
  then have "\<exists>h \<in> set (snd l). rt_key h = rt_key r" using find_index_None [of "\<lambda>h. rt_key h = rt_key r" "snd l"] by auto
  then have "rt_key r \<in> rt_key ` set (snd l)" by (metis image_eqI)
  then show ?thesis
    using list_update_find_index [OF assms f] Some by (simp add: enter_route_def update_route_def)
qed

text \<open>
  After entering the rows \<open>rs\<close> the list is the new routes, marked fresh, or new if their row came more than once,
  followed by the old ones, of which those among the rows are marked new.
\<close>

definition entered :: "route list \<Rightarrow> route list \<Rightarrow> route list \<Rightarrow> route list \<Rightarrow> bool" where
  "entered rs olds ns os \<longleftrightarrow>
     distinct (map rt_key (ns @ os)) \<and> rt_key ` set ns = rt_key ` set rs - rt_key ` set olds \<and>
     (\<forall>n \<in> set ns. rt_dirty n = (if count_list (map rt_key rs) (rt_key n) = 1 then FRESH_STATUS else NEW_STATUS)) \<and>
     list_all2 (\<lambda>h h'. rt_key h' = rt_key h \<and> rt_dirty h' = (if rt_key h \<in> rt_key ` set rs then NEW_STATUS else rt_dirty h)) olds os"

lemma entered_keys: "entered rs olds ns os \<Longrightarrow> map rt_key os = map rt_key olds"
  unfolding entered_def by (simp add: list_all2_conv_all_nth list_eq_iff_nth_eq)

lemma enter_rows:
  assumes "distinct (map rt_key (snd l))"
  shows "\<exists>ns os. fold (\<lambda>r l. enter_route l r) rs l = (fst l, ns @ os) \<and> entered rs (snd l) ns os"
proof (induction rs rule: rev_induct)
  case Nil
  show ?case using assms by (intro exI [of _ "[]"] exI [of _ "snd l"]) (simp add: entered_def list_all2_refl)
next
  case (snoc r rs)
  then obtain ns os where f: "fold (\<lambda>r l. enter_route l r) rs l = (fst l, ns @ os)"
    and e: "entered rs (snd l) ns os" by blast
  have d: "distinct (map rt_key (ns @ os))" using e unfolding entered_def by blast
  have ko: "rt_key ` set os = rt_key ` set (snd l)" using entered_keys [OF e] by (metis set_map)
  have kn: "rt_key ` set ns = rt_key ` set rs - rt_key ` set (snd l)" using e by (simp add: entered_def)
  let ?u = "\<lambda>h. if rt_key h = rt_key r then r\<lparr>rt_dirty := NEW_STATUS\<rparr> else h"
  have ku: "map rt_key (map ?u xs) = map rt_key xs" for xs by simp
  have old: "list_all2 (\<lambda>h h'. rt_key h' = rt_key h \<and> rt_dirty h' = (if rt_key h \<in> rt_key ` set (rs @ [r]) then NEW_STATUS else rt_dirty h)) (snd l) (map ?u os)"
  proof -
    have "list_all2 (\<lambda>h h'. rt_key h' = rt_key h \<and> rt_dirty h' = (if rt_key h \<in> rt_key ` set rs then NEW_STATUS else rt_dirty h)) (snd l) os"
      using e unfolding entered_def by blast
    then show ?thesis unfolding list_all2_map2 by (rule list_all2_mono) auto
  qed
  show ?case
  proof (cases "rt_key r \<in> rt_key ` set (ns @ os)")
    case True
    have "fold (\<lambda>r l. enter_route l r) (rs @ [r]) l = (fst l, map ?u ns @ map ?u os)"
      using f enter_route_alt [of "(fst l, ns @ os)" r] d True by simp
    moreover have "entered (rs @ [r]) (snd l) (map ?u ns) (map ?u os)"
    proof -
      have nk: "rt_key ` set (map ?u ns) = rt_key ` set ns" using arg_cong [OF ku [of ns], of set] by (simp only: set_map)
      have "rt_key r \<in> rt_key ` set rs \<or> rt_key r \<in> rt_key ` set (snd l)" using True kn ko by auto
      then have rk: "rt_key ` set (rs @ [r]) - rt_key ` set (snd l) = rt_key ` set rs - rt_key ` set (snd l)" by auto
      have nd: "rt_dirty (?u n) = (if count_list (map rt_key (rs @ [r])) (rt_key n) = 1 then FRESH_STATUS else NEW_STATUS)"
        if n: "n \<in> set ns" for n
      proof (cases "rt_key n = rt_key r")
        case True
        have "rt_key n \<in> rt_key ` set ns" using n by (rule imageI)
        then have "rt_key r \<in> set (map rt_key rs)" using kn True by simp
        then have "count_list (map rt_key rs) (rt_key r) \<noteq> 0" by (simp add: count_list_0_iff)
        with True show ?thesis by simp
      next
        case False
        with e n show ?thesis by (simp add: entered_def)
      qed
      have "map rt_key (map ?u ns @ map ?u os) = map rt_key (ns @ os)" unfolding map_append ku ..
      then have "distinct (map rt_key (map ?u ns @ map ?u os))" using d by (rule ssubst)
      moreover have "\<forall>n \<in> set (map ?u ns). rt_dirty n = (if count_list (map rt_key (rs @ [r])) (rt_key n) = 1 then FRESH_STATUS else NEW_STATUS)"
      proof
        fix n assume "n \<in> set (map ?u ns)"
        then obtain m where m: "m \<in> set ns" "n = ?u m" unfolding set_map by (rule imageE)
        have "rt_key (?u m) = rt_key m" by simp
        with nd [OF m(1)] show "rt_dirty n = (if count_list (map rt_key (rs @ [r])) (rt_key n) = 1 then FRESH_STATUS else NEW_STATUS)"
          unfolding m(2) by (simp only:)
      qed
      ultimately show ?thesis
        unfolding entered_def nk rk using kn old by (intro conjI)
    qed
    ultimately show ?thesis by blast
  next
    case False
    then have kr: "rt_key r \<notin> rt_key ` set rs" "rt_key r \<notin> rt_key ` set (snd l)"
      unfolding set_append image_Un kn ko by blast+
    have "rt_key x \<noteq> rt_key r" if "x \<in> set os" for x using that False by (metis imageI UnI2 set_append)
    then have u: "map ?u os = os" by (intro map_idI) simp
    have "fold (\<lambda>r l. enter_route l r) (rs @ [r]) l = (fst l, (r\<lparr>rt_dirty := FRESH_STATUS\<rparr> # ns) @ os)"
      using f enter_route_alt [of "(fst l, ns @ os)" r] d False by simp
    moreover have "entered (rs @ [r]) (snd l) (r\<lparr>rt_dirty := FRESH_STATUS\<rparr> # ns) os"
    proof -
      have c: "count_list (map rt_key rs) (rt_key r) = 0" using kr(1) by (simp add: count_list_0_iff)
      have cn: "rt_key r \<noteq> rt_key n" if "n \<in> set ns" for n using that False by (metis imageI UnI1 set_append)
      have "distinct (map rt_key ((r\<lparr>rt_dirty := FRESH_STATUS\<rparr> # ns) @ os))" using d False by (simp add: image_Un)
      moreover have "rt_key ` set (r\<lparr>rt_dirty := FRESH_STATUS\<rparr> # ns) = rt_key ` set (rs @ [r]) - rt_key ` set (snd l)"
        using kn kr(2) by (simp add: insert_Diff_if)
      moreover have "\<forall>n \<in> set ns. rt_dirty n = (if count_list (map rt_key rs) (rt_key n) = 1 then FRESH_STATUS else NEW_STATUS)"
        using e unfolding entered_def by blast
      then have "\<forall>n \<in> set (r\<lparr>rt_dirty := FRESH_STATUS\<rparr> # ns).
          rt_dirty n = (if count_list (map rt_key (rs @ [r])) (rt_key n) = 1 then FRESH_STATUS else NEW_STATUS)"
        using c cn by auto
      ultimately show ?thesis unfolding entered_def using old unfolding u by (intro conjI)
    qed
    ultimately show ?thesis by blast
  qed
qed

lemma watch_loop_alt:
  "watch_loop rs =
    (filter (\<lambda>h. rt_dirty h = NEW_STATUS \<or> rt_dirty h = FRESH_STATUS) rs,
     if \<exists>h \<in> set rs. rt_dirty h \<noteq> NEW_STATUS then 1 else 0,
     concat (map (\<lambda>h. if rt_dirty h = NEW_STATUS then []
                      else if rt_dirty h = FRESH_STATUS then [Route_added h] else [Route_deleted h]) rs))"
  by (induction rs) (auto simp: route_status_defs)

lemma refresh_loop_alt: "refresh_loop r ns = map (\<lambda>r. r\<lparr>rt_dirty := OLD_STATUS\<rparr>) (butlast (r # ns)) @ [last (r # ns)]"
  by (induction r ns rule: refresh_loop.induct) auto

lemma snd_refresh:
  "snd (refresh_route_status l) =
    (if snd l = [] then [] else map (\<lambda>r. r\<lparr>rt_dirty := OLD_STATUS\<rparr>) (butlast (snd l)) @ [last (snd l)])"
  by (cases "snd l") (auto simp: refresh_route_status_def refresh_loop_alt Let_def)

text \<open>The list between two rounds: no two routes are the same, and all but the last are marked old.\<close>

definition polled :: "rlist \<Rightarrow> bool" where
  "polled l \<longleftrightarrow> distinct (map rt_key (snd l)) \<and> (\<forall>r \<in> set (butlast (snd l)). rt_dirty r = OLD_STATUS) \<and>
     (snd l \<noteq> [] \<longrightarrow> rt_dirty (last (snd l)) \<in> {NEW_STATUS, FRESH_STATUS})"


lemma polled_refresh:
  assumes "distinct (map rt_key (snd l))" "\<forall>r \<in> set (snd l). rt_dirty r \<in> {NEW_STATUS, FRESH_STATUS}"
  shows "polled (refresh_route_status l)"
proof (cases "snd l = []")
  case False
  have "map rt_key (snd (refresh_route_status l)) = map rt_key (butlast (snd l) @ [last (snd l)])"
    using False by (simp add: snd_refresh o_def del: append_butlast_last_id)
  then have "distinct (map rt_key (snd (refresh_route_status l)))" using assms(1) False by simp
  with False assms(2) show ?thesis by (auto simp: polled_def snd_refresh butlast_append)
qed (simp add: polled_def snd_refresh)

lemma marked_old:
  assumes "list_all2 (\<lambda>h h'. rt_key h' = rt_key h \<and> rt_dirty h' = (if rt_key h \<in> K then NEW_STATUS else rt_dirty h)) bs bs'"
    and "\<forall>h \<in> set bs. rt_dirty h = OLD_STATUS"
  shows "rt_key ` set (filter (\<lambda>h. rt_dirty h = NEW_STATUS \<or> rt_dirty h = FRESH_STATUS) bs') = rt_key ` set bs \<inter> K"
    and "(\<exists>h \<in> set bs'. rt_dirty h \<noteq> NEW_STATUS) \<longleftrightarrow> (\<exists>h \<in> set bs. rt_key h \<notin> K)"
  using assms
proof (induction rule: list_all2_induct)
  case (Cons b bs b' bs')
  {
    case 1
    with Cons show ?case by (auto simp: route_status_defs)
  next
    case 2
    with Cons show ?case by (auto simp: route_status_defs)
  }
qed auto

lemma entered_watch:
  assumes "polled l" "entered rs (snd l) ns os"
  shows "rt_key ` set (filter (\<lambda>h. rt_dirty h = NEW_STATUS \<or> rt_dirty h = FRESH_STATUS) (ns @ os)) =
      rt_key ` set rs \<union> (if snd l = [] then {} else {rt_key (last (snd l))})"
    and "(\<exists>h \<in> set (ns @ os). rt_dirty h \<noteq> NEW_STATUS) \<longleftrightarrow>
      (\<exists>r \<in> set rs. rt_key r \<notin> rt_key ` set (snd l) \<and> count_list (map rt_key rs) (rt_key r) = 1) \<or>
      (\<exists>h \<in> set (butlast (snd l)). rt_key h \<notin> rt_key ` set rs) \<or>
      (snd l \<noteq> [] \<and> rt_dirty (last (snd l)) = FRESH_STATUS \<and> rt_key (last (snd l)) \<notin> rt_key ` set rs)"
proof -
  let ?K = "rt_key ` set rs"
  let ?R = "\<lambda>h h'. rt_key h' = rt_key h \<and> rt_dirty h' = (if rt_key h \<in> ?K then NEW_STATUS else rt_dirty h)"
  let ?keep = "filter (\<lambda>h. rt_dirty h = NEW_STATUS \<or> rt_dirty h = FRESH_STATUS)"
  have all2: "list_all2 ?R (snd l) os" and kn: "rt_key ` set ns = ?K - rt_key ` set (snd l)"
    and dn: "\<forall>n \<in> set ns. rt_dirty n = (if count_list (map rt_key rs) (rt_key n) = 1 then FRESH_STATUS else NEW_STATUS)"
    using assms(2) unfolding entered_def by blast+
  have "?keep ns = ns" using dn by (auto intro: filter_True)
  then have n1: "rt_key ` set (?keep ns) = ?K - rt_key ` set (snd l)" using kn by simp
  have "(\<exists>h \<in> set ns. rt_dirty h \<noteq> NEW_STATUS) \<longleftrightarrow> (\<exists>k \<in> rt_key ` set ns. count_list (map rt_key rs) k = 1)"
    using dn by (auto simp: route_status_defs split: if_splits)
  then have n2: "(\<exists>h \<in> set ns. rt_dirty h \<noteq> NEW_STATUS) \<longleftrightarrow>
      (\<exists>r \<in> set rs. rt_key r \<notin> rt_key ` set (snd l) \<and> count_list (map rt_key rs) (rt_key r) = 1)"
    unfolding kn by blast
  have "rt_key ` set (?keep os) = rt_key ` set (snd l) \<inter> ?K \<union> (if snd l = [] then {} else {rt_key (last (snd l))}) \<and>
      ((\<exists>h \<in> set os. rt_dirty h \<noteq> NEW_STATUS) \<longleftrightarrow> (\<exists>h \<in> set (butlast (snd l)). rt_key h \<notin> ?K) \<or>
        (snd l \<noteq> [] \<and> rt_dirty (last (snd l)) = FRESH_STATUS \<and> rt_key (last (snd l)) \<notin> ?K))"
  proof (cases "snd l" rule: rev_cases)
    case Nil
    with all2 show ?thesis by simp
  next
    case (snoc bs z)
    then obtain bs' z' where os: "os = bs' @ [z']" "list_all2 ?R bs bs'" "?R z z'"
      using all2 by (auto simp: list_all2_append1 list_all2_Cons1)
    have "\<forall>h \<in> set bs. rt_dirty h = OLD_STATUS" "rt_dirty z = NEW_STATUS \<or> rt_dirty z = FRESH_STATUS"
      using assms(1) snoc by (auto simp: polled_def)
    with marked_old [OF os(2)] os(3) snoc show ?thesis unfolding os(1) by (auto simp: route_status_defs)
  qed
  with n1 n2 show "rt_key ` set (?keep (ns @ os)) = ?K \<union> (if snd l = [] then {} else {rt_key (last (snd l))})"
    and "(\<exists>h \<in> set (ns @ os). rt_dirty h \<noteq> NEW_STATUS) \<longleftrightarrow>
      (\<exists>r \<in> set rs. rt_key r \<notin> rt_key ` set (snd l) \<and> count_list (map rt_key rs) (rt_key r) = 1) \<or>
      (\<exists>h \<in> set (butlast (snd l)). rt_key h \<notin> ?K) \<or>
      (snd l \<noteq> [] \<and> rt_dirty (last (snd l)) = FRESH_STATUS \<and> rt_key (last (snd l)) \<notin> ?K)"
    by (auto simp: image_Un)
qed

lemma round_parts:
  assumes "polled l"
  obtains ns os where "fold (\<lambda>r l. enter_route l r) rs l = (fst l, ns @ os)" "entered rs (snd l) ns os"
    "watch_route_change (fold (\<lambda>r l. enter_route l r) rs l) =
       (if \<exists>h \<in> set (ns @ os). rt_dirty h \<noteq> NEW_STATUS then 1 else 0,
        (fst l, filter (\<lambda>h. rt_dirty h = NEW_STATUS \<or> rt_dirty h = FRESH_STATUS) (ns @ os)),
        snd (snd (watch_loop (ns @ os))))"
    "polled (refresh_route_status (fst l, filter (\<lambda>h. rt_dirty h = NEW_STATUS \<or> rt_dirty h = FRESH_STATUS) (ns @ os)))"
proof -
  have "distinct (map rt_key (snd l))" using assms(1) by (simp add: polled_def)
  then obtain ns os where f: "fold (\<lambda>r l. enter_route l r) rs l = (fst l, ns @ os)" and e: "entered rs (snd l) ns os"
    using enter_rows by blast
  have "distinct (map rt_key (ns @ os))" using e unfolding entered_def by blast
  then have "distinct (map rt_key (snd (fst l, filter (\<lambda>h. rt_dirty h = NEW_STATUS \<or> rt_dirty h = FRESH_STATUS) (ns @ os))))"
    unfolding snd_conv by (rule distinct_map_filter)
  then have "polled (refresh_route_status (fst l, filter (\<lambda>h. rt_dirty h = NEW_STATUS \<or> rt_dirty h = FRESH_STATUS) (ns @ os)))"
    by (rule polled_refresh) auto
  then show thesis
    by (rule that [OF f e, rotated]) (simp add: f watch_route_change_def watch_loop_alt Let_def del: filter_append)
qed

text \<open>
  C25. One round of the route watch.  From a list as the last round left it, entering the rows of the
  source and looking for changes leaves the routes of the rows, without repetition, and besides them only the last
  route of the list; a change is reported exactly when a route is new (and its row came once), when an old
  route other than the last one is missing, or when the last one is still marked fresh and is missing; and
  the list is again ready for the next round.
\<close>

theorem route_round_tracks_source:
  assumes "polled l" "watch_route_change (fold (\<lambda>r l. enter_route l r) rs l) = (changed, l', out)"
  shows "rt_key ` set (snd l') = rt_key ` set rs \<union> (if snd l = [] then {} else {rt_key (last (snd l))}) \<and>
    (changed \<noteq> 0 \<longleftrightarrow>
      (\<exists>r \<in> set rs. rt_key r \<notin> rt_key ` set (snd l) \<and> count_list (map rt_key rs) (rt_key r) = 1) \<or>
      (\<exists>h \<in> set (butlast (snd l)). rt_key h \<notin> rt_key ` set rs) \<or>
      (snd l \<noteq> [] \<and> rt_dirty (last (snd l)) = FRESH_STATUS \<and> rt_key (last (snd l)) \<notin> rt_key ` set rs)) \<and>
    polled (refresh_route_status l')"
proof -
  obtain ns os where "fold (\<lambda>r l. enter_route l r) rs l = (fst l, ns @ os)" and e: "entered rs (snd l) ns os"
    and w: "watch_route_change (fold (\<lambda>r l. enter_route l r) rs l) =
       (if \<exists>h \<in> set (ns @ os). rt_dirty h \<noteq> NEW_STATUS then 1 else 0,
        (fst l, filter (\<lambda>h. rt_dirty h = NEW_STATUS \<or> rt_dirty h = FRESH_STATUS) (ns @ os)),
        snd (snd (watch_loop (ns @ os))))"
    and p: "polled (refresh_route_status (fst l, filter (\<lambda>h. rt_dirty h = NEW_STATUS \<or> rt_dirty h = FRESH_STATUS) (ns @ os)))"
    by (rule round_parts [OF assms(1)])
  have l': "l' = (fst l, filter (\<lambda>h. rt_dirty h = NEW_STATUS \<or> rt_dirty h = FRESH_STATUS) (ns @ os))"
    and ch: "changed = (if \<exists>h \<in> set (ns @ os). rt_dirty h \<noteq> NEW_STATUS then 1 else 0)"
    using assms(2) unfolding w by auto
  have "changed \<noteq> 0 \<longleftrightarrow> (\<exists>h \<in> set (ns @ os). rt_dirty h \<noteq> NEW_STATUS)" unfolding ch by simp
  then show ?thesis using entered_watch [OF assms(1) e] p unfolding l' snd_conv by blast
qed

text \<open>A route of network 10.0.\<open>n\<close>.0/24 for the witnesses.\<close>

definition sample_route :: "nat \<Rightarrow> route" where
  "sample_route n = zero_route\<lparr>rt_prefix := \<lparr>pf_family = 2, pf_prefixlen = 24, pf_prefix = of_octets 10 0 n 0\<rparr>, rt_interface_id := 2\<rparr>"

theorem route_round_tracks_source_witness:
  "polled (zero_route, []) \<and>
   (let l' = (zero_route, [(sample_route 2)\<lparr>rt_dirty := FRESH_STATUS\<rparr>, (sample_route 1)\<lparr>rt_dirty := FRESH_STATUS\<rparr>])
    in rt_key ` set (snd l') = rt_key ` set [sample_route 1, sample_route 2] \<union> {} \<and> polled (refresh_route_status l'))"
proof -
  have k: "rt_key (sample_route 1) \<noteq> rt_key (sample_route 2)" by code_simp
  have p: "polled (zero_route, [])" by (simp add: polled_def)
  have "watch_route_change (fold (\<lambda>r l. enter_route l r) [sample_route 1, sample_route 2] (zero_route, [])) =
    (1, (zero_route, [(sample_route 2)\<lparr>rt_dirty := FRESH_STATUS\<rparr>, (sample_route 1)\<lparr>rt_dirty := FRESH_STATUS\<rparr>]),
     [Route_added ((sample_route 2)\<lparr>rt_dirty := FRESH_STATUS\<rparr>), Route_added ((sample_route 1)\<lparr>rt_dirty := FRESH_STATUS\<rparr>)])"
    using k k [symmetric] by (simp add: enter_route_alt watch_route_change_def route_status_defs)
  from route_round_tracks_source [OF p this] show ?thesis by (simp add: p)
qed

section \<open>The route that stays\<close>

text \<open>The list after one round.\<close>

definition route_round :: "route list \<Rightarrow> rlist \<Rightarrow> int \<times> rlist" where
  "route_round rs l =
     (let (changed, l', out) = watch_route_change (fold (\<lambda>r l. enter_route l r) rs l) in (changed, refresh_route_status l'))"

fun route_rounds :: "route list list \<Rightarrow> rlist \<Rightarrow> int list \<times> rlist" where
  "route_rounds [] l = ([], l)"
| "route_rounds (rs # rss) l =
     (let (c, l1) = route_round rs l; (cs, l2) = route_rounds rss l1 in (c # cs, l2))"

lemma round_keeps_last:
  assumes "polled l" "snd l \<noteq> []" "rt_key (last (snd l)) \<notin> rt_key ` set rs"
  shows "polled (snd (route_round rs l)) \<and> snd (snd (route_round rs l)) \<noteq> [] \<and>
    rt_key (last (snd (snd (route_round rs l)))) = rt_key (last (snd l)) \<and>
    rt_dirty (last (snd (snd (route_round rs l)))) = rt_dirty (last (snd l)) \<and>
    (rt_dirty (last (snd l)) = FRESH_STATUS \<longrightarrow> fst (route_round rs l) = 1)"
proof -
  obtain ns os where "fold (\<lambda>r l. enter_route l r) rs l = (fst l, ns @ os)" and e: "entered rs (snd l) ns os"
    and w: "watch_route_change (fold (\<lambda>r l. enter_route l r) rs l) =
       (if \<exists>h \<in> set (ns @ os). rt_dirty h \<noteq> NEW_STATUS then 1 else 0,
        (fst l, filter (\<lambda>h. rt_dirty h = NEW_STATUS \<or> rt_dirty h = FRESH_STATUS) (ns @ os)),
        snd (snd (watch_loop (ns @ os))))"
    and p: "polled (refresh_route_status (fst l, filter (\<lambda>h. rt_dirty h = NEW_STATUS \<or> rt_dirty h = FRESH_STATUS) (ns @ os)))"
    by (rule round_parts [OF assms(1)])
  obtain bs z where l: "snd l = bs @ [z]" using assms(2) by (metis append_butlast_last_id)
  then obtain bs' z' where os: "os = bs' @ [z']" and z': "rt_key z' = rt_key z" "rt_dirty z' = rt_dirty z"
    using e assms(3) by (auto simp: entered_def list_all2_append1 list_all2_Cons1)
  have "rt_dirty z \<in> {NEW_STATUS, FRESH_STATUS}" using assms(1) l by (simp add: polled_def)
  then obtain xs where xs: "filter (\<lambda>h. rt_dirty h = NEW_STATUS \<or> rt_dirty h = FRESH_STATUS) (ns @ os) = xs @ [z']"
    using z'(2) os by simp
  have c: "rt_dirty z = FRESH_STATUS \<longrightarrow> (\<exists>h \<in> set (ns @ os). rt_dirty h \<noteq> NEW_STATUS)"
    using z'(2) os by (auto simp: route_status_defs)
  have "route_round rs l = (if \<exists>h \<in> set (ns @ os). rt_dirty h \<noteq> NEW_STATUS then 1 else 0, refresh_route_status (fst l, xs @ [z']))"
    unfolding route_round_def w xs by simp
  with p [unfolded xs] z' l c show ?thesis by (simp add: snd_refresh)
qed

text \<open>
  The last route of the list is the first one that was ever entered, and it is never marked old: when the source
  does not have it any more, it stays in the table for any number of rounds, and if it was not confirmed
  before it vanished, every one of these rounds reports a change.
\<close>

theorem route_first_never_deleted:
  assumes "polled l" "snd l \<noteq> []" "\<forall>rs \<in> set rss. rt_key (last (snd l)) \<notin> rt_key ` set rs"
    and "route_rounds rss l = (changes, l')"
  shows "rt_key (last (snd l)) \<in> rt_key ` set (snd l') \<and>
    (rt_dirty (last (snd l)) = FRESH_STATUS \<longrightarrow> changes = replicate (length rss) 1)"
  using assms
proof (induction rss arbitrary: l changes)
  case Nil
  then show ?case by simp
next
  case (Cons rs rss)
  obtain c l1 where r: "route_round rs l = (c, l1)" by (rule prod.exhaust)
  obtain cs where rss: "route_rounds rss l1 = (cs, l')" "changes = c # cs"
    using Cons.prems(4) r by (auto split: prod.splits)
  have k: "polled l1" "snd l1 \<noteq> []" "rt_key (last (snd l1)) = rt_key (last (snd l))"
    "rt_dirty (last (snd l1)) = rt_dirty (last (snd l))" "rt_dirty (last (snd l)) = FRESH_STATUS \<longrightarrow> c = 1"
    using round_keeps_last [OF Cons.prems(1,2), of rs] Cons.prems(3) r by simp_all
  with Cons.IH [OF k(1,2) _ rss(1)] Cons.prems(3) rss(2) show ?case by simp
qed

theorem route_first_never_deleted_witness:
  "rt_key (sample_route 1) \<in> rt_key ` set (snd (snd (route_rounds [[], [sample_route 2], []]
      (zero_route, [(sample_route 1)\<lparr>rt_dirty := FRESH_STATUS\<rparr>])))) \<and>
   fst (route_rounds [[], [sample_route 2], []] (zero_route, [(sample_route 1)\<lparr>rt_dirty := FRESH_STATUS\<rparr>])) = replicate 3 1"
proof -
  let ?l = "(zero_route, [(sample_route 1)\<lparr>rt_dirty := FRESH_STATUS\<rparr>])"
  have k: "rt_key (sample_route 1) \<noteq> rt_key (sample_route 2)" by code_simp
  have p: "polled ?l" by (simp add: polled_def)
  obtain cs l' where r: "route_rounds [[], [sample_route 2], []] ?l = (cs, l')" by (rule prod.exhaust)
  from route_first_never_deleted [OF p _ _ r] k show ?thesis unfolding r by (simp add: numeral_eq_Suc)
qed

section \<open>The size of the message\<close>

text \<open>A route as a source enters it: the prefix length is a length, the numbers are \<^verbatim>\<open>int\<close>s.\<close>

definition route_ok :: "route \<Rightarrow> bool" where
  "route_ok r \<longleftrightarrow> unat (pf_prefixlen (rt_prefix r)) \<le> 32 \<and> \<bar>rt_interface_id r\<bar> < 10 ^ 10 \<and> \<bar>rt_metric r\<bar> < 10 ^ 10"

lemma getmask_some: "n \<le> 32 \<Longrightarrow> getmask (int n) = Some (inet_ntoa (getmask_loop n 0))"
  by (simp add: getmask_def)

lemma length_route_text:
  assumes "route_ok r"
  shows "length (route_text junk r) \<le> 78"
proof -
  obtain m where m: "getmask (int (unat (pf_prefixlen (rt_prefix r)))) = Some m" "length m \<le> 15"
    using assms getmask_some length_inet_ntoa by (metis route_ok_def)
  have "length (inet_ntoa (pf_prefix (rt_prefix r))) \<le> 15" "length (inet_ntoa (rt_gateway r)) \<le> 15" by (rule length_inet_ntoa)+
  moreover have "length (dec_int (rt_interface_id r)) \<le> 11" "length (dec_int (rt_metric r)) \<le> 11"
    using assms by (auto simp: route_ok_def intro: length_dec_int)
  ultimately show ?thesis using m by (simp add: route_text_def)
qed

lemma header_text:
  "route_text junk (zero_route\<lparr>rt_dirty := d\<rparr>) = ''0.0.0.0 0.0.0.0 0.0.0.0 0 local 0''"
proof -
  have "inet_ntoa 0 = ''0.0.0.0''" "getmask 0 = Some ''0.0.0.0''" "dec_int 0 = ''0''" by code_simp+
  then show ?thesis by (simp add: route_text_def zero_route_def)
qed

text \<open>The header node is never changed but for its mark.\<close>

definition header_ok :: "rlist \<Rightarrow> bool" where
  "header_ok l \<longleftrightarrow> (\<exists>d. fst l = zero_route\<lparr>rt_dirty := d\<rparr>)"

lemma res_for_lines:
  assumes "\<forall>r \<in> set rs. route_ok r"
  shows "\<exists>t. res_for (\<lambda>r msg. res_map (\<lambda>c. msg @ c @ [CHR 0x0A]) (get_single_route junk r)) rs msg = Ok (msg @ t) \<and>
    length t \<le> 79 * length rs"
  using assms
proof (induction rs arbitrary: msg)
  case (Cons r rs)
  have len: "length (route_text junk r) \<le> 78" using Cons.prems by (intro length_route_text) simp
  have "\<forall>r \<in> set rs. route_ok r" using Cons.prems by simp
  from Cons.IH [OF this, of "msg @ route_text junk r @ [CHR 0x0A]"] obtain t where
    "res_for (\<lambda>r msg. res_map (\<lambda>c. msg @ c @ [CHR 0x0A]) (get_single_route junk r)) rs (msg @ route_text junk r @ [CHR 0x0A]) =
      Ok ((msg @ route_text junk r @ [CHR 0x0A]) @ t)" "length t \<le> 79 * length rs" by blast
  with len show ?case by (intro exI [of _ "route_text junk r @ [CHR 0x0A] @ t"]) (simp add: get_single_route_def)
qed simp

lemma route_lines_header:
  assumes "header_ok l"
  shows "route_lines junk l =
    res_for (\<lambda>r msg. res_map (\<lambda>c. msg @ c @ [CHR 0x0A]) (get_single_route junk r)) (snd l)
      (''Destination Mask Gateway Nexthop Type Metric'' @ [CHR 0x0A] @ ''0.0.0.0 0.0.0.0 0.0.0.0 0 local 0'' @ [CHR 0x0A])"
  using assms header_text by (auto simp: route_lines_def header_ok_def get_single_route_def)

lemma message_fits:
  assumes "header_ok (routes rt)" "\<forall>r \<in> set (snd (routes rt)). route_ok r"
    and "route_table_len rt \<ge> int (Suc (length (snd (routes rt))))"
  shows "\<exists>msg. send_route_table junk rt = Ok msg \<and> int (length msg) < route_table_len rt * 80"
proof -
  obtain t where t: "route_lines junk (routes rt) =
      Ok ((''Destination Mask Gateway Nexthop Type Metric'' @ [CHR 0x0A] @ ''0.0.0.0 0.0.0.0 0.0.0.0 0 local 0'' @ [CHR 0x0A]) @ t)"
    "length t \<le> 79 * length (snd (routes rt))"
    using res_for_lines [OF assms(2)] route_lines_header [OF assms(1)] by metis
  have "int (79 + length t) < route_table_len rt * 80" using t(2) assms(3) by linarith
  with t(1) show ?thesis by (simp add: send_route_table_def)
qed

text \<open>
  When the table has a place for every node of the list, header included, as it has after reading the
  kernel's routes, the message with all routes fits into its buffer.
\<close>

theorem send_route_table_fits:
  assumes "header_ok (routes rt)" "\<forall>r \<in> set (snd (routes rt)). route_ok r"
    and "route_table_len rt \<ge> int (Suc (length (snd (routes rt))))"
  shows "\<exists>msg. send_route_table junk rt = Ok msg \<and> int (length msg) < route_table_len rt * 80"
  by (rule message_fits [OF assms])

theorem send_route_table_fits_witness:
  "\<exists>msg. send_route_table [] (init_route_table False\<lparr>route_table_len := 3, route_list := Some (zero_route, [sample_route 1, sample_route 2]), routes_global := True\<rparr>) = Ok msg \<and>
    int (length msg) < route_table_len (init_route_table False\<lparr>route_table_len := 3, route_list := Some (zero_route, [sample_route 1, sample_route 2]), routes_global := True\<rparr>) * 80"
proof (rule send_route_table_fits)
  have "zero_route = zero_route\<lparr>rt_dirty := 0\<rparr>" by (simp add: zero_route_def)
  then show "header_ok (routes (init_route_table False\<lparr>route_table_len := 3, route_list := Some (zero_route, [sample_route 1, sample_route 2]), routes_global := True\<rparr>))"
    unfolding header_ok_def routes_def by (auto intro: exI [of _ 0])
qed (simp_all add: routes_def route_ok_def sample_route_def zero_route_def)

text \<open>
  After reading an SNMP table the length does not count the header node: the first answer with a single route
  makes the message overflow its buffer.
\<close>

theorem snmp_single_route_overflow:
  "route_table_detect junk ty (Snmp j (Some [row])) (init_route_table True) = Err OutOfBounds"
proof -
  let ?r = "(snmp_route j row)\<lparr>rt_dirty := FRESH_STATUS\<rparr>"
  let ?l = "(zero_route, [?r])"
  have e: "enter_route (zero_route, []) (snmp_route j row) = ?l" by (subst enter_route_alt) simp_all
  have w: "watch_route_change ?l = (1, ?l, [Route_added ?r])"
    by (simp add: watch_route_change_def route_status_defs)
  have "zero_route = zero_route\<lparr>rt_dirty := 0\<rparr>" by (simp add: zero_route_def)
  then have h: "header_ok ?l" unfolding header_ok_def by auto
  have "res_bind (route_lines junk ?l) (\<lambda>msg. if int (length msg) < 80 then Ok msg else Err OutOfBounds) = Err OutOfBounds"
    unfolding route_lines_header [OF h] by (simp add: get_single_route_def)
  then show ?thesis
    by (simp add: route_table_detect_def route_table_get_def init_route_table_def NETLINK_ROUTE_def SNMP_ROUTE_def
        get_route_table_by_snmp_def routes_def put_routes_def e w send_route_table_def)
qed

end
