(* ===== verification/Route_Dump.thy ===== *)
theory Route_Dump
  imports Route_Table
begin

text \<open>
  From the bytes of a kernel answer to the routing table: the messages of a dump of routes, read by
  \<open>Netlink\<close> and entered by \<open>Route_Table\<close>, give exactly the routes they describe, and a round of the watch on
  them returns.
\<close>

section \<open>A dump of the kernel's routes\<close>

text \<open>
  The kernel's answer to the request, as \<^verbatim>\<open>rtnetlink(7)\<close> describes it: for each route a message with the
  header of the route (\<^verbatim>\<open>struct rtmsg\<close>) and attributes, each with its own number of data bytes, filled up to a
  multiple of four; and a last message of type \<^verbatim>\<open>NLMSG_DONE\<close>.
\<close>

type_synonym kattr = "nat \<times> bytes"

definition attr_size :: "kattr \<Rightarrow> nat" where
  "attr_size a = 4 + RTA_ALIGN (length (snd a))"

definition enc_attr :: "kattr \<Rightarrow> bytes" where
  "enc_attr a = enc16 (4 + length (snd a)) @ enc16 (fst a) @ snd a @ replicate (RTA_ALIGN (length (snd a)) - length (snd a)) 0"

record kroute =
  k_family :: u8
  k_dst_len :: u8
  k_src_len :: u8
  k_tos :: u8
  k_table :: u8
  k_protocol :: u8
  k_scope :: u8
  k_type :: u8
  k_flags :: u32
  k_attrs :: "kattr list"

definition k_size :: "kroute \<Rightarrow> nat" where
  "k_size k = 28 + sum_list (map attr_size (k_attrs k))"

text \<open>
  What the reader relies on: at most one attribute of each kind, four bytes in the attributes that hold an IPv4
  address or a number, and a prefix length of at most 32.  Type, table, scope, protocol, flags and all other
  attributes are free.
\<close>

definition kroute_ok :: "kroute \<Rightarrow> bool" where
  "kroute_ok k \<longleftrightarrow> distinct (map fst (k_attrs k)) \<and>
     (\<forall>a \<in> set (k_attrs k). fst a < 65536 \<and> length (snd a) < 4096 \<and>
        (fst a \<in> {RTA_DST, RTA_OIF, RTA_GATEWAY, RTA_PRIORITY} \<longrightarrow> length (snd a) = 4)) \<and>
     unat (k_dst_len k) \<le> 32 \<and> k_size k \<le> NL_PKT_BUF_SIZE"

definition enc_kroute :: "u32 \<Rightarrow> u32 \<Rightarrow> kroute \<Rightarrow> bytes" where
  "enc_kroute seq pid k =
     enc32 (word_of_nat (k_size k)) @ enc16 RTM_NEWROUTE @ enc16 NLM_F_MULTI @ enc32 seq @ enc32 pid @
     [k_family k, k_dst_len k, k_src_len k, k_tos k, k_table k, k_protocol k, k_scope k, k_type k] @
     enc32 (k_flags k) @ concat (map enc_attr (k_attrs k))"

definition enc_done :: "u32 \<Rightarrow> u32 \<Rightarrow> bytes" where
  "enc_done seq pid = enc32 20 @ enc16 NLMSG_DONE @ enc16 NLM_F_MULTI @ enc32 seq @ enc32 pid @ enc32 0"

text \<open>
  The routes the table is about: unicast IPv4 routes that are not cloned, not from a redirect, not bound to
  source addresses and have a single next hop.  Then the route such a message describes; an attribute is the
  number its four bytes stand for.
\<close>

definition kept :: "kroute \<Rightarrow> bool" where
  "kept k \<longleftrightarrow> unat (k_type k) = RTN_UNICAST \<and> unat (k_family k) = AF_INET \<and> k_flags k AND RTM_F_CLONED = 0 \<and>
     unat (k_protocol k) \<noteq> RTPROT_REDIRECT \<and> k_src_len k = 0 \<and> RTA_MULTIPATH \<notin> fst ` set (k_attrs k)"

definition le32 :: "bytes \<Rightarrow> u32" where
  "le32 bs = of_octets (unat (bs ! 0)) (unat (bs ! 1)) (unat (bs ! 2)) (unat (bs ! 3))"

definition k_attr :: "kroute \<Rightarrow> nat \<Rightarrow> u32 option" where
  "k_attr k t = map_option le32 (map_of (k_attrs k) t)"

definition kroute_route :: "kroute \<Rightarrow> route" where
  "kroute_route k =
     new_route (int (unat (k_protocol k)))
       \<lparr>pf_family = 2, pf_prefixlen = k_dst_len k, pf_prefix = (case k_attr k RTA_DST of Some d \<Rightarrow> d | None \<Rightarrow> 0)\<rparr>
       (k_attr k RTA_GATEWAY) (RTA_PREFSRC \<in> fst ` set (k_attrs k))
       (case k_attr k RTA_OIF of Some i \<Rightarrow> i | None \<Rightarrow> 0) (case k_attr k RTA_PRIORITY of Some m \<Rightarrow> m | None \<Rightarrow> 0)"

lemma length_enc_attr [simp]: "length (enc_attr a) = attr_size a"
  using RTA_ALIGN_ge(1) [of "length (snd a)"] by (simp add: enc_attr_def attr_size_def)

lemma RTA_ALIGN_attr: "RTA_ALIGN (4 + length (snd a)) = attr_size a"
proof -
  have "4 + length (snd a) + 3 = length (snd a) + 3 + 4" by simp
  then show ?thesis unfolding attr_size_def RTA_ALIGN_def by (simp only: div_add_self2) simp
qed

lemma rd32_le: "bytes_at buf p bs \<Longrightarrow> length bs = 4 \<Longrightarrow> rd32 buf p = Ok (le32 bs)"
proof -
  assume a: "bytes_at buf p bs" and l: "length bs = 4"
  then have "buf ! (p + i) = bs ! i" if "i < 4" for i using that by (simp add: bytes_at_def)
  from this [of 0] this [of 1] this [of 2] this [of 3] a l show ?thesis by (simp add: rd32_def le32_def bytes_at_def)
qed

section \<open>Attributes of a message\<close>

fun attr_tab :: "nat \<Rightarrow> nat \<Rightarrow> kattr list \<Rightarrow> (nat \<Rightarrow> nat option) \<Rightarrow> (nat \<Rightarrow> nat option)" where
  "attr_tab mx p [] tb = tb"
| "attr_tab mx p (a # as) tb = attr_tab mx (p + attr_size a) as (if fst a \<le> mx then tb(fst a \<mapsto> p) else tb)"

lemma enc_attrs_at:
  assumes "bytes_at buf p (concat (map enc_attr (a # as)))"
  shows "bytes_at buf p (enc16 (4 + length (snd a)))" "bytes_at buf (p + 2) (enc16 (fst a))" "bytes_at buf (p + 4) (snd a)"
    "bytes_at buf (p + attr_size a) (concat (map enc_attr as))"
proof -
  have "bytes_at buf p (enc_attr a)" and "bytes_at buf (p + attr_size a) (concat (map enc_attr as))"
    using assms by (simp_all add: bytes_at_append)
  then show "bytes_at buf p (enc16 (4 + length (snd a)))" "bytes_at buf (p + 2) (enc16 (fst a))" "bytes_at buf (p + 4) (snd a)"
    "bytes_at buf (p + attr_size a) (concat (map enc_attr as))"
    by (simp_all add: bytes_at_append enc_attr_def eval_nat_numeral)
qed

lemma parse_enc_attrs:
  assumes "bytes_at buf p (concat (map enc_attr as))" "\<forall>a \<in> set as. fst a < 65536 \<and> length (snd a) < 4096"
  shows "netlink_parse_rtattr buf mx p (int (sum_list (map attr_size as))) tb = Ok (attr_tab mx p as tb)"
  using assms
proof (induction as arbitrary: p tb)
  case Nil
  then show ?case by (subst netlink_parse_rtattr.simps) simp
next
  case (Cons a as)
  note b = enc_attrs_at [OF Cons.prems(1)]
  let ?n = "4 + length (snd a)"
  have rd: "rd16 buf p = Ok ?n" "rd16 buf (p + 2) = Ok (fst a)"
    using rd16_at [OF _ b(1)] rd16_at [OF _ b(2)] Cons.prems(2) by simp_all
  have le: "?n \<le> attr_size a" "4 \<le> attr_size a" using RTA_ALIGN_ge(1) [of "length (snd a)"] by (simp_all add: attr_size_def)
  have "netlink_parse_rtattr buf mx p (int (sum_list (map attr_size (a # as)))) tb =
      netlink_parse_rtattr buf mx (p + attr_size a) (int (sum_list (map attr_size as))) (if fst a \<le> mx then tb(fst a \<mapsto> p) else tb)"
    using le by (subst netlink_parse_rtattr.simps) (simp add: rd rd(2) [simplified] RTA_ALIGN_attr)
  also have "\<dots> = Ok (attr_tab mx p (a # as) tb)" using Cons.IH [OF b(4)] Cons.prems(2) by simp
  finally show ?case .
qed

lemma attr_tab_other: "t \<notin> fst ` set as \<Longrightarrow> attr_tab mx p as tb t = tb t"
  by (induction as arbitrary: p tb) auto

lemma attr_tab_None: "t \<le> mx \<Longrightarrow> attr_tab mx p as Map.empty t = None \<longleftrightarrow> t \<notin> fst ` set as"
proof -
  assume "t \<le> mx"
  then have "attr_tab mx p as tb t = None \<longleftrightarrow> t \<notin> fst ` set as \<and> tb t = None" for p tb
    by (induction as arbitrary: p tb) auto
  then show ?thesis by simp
qed

lemma rta_u32_attr_tab:
  assumes "bytes_at buf p (concat (map enc_attr as))" "distinct (map fst as)" "t \<le> mx"
    "\<forall>a \<in> set as. fst a = t \<longrightarrow> length (snd a) = 4"
  shows "rta_u32 buf (attr_tab mx p as tb) t =
    (if t \<in> fst ` set as then Ok (map_option le32 (map_of as t)) else rta_u32 buf tb t)"
  using assms
proof (induction as arbitrary: p tb)
  case (Cons a as)
  note b = enc_attrs_at(3,4) [OF Cons.prems(1)]
  show ?case
  proof (cases "t = fst a")
    case True
    with Cons.prems(2,3) have "attr_tab mx (p + attr_size a) as (tb(fst a \<mapsto> p)) t = Some p" by (subst attr_tab_other) auto
    moreover have "rd32 buf (p + 4) = Ok (le32 (snd a))" using b(1) Cons.prems(4) True by (intro rd32_le) auto
    ultimately show ?thesis using True Cons.prems(3) by (simp add: rta_u32_def)
  next
    case False
    let ?tb = "if fst a \<le> mx then tb(fst a \<mapsto> p) else tb"
    have "rta_u32 buf (attr_tab mx (p + attr_size a) as ?tb) t =
        (if t \<in> fst ` set as then Ok (map_option le32 (map_of as t)) else rta_u32 buf ?tb t)"
      using Cons.prems by (intro Cons.IH [OF b(2)]) auto
    with False show ?thesis by (auto simp: rta_u32_def)
  qed
qed simp

lemma rta_u32_attrs:
  assumes "bytes_at buf p (concat (map enc_attr (k_attrs k)))" "kroute_ok k" "t \<le> mx"
    "t \<in> {RTA_DST, RTA_OIF, RTA_GATEWAY, RTA_PRIORITY}"
  shows "rta_u32 buf (attr_tab mx p (k_attrs k) Map.empty) t = Ok (k_attr k t)"
proof -
  have "rta_u32 buf (attr_tab mx p (k_attrs k) Map.empty) t =
      (if t \<in> fst ` set (k_attrs k) then Ok (map_option le32 (map_of (k_attrs k) t)) else rta_u32 buf Map.empty t)"
    using assms by (intro rta_u32_attr_tab) (auto simp: kroute_ok_def)
  then show ?thesis
    using map_of_eq_None_iff [of "k_attrs k" t] by (auto simp: rta_u32_def [of buf Map.empty] k_attr_def)
qed

section \<open>Messages of a datagram\<close>

lemma length_enc_kroute: "length (enc_kroute seq pid k) = k_size k"
proof -
  have "length (concat (map enc_attr as)) = sum_list (map attr_size as)" for as by (induction as) simp_all
  then show ?thesis by (simp add: enc_kroute_def k_size_def)
qed

lemma k_size_dvd: "4 dvd k_size k"
proof -
  have "4 dvd sum_list (map attr_size as)" for as
    by (induction as) (auto simp: attr_size_def RTA_ALIGN_def)
  then show ?thesis by (simp add: k_size_def)
qed

lemma kroute_parts:
  assumes "bytes_at buf h (enc_kroute seq pid k)"
  shows "rd32 buf h = Ok (word_of_nat (k_size k))" "rd16 buf (h + 4) = Ok RTM_NEWROUTE"
    "rd32 buf (h + 12) = Ok pid" "rd8 buf (h + 16) = Ok (unat (k_family k))" "rd8 buf (h + 17) = Ok (unat (k_dst_len k))"
    "rd8 buf (h + 18) = Ok (unat (k_src_len k))" "rd8 buf (h + 21) = Ok (unat (k_protocol k))"
    "rd8 buf (h + 23) = Ok (unat (k_type k))"
    "rd32 buf (h + 24) = Ok (k_flags k)" "bytes_at buf (h + 28) (concat (map enc_attr (k_attrs k)))"
proof -
  let ?m = "[k_family k, k_dst_len k, k_src_len k, k_tos k, k_table k, k_protocol k, k_scope k, k_type k]"
  have b: "bytes_at buf h (enc32 (word_of_nat (k_size k)))" "bytes_at buf (h + 4) (enc16 RTM_NEWROUTE)"
    "bytes_at buf (h + 12) (enc32 pid)" "bytes_at buf (h + 16) ?m" "bytes_at buf (h + 24) (enc32 (k_flags k))"
    "bytes_at buf (h + 28) (concat (map enc_attr (k_attrs k)))"
    using assms unfolding enc_kroute_def bytes_at_append by (simp_all add: add.commute)
  show "rd32 buf h = Ok (word_of_nat (k_size k))" "rd16 buf (h + 4) = Ok RTM_NEWROUTE"
    "rd32 buf (h + 12) = Ok pid" "rd32 buf (h + 24) = Ok (k_flags k)" "bytes_at buf (h + 28) (concat (map enc_attr (k_attrs k)))"
    using b by (simp_all only: rd32_at) (simp_all add: rd16_at RTM_NEWROUTE_def)
  have m: "rd8 buf (h + 16 + i) = Ok (unat (?m ! i))" if "i < 8" for i
    using b(4) that by (auto simp: bytes_at_def rd8_def)
  show "rd8 buf (h + 16) = Ok (unat (k_family k))" "rd8 buf (h + 17) = Ok (unat (k_dst_len k))"
    "rd8 buf (h + 18) = Ok (unat (k_src_len k))" "rd8 buf (h + 21) = Ok (unat (k_protocol k))"
    "rd8 buf (h + 23) = Ok (unat (k_type k))"
    using m [of 0] m [of 1] m [of 2] m [of 5] m [of 7] by (simp_all add: add.commute)
qed

definition enter_kroute :: "kroute \<Rightarrow> rlist \<Rightarrow> rlist" where
  "enter_kroute k l = (if kept k then enter_route l (kroute_route k) else l)"

lemma fold_enter_kroute:
  "fold enter_kroute ks l = fold (\<lambda>r l. enter_route l r) (map kroute_route (filter kept ks)) l"
  by (induction ks arbitrary: l) (simp_all add: enter_kroute_def)

lemma netlink_routing_table_enc:
  assumes "bytes_at buf h (enc_kroute seq pid k)" "kroute_ok k" "9 \<le> rta_max"
  shows "netlink_routing_table rta_max buf h l = Ok (0, enter_kroute k l)"
proof -
  note parts = kroute_parts [OF assms(1)]
  let ?n = "sum_list (map attr_size (k_attrs k))"
  define w :: u32 where "w = word_of_nat (k_size k)"
  have n: "?n < 4096" using assms(2) by (simp add: kroute_ok_def k_size_def NL_PKT_BUF_SIZE_def)
  have len: "int_of_u32 (w - 28) = int ?n"
  proof -
    have "w - 28 = word_of_nat ?n" by (simp add: w_def k_size_def)
    moreover have "sint (word_of_nat ?n :: u32) = int ?n"
      using n by (simp add: signed_of_nat signed_take_bit_int_eq_self)
    ultimately show ?thesis by simp
  qed
  let ?tb = "attr_tab rta_max (h + 28) (k_attrs k) Map.empty"
  have tb: "netlink_parse_rtattr buf rta_max (h + 28) (int ?n) Map.empty = Ok ?tb"
    using assms(2) by (intro parse_enc_attrs [OF parts(10)]) (simp add: kroute_ok_def)
  note attr = rta_u32_attrs [OF parts(10) assms(2), of _ rta_max]
  note types = RTA_DST_def RTA_OIF_def RTA_GATEWAY_def RTA_PRIORITY_def RTA_MULTIPATH_def RTA_PREFSRC_def
  have u: "rta_u32 buf ?tb RTA_OIF = Ok (k_attr k RTA_OIF)" "rta_u32 buf ?tb RTA_PRIORITY = Ok (k_attr k RTA_PRIORITY)"
    "rta_u32 buf ?tb RTA_DST = Ok (k_attr k RTA_DST)" "rta_u32 buf ?tb RTA_GATEWAY = Ok (k_attr k RTA_GATEWAY)"
    using assms(3) by (auto intro!: attr simp: types)
  have m: "?tb RTA_MULTIPATH = None \<longleftrightarrow> RTA_MULTIPATH \<notin> fst ` set (k_attrs k)"
    "?tb RTA_PREFSRC = None \<longleftrightarrow> RTA_PREFSRC \<notin> fst ` set (k_attrs k)"
    using assms(3) by (auto intro!: attr_tab_None simp: types)
  have "route_of_attributes buf ?tb (unat (k_family k)) (unat (k_dst_len k)) (unat (k_protocol k)) l =
      Ok (0, if unat (k_family k) = AF_INET \<and> RTA_MULTIPATH \<notin> fst ` set (k_attrs k) then enter_route l (kroute_route k) else l)"
    by (simp add: route_of_attributes_def u m AF_INET_def route_add_ipv4_def kroute_route_def)
  moreover have "unat (k_src_len k) = 0 \<longleftrightarrow> k_src_len k = 0" by (simp add: unat_eq_0)
  ultimately show ?thesis
    by (simp add: netlink_routing_table_def parts(2-9) parts(1) [folded w_def] len tb enter_kroute_def kept_def)
qed

text \<open>The messages of the routes \<open>ks\<close>, one after the other.\<close>

definition enc_dump :: "u32 \<Rightarrow> u32 \<Rightarrow> kroute list \<Rightarrow> bytes" where
  "enc_dump seq pid ks = concat (map (enc_kroute seq pid) ks)"

lemma length_enc_dump: "28 * length ks \<le> length (enc_dump seq pid ks)"
  by (induction ks) (simp_all add: enc_dump_def length_enc_kroute k_size_def)

lemma nl_messages_dump:
  assumes "bytes_at buf h (enc_dump seq pid ks)" "\<forall>k \<in> set ks. kroute_ok k" "9 \<le> rta_max" "pid \<noteq> 0"
    and "length (enc_dump seq pid ks) \<le> 4096" "length ks < n"
  shows "nl_messages n \<lparr>is_cmd = False, cmd_pid = 0\<rparr> (netlink_routing_table rta_max buf) buf h
      (word_of_nat (length (enc_dump seq pid ks))) 0 l = Ok (Left 0 0 (fold enter_kroute ks l))"
  using assms
proof (induction ks arbitrary: h n l)
  case Nil
  then show ?case by (cases n) (simp_all add: enc_dump_def NLMSG_OK_def)
next
  case (Cons k ks)
  obtain m where n: "n = Suc m" "length ks < m" using Cons.prems(6) by (cases n) auto
  let ?rest = "length (enc_dump seq pid ks)"
  have d: "enc_dump seq pid (k # ks) = enc_kroute seq pid k @ enc_dump seq pid ks" by (simp add: enc_dump_def)
  have b: "bytes_at buf h (enc_kroute seq pid k)" "bytes_at buf (h + k_size k) (enc_dump seq pid ks)"
    using Cons.prems(1) unfolding d bytes_at_append length_enc_kroute by simp_all
  have k: "kroute_ok k" "28 \<le> k_size k" using Cons.prems(2) by (simp_all add: k_size_def)
  have le: "k_size k + ?rest \<le> 4096" using Cons.prems(5) unfolding d by (simp add: length_enc_kroute)
  define w s :: u32 where "w = word_of_nat (k_size k)" and "s = word_of_nat (k_size k + ?rest)"
  have u: "unat w = k_size k" "unat s = k_size k + ?rest"
    unfolding w_def s_def using le by (simp_all add: unsigned_of_nat take_bit_nat_eq_self del: of_nat_add)
  have al: "NLMSG_ALIGN w = w" "unat (NLMSG_ALIGN w) = k_size k"
  proof -
    have "unat (NLMSG_ALIGN w) = RTA_ALIGN (unat w)" using u(1) le by (intro unat_NLMSG_ALIGN) simp
    then show "unat (NLMSG_ALIGN w) = k_size k" using u(1) by (simp add: RTA_ALIGN_dvd k_size_dvd)
    then show "NLMSG_ALIGN w = w" using u(1) by (simp add: word_unat_eq_iff)
  qed
  have ok: "NLMSG_OK buf h s = Ok True"
    using kroute_parts(1) [OF b(1), folded w_def] u k(2) by (simp add: NLMSG_OK_def word_less_nat_alt word_le_nat_alt)
  have sw: "s - w = word_of_nat ?rest" unfolding s_def w_def by simp
  have "nl_messages n \<lparr>is_cmd = False, cmd_pid = 0\<rparr> (netlink_routing_table rta_max buf) buf h s 0 l =
      nl_messages m \<lparr>is_cmd = False, cmd_pid = 0\<rparr> (netlink_routing_table rta_max buf) buf (h + k_size k) (word_of_nat ?rest) 0
        (enter_kroute k l)"
    using kroute_parts(2,3) [OF b(1)] kroute_parts(1) [OF b(1), folded w_def] Cons.prems(4) al sw
    by (simp add: n(1) ok netlink_routing_table_enc [OF b(1) k(1) Cons.prems(3)] NLMSG_DONE_def NLMSG_ERROR_def RTM_NEWROUTE_def)
  moreover have "length (enc_dump seq pid (k # ks)) = k_size k + ?rest" unfolding d by (simp add: length_enc_kroute)
  ultimately show ?case
    using Cons.IH [OF b(2) _ Cons.prems(3,4) _ n(2), of "enter_kroute k l"] Cons.prems(2) le
    by (simp add: s_def)
qed

lemma bytes_at_recv:
  assumes "length dat \<le> NL_PKT_BUF_SIZE"
  shows "bytes_at (take NL_PKT_BUF_SIZE (dat @ drop (length dat) stale)) 0 dat"
  using assms by (simp add: bytes_at_def nth_append)

lemma done_message:
  assumes "bytes_at buf 0 (enc_done seq pid)"
  shows "nl_messages (Suc n) env f buf 0 20 ret s = Ok (Returned ret s)"
proof -
  have b: "bytes_at buf 0 (enc32 20)" "bytes_at buf 4 (enc16 NLMSG_DONE)"
    using assms unfolding enc_done_def bytes_at_append by simp_all
  have rd: "rd32 buf 0 = Ok 20" using rd32_at [OF b(1)] .
  have rt: "rd16 buf 4 = Ok NLMSG_DONE" using rd16_at [OF _ b(2)] by (simp add: NLMSG_DONE_def)
  have "NLMSG_OK buf 0 20 = Ok True" by (simp add: NLMSG_OK_def rd)
  then show ?thesis using rd rt by simp
qed

definition dump_answer :: "u32 \<Rightarrow> u32 \<Rightarrow> kroute list list \<Rightarrow> nl_recv list" where
  "dump_answer seq pid kss =
     map (\<lambda>ks. Recv_data (enc_dump seq pid ks) SIZEOF_SOCKADDR_NL False) kss @ [Recv_data (enc_done seq pid) SIZEOF_SOCKADDR_NL False]"

definition dump_ok :: "nat \<Rightarrow> u32 \<Rightarrow> u32 \<Rightarrow> kroute list list \<Rightarrow> bool" where
  "dump_ok rta_max seq pid kss \<longleftrightarrow> pid \<noteq> 0 \<and> RTA_MULTIPATH \<le> rta_max \<and>
     (\<forall>ks \<in> set kss. ks \<noteq> [] \<and> length (enc_dump seq pid ks) \<le> NL_PKT_BUF_SIZE \<and> (\<forall>k \<in> set ks. kroute_ok k))"

text \<open>The routes of the answer that the table is about.\<close>

definition dump_routes :: "kroute list list \<Rightarrow> route list" where
  "dump_routes kss = map kroute_route (filter kept (concat kss))"

lemma parse_dump:
  assumes "dump_ok rta_max seq pid kss"
  shows "netlink_parse_info \<lparr>is_cmd = False, cmd_pid = 0\<rparr> (netlink_routing_table rta_max) stale (dump_answer seq pid kss) 0 l =
    Ok (Some 0, fold (\<lambda>r l. enter_route l r) (dump_routes kss) l)"
  unfolding dump_routes_def fold_enter_kroute [symmetric]
  using assms
proof (induction kss arbitrary: l)
  case Nil
  have "length (enc_done seq pid) = 20" by (simp add: enc_done_def)
  moreover have "bytes_at (take NL_PKT_BUF_SIZE (enc_done seq pid @ drop (length (enc_done seq pid)) stale)) 0 (enc_done seq pid)"
    using calculation by (intro bytes_at_recv) (simp add: NL_PKT_BUF_SIZE_def)
  ultimately show ?case
    by (simp add: dump_answer_def done_message del: nl_messages.simps) (auto simp: enc_done_def enc32_def)
next
  case (Cons ks kss)
  let ?d = "enc_dump seq pid ks"
  have ks: "length ?d \<le> NL_PKT_BUF_SIZE" "ks \<noteq> []" "\<forall>k \<in> set ks. kroute_ok k" "9 \<le> rta_max" "pid \<noteq> 0"
    using Cons.prems by (auto simp: dump_ok_def RTA_MULTIPATH_def)
  have ne: "?d \<noteq> []" using length_enc_dump [of ks seq pid] ks(2) by (cases ks) auto
  have "length ks < Suc NL_PKT_BUF_SIZE" using length_enc_dump [of ks seq pid] ks(1) by linarith
  note msgs = nl_messages_dump [OF bytes_at_recv [OF ks(1)] ks(3-5) ks(1) [unfolded NL_PKT_BUF_SIZE_def] this]
  have "dump_answer seq pid (ks # kss) = Recv_data ?d SIZEOF_SOCKADDR_NL False # dump_answer seq pid kss"
    by (simp add: dump_answer_def)
  moreover have "dump_ok rta_max seq pid kss" using Cons.prems by (simp add: dump_ok_def)
  ultimately show ?case using ne Cons.IH by (simp add: msgs Let_def del: nl_messages.simps take_append)
qed

section \<open>A round on the kernel's routes\<close>

text \<open>The list between two rounds, with routes that can be printed.\<close>

definition table_ok :: "rlist \<Rightarrow> bool" where
  "table_ok l \<longleftrightarrow> polled l \<and> header_ok l \<and> (\<forall>r \<in> set (snd l). route_ok r)"

definition printable :: "rlist \<Rightarrow> bool" where
  "printable l \<longleftrightarrow> header_ok l \<and> (\<forall>r \<in> set (snd l). route_ok r)"

lemma route_ok_dirty [simp]: "route_ok (r\<lparr>rt_dirty := d\<rparr>) = route_ok r"
  by (simp add: route_ok_def)

lemma printable_enter: "printable l \<Longrightarrow> route_ok r \<Longrightarrow> printable (enter_route l r)"
  by (auto simp: printable_def header_ok_def enter_route_def add_route_def update_route_def
      dest!: subsetD [OF set_update_subset_insert] split: option.splits)

lemma printable_fold: "printable l \<Longrightarrow> \<forall>r \<in> set rs. route_ok r \<Longrightarrow> printable (fold (\<lambda>r l. enter_route l r) rs l)"
  by (induction rs arbitrary: l) (simp_all add: printable_enter)

lemma printable_refresh: "printable l \<Longrightarrow> printable (refresh_route_status l)"
proof -
  assume p: "printable l"
  have "\<forall>r \<in> set (snd (refresh_route_status l)). route_ok r"
    using p by (auto simp: snd_refresh printable_def dest: in_set_butlastD)
  moreover have "header_ok (refresh_route_status l)"
    using p by (cases "snd l") (auto simp: printable_def header_ok_def refresh_route_status_def Let_def)
  ultimately show ?thesis by (simp add: printable_def)
qed

lemma sint_bound: "\<bar>sint (w :: u32)\<bar> < 10 ^ 10"
  using sint_ge [of w] sint_lt [of w] by simp

lemma route_ok_kroute: "kroute_ok k \<Longrightarrow> route_ok (kroute_route k)"
  using sint_bound
  by (auto simp: route_ok_def kroute_route_def new_route_def nexthop_ipv4_ifindex_add_def nexthop_ipv4_add_def
      nexthop_ifindex_add_def zero_route_def kroute_ok_def Let_def split: option.splits)

text \<open>The list that netlink rounds work on.\<close>

definition kernel_list :: "route_table \<Rightarrow> rlist" where
  "kernel_list rt = (case route_list rt of None \<Rightarrow> (zero_route, []) | Some l \<Rightarrow> l)"

lemma zero_header: "header_ok (zero_route, rs)"
  unfolding header_ok_def by (rule exI [of _ 0]) (simp add: zero_route_def)

text \<open>The table after the answer has been entered.\<close>

definition entered_table :: "route_table \<Rightarrow> rlist \<Rightarrow> route_table" where
  "entered_table rt l = rt\<lparr>route_list := Some l, route_table_len := int (Suc (length (snd l))), routes_global := True\<rparr>"

lemma entered_table [simp]:
  "routes (entered_table rt l) = l" "acquire_type (entered_table rt l) = acquire_type rt"
  "routes (put_routes k (entered_table rt l)) = k" "kernel_list (put_routes k (entered_table rt l)) = k"
  "put_routes k (put_routes k' (entered_table rt l)) = put_routes k (entered_table rt l)"
  "acquire_type (put_routes k (entered_table rt l)) = acquire_type rt"
  "route_table_len (put_routes k (entered_table rt l)) = int (Suc (length (snd l)))"
  by (simp_all add: entered_table_def routes_def put_routes_def kernel_list_def)

lemma kernel_get:
  assumes "acquire_type rt = NETLINK_ROUTE" "dump_ok rta_max seq pid kss"
  shows "route_table_get (Kernel rta_max stale (dump_answer seq pid kss)) rt =
    Ok (Some (entered_table rt (fold (\<lambda>r l. enter_route l r) (dump_routes kss) (kernel_list rt))))"
  using parse_dump [OF assms(2), of stale "kernel_list rt"] assms(1)
  by (simp add: route_table_get_def get_route_table_by_netlink_def get_route_table_def kernel_list_def entered_table_def)

lemma message_after_watch:
  assumes "printable k" "length (snd k) \<le> length (snd l)"
  shows "\<exists>msg. send_route_table junk (put_routes k (entered_table rt l)) = Ok msg \<and> route_lines junk k = Ok msg"
proof -
  let ?rt = "put_routes k (entered_table rt l)"
  have "\<exists>msg. send_route_table junk ?rt = Ok msg \<and> int (length msg) < route_table_len ?rt * 80"
    using assms by (intro message_fits) (simp_all add: printable_def)
  then show ?thesis by (cases "route_lines junk k") (auto simp: send_route_table_def split: if_splits)
qed

lemma get_single_route_dirty [simp]: "get_single_route junk (r\<lparr>rt_dirty := d\<rparr>) = get_single_route junk r"
  by (simp add: get_single_route_def route_text_def)

lemma res_for_congr:
  "list_all2 (\<lambda>x y. \<forall>s. f x s = f y s) xs ys \<Longrightarrow> res_for f xs s = res_for f ys s"
proof (induction arbitrary: s rule: list_all2_induct)
  case (Cons x xs y ys)
  then show ?case by (cases "f y s") simp_all
qed simp

text \<open>The lines of the routes do not show the marks.\<close>

lemma route_lines_refresh: "route_lines junk (refresh_route_status l) = route_lines junk l"
proof -
  let ?f = "\<lambda>r msg. res_map (\<lambda>c. msg @ c @ [CHR 0x0A]) (get_single_route junk r)"
  have "list_all2 (\<lambda>x y. \<forall>s. ?f x s = ?f y s) (refresh_loop r rs) (r # rs)" for r rs
    by (induction rs arbitrary: r) simp_all
  from this [of "fst l" "snd l"] have "res_for ?f (refresh_loop (fst l) (snd l)) = res_for ?f (fst l # snd l)"
    by (intro ext res_for_congr)
  moreover have "refresh_loop (fst l) (snd l) \<noteq> []" by (cases "snd l") simp_all
  ultimately show ?thesis by (simp add: route_lines_def refresh_route_status_def Let_def)
qed

lemma refresh_keys: "rt_key ` set (snd (refresh_route_status l)) = rt_key ` set (snd l)"
  by (cases "snd l" rule: rev_cases) (auto simp: snd_refresh image_image)

text \<open>A change for the watch: what it takes for a round to report on its own.\<close>

definition route_change :: "route list \<Rightarrow> rlist \<Rightarrow> bool" where
  "route_change rs l \<longleftrightarrow>
     (\<exists>r \<in> set rs. rt_key r \<notin> rt_key ` set (snd l) \<and> count_list (map rt_key rs) (rt_key r) = 1) \<or>
     (\<exists>h \<in> set (butlast (snd l)). rt_key h \<notin> rt_key ` set rs) \<or>
     (snd l \<noteq> [] \<and> rt_dirty (last (snd l)) = FRESH_STATUS \<and> rt_key (last (snd l)) \<notin> rt_key ` set rs)"

text \<open>
  C9. A round of the route watch on an inside agent, for an answer of the kernel in any number of datagrams of at
  most 4096 bytes, with routes of any type, table, scope, protocol and flags and attributes of any kind and
  length (four bytes in the attributes for destination, interface, gateway and priority, no attribute twice, prefix
  lengths of at most 32).  The round returns: the bytes are decoded, the unicast IPv4 routes with a single next
  hop that are neither cloned nor redirects nor bound to sources are entered, all others are left out, and the
  message fits its buffer.  Afterwards the table holds exactly the routes entered and the first route ever
  entered, even when it is gone.  Exactly one message is sent, with the lines of all routes of the table,
  if the daemon asks for it (type 2), or a route of the answer is new and comes once, or an old route other than the
  first one ever entered is missing, or that one is missing and still marked fresh; none otherwise.
\<close>

theorem kernel_round_tracks_routes:
  assumes "acquire_type rt = NETLINK_ROUTE" "dump_ok rta_max seq pid kss" "table_ok (kernel_list rt)"
  shows "\<exists>rt' msg out.
    route_table_detect junk ty (Kernel rta_max stale (dump_answer seq pid kss)) rt =
      Ok (Some (rt', if ty = 2 \<or> route_change (dump_routes kss) (kernel_list rt) then [msg] else [], out)) \<and>
    route_lines junk (routes rt') = Ok msg \<and>
    acquire_type rt' = NETLINK_ROUTE \<and> routes rt' = kernel_list rt' \<and> table_ok (kernel_list rt') \<and>
    rt_key ` set (snd (routes rt')) = rt_key ` set (dump_routes kss) \<union>
      (if snd (kernel_list rt) = [] then {} else {rt_key (last (snd (kernel_list rt)))})"
proof -
  let ?rs = "dump_routes kss"
  let ?l = "kernel_list rt"
  let ?keep = "\<lambda>ns os. filter (\<lambda>h. rt_dirty h = NEW_STATUS \<or> rt_dirty h = FRESH_STATUS) (ns @ os)"
  have p: "polled ?l" "printable ?l" using assms(3) by (simp_all add: table_ok_def printable_def)
  obtain ns os where f: "fold (\<lambda>r l. enter_route l r) ?rs ?l = (fst ?l, ns @ os)" and e: "entered ?rs (snd ?l) ns os"
    and w: "watch_route_change (fold (\<lambda>r l. enter_route l r) ?rs ?l) =
       (if \<exists>h \<in> set (ns @ os). rt_dirty h \<noteq> NEW_STATUS then 1 else 0, (fst ?l, ?keep ns os), snd (snd (watch_loop (ns @ os))))"
    and p': "polled (refresh_route_status (fst ?l, ?keep ns os))"
    by (rule round_parts [OF p(1)])
  let ?k = "(fst ?l, ?keep ns os)" and ?ch = "\<exists>h \<in> set (ns @ os). rt_dirty h \<noteq> NEW_STATUS"
  let ?rt1 = "entered_table rt (fst ?l, ns @ os)"
  let ?rt' = "put_routes (refresh_route_status ?k) ?rt1"
  have "\<forall>r \<in> set ?rs. route_ok r" using assms(2) by (auto simp: dump_ok_def dump_routes_def intro: route_ok_kroute)
  then have "printable (fst ?l, ns @ os)" using printable_fold [OF p(2)] f by metis
  then have pk: "printable ?k" by (auto simp: printable_def header_ok_def)
  have "length (snd ?k) \<le> length (snd (fst ?l, ns @ os))" unfolding snd_conv by (rule length_filter_le)
  from message_after_watch [OF pk this] obtain msg where msg: "send_route_table junk (put_routes ?k ?rt1) = Ok msg"
    and lines: "route_lines junk ?k = Ok msg" by blast
  have ch: "?ch \<longleftrightarrow> route_change ?rs ?l" unfolding route_change_def by (rule entered_watch(2) [OF p(1) e])
  have d: "route_table_detect junk ty (Kernel rta_max stale (dump_answer seq pid kss)) rt =
      Ok (Some (?rt', if ty = 2 \<or> ?ch then [msg] else [], snd (snd (watch_loop (ns @ os)))))"
    using kernel_get [OF assms(1,2), of stale] w [unfolded f] msg unfolding route_table_detect_def f by simp
  have ln: "route_lines junk (routes ?rt') = Ok msg" unfolding entered_table route_lines_refresh by (rule lines)
  have ac: "acquire_type ?rt' = NETLINK_ROUTE" and rk: "routes ?rt' = kernel_list ?rt'" using assms(1) by simp_all
  have tk: "table_ok (kernel_list ?rt')"
    using p' printable_refresh [OF pk] unfolding table_ok_def printable_def entered_table by blast
  have ks: "rt_key ` set (snd (routes ?rt')) = rt_key ` set ?rs \<union> (if snd ?l = [] then {} else {rt_key (last (snd ?l))})"
    unfolding entered_table refresh_keys snd_conv by (rule entered_watch(1) [OF p(1) e])
  note facts = conjI [OF d [unfolded ch] conjI [OF ln conjI [OF ac conjI [OF rk conjI [OF tk ks]]]]]
  show ?thesis by (rule exI, rule exI, rule exI, rule facts)
qed

text \<open>A route, a local route and a route with next hops, as the kernel reports them.\<close>

definition sample_kroute :: kroute where
  "sample_kroute = \<lparr>k_family = 2, k_dst_len = 24, k_src_len = 0, k_tos = 0, k_table = 254, k_protocol = 2, k_scope = 253,
     k_type = 1, k_flags = 0, k_attrs = [(15, [254, 0, 0, 0]), (RTA_DST, [10, 0, 1, 0]), (RTA_PREFSRC, [10, 0, 1, 7]),
       (RTA_OIF, [2, 0, 0, 0]), (8, [8, 0, 2, 0, 220, 5, 0, 0, 1])]\<rparr>"

definition sample_local :: kroute where
  "sample_local = sample_kroute\<lparr>k_dst_len := 32, k_table := 255, k_scope := 254, k_type := 2\<rparr>"

definition sample_multi :: kroute where
  "sample_multi = sample_kroute\<lparr>k_protocol := 3, k_scope := 0, k_attrs := [(RTA_MULTIPATH, replicate 32 0)]\<rparr>"

lemma sample_dump_ok: "dump_ok 30 1 7 [[sample_kroute, sample_local], [sample_multi]]"
  by code_simp

lemma sample_dump_routes: "dump_routes [[sample_kroute, sample_local], [sample_multi]] = [kroute_route sample_kroute]"
  by code_simp

theorem kernel_round_tracks_routes_witness:
  "\<exists>rt' msg out.
    route_table_detect [] 1 (Kernel 30 [] (dump_answer 1 7 [[sample_kroute, sample_local], [sample_multi]])) (init_route_table False) =
      Ok (Some (rt', [msg], out)) \<and>
    rt_key ` set (snd (routes rt')) = {rt_key (kroute_route sample_kroute)}"
proof -
  have k: "kernel_list (init_route_table False) = (zero_route, [])" by (simp add: kernel_list_def init_route_table_def)
  then have "table_ok (kernel_list (init_route_table False))"
    using zero_header [of "[]"] by (simp add: table_ok_def polled_def)
  moreover have "acquire_type (init_route_table False) = NETLINK_ROUTE" by (simp add: init_route_table_def)
  moreover have "route_change [kroute_route sample_kroute] (zero_route, [])" by (simp add: route_change_def)
  ultimately show ?thesis
    using kernel_round_tracks_routes [OF _ sample_dump_ok, of "init_route_table False" "[]" 1 "[]"] k
    by (auto simp: sample_dump_routes)
qed

end
