(* ===== verification/Ini.thy ===== *)
theory Ini
  imports Inet Module_Manager
begin

text \<open>
  The string helpers of \<^verbatim>\<open>utils/utils.c\<close>, the reader of configuration files \<^verbatim>\<open>utils/ini.c\<close>, and the settings the
  information module reads with it (\<^verbatim>\<open>ini_parser\<close> of \<^verbatim>\<open>server/icm.c\<close>).  A C string is the list of its characters
  before the terminator.
\<close>

section \<open>String helpers\<close>

text \<open>\<^verbatim>\<open>%02d\<close> pads with zeros to two columns.\<close>

definition pad2 :: "int \<Rightarrow> string" where
  "pad2 i = (let d = dec_int i in replicate (2 - length d) CHR ''0'' @ d)"

definition PRINTTIME :: "tm \<Rightarrow> string" where
  "PRINTTIME t =
     (let y = dec_int (tm_year t + 1900)
      in replicate (4 - length y) CHR '' '' @ y @ ''-'' @ pad2 (tm_mon t + 1) @ ''-'' @ pad2 (tm_mday t) @ '' '' @
         pad2 (tm_hour t) @ '':'' @ pad2 (tm_min t) @ '':'' @ pad2 (tm_sec t))"

text \<open>
  The new content of the buffer and the returned length.  The loop that walks back over trailing white space
  stops at the first character that is none, which exists once leading white space is gone.
\<close>

definition strtrim :: "string \<Rightarrow> string \<times> nat" where
  "strtrim str =
     (if str = [] then (str, 0)
      else
        (let pch = dropWhile is_space str
         in if pch = [] then ([], 0)
            else (let t = rev (dropWhile is_space (rev pch)) in (t, length t))))"

definition adv_atoi :: "string option \<Rightarrow> int" where
  "adv_atoi str = (case str of None \<Rightarrow> -1 | Some s \<Rightarrow> int_of_u32 (u32_of_int (strtol s)))"

section \<open>Configuration files\<close>

definition PATH_MAX :: nat where "PATH_MAX = 4096"

text \<open>
  The lines that \<^verbatim>\<open>fgets(line, size, fp)\<close> returns one after the other, for a size of at least two: up to and including
  the next newline, and at most \<open>size - 1\<close> characters.
\<close>

fun fgets_line :: "nat \<Rightarrow> string \<Rightarrow> string \<times> string" where
  "fgets_line 0 s = ([], s)"
| "fgets_line (Suc n) [] = ([], [])"
| "fgets_line (Suc n) (c # s) =
     (if c = CHR 0x0A then ([c], s) else (let (l, r) = fgets_line n s in (c # l, r)))"

lemma fgets_line_length: "length (snd (fgets_line n s)) \<le> length s \<and> (0 < n \<and> s \<noteq> [] \<longrightarrow> length (snd (fgets_line n s)) < length s)"
proof (induction n s rule: fgets_line.induct)
  case (3 n c s)
  then show ?case by (cases "fgets_line n s") auto
qed simp_all

function fgets_lines :: "nat \<Rightarrow> string \<Rightarrow> string list" where
  "fgets_lines n s = (if s = [] \<or> n < 2 then [] else fst (fgets_line (n - 1) s) # fgets_lines n (snd (fgets_line (n - 1) s)))"
  by auto

termination fgets_lines
proof (relation "measure (\<lambda>(n, s). length s)")
  fix n :: nat and s :: string
  assume "\<not> (s = [] \<or> n < 2)"
  then show "((n, snd (fgets_line (n - 1) s)), n, s) \<in> measure (\<lambda>(n, s). length s)"
    using fgets_line_length [of "n - 1" s] by simp
qed simp

declare fgets_lines.simps [simp del]

text \<open>\<^verbatim>\<open>if((ptr = strchr(line, '#'))) *ptr = '\0';\<close>\<close>

definition strip_comment :: "string \<Rightarrow> string" where
  "strip_comment line = takeWhile (\<lambda>c. c \<noteq> CHR ''#'') line"

text \<open>
  \<^verbatim>\<open>strsep(&value, "=")\<close>: the text before the first delimiter and what follows it, \<open>None\<close> when there is none.
\<close>

definition strsep_eq :: "string \<Rightarrow> string \<times> string option" where
  "strsep_eq line =
     (let key = takeWhile (\<lambda>c. c \<noteq> CHR ''='') line; rest = dropWhile (\<lambda>c. c \<noteq> CHR ''='') line
      in (key, if rest = [] then None else Some (tl rest)))"

text \<open>
  A callback gets the section, the key and the value, each of which can be a null pointer, and returns a code and the
  new state.
\<close>

type_synonym 's ini_cb = "string option \<Rightarrow> string option \<Rightarrow> string option \<Rightarrow> 's \<Rightarrow> int \<times> 's"

text \<open>One line: the next section and state, or the code to stop with.\<close>

definition ini_line :: "'s ini_cb \<Rightarrow> string \<Rightarrow> string option \<Rightarrow> 's \<Rightarrow> (string option \<times> 's) + (int \<times> 's)" where
  "ini_line cb raw section s =
     (let (line, line_len) = strtrim (strip_comment raw)
      in if line_len = 0 then Inl (section, s)
         else if hd line = CHR ''['' \<and> line ! (line_len - 1) = CHR '']'' then
           (if line_len \<le> 2 then Inr (1, s)
            else (let name = take (line_len - 2) (tl line); (ret, s1) = cb (Some name) None None s
                  in if ret \<noteq> 0 then Inr (ret, s1) else Inl (Some name, s1)))
         else
           (let (k, v) = strsep_eq line; key = fst (strtrim k)
            in case v of
                 None \<Rightarrow> Inr (1, s)
               | Some val \<Rightarrow>
                   (let (ret, s1) = cb section (Some key) (Some (fst (strtrim val))) s
                    in if ret \<noteq> 0 then Inr (ret, s1) else Inl (section, s1))))"

fun ini_lines :: "'s ini_cb \<Rightarrow> string list \<Rightarrow> string option \<Rightarrow> 's \<Rightarrow> int \<times> 's" where
  "ini_lines cb [] section s = cb None None None s"
| "ini_lines cb (l # ls) section s =
     (case ini_line cb l section s of Inl (section1, s1) \<Rightarrow> ini_lines cb ls section1 s1 | Inr r \<Rightarrow> r)"

text \<open>\<open>file\<close> is the content of the file, \<open>None\<close> if it cannot be opened; the recursion of \<^verbatim>\<open>_parse_ini\<close> is commented out.\<close>

definition parse_ini :: "string option \<Rightarrow> 's ini_cb \<Rightarrow> 's \<Rightarrow> int \<times> 's" where
  "parse_ini file cb s = (case file of None \<Rightarrow> (1, s) | Some text \<Rightarrow> ini_lines cb (fgets_lines PATH_MAX text) None s)"

section \<open>Settings of the information module\<close>

text \<open>The threads whose intervals are configured.\<close>

datatype daemon_id = Routetable | Ifinfo | Devinfo | Spf_info | Ospf_ifinfo | Bgp_ifinfo | Bgp_pathinfo

record intervals =
  min_interval :: int
  max_interval :: int

text \<open>The sections of the file and the threads they configure.\<close>

definition ini_sections :: "(string \<times> daemon_id) list" where
  "ini_sections = [(''routetable'', Routetable), (''ifinfo'', Ifinfo), (''devinfo'', Devinfo), (''spf'', Spf_info),
     (''ospf_ifinfo'', Ospf_ifinfo), (''bgp_ifinfo'', Bgp_ifinfo), (''bgp_pathinfo'', Bgp_pathinfo)]"

definition ini_parser :: "(daemon_id \<Rightarrow> intervals) ini_cb" where
  "ini_parser section key val s =
     (case (section, key, val) of
        (Some sec, Some k, Some v) \<Rightarrow>
          (case map_of ini_sections sec of
             Some d \<Rightarrow>
               if k = ''min_interval'' then (0, s(d := (s d)\<lparr>min_interval := adv_atoi (Some v)\<rparr>))
               else if k = ''max_interval'' then (0, s(d := (s d)\<lparr>max_interval := adv_atoi (Some v)\<rparr>))
               else (0, s)
           | None \<Rightarrow> (0, s))
      | _ \<Rightarrow> (0, s))"

text \<open>The static variables before the file is read.\<close>

definition init_intervals :: "daemon_id \<Rightarrow> intervals" where
  "init_intervals d = \<lparr>min_interval = 0, max_interval = 0\<rparr>"

section \<open>Trimming\<close>

definition trimmed :: "string \<Rightarrow> bool" where
  "trimmed s \<longleftrightarrow> s \<noteq> [] \<and> \<not> is_space (hd s) \<and> \<not> is_space (last s)"

lemma dropWhile_hd: "dropWhile P xs \<noteq> [] \<Longrightarrow> \<not> P (hd (dropWhile P xs))"
  by (induction xs) auto

lemma last_dropWhile: "dropWhile P xs \<noteq> [] \<Longrightarrow> last (dropWhile P xs) = last xs"
  by (induction xs) auto

lemma strtrim_result:
  "snd (strtrim s) = length (fst (strtrim s)) \<and> (fst (strtrim s) \<noteq> [] \<longrightarrow> trimmed (fst (strtrim s)))"
proof -
  let ?p = "dropWhile is_space s"
  let ?t = "rev (dropWhile is_space (rev ?p))"
  have "trimmed ?t" if "?p \<noteq> []"
  proof -
    have "\<not> is_space (hd ?p)" by (rule dropWhile_hd [OF that])
    then have "\<exists>c \<in> set (rev ?p). \<not> is_space c" using that by (metis hd_in_set set_rev)
    then have ne: "dropWhile is_space (rev ?p) \<noteq> []" by (auto simp: dropWhile_eq_Nil_conv)
    have "hd ?t = hd ?p" using last_dropWhile [OF ne] that by (simp add: hd_rev last_rev)
    moreover have "\<not> is_space (last ?t)" using dropWhile_hd [OF ne] ne by (simp add: last_rev)
    ultimately show ?thesis using \<open>\<not> is_space (hd ?p)\<close> ne by (simp add: trimmed_def)
  qed
  then show ?thesis by (auto simp: strtrim_def Let_def)
qed

lemma strtrim_trimmed:
  assumes "trimmed x" "\<forall>c \<in> set w. is_space c"
  shows "strtrim (x @ w) = (x, length x)"
proof -
  have "dropWhile is_space (x @ w) = x @ w" using assms(1) by (cases x) (auto simp: trimmed_def)
  moreover have "dropWhile is_space (rev w @ rev x) = dropWhile is_space (rev x)"
    using assms(2) by (intro dropWhile_append2) simp
  moreover have "dropWhile is_space (rev x) = rev x"
    using assms(1) by (cases x rule: rev_cases) (auto simp: trimmed_def)
  ultimately show ?thesis using assms(1) by (simp add: strtrim_def trimmed_def)
qed

lemmas strtrim_id = strtrim_trimmed [of _ "[]", simplified]

section \<open>Lines\<close>

lemma fgets_line_newline:
  assumes "CHR 0x0A \<notin> set l" "length l < n"
  shows "fgets_line n (l @ CHR 0x0A # r) = (l @ [CHR 0x0A], r)"
  using assms
proof (induction l arbitrary: n)
  case Nil
  then show ?case by (cases n) simp_all
next
  case (Cons c l)
  then obtain m where "n = Suc m" by (cases n) auto
  moreover have "c \<noteq> CHR 0x0A" using Cons.prems(1) by auto
  ultimately show ?case using Cons by simp
qed

lemma fgets_lines_newline:
  assumes "CHR 0x0A \<notin> set l" "length l < n - 1"
  shows "fgets_lines n (l @ CHR 0x0A # r) = (l @ [CHR 0x0A]) # fgets_lines n r"
  using fgets_line_newline [OF assms] assms(2) by (subst fgets_lines.simps) simp

lemma fgets_lines_Nil [simp]: "fgets_lines n [] = []"
  by (subst fgets_lines.simps) simp

text \<open>A word: text that stands for itself in a line.\<close>

definition word_text :: "string \<Rightarrow> bool" where
  "word_text s \<longleftrightarrow> s \<noteq> [] \<and> (\<forall>c \<in> set s. \<not> is_space c \<and> c \<notin> {CHR ''#'', CHR ''='', CHR ''[''})"

lemma is_space_newline [simp]: "is_space (CHR 0x0A)"
  by (simp add: is_space_def)

lemma word_trimmed: "word_text s \<Longrightarrow> trimmed s"
  using hd_in_set [of s] last_in_set [of s] by (simp add: word_text_def trimmed_def)

lemma word_newline: "word_text s \<Longrightarrow> CHR 0x0A \<notin> set s"
  using is_space_newline unfolding word_text_def by blast

lemma ini_line_setting:
  assumes "word_text k" "word_text v"
  shows "ini_line cb (k @ ''='' @ v @ [CHR 0x0A]) sec s =
    (let (ret, s1) = cb sec (Some k) (Some v) s in if ret \<noteq> 0 then Inr (ret, s1) else Inl (sec, s1))"
proof -
  have c: "strip_comment (k @ ''='' @ v @ [CHR 0x0A]) = (k @ ''='' @ v) @ [CHR 0x0A]"
    using assms unfolding strip_comment_def by (subst takeWhile_eq_all_conv [THEN iffD2]) (auto simp: word_text_def)
  have t: "trimmed (k @ ''='' @ v)" using word_trimmed [OF assms(1)] word_trimmed [OF assms(2)] by (auto simp: trimmed_def)
  then have st: "strtrim ((k @ ''='' @ v) @ [CHR 0x0A]) = (k @ ''='' @ v, length (k @ ''='' @ v))"
    by (rule strtrim_trimmed) simp
  have h: "hd (k @ ''='' @ v) \<noteq> CHR ''[''" using assms(1) by (cases k) (auto simp: word_text_def)
  have "takeWhile (\<lambda>c. c \<noteq> CHR ''='') (k @ CHR ''='' # v) = k" "dropWhile (\<lambda>c. c \<noteq> CHR ''='') (k @ CHR ''='' # v) = CHR ''='' # v"
    using assms(1) by (auto simp: word_text_def takeWhile_append dropWhile_append)
  then have sp: "strsep_eq (k @ ''='' @ v) = (k, Some v)" by (simp add: strsep_eq_def)
  show ?thesis
    unfolding ini_line_def c st
    using h sp strtrim_id [OF word_trimmed [OF assms(1)]] strtrim_id [OF word_trimmed [OF assms(2)]]
    by (simp add: Let_def split: prod.splits)
qed

lemma ini_line_section:
  assumes "word_text n"
  shows "ini_line cb (''['' @ n @ '']'' @ [CHR 0x0A]) sec s =
    (let (ret, s1) = cb (Some n) None None s in if ret \<noteq> 0 then Inr (ret, s1) else Inl (Some n, s1))"
proof -
  have c: "strip_comment (''['' @ n @ '']'' @ [CHR 0x0A]) = (''['' @ n @ '']'') @ [CHR 0x0A]"
    using assms unfolding strip_comment_def by (subst takeWhile_eq_all_conv [THEN iffD2]) (auto simp: word_text_def)
  have t: "trimmed (''['' @ n @ '']'')" by (simp add: trimmed_def is_space_def)
  then have st: "strtrim ((''['' @ n @ '']'') @ [CHR 0x0A]) = (''['' @ n @ '']'', length (''['' @ n @ '']''))"
    by (rule strtrim_trimmed) simp
  have "n \<noteq> []" using assms by (simp add: word_text_def)
  then have l: "\<not> length (''['' @ n @ '']'') \<le> 2" by (cases n) auto
  show ?thesis
    unfolding ini_line_def c st using l by (simp add: Let_def nth_append split: prod.splits)
qed

section \<open>Reading the settings\<close>

text \<open>A file with the settings \<open>f\<close> of all threads.\<close>

definition icm_section :: "(daemon_id \<Rightarrow> nat \<times> nat) \<Rightarrow> string \<times> daemon_id \<Rightarrow> string" where
  "icm_section f x =
     ''['' @ fst x @ '']'' @ [CHR 0x0A] @ ''min_interval='' @ dec_nat (fst (f (snd x))) @ [CHR 0x0A] @
     ''max_interval='' @ dec_nat (snd (f (snd x))) @ [CHR 0x0A]"

definition icm_text :: "(daemon_id \<Rightarrow> nat \<times> nat) \<Rightarrow> string" where
  "icm_text f = concat (map (icm_section f) ini_sections)"

lemma word_dec_nat: "word_text (dec_nat n)"
proof -
  have "\<forall>c \<in> set (dec_nat n). is_digit c" using digits_val_dec_nat by blast
  moreover have "is_digit c \<Longrightarrow> \<not> is_space c \<and> c \<notin> {CHR ''#'', CHR ''='', CHR ''[''}" for c
    by (auto simp: is_digit_def is_space_def)
  ultimately show ?thesis by (simp add: word_text_def dec_nat_not_Nil)
qed

lemma adv_atoi_dec_nat: "n < 2 ^ 31 \<Longrightarrow> adv_atoi (Some (dec_nat n)) = int n"
  by (simp add: adv_atoi_def strtol_dec_nat LONG_MAX_def signed_of_nat signed_take_bit_int_eq_self)

lemma length_dec_nat_small: "n < 2 ^ 31 \<Longrightarrow> length (dec_nat n) \<le> 10"
  using length_dec_nat [of n 9] by simp

lemma ini_line_at:
  assumes "word_text k" "word_text v" "length k + length v < 4000"
  shows "ini_lines cb (fgets_lines PATH_MAX (k @ ''='' @ v @ [CHR 0x0A] @ rest)) sec s =
    (let (ret, s1) = cb sec (Some k) (Some v) s in if ret \<noteq> 0 then (ret, s1) else ini_lines cb (fgets_lines PATH_MAX rest) sec s1)"
proof -
  have "CHR 0x0A \<notin> set (k @ ''='' @ v)" using word_newline [OF assms(1)] word_newline [OF assms(2)] by auto
  moreover have "length (k @ ''='' @ v) < PATH_MAX - 1" using assms(3) by (simp add: PATH_MAX_def)
  ultimately have "fgets_lines PATH_MAX ((k @ ''='' @ v) @ CHR 0x0A # rest) = ((k @ ''='' @ v) @ [CHR 0x0A]) # fgets_lines PATH_MAX rest"
    by (rule fgets_lines_newline)
  then show ?thesis
    using ini_line_setting [OF assms(1,2), of cb sec s] by (simp add: Let_def split: prod.splits)
qed

lemma ini_section_at:
  assumes "word_text n" "length n < 4000"
  shows "ini_lines cb (fgets_lines PATH_MAX (''['' @ n @ '']'' @ [CHR 0x0A] @ rest)) sec s =
    (let (ret, s1) = cb (Some n) None None s in if ret \<noteq> 0 then (ret, s1) else ini_lines cb (fgets_lines PATH_MAX rest) (Some n) s1)"
proof -
  have "CHR 0x0A \<notin> set (''['' @ n @ '']'')" using word_newline [OF assms(1)] by auto
  moreover have "length (''['' @ n @ '']'') < PATH_MAX - 1" using assms(2) by (simp add: PATH_MAX_def)
  ultimately have "fgets_lines PATH_MAX ((''['' @ n @ '']'') @ CHR 0x0A # rest) = ((''['' @ n @ '']'') @ [CHR 0x0A]) # fgets_lines PATH_MAX rest"
    by (rule fgets_lines_newline)
  then show ?thesis
    using ini_line_section [OF assms(1), of cb sec s] by (simp add: Let_def split: prod.splits)
qed

lemma icm_section_read:
  assumes "map_of ini_sections n = Some d" "fst (f d) < 2 ^ 31" "snd (f d) < 2 ^ 31"
  shows "ini_lines ini_parser (fgets_lines PATH_MAX (icm_section f (n, d) @ rest)) sec s =
    ini_lines ini_parser (fgets_lines PATH_MAX rest) (Some n) (s(d := (s d)\<lparr>min_interval := int (fst (f d)), max_interval := int (snd (f d))\<rparr>))"
proof -
  have "list_all (\<lambda>x. word_text (fst x) \<and> length (fst x) < 100) ini_sections" by code_simp
  then have n: "word_text n" "length n < 4000"
    using map_of_SomeD [OF assms(1)] by (auto simp: list_all_iff)
  have k: "word_text ''min_interval''" "word_text ''max_interval''" by code_simp+
  have l: "length ''min_interval'' + length (dec_nat (fst (f d))) < 4000" "length ''max_interval'' + length (dec_nat (snd (f d))) < 4000"
    using length_dec_nat_small [OF assms(2)] length_dec_nat_small [OF assms(3)] by simp_all
  show ?thesis
    unfolding icm_section_def append_assoc fst_conv snd_conv ini_section_at [OF n]
      ini_line_at [OF k(1) word_dec_nat l(1)] ini_line_at [OF k(2) word_dec_nat l(2)]
    using assms by (simp add: ini_parser_def adv_atoi_dec_nat ini_line_at [OF k(1) word_dec_nat l(1), simplified]
        ini_line_at [OF k(2) word_dec_nat l(2), simplified])
qed

lemma icm_sections_read:
  assumes "\<forall>d. fst (f d) < 2 ^ 31 \<and> snd (f d) < 2 ^ 31" "\<forall>x \<in> set xs. map_of ini_sections (fst x) = Some (snd x)"
  shows "ini_lines ini_parser (fgets_lines PATH_MAX (concat (map (icm_section f) xs))) sec s =
    (0, fold (\<lambda>x s. s(snd x := \<lparr>min_interval = int (fst (f (snd x))), max_interval = int (snd (f (snd x)))\<rparr>)) xs s)"
  using assms(2)
proof (induction xs arbitrary: sec s)
  case Nil
  show ?case by (simp add: ini_parser_def)
next
  case (Cons x xs)
  have x: "map_of ini_sections (fst x) = Some (snd x)" using Cons.prems by simp
  have "ini_lines ini_parser (fgets_lines PATH_MAX (icm_section f (fst x, snd x) @ concat (map (icm_section f) xs))) sec s =
      ini_lines ini_parser (fgets_lines PATH_MAX (concat (map (icm_section f) xs))) (Some (fst x))
        (s(snd x := (s (snd x))\<lparr>min_interval := int (fst (f (snd x))), max_interval := int (snd (f (snd x)))\<rparr>))"
    using assms(1) by (intro icm_section_read [OF x]) simp_all
  moreover have "(s (snd x))\<lparr>min_interval := a, max_interval := b\<rparr> = \<lparr>min_interval = a, max_interval = b\<rparr>" for a b by simp
  ultimately show ?case using Cons.IH [of "Some (fst x)"] Cons.prems by simp
qed

text \<open>
  Reading a configuration file with a section for each thread gives every thread the intervals of its section.
\<close>

lemma icm_ini_settings:
  assumes "\<forall>d. fst (f d) < 2 ^ 31 \<and> snd (f d) < 2 ^ 31"
  shows "parse_ini (Some (icm_text f)) ini_parser init_intervals =
    (0, \<lambda>d. \<lparr>min_interval = int (fst (f d)), max_interval = int (snd (f d))\<rparr>)"
proof -
  have "\<forall>x \<in> set ini_sections. map_of ini_sections (fst x) = Some (snd x)" by (simp add: ini_sections_def)
  from icm_sections_read [OF assms this, of None init_intervals]
  have "ini_lines ini_parser (fgets_lines PATH_MAX (icm_text f)) None init_intervals =
    (0, fold (\<lambda>x s. s(snd x := \<lparr>min_interval = int (fst (f (snd x))), max_interval = int (snd (f (snd x)))\<rparr>)) ini_sections init_intervals)"
    by (simp add: icm_text_def)
  moreover have "fold (\<lambda>x s. s(snd x := \<lparr>min_interval = int (fst (f (snd x))), max_interval = int (snd (f (snd x)))\<rparr>)) ini_sections init_intervals d =
      \<lparr>min_interval = int (fst (f d)), max_interval = int (snd (f d))\<rparr>" for d
    by (cases d) (simp_all add: ini_sections_def)
  ultimately show ?thesis by (simp add: parse_ini_def fun_eq_iff)
qed

text \<open>A line without a value stops the reader with an error, and the settings after it are not read.\<close>

lemma ini_line_no_value:
  "word_text k \<Longrightarrow> ini_line cb (k @ [CHR 0x0A]) sec s = Inr (1, s)"
proof -
  assume k: "word_text k"
  have "strip_comment (k @ [CHR 0x0A]) = k @ [CHR 0x0A]"
    using k unfolding strip_comment_def by (subst takeWhile_eq_all_conv [THEN iffD2]) (auto simp: word_text_def)
  moreover have "strtrim (k @ [CHR 0x0A]) = (k, length k)" by (rule strtrim_trimmed [OF word_trimmed [OF k]]) simp
  moreover have "strsep_eq k = (k, None)"
    using k by (auto simp: strsep_eq_def word_text_def takeWhile_eq_all_conv dropWhile_eq_Nil_conv)
  moreover have "hd k \<noteq> CHR ''[''" "k \<noteq> []" using k by (cases k; auto simp: word_text_def)+
  ultimately show ?thesis by (simp add: ini_line_def)
qed

end
