(* ===== verification/Poll_Daemon.thy ===== *)
theory Poll_Daemon
  imports Ini
begin

text \<open>
  The polling threads of \<^verbatim>\<open>utils/thread_daemon.c\<close>: each calls its detection function again and again, with type 2
  (report everything) once in a while and type 1 (report changes) otherwise, and the detection of shortest path
  calculations (\<^verbatim>\<open>spf_detect\<close> of \<^verbatim>\<open>server/icm.c\<close>).
\<close>

section \<open>The loop of a thread\<close>

text \<open>The fields of \<^verbatim>\<open>struct PDaemon\<close> that the loop uses.\<close>

record pdaemon =
  run_count :: int
  pd_intervals :: intervals

text \<open>The argument of \<^verbatim>\<open>select\<close>: seconds and microseconds.\<close>

definition delay_time :: "int \<Rightarrow> int \<times> int" where
  "delay_time n = (n sdiv 1000, n smod 1000 * 1000)"

text \<open>One round: the type the detection function is called with, and the delay after it.\<close>

definition daemon_round :: "int \<Rightarrow> pdaemon \<Rightarrow> (pdaemon \<times> int \<times> (int \<times> int)) res" where
  "daemon_round max_loop_count p =
     res_bind (c_rem (run_count p + 1) max_loop_count) (\<lambda>rc.
       let p1 = p\<lparr>run_count := rc\<rparr>
       in Ok (p1, if rc = max_loop_count - 1 then 2 else 1, delay_time (min_interval (pd_intervals p))))"

text \<open>The first \<open>n\<close> rounds of the endless loop: the calls and delays in order.\<close>

fun daemon_rounds :: "nat \<Rightarrow> int \<Rightarrow> pdaemon \<Rightarrow> (pdaemon \<times> (int \<times> (int \<times> int)) list) res" where
  "daemon_rounds 0 m p = Ok (p, [])"
| "daemon_rounds (Suc n) m p =
     res_bind (daemon_round m p) (\<lambda>(p1, c).
       res_bind (daemon_rounds n m p1) (\<lambda>(p2, cs). Ok (p2, c # cs)))"

definition daemon_loop :: "nat \<Rightarrow> pdaemon \<Rightarrow> (pdaemon \<times> (int \<times> (int \<times> int)) list) res" where
  "daemon_loop n p =
     res_bind (c_div (max_interval (pd_intervals p)) (min_interval (pd_intervals p))) (\<lambda>max_loop_count.
       daemon_rounds n max_loop_count p)"

text \<open>The static variable of a thread with the settings read from the file.\<close>

definition configured :: "(daemon_id \<Rightarrow> intervals) \<Rightarrow> daemon_id \<Rightarrow> pdaemon" where
  "configured s d = \<lparr>run_count = 0, pd_intervals = s d\<rparr>"

section \<open>Shortest path calculations\<close>

text \<open>
  The areas, the count of each at the last report, and for each area the number of calculations that the router
  reports now.  The result has the new counts and the areas for which a packet of type \<^verbatim>\<open>OSPF_SPF\<close> is sent, in order.
\<close>

fun spf_detect :: "(u32 \<Rightarrow> int) \<Rightarrow> int \<Rightarrow> u32 list \<Rightarrow> int list \<Rightarrow> (int list \<times> u32 list) res" where
  "spf_detect getRouterSpfCount type [] spfcount = Ok (spfcount, [])"
| "spf_detect getRouterSpfCount type (az # azs) [] = Err OutOfBounds"
| "spf_detect getRouterSpfCount type (az # azs) (c # spfcount) =
     (let spfc = getRouterSpfCount az
      in res_bind (spf_detect getRouterSpfCount type azs spfcount) (\<lambda>(cs, sent).
           Ok (if spfc \<noteq> c \<or> type = 2 then (spfc # cs, az # sent) else (c # cs, sent))))"

section \<open>The schedule\<close>

lemma last_of_cycle:
  assumes "0 < (m :: int)"
  shows "a mod m = m - 1 \<longleftrightarrow> (a + 1) mod m = 0"
proof -
  have b: "0 \<le> a mod m" "a mod m < m" using assms by simp_all
  have "(a + 1) mod m = (a mod m + 1) mod m" by (simp add: mod_add_left_eq)
  also have "\<dots> = (if a mod m = m - 1 then 0 else a mod m + 1)" using b by simp
  finally show ?thesis using b by auto
qed

lemma daemon_rounds_schedule:
  assumes "0 < m" "run_count p = int k mod m"
  shows "\<exists>p'. daemon_rounds n m p = Ok (p', map (\<lambda>i. (if (int i + 1) mod m = 0 then 2 else 1,
    delay_time (min_interval (pd_intervals p)))) [Suc k..<Suc (k + n)])"
  using assms(2)
proof (induction n arbitrary: p k)
  case (Suc n)
  let ?p = "p\<lparr>run_count := int (Suc k) mod m\<rparr>"
  have b: "0 \<le> int k mod m" using assms(1) by simp
  then have rc: "(int k mod m + 1) smod m = int (Suc k) mod m"
    using assms(1) by (simp add: nonneg_smod mod_add_left_eq) (simp add: add.commute)
  have "int k mod m + 1 \<noteq> - (2 ^ 31)" using b by simp
  then have r: "daemon_round m p = Ok (?p, if int (Suc k) mod m = m - 1 then 2 else 1, delay_time (min_interval (pd_intervals p)))"
    using assms(1) Suc.prems by (simp add: daemon_round_def c_rem_def rc)
  obtain p' where "daemon_rounds n m ?p =
      Ok (p', map (\<lambda>i. (if (int i + 1) mod m = 0 then 2 else 1, delay_time (min_interval (pd_intervals ?p)))) [Suc (Suc k)..<Suc (Suc k + n)])"
    using Suc.IH [of ?p "Suc k"] by auto
  moreover have "[Suc k..<Suc (k + Suc n)] = Suc k # [Suc (Suc k)..<Suc (Suc k + n)]" by (simp add: upt_conv_Cons)
  ultimately show ?case using r last_of_cycle [OF assms(1), of "int (Suc k)"] by simp
qed simp

text \<open>
  C35. A thread whose section of the file has a positive smallest interval and a largest interval that is not below it:
  for any number of rounds the loop runs, its k-th call reports everything exactly if the quotient of the
  intervals divides k + 1, and it waits the smallest interval after each call, so that the time slept between
  two full reports is at most the largest interval.
\<close>

theorem configured_thread_schedule:
  assumes "\<forall>d. fst (f d) < 2 ^ 31 \<and> snd (f d) < 2 ^ 31" "0 < fst (f d)" "fst (f d) \<le> snd (f d)"
  shows "\<exists>p'. daemon_loop n (configured (snd (parse_ini (Some (icm_text f)) ini_parser init_intervals)) d) =
      Ok (p', map (\<lambda>k. (if Suc k mod (snd (f d) div fst (f d)) = 0 then 2 else 1, int (fst (f d) div 1000), int (fst (f d) mod 1000 * 1000)))
        [1..<Suc n]) \<and> (snd (f d) div fst (f d)) * fst (f d) \<le> snd (f d)"
proof -
  let ?m = "snd (f d) div fst (f d)"
  let ?p = "configured (snd (parse_ini (Some (icm_text f)) ini_parser init_intervals)) d"
  have p: "?p = \<lparr>run_count = 0, pd_intervals = \<lparr>min_interval = int (fst (f d)), max_interval = int (snd (f d))\<rparr>\<rparr>"
    using icm_ini_settings [OF assms(1)] by (simp add: configured_def)
  have m: "0 < ?m" using assms(2,3) by (simp add: div_greater_zero_iff)
  have d: "delay_time (int (fst (f d))) = (int (fst (f d) div 1000), int (fst (f d) mod 1000 * 1000))"
    by (simp add: delay_time_def nonneg_sdiv nonneg_smod zdiv_int zmod_int)
  have c: "(int i + 1) mod int ?m = 0 \<longleftrightarrow> Suc i mod ?m = 0" for i
  proof -
    have "(int i + 1) mod int ?m = int (Suc i mod ?m)" by (simp only: zmod_int of_nat_Suc add.commute)
    then show ?thesis by simp
  qed
  have "c_div (int (snd (f d))) (int (fst (f d))) = Ok (int ?m)"
    using assms(2) by (simp add: c_div_def nonneg_sdiv zdiv_int)
  then have "daemon_loop n ?p = daemon_rounds n (int ?m) ?p" by (simp add: daemon_loop_def p)
  moreover have "0 < int ?m" "run_count ?p = int 0 mod int ?m" using m by (simp_all add: p)
  ultimately have "\<exists>p'. daemon_loop n ?p = Ok (p', map (\<lambda>k. (if Suc k mod ?m = 0 then 2 else 1, int (fst (f d) div 1000), int (fst (f d) mod 1000 * 1000))) [1..<Suc n])"
    using daemon_rounds_schedule [of "int ?m" ?p 0 n] by (simp only: c p pdaemon.simps intervals.simps d One_nat_def add_0)
  moreover have "?m * fst (f d) \<le> snd (f d)" by (rule div_times_less_eq_dividend)
  ultimately show ?thesis by blast
qed

theorem configured_thread_schedule_witness:
  "\<exists>p'. daemon_loop 6 (configured (snd (parse_ini (Some (icm_text (\<lambda>d. (1500, 5000)))) ini_parser init_intervals)) Ifinfo) =
      Ok (p', [(1, 1, 500000), (2, 1, 500000), (1, 1, 500000), (1, 1, 500000), (2, 1, 500000), (1, 1, 500000)])"
  using configured_thread_schedule [of "\<lambda>d. (1500, 5000)" Ifinfo 6] by (auto simp: upt_rec)

text \<open>
  A thread without settings faults before its first round: the intervals of a thread whose section is missing, or
  of all threads if the file cannot be opened, are zero, and the loop divides by the smallest one.  So does, in
  its first round, a thread whose largest interval is below its smallest.
\<close>

theorem unconfigured_thread_faults:
  "daemon_loop n (configured (snd (parse_ini None ini_parser init_intervals)) d) = Err DivByZero \<and>
   (\<forall>p. 0 \<le> max_interval (pd_intervals p) \<and> max_interval (pd_intervals p) < min_interval (pd_intervals p) \<longrightarrow>
     daemon_loop (Suc n) p = Err DivByZero)"
proof
  show "daemon_loop n (configured (snd (parse_ini None ini_parser init_intervals)) d) = Err DivByZero"
    by (simp add: daemon_loop_def configured_def parse_ini_def init_intervals_def c_div_def)
next
  show "\<forall>p. 0 \<le> max_interval (pd_intervals p) \<and> max_interval (pd_intervals p) < min_interval (pd_intervals p) \<longrightarrow>
     daemon_loop (Suc n) p = Err DivByZero"
    by (auto simp: daemon_loop_def c_div_def nonneg_sdiv div_pos_pos_trivial daemon_round_def c_rem_def)
qed

theorem unconfigured_thread_faults_witness:
  "daemon_loop 1 \<lparr>run_count = 0, pd_intervals = \<lparr>min_interval = 5000, max_interval = 1000\<rparr>\<rparr> = Err DivByZero"
  using unconfigured_thread_faults [of 0 undefined] by simp

section \<open>Reports of shortest path calculations\<close>

text \<open>
  A round reports exactly the areas whose count differs from the last one, all of them in a full round, in the
  order of the areas, and the counts are those of the router afterwards.
\<close>

theorem spf_detect_reports:
  assumes "length spfcount = length azs"
  shows "spf_detect g ty azs spfcount =
    Ok (map g azs, map fst (filter (\<lambda>(az, c). g az \<noteq> c \<or> ty = 2) (zip azs spfcount)))"
  using assms
proof (induction azs spfcount rule: list_induct2')
qed (auto simp: Let_def)

theorem spf_detect_reports_witness:
  "spf_detect (\<lambda>a. if a = 1 then 8 else 3) 1 [0, 1] [3, 7] = Ok ([3, 8], [1])"
  using spf_detect_reports [of "[3, 7]" "[0, 1]" "\<lambda>a. if a = 1 then 8 else 3" 1] by simp

end
