(* ===== verification/Shm_Queue.thy ===== *)
theory Shm_Queue
  imports Bytes
begin

text \<open>
  The message queue of the logger in shared memory: the segment and its control fields (\<^verbatim>\<open>lib/shmem.c\<close>), and the
  critical sections of the writer and the reader (\<^verbatim>\<open>log_writer\<close>, \<^verbatim>\<open>log_reader\<close> of \<^verbatim>\<open>logger/logger.c\<close>).  The queue is a
  ring of blocks of fixed size; a message is a length and as many bytes.
\<close>

section \<open>The segment\<close>

definition BLOCK_SIZE :: nat where "BLOCK_SIZE = 4096"
definition MAX_BLOCK :: nat where "MAX_BLOCK = 20"

text \<open>The control fields at the start of the segment (\<^verbatim>\<open>struct shmqueue_ctl\<close>) and the bytes behind them.\<close>

record shmqueue =
  max_size :: int
  shm_head :: int
  shm_tail :: int
  shm_mem :: bytes

text \<open>
  \<open>existing\<close> is the segment that another process has made, and \<open>granted\<close> tells if \<^verbatim>\<open>shmget\<close> succeeds.  A new segment
  is filled with zeros.  \<open>None\<close> is an identifier that is not positive.
\<close>

definition create_shm :: "shmqueue option \<Rightarrow> bool \<Rightarrow> nat \<Rightarrow> shmqueue option" where
  "create_shm existing granted sz =
     (if \<not> granted then None
      else case existing of
        Some q \<Rightarrow> Some q
      | None \<Rightarrow> Some \<lparr>max_size = 0, shm_head = 0, shm_tail = 0, shm_mem = replicate sz 0\<rparr>)"

definition get_shmqueue_head :: "shmqueue option \<Rightarrow> int" where
  "get_shmqueue_head seg = (case seg of None \<Rightarrow> -1 | Some q \<Rightarrow> shm_head q)"

definition get_shmqueue_tail :: "shmqueue option \<Rightarrow> int" where
  "get_shmqueue_tail seg = (case seg of None \<Rightarrow> -1 | Some q \<Rightarrow> shm_tail q)"

definition get_shmqueue_length :: "shmqueue option \<Rightarrow> int" where
  "get_shmqueue_length seg = (case seg of None \<Rightarrow> -1 | Some q \<Rightarrow> max_size q)"

definition set_shmqueue_head :: "shmqueue option \<Rightarrow> int \<Rightarrow> shmqueue option" where
  "set_shmqueue_head seg h = map_option (\<lambda>q. q\<lparr>shm_head := h\<rparr>) seg"

definition set_shmqueue_tail :: "shmqueue option \<Rightarrow> int \<Rightarrow> shmqueue option" where
  "set_shmqueue_tail seg t = map_option (\<lambda>q. q\<lparr>shm_tail := t\<rparr>) seg"

definition set_shmqueue_length :: "shmqueue option \<Rightarrow> int \<Rightarrow> shmqueue option" where
  "set_shmqueue_length seg n = map_option (\<lambda>q. q\<lparr>max_size := n\<rparr>) seg"

text \<open>The size that the last \<^verbatim>\<open>create_shm\<close> of the process was called with; \<^verbatim>\<open>log_init\<close> is its only caller.\<close>

definition global_max_size :: nat where "global_max_size = MAX_BLOCK * BLOCK_SIZE"

text \<open>\<open>start_pos\<close> and the sum are \<^verbatim>\<open>unsigned int\<close>.\<close>

definition read_shm :: "shmqueue option \<Rightarrow> u32 \<Rightarrow> nat \<Rightarrow> bytes option res" where
  "read_shm seg start_pos len =
     (case seg of
        None \<Rightarrow> Ok None
      | Some q \<Rightarrow>
          if len = 0 then Ok None
          else if unat (start_pos + word_of_nat len) > global_max_size then Ok None
          else if unat start_pos + len \<le> length (shm_mem q) then Ok (Some (take len (drop (unat start_pos) (shm_mem q))))
          else Err OutOfBounds)"

definition write_shm :: "shmqueue option \<Rightarrow> bytes \<Rightarrow> u32 \<Rightarrow> nat \<Rightarrow> (int \<times> shmqueue option) res" where
  "write_shm seg buff start_pos len =
     (case seg of
        None \<Rightarrow> Ok (-1, seg)
      | Some q \<Rightarrow>
          if len = 0 then Ok (-1, seg)
          else if unat (start_pos + word_of_nat len) > global_max_size then Ok (-1, seg)
          else if length buff < len then Err OutOfBounds
          else res_bind (wr_bytes (shm_mem q) (unat start_pos) (take len buff)) (\<lambda>m. Ok (0, Some (q\<lparr>shm_mem := m\<rparr>))))"

section \<open>Writer and reader\<close>

text \<open>
  The critical section of \<^verbatim>\<open>log_writer\<close> for a packed message \<open>buff\<close>: the length in four bytes, the text, and
  what follows it in its memory.  The result of \<^verbatim>\<open>write_shm\<close> is ignored.
\<close>

definition log_writer :: "shmqueue option \<Rightarrow> bytes \<Rightarrow> (int \<times> shmqueue option) res" where
  "log_writer seg buff =
     (let head = get_shmqueue_head seg; tail = get_shmqueue_tail seg; size = get_shmqueue_length seg
      in res_bind (c_rem (tail + 1) size) (\<lambda>next_tail.
           if next_tail = head then Ok (-1, seg)
           else
             (let seg1 = set_shmqueue_tail seg next_tail
              in res_bind (c_strlen buff 4) (\<lambda>n.
                   res_bind (write_shm seg1 buff (u32_of_int (tail * int BLOCK_SIZE)) (n + 4)) (\<lambda>(r, seg2).
                     Ok (0, seg2))))))"

text \<open>The critical section of \<^verbatim>\<open>log_reader\<close>; \<open>None\<close> is the null pointer of an empty queue.\<close>

definition log_reader :: "shmqueue option \<Rightarrow> (bytes option \<times> shmqueue option) res" where
  "log_reader seg =
     (let head = get_shmqueue_head seg; tail = get_shmqueue_tail seg; size = get_shmqueue_length seg
      in if head = tail then Ok (None, seg)
         else
           res_bind (c_rem (head + 1) size) (\<lambda>next_head.
             let seg1 = set_shmqueue_head seg next_head
             in res_bind (read_shm seg1 (u32_of_int (head * int BLOCK_SIZE)) BLOCK_SIZE) (\<lambda>b.
                  case b of
                    None \<Rightarrow> Err NullDeref
                  | Some buff \<Rightarrow>
                      res_bind (rd32 buff 0) (\<lambda>w.
                        let n = int_of_u32 w
                        in if n < 0 \<or> int (length buff) < n + 4 then Err OutOfBounds
                           else Ok (Some (take (nat n) (drop 4 buff)), seg1)))))"

section \<open>The queue as a list\<close>

text \<open>
  A packed message as the queue expects it: a zero byte follows the text.  \<^verbatim>\<open>log_package_xml\<close> allocates that byte and does not
  write it (\<^verbatim>\<open>logger.c:228\<close>); the statements on \<open>packed\<close> are about the runs in which the memory held a zero there.  What
  happens otherwise is in \<open>unterminated_message_faults\<close>.
\<close>

definition packed :: "bytes \<Rightarrow> bytes" where
  "packed m = enc32 (word_of_nat (length m)) @ m @ [0]"

text \<open>A message that fits a block.\<close>

definition fits :: "bytes \<Rightarrow> bool" where
  "fits m \<longleftrightarrow> 0 \<notin> set m \<and> length m + 4 \<le> BLOCK_SIZE"

text \<open>The queue holds the messages \<open>ms\<close>, the first one in the block of the head.\<close>

definition holds :: "shmqueue \<Rightarrow> bytes list \<Rightarrow> bool" where
  "holds q ms \<longleftrightarrow> (\<exists>h < MAX_BLOCK. max_size q = int MAX_BLOCK \<and> shm_head q = int h \<and> length ms < MAX_BLOCK \<and>
     shm_tail q = int ((h + length ms) mod MAX_BLOCK) \<and> length (shm_mem q) = MAX_BLOCK * BLOCK_SIZE \<and>
     (\<forall>k < length ms. fits (ms ! k) \<and>
        bytes_at (shm_mem q) ((h + k) mod MAX_BLOCK * BLOCK_SIZE) (enc32 (word_of_nat (length (ms ! k))) @ ms ! k)))"

lemma unat_small: "n < 2 ^ 32 \<Longrightarrow> unat (word_of_nat n :: u32) = n"
  by (simp add: unsigned_of_nat take_bit_nat_eq_self)

lemma block_pos:
  "i < MAX_BLOCK \<Longrightarrow> unat (u32_of_int (int i * int BLOCK_SIZE)) = i * BLOCK_SIZE"
proof -
  assume "i < MAX_BLOCK"
  then have "i * 4096 < 2 ^ 32" by (simp add: MAX_BLOCK_def)
  then have "unat (word_of_nat (i * 4096) :: u32) = i * 4096" by (rule unat_small)
  moreover have "u32_of_int (int i * int BLOCK_SIZE) = word_of_nat (i * 4096)" by (simp add: BLOCK_SIZE_def)
  ultimately show ?thesis by (simp add: BLOCK_SIZE_def)
qed

lemma block_end:
  assumes "i < MAX_BLOCK" "n \<le> BLOCK_SIZE"
  shows "unat (u32_of_int (int i * int BLOCK_SIZE) + word_of_nat n) = i * BLOCK_SIZE + n" "i * BLOCK_SIZE + n \<le> global_max_size"
proof -
  have le: "i * 4096 + n \<le> 20 * 4096" using assms by (simp add: MAX_BLOCK_def BLOCK_SIZE_def)
  then have "unat (word_of_nat (i * 4096 + n) :: u32) = i * 4096 + n" by (intro unat_small) simp
  moreover have "u32_of_int (int i * int BLOCK_SIZE) + word_of_nat n = (word_of_nat (i * 4096 + n) :: u32)" by (simp add: BLOCK_SIZE_def)
  ultimately show "unat (u32_of_int (int i * int BLOCK_SIZE) + word_of_nat n) = i * BLOCK_SIZE + n" by (simp add: BLOCK_SIZE_def)
  show "i * BLOCK_SIZE + n \<le> global_max_size" using le by (simp add: global_max_size_def MAX_BLOCK_def BLOCK_SIZE_def)
qed

lemma next_block:
  "t < MAX_BLOCK \<Longrightarrow> c_rem (int t + 1) (int MAX_BLOCK) = Ok (int (Suc t mod MAX_BLOCK))"
proof -
  have "(int t + 1) smod 20 = int (Suc t mod 20)" by (simp only: nonneg_smod zmod_int of_nat_Suc of_nat_numeral) (simp add: nonneg_smod add.commute)
  then show ?thesis by (simp add: c_rem_def MAX_BLOCK_def)
qed

lemma other_blocks: "i < (j :: nat) \<or> j < i \<Longrightarrow> n \<le> B \<Longrightarrow> m \<le> B \<Longrightarrow> i * B + n \<le> j * B \<or> j * B + m \<le> i * B"
proof -
  assume "i < j \<or> j < i" "n \<le> B" "m \<le> B"
  moreover have "Suc i * B \<le> j * B" if "i < j" using that by (intro mult_le_mono1) simp
  moreover have "Suc j * B \<le> i * B" if "j < i" using that by (intro mult_le_mono1) simp
  ultimately show ?thesis by auto
qed

lemma ring_place_inj:
  "a < MAX_BLOCK \<Longrightarrow> b < MAX_BLOCK \<Longrightarrow> (h + a) mod MAX_BLOCK = (h + b) mod MAX_BLOCK \<Longrightarrow> a = b"
proof -
  assume "a < MAX_BLOCK" "b < MAX_BLOCK" and e: "(h + a) mod MAX_BLOCK = (h + b) mod MAX_BLOCK"
  moreover have "a mod MAX_BLOCK = b mod MAX_BLOCK"
    using e unfolding nat_mod_eq_iff by (simp add: add.assoc)
  ultimately show "a = b" by simp
qed

text \<open>The two critical sections at a place of the ring.\<close>

lemma log_writer_at:
  assumes "max_size q = int MAX_BLOCK" "shm_head q = int h" "shm_tail q = int t" "t < MAX_BLOCK" "Suc t mod MAX_BLOCK \<noteq> h"
    "0 \<notin> set m" "length m < 2 ^ 31 - 2 ^ 17"
  shows "log_writer (Some q) (packed m) =
    (let q' = q\<lparr>shm_tail := int (Suc t mod MAX_BLOCK)\<rparr>
     in if t * BLOCK_SIZE + (length m + 4) \<le> global_max_size
        then res_bind (wr_bytes (shm_mem q) (t * BLOCK_SIZE) (enc32 (word_of_nat (length m)) @ m)) (\<lambda>mem. Ok (0, Some (q'\<lparr>shm_mem := mem\<rparr>)))
        else Ok (0, Some q'))"
proof -
  have l: "c_strlen (packed m) 4 = Ok (length m)"
    using c_strlen_at [OF assms(6), of "enc32 (word_of_nat (length m))" 4 "[]"] by (simp add: packed_def)
  have tk: "take (length m + 4) (packed m) = enc32 (word_of_nat (length m)) @ m" "\<not> length (packed m) < length m + 4"
    by (simp_all add: packed_def)
  have "t * 4096 + (length m + 4) < 2 ^ 32" using assms(4,7) by (simp add: MAX_BLOCK_def)
  then have "unat (word_of_nat (t * 4096 + (length m + 4)) :: u32) = t * 4096 + (length m + 4)" by (rule unat_small)
  then have en: "unat (u32_of_int (int t * int BLOCK_SIZE) + word_of_nat (length m + 4)) = t * BLOCK_SIZE + (length m + 4)"
    by (simp add: BLOCK_SIZE_def)
  show ?thesis
    unfolding log_writer_def get_shmqueue_head_def get_shmqueue_tail_def get_shmqueue_length_def option.case assms(1-3) Let_def
      next_block [OF assms(4)] res_bind.simps l write_shm_def set_shmqueue_tail_def option.map en block_pos [OF assms(4)] tk
    using assms(5) tk by (cases "wr_bytes (shm_mem q) (t * BLOCK_SIZE) (enc32 (word_of_nat (length m)) @ m)") (simp_all add: not_le)
qed

text \<open>When the byte behind the text is not zero, \<^verbatim>\<open>strlen\<close> reads behind the message.\<close>

lemma unterminated_message_faults:
  assumes "max_size q = int MAX_BLOCK" "shm_head q = int h" "shm_tail q = int t" "t < MAX_BLOCK" "Suc t mod MAX_BLOCK \<noteq> h"
    "0 \<notin> set m" "final \<noteq> 0"
  shows "log_writer (Some q) (enc32 (word_of_nat (length m)) @ m @ [final]) = Err OutOfBounds"
proof -
  have "find_index (\<lambda>b. b = 0) (m @ [final]) = None" using assms(6,7) by (auto simp: find_index_None)
  then have "c_strlen (enc32 (word_of_nat (length m)) @ m @ [final]) 4 = Err OutOfBounds" by (simp add: c_strlen_def)
  then show ?thesis
    unfolding log_writer_def get_shmqueue_head_def get_shmqueue_tail_def get_shmqueue_length_def option.case assms(1-3) Let_def
      next_block [OF assms(4)] res_bind.simps using assms(5) by simp
qed

lemma log_reader_at:
  assumes "max_size q = int MAX_BLOCK" "shm_head q = int h" "shm_tail q \<noteq> int h" "h < MAX_BLOCK"
    "length (shm_mem q) = MAX_BLOCK * BLOCK_SIZE" "bytes_at (shm_mem q) (h * BLOCK_SIZE) (enc32 w)"
  shows "log_reader (Some q) =
    (if sint w < 0 \<or> int BLOCK_SIZE < sint w + 4 then Err OutOfBounds
     else Ok (Some (take (nat (sint w)) (drop (h * BLOCK_SIZE + 4) (shm_mem q))), Some (q\<lparr>shm_head := int (Suc h mod MAX_BLOCK)\<rparr>)))"
proof -
  let ?buff = "take BLOCK_SIZE (drop (h * BLOCK_SIZE) (shm_mem q))"
  have le: "h * BLOCK_SIZE + BLOCK_SIZE \<le> length (shm_mem q)"
    using block_end(2) [OF assms(4) order_refl] by (simp add: assms(5) global_max_size_def)
  then have lb: "length ?buff = BLOCK_SIZE" by simp
  have "read_shm (Some q') (u32_of_int (int h * int BLOCK_SIZE)) BLOCK_SIZE = Ok (Some (take BLOCK_SIZE (drop (h * BLOCK_SIZE) (shm_mem q'))))"
    if "shm_mem q' = shm_mem q" for q'
    using block_end [OF assms(4) order_refl] block_pos [OF assms(4)] le that by (simp add: read_shm_def BLOCK_SIZE_def)
  moreover have "bytes_at ?buff 0 (enc32 w)" using assms(6) le by (auto simp: bytes_at_def BLOCK_SIZE_def)
  then have "rd32 ?buff 0 = Ok w" by (rule rd32_at)
  moreover have "take (nat (sint w)) (drop 4 ?buff) = take (nat (sint w)) (drop (h * BLOCK_SIZE + 4) (shm_mem q))"
    if "\<not> int BLOCK_SIZE < sint w + 4"
    using that by (simp add: drop_take add.commute BLOCK_SIZE_def)
  ultimately show ?thesis
    using assms(3) next_block [OF assms(4)] lb
    by (simp add: log_reader_def get_shmqueue_head_def get_shmqueue_tail_def get_shmqueue_length_def assms(1,2)
        set_shmqueue_head_def Let_def)
qed

lemma holds_append:
  assumes "holds q ms" "length ms < MAX_BLOCK - 1" "fits m"
  shows "\<exists>q'. log_writer (Some q) (packed m) = Ok (0, Some q') \<and> holds q' (ms @ [m])"
proof -
  obtain h where h: "h < MAX_BLOCK" "max_size q = int MAX_BLOCK" "shm_head q = int h"
    "shm_tail q = int ((h + length ms) mod MAX_BLOCK)" "length (shm_mem q) = MAX_BLOCK * BLOCK_SIZE"
    "\<forall>k < length ms. fits (ms ! k) \<and>
        bytes_at (shm_mem q) ((h + k) mod MAX_BLOCK * BLOCK_SIZE) (enc32 (word_of_nat (length (ms ! k))) @ ms ! k)"
    using assms(1) unfolding holds_def by blast
  define t where "t = (h + length ms) mod MAX_BLOCK"
  let ?bs = "enc32 (word_of_nat (length m)) @ m"
  have t: "t < MAX_BLOCK" by (simp add: t_def MAX_BLOCK_def)
  have nt: "Suc t mod MAX_BLOCK = (h + Suc (length ms)) mod MAX_BLOCK" by (simp add: t_def mod_Suc_eq)
  have free: "Suc t mod MAX_BLOCK \<noteq> h"
    using ring_place_inj [of "Suc (length ms)" 0 h] assms(2) h(1) unfolding nt by (auto simp: MAX_BLOCK_def)
  have m: "0 \<notin> set m" "length m + 4 \<le> BLOCK_SIZE" using assms(3) by (simp_all add: fits_def)
  have "t * BLOCK_SIZE + length ?bs \<le> length (shm_mem q)"
    using block_end(2) [OF t m(2)] by (simp add: h(5) global_max_size_def add.commute)
  then obtain mem where mem: "wr_bytes (shm_mem q) (t * BLOCK_SIZE) ?bs = Ok mem" by (auto simp: wr_bytes_def)
  define q' where "q' = q\<lparr>shm_tail := int (Suc t mod MAX_BLOCK), shm_mem := mem\<rparr>"
  have "log_writer (Some q) (packed m) = Ok (0, Some q')"
    using log_writer_at [OF h(2,3) h(4) [folded t_def] t free m(1)] m(2) block_end(2) [OF t m(2)] mem
    by (simp add: q'_def Let_def BLOCK_SIZE_def)
  moreover have "holds q' (ms @ [m])"
    unfolding holds_def
  proof (intro exI [of _ h] conjI allI impI)
    fix k assume k: "k < length (ms @ [m])"
    show "fits ((ms @ [m]) ! k)" using k h(6) assms(3) by (auto simp: nth_append less_Suc_eq)
    show "bytes_at (shm_mem q') ((h + k) mod MAX_BLOCK * BLOCK_SIZE) (enc32 (word_of_nat (length ((ms @ [m]) ! k))) @ (ms @ [m]) ! k)"
    proof (cases "k < length ms")
      case True
      then have "(h + k) mod MAX_BLOCK \<noteq> t" using ring_place_inj [of k "length ms" h] assms(2) unfolding t_def by linarith
      moreover have "length (enc32 (word_of_nat (length (ms ! k))) @ ms ! k) \<le> BLOCK_SIZE" "length ?bs \<le> BLOCK_SIZE"
        using h(6) True m(2) by (simp_all add: fits_def add.commute)
      ultimately have "(h + k) mod MAX_BLOCK * BLOCK_SIZE + length (enc32 (word_of_nat (length (ms ! k))) @ ms ! k) \<le> t * BLOCK_SIZE \<or>
          t * BLOCK_SIZE + length ?bs \<le> (h + k) mod MAX_BLOCK * BLOCK_SIZE"
        by (intro other_blocks) linarith+
      then show ?thesis using h(6) True bytes_at_kept [OF mem] by (simp add: q'_def nth_append)
    next
      case False
      then have "k = length ms" using k by simp
      then show ?thesis using bytes_at_written [OF mem] by (simp add: q'_def t_def)
    qed
  qed (use h nt assms(2) length_wr_bytes [OF mem] in \<open>simp_all add: q'_def MAX_BLOCK_def\<close>)
  ultimately show ?thesis by blast
qed

lemma holds_full:
  assumes "holds q ms" "length ms = MAX_BLOCK - 1"
  shows "log_writer (Some q) b = Ok (-1, Some q)"
proof -
  obtain h where h: "h < MAX_BLOCK" "max_size q = int MAX_BLOCK" "shm_head q = int h" "shm_tail q = int ((h + length ms) mod MAX_BLOCK)"
    using assms(1) unfolding holds_def by blast
  have "Suc ((h + length ms) mod MAX_BLOCK) mod MAX_BLOCK = h" using h(1) unfolding assms(2) MAX_BLOCK_def by presburger
  moreover have "(h + length ms) mod MAX_BLOCK < MAX_BLOCK" by (simp add: MAX_BLOCK_def)
  ultimately show ?thesis
    using next_block by (simp add: log_writer_def get_shmqueue_head_def get_shmqueue_tail_def get_shmqueue_length_def h)
qed

lemma holds_empty: "holds q [] \<Longrightarrow> log_reader (Some q) = Ok (None, Some q)"
  by (auto simp: holds_def log_reader_def get_shmqueue_head_def get_shmqueue_tail_def)

lemma holds_first:
  assumes "holds q (m # ms)"
  shows "\<exists>q'. log_reader (Some q) = Ok (Some m, Some q') \<and> holds q' ms"
proof -
  obtain h where h: "h < MAX_BLOCK" "max_size q = int MAX_BLOCK" "shm_head q = int h" "length ms < MAX_BLOCK - 1"
    "shm_tail q = int ((h + Suc (length ms)) mod MAX_BLOCK)" "length (shm_mem q) = MAX_BLOCK * BLOCK_SIZE"
    and b: "\<And>k. k < Suc (length ms) \<Longrightarrow> fits ((m # ms) ! k) \<and>
        bytes_at (shm_mem q) ((h + k) mod MAX_BLOCK * BLOCK_SIZE) (enc32 (word_of_nat (length ((m # ms) ! k))) @ (m # ms) ! k)"
    using assms unfolding holds_def by (auto simp: less_diff_conv)
  have m: "fits m" "bytes_at (shm_mem q) (h * BLOCK_SIZE) (enc32 (word_of_nat (length m)))" "bytes_at (shm_mem q) (h * BLOCK_SIZE + 4) m"
    using b [of 0] h(1) by (simp_all add: bytes_at_append)
  have ne: "shm_tail q \<noteq> int h"
    using ring_place_inj [of "Suc (length ms)" 0 h] h(1,4) by (auto simp: MAX_BLOCK_def h(5))
  have dat: "take (length m) (drop (h * BLOCK_SIZE + 4) (shm_mem q)) = m"
    using m(3) bytes_at_take_drop unfolding bytes_at_def by blast
  have len: "sint (word_of_nat (length m) :: u32) = int (length m)"
    using m(1) by (simp add: fits_def BLOCK_SIZE_def signed_of_nat signed_take_bit_int_eq_self)
  define q' where "q' = q\<lparr>shm_head := int (Suc h mod MAX_BLOCK)\<rparr>"
  have "log_reader (Some q) = Ok (Some m, Some q')"
    using log_reader_at [OF h(2,3) ne h(1,6) m(2)] m(1) dat by (simp add: len q'_def fits_def)
  moreover have "holds q' ms"
    unfolding holds_def
  proof (intro exI [of _ "Suc h mod MAX_BLOCK"] conjI allI impI)
    fix k assume k: "k < length ms"
    have "(Suc h mod MAX_BLOCK + k) mod MAX_BLOCK = (h + Suc k) mod MAX_BLOCK" by (simp add: mod_add_left_eq)
    then show "fits (ms ! k)" "bytes_at (shm_mem q') ((Suc h mod MAX_BLOCK + k) mod MAX_BLOCK * BLOCK_SIZE) (enc32 (word_of_nat (length (ms ! k))) @ ms ! k)"
      using b [of "Suc k"] k by (simp_all add: q'_def)
  qed (use h in \<open>simp_all add: q'_def MAX_BLOCK_def mod_add_left_eq\<close>)
  ultimately show ?thesis by blast
qed

lemma holds_length: "holds q ms \<Longrightarrow> length ms \<le> MAX_BLOCK - 1"
  by (auto simp: holds_def)

section \<open>Bounded queues\<close>

text \<open>Operations on a queue, their results, and what they do on a list.\<close>

datatype 'm fifo_op = Put 'm | Get

datatype 'm fifo_result = Put_result int | Get_result "'m option"

fun fifo_run :: "('q \<Rightarrow> 'm \<Rightarrow> (int \<times> 'q) res) \<Rightarrow> ('q \<Rightarrow> ('m option \<times> 'q) res) \<Rightarrow> 'm fifo_op list \<Rightarrow> 'q \<Rightarrow> ('m fifo_result list \<times> 'q) res" where
  "fifo_run put get [] q = Ok ([], q)"
| "fifo_run put get (Put m # ops) q =
     res_bind (put q m) (\<lambda>(r, q1). res_bind (fifo_run put get ops q1) (\<lambda>(rs, q2). Ok (Put_result r # rs, q2)))"
| "fifo_run put get (Get # ops) q =
     res_bind (get q) (\<lambda>(r, q1). res_bind (fifo_run put get ops q1) (\<lambda>(rs, q2). Ok (Get_result r # rs, q2)))"

fun fifo_spec :: "nat \<Rightarrow> 'm fifo_op list \<Rightarrow> 'm list \<Rightarrow> 'm fifo_result list \<times> 'm list" where
  "fifo_spec cap [] ms = ([], ms)"
| "fifo_spec cap (Put m # ops) ms =
     (if length ms < cap then (let (rs, ms1) = fifo_spec cap ops (ms @ [m]) in (Put_result 0 # rs, ms1))
      else (let (rs, ms1) = fifo_spec cap ops ms in (Put_result (-1) # rs, ms1)))"
| "fifo_spec cap (Get # ops) [] = (let (rs, ms1) = fifo_spec cap ops [] in (Get_result None # rs, ms1))"
| "fifo_spec cap (Get # ops) (m # ms) = (let (rs, ms1) = fifo_spec cap ops ms in (Get_result (Some m) # rs, ms1))"

locale bounded_fifo =
  fixes rep :: "'q \<Rightarrow> 'm list \<Rightarrow> bool"
    and ok :: "'m \<Rightarrow> bool"
    and put :: "'q \<Rightarrow> 'm \<Rightarrow> (int \<times> 'q) res"
    and get :: "'q \<Rightarrow> ('m option \<times> 'q) res"
    and cap :: nat
  assumes put_free: "rep q ms \<Longrightarrow> length ms < cap \<Longrightarrow> ok m \<Longrightarrow> \<exists>q'. put q m = Ok (0, q') \<and> rep q' (ms @ [m])"
    and put_full: "rep q ms \<Longrightarrow> length ms = cap \<Longrightarrow> put q m = Ok (-1, q)"
    and get_empty: "rep q [] \<Longrightarrow> get q = Ok (None, q)"
    and get_first: "rep q (m # ms) \<Longrightarrow> \<exists>q'. get q = Ok (Some m, q') \<and> rep q' ms"
    and bounded: "rep q ms \<Longrightarrow> length ms \<le> cap"
begin

lemma run_refines:
  assumes "rep q ms" "\<forall>m. Put m \<in> set ops \<longrightarrow> ok m"
  shows "\<exists>q'. fifo_run put get ops q = Ok (fst (fifo_spec cap ops ms), q') \<and> rep q' (snd (fifo_spec cap ops ms))"
  using assms
proof (induction ops arbitrary: q ms)
  case (Cons op ops)
  have ops: "\<forall>m. Put m \<in> set ops \<longrightarrow> ok m" using Cons.prems(2) by simp
  show ?case
  proof (cases op)
    case (Put m)
    show ?thesis
    proof (cases "length ms < cap")
      case True
      obtain q1 where "put q m = Ok (0, q1)" "rep q1 (ms @ [m])" using put_free [OF Cons.prems(1) True] Cons.prems(2) Put by auto
      with Cons.IH [OF this(2) ops] True Put show ?thesis by (auto split: prod.splits)
    next
      case False
      then have "put q m = Ok (-1, q)" using put_full [OF Cons.prems(1)] bounded [OF Cons.prems(1)] by simp
      with Cons.IH [OF Cons.prems(1) ops] False Put show ?thesis by (auto split: prod.splits)
    qed
  next
    case Get
    show ?thesis
    proof (cases ms)
      case Nil
      then have "get q = Ok (None, q)" using get_empty Cons.prems(1) by simp
      with Cons.IH [OF Cons.prems(1) ops] Nil Get show ?thesis by (auto split: prod.splits)
    next
      case (Cons m ms')
      obtain q1 where "get q = Ok (Some m, q1)" "rep q1 ms'" using get_first Cons.prems(1) Cons by blast
      with Cons.IH [OF this(2) ops] Cons Get show ?thesis by (auto split: prod.splits)
    qed
  qed
qed simp

end

text \<open>The ring in shared memory is such a queue, with room for one message less than it has blocks.\<close>

definition shm_holds :: "shmqueue option \<Rightarrow> bytes list \<Rightarrow> bool" where
  "shm_holds seg ms \<longleftrightarrow> (\<exists>q. seg = Some q \<and> holds q ms)"

definition shm_put :: "shmqueue option \<Rightarrow> bytes \<Rightarrow> (int \<times> shmqueue option) res" where
  "shm_put seg m = log_writer seg (packed m)"

interpretation shm: bounded_fifo shm_holds fits shm_put log_reader "MAX_BLOCK - 1"
proof unfold_locales
  fix seg ms m
  show "\<exists>seg'. shm_put seg m = Ok (0, seg') \<and> shm_holds seg' (ms @ [m])"
    if "shm_holds seg ms" "length ms < MAX_BLOCK - 1" "fits m"
    using that holds_append unfolding shm_holds_def shm_put_def by blast
  show "shm_put seg m = Ok (-1, seg)" if "shm_holds seg ms" "length ms = MAX_BLOCK - 1"
    using that holds_full unfolding shm_holds_def shm_put_def by blast
  show "log_reader seg = Ok (None, seg)" if "shm_holds seg []"
    using that holds_empty unfolding shm_holds_def by blast
  show "\<exists>seg'. log_reader seg = Ok (Some m, seg') \<and> shm_holds seg' ms" if "shm_holds seg (m # ms)"
    using that holds_first unfolding shm_holds_def by blast
  show "length ms \<le> MAX_BLOCK - 1" if "shm_holds seg ms"
    using that holds_length unfolding shm_holds_def by blast
qed

text \<open>\<^verbatim>\<open>log_init\<close>: the segment, and the number of its blocks.\<close>

definition log_init_shm :: "shmqueue option \<Rightarrow> bool \<Rightarrow> shmqueue option" where
  "log_init_shm existing granted = set_shmqueue_length (create_shm existing granted (MAX_BLOCK * BLOCK_SIZE)) (int MAX_BLOCK)"

lemma log_init_holds: "shm_holds (log_init_shm None True) []"
  by (simp add: shm_holds_def holds_def log_init_shm_def create_shm_def set_shmqueue_length_def MAX_BLOCK_def)

text \<open>
  C23. The queue in a new segment, used through its writer and its reader by any sequence of operations on messages that
  fit a block, with a zero byte behind their text: the operations return, and their results are those of a list to which at most nineteen messages
  are appended and from which the first is taken.
\<close>

theorem shm_queue_refines_list:
  assumes "\<forall>m. Put m \<in> set ops \<longrightarrow> fits m"
  shows "\<exists>seg. fifo_run shm_put log_reader ops (log_init_shm None True) = Ok (fst (fifo_spec 19 ops []), seg) \<and>
    shm_holds seg (snd (fifo_spec 19 ops []))"
  using shm.run_refines [OF log_init_holds assms] by (simp add: MAX_BLOCK_def)

theorem shm_queue_refines_list_witness:
  "\<exists>seg. fifo_run shm_put log_reader [Put [1, 2], Put [3], Get, Get, Get] (log_init_shm None True) =
    Ok ([Put_result 0, Put_result 0, Get_result (Some [1, 2]), Get_result (Some [3]), Get_result None], seg)"
  using shm_queue_refines_list [of "[Put [1, 2], Put [3], Get, Get, Get]"] by (auto simp: fits_def BLOCK_SIZE_def)

text \<open>
  A message longer than a block is not cut off.  It is written over the beginning of the next block, and the reader
  that comes to it copies behind its buffer; in a block so near to the end that the message does not fit the segment,
  nothing is written, and the queue counts a message all the same.
\<close>

theorem long_message_not_cut_off:
  assumes "holds q []" "0 \<notin> set m" "BLOCK_SIZE < length m + 4" "length m < 2 ^ 31 - 2 ^ 17"
  shows "\<exists>q'. log_writer (Some q) (packed m) = Ok (0, Some q') \<and> shm_tail q' = shm_tail q + 1 - (if shm_tail q = 19 then 20 else 0) \<and>
    (if shm_head q * 4096 + int (length m) + 4 \<le> 81920 then log_reader (Some q') = Err OutOfBounds else shm_mem q' = shm_mem q)"
proof -
  obtain h where h: "h < MAX_BLOCK" "max_size q = int MAX_BLOCK" "shm_head q = int h" "shm_tail q = int h"
    "length (shm_mem q) = MAX_BLOCK * BLOCK_SIZE"
    using assms(1) by (auto simp: holds_def)
  have ne: "Suc h mod MAX_BLOCK \<noteq> h" and tv: "int (Suc h mod MAX_BLOCK) = int h + 1 - (if int h = 19 then 20 else 0)"
    using h(1) by (cases "h = 19"; simp add: MAX_BLOCK_def)+
  note w = log_writer_at [OF h(2-4,1) ne assms(2,4)]
  define q1 where "q1 = q\<lparr>shm_tail := int (Suc h mod MAX_BLOCK)\<rparr>"
  show ?thesis
  proof (cases "h * BLOCK_SIZE + (length m + 4) \<le> global_max_size")
    case True
    then obtain mem where mem: "wr_bytes (shm_mem q) (h * BLOCK_SIZE) (enc32 (word_of_nat (length m)) @ m) = Ok mem"
      using h(5) by (auto simp: wr_bytes_def global_max_size_def)
    let ?q = "q1\<lparr>shm_mem := mem\<rparr>"
    have "bytes_at mem (h * BLOCK_SIZE) (enc32 (word_of_nat (length m)))"
      using bytes_at_written [OF mem] by (simp add: bytes_at_append)
    moreover have "sint (word_of_nat (length m) :: u32) = int (length m)"
      using assms(4) by (simp add: signed_of_nat signed_take_bit_int_eq_self)
    ultimately have "log_reader (Some ?q) = Err OutOfBounds"
      using log_reader_at [of ?q h] h ne length_wr_bytes [OF mem] assms(3) by (simp add: q1_def)
    moreover have "log_writer (Some q) (packed m) = Ok (0, Some ?q)" using w True mem by (simp add: q1_def Let_def)
    ultimately show ?thesis using True tv h(3,4) by (auto simp: q1_def global_max_size_def MAX_BLOCK_def BLOCK_SIZE_def)
  next
    case False
    then have "log_writer (Some q) (packed m) = Ok (0, Some q1)" using w by (simp add: q1_def Let_def)
    then show ?thesis using False tv h(3,4) by (auto simp: q1_def global_max_size_def MAX_BLOCK_def BLOCK_SIZE_def)
  qed
qed

theorem long_message_not_cut_off_witness:
  "\<exists>q'. log_writer (log_init_shm None True) (packed (replicate 5000 1)) = Ok (0, Some q') \<and> log_reader (Some q') = Err OutOfBounds"
proof -
  obtain q where q: "log_init_shm None True = Some q" "holds q []" using log_init_holds by (auto simp: shm_holds_def)
  have "shm_head q = 0" using q(1) by (auto simp: log_init_shm_def create_shm_def set_shmqueue_length_def)
  then show ?thesis using long_message_not_cut_off [OF q(2), of "replicate 5000 1"] q(1) by (auto simp: BLOCK_SIZE_def)
qed

end
