(* ===== verification/Logger.thy ===== *)
theory Logger
  imports Ini Shm_Queue
begin

text \<open>
  The log of the modules (\<^verbatim>\<open>logger/logger.c\<close>): the types of messages and the file that enables them, and the way of a
  message from the call of \<^verbatim>\<open>logger\<close> to the bytes that \<^verbatim>\<open>log_writer\<close> puts into the queue.  The text that the format and
  its arguments give is an argument, and the serialisation of an XML document by libxml2 a parameter.
\<close>

section \<open>Types of messages\<close>

definition MAX_NAME_LEN :: nat where "MAX_NAME_LEN = 50"
definition MAX_BUFF_LEN :: nat where "MAX_BUFF_LEN = 10240"
definition MAX_TYPES :: nat where "MAX_TYPES = 1024"

text \<open>Seconds and microseconds of \<^verbatim>\<open>struct timeval\<close>.\<close>

type_synonym timeval = "int \<times> int"

record logtype =
  lt_name :: string
  lt_index :: nat
  lt_last_time :: timeval
  lt_flag :: bool

text \<open>
  The names of the nodes behind the header of \<^verbatim>\<open>typelist\<close>, and the used entries of \<^verbatim>\<open>typeaddr\<close>, \<^verbatim>\<open>type_total\<close> many.
\<close>

record logtypes =
  typelist :: "string list"
  typeaddr :: "logtype list"

text \<open>The last time of a new type is not set: \<open>junk\<close> is what its memory holds.\<close>

definition log_type_add :: "timeval \<Rightarrow> string \<Rightarrow> bool \<Rightarrow> logtypes \<Rightarrow> (int \<times> logtypes) res" where
  "log_type_add junk typename enabled ts =
     (if typename \<in> set (typelist ts) then Ok (-1, ts)
      else if MAX_NAME_LEN \<le> length typename \<or> MAX_TYPES \<le> length (typeaddr ts) then Err OutOfBounds
      else Ok (0, ts\<lparr>typelist := typelist ts @ [typename],
             typeaddr := typeaddr ts @ [\<lparr>lt_name = typename, lt_index = length (typeaddr ts), lt_last_time = junk, lt_flag = enabled\<rparr>]\<rparr>))"

definition get_logtype_addr :: "logtypes \<Rightarrow> string \<Rightarrow> nat option" where
  "get_logtype_addr ts name = find_index (\<lambda>t. lt_flag t \<and> lt_name t = name) (typeaddr ts)"

section \<open>The file of types\<close>

text \<open>\<^verbatim>\<open>strtok(s, "=")\<close>: the next token and what is left, \<open>None\<close> for the null pointer.\<close>

definition strtok_eq :: "string \<Rightarrow> (string \<times> string) option" where
  "strtok_eq s =
     (let t = dropWhile (\<lambda>c. c = CHR ''='') s
      in if t = [] then None
         else Some (takeWhile (\<lambda>c. c \<noteq> CHR ''='') t, tl (dropWhile (\<lambda>c. c \<noteq> CHR ''='') t)))"

definition parase_line :: "timeval \<Rightarrow> string \<Rightarrow> logtypes \<Rightarrow> logtypes res" where
  "parase_line junk line ts =
     (if line \<noteq> [] \<and> hd line = CHR ''#'' then Ok ts
      else case strtok_eq line of
        None \<Rightarrow> Err NullDeref
      | Some (name, rest) \<Rightarrow>
          if MAX_NAME_LEN \<le> length name then Err OutOfBounds
          else case strtok_eq rest of
            None \<Rightarrow> Err NullDeref
          | Some (tok, _) \<Rightarrow>
              res_map snd (log_type_add junk name (take 4 tok = ''true'' \<or> take 4 tok = ''TRUE'') ts))"

text \<open>\<open>file\<close> is the content of the file, \<open>None\<close> if it cannot be opened.\<close>

definition parse_conf :: "timeval \<Rightarrow> string \<Rightarrow> logtypes \<Rightarrow> logtypes res" where
  "parse_conf junk text ts = res_for (parase_line junk) (fgets_lines 1024 text) ts"

definition read_conf :: "timeval \<Rightarrow> string option \<Rightarrow> logtypes \<Rightarrow> logtypes res" where
  "read_conf junk file ts = (case file of None \<Rightarrow> Ok ts | Some text \<Rightarrow> parse_conf junk text ts)"

text \<open>A new header; the array of addresses keeps its entries.\<close>

definition log_type_init :: "timeval \<Rightarrow> string option \<Rightarrow> logtypes \<Rightarrow> logtypes res" where
  "log_type_init junk file ts = read_conf junk file (ts\<lparr>typelist := []\<rparr>)"

definition no_types :: logtypes where
  "no_types = \<lparr>typelist = [], typeaddr = []\<rparr>"

section \<open>Messages\<close>

record logmsg =
  msg_name :: string
  msg_record_time :: timeval
  msg_last_time :: timeval
  msg_type :: nat
  msg_data :: string

text \<open>
  \<^verbatim>\<open>get_typeinfo\<close>: the times and the type of a message of this name, and the new time of the type; \<open>None\<close> is the type
  \<open>-1\<close>.  \<open>now1\<close> and \<open>now2\<close> are what the two calls of \<^verbatim>\<open>gettimeofday\<close> return.
\<close>

definition get_typeinfo :: "timeval \<Rightarrow> timeval \<Rightarrow> string \<Rightarrow> logtypes \<Rightarrow> (timeval \<times> timeval \<times> nat) option \<times> logtypes" where
  "get_typeinfo now1 now2 name ts =
     (case get_logtype_addr ts name of
        None \<Rightarrow> (None, ts)
      | Some i \<Rightarrow>
          let t = typeaddr ts ! i
          in (Some (now1, lt_last_time t, lt_index t), ts\<lparr>typeaddr := (typeaddr ts)[i := t\<lparr>lt_last_time := now2\<rparr>]\<rparr>))"

text \<open>The call up to the decision if the message is written: the message, or \<open>None\<close> for a type that is missing or disabled.\<close>

definition logger :: "timeval \<Rightarrow> timeval \<Rightarrow> string \<Rightarrow> string \<Rightarrow> logtypes \<Rightarrow> (logmsg option \<times> logtypes) res" where
  "logger now1 now2 name text ts =
     (if MAX_BUFF_LEN \<le> length text \<or> MAX_NAME_LEN \<le> length name then Err OutOfBounds
      else case get_typeinfo now1 now2 name ts of
        (None, ts1) \<Rightarrow> Ok (None, ts1)
      | (Some (r, l, i), ts1) \<Rightarrow>
          Ok (Some \<lparr>msg_name = name, msg_record_time = r, msg_last_time = l, msg_type = i, msg_data = text\<rparr>, ts1))"

definition add_xml_child :: "xml_node \<Rightarrow> string \<Rightarrow> string \<Rightarrow> xml_node" where
  "add_xml_child node name val = XmlNode (node_name node) (node_props node) (node_children node @ [elem name [text_node val]]) (node_content node)"

text \<open>
  The data of a message are not terminated: libxml2 reads them up to the first zero byte, beyond the message
  into the memory \<open>beyond\<close> it.  The type is converted by \<^verbatim>\<open>%d\<close>.
\<close>

definition event_node :: "(timeval \<Rightarrow> tm) \<Rightarrow> string \<Rightarrow> logmsg \<Rightarrow> xml_node" where
  "event_node localtime beyond msg =
     (let n1 = add_xml_child (elem ''event'' []) ''timestamp'' (PRINTTIME (localtime (msg_record_time msg)));
          n2 = add_xml_child n1 ''name'' (msg_name msg);
          n3 = add_xml_child n2 ''type'' (dec_int (int (msg_type msg)))
      in add_xml_child n3 ''data'' (takeWhile (\<lambda>c. c \<noteq> CHR 0x00) (msg_data msg @ beyond)))"

text \<open>
  The packed message: four bytes with the length, the document, and one byte that is allocated but not written.
\<close>

definition log_package_xml :: "(xml_node \<Rightarrow> bytes) \<Rightarrow> (timeval \<Rightarrow> tm) \<Rightarrow> string \<Rightarrow> u8 \<Rightarrow> logmsg \<Rightarrow> bytes" where
  "log_package_xml dump localtime beyond final msg =
     (let xmlbuff = dump (event_node localtime beyond msg)
      in enc32 (word_of_nat (length xmlbuff)) @ xmlbuff @ [final])"

section \<open>Reading the file\<close>

text \<open>A file with a line for each type.\<close>

definition type_line :: "string \<times> bool \<Rightarrow> string" where
  "type_line e = fst e @ ''='' @ (if snd e then ''true'' else ''false'')"

definition types_text :: "(string \<times> bool) list \<Rightarrow> string" where
  "types_text es = concat (map (\<lambda>e. type_line e @ [CHR 0x0A]) es)"

definition type_name_ok :: "string \<Rightarrow> bool" where
  "type_name_ok n \<longleftrightarrow> n \<noteq> [] \<and> hd n \<noteq> CHR ''#'' \<and> CHR ''='' \<notin> set n \<and> CHR 0x0A \<notin> set n \<and> length n < MAX_NAME_LEN"

lemma strtok_eq_token: "n \<noteq> [] \<Longrightarrow> CHR ''='' \<notin> set n \<Longrightarrow> strtok_eq (n @ CHR ''='' # r) = Some (n, r)"
proof -
  assume n: "n \<noteq> []" "CHR ''='' \<notin> set n"
  then have "dropWhile (\<lambda>c. c = CHR ''='') (n @ CHR ''='' # r) = n @ CHR ''='' # r" by (cases n) auto
  moreover have "takeWhile (\<lambda>c. c \<noteq> CHR ''='') (n @ CHR ''='' # r) = n" "dropWhile (\<lambda>c. c \<noteq> CHR ''='') (n @ CHR ''='' # r) = CHR ''='' # r"
    using n(2) by (auto simp: takeWhile_append dropWhile_append)
  ultimately show ?thesis by (simp add: strtok_eq_def)
qed

lemma parase_type_line:
  assumes "type_name_ok (fst e)"
  shows "parase_line junk (type_line e @ [CHR 0x0A]) ts = res_map snd (log_type_add junk (fst e) (snd e) ts)"
proof -
  have "strtok_eq (type_line e @ [CHR 0x0A]) = Some (fst e, (if snd e then ''true'' else ''false'') @ [CHR 0x0A])"
    using assms strtok_eq_token [of "fst e"] by (simp add: type_line_def type_name_ok_def)
  moreover have "hd (type_line e @ [CHR 0x0A]) \<noteq> CHR ''#''" using assms by (auto simp: type_line_def type_name_ok_def)
  ultimately show ?thesis using assms by (simp add: parase_line_def type_name_ok_def strtok_eq_def)
qed

text \<open>The state after some types have been entered.\<close>

definition entered_types :: "timeval \<Rightarrow> (string \<times> bool) list \<Rightarrow> logtypes" where
  "entered_types junk es = \<lparr>typelist = map fst es,
     typeaddr = map (\<lambda>i. \<lparr>lt_name = fst (es ! i), lt_index = i, lt_last_time = junk, lt_flag = snd (es ! i)\<rparr>) [0..<length es]\<rparr>"

lemma log_type_add_entered:
  assumes "fst e \<notin> fst ` set es" "length (fst e) < MAX_NAME_LEN" "length es < MAX_TYPES"
  shows "log_type_add junk (fst e) (snd e) (entered_types junk es) = Ok (0, entered_types junk (es @ [e]))"
  using assms by (auto simp: log_type_add_def entered_types_def nth_append)

lemma types_text_lines:
  assumes "\<forall>e \<in> set es. type_name_ok (fst e)"
  shows "fgets_lines 1024 (types_text es @ r) = map (\<lambda>e. type_line e @ [CHR 0x0A]) es @ fgets_lines 1024 r"
  using assms
proof (induction es)
  case (Cons e es)
  have "CHR 0x0A \<notin> set (type_line e)" "length (type_line e) < 1024 - 1"
    using Cons.prems by (auto simp: type_line_def type_name_ok_def MAX_NAME_LEN_def)
  from fgets_lines_newline [OF this] show ?case using Cons by (simp add: types_text_def)
qed (simp add: types_text_def)

lemma parse_type_lines:
  assumes "\<forall>e \<in> set es. type_name_ok (fst e)" "distinct (map fst (ds @ es))" "length (ds @ es) \<le> MAX_TYPES"
  shows "res_for (parase_line junk) (map (\<lambda>e. type_line e @ [CHR 0x0A]) es) (entered_types junk ds) = Ok (entered_types junk (ds @ es))"
  using assms
proof (induction es arbitrary: ds)
  case (Cons e es)
  have "log_type_add junk (fst e) (snd e) (entered_types junk ds) = Ok (0, entered_types junk (ds @ [e]))"
    using Cons.prems by (intro log_type_add_entered) (auto simp: type_name_ok_def)
  then show ?case using Cons.IH [of "ds @ [e]"] Cons.prems parase_type_line [of e] by simp
qed simp

lemma no_types_entered: "no_types\<lparr>typelist := []\<rparr> = entered_types junk []"
  by (simp add: no_types_def entered_types_def)

lemma log_type_init_types:
  assumes "\<forall>e \<in> set es. type_name_ok (fst e)" "distinct (map fst es)" "length es \<le> MAX_TYPES"
  shows "log_type_init junk (Some (types_text es)) no_types = Ok (entered_types junk es)"
  using parse_type_lines [of es "[]" junk] types_text_lines [OF assms(1), of "[]"] assms
  by (simp add: log_type_init_def read_conf_def parse_conf_def no_types_entered [of junk])

lemma get_entered: "get_logtype_addr (entered_types junk es) name = find_index (\<lambda>e. e = (name, True)) es"
proof -
  have "find_index (\<lambda>i. Q (es ! i)) [0..<length es] = find_index Q es" for Q
    using find_index_map [of Q "\<lambda>i. es ! i" "[0..<length es]"] by (simp add: map_nth)
  from this [of "\<lambda>e. snd e \<and> fst e = name"] show ?thesis
    by (simp add: get_logtype_addr_def entered_types_def find_index_map prod_eq_iff conj_commute)
qed

text \<open>
  C36. With a file that has a line for each of at most 1024 different types, for a name and a text that fit their buffers, a
  message is accepted exactly if its type is in the file
  and enabled, and then carries the text and the place of its type in the file.
\<close>

theorem enabled_types_logged:
  assumes "\<forall>e \<in> set es. type_name_ok (fst e)" "distinct (map fst es)" "length es \<le> MAX_TYPES"
    "length name < MAX_NAME_LEN" "length text < MAX_BUFF_LEN"
  shows "\<exists>ts m ts'. log_type_init junk (Some (types_text es)) no_types = Ok ts \<and> logger now1 now2 name text ts = Ok (m, ts') \<and>
    (case m of None \<Rightarrow> (name, True) \<notin> set es
     | Some x \<Rightarrow> msg_name x = name \<and> msg_data x = text \<and> msg_record_time x = now1 \<and> msg_type x < length es \<and> es ! msg_type x = (name, True))"
proof -
  let ?ts = "entered_types junk es"
  show ?thesis
  proof (cases "find_index (\<lambda>e. e = (name, True)) es")
    case None
    then have "logger now1 now2 name text ?ts = Ok (None, ?ts)"
      using get_entered assms(4,5) by (simp add: logger_def get_typeinfo_def)
    with None show ?thesis using log_type_init_types [OF assms(1-3)] by (auto simp: find_index_None)
  next
    case (Some i)
    then have i: "i < length es" "es ! i = (name, True)" using find_index_Some [of "\<lambda>e. e = (name, True)" es i] by auto
    then have "\<exists>x ts'. logger now1 now2 name text ?ts = Ok (Some x, ts') \<and> msg_name x = name \<and> msg_data x = text \<and>
        msg_record_time x = now1 \<and> msg_type x = i"
      using get_entered Some assms(4,5) by (simp add: logger_def get_typeinfo_def Let_def entered_types_def)
    with i show ?thesis using log_type_init_types [OF assms(1-3)] by fastforce
  qed
qed

theorem enabled_types_logged_witness:
  "\<exists>ts m ts'. log_type_init (0, 0) (Some (types_text [(''LINK_UP'', False), (''LINK_DOWN'', True)])) no_types = Ok ts \<and>
    logger (5, 0) (5, 1) ''LINK_DOWN'' ''eth0'' ts = Ok (Some m, ts') \<and> msg_type m = 1 \<and> msg_data m = ''eth0''"
proof -
  have d: "[(''LINK_UP'', False), (''LINK_DOWN'', True)] ! k = (''LINK_DOWN'', True) \<Longrightarrow> k < 2 \<Longrightarrow> k = 1" for k
    by (cases k) auto
  show ?thesis
    using enabled_types_logged [of "[(''LINK_UP'', False), (''LINK_DOWN'', True)]" "''LINK_DOWN''" "''eth0''" "(0, 0)" "(5, 0)" "(5, 1)"] d
    by (fastforce simp: type_name_ok_def MAX_NAME_LEN_def MAX_BUFF_LEN_def MAX_TYPES_def split: option.splits)
qed

text \<open>
  An empty line of the file passes a null pointer to the comparison with \<^verbatim>\<open>true\<close>.
\<close>

theorem blank_type_line_crashes:
  assumes "\<forall>e \<in> set es. type_name_ok (fst e)" "distinct (map fst es)" "length es \<le> MAX_TYPES"
  shows "log_type_init junk (Some (types_text es @ CHR 0x0A # rest)) no_types = Err NullDeref"
proof -
  have "fgets_lines 1024 (CHR 0x0A # rest) = [CHR 0x0A] # fgets_lines 1024 rest" using fgets_lines_newline [of "[]" 1024 rest] by simp
  moreover have "parase_line junk [CHR 0x0A] ts = Err NullDeref" for ts by (simp add: parase_line_def strtok_eq_def MAX_NAME_LEN_def)
  ultimately show ?thesis
    using parse_type_lines [of es "[]" junk] types_text_lines [OF assms(1), of "CHR 0x0A # rest"] assms
    by (simp add: log_type_init_def read_conf_def parse_conf_def no_types_entered [of junk] res_for_append)
qed

theorem blank_type_line_crashes_witness:
  "log_type_init (0, 0) (Some (types_text [(''LINK_UP'', True)] @ [CHR 0x0A])) no_types = Err NullDeref"
  using blank_type_line_crashes [of "[(''LINK_UP'', True)]" "(0, 0)" "[]"] by (simp add: type_name_ok_def MAX_NAME_LEN_def MAX_TYPES_def)

section \<open>Packing\<close>

text \<open>
  A message without zero bytes, followed in memory by one: the document has its text, and with a zero in the byte
  that is not written the packed message is what the writer of the queue expects.
\<close>

lemma packed_event:
  assumes "CHR 0x00 \<notin> set (msg_data msg)" "beyond \<noteq> []" "hd beyond = CHR 0x00"
  shows "log_package_xml dump localtime beyond 0 msg = packed (dump (event_node localtime beyond msg))"
    "event_node localtime beyond msg = elem ''event''
      [elem ''timestamp'' [text_node (PRINTTIME (localtime (msg_record_time msg)))], elem ''name'' [text_node (msg_name msg)],
       elem ''type'' [text_node (dec_int (int (msg_type msg)))], elem ''data'' [text_node (msg_data msg)]]"
proof -
  have "takeWhile (\<lambda>c. c \<noteq> CHR 0x00) (msg_data msg @ beyond) = msg_data msg"
    using assms by (cases beyond) (auto simp: takeWhile_append)
  then show "event_node localtime beyond msg = elem ''event''
      [elem ''timestamp'' [text_node (PRINTTIME (localtime (msg_record_time msg)))], elem ''name'' [text_node (msg_name msg)],
       elem ''type'' [text_node (dec_int (int (msg_type msg)))], elem ''data'' [text_node (msg_data msg)]]"
    by (simp add: event_node_def add_xml_child_def)
qed (simp add: log_package_xml_def packed_def Let_def)

end
