(* ===== verification/Log_System.thy ===== *)
theory Log_System
  imports Logger
begin

text \<open>
  The log at run time: any number of processes and threads call \<^verbatim>\<open>logger\<close>, and one daemon (\<^verbatim>\<open>logger/logger_daemon.c\<close>)
  takes the messages from the queue and sends them.  They are kept apart by three semaphores (\<^verbatim>\<open>lib/semph.c\<close>).  A step of
  the system is one semaphore operation, or one critical section, of one of them; steps interleave in any order.
\<close>

section \<open>Processes\<close>

text \<open>
  The places of a call of \<^verbatim>\<open>logger\<close>, with the document of its message: before \<^verbatim>\<open>p_sem(EMPTY)\<close>, before \<^verbatim>\<open>p_sem(MUTEX)\<close> in
  \<^verbatim>\<open>log_writer\<close>, in the critical section, before \<^verbatim>\<open>v_sem(MUTEX)\<close>, before \<^verbatim>\<open>v_sem(FULL)\<close>.
\<close>

datatype writer = W_idle | W_empty bytes | W_lock bytes | W_write bytes | W_unlock | W_post | W_fault c_error

text \<open>
  The places of the loop of \<^verbatim>\<open>log_daemon\<close>: before \<^verbatim>\<open>p_sem(FULL)\<close>, before \<^verbatim>\<open>p_sem(MUTEX)\<close> in \<^verbatim>\<open>log_reader\<close>, in the critical
  section, before \<^verbatim>\<open>v_sem(MUTEX)\<close> and before the sending, with what was read, before \<^verbatim>\<open>v_sem(EMPTY)\<close>.
\<close>

datatype reader = R_wait | R_lock | R_read | R_unlock "bytes option" | R_send "bytes option" | R_post | R_fault c_error

text \<open>
  The segment, the semaphores, the processes; the messages the queue has accepted and those the daemon has taken
  from it, in order, and the number of messages that the full queue has refused are recorded beside them.
\<close>

record log_sys =
  seg :: "shmqueue option"
  sem_mutex :: nat
  sem_empty :: nat
  sem_full :: nat
  writers :: "writer list"
  rdr :: reader
  logged :: "bytes list"
  taken :: "bytes list"
  lost :: nat

text \<open>\<^verbatim>\<open>log_reset\<close> of the server and \<open>n\<close> callers that have not called yet.\<close>

definition log_init :: "nat \<Rightarrow> log_sys" where
  "log_init n = \<lparr>seg = log_init_shm None True, sem_mutex = 1, sem_empty = MAX_BLOCK, sem_full = 0,
     writers = replicate n W_idle, rdr = R_wait, logged = [], taken = [], lost = 0\<rparr>"

abbreviation set_writer :: "nat \<Rightarrow> writer \<Rightarrow> log_sys \<Rightarrow> log_sys" where
  "set_writer i w s \<equiv> s\<lparr>writers := (writers s)[i := w]\<rparr>"

text \<open>Messages that are logged satisfy \<open>ok\<close>.\<close>

inductive log_step :: "(bytes \<Rightarrow> bool) \<Rightarrow> log_sys \<Rightarrow> log_sys \<Rightarrow> bool" for ok where
  w_call: "i < length (writers s) \<Longrightarrow> writers s ! i = W_idle \<Longrightarrow> ok m \<Longrightarrow> log_step ok s (set_writer i (W_empty m) s)"
| w_p_empty: "i < length (writers s) \<Longrightarrow> writers s ! i = W_empty m \<Longrightarrow> 0 < sem_empty s \<Longrightarrow>
    log_step ok s (set_writer i (W_lock m) (s\<lparr>sem_empty := sem_empty s - 1\<rparr>))"
| w_p_mutex: "i < length (writers s) \<Longrightarrow> writers s ! i = W_lock m \<Longrightarrow> 0 < sem_mutex s \<Longrightarrow>
    log_step ok s (set_writer i (W_write m) (s\<lparr>sem_mutex := sem_mutex s - 1\<rparr>))"
| w_write: "i < length (writers s) \<Longrightarrow> writers s ! i = W_write m \<Longrightarrow> log_writer (seg s) (packed m) = Ok (r, seg') \<Longrightarrow>
    log_step ok s (set_writer i W_unlock (s\<lparr>seg := seg', logged := logged s @ (if r = 0 then [m] else []), lost := lost s + of_bool (r \<noteq> 0)\<rparr>))"
| w_write_fault: "i < length (writers s) \<Longrightarrow> writers s ! i = W_write m \<Longrightarrow> log_writer (seg s) (packed m) = Err e \<Longrightarrow>
    log_step ok s (set_writer i (W_fault e) s)"
| w_v_mutex: "i < length (writers s) \<Longrightarrow> writers s ! i = W_unlock \<Longrightarrow>
    log_step ok s (set_writer i W_post (s\<lparr>sem_mutex := sem_mutex s + 1\<rparr>))"
| w_v_full: "i < length (writers s) \<Longrightarrow> writers s ! i = W_post \<Longrightarrow>
    log_step ok s (set_writer i W_idle (s\<lparr>sem_full := sem_full s + 1\<rparr>))"
| r_p_full: "rdr s = R_wait \<Longrightarrow> 0 < sem_full s \<Longrightarrow> log_step ok s (s\<lparr>sem_full := sem_full s - 1, rdr := R_lock\<rparr>)"
| r_p_mutex: "rdr s = R_lock \<Longrightarrow> 0 < sem_mutex s \<Longrightarrow> log_step ok s (s\<lparr>sem_mutex := sem_mutex s - 1, rdr := R_read\<rparr>)"
| r_read: "rdr s = R_read \<Longrightarrow> log_reader (seg s) = Ok (b, seg') \<Longrightarrow> log_step ok s (s\<lparr>seg := seg', rdr := R_unlock b\<rparr>)"
| r_read_fault: "rdr s = R_read \<Longrightarrow> log_reader (seg s) = Err e \<Longrightarrow> log_step ok s (s\<lparr>rdr := R_fault e\<rparr>)"
| r_v_mutex: "rdr s = R_unlock b \<Longrightarrow> log_step ok s (s\<lparr>sem_mutex := sem_mutex s + 1, rdr := R_send b\<rparr>)"
| r_null: "rdr s = R_send None \<Longrightarrow> log_step ok s (s\<lparr>rdr := R_fault NullDeref\<rparr>)"
| r_send: "rdr s = R_send (Some m) \<Longrightarrow> log_step ok s (s\<lparr>taken := taken s @ [m], rdr := R_post\<rparr>)"
| r_v_empty: "rdr s = R_post \<Longrightarrow> log_step ok s (s\<lparr>sem_empty := sem_empty s + 1, rdr := R_wait\<rparr>)"

inductive log_reach :: "(bytes \<Rightarrow> bool) \<Rightarrow> nat \<Rightarrow> log_sys \<Rightarrow> bool" for ok n where
  log_reach_init: "log_reach ok n (log_init n)"
| log_reach_step: "log_reach ok n s \<Longrightarrow> log_step ok s s' \<Longrightarrow> log_reach ok n s'"

section \<open>The invariant\<close>

text \<open>In the critical section; between the two counting operations; behind the critical section.\<close>

fun w_locked :: "writer \<Rightarrow> bool" where
  "w_locked (W_write m) = True" | "w_locked W_unlock = True" | "w_locked w = False"

fun w_holds :: "writer \<Rightarrow> bool" where
  "w_holds (W_lock m) = True" | "w_holds (W_write m) = True" | "w_holds W_unlock = True" | "w_holds W_post = True" | "w_holds w = False"

fun w_done :: "writer \<Rightarrow> bool" where
  "w_done W_unlock = True" | "w_done W_post = True" | "w_done w = False"

fun w_ok :: "writer \<Rightarrow> bool" where
  "w_ok (W_empty m) = fits m" | "w_ok (W_lock m) = fits m" | "w_ok (W_write m) = fits m" | "w_ok (W_fault e) = False" | "w_ok w = True"

fun r_locked :: "reader \<Rightarrow> bool" where
  "r_locked R_read = True" | "r_locked (R_unlock b) = True" | "r_locked r = False"

fun r_before :: "reader \<Rightarrow> bool" where
  "r_before R_lock = True" | "r_before R_read = True" | "r_before r = False"

text \<open>The daemon has got a null pointer; the message it has in its hand.\<close>

fun r_none :: "reader \<Rightarrow> bool" where
  "r_none (R_unlock None) = True" | "r_none (R_send None) = True" | "r_none (R_fault e) = True" | "r_none r = False"

fun r_hand :: "reader \<Rightarrow> bytes list" where
  "r_hand (R_unlock (Some m)) = [m]" | "r_hand (R_send (Some m)) = [m]" | "r_hand r = []"

definition count_w :: "(writer \<Rightarrow> bool) \<Rightarrow> log_sys \<Rightarrow> nat" where
  "count_w P s = length (filter P (writers s))"

definition log_inv :: "log_sys \<Rightarrow> bytes list \<Rightarrow> bool" where
  "log_inv s ms \<longleftrightarrow> shm_holds (seg s) ms \<and> logged s = taken s @ r_hand (rdr s) @ ms \<and>
     sem_mutex s + count_w w_locked s + of_bool (r_locked (rdr s)) = 1 \<and>
     sem_empty s + sem_full s + count_w w_holds s + of_bool (rdr s \<noteq> R_wait) = MAX_BLOCK \<and>
     sem_full s + count_w w_done s + of_bool (r_before (rdr s)) + of_bool (r_none (rdr s)) = length ms + lost s \<and>
     (\<forall>w \<in> set (writers s). w_ok w) \<and> (\<forall>e. rdr s = R_fault e \<longrightarrow> e = NullDeref) \<and> (r_none (rdr s) \<longrightarrow> 0 < lost s)"

lemma count_update:
  "i < length ws \<Longrightarrow> length (filter P (ws[i := w])) + of_bool (P (ws ! i)) = length (filter P ws) + of_bool (P w)"
proof -
  assume i: "i < length ws"
  have "length (filter P (take i ws @ ws ! i # drop (Suc i) ws)) = length (filter P ws)" using id_take_nth_drop [OF i] by simp
  then show ?thesis by (auto simp: upd_conv_take_nth_drop [OF i] split: if_splits)
qed

text \<open>A step of a writer from place \<open>w\<close> to place \<open>w'\<close>.\<close>

lemma log_inv_writer:
  assumes "log_inv s ms" "i < length (writers s)" "writers s ! i = w" "w_ok w'"
    and s': "s' = set_writer i w' (s\<lparr>seg := seg s', sem_mutex := sem_mutex s', sem_empty := sem_empty s', sem_full := sem_full s', logged := logged s', lost := lost s'\<rparr>)"
    and "shm_holds (seg s') ms'" "logged s' = taken s @ r_hand (rdr s) @ ms'"
    and "sem_mutex s' + of_bool (w_locked w') = sem_mutex s + of_bool (w_locked w)"
    and "sem_empty s' + sem_full s' + of_bool (w_holds w') = sem_empty s + sem_full s + of_bool (w_holds w)"
    and "sem_full s' + of_bool (w_done w') + length ms + lost s = sem_full s + of_bool (w_done w) + length ms' + lost s'"
    and "lost s \<le> lost s'"
  shows "log_inv s' ms'"
proof -
  have ws: "writers s' = (writers s)[i := w']" "rdr s' = rdr s" "taken s' = taken s" by (subst s', simp)+
  have c: "count_w P s' + of_bool (P w) = count_w P s + of_bool (P w')" for P
    using count_update [OF assms(2), of P w'] by (simp add: count_w_def ws assms(3))
  have "\<forall>x \<in> set (writers s'). w_ok x"
    using assms(1,4) set_update_subset_insert [of "writers s" i w'] by (auto simp: log_inv_def ws)
  then show ?thesis
    using assms(1,6-) c [of w_locked] c [of w_holds] c [of w_done] unfolding log_inv_def ws by auto
qed

text \<open>A step of the daemon.\<close>

lemma log_inv_reader:
  assumes "log_inv s ms"
    and s': "s' = s\<lparr>seg := seg s', sem_mutex := sem_mutex s', sem_empty := sem_empty s', sem_full := sem_full s', taken := taken s', rdr := rdr s'\<rparr>"
    and "shm_holds (seg s') ms'" "taken s' @ r_hand (rdr s') @ ms' = taken s @ r_hand (rdr s) @ ms"
    and "sem_mutex s' + of_bool (r_locked (rdr s')) = sem_mutex s + of_bool (r_locked (rdr s))"
    and "sem_empty s' + sem_full s' + of_bool (rdr s' \<noteq> R_wait) = sem_empty s + sem_full s + of_bool (rdr s \<noteq> R_wait)"
    and "sem_full s' + of_bool (r_before (rdr s')) + of_bool (r_none (rdr s')) + length ms =
      sem_full s + of_bool (r_before (rdr s)) + of_bool (r_none (rdr s)) + length ms'"
    and "\<forall>e. rdr s' = R_fault e \<longrightarrow> e = NullDeref" "r_none (rdr s') \<longrightarrow> r_none (rdr s) \<or> 0 < lost s"
  shows "log_inv s' ms'"
proof -
  have ws: "writers s' = writers s" "logged s' = logged s" "lost s' = lost s" by (subst s', simp)+
  then have c: "count_w P s' = count_w P s" for P by (simp add: count_w_def)
  show ?thesis using assms(1,3-) unfolding log_inv_def ws c by auto
qed

lemma log_inv_init: "log_inv (log_init n) []"
  by (simp add: log_inv_def log_init_def log_init_holds count_w_def)

lemma log_inv_write:
  assumes "log_inv s ms" "i < length (writers s)" "writers s ! i = W_write m"
  shows "\<exists>r seg'. log_writer (seg s) (packed m) = Ok (r, seg') \<and>
    (\<exists>ms'. log_inv (set_writer i W_unlock (s\<lparr>seg := seg', logged := logged s @ (if r = 0 then [m] else []), lost := lost s + of_bool (r \<noteq> 0)\<rparr>)) ms')"
proof -
  have h: "shm_holds (seg s) ms" "logged s = taken s @ r_hand (rdr s) @ ms" "fits m"
    using assms bspec [of "set (writers s)" w_ok, OF _ nth_mem [OF assms(2)]] by (auto simp: log_inv_def)
  note w = log_inv_writer [OF assms, where w' = W_unlock]
  show ?thesis
  proof (cases "length ms < MAX_BLOCK - 1")
    case True
    then obtain seg' where q: "log_writer (seg s) (packed m) = Ok (0, seg')" "shm_holds seg' (ms @ [m])"
      using shm.put_free [OF h(1) True h(3)] by (auto simp: shm_put_def)
    have "log_inv (set_writer i W_unlock (s\<lparr>seg := seg', logged := logged s @ [m], lost := lost s\<rparr>)) (ms @ [m])"
      using h(2) q(2) by (intro w) simp_all
    with q(1) show ?thesis by auto
  next
    case False
    then have q: "log_writer (seg s) (packed m) = Ok (-1, seg s)"
      using shm.put_full [OF h(1), of m] shm.bounded [OF h(1)] by (auto simp: shm_put_def)
    have "log_inv (set_writer i W_unlock (s\<lparr>seg := seg s, logged := logged s, lost := lost s + 1\<rparr>)) ms"
      using h(1,2) by (intro w) simp_all
    with q show ?thesis by auto
  qed
qed

lemma log_inv_read:
  assumes "log_inv s ms" "rdr s = R_read"
  shows "\<exists>b seg'. log_reader (seg s) = Ok (b, seg') \<and> (\<exists>ms'. log_inv (s\<lparr>seg := seg', rdr := R_unlock b\<rparr>) ms')"
proof (cases ms)
  case Nil
  then have "log_reader (seg s) = Ok (None, seg s)" using shm.get_empty assms(1) by (simp add: log_inv_def)
  moreover have "log_inv (s\<lparr>seg := seg s, rdr := R_unlock None\<rparr>) ms"
    using assms Nil by (intro log_inv_reader [OF assms(1)]) (simp_all add: log_inv_def)
  ultimately show ?thesis by blast
next
  case (Cons m ms')
  then obtain seg' where q: "log_reader (seg s) = Ok (Some m, seg')" "shm_holds seg' ms'"
    using shm.get_first assms(1) by (fastforce simp: log_inv_def)
  have "log_inv (s\<lparr>seg := seg', rdr := R_unlock (Some m)\<rparr>) ms'"
    using assms q Cons by (intro log_inv_reader [OF assms(1)]) (simp_all add: log_inv_def)
  with q(1) show ?thesis by blast
qed

lemma log_inv_step:
  assumes "log_step fits s s'" "log_inv s ms"
  shows "\<exists>ms'. log_inv s' ms'"
proof -
  have h: "shm_holds (seg s) ms" "logged s = taken s @ r_hand (rdr s) @ ms" and wok: "\<forall>w \<in> set (writers s). w_ok w"
    using assms(2) by (simp_all add: log_inv_def)
  have fit: "fits m" if "i < length (writers s)" "writers s ! i \<in> {W_empty m, W_lock m}" for i m
    using bspec [OF wok nth_mem [OF that(1)]] that(2) by auto
  note w = log_inv_writer [OF assms(2)] and r = log_inv_reader [OF assms(2)]
  show ?thesis
    using assms(1)
  proof cases
    case (w_write i m rc seg')
    then show ?thesis using log_inv_write [OF assms(2) w_write(2,3)] by auto
  next
    case (w_write_fault i m e)
    then show ?thesis using log_inv_write [OF assms(2) w_write_fault(2,3)] by auto
  next
    case (r_read b seg')
    then show ?thesis using log_inv_read [OF assms(2) r_read(2)] by auto
  next
    case (r_read_fault e)
    then show ?thesis using log_inv_read [OF assms(2) r_read_fault(2)] by auto
  next
    case (w_call i m)
    then show ?thesis using h by (intro exI [of _ ms] w [OF w_call(2,3), where w' = "W_empty m"]) simp_all
  next
    case (w_p_empty i m)
    then show ?thesis using h fit [of i m] by (intro exI [of _ ms] w [OF w_p_empty(2,3), where w' = "W_lock m"]) simp_all
  next
    case (w_p_mutex i m)
    then show ?thesis using h fit [of i m] by (intro exI [of _ ms] w [OF w_p_mutex(2,3), where w' = "W_write m"]) simp_all
  next
    case (w_v_mutex i)
    then show ?thesis using h by (intro exI [of _ ms] w [OF w_v_mutex(2,3), where w' = W_post]) simp_all
  next
    case (w_v_full i)
    then show ?thesis using h by (intro exI [of _ ms] w [OF w_v_full(2,3), where w' = W_idle]) simp_all
  next
    case (r_v_mutex b)
    then show ?thesis using h by (intro exI [of _ ms] r) (cases b; simp)+
  qed (use h in \<open>(intro exI [of _ ms] r; simp)+\<close>)
qed

lemma log_reach_inv: "log_reach fits n s \<Longrightarrow> \<exists>ms. log_inv s ms"
  by (induction rule: log_reach.induct) (use log_inv_init log_inv_step in blast)+

section \<open>Order of the messages\<close>

text \<open>
  C22. In every interleaving of any number of callers with the daemon, as long as messages fit a block and a zero byte
  follows their text: the messages the queue has accepted are those the daemon has taken, the one in its hand and the ones in the queue, in this order,
  none lost, doubled or changed; at most one process is in a critical section, no writer faults, and the daemon
  faults only after the queue has refused a message.
\<close>

theorem log_delivers_in_order:
  assumes "log_reach fits n s"
  shows "\<exists>ms. logged s = taken s @ r_hand (rdr s) @ ms \<and> shm_holds (seg s) ms \<and> length ms \<le> 19 \<and>
    count_w w_locked s + of_bool (r_locked (rdr s)) \<le> 1 \<and> (\<forall>e. W_fault e \<notin> set (writers s)) \<and>
    (\<forall>e. rdr s = R_fault e \<longrightarrow> e = NullDeref \<and> 0 < lost s)"
proof -
  obtain ms where i: "log_inv s ms" using log_reach_inv [OF assms] by blast
  have "length ms \<le> 19" using shm.bounded [of "seg s" ms] i by (simp add: log_inv_def MAX_BLOCK_def)
  moreover have "\<forall>e. W_fault e \<notin> set (writers s)" using i by (auto simp: log_inv_def)
  ultimately show ?thesis using i unfolding log_inv_def by (intro exI [of _ ms]) auto
qed

text \<open>A run of whole calls and whole rounds, for the witnesses: all callers are idle and the daemon waits.\<close>

definition quiet :: "nat \<Rightarrow> log_sys \<Rightarrow> bytes list \<Rightarrow> bool" where
  "quiet n s ms \<longleftrightarrow> log_reach fits n s \<and> log_inv s ms \<and> rdr s = R_wait \<and> writers s = replicate n W_idle"

lemma quietD:
  assumes "quiet n s ms"
  shows "log_reach fits n s" "shm_holds (seg s) ms" "sem_mutex s = 1" "sem_empty s = 20 - sem_full s" "sem_full s = length ms + lost s"
    "rdr s = R_wait" "writers s = replicate n W_idle" "logged s = taken s @ ms" "sem_full s \<le> 20"
  using assms by (auto simp: quiet_def log_inv_def count_w_def MAX_BLOCK_def)

lemma quiet_init: "quiet n (log_init n) []"
  using log_inv_init by (simp add: quiet_def log_reach_init) (simp add: log_init_def)

lemma quiet_call:
  assumes "quiet n s ms" "0 < n" "sem_full s < 20" "fits m"
  shows "\<exists>s'. quiet n s' (if length ms < 19 then ms @ [m] else ms) \<and> lost s' = lost s + of_bool (\<not> length ms < 19) \<and> taken s' = taken s"
proof -
  note q = quietD [OF assms(1)]
  define r where "r = (if length ms < 19 then 0 else -1 :: int)"
  obtain seg' where put: "log_writer (seg s) (packed m) = Ok (r, seg')" "shm_holds seg' (if length ms < 19 then ms @ [m] else ms)"
    using shm.put_free [OF q(2) _ assms(4)] shm.put_full [OF q(2), of m] shm.bounded [OF q(2)] q(2)
    by (cases "length ms < 19") (auto simp: r_def shm_put_def MAX_BLOCK_def)
  let ?w = "\<lambda>w. (replicate n W_idle)[0 := w]"
  define s1 where "s1 = s\<lparr>writers := ?w (W_empty m)\<rparr>"
  define s2 where "s2 = s\<lparr>sem_empty := sem_empty s - 1, writers := ?w (W_lock m)\<rparr>"
  define s3 where "s3 = s2\<lparr>sem_mutex := 0, writers := ?w (W_write m)\<rparr>"
  define s4 where "s4 = s3\<lparr>seg := seg', logged := logged s @ (if r = 0 then [m] else []), lost := lost s + of_bool (r \<noteq> 0), writers := ?w W_unlock\<rparr>"
  define s5 where "s5 = s4\<lparr>sem_mutex := 1, writers := ?w W_post\<rparr>"
  define s6 where "s6 = s5\<lparr>sem_full := sem_full s + 1, writers := replicate n W_idle\<rparr>"
  have "log_step fits s s1" using w_call [of 0 s fits m] assms(2,4) q(7) by (simp add: s1_def)
  moreover have "log_step fits s1 s2" using w_p_empty [of 0 s1 m fits] assms(2,3) q by (simp add: s1_def s2_def)
  moreover have "log_step fits s2 s3" using w_p_mutex [of 0 s2 m fits] assms(2) q by (simp add: s2_def s3_def)
  moreover have "log_step fits s3 s4" using w_write [of 0 s3 m r seg' fits] assms(2) put(1) by (simp add: s2_def s3_def s4_def)
  moreover have "log_step fits s4 s5" using w_v_mutex [of 0 s4 fits] assms(2) by (simp add: s2_def s3_def s4_def s5_def)
  moreover have "log_step fits s5 s6"
    using w_v_full [of 0 s5 fits] assms(2) list_update_id [of "replicate n W_idle" 0] by (simp add: s2_def s3_def s4_def s5_def s6_def)
  ultimately have "log_reach fits n s6" using q(1) log_reach_step by metis
  moreover have "log_inv s6 (if length ms < 19 then ms @ [m] else ms)"
    using put(2) q assms(3) by (auto simp: log_inv_def s2_def s3_def s4_def s5_def s6_def count_w_def r_def MAX_BLOCK_def)
  ultimately show ?thesis
    using q(6) by (intro exI [of _ s6]) (simp add: quiet_def s2_def s3_def s4_def s5_def s6_def r_def)
qed

text \<open>Runs without further calls: when all callers are idle, the daemon alone.\<close>

lemma log_step_no_calls: "log_step (\<lambda>m. False) s s' \<Longrightarrow> log_step ok s s'"
  by (induction rule: log_step.induct) (erule FalseE | (rule log_step.intros; assumption))+

lemma log_reach_no_calls: "(log_step (\<lambda>m. False))\<^sup>*\<^sup>* s s' \<Longrightarrow> log_reach ok n s \<Longrightarrow> log_reach ok n s'"
  by (induction rule: rtranclp_induct) (auto intro: log_reach_step log_step_no_calls)

lemma idle_step:
  "log_step (\<lambda>m. False) s s' \<Longrightarrow> set (writers s) \<subseteq> {W_idle} \<Longrightarrow> writers s' = writers s \<and> lost s' = lost s \<and> logged s' = logged s"
  by (induction rule: log_step.induct) (auto dest!: nth_mem)

lemma idle_run:
  "(log_step (\<lambda>m. False))\<^sup>*\<^sup>* s s' \<Longrightarrow> set (writers s) \<subseteq> {W_idle} \<Longrightarrow> writers s' = writers s \<and> lost s' = lost s \<and> logged s' = logged s"
proof (induction rule: rtranclp_induct)
  case (step y z)
  then show ?case using idle_step [OF step(2)] by simp
qed simp

text \<open>The daemon from its first semaphore to the place where it has read the queue.\<close>

lemma quiet_read:
  assumes "quiet n s ms" "0 < sem_full s" "log_reader (seg s) = Ok (b, seg')"
  shows "(log_step (\<lambda>m. False))\<^sup>*\<^sup>* s (s\<lparr>sem_full := sem_full s - 1, seg := seg', rdr := R_send b\<rparr>)"
proof -
  note q = quietD [OF assms(1)]
  define s1 where "s1 = s\<lparr>sem_full := sem_full s - 1, rdr := R_lock\<rparr>"
  define s2 where "s2 = s1\<lparr>sem_mutex := 0, rdr := R_read\<rparr>"
  define s3 where "s3 = s2\<lparr>seg := seg', rdr := R_unlock b\<rparr>"
  have st1: "log_step (\<lambda>m. False) s s1" using r_p_full [of s] q(6) assms(2) by (simp add: s1_def)
  have st2: "log_step (\<lambda>m. False) s1 s2" using r_p_mutex [of s1] q(3) by (simp add: s1_def s2_def)
  have st3: "log_step (\<lambda>m. False) s2 s3" using r_read [of s2 b seg'] assms(3) by (simp add: s1_def s2_def s3_def)
  have st4: "log_step (\<lambda>m. False) s3 (s3\<lparr>sem_mutex := 1, rdr := R_send b\<rparr>)" using r_v_mutex [of s3 b] by (simp add: s2_def s3_def)
  have e: "s3\<lparr>sem_mutex := 1, rdr := R_send b\<rparr> = s\<lparr>sem_full := sem_full s - 1, seg := seg', rdr := R_send b\<rparr>"
    using q(3) by (simp add: s1_def s2_def s3_def)
  show ?thesis
    unfolding e [symmetric]
    by (intro converse_rtranclp_into_rtranclp [where r = "log_step (\<lambda>m. False)", OF st1]
        converse_rtranclp_into_rtranclp [where r = "log_step (\<lambda>m. False)", OF st2]
        converse_rtranclp_into_rtranclp [where r = "log_step (\<lambda>m. False)", OF st3] r_into_rtranclp [where r = "log_step (\<lambda>m. False)", OF st4])
qed

lemma quiet_take:
  assumes "quiet n s (m # ms)"
  shows "\<exists>s'. quiet n s' ms \<and> (log_step (\<lambda>m. False))\<^sup>*\<^sup>* s s' \<and> lost s' = lost s \<and> taken s' = taken s @ [m]"
proof -
  note q = quietD [OF assms]
  obtain seg' where get: "log_reader (seg s) = Ok (Some m, seg')" "shm_holds seg' ms" using shm.get_first [OF q(2)] by blast
  have e: "sem_empty s = 19 - (length ms + lost s)" "length ms + lost s \<le> 19" using q(4,5,9) by simp_all
  define s4 where "s4 = s\<lparr>sem_full := sem_full s - 1, seg := seg', rdr := R_send (Some m)\<rparr>"
  define s6 where "s6 = s4\<lparr>taken := taken s @ [m], sem_empty := sem_empty s + 1, rdr := R_wait\<rparr>"
  have "(log_step (\<lambda>m. False))\<^sup>*\<^sup>* s s4" using quiet_read [OF assms _ get(1)] q(5) by (simp add: s4_def)
  moreover have "log_step (\<lambda>m. False) s4 (s4\<lparr>taken := taken s @ [m], rdr := R_post\<rparr>)" using r_send [of s4 m] by (simp add: s4_def)
  moreover have "log_step (\<lambda>m. False) (s4\<lparr>taken := taken s @ [m], rdr := R_post\<rparr>) s6"
    using r_v_empty [of "s4\<lparr>taken := taken s @ [m], rdr := R_post\<rparr>"] by (simp add: s4_def s6_def)
  ultimately have run: "(log_step (\<lambda>m. False))\<^sup>*\<^sup>* s s6" by (meson rtranclp.rtrancl_into_rtrancl)
  moreover have "log_inv s6 ms"
    unfolding log_inv_def using get(2) q(2,3,5-8) e by (simp add: s4_def s6_def count_w_def MAX_BLOCK_def)
  ultimately show ?thesis using q(7) log_reach_no_calls [OF run q(1)] by (intro exI [of _ s6]) (simp add: quiet_def s4_def s6_def)
qed

lemma quiet_take_all:
  "quiet n s ms \<Longrightarrow> \<exists>s'. quiet n s' [] \<and> (log_step (\<lambda>m. False))\<^sup>*\<^sup>* s s' \<and> lost s' = lost s \<and> taken s' = taken s @ ms"
proof (induction ms arbitrary: s)
  case (Cons m ms)
  obtain s1 where s1: "quiet n s1 ms" "(log_step (\<lambda>m. False))\<^sup>*\<^sup>* s s1" "lost s1 = lost s" "taken s1 = taken s @ [m]"
    using quiet_take [OF Cons.prems] by blast
  with Cons.IH [OF s1(1)] show ?case using rtranclp_trans by fastforce
qed auto

lemma quiet_calls: "0 < n \<Longrightarrow> k \<le> 19 \<Longrightarrow> \<exists>s. quiet n s (replicate k [1]) \<and> lost s = 0 \<and> taken s = []"
proof (induction k)
  case 0
  show ?case using quiet_init [of n] by (auto simp: log_init_def)
next
  case (Suc k)
  then obtain s where s: "quiet n s (replicate k [1])" "lost s = 0" "taken s = []" by auto
  have "fits [1]" by (simp add: fits_def BLOCK_SIZE_def)
  then show ?case
    using quiet_call [OF s(1) Suc.prems(1), of "[1]"] quietD(5) [OF s(1)] s(2,3) Suc.prems(2)
    by (auto simp: replicate_append_same)
qed

theorem log_delivers_in_order_witness:
  "\<exists>s. log_reach fits 1 s \<and> taken s = [[1]] \<and> (\<exists>ms. logged s = [[1]] @ ms \<and> shm_holds (seg s) ms)"
proof -
  obtain s where "quiet 1 s [[1]]" "taken s = []" using quiet_calls [of 1 1] by auto
  then obtain s' where s': "quiet 1 s' []" "taken s' = [[1]]" using quiet_take by fastforce
  then have "log_reach fits 1 s'" "rdr s' = R_wait" using quietD by blast+
  with s' log_delivers_in_order [of 1 s'] show ?thesis by fastforce
qed

section \<open>Progress\<close>

lemma can_step: "log_step ok s s' \<Longrightarrow> \<exists>s'. log_step ok s s'"
  by (rule exI)

lemma writer_can_step:
  assumes "log_inv s ms" "w \<in> set (writers s)"
    "w_locked w \<or> w = W_post \<or> (\<exists>m. w = W_lock m \<and> 0 < sem_mutex s) \<or> (\<exists>m. w = W_empty m \<and> 0 < sem_empty s)"
  shows "\<exists>s'. log_step ok s s'"
proof -
  obtain i where i: "i < length (writers s)" "writers s ! i = w" using assms(2) by (auto simp: in_set_conv_nth)
  show ?thesis
  proof (cases w)
    case (W_write m)
    then show ?thesis using log_inv_write [OF assms(1) i(1)] i log_step.w_write by blast
  qed (use assms(3) i in \<open>auto intro: can_step [OF log_step.w_p_empty] can_step [OF log_step.w_p_mutex] can_step [OF log_step.w_v_mutex] can_step [OF log_step.w_v_full]\<close>)
qed

lemma reader_can_step:
  assumes "log_inv s ms" "\<forall>e. rdr s \<noteq> R_fault e" "rdr s = R_wait \<longrightarrow> 0 < sem_full s" "rdr s = R_lock \<longrightarrow> 0 < sem_mutex s"
  shows "\<exists>s'. log_step ok s s'"
proof (cases "rdr s")
  case R_read
  then show ?thesis using log_inv_read [OF assms(1)] log_step.r_read by blast
next
  case (R_send b)
  then show ?thesis by (cases b) (auto intro: can_step [OF log_step.r_null] can_step [OF log_step.r_send])
qed (use assms in \<open>auto intro: can_step [OF log_step.r_p_full] can_step [OF log_step.r_p_mutex] can_step [OF log_step.r_v_mutex] can_step [OF log_step.r_v_empty]\<close>)

text \<open>Before the daemon has taken anything, a message is refused only when nineteen are in the queue.\<close>

lemma early_refusal:
  assumes "log_reach fits n s"
  shows "(rdr s = R_post \<longrightarrow> taken s \<noteq> []) \<and> (rdr s = R_wait \<and> taken s = [] \<and> 0 < lost s \<longrightarrow> length (logged s) = 19) \<and> length (writers s) = n"
  using assms
proof (induction rule: log_reach.induct)
  case log_reach_init
  show ?case by (simp add: log_init_def)
next
  case (log_reach_step s s')
  obtain ms where inv: "log_inv s ms" using log_reach_inv [OF log_reach_step(1)] by blast
  show ?case
    using log_reach_step(2)
  proof cases
    case (w_write i m rc seg')
    have "fits m" using inv bspec [of "set (writers s)" w_ok, OF _ nth_mem [OF w_write(2)]] w_write(3) by (auto simp: log_inv_def)
    moreover have h: "shm_holds (seg s) ms" using inv by (simp add: log_inv_def)
    moreover have le: "length ms \<le> 19" using shm.bounded [OF h] by (simp add: MAX_BLOCK_def)
    moreover have "rc = -1" if "length ms = 19" using shm.put_full [OF h, of m] that w_write(4) by (simp add: shm_put_def MAX_BLOCK_def)
    moreover have "rc = 0" if "length ms < 19" "fits m"
      using shm.put_free [OF h _ that(2)] that(1) w_write(4) by (auto simp: shm_put_def MAX_BLOCK_def)
    ultimately have rc: "rc = 0 \<longleftrightarrow> length ms < 19" and "length ms \<le> 19" by (cases "length ms = 19"; simp)+
    moreover have "logged s = ms" if "rdr s = R_wait" "taken s = []" using inv that by (simp add: log_inv_def)
    ultimately show ?thesis using log_reach_step.IH w_write(1) by auto
  qed (use log_reach_step.IH in auto)
qed

text \<open>After a refused message, with all callers idle, the daemon goes on until it faults.\<close>

lemma daemon_stops_by_fault:
  assumes "log_reach fits n s" "set (writers s) \<subseteq> {W_idle}" "0 < lost s" "(log_step (\<lambda>m. False))\<^sup>*\<^sup>* s s'"
  shows "(\<exists>s''. log_step (\<lambda>m. False) s' s'') \<or> rdr s' = R_fault NullDeref"
proof (rule ccontr)
  assume stuck: "\<not> ?thesis"
  obtain ms where inv: "log_inv s' ms" using log_reach_inv [OF log_reach_no_calls [OF assms(4,1)]] by blast
  have idle: "writers s' = writers s" "lost s' = lost s" using idle_run [OF assms(4,2)] by simp_all
  then have "count_w w_locked s' = 0" "count_w w_done s' = 0" using assms(2) by (auto simp: count_w_def filter_empty_conv)
  moreover have "\<forall>e. rdr s' \<noteq> R_fault e" using stuck inv by (auto simp: log_inv_def)
  then have "\<not> ((rdr s' = R_wait \<longrightarrow> 0 < sem_full s') \<and> (rdr s' = R_lock \<longrightarrow> 0 < sem_mutex s'))"
    using reader_can_step [OF inv] stuck by metis
  ultimately show False using inv idle(2) assms(3) by (auto simp: log_inv_def)
qed

text \<open>
  C37. The semaphore that counts free blocks starts at twenty, but the ring holds nineteen messages.  Twenty calls can come to
  an end before the daemon has taken a message.  Whenever they have, and no call is under way, nineteen messages
  are in the queue, in the order of the log, and one, which came after them, is lost; without further calls the daemon then
  takes the nineteen and faults on a null pointer, for the counting semaphore promises it one more; and there is no other
  end: a run that stops has stopped with this fault.
\<close>

theorem twenty_messages_crash_daemon:
  assumes "0 < n"
    "calls_ended = (\<lambda>s. log_reach fits n s \<and> rdr s = R_wait \<and> taken s = [] \<and> set (writers s) \<subseteq> {W_idle} \<and> length (logged s) + lost s = 20)"
  shows "(\<exists>s. calls_ended s) \<and>
    (\<forall>s. calls_ended s \<longrightarrow> length (logged s) = 19 \<and> lost s = 1 \<and>
       (\<exists>s'. (log_step (\<lambda>m. False))\<^sup>*\<^sup>* s s' \<and> taken s' = logged s \<and> rdr s' = R_fault NullDeref) \<and>
       (\<forall>s'. (log_step (\<lambda>m. False))\<^sup>*\<^sup>* s s' \<longrightarrow> (\<exists>s''. log_step (\<lambda>m. False) s' s'') \<or> rdr s' = R_fault NullDeref))"
proof (intro conjI allI impI)
  obtain s where s: "quiet n s (replicate 19 [1])" "lost s = 0" "taken s = []" using quiet_calls [OF assms(1), of 19] by auto
  have "fits [1]" by (simp add: fits_def BLOCK_SIZE_def)
  with s obtain s1 where s1: "quiet n s1 (replicate 19 [1])" "lost s1 = 1" "taken s1 = []"
    using quiet_call [OF s(1) assms(1), of "[1]"] quietD(5) [OF s(1)] by auto
  have "calls_ended s1" unfolding assms(2) using quietD [OF s1(1)] s1(2,3) by (auto dest: in_set_replicate [THEN iffD1])
  then show "\<exists>s. calls_ended s" ..
next
  fix s assume "calls_ended s"
  then have s: "log_reach fits n s" "rdr s = R_wait" "taken s = []" "set (writers s) \<subseteq> {W_idle}" "length (logged s) + lost s = 20"
    by (simp_all add: assms(2))
  obtain ms where inv: "log_inv s ms" using log_reach_inv [OF s(1)] by blast
  have ms: "logged s = ms" "length ms \<le> 19"
    using inv s(2,3) shm.bounded [of "seg s" ms] by (simp_all add: log_inv_def MAX_BLOCK_def)
  then have l: "length (logged s) = 19" "lost s = 1" using early_refusal [OF s(1)] s(2,3,5) by auto
  have "length (writers s) = n" using early_refusal [OF s(1)] by blast
  then have "writers s = replicate n W_idle" using s(4) by (auto intro!: replicate_eqI)
  then have "quiet n s ms" using s(1,2) inv by (simp add: quiet_def)
  then obtain s2 where s2: "quiet n s2 []" "(log_step (\<lambda>m. False))\<^sup>*\<^sup>* s s2" "lost s2 = 1" "taken s2 = logged s"
    using quiet_take_all [of n s ms] s(3) ms(1) l(2) by auto
  then have "log_reader (seg s2) = Ok (None, seg s2)" "sem_full s2 = 1" using shm.get_empty quietD [OF s2(1)] by auto
  then have "(log_step (\<lambda>m. False))\<^sup>*\<^sup>* s2 (s2\<lparr>sem_full := 0, rdr := R_send None\<rparr>)" using quiet_read [OF s2(1), of None "seg s2"] by simp
  moreover have "log_step (\<lambda>m. False) (s2\<lparr>sem_full := 0, rdr := R_send None\<rparr>) (s2\<lparr>sem_full := 0, rdr := R_fault NullDeref\<rparr>)"
    using r_null [of "s2\<lparr>sem_full := 0, rdr := R_send None\<rparr>"] by simp
  ultimately have "(log_step (\<lambda>m. False))\<^sup>*\<^sup>* s (s2\<lparr>sem_full := 0, rdr := R_fault NullDeref\<rparr>)"
    using s2(2) by (meson rtranclp.rtrancl_into_rtrancl rtranclp_trans)
  then show "\<exists>s'. (log_step (\<lambda>m. False))\<^sup>*\<^sup>* s s' \<and> taken s' = logged s \<and> rdr s' = R_fault NullDeref"
    using s2(4) by (intro exI [of _ "s2\<lparr>sem_full := 0, rdr := R_fault NullDeref\<rparr>"]) simp
  show "length (logged s) = 19" "lost s = 1" by (rule l)+
  show "(\<exists>s''. log_step (\<lambda>m. False) s' s'') \<or> rdr s' = R_fault NullDeref" if "(log_step (\<lambda>m. False))\<^sup>*\<^sup>* s s'" for s'
    using daemon_stops_by_fault [OF s(1,4) _ that] l(2) by simp
qed

theorem twenty_messages_crash_daemon_witness:
  "\<exists>s s'. log_reach fits 1 s \<and> rdr s = R_wait \<and> taken s = [] \<and> length (logged s) = 19 \<and> lost s = 1 \<and>
    (log_step (\<lambda>m. False))\<^sup>*\<^sup>* s s' \<and> taken s' = logged s \<and> rdr s' = R_fault NullDeref"
  using twenty_messages_crash_daemon [OF zero_less_one refl] by blast

text \<open>
  C24. No deadlock: as long as the daemon has not faulted and a call is under way, a process can take a step, without any
  further call.
\<close>

theorem log_no_deadlock:
  assumes "log_reach fits n s" "\<forall>e. rdr s \<noteq> R_fault e" "\<exists>w \<in> set (writers s). w \<noteq> W_idle"
  shows "\<exists>s'. log_step (\<lambda>m. False) s s'"
proof (rule ccontr)
  assume stuck: "\<not> ?thesis"
  obtain ms where inv: "log_inv s ms" using log_reach_inv [OF assms(1)] by blast
  have w: "\<not> w_locked w" "w \<noteq> W_post" "\<forall>m. w = W_lock m \<longrightarrow> sem_mutex s = 0" "\<forall>m. w = W_empty m \<longrightarrow> sem_empty s = 0" "w_ok w"
    if "w \<in> set (writers s)" for w
  proof -
    have "\<not> (w_locked w \<or> w = W_post \<or> (\<exists>m. w = W_lock m \<and> 0 < sem_mutex s) \<or> (\<exists>m. w = W_empty m \<and> 0 < sem_empty s))"
      using writer_can_step [OF inv that] stuck by metis
    then show "\<not> w_locked w" "w \<noteq> W_post" "\<forall>m. w = W_lock m \<longrightarrow> sem_mutex s = 0" "\<forall>m. w = W_empty m \<longrightarrow> sem_empty s = 0" by auto
    show "w_ok w" using inv that by (simp add: log_inv_def)
  qed
  have r: "rdr s = R_wait \<and> sem_full s = 0 \<or> rdr s = R_lock \<and> sem_mutex s = 0"
    using reader_can_step [OF inv assms(2), of "\<lambda>m. False"] stuck neq0_conv by metis
  have "count_w w_locked s = 0" using w(1) by (simp add: count_w_def filter_empty_conv)
  then have m: "sem_mutex s = 1" "rdr s = R_wait" "sem_full s = 0" using inv r by (auto simp: log_inv_def)
  have "\<not> w_holds w" if "w \<in> set (writers s)" for w using w [OF that] m(1) by (cases w) auto
  then have "count_w w_holds s = 0" by (simp add: count_w_def filter_empty_conv)
  then have "0 < sem_empty s" using inv m by (simp add: log_inv_def MAX_BLOCK_def)
  obtain x where x: "x \<in> set (writers s)" "x \<noteq> W_idle" using assms(3) by blast
  show False using w [OF x(1)] x(2) \<open>0 < sem_empty s\<close> m(1) by (cases x) auto
qed

theorem log_no_deadlock_witness:
  "\<exists>s'. log_step (\<lambda>m. False) (set_writer 0 (W_empty [1]) (log_init 1)) s'"
proof -
  have "log_step fits (log_init 1) (set_writer 0 (W_empty [1]) (log_init 1))"
    using w_call [of 0 "log_init 1" fits "[1]"] by (simp add: log_init_def fits_def BLOCK_SIZE_def)
  then have "log_reach fits 1 (set_writer 0 (W_empty [1]) (log_init 1))" by (rule log_reach_step [OF log_reach_init])
  from log_no_deadlock [OF this] show ?thesis by (simp add: log_init_def)
qed

end
