(* ===== verification/Router_If.thy ===== *)
theory Router_If
  imports Lsd_State Ini
begin

text \<open>
  The table of the router's interfaces (\<^verbatim>\<open>router/interface.c\<close>, \<^verbatim>\<open>router/router.c\<close>): queries, the update from the rows that
  SNMP returns, and the file that says which interfaces belong to the backbone.  The interfaces extend those that the
  link-state daemon works with (\<open>Lsd_State\<close>) by what the reports need.  A pointer to an interface is its index.
\<close>

section \<open>State\<close>

record ospf_proto_info =
  hello_interval :: u32
  dead_interval :: u32

text \<open>
  \<open>ri_prefixlens\<close> are the prefix lengths of the addresses of the details, in the order of \<^const>\<open>ri_connected\<close>, and \<open>ri_ospf\<close>
  the object \<^verbatim>\<open>info\<close> of the protocol information.
\<close>

record router_if = rinterface +
  ri_hw_state :: eth_state
  ri_name :: string
  ri_bgp_type :: u32
  ri_ospf :: "ospf_proto_info option"
  ri_prefixlens :: "int list"
  ri_bandwidth :: int
  ri_hw_addr :: string
  ri_send_rate :: u64
  ri_recv_rate :: u64
  ri_send_packet :: u64
  ri_recv_packet :: u64

definition OSPF_ROUTER :: u32 where "OSPF_ROUTER = 1"
definition BGP_ROUTER :: u32 where "BGP_ROUTER = 2"
definition BGP_EBGP :: u32 where "BGP_EBGP = 1"
definition BGP_IBGP :: u32 where "BGP_IBGP = 2"

text \<open>A row of the interface table (\<^verbatim>\<open>struct ifTable\<close>) that the SNMP client has filled in.\<close>

record if_row =
  ifdex :: string
  ifDescr :: string
  ifBandwidth :: string
  if_ip :: string
  physAddress :: string
  netMask :: string
  if_areaId :: string
  ospfIfHelloInterval :: string
  ospfIfDeadInterval :: string
  ifAdminStatus :: string
  ifOperStatus :: string
  ospfCost :: string
  ospfNbrIp :: string
  nbrRouteId :: string
  inrate :: int
  outrate :: int

text \<open>\<^verbatim>\<open>struct router localrouter\<close> and the rows of the last update; \<open>None\<close> is the null list.\<close>

record router =
  r_routerid :: u32
  r_routerip :: u32
  r_agentid :: u32
  r_as_id :: u32
  r_type :: u32
  r_inited :: bool
  iflist :: "router_if list option"
  ifList :: "if_row list option"

definition init_local_router :: "u32 \<Rightarrow> u32 \<Rightarrow> u32 \<Rightarrow> u32 \<Rightarrow> router \<Rightarrow> router" where
  "init_local_router routerid pmaid routerip ty r =
     r\<lparr>r_routerid := routerid, r_agentid := pmaid, r_routerip := routerip, r_type := ty, r_inited := True\<rparr>"

section \<open>Queries\<close>

datatype if_query = Q_TYPE if_type | Q_STATE eth_state | Q_NAME string | Q_CTID u32 | Q_NID u32 | Q_IPADDR u32

text \<open>How often an interface is added to the result.\<close>

definition query_hits :: "if_query \<Rightarrow> router_if \<Rightarrow> nat res" where
  "query_hits q face =
     (case q of
        Q_TYPE t \<Rightarrow> Ok (of_bool (ri_type face = t))
      | Q_STATE s \<Rightarrow> Ok (of_bool (ri_op_state face = s))
      | Q_NAME n \<Rightarrow> Ok (of_bool (ri_name face = n))
      | Q_CTID i \<Rightarrow> Ok (of_bool (ri_ctl_id face = i))
      | Q_NID r \<Rightarrow> (case ri_neighbor face of None \<Rightarrow> Err NullDeref | Some nb \<Rightarrow> Ok (of_bool (nb_rid nb = r)))
      | Q_IPADDR a \<Rightarrow> (case ri_connected face of None \<Rightarrow> Err NullDeref | Some as \<Rightarrow> Ok (count_list as a)))"

fun get_interface_from :: "nat \<Rightarrow> router_if list \<Rightarrow> if_query \<Rightarrow> nat list res" where
  "get_interface_from i [] q = Ok []"
| "get_interface_from i (face # fs) q =
     res_bind (query_hits q face) (\<lambda>k. res_map (\<lambda>r. replicate k i @ r) (get_interface_from (Suc i) fs q))"

definition get_interface :: "router_if list \<Rightarrow> if_query \<Rightarrow> nat list res" where
  "get_interface fs q = get_interface_from 0 fs q"

text \<open>\<^verbatim>\<open>result->head->data\<close> after a query, if the total is at least one.\<close>

definition first_interface :: "router_if list \<Rightarrow> if_query \<Rightarrow> nat option res" where
  "first_interface fs q = res_map (\<lambda>r. case r of [] \<Rightarrow> None | i # _ \<Rightarrow> Some i) (get_interface fs q)"

section \<open>Update from SNMP\<close>

definition check_interface_status :: "string \<Rightarrow> eth_state" where
  "check_interface_status cstatus = (if cstatus = ''down'' then ETH_DOWN else ETH_UP)"

text \<open>\<^verbatim>\<open>malloc_z(struct rinterface)\<close> with new details.\<close>

definition new_if :: router_if where
  "new_if = \<lparr>ri_type = ACCESS, ri_op_state = ETH_DOWN, ri_ctl_id = 0, ri_proto = None, ri_neighbor = None, ri_connected = Some [],
     ri_vinterface = None, ri_hw_state = ETH_DOWN, ri_name = [], ri_bgp_type = 0, ri_ospf = None, ri_prefixlens = [], ri_bandwidth = 0,
     ri_hw_addr = [], ri_send_rate = 0, ri_recv_rate = 0, ri_send_packet = 0, ri_recv_packet = 0\<rparr>"

definition IF_NAME_LEN :: nat where "IF_NAME_LEN = 21"

text \<open>The protocol information for a row, from the one the interface has.\<close>

definition update_proto :: "u32 \<Rightarrow> u32 \<Rightarrow> if_row \<Rightarrow> router_if \<Rightarrow> router_if" where
  "update_proto device_type as_id row face =
     (let p = (case ri_proto face of None \<Rightarrow> \<lparr>proto_type = 0, pi_areaid = 0, pi_cost = 0\<rparr> | Some p \<Rightarrow> p);
          cost = u32_of_int (atoi (ospfCost row)); area = u32_of_int (atoi (if_areaId row))
      in if device_type = BGP_ROUTER then
           face\<lparr>ri_proto := Some (p\<lparr>proto_type := ROUTER_BGP, pi_areaid := area, pi_cost := cost\<rparr>),
             ri_bgp_type := (if area = as_id then BGP_IBGP else BGP_EBGP)\<rparr>
         else if device_type = OSPF_ROUTER then
           face\<lparr>ri_proto := Some (p\<lparr>proto_type := ROUTER_OSPF, pi_areaid := area, pi_cost := cost\<rparr>),
             ri_ospf := Some \<lparr>hello_interval = u32_of_int (atoi (ospfIfHelloInterval row)), dead_interval = u32_of_int (atoi (ospfIfDeadInterval row))\<rparr>\<rparr>
         else face\<lparr>ri_proto := Some (p\<lparr>pi_cost := cost\<rparr>)\<rparr>)"

definition update_neighbor :: "if_row \<Rightarrow> router_if \<Rightarrow> router_if" where
  "update_neighbor row face =
     (let nb = (case ri_neighbor face of None \<Rightarrow> \<lparr>nb_devid = 0, nb_rid = 0, nb_router_addr = 0, nb_agent_addr = 0\<rparr> | Some nb \<Rightarrow> nb)
      in face\<lparr>ri_neighbor := Some (nb\<lparr>nb_rid := (case inet_pton (nbrRouteId row) of None \<Rightarrow> 0 | Some a \<Rightarrow> a),
             nb_router_addr := (case inet_pton (ospfNbrIp row) of None \<Rightarrow> nb_router_addr nb | Some a \<Rightarrow> a)\<rparr>)\<rparr>)"

text \<open>
  The changes to one interface.  The name goes to an array of 21 characters.  An address that is not valid leaves the new
  one as \<open>stale\<close>.
\<close>

definition update_if :: "u32 \<Rightarrow> u32 \<Rightarrow> u32 \<Rightarrow> if_row \<Rightarrow> router_if \<Rightarrow> router_if res" where
  "update_if stale device_type as_id row face =
     (if IF_NAME_LEN \<le> length (ifDescr row) then Err OutOfBounds
      else case ri_connected face of
        None \<Rightarrow> Err NullDeref
      | Some addrs \<Rightarrow>
          Ok ((update_neighbor row (update_proto device_type as_id row (face\<lparr>ri_ctl_id := u32_of_int (atoi (ifdex row)),
             ri_name := ifDescr row, ri_op_state := check_interface_status (ifOperStatus row),
             ri_hw_state := check_interface_status (ifAdminStatus row), ri_bandwidth := atoi (ifBandwidth row),
             ri_connected := Some (addrs @ [case inet_pton (if_ip row) of None \<Rightarrow> stale | Some a \<Rightarrow> a]),
             ri_prefixlens := ri_prefixlens face @ [get_prefix_len stale (netMask row)], ri_hw_addr := physAddress row\<rparr>)))
             \<lparr>ri_type := UNKNOWN_IF\<rparr>))"

text \<open>One row: the interface with its number is changed, or a new one is appended.\<close>

definition update_row :: "u32 \<Rightarrow> u32 \<Rightarrow> u32 \<Rightarrow> if_row \<Rightarrow> router_if list \<Rightarrow> router_if list res" where
  "update_row stale device_type as_id row fs =
     res_bind (first_interface fs (Q_CTID (u32_of_int (atoi (ifdex row))))) (\<lambda>r.
       case r of
         None \<Rightarrow> res_map (\<lambda>f. fs @ [f]) (update_if stale device_type as_id row new_if)
       | Some i \<Rightarrow> res_map (\<lambda>f. fs[i := f]) (update_if stale device_type as_id row (fs ! i)))"

section \<open>Types of interfaces\<close>

text \<open>\<^verbatim>\<open>fscanf(fp, "%s", ...)\<close>: the words of the file.  White space at the end gives one more round with an empty word.\<close>

function scan_words :: "string \<Rightarrow> string list" where
  "scan_words s =
     (let t = dropWhile is_space s
      in if t = [] then [[]]
         else (let w = takeWhile (\<lambda>c. \<not> is_space c) t; r = dropWhile (\<lambda>c. \<not> is_space c) t
               in if r = [] then [w] else w # scan_words r))"
  by auto

termination scan_words
proof (relation "measure length")
  fix s t w r
  assume a: "t = dropWhile is_space s" "t \<noteq> []" "r = dropWhile (\<lambda>c. \<not> is_space c) t"
  obtain c cs where c: "t = c # cs" "\<not> is_space c" using a(1,2) dropWhile_hd list.exhaust_sel by metis
  have "length r \<le> length cs" using a(3) c length_dropWhile_le by simp
  moreover have "length t \<le> length s" unfolding a(1) by (rule length_dropWhile_le)
  ultimately show "(r, s) \<in> measure length" using c(1) by simp
qed simp

declare scan_words.simps [simp del]

definition set_type_of_name :: "string \<Rightarrow> if_type \<Rightarrow> router_if list \<Rightarrow> router_if list res" where
  "set_type_of_name name t fs =
     res_map (\<lambda>r. case r of None \<Rightarrow> fs | Some i \<Rightarrow> fs[i := (fs ! i)\<lparr>ri_type := t\<rparr>]) (first_interface fs (Q_NAME name))"

text \<open>The buffers have 100 characters for a command and 20 for a name.\<close>

fun load_types :: "string list \<Rightarrow> router_if list \<Rightarrow> router_if list res" where
  "load_types [] fs = Ok fs"
| "load_types (comm # ws) fs =
     (if 100 \<le> length comm then Err OutOfBounds
      else if comm \<noteq> [] \<and> hd comm = CHR ''#'' then load_types ws fs
      else if take 8 comm = ''backbone'' \<or> take 6 comm = ''access'' then
        (let t = (if take 8 comm = ''backbone'' then BACKBONE else ACCESS)
         in case ws of
              [] \<Rightarrow> set_type_of_name [] t fs
            | name # ws1 \<Rightarrow>
                if 20 \<le> length name then Err OutOfBounds
                else res_bind (set_type_of_name name t fs) (load_types ws1))
      else res_bind (set_type_of_name [] ACCESS fs) (load_types ws))"

definition load_interface_type_from_config :: "string option \<Rightarrow> router_if list \<Rightarrow> router_if list res" where
  "load_interface_type_from_config file fs = (case file of None \<Rightarrow> Ok fs | Some text \<Rightarrow> load_types (scan_words text) fs)"

text \<open>
  \<open>rows\<close> are the rows that the SNMP client returned for the type of the router, \<open>None\<close> if it left the list empty, and
  \<open>asid\<close> the text it returned for the local system number.  For a router of another type the client is not asked: the
  rows of an earlier update are entered again.
\<close>

definition update_interface_from_snmp ::
  "u32 \<Rightarrow> if_row list option \<Rightarrow> string \<Rightarrow> string option \<Rightarrow> router \<Rightarrow> (int \<times> router) res" where
  "update_interface_from_snmp stale rows asid file r =
     (let fs0 = (case iflist r of None \<Rightarrow> [] | Some fs \<Rightarrow> fs);
          got = (if r_type r = OSPF_ROUTER \<or> r_type r = BGP_ROUTER then rows else ifList r);
          r1 = r\<lparr>iflist := Some fs0, ifList := got, r_as_id := (if r_type r = BGP_ROUTER then u32_of_int (atoi asid) else r_as_id r)\<rparr>
      in case got of
           None \<Rightarrow> Ok (-1, r1)
         | Some rs \<Rightarrow>
             res_bind (res_for (update_row stale (r_type r) (r_as_id r1)) rs fs0) (\<lambda>fs1.
               res_bind (load_interface_type_from_config file fs1) (\<lambda>fs2.
                 Ok (0, r1\<lparr>iflist := Some fs2, r_inited := True\<rparr>))))"

section \<open>Lookups\<close>

lemma first_interface_total:
  assumes "\<forall>f \<in> set fs. query_hits q f = Ok (k f)"
  shows "first_interface fs q = Ok (find_index (\<lambda>f. k f \<noteq> 0) fs)"
proof -
  have "\<exists>r. get_interface_from i fs q = Ok r \<and> (case r of [] \<Rightarrow> None | j # _ \<Rightarrow> Some j) = map_option ((+) i) (find_index (\<lambda>f. k f \<noteq> 0) fs)" for i
    using assms
  proof (induction fs arbitrary: i)
    case (Cons f fs)
    obtain r where "get_interface_from (Suc i) fs q = Ok r"
      "(case r of [] \<Rightarrow> None | j # _ \<Rightarrow> Some j) = map_option ((+) (Suc i)) (find_index (\<lambda>f. k f \<noteq> 0) fs)"
      using Cons by fastforce
    then show ?case using Cons.prems by (cases "k f"; cases "find_index (\<lambda>f. k f \<noteq> 0) fs") simp_all
  qed simp
  moreover have "map_option ((+) 0) x = x" for x :: "nat option" by (cases x) simp_all
  ultimately show ?thesis by (metis first_interface_def get_interface_def res_map.simps(1))
qed

lemma first_ctid: "first_interface fs (Q_CTID i) = Ok (find_index (\<lambda>f. ri_ctl_id f = i) fs)"
  using first_interface_total [of fs "Q_CTID i" "\<lambda>f. of_bool (ri_ctl_id f = i)"] by (simp add: query_hits_def)

lemma first_name: "first_interface fs (Q_NAME n) = Ok (find_index (\<lambda>f. ri_name f = n) fs)"
  using first_interface_total [of fs "Q_NAME n" "\<lambda>f. of_bool (ri_name f = n)"] by (simp add: query_hits_def)

lemma first_nid:
  "\<forall>f \<in> set fs. ri_neighbor f \<noteq> None \<Longrightarrow> first_interface fs (Q_NID r) = Ok (find_index (\<lambda>f. nb_rid (the (ri_neighbor f)) = r) fs)"
  using first_interface_total [of fs "Q_NID r" "\<lambda>f. of_bool (nb_rid (the (ri_neighbor f)) = r)"] by (simp add: query_hits_def split: option.splits)

lemma first_ipaddr:
  "\<forall>f \<in> set fs. ri_connected f \<noteq> None \<Longrightarrow> first_interface fs (Q_IPADDR a) = Ok (find_index (\<lambda>f. a \<in> set (the (ri_connected f))) fs)"
  using first_interface_total [of fs "Q_IPADDR a" "\<lambda>f. count_list (the (ri_connected f)) a"]
  by (simp add: query_hits_def count_list_0_iff split: option.splits)

section \<open>Types from the file\<close>

text \<open>The settings in the words of the file, in order, and the type that they give to a name, from the type \<open>t\<close> before.\<close>

fun settings :: "string list \<Rightarrow> (string \<times> if_type) list" where
  "settings [] = []"
| "settings (comm # ws) =
     (if comm \<noteq> [] \<and> hd comm = CHR ''#'' then settings ws
      else if take 8 comm = ''backbone'' \<or> take 6 comm = ''access'' then
        (let t = (if take 8 comm = ''backbone'' then BACKBONE else ACCESS)
         in case ws of [] \<Rightarrow> [([], t)] | name # ws1 \<Rightarrow> (name, t) # settings ws1)
      else ([], ACCESS) # settings ws)"

definition config_type :: "string list \<Rightarrow> string \<Rightarrow> if_type \<Rightarrow> if_type" where
  "config_type ws n t = fold (\<lambda>(m, u) t. if m = n then u else t) (settings ws) t"

lemma fold_last_type:
  "(\<forall>t. fold (\<lambda>(m, u) t. if m = n then u else t) cs t = t) \<or> (\<exists>v. \<forall>t. fold (\<lambda>(m, u) t. if m = n then u else t) cs t = v)"
  by (induction cs) auto

lemma config_type_idem [simp]: "config_type ws n (config_type ws n t) = config_type ws n t"
  using fold_last_type [of n "settings ws"] unfolding config_type_def by metis

lemma load_types_settings:
  "\<forall>w \<in> set ws. length w < 20 \<Longrightarrow> load_types ws fs = res_for (\<lambda>(n, t). set_type_of_name n t) (settings ws) fs"
proof (induction ws arbitrary: fs rule: settings.induct)
  case (2 comm ws)
  have one: "res_bind r Ok = r" for r :: "router_if list res" by (cases r) simp_all
  show ?case
  proof (cases ws)
    case Nil
    have "load_types [] = Ok" "res_for g [] = Ok" for g :: "string \<times> if_type \<Rightarrow> router_if list \<Rightarrow> router_if list res"
      by (rule ext, simp)+
    with Nil show ?thesis using "2.prems" by (simp add: Let_def one)
  next
    case (Cons name ws1)
    have l: "length comm < 100" "length name < 20" "\<forall>w \<in> set ws. length w < 20" "\<forall>w \<in> set ws1. length w < 20"
      using "2.prems" Cons by auto
    show ?thesis
    proof (cases "comm \<noteq> [] \<and> hd comm = CHR ''#''")
      case True
      then show ?thesis using "2.IH"(1) [OF True l(3)] l(1) by simp
    next
      case no_comment: False
      show ?thesis
      proof (cases "take 8 comm = ''backbone'' \<or> take 6 comm = ''access''")
        case True
        have "load_types ws1 = res_for (\<lambda>(n, t). set_type_of_name n t) (settings ws1)"
          using "2.IH"(2) [OF no_comment True refl Cons l(4)] by (rule ext)
        then show ?thesis using no_comment True l(1,2)
          by (subst load_types.simps(2), subst settings.simps(2)) (auto simp: Cons Let_def simp del: load_types.simps settings.simps)
      next
        case False
        have "load_types ws = res_for (\<lambda>(n, t). set_type_of_name n t) (settings ws)"
          using "2.IH"(3) [OF no_comment False l(3)] by (rule ext)
        then show ?thesis using no_comment False l(1)
          by (subst load_types.simps(2), subst settings.simps(2)) (auto simp del: load_types.simps settings.simps)
      qed
    qed
  qed
qed simp

lemma set_type_distinct:
  assumes "distinct (map ri_name fs)"
  shows "set_type_of_name n t fs = Ok (map (\<lambda>f. if ri_name f = n then f\<lparr>ri_type := t\<rparr> else f) fs)"
proof (cases "find_index (\<lambda>f. ri_name f = n) fs")
  case None
  then have "map (\<lambda>f. if ri_name f = n then f\<lparr>ri_type := t\<rparr> else f) fs = fs" by (intro map_idI) (auto simp: find_index_None)
  with None show ?thesis by (simp add: set_type_of_name_def first_name)
next
  case (Some i)
  then have i: "i < length fs" "ri_name (fs ! i) = n" by (simp_all add: find_index_Some)
  have "ri_name (fs ! j) = n \<longleftrightarrow> j = i" if "j < length fs" for j
    using assms i that nth_eq_iff_index_eq [OF assms, of j i] by auto
  then have "fs[i := (fs ! i)\<lparr>ri_type := t\<rparr>] = map (\<lambda>f. if ri_name f = n then f\<lparr>ri_type := t\<rparr> else f) fs"
    by (intro nth_equalityI) (auto simp: nth_list_update)
  with Some show ?thesis by (simp add: set_type_of_name_def first_name)
qed

lemma apply_settings:
  assumes "distinct (map ri_name fs)"
  shows "res_for (\<lambda>(n, t). set_type_of_name n t) cs fs =
    Ok (map (\<lambda>f. f\<lparr>ri_type := fold (\<lambda>(m, u) t. if m = ri_name f then u else t) cs (ri_type f)\<rparr>) fs)"
  using assms
proof (induction cs arbitrary: fs)
  case Nil
  then show ?case by (simp add: map_idI)
next
  case (Cons c cs)
  obtain n t where c: "c = (n, t)" by (rule prod.exhaust)
  let ?fs = "map (\<lambda>f. if ri_name f = n then f\<lparr>ri_type := t\<rparr> else f) fs"
  have "map ri_name ?fs = map ri_name fs" by simp
  then have "distinct (map ri_name ?fs)" using Cons.prems by metis
  from Cons.IH [OF this] show ?case by (simp add: c set_type_distinct [OF Cons.prems] comp_def)
qed

lemma load_types_distinct:
  assumes "distinct (map ri_name fs)" "\<forall>w \<in> set ws. length w < 20"
  shows "load_types ws fs = Ok (map (\<lambda>f. f\<lparr>ri_type := config_type ws (ri_name f) (ri_type f)\<rparr>) fs)"
  by (simp add: load_types_settings [OF assms(2)] apply_settings [OF assms(1)] config_type_def)

section \<open>Keeping the table\<close>

definition row_id :: "if_row \<Rightarrow> u32" where
  "row_id row = u32_of_int (atoi (ifdex row))"

text \<open>What an interface shows of the row it was last updated from.\<close>

definition shows_row :: "if_row \<Rightarrow> router_if \<Rightarrow> bool" where
  "shows_row row f \<longleftrightarrow> ri_ctl_id f = row_id row \<and> ri_name f = ifDescr row \<and> ri_op_state f = check_interface_status (ifOperStatus row) \<and>
     ri_hw_state f = check_interface_status (ifAdminStatus row) \<and>
     (\<forall>a. inet_pton (if_ip row) = Some a \<longrightarrow> (\<exists>as. ri_connected f = Some (as @ [a]))) \<and>
     (\<exists>nb. ri_neighbor f = Some nb \<and> nb_rid nb = (case inet_pton (nbrRouteId row) of None \<Rightarrow> 0 | Some a \<Rightarrow> a)) \<and>
     (\<exists>p. ri_proto f = Some p \<and> pi_cost p = u32_of_int (atoi (ospfCost row)))"

lemma update_if_ok:
  assumes "length (ifDescr row) < 21" "ri_connected f = Some as"
  shows "\<exists>f'. update_if stale ty asid row f = Ok f' \<and> shows_row row f' \<and> ri_type f' = UNKNOWN_IF \<and> ri_vinterface f' = ri_vinterface f \<and>
    ri_connected f' \<noteq> None \<and> (ty = OSPF_ROUTER \<longrightarrow> ri_ospf f' \<noteq> None)"
  using assms by (auto simp: update_if_def IF_NAME_LEN_def shows_row_def update_neighbor_def update_proto_def row_id_def Let_def OSPF_ROUTER_def BGP_ROUTER_def split: option.splits)

text \<open>
  Numbers name interfaces: one interface for each, with the name \<open>nm\<close> gives it; each has its objects and, up to the
  settings of the file, the type they give.
\<close>

definition if_ok :: "u32 \<Rightarrow> (u32 \<Rightarrow> string) \<Rightarrow> string list \<Rightarrow> router_if \<Rightarrow> bool" where
  "if_ok ty nm ws f \<longleftrightarrow> ri_proto f \<noteq> None \<and> ri_neighbor f \<noteq> None \<and> ri_connected f \<noteq> None \<and> (ty = OSPF_ROUTER \<longrightarrow> ri_ospf f \<noteq> None) \<and> ri_name f = nm (ri_ctl_id f) \<and>
     config_type ws (ri_name f) (ri_type f) = config_type ws (ri_name f) UNKNOWN_IF"

definition rows_ok :: "u32 \<Rightarrow> (u32 \<Rightarrow> string) \<Rightarrow> string list \<Rightarrow> router_if list \<Rightarrow> bool" where
  "rows_ok ty nm ws fs \<longleftrightarrow> distinct (map ri_ctl_id fs) \<and> (\<forall>f \<in> set fs. if_ok ty nm ws f)"

lemma shows_row_ok:
  "shows_row row f \<Longrightarrow> ri_type f = UNKNOWN_IF \<Longrightarrow> ri_connected f \<noteq> None \<Longrightarrow> ty = OSPF_ROUTER \<longrightarrow> ri_ospf f \<noteq> None \<Longrightarrow> ifDescr row = nm (row_id row) \<Longrightarrow> if_ok ty nm ws f"
  by (auto simp: shows_row_def if_ok_def)

definition grown :: "router_if list \<Rightarrow> router_if list \<Rightarrow> bool" where
  "grown fs fs' \<longleftrightarrow> length fs \<le> length fs' \<and>
     (\<forall>i < length fs'. if i < length fs then ri_ctl_id (fs' ! i) = ri_ctl_id (fs ! i) \<and> ri_vinterface (fs' ! i) = ri_vinterface (fs ! i)
        else ri_vinterface (fs' ! i) = None)"

lemma grown_refl [simp]: "grown fs fs"
  by (simp add: grown_def)

lemma grown_trans: "grown as bs \<Longrightarrow> grown bs cs \<Longrightarrow> grown as cs"
  unfolding grown_def by (metis (no_types, opaque_lifting) le_trans not_le_imp_less order_less_le_trans)

lemma update_row_ok:
  assumes "rows_ok ty nm ws fs" "length (ifDescr row) < 21" "ifDescr row = nm (row_id row)"
  shows "\<exists>fs' f. update_row stale ty asid row fs = Ok fs' \<and> rows_ok ty nm ws fs' \<and> grown fs fs' \<and> f \<in> set fs' \<and> shows_row row f \<and>
    ri_ctl_id ` set fs' = insert (row_id row) (ri_ctl_id ` set fs) \<and> (\<forall>g \<in> set fs. ri_ctl_id g \<noteq> row_id row \<longrightarrow> g \<in> set fs')"
proof (cases "find_index (\<lambda>f. ri_ctl_id f = row_id row) fs")
  case None
  have "ri_connected new_if = Some []" by (simp add: new_if_def)
  then obtain f where f: "update_if stale ty asid row new_if = Ok f" "shows_row row f" "ri_type f = UNKNOWN_IF" "ri_vinterface f = None" "ri_connected f \<noteq> None" "ty = OSPF_ROUTER \<longrightarrow> ri_ospf f \<noteq> None"
    using update_if_ok [OF assms(2), of new_if "[]" stale ty asid] by (auto simp: new_if_def)
  then have u: "update_row stale ty asid row fs = Ok (fs @ [f])" using None by (simp add: update_row_def first_ctid row_id_def [symmetric])
  have id: "ri_ctl_id f = row_id row" "ri_name f = nm (ri_ctl_id f)" using f(2) assms(3) by (simp_all add: shows_row_def)
  have "rows_ok ty nm ws (fs @ [f])"
    using assms(1) None id(1) shows_row_ok [OF f(2,3,5,6), of nm ws] assms(3) by (auto simp: rows_ok_def find_index_None)
  moreover have "grown fs (fs @ [f])" using f(4) by (auto simp: grown_def nth_append)
  ultimately show ?thesis using u f(2) id by (intro exI [of _ "fs @ [f]"] exI [of _ f]) auto
next
  case (Some i)
  then have i: "i < length fs" "ri_ctl_id (fs ! i) = row_id row" by (simp_all add: find_index_Some)
  obtain as where "ri_connected (fs ! i) = Some as" using assms(1) nth_mem [OF i(1)] unfolding rows_ok_def if_ok_def by (metis not_None_eq)
  then obtain f where f: "update_if stale ty asid row (fs ! i) = Ok f" "shows_row row f" "ri_type f = UNKNOWN_IF"
    "ri_vinterface f = ri_vinterface (fs ! i)" "ri_connected f \<noteq> None" "ty = OSPF_ROUTER \<longrightarrow> ri_ospf f \<noteq> None"
    using update_if_ok [OF assms(2), of "fs ! i" as stale ty asid] by auto
  let ?fs = "fs[i := f]"
  have u: "update_row stale ty asid row fs = Ok ?fs" using Some f(1) by (simp add: update_row_def first_ctid row_id_def [symmetric])
  have id: "ri_ctl_id f = ri_ctl_id (fs ! i)" "ri_name f = nm (ri_ctl_id f)" using f(2) assms(3) i(2) by (simp_all add: shows_row_def)
  have ids: "map ri_ctl_id ?fs = map ri_ctl_id fs" using id(1) i(1) by (simp add: map_update list_update_same_conv)
  have "rows_ok ty nm ws ?fs"
    using assms(1) shows_row_ok [OF f(2,3,5,6), of nm ws] assms(3) set_update_subset_insert [of fs i f] unfolding rows_ok_def ids by blast
  moreover have "grown fs ?fs" using f(4) id(1) i(1) by (simp add: grown_def nth_list_update)
  moreover have "f \<in> set ?fs" using i(1) by (rule set_update_memI)
  moreover have "g \<in> set ?fs" if "g \<in> set fs" "ri_ctl_id g \<noteq> row_id row" for g
    using that i by (metis in_set_conv_nth length_list_update nth_list_update_neq)
  moreover have "ri_ctl_id ` set ?fs = insert (row_id row) (ri_ctl_id ` set fs)"
    using arg_cong [OF ids, of set] imageI [OF nth_mem [OF i(1)], of ri_ctl_id] i(2) by (simp add: insert_absorb)
  ultimately show ?thesis using u f(2) by blast
qed

lemma update_rows_ok:
  assumes "rows_ok ty nm ws fs" "\<forall>row \<in> set rows. length (ifDescr row) < 21 \<and> ifDescr row = nm (row_id row)" "distinct (map row_id rows)"
  shows "\<exists>fs'. res_for (update_row stale ty asid) rows fs = Ok fs' \<and> rows_ok ty nm ws fs' \<and> grown fs fs' \<and>
    ri_ctl_id ` set fs' = ri_ctl_id ` set fs \<union> row_id ` set rows \<and> (\<forall>row \<in> set rows. \<exists>f \<in> set fs'. shows_row row f) \<and>
    (\<forall>g \<in> set fs. ri_ctl_id g \<notin> row_id ` set rows \<longrightarrow> g \<in> set fs')"
  using assms
proof (induction rows arbitrary: fs)
  case (Cons row rows)
  obtain fs1 f where f: "update_row stale ty asid row fs = Ok fs1" "rows_ok ty nm ws fs1" "grown fs fs1" "f \<in> set fs1" "shows_row row f"
    "ri_ctl_id ` set fs1 = insert (row_id row) (ri_ctl_id ` set fs)" "\<forall>g \<in> set fs. ri_ctl_id g \<noteq> row_id row \<longrightarrow> g \<in> set fs1"
    using update_row_ok [OF Cons.prems(1), of row stale asid] Cons.prems(2) by auto
  have "\<forall>row \<in> set rows. length (ifDescr row) < 21 \<and> ifDescr row = nm (row_id row)" "distinct (map row_id rows)"
    using Cons.prems(2,3) by auto
  from Cons.IH [OF f(2) this] obtain fs2 where g: "res_for (update_row stale ty asid) rows fs1 = Ok fs2" "rows_ok ty nm ws fs2" "grown fs1 fs2"
    "ri_ctl_id ` set fs2 = ri_ctl_id ` set fs1 \<union> row_id ` set rows" "\<forall>row \<in> set rows. \<exists>f \<in> set fs2. shows_row row f"
    "\<forall>g \<in> set fs1. ri_ctl_id g \<notin> row_id ` set rows \<longrightarrow> g \<in> set fs2" by blast
  have "ri_ctl_id f \<notin> row_id ` set rows" using f(5) Cons.prems(3) by (auto simp: shows_row_def)
  then have "\<exists>f \<in> set fs2. shows_row row f" using f(4,5) g(6) by blast
  with f g grown_trans [OF f(3) g(3)] show ?case by (intro exI [of _ fs2]) auto
qed simp

text \<open>The table between two updates: the types are those of the file.\<close>

definition if_table_ok :: "u32 \<Rightarrow> (u32 \<Rightarrow> string) \<Rightarrow> string list \<Rightarrow> router_if list \<Rightarrow> bool" where
  "if_table_ok ty nm ws fs \<longleftrightarrow> rows_ok ty nm ws fs \<and> (\<forall>f \<in> set fs. ri_type f = config_type ws (ri_name f) UNKNOWN_IF)"

lemma load_types_ok:
  assumes "rows_ok ty nm ws fs" "inj_on nm (ri_ctl_id ` set fs)" "\<forall>w \<in> set ws. length w < 20"
  shows "\<exists>fs'. load_types ws fs = Ok fs' \<and> if_table_ok ty nm ws fs' \<and> grown fs fs' \<and> ri_ctl_id ` set fs' = ri_ctl_id ` set fs \<and>
    (\<forall>row. (\<exists>f \<in> set fs. shows_row row f) \<longrightarrow> (\<exists>f \<in> set fs'. shows_row row f))"
proof -
  let ?g = "\<lambda>f. f\<lparr>ri_type := config_type ws (ri_name f) (ri_type f)\<rparr> :: router_if"
  have "map ri_name fs = map nm (map ri_ctl_id fs)" using assms(1) by (auto simp: rows_ok_def if_ok_def)
  moreover have "distinct (map nm (map ri_ctl_id fs))" using assms(1,2) by (simp add: rows_ok_def distinct_map comp_inj_on)
  ultimately have "distinct (map ri_name fs)" by metis
  then have l: "load_types ws fs = Ok (map ?g fs)" using load_types_distinct assms(3) by blast
  have "rows_ok ty nm ws (map ?g fs)" using assms(1) by (auto simp: rows_ok_def if_ok_def comp_def)
  then have "if_table_ok ty nm ws (map ?g fs)" using assms(1) by (auto simp: if_table_ok_def rows_ok_def if_ok_def)
  moreover have "grown fs (map ?g fs)" by (simp add: grown_def)
  moreover have "shows_row row (?g f) \<longleftrightarrow> shows_row row f" for row f by (simp add: shows_row_def)
  ultimately show ?thesis using l by (intro exI [of _ "map ?g fs"]) (auto simp: image_image)
qed

text \<open>The words of the file of types.\<close>

definition config_words :: "string option \<Rightarrow> string list" where
  "config_words file = (case file of None \<Rightarrow> [] | Some text \<Rightarrow> scan_words text)"

lemma load_config: "load_interface_type_from_config file fs = load_types (config_words file) fs"
  by (simp add: load_interface_type_from_config_def config_words_def split: option.split)

lemma update_table:
  assumes "if_table_ok (r_type r) nm (config_words file) fs0" "fs0 = (case iflist r of None \<Rightarrow> [] | Some fs \<Rightarrow> fs)"
    "\<forall>row \<in> set rows. length (ifDescr row) < 21 \<and> ifDescr row = nm (row_id row)" "distinct (map row_id rows)"
    "inj_on nm (ri_ctl_id ` set fs0 \<union> row_id ` set rows)" "\<forall>w \<in> set (config_words file). length w < 20"
    "r_type r = OSPF_ROUTER \<or> r_type r = BGP_ROUTER"
  shows "\<exists>r' fs. update_interface_from_snmp stale (Some rows) asid file r = Ok (0, r') \<and> iflist r' = Some fs \<and> ifList r' = Some rows \<and> r_inited r' \<and> r_type r' = r_type r \<and>
    if_table_ok (r_type r) nm (config_words file) fs \<and> grown fs0 fs \<and> ri_ctl_id ` set fs = ri_ctl_id ` set fs0 \<union> row_id ` set rows \<and>
    (\<forall>row \<in> set rows. \<exists>f \<in> set fs. shows_row row f)"
proof -
  define as where "as = (if r_type r = BGP_ROUTER then u32_of_int (atoi asid) else r_as_id r)"
  have "rows_ok (r_type r) nm (config_words file) fs0" using assms(1) by (simp add: if_table_ok_def)
  from update_rows_ok [OF this assms(3,4), of stale as] obtain fs1 where
    u: "res_for (update_row stale (r_type r) as) rows fs0 = Ok fs1" "rows_ok (r_type r) nm (config_words file) fs1" "grown fs0 fs1"
      "ri_ctl_id ` set fs1 = ri_ctl_id ` set fs0 \<union> row_id ` set rows" "\<forall>row \<in> set rows. \<exists>f \<in> set fs1. shows_row row f" by blast
  have "inj_on nm (ri_ctl_id ` set fs1)" using assms(5) u(4) by simp
  from load_types_ok [OF u(2) this assms(6)] obtain fs where
    l: "load_types (config_words file) fs1 = Ok fs" "if_table_ok (r_type r) nm (config_words file) fs" "grown fs1 fs" "ri_ctl_id ` set fs = ri_ctl_id ` set fs1"
      "\<forall>row. (\<exists>f \<in> set fs1. shows_row row f) \<longrightarrow> (\<exists>f \<in> set fs. shows_row row f)" by blast
  have "\<exists>r'. update_interface_from_snmp stale (Some rows) asid file r = Ok (0, r') \<and> iflist r' = Some fs \<and> ifList r' = Some rows \<and> r_inited r' \<and> r_type r' = r_type r"
    using u(1) l(1) assms(7) unfolding update_interface_from_snmp_def Let_def load_config assms(2) [symmetric] by (simp add: as_def)
  with l(2,4,5) u(4,5) grown_trans [OF u(3) l(3)] show ?thesis by metis
qed

section \<open>Two faults\<close>

text \<open>An update appends the address of the row again, also when the interface has it already.\<close>

lemma address_appended:
  "update_if stale ty asid row f = Ok f' \<Longrightarrow> inet_pton (if_ip row) = Some a \<Longrightarrow> ri_connected f = Some as \<Longrightarrow> ri_connected f' = Some (as @ [a])"
  by (auto simp: update_if_def update_neighbor_def update_proto_def Let_def split: if_splits)

text \<open>Only the word with the number sign is a comment; a setting behind it in the line is carried out.\<close>

lemma comment_is_one_word: "settings (scan_words ''# backbone eth0'') = [(''eth0'', BACKBONE)]"
  by code_simp

end
