(* ===== verification/If_Report.thy ===== *)
theory If_Report
  imports Router_If Logger
begin

text \<open>
  The reports about interfaces (\<^verbatim>\<open>router/interface.c\<close>): the polling threads read a table of the router by SNMP, compare it
  with the interfaces, and send an XML document to the management server.  The rows of the tables are arguments; a document
  is the tree that libxml2 is given.  Also the addresses of neighbouring agents (\<^verbatim>\<open>pma_list_handle\<close> of \<^verbatim>\<open>server/icm.c\<close>).
\<close>

section \<open>Documents\<close>

definition UP_DEVICE_INFO :: nat where "UP_DEVICE_INFO = 15"
definition UP_TRAFFICE_INFO :: nat where "UP_TRAFFICE_INFO = 17"
definition UP_OSPF_INTERFACE_INFO :: nat where "UP_OSPF_INTERFACE_INFO = 18"
definition UP_BGP_INTERFACE_INFO :: nat where "UP_BGP_INTERFACE_INFO = 19"
definition UP_BGP_PATH_TABLE_INFO :: nat where "UP_BGP_PATH_TABLE_INFO = 20"

text \<open>A message to the server: its type and its document.\<close>

type_synonym report = "nat \<times> xml_node"

abbreviation val_elem :: "string \<Rightarrow> string \<Rightarrow> xml_node" where
  "val_elem n v \<equiv> elem n [text_node v]"

abbreviation id_elem :: "string \<Rightarrow> string \<Rightarrow> xml_node list \<Rightarrow> xml_node" where
  "id_elem n i cs \<equiv> XmlNode n [(''id'', i)] cs []"

text \<open>
  The frame of the documents: a time and the device with its interfaces.  \<open>stamp\<close> is the text that \<^verbatim>\<open>PRINTTIME\<close> gives.
\<close>

definition device_doc :: "string \<Rightarrow> string \<Rightarrow> u32 \<Rightarrow> xml_node list \<Rightarrow> xml_node" where
  "device_doc root stamp agentid nodes = elem root [val_elem ''timestamp'' stamp, id_elem ''device'' (dec_int (int_of_u32 agentid)) nodes]"

text \<open>
  One element for each row of the last update.  A row without an interface ends the function with a null pointer, here
  \<open>None\<close>.
\<close>

fun if_nodes :: "(if_row \<Rightarrow> router_if \<Rightarrow> xml_node res) \<Rightarrow> if_row list \<Rightarrow> router_if list \<Rightarrow> xml_node list option res" where
  "if_nodes g [] fs = Ok (Some [])"
| "if_nodes g (row # rows) fs =
     res_bind (first_interface fs (Q_CTID (u32_of_int (atoi (ifdex row))))) (\<lambda>r.
       case r of
         None \<Rightarrow> Ok None
       | Some i \<Rightarrow> res_bind (g row (fs ! i)) (\<lambda>n. res_map (map_option (\<lambda>ns. n # ns)) (if_nodes g rows fs)))"

definition if_doc :: "(if_row \<Rightarrow> router_if \<Rightarrow> xml_node res) \<Rightarrow> string \<Rightarrow> string \<Rightarrow> router \<Rightarrow> xml_node option res" where
  "if_doc g root stamp r =
     (case iflist r of
        None \<Rightarrow> Ok None
      | Some fs \<Rightarrow>
          (case ifList r of
             None \<Rightarrow> Err NullDeref
           | Some rows \<Rightarrow> res_map (map_option (device_doc root stamp (r_agentid r))) (if_nodes g rows fs)))"

fun if_type_code :: "if_type \<Rightarrow> int" where
  "if_type_code ACCESS = 0"
| "if_type_code BACKBONE = 1"
| "if_type_code UNKNOWN_IF = 2"

text \<open>
  The protocol name is written to a buffer that keeps its content for a router of another type: \<open>buf\<close> is what it holds.
\<close>

definition ospf_if_node :: "u32 \<Rightarrow> string \<Rightarrow> if_row \<Rightarrow> router_if \<Rightarrow> xml_node res" where
  "ospf_if_node ty buf row f =
     (case ri_ospf f of
        None \<Rightarrow> Err NullDeref
      | Some p \<Rightarrow>
          Ok (id_elem ''interface'' (ifdex row)
            [val_elem ''protocol'' (if ty = OSPF_ROUTER then ''ospf'' else if ty = BGP_ROUTER then ''bgp'' else buf),
             val_elem ''area_id'' (if_areaId row), val_elem ''hello_timeval'' (dec_int (int_of_u32 (hello_interval p))),
             val_elem ''dead_timeval'' (dec_int (int_of_u32 (dead_interval p))), val_elem ''type'' (dec_int (if_type_code (ri_type f)))]))"

definition ospf_interface_info_to_xml :: "string \<Rightarrow> string \<Rightarrow> router \<Rightarrow> xml_node option res" where
  "ospf_interface_info_to_xml buf stamp r =
     (if iflist r \<noteq> None \<and> ifList r = None then Err NullDeref else if_doc (ospf_if_node (r_type r) buf) ''OSPF_INTERFACE'' stamp r)"

fun eth_code :: "eth_state \<Rightarrow> int" where
  "eth_code ETH_DOWN = 0"
| "eth_code ETH_UP = 1"

definition device_if_node :: "if_row \<Rightarrow> router_if \<Rightarrow> xml_node res" where
  "device_if_node row f =
     Ok (id_elem ''interface'' (ifdex row)
       [val_elem ''interface_name'' (ifDescr row), val_elem ''ipv4_address'' (if_ip row), val_elem ''ipv4_mask'' (netMask row),
        val_elem ''mac_address'' (physAddress row), val_elem ''if_bandwidth'' (ifBandwidth row),
        val_elem ''hw_status'' (dec_int (eth_code (ri_hw_state f)))])"

definition device_info_to_xml :: "string \<Rightarrow> router \<Rightarrow> xml_node option res" where
  "device_info_to_xml stamp r = if_doc device_if_node ''DEVICE_INFO'' stamp r"

definition ifrate_node :: "if_row \<Rightarrow> router_if \<Rightarrow> xml_node res" where
  "ifrate_node row f =
     Ok (id_elem ''interface'' (ifdex row)
       [val_elem ''out_rate'' (dec_int (sint (ri_send_rate f))), val_elem ''in_rate'' (dec_int (sint (ri_recv_rate f)))])"

definition ifrate_info_to_xml :: "string \<Rightarrow> router \<Rightarrow> xml_node option res" where
  "ifrate_info_to_xml stamp r = if_doc ifrate_node ''TRAFFIC_INFO'' stamp r"

definition bgp_if_node :: "if_row \<Rightarrow> router_if \<Rightarrow> xml_node res" where
  "bgp_if_node row f =
     (case ri_proto f of
        None \<Rightarrow> Err NullDeref
      | Some p \<Rightarrow> Ok (id_elem ''interface'' (ifdex row) [val_elem ''protocol'' ''bgp'', val_elem ''type'' (dec_int (int_of_u32 (ri_bgp_type f)))]))"

text \<open>Without an interface list the queries find nothing, so that a first row ends the function.\<close>

definition bgp_interface_info_to_xml :: "string \<Rightarrow> router \<Rightarrow> xml_node option res" where
  "bgp_interface_info_to_xml stamp r =
     (case ifList r of
        None \<Rightarrow> Err NullDeref
      | Some rows \<Rightarrow>
          res_map (map_option (device_doc ''BGP_INTERFACE'' stamp (r_agentid r)))
            (if_nodes bgp_if_node rows (case iflist r of None \<Rightarrow> [] | Some fs \<Rightarrow> fs)))"

text \<open>\<^verbatim>\<open>strlen\<close> of the document's text and the sending; the null pointer faults.\<close>

definition send_doc :: "nat \<Rightarrow> xml_node option \<Rightarrow> report list res" where
  "send_doc t d = (case d of None \<Rightarrow> Err NullDeref | Some x \<Rightarrow> Ok [(t, x)])"

definition send_bgp_interface_info :: "string \<Rightarrow> router \<Rightarrow> report list res" where
  "send_bgp_interface_info stamp r = res_bind (bgp_interface_info_to_xml stamp r) (send_doc UP_BGP_INTERFACE_INFO)"

definition bgpifinfo_detect :: "string \<Rightarrow> int \<Rightarrow> router \<Rightarrow> report list res" where
  "bgpifinfo_detect stamp ty r = (if ty = 1 \<or> ty = 2 then send_bgp_interface_info stamp r else Ok [])"

definition interfaceinfo_node :: "if_row \<Rightarrow> xml_node" where
  "interfaceinfo_node row =
     id_elem ''interface'' (ifdex row)
       [val_elem ''interface_name'' (ifDescr row), val_elem ''interface_ipv4_address'' (if_ip row),
        val_elem ''interface_ipv4_netmask'' (netMask row), val_elem ''interface_mac'' (physAddress row),
        val_elem ''interface_bandwidth'' (ifBandwidth row), val_elem ''current_send_in_data'' (dec_int (inrate row)),
        val_elem ''current_send_out_data'' (dec_int (outrate row))]"

definition interfaceinfo_to_xml :: "string \<Rightarrow> u32 \<Rightarrow> if_row list option \<Rightarrow> xml_node option" where
  "interfaceinfo_to_xml stamp routerid head =
     map_option (\<lambda>rows. elem ''INTERFACE_INFO'' [val_elem ''timestamp'' stamp,
        id_elem ''ROUTER'' (dec_int (int_of_u32 routerid)) (map interfaceinfo_node rows)]) head"

section \<open>Rounds\<close>

text \<open>A row of the table that the polling threads read.\<close>

record stat_row =
  st_ifindex :: string
  st_adminstatus :: string
  st_inoctets :: string
  st_outoctets :: string

record ospf_row =
  os_ipaddress :: string
  os_hello :: string
  os_dead :: string

text \<open>\<^verbatim>\<open>atoll\<close> of a counter.\<close>

definition atoll :: "string \<Rightarrow> u64" where
  "atoll s = word_of_int (strtol s)"

definition rate_refresh_timeval :: u64 where "rate_refresh_timeval = 2"

definition new_rates :: "stat_row \<Rightarrow> router_if \<Rightarrow> router_if" where
  "new_rates row f =
     f\<lparr>ri_send_rate := (atoll (st_outoctets row) - ri_send_packet f) div rate_refresh_timeval,
       ri_recv_rate := (atoll (st_inoctets row) - ri_recv_packet f) div rate_refresh_timeval,
       ri_send_packet := atoll (st_outoctets row), ri_recv_packet := atoll (st_inoctets row)\<rparr>"

definition ifrate_row :: "stat_row \<Rightarrow> router_if list \<Rightarrow> router_if list res" where
  "ifrate_row row fs =
     res_map (\<lambda>r. case r of None \<Rightarrow> fs | Some i \<Rightarrow> fs[i := new_rates row (fs ! i)])
       (first_interface fs (Q_CTID (u32_of_int (atoi (st_ifindex row)))))"

text \<open>The flag says if a round was made before.\<close>

definition ifrate_diff_and_send :: "string \<Rightarrow> stat_row list \<Rightarrow> bool \<Rightarrow> router \<Rightarrow> (bool \<times> router \<times> report list) res" where
  "ifrate_diff_and_send stamp rows run r =
     (case iflist r of
        None \<Rightarrow> Ok (run, r, [])
      | Some fs \<Rightarrow>
          res_bind (res_for ifrate_row rows fs) (\<lambda>fs1.
            let r1 = r\<lparr>iflist := Some fs1\<rparr>
            in if \<not> run then Ok (True, r1, [])
               else res_bind (ifrate_info_to_xml stamp r1) (\<lambda>d. res_map (\<lambda>m. (run, r1, m)) (send_doc UP_TRAFFICE_INFO d))))"

definition ifrate_detect :: "string \<Rightarrow> int \<Rightarrow> stat_row list \<Rightarrow> bool \<Rightarrow> router \<Rightarrow> (bool \<times> router \<times> report list) res" where
  "ifrate_detect stamp ty rows run r = (if ty = 1 then ifrate_diff_and_send stamp rows run r else Ok (run, r, []))"

text \<open>
  One row of the table of OSPF interfaces: the interfaces and if one was changed.  The old dead interval is compared with
  itself.  An address that is not valid leaves the one that is looked up as \<open>stale\<close>.
\<close>

definition ospf_changed :: "u32 \<Rightarrow> u32 \<Rightarrow> ospf_proto_info \<Rightarrow> bool" where
  "ospf_changed hello_t dead_t p \<longleftrightarrow> hello_t \<noteq> hello_interval p \<or> dead_interval p \<noteq> dead_interval p"

definition ospf_row_diff :: "u32 \<Rightarrow> ospf_row \<Rightarrow> router_if list \<times> bool \<Rightarrow> (router_if list \<times> bool) res" where
  "ospf_row_diff stale row s =
     (let a = (case inet_pton (os_ipaddress row) of None \<Rightarrow> stale | Some a \<Rightarrow> a);
          hello_t = u32_of_int (atoi (os_hello row)); dead_t = u32_of_int (atoi (os_dead row))
      in res_bind (first_interface (fst s) (Q_IPADDR a)) (\<lambda>r.
           case r of
             None \<Rightarrow> Ok s
           | Some i \<Rightarrow>
               (case (ri_proto (fst s ! i), ri_ospf (fst s ! i)) of
                  (Some _, Some p) \<Rightarrow>
                    Ok (if ospf_changed hello_t dead_t p
                        then ((fst s)[i := (fst s ! i)\<lparr>ri_ospf := Some \<lparr>hello_interval = hello_t, dead_interval = dead_t\<rparr>\<rparr>], True)
                        else s)
                | _ \<Rightarrow> Err NullDeref)))"

definition ospfifinfo_diff_and_send :: "u32 \<Rightarrow> string \<Rightarrow> string \<Rightarrow> ospf_row list \<Rightarrow> bool \<Rightarrow> router \<Rightarrow> (bool \<times> router \<times> report list) res" where
  "ospfifinfo_diff_and_send stale buf stamp rows run r =
     (case iflist r of
        None \<Rightarrow> Ok (run, r, [])
      | Some fs \<Rightarrow>
          res_bind (res_for (ospf_row_diff stale) rows (fs, False)) (\<lambda>(fs1, is_changed).
            let r1 = r\<lparr>iflist := Some fs1\<rparr>;
                send = res_bind (ospf_interface_info_to_xml buf stamp r1) (send_doc UP_OSPF_INTERFACE_INFO)
            in if is_changed then res_map (\<lambda>m. (run, r1, m)) send
               else if \<not> run then res_map (\<lambda>m. (True, r1, m)) send
               else Ok (run, r1, [])))"

definition ospf_interface_info_detect ::
  "u32 \<Rightarrow> string \<Rightarrow> string \<Rightarrow> int \<Rightarrow> ospf_row list \<Rightarrow> bool \<Rightarrow> router \<Rightarrow> (bool \<times> router \<times> report list) res" where
  "ospf_interface_info_detect stale buf stamp ty rows run r =
     (if ty = 1 then ospfifinfo_diff_and_send stale buf stamp rows run r
      else if ty = 2 then res_bind (ospf_interface_info_to_xml buf stamp r) (\<lambda>d. res_map (\<lambda>m. (run, r, m)) (send_doc UP_OSPF_INTERFACE_INFO d))
      else Ok (run, r, []))"

definition device_row_diff :: "stat_row \<Rightarrow> router_if list \<times> bool \<Rightarrow> (router_if list \<times> bool) res" where
  "device_row_diff row s =
     res_map (\<lambda>r. case r of
         None \<Rightarrow> s
       | Some i \<Rightarrow>
           (let hw = check_interface_status (st_adminstatus row)
            in if hw \<noteq> ri_hw_state (fst s ! i) then ((fst s)[i := (fst s ! i)\<lparr>ri_hw_state := hw\<rparr>], True) else s))
       (first_interface (fst s) (Q_CTID (u32_of_int (atoi (st_ifindex row)))))"

definition deviceinfo_diff_and_send :: "string \<Rightarrow> stat_row list \<Rightarrow> bool \<Rightarrow> router \<Rightarrow> (bool \<times> router \<times> report list) res" where
  "deviceinfo_diff_and_send stamp rows run r =
     (case iflist r of
        None \<Rightarrow> Ok (run, r, [])
      | Some fs \<Rightarrow>
          res_bind (res_for device_row_diff rows (fs, False)) (\<lambda>(fs1, is_changed).
            let r1 = r\<lparr>iflist := Some fs1\<rparr>;
                send = res_bind (device_info_to_xml stamp r1) (send_doc UP_DEVICE_INFO)
            in res_bind (if is_changed then send else Ok []) (\<lambda>m1.
                 res_map (\<lambda>m2. (True, r1, m1 @ m2)) (if \<not> run then send else Ok []))))"

definition device_info_detect :: "string \<Rightarrow> int \<Rightarrow> stat_row list \<Rightarrow> bool \<Rightarrow> router \<Rightarrow> (bool \<times> router \<times> report list) res" where
  "device_info_detect stamp ty rows run r =
     (if ty = 1 then deviceinfo_diff_and_send stamp rows run r
      else if ty = 2 \<and> iflist r \<noteq> None then res_bind (device_info_to_xml stamp r) (\<lambda>d. res_map (\<lambda>m. (run, r, m)) (send_doc UP_DEVICE_INFO d))
      else Ok (run, r, []))"

section \<open>BGP paths\<close>

record bgp_path_row =
  bp_peer :: string
  bp_addr_prefix_len :: string
  bp_addr_prefix :: string
  bp_origin :: string
  bp_as_path_segment :: string
  bp_nexthop :: string
  bp_multi_exit_disc :: string
  bp_local_pref :: string
  bp_atomic_aggregate :: string
  bp_aggregator_as :: string
  bp_aggregator_addr :: string
  bp_calc_localpref :: string
  bp_best :: string

definition bgp_line :: "bgp_path_row \<Rightarrow> string" where
  "bgp_line p = bp_peer p @ '' '' @ bp_addr_prefix_len p @ '' '' @ bp_addr_prefix p @ '' '' @ bp_origin p @ '' '' @ bp_as_path_segment p @ '' '' @
     bp_nexthop p @ '' '' @ bp_multi_exit_disc p @ '' '' @ bp_local_pref p @ '' '' @ bp_atomic_aggregate p @ '' '' @ bp_aggregator_as p @ '' '' @
     bp_aggregator_addr p @ '' '' @ bp_calc_localpref p @ '' '' @ bp_best p @ '' ?'' @ [CHR 0x0A]"

text \<open>The lines of the heading are continued inside the string, so that the columns at their ends run together.\<close>

definition bgp_heading :: string where
  "bgp_heading = ''bgp4PathAttrPeer bgp4PathAttrIpAddrPrefixLen bgp4PathAttrIpAddrPrefix bgp4PathAttrOrigin'' @
     ''bgp4PathAttrASPathSegment bgp4PathAttrNextHop bgp4PathAttrMultiExitDisc bgp4PathAttrLocalPref'' @
     ''bgp4PathAttrAtomicAggregate bgp4PathAttrAggregatorAS bgp4PathAttrAggregatorAddr bgp4PathAttrCalcLocalPref'' @
     ''bgp4PathAttrBest bgp4PathAttrUnknown'' @ [CHR 0x0A]"

definition BGP_BUFF :: nat where "BGP_BUFF = 40240"

text \<open>The text of the table, in a buffer of fixed size.\<close>

definition bgp_text :: "bgp_path_row list \<Rightarrow> string res" where
  "bgp_text rows =
     (let t = bgp_heading @ concat (map bgp_line rows) in if BGP_BUFF \<le> length t then Err OutOfBounds else Ok t)"

definition bgp_path_attr_to_xml :: "string \<Rightarrow> u32 \<Rightarrow> string \<Rightarrow> xml_node" where
  "bgp_path_attr_to_xml stamp agentid data =
     elem ''SNAPSHOT'' [id_elem ''ROUTER'' (dec_int (int_of_u32 agentid)) [val_elem ''timestamp'' stamp, val_elem ''BgpPathAttrTable'' data]]"

text \<open>\<open>last_len\<close> is \<^verbatim>\<open>bgp_path_attr_table_last_len\<close>.\<close>

definition bgppath_diff_and_send :: "string \<Rightarrow> u32 \<Rightarrow> bgp_path_row list \<Rightarrow> nat \<Rightarrow> (nat \<times> report list) res" where
  "bgppath_diff_and_send stamp agentid rows last_len =
     res_map (\<lambda>t. if last_len \<noteq> length t then (length t, [(UP_BGP_PATH_TABLE_INFO, bgp_path_attr_to_xml stamp agentid t)]) else (last_len, [])) (bgp_text rows)"

definition bgppath_get_and_send :: "string \<Rightarrow> u32 \<Rightarrow> bgp_path_row list \<Rightarrow> report list res" where
  "bgppath_get_and_send stamp agentid rows = res_map (\<lambda>t. [(UP_BGP_PATH_TABLE_INFO, bgp_path_attr_to_xml stamp agentid t)]) (bgp_text rows)"

definition bgp_path_attr_table_detect :: "string \<Rightarrow> u32 \<Rightarrow> int \<Rightarrow> bgp_path_row list \<Rightarrow> nat \<Rightarrow> (nat \<times> report list) res" where
  "bgp_path_attr_table_detect stamp agentid ty rows last_len =
     (if ty = 1 then bgppath_diff_and_send stamp agentid rows last_len
      else if ty = 2 then res_map (\<lambda>m. (last_len, m)) (bgppath_get_and_send stamp agentid rows)
      else Ok (last_len, []))"

section \<open>Neighbouring agents\<close>

text \<open>
  The interface to the neighbour gets the address of its agent, and a host route to the agent is requested (\<^verbatim>\<open>addStaticRoute\<close>):
  router, destination, mask and gateway as texts.
\<close>

type_synonym static_route = "string \<times> string \<times> string \<times> string"

definition set_neighbor_agent_address :: "u32 \<Rightarrow> u32 \<Rightarrow> u32 \<Rightarrow> router \<Rightarrow> (router \<times> static_route list) res" where
  "set_neighbor_agent_address devid rid addr r =
     (case iflist r of
        None \<Rightarrow> Ok (r, [])
      | Some fs \<Rightarrow>
          res_bind (first_interface fs (Q_NID rid)) (\<lambda>x.
            case x of
              None \<Rightarrow> Ok (r, [])
            | Some i \<Rightarrow>
                (case ri_neighbor (fs ! i) of
                   None \<Rightarrow> Err NullDeref
                 | Some nb \<Rightarrow>
                     Ok (r\<lparr>iflist := Some (fs[i := (fs ! i)\<lparr>ri_neighbor := Some (nb\<lparr>nb_agent_addr := addr, nb_devid := devid\<rparr>)\<rparr>])\<rparr>,
                         [(inet_ntoa (r_routerip r), inet_ntoa addr, ''255.255.255.255'', inet_ntoa (nb_router_addr nb))]))))"

text \<open>The entries of the packet: device, router and address, twelve bytes each; bytes left over are ignored.\<close>

function pma_entries :: "bytes \<Rightarrow> (u32 \<times> u32 \<times> u32) list" where
  "pma_entries bs =
     (if length bs < 12 then []
      else (the_ok (rd32 bs 0), the_ok (rd32 bs 4), the_ok (rd32 bs 8)) # pma_entries (drop 12 bs))"
  by auto

termination pma_entries
  by (relation "measure length") auto

declare pma_entries.simps [simp del]

text \<open>The packet's part for the interfaces; the link-state daemon reads them afterwards.\<close>

definition pma_list_handle :: "bytes \<Rightarrow> router \<Rightarrow> (router \<times> static_route list) res" where
  "pma_list_handle pkt r =
     res_for (\<lambda>(devid, rid, ip) (r, rts). res_map (\<lambda>(r', new). (r', rts @ new)) (set_neighbor_agent_address devid rid ip r)) (pma_entries pkt) (r, [])"

section \<open>Rounds that return\<close>

text \<open>A change of an interface that keeps its number, its addresses and its objects.\<close>

definition same_face :: "router_if \<Rightarrow> router_if \<Rightarrow> bool" where
  "same_face f f' \<longleftrightarrow> ri_ctl_id f' = ri_ctl_id f \<and> ri_connected f' = ri_connected f \<and> ri_type f' = ri_type f \<and> ri_vinterface f' = ri_vinterface f \<and>
     (ri_proto f' = None) = (ri_proto f = None) \<and> (ri_neighbor f' = None) = (ri_neighbor f = None) \<and> (ri_ospf f' = None) = (ri_ospf f = None)"

definition fs_keep :: "router_if list \<Rightarrow> router_if list \<Rightarrow> bool" where
  "fs_keep = list_all2 same_face"

lemma same_face_refl [simp]: "same_face f f"
  by (simp add: same_face_def)

lemma fs_keep_refl [simp]: "fs_keep fs fs"
  by (simp add: fs_keep_def list_all2_refl)

lemma fs_keep_trans: "fs_keep as bs \<Longrightarrow> fs_keep bs cs \<Longrightarrow> fs_keep as cs"
  unfolding fs_keep_def by (rule list_all2_trans [of same_face same_face same_face]) (auto simp: same_face_def)

lemma fs_keep_update: "same_face (fs ! i) f \<Longrightarrow> fs_keep fs (fs[i := f])"
  by (cases "i < length fs") (auto simp: fs_keep_def list_all2_conv_all_nth nth_list_update)

text \<open>The table of a router of this type has what the reports need.\<close>

definition ready :: "u32 \<Rightarrow> router_if list \<Rightarrow> bool" where
  "ready ty fs \<longleftrightarrow> (\<forall>f \<in> set fs. ri_proto f \<noteq> None \<and> ri_neighbor f \<noteq> None \<and> ri_connected f \<noteq> None \<and> (ty = OSPF_ROUTER \<longrightarrow> ri_ospf f \<noteq> None))"

lemma ready_keep: "fs_keep fs fs' \<Longrightarrow> ready ty fs \<Longrightarrow> ready ty fs'"
  unfolding fs_keep_def ready_def list_all2_conv_all_nth same_face_def by (metis in_set_conv_nth)

lemma ids_keep: "fs_keep fs fs' \<Longrightarrow> ri_ctl_id ` set fs' = ri_ctl_id ` set fs"
proof -
  assume "fs_keep fs fs'"
  then have "map ri_ctl_id fs' = map ri_ctl_id fs" by (simp add: fs_keep_def list_all2_conv_all_nth same_face_def list_eq_iff_nth_eq)
  from arg_cong [OF this, of set] show ?thesis by simp
qed

definition reportable :: "router \<Rightarrow> bool" where
  "reportable r \<longleftrightarrow> (\<exists>fs rows. iflist r = Some fs \<and> ifList r = Some rows \<and> row_id ` set rows \<subseteq> ri_ctl_id ` set fs \<and> ready (r_type r) fs)"

lemma reportable_keep:
  "reportable r \<Longrightarrow> iflist r = Some fs \<Longrightarrow> fs_keep fs fs' \<Longrightarrow> reportable (r\<lparr>iflist := Some fs'\<rparr>)"
  using ready_keep [of fs fs' "r_type r"] ids_keep [of fs fs'] by (auto simp: reportable_def)

lemma if_nodes_return:
  assumes "row_id ` set rows \<subseteq> ri_ctl_id ` set fs" "\<forall>row. \<forall>f \<in> set fs. is_ok (g row f)"
  shows "\<exists>ns. if_nodes g rows fs = Ok (Some ns) \<and>
    list_all2 (\<lambda>row n. \<exists>f \<in> set fs. ri_ctl_id f = row_id row \<and> g row f = Ok n) rows ns"
  using assms(1)
proof (induction rows)
  case (Cons row rows)
  obtain i where i: "find_index (\<lambda>f. ri_ctl_id f = row_id row) fs = Some i"
    using Cons.prems find_index_None [of "\<lambda>f. ri_ctl_id f = row_id row" fs] by fastforce
  then have "fs ! i \<in> set fs" "ri_ctl_id (fs ! i) = row_id row" by (simp_all add: find_index_Some)
  moreover from this obtain n where "g row (fs ! i) = Ok n" using assms(2) by (metis is_ok_iff)
  moreover obtain ns where "if_nodes g rows fs = Ok (Some ns)"
    "list_all2 (\<lambda>row n. \<exists>f \<in> set fs. ri_ctl_id f = row_id row \<and> g row f = Ok n) rows ns" using Cons by auto
  ultimately show ?case using i by (auto simp: first_ctid row_id_def [symmetric])
qed simp

lemma if_doc_returns:
  assumes "reportable r" "\<forall>row. \<forall>f \<in> set (the (iflist r)). is_ok (g row f)"
  shows "\<exists>d. if_doc g root stamp r = Ok (Some d)"
proof -
  obtain fs rows where r: "iflist r = Some fs" "ifList r = Some rows" "row_id ` set rows \<subseteq> ri_ctl_id ` set fs"
    using assms(1) by (auto simp: reportable_def)
  then show ?thesis using if_nodes_return [OF r(3), of g] assms(2) by (auto simp: if_doc_def)
qed

lemma device_doc_returns: "reportable r \<Longrightarrow> \<exists>d. device_info_to_xml stamp r = Ok (Some d)"
  unfolding device_info_to_xml_def by (rule if_doc_returns) (simp_all add: device_if_node_def)

lemma ifrate_doc_returns: "reportable r \<Longrightarrow> \<exists>d. ifrate_info_to_xml stamp r = Ok (Some d)"
  unfolding ifrate_info_to_xml_def by (rule if_doc_returns) (simp_all add: ifrate_node_def)

lemma ospf_doc_returns:
  assumes "reportable r" "r_type r = OSPF_ROUTER"
  shows "\<exists>d. ospf_interface_info_to_xml buf stamp r = Ok (Some d)"
proof -
  have "ifList r \<noteq> None" "\<forall>row. \<forall>f \<in> set (the (iflist r)). is_ok (ospf_if_node (r_type r) buf row f)"
    using assms by (auto simp: reportable_def ready_def ospf_if_node_def split: option.splits)
  then show ?thesis using if_doc_returns [OF assms(1)] by (simp add: ospf_interface_info_to_xml_def)
qed

lemma bgp_doc_returns:
  assumes "reportable r"
  shows "\<exists>d. bgp_interface_info_to_xml stamp r = Ok (Some d)"
proof -
  obtain fs rows where r: "iflist r = Some fs" "ifList r = Some rows" "row_id ` set rows \<subseteq> ri_ctl_id ` set fs" "ready (r_type r) fs"
    using assms by (auto simp: reportable_def)
  have "\<forall>row. \<forall>f \<in> set fs. is_ok (bgp_if_node row f)" using r(4) by (auto simp: ready_def bgp_if_node_def)
  from if_nodes_return [OF r(3) this] show ?thesis using r(1,2) by (auto simp: bgp_interface_info_to_xml_def)
qed

lemmas doc_returns = device_doc_returns ifrate_doc_returns bgp_doc_returns

text \<open>A loop over rows whose steps keep the table.\<close>

lemma res_for_keep:
  assumes "\<And>row fs. ready ty fs \<Longrightarrow> \<exists>fs'. g row fs = Ok fs' \<and> fs_keep fs fs'" "ready ty fs"
  shows "\<exists>fs'. res_for g rows fs = Ok fs' \<and> fs_keep fs fs'"
  using assms(2)
proof (induction rows arbitrary: fs)
  case (Cons row rows)
  obtain fs1 where f1: "g row fs = Ok fs1" "fs_keep fs fs1" using assms(1) [OF Cons.prems] by blast
  then obtain fs2 where "res_for g rows fs1 = Ok fs2" "fs_keep fs1 fs2" using Cons.IH ready_keep [OF f1(2) Cons.prems] by blast
  then show ?case using f1 fs_keep_trans by auto
qed simp

lemma res_for_keep_pair:
  assumes "\<And>row fs b. ready ty fs \<Longrightarrow> \<exists>fs' b'. g row (fs, b) = Ok (fs', b') \<and> fs_keep fs fs'" "ready ty fs"
  shows "\<exists>fs' b'. res_for g rows (fs, b) = Ok (fs', b') \<and> fs_keep fs fs'"
  using assms(2)
proof (induction rows arbitrary: fs b)
  case (Cons row rows)
  obtain fs1 b1 where f1: "g row (fs, b) = Ok (fs1, b1)" "fs_keep fs fs1" using assms(1) [OF Cons.prems] by blast
  then obtain fs2 b2 where "res_for g rows (fs1, b1) = Ok (fs2, b2)" "fs_keep fs1 fs2" using Cons.IH ready_keep [OF f1(2) Cons.prems] by blast
  then show ?case using f1 fs_keep_trans by auto
qed simp

lemma ifrate_row_keep: "\<exists>fs'. ifrate_row row fs = Ok fs' \<and> fs_keep fs fs'"
proof (cases "find_index (\<lambda>f. ri_ctl_id f = u32_of_int (atoi (st_ifindex row))) fs")
  case (Some i)
  have "same_face (fs ! i) (new_rates row (fs ! i))" by (simp add: same_face_def new_rates_def)
  with Some show ?thesis by (simp add: ifrate_row_def first_ctid fs_keep_update)
qed (simp add: ifrate_row_def first_ctid)

lemma device_row_keep: "\<exists>fs' b'. device_row_diff row (fs, b) = Ok (fs', b') \<and> fs_keep fs fs'"
proof (cases "find_index (\<lambda>f. ri_ctl_id f = u32_of_int (atoi (st_ifindex row))) fs")
  case (Some i)
  have "same_face (fs ! i) ((fs ! i)\<lparr>ri_hw_state := h\<rparr>)" for h by (simp add: same_face_def)
  with Some show ?thesis by (auto simp: device_row_diff_def first_ctid fs_keep_update Let_def)
qed (simp add: device_row_diff_def first_ctid)

lemma ospf_row_keep:
  assumes "ready OSPF_ROUTER fs"
  shows "\<exists>fs' b'. ospf_row_diff stale row (fs, b) = Ok (fs', b') \<and> fs_keep fs fs'"
proof -
  let ?a = "case inet_pton (os_ipaddress row) of None \<Rightarrow> stale | Some a \<Rightarrow> a"
  have q: "first_interface fs (Q_IPADDR ?a) = Ok (find_index (\<lambda>f. ?a \<in> set (the (ri_connected f))) fs)"
    using assms by (intro first_ipaddr) (simp add: ready_def)
  show ?thesis
  proof (cases "find_index (\<lambda>f. ?a \<in> set (the (ri_connected f))) fs")
    case None
    then show ?thesis using q by (simp add: ospf_row_diff_def Let_def)
  next
    case (Some i)
    then have "fs ! i \<in> set fs" by (simp add: find_index_Some)
    then obtain pr p where p: "ri_proto (fs ! i) = Some pr" "ri_ospf (fs ! i) = Some p" using assms by (fastforce simp: ready_def)
    then have "same_face (fs ! i) ((fs ! i)\<lparr>ri_ospf := Some x\<rparr>)" for x by (simp add: same_face_def)
    then show ?thesis using q Some p by (auto simp: ospf_row_diff_def Let_def fs_keep_update)
  qed
qed

lemma neighbor_keep:
  assumes "reportable r"
  shows "\<exists>r' rts. set_neighbor_agent_address devid rid addr r = Ok (r', rts) \<and> reportable r' \<and> r_type r' = r_type r"
proof -
  obtain fs where r: "iflist r = Some fs" "ready (r_type r) fs" using assms by (auto simp: reportable_def)
  then have nb: "\<forall>f \<in> set fs. ri_neighbor f \<noteq> None" by (simp add: ready_def)
  show ?thesis
  proof (cases "find_index (\<lambda>f. nb_rid (the (ri_neighbor f)) = rid) fs")
    case None
    then show ?thesis using r(1) first_nid [OF nb] assms by (simp add: set_neighbor_agent_address_def)
  next
    case (Some i)
    then obtain n where n: "ri_neighbor (fs ! i) = Some n" using nb nth_mem by (fastforce simp: find_index_Some)
    then have k: "fs_keep fs (fs[i := (fs ! i)\<lparr>ri_neighbor := Some x\<rparr>])" for x by (intro fs_keep_update) (simp add: same_face_def)
    show ?thesis using Some n r(1) first_nid [OF nb] reportable_keep [OF assms r(1) k] by (simp add: set_neighbor_agent_address_def)
  qed
qed

text \<open>What the threads and the handler of the agents' addresses do, in any order.\<close>

datatype if_job = Rates int "stat_row list" | Device int "stat_row list" | Ospf int "ospf_row list" | Bgp_if int | Bgp_paths int "bgp_path_row list" | Agents bytes

record if_state =
  is_router :: router
  rates_run :: bool
  device_run :: bool
  ospf_run :: bool
  path_len :: nat
  reports :: "report list"

definition if_job :: "u32 \<Rightarrow> string \<Rightarrow> string \<Rightarrow> if_job \<Rightarrow> if_state \<Rightarrow> if_state res" where
  "if_job stale buf stamp j s =
     (case j of
        Rates ty rows \<Rightarrow> res_map (\<lambda>(b, r, m). s\<lparr>is_router := r, rates_run := b, reports := reports s @ m\<rparr>) (ifrate_detect stamp ty rows (rates_run s) (is_router s))
      | Device ty rows \<Rightarrow> res_map (\<lambda>(b, r, m). s\<lparr>is_router := r, device_run := b, reports := reports s @ m\<rparr>) (device_info_detect stamp ty rows (device_run s) (is_router s))
      | Ospf ty rows \<Rightarrow> res_map (\<lambda>(b, r, m). s\<lparr>is_router := r, ospf_run := b, reports := reports s @ m\<rparr>) (ospf_interface_info_detect stale buf stamp ty rows (ospf_run s) (is_router s))
      | Bgp_if ty \<Rightarrow> res_map (\<lambda>m. s\<lparr>reports := reports s @ m\<rparr>) (bgpifinfo_detect stamp ty (is_router s))
      | Bgp_paths ty rows \<Rightarrow> res_map (\<lambda>(n, m). s\<lparr>path_len := n, reports := reports s @ m\<rparr>)
          (bgp_path_attr_table_detect stamp (r_agentid (is_router s)) ty rows (path_len s))
      | Agents pkt \<Rightarrow> res_map (\<lambda>(r, rts). s\<lparr>is_router := r\<rparr>) (pma_list_handle pkt (is_router s)))"

text \<open>
  The thread for OSPF interfaces is started on OSPF routers only.  The text of a table of BGP paths must be shorter than the
  40240 bytes of its buffer.
\<close>

definition job_for :: "u32 \<Rightarrow> if_job \<Rightarrow> bool" where
  "job_for ty j \<longleftrightarrow> (case j of
     Ospf _ _ \<Rightarrow> ty = OSPF_ROUTER
   | Bgp_paths _ rows \<Rightarrow> length (bgp_heading @ concat (map bgp_line rows)) < BGP_BUFF
   | _ \<Rightarrow> True)"

lemma ifrate_detect_returns:
  assumes "reportable r"
  shows "\<exists>b r' m. ifrate_detect stamp ty rows b0 r = Ok (b, r', m) \<and> reportable r' \<and> r_type r' = r_type r"
proof -
  obtain fs where fs: "iflist r = Some fs" "ready (r_type r) fs" using assms by (auto simp: reportable_def)
  obtain fs1 where f1: "res_for ifrate_row rows fs = Ok fs1" "fs_keep fs fs1" using res_for_keep [OF _ fs(2), of ifrate_row] ifrate_row_keep by blast
  have k: "reportable (r\<lparr>iflist := Some fs1\<rparr>)" by (rule reportable_keep [OF assms fs(1) f1(2)])
  then show ?thesis using assms fs f1(1) ifrate_doc_returns [OF k, of stamp] by (auto simp: ifrate_detect_def ifrate_diff_and_send_def send_doc_def Let_def)
qed

lemma device_detect_returns:
  assumes "reportable r"
  shows "\<exists>b r' m. device_info_detect stamp ty rows b0 r = Ok (b, r', m) \<and> reportable r' \<and> r_type r' = r_type r"
proof -
  obtain fs where fs: "iflist r = Some fs" "ready (r_type r) fs" using assms by (auto simp: reportable_def)
  obtain fs1 c where f1: "res_for device_row_diff rows (fs, False) = Ok (fs1, c)" "fs_keep fs fs1"
    using res_for_keep_pair [OF _ fs(2), of device_row_diff] device_row_keep by blast
  have k: "reportable (r\<lparr>iflist := Some fs1\<rparr>)" by (rule reportable_keep [OF assms fs(1) f1(2)])
  then show ?thesis using assms fs f1(1) device_doc_returns [OF k, of stamp] device_doc_returns [OF assms, of stamp]
    by (cases c; cases b0) (auto simp: device_info_detect_def deviceinfo_diff_and_send_def send_doc_def Let_def)
qed

lemma ospf_detect_returns:
  assumes "reportable r" "r_type r = OSPF_ROUTER"
  shows "\<exists>b r' m. ospf_interface_info_detect stale buf stamp ty rows b0 r = Ok (b, r', m) \<and> reportable r' \<and> r_type r' = r_type r"
proof -
  obtain fs where fs: "iflist r = Some fs" "ready OSPF_ROUTER fs" using assms by (auto simp: reportable_def)
  obtain fs1 c where f1: "res_for (ospf_row_diff stale) rows (fs, False) = Ok (fs1, c)" "fs_keep fs fs1"
    using res_for_keep_pair [OF _ fs(2), of "ospf_row_diff stale"] ospf_row_keep by blast
  have k: "reportable (r\<lparr>iflist := Some fs1\<rparr>)" by (rule reportable_keep [OF assms(1) fs(1) f1(2)])
  then show ?thesis using assms fs f1(1) ospf_doc_returns [OF k, of buf stamp] ospf_doc_returns [OF assms, of buf stamp]
    by (cases c; cases b0) (auto simp: ospf_interface_info_detect_def ospfifinfo_diff_and_send_def send_doc_def Let_def)
qed

lemma pma_list_returns:
  assumes "reportable r"
  shows "\<exists>r' rts. pma_list_handle pkt r = Ok (r', rts) \<and> reportable r' \<and> r_type r' = r_type r"
proof -
  let ?g = "\<lambda>(devid, rid, ip) (r, rts). res_map (\<lambda>(r', new). (r', rts @ new)) (set_neighbor_agent_address devid rid ip r)"
  have "\<exists>r' rts'. res_for ?g es (r, rts) = Ok (r', rts') \<and> reportable r' \<and> r_type r' = r_type r" for es rts
    using assms
  proof (induction es arbitrary: r rts)
    case (Cons e es)
    obtain devid rid ip where e: "e = (devid, rid, ip)" by (metis prod_cases3)
    obtain r1 new where r1: "set_neighbor_agent_address devid rid ip r = Ok (r1, new)" "reportable r1" "r_type r1 = r_type r"
      using neighbor_keep [OF Cons.prems] by blast
    then show ?case using Cons.IH [OF r1(2), of "rts @ new"] by (auto simp: e)
  qed simp
  then show ?thesis by (simp add: pma_list_handle_def)
qed

lemma if_job_returns:
  assumes "reportable (is_router s)" "job_for (r_type (is_router s)) j"
  shows "\<exists>s'. if_job stale buf stamp j s = Ok s' \<and> reportable (is_router s') \<and> r_type (is_router s') = r_type (is_router s)"
proof (cases j)
  case (Rates ty rows)
  then show ?thesis using ifrate_detect_returns [OF assms(1), of stamp ty rows "rates_run s"] by (auto simp: if_job_def)
next
  case (Device ty rows)
  then show ?thesis using device_detect_returns [OF assms(1), of stamp ty rows "device_run s"] by (auto simp: if_job_def)
next
  case (Ospf ty rows)
  then show ?thesis using ospf_detect_returns [OF assms(1), of stale buf stamp ty rows "ospf_run s"] assms(2) by (auto simp: if_job_def job_for_def)
next
  case (Bgp_if ty)
  then show ?thesis using bgp_doc_returns [OF assms(1), of stamp] assms(1)
    by (auto simp: if_job_def bgpifinfo_detect_def send_bgp_interface_info_def send_doc_def)
next
  case (Bgp_paths ty rows)
  then have "bgp_text rows = Ok (bgp_heading @ concat (map bgp_line rows))" using assms(2) by (auto simp: job_for_def bgp_text_def Let_def)
  then show ?thesis using Bgp_paths assms(1)
    by (auto simp: if_job_def bgp_path_attr_table_detect_def bgppath_diff_and_send_def bgppath_get_and_send_def)
next
  case (Agents pkt)
  then show ?thesis using pma_list_returns [OF assms(1), of pkt] by (auto simp: if_job_def)
qed

lemma if_jobs_return:
  assumes "reportable (is_router s)" "\<forall>j \<in> set js. job_for (r_type (is_router s)) j"
  shows "\<exists>s'. res_for (if_job stale buf stamp) js s = Ok s' \<and> reportable (is_router s')"
  using assms
proof (induction js arbitrary: s)
  case (Cons j js)
  obtain s1 where s1: "if_job stale buf stamp j s = Ok s1" "reportable (is_router s1)" "r_type (is_router s1) = r_type (is_router s)"
    using if_job_returns [OF Cons.prems(1)] Cons.prems(2) by fastforce
  then show ?case using Cons.IH [OF s1(2)] Cons.prems(2) by auto
qed simp

text \<open>
  C19. After an update of the interface table from SNMP, on an OSPF or BGP router, every sequence of jobs, in any order and number, returns:
  reports on rates, states, OSPF interfaces (on an OSPF router) and BGP interfaces from any tables the router answers,
  reports on BGP paths whose text is shorter than the 40240 bytes of its buffer, and packets with addresses of agents.  No
  report follows a null pointer or writes outside a buffer.  For the update the names of the interfaces are shorter than 21
  characters and different for different numbers, each number has one row, and the words of the configuration file are
  shorter than 20 characters.
\<close>

theorem reports_never_fail:
  assumes "if_table_ok (r_type r) nm (config_words file) fs0" "fs0 = (case iflist r of None \<Rightarrow> [] | Some fs \<Rightarrow> fs)"
    "\<forall>row \<in> set rows. length (ifDescr row) < 21 \<and> ifDescr row = nm (row_id row)" "distinct (map row_id rows)"
    "inj_on nm (ri_ctl_id ` set fs0 \<union> row_id ` set rows)" "\<forall>w \<in> set (config_words file). length w < 20"
    "r_type r = OSPF_ROUTER \<or> r_type r = BGP_ROUTER" "\<forall>j \<in> set js. job_for (r_type r) j"
  shows "\<exists>r' s. update_interface_from_snmp stale (Some rows) asid file r = Ok (0, r') \<and>
    res_for (if_job stale buf stamp) js \<lparr>is_router = r', rates_run = False, device_run = False, ospf_run = False, path_len = 0, reports = []\<rparr> = Ok s"
proof -
  obtain r' fs where r': "update_interface_from_snmp stale (Some rows) asid file r = Ok (0, r')" "iflist r' = Some fs" "ifList r' = Some rows"
    "r_type r' = r_type r" "if_table_ok (r_type r) nm (config_words file) fs" "ri_ctl_id ` set fs = ri_ctl_id ` set fs0 \<union> row_id ` set rows"
    using update_table [OF assms(1-7), of stale asid] by blast
  have "ready (r_type r) fs" using r'(5) by (auto simp: ready_def if_table_ok_def rows_ok_def if_ok_def)
  then have "reportable r'" using r' by (auto simp: reportable_def)
  then show ?thesis
    using if_jobs_return [of "\<lparr>is_router = r', rates_run = False, device_run = False, ospf_run = False, path_len = 0, reports = []\<rparr>" js stale buf stamp] assms(8) r'(1,4) by auto
qed

definition sample_router :: router where
  "sample_router = \<lparr>r_routerid = 1, r_routerip = of_octets 10 0 0 1, r_agentid = 1, r_as_id = 0, r_type = OSPF_ROUTER, r_inited = True,
     iflist = None, ifList = None\<rparr>"

definition sample_row :: if_row where
  "sample_row = \<lparr>ifdex = ''3'', ifDescr = ''eth0'', ifBandwidth = ''100'', if_ip = ''10.0.0.1'', physAddress = ''00:11'', netMask = ''255.255.255.0'',
     if_areaId = ''0'', ospfIfHelloInterval = ''10'', ospfIfDeadInterval = ''40'', ifAdminStatus = ''up'', ifOperStatus = ''up'', ospfCost = ''10'',
     ospfNbrIp = ''10.0.0.2'', nbrRouteId = ''0.0.0.2'', inrate = 0, outrate = 0\<rparr>"

theorem reports_never_fail_witness:
  "\<exists>r' s. update_interface_from_snmp 0 (Some [sample_row]) [] (Some ''backbone eth0'') sample_router = Ok (0, r') \<and>
    res_for (if_job 0 [] ''t'') [Device 1 [], Ospf 1 [\<lparr>os_ipaddress = ''10.0.0.1'', os_hello = ''10'', os_dead = ''20''\<rparr>], Rates 1 [], Bgp_if 2, Bgp_paths 1 [], Agents []]
      \<lparr>is_router = r', rates_run = False, device_run = False, ospf_run = False, path_len = 0, reports = []\<rparr> = Ok s"
proof (rule reports_never_fail [where nm = "\<lambda>i. ''eth0''" and ?fs0.0 = "[]"])
  have w: "config_words (Some ''backbone eth0'') = [''backbone'', ''eth0'']" by (simp add: config_words_def) code_simp
  show "\<forall>w \<in> set (config_words (Some ''backbone eth0'')). length w < 20" by (simp add: w)
  have "length bgp_heading < BGP_BUFF" by (simp add: bgp_heading_def BGP_BUFF_def)
  then show "\<forall>j \<in> set [Device 1 [], Ospf 1 [\<lparr>os_ipaddress = ''10.0.0.1'', os_hello = ''10'', os_dead = ''20''\<rparr>], Rates 1 [], Bgp_if 2, Bgp_paths 1 [], Agents []].
      job_for (r_type sample_router) j" by (simp add: job_for_def sample_router_def)
qed (simp_all add: sample_router_def sample_row_def if_table_ok_def rows_ok_def)

section \<open>What the rounds report\<close>

definition stat_id :: "stat_row \<Rightarrow> u32" where
  "stat_id row = u32_of_int (atoi (st_ifindex row))"

definition dev_step :: "stat_row \<Rightarrow> router_if \<Rightarrow> router_if" where
  "dev_step row f = (if ri_ctl_id f = stat_id row then f\<lparr>ri_hw_state := check_interface_status (st_adminstatus row)\<rparr> else f)"

definition dev_differs :: "stat_row \<Rightarrow> router_if \<Rightarrow> bool" where
  "dev_differs row f \<longleftrightarrow> ri_ctl_id f = stat_id row \<and> ri_hw_state f \<noteq> check_interface_status (st_adminstatus row)"

lemma device_row_distinct:
  assumes "distinct (map ri_ctl_id fs)"
  shows "device_row_diff row (fs, b) = Ok (map (dev_step row) fs, b \<or> (\<exists>f \<in> set fs. dev_differs row f))"
proof (cases "find_index (\<lambda>f. ri_ctl_id f = stat_id row) fs")
  case None
  then have "map (dev_step row) fs = fs" "\<not> (\<exists>f \<in> set fs. dev_differs row f)"
    by (auto simp: find_index_None dev_step_def dev_differs_def intro: map_idI)
  with None show ?thesis by (simp add: device_row_diff_def first_ctid stat_id_def [symmetric])
next
  case (Some i)
  let ?hw = "check_interface_status (st_adminstatus row)"
  have i: "i < length fs" "ri_ctl_id (fs ! i) = stat_id row" using Some by (simp_all add: find_index_Some)
  have u: "ri_ctl_id (fs ! j) = stat_id row \<longleftrightarrow> j = i" if "j < length fs" for j
    using i that nth_eq_iff_index_eq [OF assms, of j i] by auto
  then have m: "map (dev_step row) fs = fs[i := (fs ! i)\<lparr>ri_hw_state := ?hw\<rparr>]"
    by (intro nth_equalityI) (auto simp: dev_step_def nth_list_update)
  have d: "(\<exists>f \<in> set fs. dev_differs row f) \<longleftrightarrow> ri_hw_state (fs ! i) \<noteq> ?hw"
    using u i nth_mem [OF i(1)] unfolding dev_differs_def by (metis in_set_conv_nth)
  have "fs[i := (fs ! i)\<lparr>ri_hw_state := ?hw\<rparr>] = fs" if "ri_hw_state (fs ! i) = ?hw"
  proof -
    have "(fs ! i)\<lparr>ri_hw_state := ?hw\<rparr> = fs ! i" using that by (metis router_if.surjective router_if.update_convs(1))
    then show ?thesis by (simp add: list_update_id)
  qed
  with Some show ?thesis unfolding m d by (auto simp: device_row_diff_def first_ctid stat_id_def [symmetric] Let_def)
qed

lemma dev_steps_id [simp]: "ri_ctl_id (fold dev_step rows f) = ri_ctl_id f"
  by (induction rows arbitrary: f) (auto simp: dev_step_def)

lemma dev_step_other: "stat_id row' \<noteq> stat_id row \<Longrightarrow> dev_differs row' (dev_step row f) = dev_differs row' f"
  by (auto simp: dev_differs_def dev_step_def)

lemma dev_steps_state:
  assumes "distinct (map stat_id rows)" "row \<in> set rows"
  shows "\<not> dev_differs row (fold dev_step rows f)"
proof -
  have other: "dev_differs row (fold dev_step xs g) = dev_differs row g" if "stat_id row \<notin> stat_id ` set xs" for xs g
    using that by (induction xs arbitrary: g) (auto simp: dev_step_other)
  obtain as bs where r: "rows = as @ row # bs" using assms(2) split_list by metis
  have "\<not> dev_differs row (dev_step row g)" for g by (simp add: dev_differs_def dev_step_def)
  then show ?thesis using other [of bs] assms(1) by (auto simp: r)
qed

lemma device_rows_distinct:
  assumes "distinct (map ri_ctl_id fs)" "distinct (map stat_id rows)"
  shows "res_for device_row_diff rows (fs, b) = Ok (map (fold dev_step rows) fs, b \<or> (\<exists>row \<in> set rows. \<exists>f \<in> set fs. dev_differs row f))"
  using assms
proof (induction rows arbitrary: fs b)
  case (Cons row rows)
  have "map ri_ctl_id (map (dev_step row) fs) = map ri_ctl_id fs" by (simp add: dev_step_def)
  then have d: "distinct (map ri_ctl_id (map (dev_step row) fs))" using Cons.prems(1) by metis
  have "dev_differs row' (dev_step row f) = dev_differs row' f" if "row' \<in> set rows" for row' f
    using imageI [OF that, of stat_id] Cons.prems(2) by (intro dev_step_other) auto
  then show ?case
    using Cons.IH [OF d] Cons.prems(2) by (auto simp: device_row_distinct [OF Cons.prems(1)])
qed simp

text \<open>The document of the states has an element for each row of the last update, with the state of the interface of its number.\<close>

definition device_document :: "string \<Rightarrow> router \<Rightarrow> xml_node \<Rightarrow> bool" where
  "device_document stamp r d \<longleftrightarrow> (\<exists>rows fs ns. ifList r = Some rows \<and> iflist r = Some fs \<and> d = device_doc ''DEVICE_INFO'' stamp (r_agentid r) ns \<and>
     list_all2 (\<lambda>row n. \<exists>f \<in> set fs. ri_ctl_id f = row_id row \<and>
        n = id_elem ''interface'' (ifdex row)
          [val_elem ''interface_name'' (ifDescr row), val_elem ''ipv4_address'' (if_ip row), val_elem ''ipv4_mask'' (netMask row),
           val_elem ''mac_address'' (physAddress row), val_elem ''if_bandwidth'' (ifBandwidth row),
           val_elem ''hw_status'' (if ri_hw_state f = ETH_UP then ''1'' else ''0'')]) rows ns)"

lemma device_document_sent:
  assumes "reportable r"
  shows "\<exists>d. device_info_to_xml stamp r = Ok (Some d) \<and> device_document stamp r d"
proof -
  obtain fs rows where r: "iflist r = Some fs" "ifList r = Some rows" "row_id ` set rows \<subseteq> ri_ctl_id ` set fs"
    using assms by (auto simp: reportable_def)
  obtain ns where ns: "if_nodes device_if_node rows fs = Ok (Some ns)"
      "list_all2 (\<lambda>row n. \<exists>f \<in> set fs. ri_ctl_id f = row_id row \<and> device_if_node row f = Ok n) rows ns"
    using if_nodes_return [OF r(3), of device_if_node] by (auto simp: device_if_node_def)
  have "dec_int 0 = ''0''" "dec_int 1 = ''1''" by code_simp+
  then have hw: "dec_int (eth_code h) = (if h = ETH_UP then ''1'' else ''0'')" for h by (cases h) simp_all
  have "device_document stamp r (device_doc ''DEVICE_INFO'' stamp (r_agentid r) ns)"
    unfolding device_document_def
  proof (intro exI conjI)
    show "ifList r = Some rows" "iflist r = Some fs" by (rule r)+
  qed (rule refl, rule list_all2_mono [OF ns(2)], force simp: device_if_node_def hw)
  then show ?thesis using r(1,2) ns(1) by (auto simp: device_info_to_xml_def if_doc_def)
qed

text \<open>
  C20. A round on the states of interfaces, on a table that can be reported, with one interface for each number, and rows with
  one row for each number.  Afterwards the states are those the router reported.  After the first round a document is sent
  exactly if one of them was another before; in the first round one is sent in any case, and a second one when a state
  was another.  The document has an element for each row of the last update of the table, with the new state.
\<close>

theorem device_report_iff_changed:
  assumes "reportable r" "iflist r = Some fs" "distinct (map ri_ctl_id fs)" "distinct (map stat_id rows)"
    "changed \<longleftrightarrow> (\<exists>row \<in> set rows. \<exists>f \<in> set fs. ri_ctl_id f = stat_id row \<and> ri_hw_state f \<noteq> check_interface_status (st_adminstatus row))"
  shows "\<exists>r' d fs'. deviceinfo_diff_and_send stamp rows run r =
      Ok (True, r', (if changed then [(UP_DEVICE_INFO, d)] else []) @ (if run then [] else [(UP_DEVICE_INFO, d)])) \<and>
    device_document stamp r' d \<and> ifList r' = ifList r \<and> iflist r' = Some fs' \<and> map ri_ctl_id fs' = map ri_ctl_id fs \<and>
    (\<forall>row \<in> set rows. \<forall>f \<in> set fs'. ri_ctl_id f = stat_id row \<longrightarrow> ri_hw_state f = check_interface_status (st_adminstatus row))"
proof -
  let ?fs = "map (fold dev_step rows) fs"
  let ?r = "r\<lparr>iflist := Some ?fs\<rparr>"
  have ch: "changed \<longleftrightarrow> (\<exists>row \<in> set rows. \<exists>f \<in> set fs. dev_differs row f)" unfolding dev_differs_def by (rule assms(5))
  have rows: "res_for device_row_diff rows (fs, False) = Ok (?fs, changed)" using device_rows_distinct [OF assms(3,4), of False] ch by simp
  have ready: "ready (r_type r) fs" using assms(1,2) by (auto simp: reportable_def)
  have "fs_keep fs ?fs" using res_for_keep_pair [OF _ ready, of device_row_diff rows False] device_row_keep rows by fastforce
  then have "reportable ?r" by (rule reportable_keep [OF assms(1,2)])
  then obtain d where d: "device_info_to_xml stamp ?r = Ok (Some d)" "device_document stamp ?r d" using device_document_sent by blast
  then have run: "deviceinfo_diff_and_send stamp rows run r =
      Ok (True, ?r, (if changed then [(UP_DEVICE_INFO, d)] else []) @ (if run then [] else [(UP_DEVICE_INFO, d)]))"
    using rows assms(2) by (simp add: deviceinfo_diff_and_send_def send_doc_def Let_def)
  have il: "ifList ?r = ifList r" "iflist ?r = Some ?fs" and ids: "map ri_ctl_id ?fs = map ri_ctl_id fs" by (simp_all add: comp_def)
  have st: "\<forall>row \<in> set rows. \<forall>f \<in> set ?fs. ri_ctl_id f = stat_id row \<longrightarrow> ri_hw_state f = check_interface_status (st_adminstatus row)"
    using dev_steps_state [OF assms(4)] by (auto simp: dev_differs_def)
  note facts = conjI [OF run conjI [OF d(2) conjI [OF il(1) conjI [OF il(2) conjI [OF ids st]]]]]
  show ?thesis by (rule exI, rule exI, rule exI, rule facts)
qed

text \<open>An interface with all its objects.\<close>

definition full_if :: router_if where
  "full_if = new_if\<lparr>ri_ctl_id := 3, ri_proto := Some \<lparr>proto_type = 0, pi_areaid = 0, pi_cost = 10\<rparr>,
     ri_neighbor := Some \<lparr>nb_devid = 0, nb_rid = 2, nb_router_addr = 0, nb_agent_addr = 0\<rparr>,
     ri_connected := Some [of_octets 10 0 0 1], ri_ospf := Some \<lparr>hello_interval = 10, dead_interval = 40\<rparr>\<rparr>"

lemma full_if_reportable:
  "row_id ` set rows \<subseteq> {3} \<Longrightarrow> reportable (sample_router\<lparr>iflist := Some [full_if], ifList := Some rows\<rparr>)"
  by (auto simp: reportable_def ready_def full_if_def new_if_def)

theorem device_report_iff_changed_witness:
  "\<exists>r' d. deviceinfo_diff_and_send ''t'' [\<lparr>st_ifindex = ''3'', st_adminstatus = ''up'', st_inoctets = [], st_outoctets = []\<rparr>] True
      (sample_router\<lparr>iflist := Some [full_if], ifList := Some [sample_row]\<rparr>) = Ok (True, r', [(UP_DEVICE_INFO, d)]) \<and> device_document ''t'' r' d"
proof -
  let ?r = "sample_router\<lparr>iflist := Some [full_if], ifList := Some [sample_row]\<rparr>"
  have "row_id sample_row = 3" by code_simp
  then have "reportable ?r" by (intro full_if_reportable) simp
  moreover have "stat_id \<lparr>st_ifindex = ''3'', st_adminstatus = ''up'', st_inoctets = [], st_outoctets = []\<rparr> = 3"
    by (simp add: stat_id_def) code_simp
  ultimately show ?thesis
    using device_report_iff_changed [of ?r "[full_if]" "[\<lparr>st_ifindex = ''3'', st_adminstatus = ''up'', st_inoctets = [], st_outoctets = []\<rparr>]" True "''t''" True]
    by (auto simp: full_if_def new_if_def check_interface_status_def)
qed

text \<open>
  C21. On an OSPF router whose table can be reported, a change of the dead interval alone is never entered nor reported: when the
  rows have valid addresses and the hello intervals are the known ones, a round leaves the table as it is and, after
  the first round, sends nothing, whatever the dead intervals of the rows.  In the first round the document is sent that the
  table with the old intervals gives.
\<close>

theorem dead_interval_change_missed:
  assumes "reportable r" "r_type r = OSPF_ROUTER" "iflist r = Some fs"
    "\<forall>row \<in> set rows. \<exists>a. inet_pton (os_ipaddress row) = Some a \<and>
       (\<forall>f \<in> set fs. a \<in> set (the (ri_connected f)) \<longrightarrow> hello_interval (the (ri_ospf f)) = u32_of_int (atoi (os_hello row)))"
  shows "\<exists>d. ospfifinfo_diff_and_send stale buf stamp rows run r = Ok (True, r, if run then [] else [(UP_OSPF_INTERFACE_INFO, d)]) \<and>
    ospf_interface_info_to_xml buf stamp r = Ok (Some d)"
proof -
  have ready: "ready OSPF_ROUTER fs" using assms(1-3) by (auto simp: reportable_def)
  have row: "ospf_row_diff stale row (fs, False) = Ok (fs, False)" if "row \<in> set rows" for row
  proof -
    from bspec [OF assms(4) that] obtain a where a: "inet_pton (os_ipaddress row) = Some a"
      "\<forall>f \<in> set fs. a \<in> set (the (ri_connected f)) \<longrightarrow> hello_interval (the (ri_ospf f)) = u32_of_int (atoi (os_hello row))"
      by (elim exE conjE)
    have q: "first_interface fs (Q_IPADDR a) = Ok (find_index (\<lambda>f. a \<in> set (the (ri_connected f))) fs)"
      using ready by (intro first_ipaddr) (simp add: ready_def)
    show ?thesis
    proof (cases "find_index (\<lambda>f. a \<in> set (the (ri_connected f))) fs")
      case (Some i)
      then have i: "fs ! i \<in> set fs" "a \<in> set (the (ri_connected (fs ! i)))" by (simp_all add: find_index_Some)
      then obtain pr p where "ri_proto (fs ! i) = Some pr" "ri_ospf (fs ! i) = Some p" using ready by (fastforce simp: ready_def)
      moreover from this have "hello_interval p = u32_of_int (atoi (os_hello row))" using a(2) i by fastforce
      ultimately show ?thesis using a(1) q Some by (simp add: ospf_row_diff_def ospf_changed_def)
    qed (use a(1) q in \<open>simp add: ospf_row_diff_def Let_def\<close>)
  qed
  then have "\<forall>row \<in> set rows. ospf_row_diff stale row (fs, False) = Ok (fs, False)" by blast
  then have "res_for (ospf_row_diff stale) rows (fs, False) = Ok (fs, False)" by (induction rows) simp_all
  moreover have e: "r\<lparr>iflist := Some fs\<rparr> = r" using assms(3) by (simp add: router.surjective)
  moreover obtain d where "ospf_interface_info_to_xml buf stamp r = Ok (Some d)" using ospf_doc_returns [OF assms(1,2)] by blast
  ultimately show ?thesis unfolding ospfifinfo_diff_and_send_def assms(3) option.case by (simp add: e send_doc_def Let_def)
qed

theorem dead_interval_change_missed_witness:
  "ospfifinfo_diff_and_send 0 [] ''t'' [\<lparr>os_ipaddress = ''10.0.0.1'', os_hello = ''10'', os_dead = ''20''\<rparr>] True
     (sample_router\<lparr>iflist := Some [full_if], ifList := Some [sample_row]\<rparr>) =
   Ok (True, sample_router\<lparr>iflist := Some [full_if], ifList := Some [sample_row]\<rparr>, [])"
proof -
  let ?r = "sample_router\<lparr>iflist := Some [full_if], ifList := Some [sample_row]\<rparr>"
  let ?rows = "[\<lparr>os_ipaddress = ''10.0.0.1'', os_hello = ''10'', os_dead = ''20''\<rparr>]"
  have "row_id sample_row = 3" by code_simp
  then have "reportable ?r" by (intro full_if_reportable) simp
  moreover have "inet_pton ''10.0.0.1'' = Some (of_octets 10 0 0 1)" "u32_of_int (atoi ''10'') = 10" by code_simp+
  then have "\<forall>row \<in> set ?rows. \<exists>a. inet_pton (os_ipaddress row) = Some a \<and>
      (\<forall>f \<in> set [full_if]. a \<in> set (the (ri_connected f)) \<longrightarrow> hello_interval (the (ri_ospf f)) = u32_of_int (atoi (os_hello row)))"
    by (simp add: full_if_def)
  moreover have "r_type ?r = OSPF_ROUTER" "iflist ?r = Some [full_if]" by (simp_all add: sample_router_def)
  ultimately show ?thesis using dead_interval_change_missed [of ?r "[full_if]" ?rows 0 "[]" "''t''" True] by auto
qed

text \<open>
  The rate is half the difference of the counters while they grow; after the router has set a counter back, the
  difference wraps around and the rate is near half of the range.
\<close>

theorem rate_of_counters:
  "unat (ri_send_rate (new_rates row f)) =
     (if ri_send_packet f \<le> atoll (st_outoctets row) then (unat (atoll (st_outoctets row)) - unat (ri_send_packet f)) div 2
      else (2 ^ 64 - (unat (ri_send_packet f) - unat (atoll (st_outoctets row)))) div 2) \<and>
   ri_send_packet (new_rates row f) = atoll (st_outoctets row)"
proof -
  let ?a = "ri_send_packet f" and ?b = "atoll (st_outoctets row)"
  have h: "unat (x div rate_refresh_timeval) = unat x div 2" for x by (simp add: rate_refresh_timeval_def unat_div)
  have e: "unat (?b - ?a) = (if unat ?a \<le> unat ?b then unat ?b - unat ?a else unat ?b + 2 ^ 64 - unat ?a)"
    by (simp add: unat_sub_if_size word_size)
  have "unat ?b + 2 ^ 64 - unat ?a = 2 ^ 64 - (unat ?a - unat ?b)" if "\<not> unat ?a \<le> unat ?b"
    using that unsigned_less [of ?a, where ?'a = nat] by simp
  with e have "unat (?b - ?a) = (if ?a \<le> ?b then unat ?b - unat ?a else 2 ^ 64 - (unat ?a - unat ?b))"
    unfolding word_le_nat_alt by presburger
  then show ?thesis by (auto simp: new_rates_def h)
qed

end
