(* ===== verification/Router_Daemon.thy ===== *)
theory Router_Daemon
  imports If_Report Lsd_Safety
begin


lemma truncate_fields [simp]:
  "ri_type (rinterface.truncate (f :: router_if)) = ri_type f" "ri_op_state (rinterface.truncate f) = ri_op_state f"
  "ri_proto (rinterface.truncate f) = ri_proto f" "ri_connected (rinterface.truncate f) = ri_connected f"
  "ri_vinterface (rinterface.truncate f) = ri_vinterface f"
  by (simp_all add: rinterface.defs)




end
