(* ===== verification/Local_Msg.thy ===== *)
theory Local_Msg
  imports Bytes Control
begin

text \<open>
  The packets between the processes of an agent (\<^verbatim>\<open>struct Packet_header\<close> of \<^verbatim>\<open>server/socket.h\<close> and
  \<^verbatim>\<open>comm/interior_daemon.h\<close>) and the stream sockets they travel on: a header of eight bytes with the type, a version,
  the length of the whole packet in sixteen bits and a checksum that nobody tests, then the data.  Here are the socket as
  the sequence of what its reads return, the packet a module sends, and the two readers: \<^verbatim>\<open>recv_packet\<close> of a module and
  the inner loop of \<^verbatim>\<open>child_process\<close> of the base module.
\<close>

section \<open>Stream sockets\<close>

text \<open>
  What will be seen on a socket, in order: bytes as they arrive, a moment at which nothing is there (\<^verbatim>\<open>EAGAIN\<close> of a socket
  that does not block), the end of the connection, another error.  A read returns at most the bytes of one arrival; what
  it does not take stays.  With nothing left, a socket that does not block says so.
\<close>

datatype arrival = Data bytes | Again | Closed | Broken

datatype read_result = Bytes bytes | WouldBlock | End | Failed

fun sock_read :: "nat \<Rightarrow> arrival list \<Rightarrow> read_result \<times> arrival list" where
  "sock_read n [] = (WouldBlock, [])"
| "sock_read n (Data bs # as) =
     (if bs = [] then sock_read n as
      else if length bs \<le> n then (Bytes bs, as)
      else (Bytes (take n bs), Data (drop n bs) # as))"
| "sock_read n (Again # as) = (WouldBlock, as)"
| "sock_read n (Closed # as) = (End, Closed # as)"
| "sock_read n (Broken # as) = (Failed, as)"

fun arriving :: "arrival list \<Rightarrow> bytes" where
  "arriving [] = []"
| "arriving (Data bs # as) = bs @ arriving as"
| "arriving (a # as) = arriving as"

text \<open>Only bytes, without a moment of waiting.\<close>

definition steady :: "arrival list \<Rightarrow> bool" where
  "steady as \<longleftrightarrow> (\<forall>a \<in> set as. \<exists>bs. a = Data bs)"

lemma steady_simps [simp]: "steady []" "steady (Data bs # as) = steady as" "\<not> steady (Again # as)" "\<not> steady (Closed # as)" "\<not> steady (Broken # as)"
  by (auto simp: steady_def)

lemma sock_read_some:
  assumes "sock_read n as = (Bytes bs, as')" "0 < n"
  shows "bs \<noteq> []" "length bs \<le> n" "arriving as = bs @ arriving as'" "steady as \<Longrightarrow> steady as'"
  using assms by (induction n as rule: sock_read.induct) (auto split: if_splits)

lemma sock_read_steady:
  assumes "steady as" "0 < n"
  shows "arriving as = [] \<and> sock_read n as = (WouldBlock, []) \<or> (\<exists>bs as'. sock_read n as = (Bytes bs, as'))"
  using assms by (induction n as rule: sock_read.induct) auto

section \<open>Packets\<close>

definition PMA_VERSION :: nat where "PMA_VERSION = 3"
definition HEADER_LEN :: nat where "HEADER_LEN = 8"
definition MAXBUF :: nat where "MAXBUF = 50000"

text \<open>The header in memory; a length that does not fit sixteen bits loses its upper part.\<close>

definition packet_header :: "nat \<Rightarrow> nat \<Rightarrow> nat \<Rightarrow> u32 \<Rightarrow> bytes" where
  "packet_header ty version len checksum = word_of_nat ty # word_of_nat version # enc16 len @ enc32 checksum"

lemma length_packet_header [simp]: "length (packet_header ty v n c) = 8"
  by (simp add: packet_header_def)

definition pkt_type :: "bytes \<Rightarrow> nat" where "pkt_type pkt = unat (pkt ! 0)"
definition pkt_version :: "bytes \<Rightarrow> nat" where "pkt_version pkt = unat (pkt ! 1)"
definition pkt_len :: "bytes \<Rightarrow> nat" where "pkt_len pkt = unat (pkt ! 2) + 256 * unat (pkt ! 3)"

text \<open>
  \<^verbatim>\<open>module_send_data\<close> (\<^verbatim>\<open>server/server.c\<close>): the packet is filled, except for its checksum, and the sender passes as many
  bytes to the socket as the length field says.  \<open>data\<close> is the memory of the data, \<open>junk\<close> what the allocated memory holds.
\<close>

definition sent_bytes :: "bytes \<Rightarrow> bytes" where
  "sent_bytes pkt = take (pkt_len pkt) pkt"

definition module_packet :: "u32 \<Rightarrow> bytes \<Rightarrow> int \<Rightarrow> nat \<Rightarrow> bytes option res" where
  "module_packet junk data len ty =
     (if len \<le> 0 then Ok None
      else if nat len > length data then Err OutOfBounds
      else Ok (Some (packet_header ty PMA_VERSION (HEADER_LEN + nat len) junk @ take (nat len) data)))"

text \<open>A sound packet: its length field is its length.\<close>

definition packet :: "nat \<Rightarrow> u32 \<Rightarrow> bytes \<Rightarrow> bytes" where
  "packet ty c data = packet_header ty PMA_VERSION (HEADER_LEN + length data) c @ data"

lemma length_packet [simp]: "length (packet ty c data) = 8 + length data"
  by (simp add: packet_def)

lemma enc16_len: "n < 65536 \<Longrightarrow> unat (enc16 n ! 0) + 256 * unat (enc16 n ! 1) = n"
  by (simp add: enc16_def unsigned_of_nat take_bit_eq_mod)

lemma pkt_len_header: "pkt_len (packet_header ty v n c @ bs) = n mod 65536"
proof -
  have "unat (word_of_nat n :: u8) + 256 * unat (word_of_nat (n div 256) :: u8) = n mod 256 + 256 * (n div 256 mod 256)"
    by (simp add: unsigned_of_nat take_bit_eq_mod)
  also have "\<dots> = n mod 65536" using mod_mult2_eq [of n 256 256] by simp
  finally show ?thesis by (simp add: pkt_len_def packet_header_def enc16_def)
qed

lemma pkt_fields_header:
  "ty < 256 \<Longrightarrow> pkt_type (packet_header ty v n c @ bs) = ty"
  "v < 256 \<Longrightarrow> pkt_version (packet_header ty v n c @ bs) = v"
  by (simp_all add: pkt_type_def pkt_version_def packet_header_def unsigned_of_nat take_bit_eq_mod)

lemma pkt_len_packet: "length data \<le> 65527 \<Longrightarrow> pkt_len (packet ty c data) = 8 + length data"
  by (simp add: packet_def pkt_len_header HEADER_LEN_def)

lemma module_packet_sent:
  assumes "data \<noteq> []" "length data \<le> 65527"
  shows "module_packet junk data (int (length data)) ty = Ok (Some (packet ty junk data))"
    "sent_bytes (packet ty junk data) = packet ty junk data"
  using assms by (simp_all add: module_packet_def packet_def [symmetric] sent_bytes_def pkt_len_packet)

text \<open>
  A message that is too long: only the remainder of the length modulo 65536 is sent, the rest is dropped without an
  error.
\<close>

lemma long_message_cut:
  assumes "65528 \<le> length data"
  shows "\<exists>pkt. module_packet junk data (int (length data)) ty = Ok (Some pkt) \<and>
    length (sent_bytes pkt) = (8 + length data) mod 65536 \<and> length (sent_bytes pkt) < 8 + length data"
proof -
  let ?pkt = "packet_header ty PMA_VERSION (HEADER_LEN + length data) junk @ data"
  have "(8 + length data) mod 65536 < 65536" by simp
  then have lt: "(8 + length data) mod 65536 < 8 + length data" using assms by linarith
  have "length (sent_bytes ?pkt) = (8 + length data) mod 65536"
    using lt by (simp add: sent_bytes_def pkt_len_header HEADER_LEN_def)
  moreover have "module_packet junk data (int (length data)) ty = Ok (Some ?pkt)" using assms by (auto simp: module_packet_def)
  ultimately show ?thesis using lt by metis
qed

section \<open>The reader of a module\<close>

text \<open>
  \<^verbatim>\<open>recv_packet\<close> of \<^verbatim>\<open>server/socket.c\<close>: one read for the header and one for the data, whatever they return.  \<open>stack\<close> are
  the eight bytes of the local header before the read, \<open>heap\<close> the bytes of the allocated memory.  The result is the
  packet, or \<open>None\<close> with the information whether the connection has ended.
\<close>

datatype recv_result = Received bytes | Nothing | Disconnected

definition header_after :: "bytes \<Rightarrow> bytes \<Rightarrow> bytes" where
  "header_after stack bs = bs @ drop (length bs) stack"

definition alloc_packet :: "(nat \<Rightarrow> u8) \<Rightarrow> bytes \<Rightarrow> bytes res" where
  "alloc_packet heap header = (if pkt_len header < 4 then Err OutOfBounds else Ok (take 4 header @ map heap [4 ..< pkt_len header]))"

definition recv_packet :: "bytes \<Rightarrow> (nat \<Rightarrow> u8) \<Rightarrow> arrival list \<Rightarrow> (recv_result \<times> arrival list) res" where
  "recv_packet stack heap as =
     (case sock_read HEADER_LEN as of
        (Bytes bs, as1) \<Rightarrow>
          res_bind (alloc_packet heap (header_after stack bs)) (\<lambda>pkt.
            if pkt_len pkt < HEADER_LEN then Ok (Nothing, as1)
            else if pkt_len pkt = HEADER_LEN then Ok (Received pkt, as1)
            else case sock_read (pkt_len pkt - HEADER_LEN) as1 of
                   (Bytes body, as2) \<Rightarrow> Ok (Received (take HEADER_LEN pkt @ body @ drop (HEADER_LEN + length body) pkt), as2)
                 | (End, as2) \<Rightarrow> Ok (Disconnected, as2)
                 | (_, as2) \<Rightarrow> Ok (Nothing, as2))
      | (End, as1) \<Rightarrow> Ok (Disconnected, as1)
      | (_, as1) \<Rightarrow> Ok (Nothing, as1))"

section \<open>The reader of the base module\<close>

text \<open>
  The loop of \<^verbatim>\<open>child_process\<close> over the data of one packet: it ends when all bytes are there; when nothing more is there,
  what was read is forgotten.
\<close>

datatype body_end = Complete bytes | Forgotten | Shut

function read_body :: "nat \<Rightarrow> bytes \<Rightarrow> arrival list \<Rightarrow> body_end \<times> arrival list" where
  "read_body n got as =
     (if n = 0 then (Complete got, as)
      else case sock_read n as of
        (Bytes bs, as') \<Rightarrow> read_body (n - length bs) (got @ bs) as'
      | (WouldBlock, as') \<Rightarrow> (Forgotten, as')
      | (_, as') \<Rightarrow> (Shut, as'))"
  by auto

termination read_body
proof (relation "measure (\<lambda>(n, _, _). n)")
  fix n :: nat and got bs :: bytes and as as' :: "arrival list" and r
  assume "n \<noteq> 0" "(r, as') = sock_read n as" "r = Bytes bs"
  then show "((n - length bs, got @ bs, as'), n, got, as) \<in> measure (\<lambda>(n, _, _). n)"
    using sock_read_some(1) [of n as bs as'] by (cases bs) auto
qed simp

declare read_body.simps [simp del]

lemma read_body_step:
  "0 < n \<Longrightarrow> sock_read n as = (Bytes bs, as') \<Longrightarrow> read_body n got as = read_body (n - length bs) (got @ bs) as'"
  by (simp add: read_body.simps [of n])

lemma read_body_arriving:
  assumes "read_body n got as = (Complete b, as')"
  shows "\<exists>bs. b = got @ bs \<and> length bs = n \<and> arriving as = bs @ arriving as' \<and> (steady as \<longrightarrow> steady as')"
  using assms
proof (induction n got as rule: read_body.induct)
  case (1 n got as)
  show ?case
  proof (cases "n = 0")
    case True
    then show ?thesis using 1(2) by (simp add: read_body.simps)
  next
    case False
    obtain r a1 where r: "sock_read n as = (r, a1)" by (cases "sock_read n as")
    with 1(2) False obtain bs where bs: "r = Bytes bs" by (cases r) (simp_all add: read_body.simps [of n])
    note rd = sock_read_some [OF r [unfolded bs]]
    have "read_body (n - length bs) (got @ bs) a1 = (Complete b, as')"
      using 1(2) read_body_step [OF _ r [unfolded bs]] False by simp
    with 1(1) [OF False r [symmetric] bs] rd False
    obtain cs where "b = (got @ bs) @ cs" "length cs = n - length bs" "arriving a1 = cs @ arriving as'" "steady a1 \<longrightarrow> steady as'"
      by fastforce
    with rd False show ?thesis by (intro exI [of _ "bs @ cs"]) auto
  qed
qed

lemma read_body_steady:
  assumes "steady as" "n \<le> length (arriving as)"
  shows "\<exists>b as'. read_body n got as = (Complete b, as')"
  using assms
proof (induction n got as rule: read_body.induct)
  case (1 n got as)
  show ?case
  proof (cases "n = 0")
    case False
    then have "arriving as \<noteq> []" using 1(3) by auto
    then obtain bs a1 where r: "sock_read n as = (Bytes bs, a1)" using sock_read_steady [OF 1(2), of n] False by auto
    note rd = sock_read_some [OF r]
    have "n - length bs \<le> length (arriving a1)" "steady a1" using rd False 1(2,3) by auto
    then have "\<exists>b as'. read_body (n - length bs) (got @ bs) a1 = (Complete b, as')"
      by (intro 1(1) [OF False r [symmetric] refl])
    then show ?thesis using read_body_step [OF _ r] False by simp
  qed (simp add: read_body.simps)
qed

text \<open>With all bytes there, the data are read whole whatever the arrivals.\<close>

lemma read_body_whole:
  assumes "steady as" "arriving as = bs @ rest"
  shows "\<exists>as'. read_body (length bs) got as = (Complete (got @ bs), as') \<and> steady as' \<and> arriving as' = rest"
proof -
  obtain b as' where b: "read_body (length bs) got as = (Complete b, as')" using read_body_steady [OF assms(1), of "length bs" got] assms(2) by auto
  obtain cs where "b = got @ cs" "length cs = length bs" "arriving as = cs @ arriving as'" "steady as'"
    using read_body_arriving [OF b] assms(1) by blast
  then show ?thesis using b assms(2) by (metis append_eq_append_conv)
qed

end
