(* ===== verification/Conf.thy ===== *)
theory Conf
  imports Inet Xml
begin

text \<open>
  The configuration of the agent (\<^verbatim>\<open>conf/conf.c\<close>): one XML document is read into \<^verbatim>\<open>pma_conf\<close>, with a part for each module
  that the base module sends to it when it registers.  The tree is what libxml2 gives; \<open>nls\<close> stands for
  \<^verbatim>\<open>xmlNodeListGetString\<close>.
\<close>

section \<open>State\<close>

record ic_conf =
  ic_router_ip :: u32
  ic_local_ip :: u32
  ic_hello_ip :: u32
  ic_netmask :: u32
  ic_outside :: u32
  ic_device_type :: u32
  ic_pma_id :: u32
  ic_if_id :: u32
  h_hello_val :: u32
  h_dead_val :: u32
  l_hello_val :: u32
  l_dead_val :: u32

record dbm_conf =
  snapshoot_timeval :: u32
  policy_type :: u32
  db_pma_id :: u32
  db_router_id :: u32

record pea_conf =
  pe_router_ip :: u32
  pe_pma_id :: u32
  fast_mpls :: u32
  pe_device_type :: u32

record conf =
  conf_version :: u32
  pma_id :: u32
  as_num :: u32
  server_port :: u32
  alca_port :: u32
  rltm_port :: u32
  listen_port :: u32
  logsrv_port :: u32
  device_type :: u32
  comm_type :: u32
  alca_ip :: string
  server_ip :: string
  rltm_ip :: string
  logsrv_ip :: string
  local_ip :: u32
  ic_config :: ic_conf
  dbm_config :: dbm_conf
  pea_config :: pea_conf

section \<open>Items\<close>

text \<open>
  \<^verbatim>\<open>parase_item\<close> by the type of its destination.  A missing parent node is a null pointer; a missing item gives \<^verbatim>\<open>-1\<close>,
  here \<open>None\<close>.  \<open>err\<close> is the value of \<^verbatim>\<open>errno\<close> before the call, which nothing resets; \<^verbatim>\<open>strtol\<close> only sets it out of range.
\<close>

type_synonym text_reader = "xml_node list \<Rightarrow> string option"

definition ERANGE :: int where "ERANGE = 34"

definition item_text :: "text_reader \<Rightarrow> xml_node option \<Rightarrow> string \<Rightarrow> string option res" where
  "item_text nls node name = (case node of None \<Rightarrow> Err NullDeref | Some n \<Rightarrow> Ok (get_value_by_name nls n name))"

definition strtol_range :: "string \<Rightarrow> bool" where
  "strtol_range str =
     (let t = dropWhile is_space str;
          u = (if t \<noteq> [] \<and> (hd t = CHR ''-'' \<or> hd t = CHR ''+'') then tl t else t);
          v = (if t \<noteq> [] \<and> hd t = CHR ''-'' then - digits_val (takeWhile is_digit u) else digits_val (takeWhile is_digit u))
      in LONG_MIN \<le> v \<and> v \<le> LONG_MAX)"

definition number_item :: "text_reader \<Rightarrow> int \<Rightarrow> xml_node option \<Rightarrow> string \<Rightarrow> u32 option res" where
  "number_item nls err node name =
     res_map (\<lambda>t. case t of
         None \<Rightarrow> None
       | Some str \<Rightarrow>
           (let dst = u32_of_int (strtol str); err' = (if strtol_range str then err else ERANGE)
            in if err' = ERANGE \<or> err' \<noteq> 0 \<and> int_of_u32 dst < 0 then None else Some dst))
       (item_text nls node name)"

definition ADDR_TEXT :: nat where "ADDR_TEXT = 46"

definition string_item :: "text_reader \<Rightarrow> xml_node option \<Rightarrow> string \<Rightarrow> string option res" where
  "string_item nls node name =
     res_bind (item_text nls node name) (\<lambda>t. case t of
         None \<Rightarrow> Ok None
       | Some str \<Rightarrow> if length str > ADDR_TEXT then Err OutOfBounds else Ok (Some str))"

text \<open>Addresses: \<^verbatim>\<open>inet_pton\<close> leaves the destination as it is if the text is no address.\<close>

definition address_item :: "text_reader \<Rightarrow> u32 \<Rightarrow> xml_node option \<Rightarrow> string \<Rightarrow> u32 option res" where
  "address_item nls old node name =
     res_map (map_option (\<lambda>str. case inet_pton str of None \<Rightarrow> old | Some w \<Rightarrow> w)) (item_text nls node name)"

section \<open>The document\<close>

text \<open>One call of \<^verbatim>\<open>parase_item\<close> with its test of the result; what was stored before stays.\<close>

definition store :: "'v option res \<Rightarrow> ('v \<Rightarrow> conf \<Rightarrow> conf) \<Rightarrow> (conf \<Rightarrow> (int \<times> conf) res) \<Rightarrow> conf \<Rightarrow> (int \<times> conf) res" where
  "store item put rest c = res_bind item (\<lambda>r. case r of None \<Rightarrow> Ok (-1, c) | Some v \<Rightarrow> rest (put v c))"

lemma store_simps [simp]:
  "store (Ok (Some v)) put rest c = rest (put v c)" "store (Ok None) put rest c = Ok (-1, c)" "store (Err e) put rest c = Err e"
  by (simp_all add: store_def)

definition node_of :: "xml_node option \<Rightarrow> string \<Rightarrow> xml_node option res" where
  "node_of parent name = (case parent of None \<Rightarrow> Err NullDeref | Some n \<Rightarrow> Ok (get_node_by_name n name))"

definition parse_servers :: "text_reader \<Rightarrow> int \<Rightarrow> xml_node option \<Rightarrow> (conf \<Rightarrow> (int \<times> conf) res) \<Rightarrow> conf \<Rightarrow> (int \<times> conf) res" where
  "parse_servers nls err node rest c =
     res_bind (node_of node ''server'') (\<lambda>s.
     store (string_item nls s ''ip'') (\<lambda>v c. c\<lparr>server_ip := v\<rparr>) (
     store (number_item nls err s ''port'') (\<lambda>v c. c\<lparr>server_port := v\<rparr>) (\<lambda>c.
     res_bind (node_of node ''alca'') (\<lambda>s.
     store (string_item nls s ''ip'') (\<lambda>v c. c\<lparr>alca_ip := v\<rparr>) (
     store (number_item nls err s ''port'') (\<lambda>v c. c\<lparr>alca_port := v\<rparr>) (\<lambda>c.
     res_bind (node_of node ''logsrv'') (\<lambda>s.
     store (string_item nls s ''ip'') (\<lambda>v c. c\<lparr>logsrv_ip := v\<rparr>) (
     store (number_item nls err s ''port'') (\<lambda>v c. c\<lparr>logsrv_port := v\<rparr>) (\<lambda>c.
     res_bind (node_of node ''rltm'') (\<lambda>s.
     store (string_item nls s ''ip'') (\<lambda>v c. c\<lparr>rltm_ip := v\<rparr>) (
     store (number_item nls err s ''port'') (\<lambda>v c. c\<lparr>rltm_port := v\<rparr>) rest) c))) c))) c))) c)"

definition parse_ic :: "text_reader \<Rightarrow> int \<Rightarrow> xml_node option \<Rightarrow> (conf \<Rightarrow> (int \<times> conf) res) \<Rightarrow> conf \<Rightarrow> (int \<times> conf) res" where
  "parse_ic nls err m rest c =
     store (number_item nls err m ''outside_enable'') (\<lambda>v c. c\<lparr>ic_config := (ic_config c)\<lparr>ic_outside := v\<rparr>\<rparr>) (
     store (address_item nls (ic_router_ip (ic_config c)) m ''router_ip'') (\<lambda>v c. c\<lparr>ic_config := (ic_config c)\<lparr>ic_router_ip := v\<rparr>\<rparr>) (
     store (address_item nls (ic_local_ip (ic_config c)) m ''local_ip'')
       (\<lambda>v c. c\<lparr>ic_config := (ic_config c)\<lparr>ic_local_ip := v\<rparr>, local_ip := v\<rparr>) (
     store (address_item nls (ic_hello_ip (ic_config c)) m ''hello_ip'') (\<lambda>v c. c\<lparr>ic_config := (ic_config c)\<lparr>ic_hello_ip := v\<rparr>\<rparr>) (
     store (address_item nls (ic_netmask (ic_config c)) m ''netmask'') (\<lambda>v c. c\<lparr>ic_config := (ic_config c)\<lparr>ic_netmask := v\<rparr>\<rparr>) rest)))) c"

definition spread_conf :: "conf \<Rightarrow> conf" where
  "spread_conf c = c\<lparr>
     ic_config := (ic_config c)\<lparr>ic_device_type := device_type c, ic_pma_id := pma_id c\<rparr>,
     dbm_config := (dbm_config c)\<lparr>db_pma_id := pma_id c\<rparr>,
     pea_config := (pea_config c)\<lparr>pe_device_type := device_type c, pe_pma_id := pma_id c, pe_router_ip := ic_router_ip (ic_config c)\<rparr>\<rparr>"

definition parse_modules :: "text_reader \<Rightarrow> int \<Rightarrow> xml_node option \<Rightarrow> conf \<Rightarrow> (int \<times> conf) res" where
  "parse_modules nls err node c =
     res_bind (node_of node ''module'') (\<lambda>cur.
     res_bind (node_of cur ''ic'') (\<lambda>m. parse_ic nls err m (\<lambda>c.
     res_bind (node_of cur ''dbm'') (\<lambda>m.
     store (number_item nls err m ''snapshot_timeval'') (\<lambda>v c. c\<lparr>dbm_config := (dbm_config c)\<lparr>snapshoot_timeval := v\<rparr>\<rparr>) (
     store (number_item nls err m ''policy_type'') (\<lambda>v c. c\<lparr>dbm_config := (dbm_config c)\<lparr>policy_type := v\<rparr>\<rparr>) (\<lambda>c.
     res_bind (node_of cur ''pem'') (\<lambda>m.
     store (number_item nls err m ''fast_mpls'') (\<lambda>v c. c\<lparr>pea_config := (pea_config c)\<lparr>fast_mpls := v\<rparr>\<rparr>)
       (\<lambda>c. Ok (0, spread_conf c)) c))) c)) c))"

text \<open>The agent number is an address whose bytes are exchanged.\<close>

definition parse_conf :: "text_reader \<Rightarrow> int \<Rightarrow> xml_node option \<Rightarrow> conf \<Rightarrow> (int \<times> conf) res" where
  "parse_conf nls err node c =
     store (number_item nls err node ''device_type'') (\<lambda>v c. c\<lparr>device_type := v\<rparr>) (
     store (number_item nls err node ''comm_type'') (\<lambda>v c. c\<lparr>comm_type := v\<rparr>) (
     store (number_item nls err node ''version'') (\<lambda>v c. c\<lparr>conf_version := v\<rparr>) (
     store (address_item nls (pma_id c) node ''pma_id'') (\<lambda>v c. c\<lparr>pma_id := ntohl v\<rparr>) (
     store (number_item nls err node ''as_num'') (\<lambda>v c. c\<lparr>as_num := v\<rparr>) (
     store (number_item nls err node ''listen_port'') (\<lambda>v c. c\<lparr>listen_port := v\<rparr>) (
     parse_servers nls err node (parse_modules nls err node))))))) c"

definition DEFAULT_H_HELLO :: u32 where "DEFAULT_H_HELLO = 1"
definition DEFAULT_L_HELLO :: u32 where "DEFAULT_L_HELLO = 20"
definition DEFAULT_H_DEAD :: u32 where "DEFAULT_H_DEAD = 4"
definition DEFAULT_L_DEAD :: u32 where "DEFAULT_L_DEAD = 80"

text \<open>\<open>doc\<close> is what the XML parser gives for the file: no document, or one with or without a root.\<close>

definition conf_init :: "text_reader \<Rightarrow> int \<Rightarrow> xml_node option option \<Rightarrow> conf \<Rightarrow> (int \<times> conf) res" where
  "conf_init nls err doc c =
     (case doc of
        None \<Rightarrow> Ok (-1, c)
      | Some root \<Rightarrow> res_map (\<lambda>(ret, c).
          if ret = -1 then (-1, c)
          else (0, c\<lparr>ic_config := (ic_config c)\<lparr>ic_if_id := -1, h_hello_val := DEFAULT_H_HELLO, l_hello_val := DEFAULT_L_HELLO,
                    h_dead_val := DEFAULT_H_DEAD, l_dead_val := DEFAULT_L_DEAD\<rparr>\<rparr>))
          (parse_conf nls err root c))"

definition get_protocol_type :: "conf \<Rightarrow> int" where
  "get_protocol_type c = int_of_u32 (device_type c) smod 10"

definition get_device_type :: "conf \<Rightarrow> int" where
  "get_device_type c = int_of_u32 (device_type c) sdiv 10"

section \<open>Reading back a configuration\<close>

text \<open>The values a node gives for names, and a document that says what the configuration \<open>c\<close> says.\<close>

definition says :: "text_reader \<Rightarrow> xml_node option \<Rightarrow> (string \<times> string) list \<Rightarrow> bool" where
  "says nls node kvs \<longleftrightarrow> (case node of None \<Rightarrow> False | Some n \<Rightarrow> \<forall>(k, v) \<in> set kvs. get_value_by_name nls n k = Some v)"

abbreviation dec_u32 :: "u32 \<Rightarrow> string" where
  "dec_u32 v \<equiv> dec_nat (unat v)"

definition says_server :: "text_reader \<Rightarrow> xml_node \<Rightarrow> string \<Rightarrow> string \<Rightarrow> u32 \<Rightarrow> bool" where
  "says_server nls root name ip port \<longleftrightarrow> says nls (get_node_by_name root name) [(''ip'', ip), (''port'', dec_u32 port)] \<and> length ip \<le> ADDR_TEXT"

definition says_modules :: "text_reader \<Rightarrow> xml_node \<Rightarrow> conf \<Rightarrow> bool" where
  "says_modules nls root c \<longleftrightarrow>
     (case get_node_by_name root ''module'' of None \<Rightarrow> False | Some m \<Rightarrow>
       says nls (get_node_by_name m ''ic'')
         [(''outside_enable'', dec_u32 (ic_outside (ic_config c))), (''router_ip'', inet_ntoa (ic_router_ip (ic_config c))),
          (''local_ip'', inet_ntoa (ic_local_ip (ic_config c))), (''hello_ip'', inet_ntoa (ic_hello_ip (ic_config c))),
          (''netmask'', inet_ntoa (ic_netmask (ic_config c)))] \<and>
       says nls (get_node_by_name m ''dbm'')
         [(''snapshot_timeval'', dec_u32 (snapshoot_timeval (dbm_config c))), (''policy_type'', dec_u32 (policy_type (dbm_config c)))] \<and>
       says nls (get_node_by_name m ''pem'') [(''fast_mpls'', dec_u32 (fast_mpls (pea_config c)))])"

definition says_conf :: "text_reader \<Rightarrow> xml_node \<Rightarrow> conf \<Rightarrow> bool" where
  "says_conf nls root c \<longleftrightarrow>
     says nls (Some root)
       [(''device_type'', dec_u32 (device_type c)), (''comm_type'', dec_u32 (comm_type c)), (''version'', dec_u32 (conf_version c)),
        (''pma_id'', inet_ntoa (ntohl (pma_id c))), (''as_num'', dec_u32 (as_num c)), (''listen_port'', dec_u32 (listen_port c))] \<and>
     says_server nls root ''server'' (server_ip c) (server_port c) \<and> says_server nls root ''alca'' (alca_ip c) (alca_port c) \<and>
     says_server nls root ''logsrv'' (logsrv_ip c) (logsrv_port c) \<and> says_server nls root ''rltm'' (rltm_ip c) (rltm_port c) \<and>
     says_modules nls root c"

definition conf_numbers :: "conf \<Rightarrow> u32 list" where
  "conf_numbers c = [device_type c, comm_type c, conf_version c, as_num c, listen_port c, server_port c, alca_port c, logsrv_port c, rltm_port c,
     ic_outside (ic_config c), snapshoot_timeval (dbm_config c), policy_type (dbm_config c), fast_mpls (pea_config c)]"

lemma strtol_range_dec: "n < 2 ^ 31 \<Longrightarrow> strtol_range (dec_nat n)"
proof -
  assume n: "n < 2 ^ 31"
  have d: "digits_val (dec_nat n) = int n" "\<forall>c \<in> set (dec_nat n). is_digit c" using digits_val_dec_nat by blast+
  then have t: "takeWhile is_digit (dec_nat n) = dec_nat n" by (simp add: takeWhile_eq_all_conv)
  have h: "is_digit (hd (dec_nat n))" using d(2) dec_nat_not_Nil by (metis list.set_sel(1))
  then have w: "dropWhile is_space (dec_nat n) = dec_nat n" using is_digitD dec_nat_not_Nil by (cases "dec_nat n") auto
  show ?thesis using is_digitD [OF h] n by (simp add: strtol_range_def w t d(1) LONG_MIN_def LONG_MAX_def)
qed

lemma sint_small: "v < 0x80000000 \<Longrightarrow> sint (v :: u32) = uint v"
  by (simp add: sint_uint word_less_def signed_take_bit_int_eq_self_iff order_trans [OF _ uint_ge_0])

lemma says_text: "says nls node kvs \<Longrightarrow> (k, v) \<in> set kvs \<Longrightarrow> item_text nls node k = Ok (Some v)"
  by (auto simp: says_def item_text_def split: option.splits)

lemma number_item_dec:
  assumes "says nls node kvs" "(k, dec_u32 v) \<in> set kvs" "v < 0x80000000" "err \<noteq> ERANGE"
  shows "number_item nls err node k = Ok (Some v)"
proof -
  have n: "unat v < 2 ^ 31" using assms(3) by (simp add: word_less_nat_alt)
  then have "int (unat v) \<le> LONG_MAX" using zless_nat_eq_int_zless [of "unat v" "2 ^ 31"] by (simp add: LONG_MAX_def)
  then have "strtol (dec_u32 v) = int (unat v)" by (rule strtol_dec_nat)
  moreover have "0 \<le> sint v" using sint_small [OF assms(3)] by simp
  ultimately show ?thesis
    using assms(3,4) n by (auto simp: number_item_def says_text [OF assms(1,2)] Let_def strtol_range_dec)
qed


lemma text_items:
  assumes "says nls node kvs" "(k, str) \<in> set kvs"
  shows "length str \<le> ADDR_TEXT \<Longrightarrow> string_item nls node k = Ok (Some str)"
    "str = inet_ntoa w \<Longrightarrow> address_item nls old node k = Ok (Some w)"
  by (simp_all add: string_item_def address_item_def says_text [OF assms])

lemma parse_servers_says:
  assumes "says_server nls root ''server'' (server_ip c) (server_port c)" "says_server nls root ''alca'' (alca_ip c) (alca_port c)"
    "says_server nls root ''logsrv'' (logsrv_ip c) (logsrv_port c)" "says_server nls root ''rltm'' (rltm_ip c) (rltm_port c)"
    "\<forall>v \<in> set (conf_numbers c). v < 0x80000000" "err \<noteq> ERANGE"
  shows "parse_servers nls err (Some root) rest c0 =
    rest (c0\<lparr>server_ip := server_ip c, server_port := server_port c, alca_ip := alca_ip c, alca_port := alca_port c,
            logsrv_ip := logsrv_ip c, logsrv_port := logsrv_port c, rltm_ip := rltm_ip c, rltm_port := rltm_port c\<rparr>)"
proof -
  have item: "store (string_item nls (get_node_by_name root name) ''ip'') f (store (number_item nls err (get_node_by_name root name) ''port'') g rest) c0
      = rest (g port (f ip c0))"
    if "says_server nls root name ip port" "port < 0x80000000" for name ip port f g rest c0
  proof -
    have s: "says nls (get_node_by_name root name) [(''ip'', ip), (''port'', dec_u32 port)]" "length ip \<le> ADDR_TEXT"
      using that(1) by (simp_all add: says_server_def)
    have "string_item nls (get_node_by_name root name) ''ip'' = Ok (Some ip)" by (rule text_items(1) [OF s(1) _ s(2)]) simp
    moreover have "number_item nls err (get_node_by_name root name) ''port'' = Ok (Some port)"
      by (rule number_item_dec [OF s(1) _ that(2) assms(6)]) simp
    ultimately show ?thesis by simp
  qed
  show ?thesis using assms(1-5) by (simp add: parse_servers_def node_of_def item conf_numbers_def)
qed

lemma parse_modules_says:
  assumes "says_modules nls root c" "\<forall>v \<in> set (conf_numbers c). v < 0x80000000" "err \<noteq> ERANGE"
  shows "parse_modules nls err (Some root) c0 =
    Ok (0, spread_conf (c0\<lparr>local_ip := ic_local_ip (ic_config c),
      ic_config := (ic_config c0)\<lparr>ic_outside := ic_outside (ic_config c), ic_router_ip := ic_router_ip (ic_config c),
        ic_local_ip := ic_local_ip (ic_config c), ic_hello_ip := ic_hello_ip (ic_config c), ic_netmask := ic_netmask (ic_config c)\<rparr>,
      dbm_config := (dbm_config c0)\<lparr>snapshoot_timeval := snapshoot_timeval (dbm_config c), policy_type := policy_type (dbm_config c)\<rparr>,
      pea_config := (pea_config c0)\<lparr>fast_mpls := fast_mpls (pea_config c)\<rparr>\<rparr>))"
proof -
  obtain m where m: "get_node_by_name root ''module'' = Some m"
    and ic: "says nls (get_node_by_name m ''ic'')
         [(''outside_enable'', dec_u32 (ic_outside (ic_config c))), (''router_ip'', inet_ntoa (ic_router_ip (ic_config c))),
          (''local_ip'', inet_ntoa (ic_local_ip (ic_config c))), (''hello_ip'', inet_ntoa (ic_hello_ip (ic_config c))),
          (''netmask'', inet_ntoa (ic_netmask (ic_config c)))]"
    and db: "says nls (get_node_by_name m ''dbm'')
         [(''snapshot_timeval'', dec_u32 (snapshoot_timeval (dbm_config c))), (''policy_type'', dec_u32 (policy_type (dbm_config c)))]"
    and pe: "says nls (get_node_by_name m ''pem'') [(''fast_mpls'', dec_u32 (fast_mpls (pea_config c)))]"
    using assms(1) by (auto simp: says_modules_def split: option.splits)
  note num = number_item_dec [OF _ _ _ assms(3)]
  have lt: "ic_outside (ic_config c) < 0x80000000" "snapshoot_timeval (dbm_config c) < 0x80000000" "policy_type (dbm_config c) < 0x80000000" "fast_mpls (pea_config c) < 0x80000000"
    using assms(2) by (simp_all add: conf_numbers_def)
  have items: "number_item nls err (get_node_by_name m ''ic'') ''outside_enable'' = Ok (Some (ic_outside (ic_config c)))"
      "number_item nls err (get_node_by_name m ''dbm'') ''snapshot_timeval'' = Ok (Some (snapshoot_timeval (dbm_config c)))"
      "number_item nls err (get_node_by_name m ''dbm'') ''policy_type'' = Ok (Some (policy_type (dbm_config c)))"
      "number_item nls err (get_node_by_name m ''pem'') ''fast_mpls'' = Ok (Some (fast_mpls (pea_config c)))"
    by (rule num [OF ic _ lt(1)] num [OF db _ lt(2)] num [OF db _ lt(3)] num [OF pe _ lt(4)]; simp)+
  have addrs: "address_item nls old (get_node_by_name m ''ic'') ''router_ip'' = Ok (Some (ic_router_ip (ic_config c)))"
      "address_item nls old (get_node_by_name m ''ic'') ''local_ip'' = Ok (Some (ic_local_ip (ic_config c)))"
      "address_item nls old (get_node_by_name m ''ic'') ''hello_ip'' = Ok (Some (ic_hello_ip (ic_config c)))"
      "address_item nls old (get_node_by_name m ''ic'') ''netmask'' = Ok (Some (ic_netmask (ic_config c)))" for old
    by (rule text_items(2) [OF ic _ refl]; simp)+
  show ?thesis by (simp add: parse_modules_def parse_ic_def node_of_def m items addrs)
qed

lemma top_items:
  assumes "says_conf nls root c" "\<forall>v \<in> set (conf_numbers c). v < 0x80000000" "err \<noteq> ERANGE"
  shows "number_item nls err (Some root) ''device_type'' = Ok (Some (device_type c))" "number_item nls err (Some root) ''comm_type'' = Ok (Some (comm_type c))"
    "number_item nls err (Some root) ''version'' = Ok (Some (conf_version c))" "number_item nls err (Some root) ''as_num'' = Ok (Some (as_num c))"
    "number_item nls err (Some root) ''listen_port'' = Ok (Some (listen_port c))"
    "address_item nls old (Some root) ''pma_id'' = Ok (Some (ntohl (pma_id c)))"
proof -
  have top: "says nls (Some root)
       [(''device_type'', dec_u32 (device_type c)), (''comm_type'', dec_u32 (comm_type c)), (''version'', dec_u32 (conf_version c)),
        (''pma_id'', inet_ntoa (ntohl (pma_id c))), (''as_num'', dec_u32 (as_num c)), (''listen_port'', dec_u32 (listen_port c))]"
    using assms(1) by (simp add: says_conf_def)
  note num = number_item_dec [OF top _ _ assms(3)]
  have lt: "device_type c < 0x80000000" "comm_type c < 0x80000000" "conf_version c < 0x80000000" "as_num c < 0x80000000" "listen_port c < 0x80000000"
    using assms(2) by (simp_all add: conf_numbers_def)
  show "number_item nls err (Some root) ''device_type'' = Ok (Some (device_type c))" "number_item nls err (Some root) ''comm_type'' = Ok (Some (comm_type c))"
      "number_item nls err (Some root) ''version'' = Ok (Some (conf_version c))" "number_item nls err (Some root) ''as_num'' = Ok (Some (as_num c))"
      "number_item nls err (Some root) ''listen_port'' = Ok (Some (listen_port c))"
    by (rule num [OF _ lt(1)] num [OF _ lt(2)] num [OF _ lt(3)] num [OF _ lt(4)] num [OF _ lt(5)]; simp)+
  show "address_item nls old (Some root) ''pma_id'' = Ok (Some (ntohl (pma_id c)))"
    by (rule text_items(2) [OF top _ refl]) simp
qed

text \<open>
  C18. A document that says the values of a configuration is read as that configuration: the numbers below \<open>2\<^sup>3\<^sup>1\<close>, the texts
  and addresses of the servers and modules arrive in their fields, each module's part carries the agent number, the
  device type and the router address, and the timers have their defaults.  What the document does not say stays as it was.
\<close>

theorem conf_init_reads_document:
  assumes "says_conf nls root c" "\<forall>v \<in> set (conf_numbers c). v < 0x80000000" "err \<noteq> ERANGE"
  shows "conf_init nls err (Some (Some root)) c0 = Ok (0, c\<lparr>local_ip := ic_local_ip (ic_config c),
      ic_config := (ic_config c)\<lparr>ic_device_type := device_type c, ic_pma_id := pma_id c, ic_if_id := -1,
        h_hello_val := 1, l_hello_val := 20, h_dead_val := 4, l_dead_val := 80\<rparr>,
      dbm_config := (dbm_config c)\<lparr>db_pma_id := pma_id c, db_router_id := db_router_id (dbm_config c0)\<rparr>,
      pea_config := (pea_config c)\<lparr>pe_device_type := device_type c, pe_pma_id := pma_id c, pe_router_ip := ic_router_ip (ic_config c)\<rparr>\<rparr>)"
proof -
  note top = top_items [OF assms]
  have parts: "says_server nls root ''server'' (server_ip c) (server_port c)" "says_server nls root ''alca'' (alca_ip c) (alca_port c)"
      "says_server nls root ''logsrv'' (logsrv_ip c) (logsrv_port c)" "says_server nls root ''rltm'' (rltm_ip c) (rltm_port c)"
      "says_modules nls root c"
    using assms(1) by (simp_all add: says_conf_def)
  show ?thesis
    by (simp add: conf_init_def parse_conf_def top parse_servers_says [OF parts(1-4) assms(2,3)] parse_modules_says [OF parts(5) assms(2,3)]
        spread_conf_def DEFAULT_H_HELLO_def DEFAULT_L_HELLO_def DEFAULT_H_DEAD_def DEFAULT_L_DEAD_def)
qed

text \<open>The document that is delivered with the sources, with the blanks between its elements.\<close>

abbreviation item :: "string \<Rightarrow> string \<Rightarrow> xml_node" where
  "item n v \<equiv> elem n [text_node v]"

definition sample_doc :: xml_node where
  "sample_doc = elem ''pma_conf'' [text_node [CHR 0x0A], item ''device_type'' ''12'', text_node [CHR 0x0A], item ''comm_type'' ''1'', item ''version'' ''3'',
     item ''as_num'' ''1'', item ''pma_id'' ''0.0.0.12'', item ''listen_port'' ''8025'',
     elem ''server'' [text_node [CHR 0x0A], item ''ip'' ''192.168.2.248'', item ''port'' ''9181''],
     elem ''alca'' [item ''ip'' ''127.0.0.1'', item ''port'' ''13456''], elem ''logsrv'' [item ''ip'' ''192.168.3.248'', item ''port'' ''3366''],
     elem ''rltm'' [item ''ip'' ''127.0.0.1'', item ''port'' ''1900''],
     elem ''module'' [text_node [CHR 0x0A],
       elem ''ic'' [item ''outside_enable'' ''1'', item ''router_ip'' ''11.1.12.1'', item ''local_ip'' ''11.1.12.2'', item ''hello_ip'' ''10.10.12.1'', item ''netmask'' ''255.255.255.0''],
       elem ''dbm'' [item ''snapshot_timeval'' ''5'', item ''policy_type'' ''0''], elem ''pem'' [item ''fast_mpls'' ''1'']]]"

definition empty_conf :: conf where
  "empty_conf = \<lparr>conf_version = 0, pma_id = 0, as_num = 0, server_port = 0, alca_port = 0, rltm_port = 0, listen_port = 0, logsrv_port = 0, device_type = 0,
     comm_type = 0, alca_ip = [], server_ip = [], rltm_ip = [], logsrv_ip = [], local_ip = 0,
     ic_config = \<lparr>ic_router_ip = 0, ic_local_ip = 0, ic_hello_ip = 0, ic_netmask = 0, ic_outside = 0, ic_device_type = 0, ic_pma_id = 0, ic_if_id = 0,
       h_hello_val = 0, h_dead_val = 0, l_hello_val = 0, l_dead_val = 0\<rparr>,
     dbm_config = \<lparr>snapshoot_timeval = 0, policy_type = 0, db_pma_id = 0, db_router_id = 0\<rparr>,
     pea_config = \<lparr>pe_router_ip = 0, pe_pma_id = 0, fast_mpls = 0, pe_device_type = 0\<rparr>\<rparr>"

definition sample_conf :: conf where
  "sample_conf = empty_conf\<lparr>device_type := 12, comm_type := 1, conf_version := 3, as_num := 1, pma_id := 12, listen_port := 8025,
     server_ip := ''192.168.2.248'', server_port := 9181, alca_ip := ''127.0.0.1'', alca_port := 13456, logsrv_ip := ''192.168.3.248'', logsrv_port := 3366,
     rltm_ip := ''127.0.0.1'', rltm_port := 1900,
     ic_config := (ic_config empty_conf)\<lparr>ic_outside := 1, ic_router_ip := 0x010C010B, ic_local_ip := 0x020C010B, ic_hello_ip := 0x010C0A0A, ic_netmask := 0x00FFFFFF\<rparr>,
     dbm_config := (dbm_config empty_conf)\<lparr>snapshoot_timeval := 5\<rparr>, pea_config := (pea_config empty_conf)\<lparr>fast_mpls := 1\<rparr>\<rparr>"

theorem conf_init_reads_document_witness:
  "\<exists>c'. conf_init text_of 0 (Some (Some sample_doc)) empty_conf = Ok (0, c') \<and> server_ip c' = ''192.168.2.248'' \<and> ic_pma_id (ic_config c') = 12 \<and>
    pe_router_ip (pea_config c') = 0x010C010B \<and> l_dead_val (ic_config c') = 80"
proof -
  have says: "says_conf text_of sample_doc sample_conf" by code_simp
  have small: "\<forall>v \<in> set (conf_numbers sample_conf). v < 0x80000000" by code_simp
  show ?thesis
    using conf_init_reads_document [OF says small, of 0 empty_conf] by (simp add: ERANGE_def sample_conf_def empty_conf_def)
qed

text \<open>Without a server, or another node with parts, the program follows a null pointer instead of refusing the file.\<close>

lemma conf_without_server_crashes:
  assumes "says_conf nls root c" "\<forall>v \<in> set (conf_numbers c). v < 0x80000000" "err \<noteq> ERANGE" "get_node_by_name root' ''server'' = None"
    "\<And>k. k \<in> {''device_type'', ''comm_type'', ''version'', ''pma_id'', ''as_num'', ''listen_port''} \<Longrightarrow> get_value_by_name nls root' k = get_value_by_name nls root k"
  shows "conf_init nls err (Some (Some root')) c0 = Err NullDeref"
proof -
  have same: "number_item nls err (Some root') k = number_item nls err (Some root) k" "address_item nls old (Some root') k = address_item nls old (Some root) k"
    if "k \<in> {''device_type'', ''comm_type'', ''version'', ''pma_id'', ''as_num'', ''listen_port''}" for k old
    using assms(5) [OF that] by (simp_all add: number_item_def address_item_def item_text_def)
  note top = top_items [OF assms(1-3)]
  show ?thesis
    by (simp add: conf_init_def parse_conf_def same top parse_servers_def node_of_def assms(4) string_item_def item_text_def)
qed

end
