(* ===== verification/Pms_Comm.thy ===== *)
theory Pms_Comm
  imports Local_Msg Conf
begin

text \<open>
  The exchange with the management server (\<^verbatim>\<open>comm/comm.c\<close>): a connection is opened for each message, directly or to a
  relay (ALCA), the data get a header of twenty bytes, and the reply decides about success.  What the system calls return
  is an argument: how the connection attempts end, whether the sends succeed and what arrives on the connection.
\<close>

section \<open>Connections\<close>

datatype progress = Select_error | Select_timeout | Select_ready bool bool  \<comment> \<open>writable, readable\<close>

datatype attempt = No_socket | Connected int | Refused | In_progress int progress

definition create_connect :: "attempt \<Rightarrow> int" where
  "create_connect a =
     (case a of
        No_socket \<Rightarrow> -1
      | Connected s \<Rightarrow> s
      | Refused \<Rightarrow> -1
      | In_progress s p \<Rightarrow>
          (case p of
             Select_error \<Rightarrow> -1
           | Select_timeout \<Rightarrow> -1
           | Select_ready w r \<Rightarrow> if w \<and> \<not> r then s else -1))"

section \<open>Packets\<close>

record pms_packet =
  p_ip :: string
  p_port :: u32
  p_sock :: int
  p_len :: u32
  p_type :: int
  p_mem :: bytes       \<comment> \<open>the memory from \<^verbatim>\<open>head\<close> on\<close>
  p_data :: nat        \<comment> \<open>\<^verbatim>\<open>data\<close>, as a place in that memory\<close>
  p_end :: nat

definition PMS_HEADER :: nat where "PMS_HEADER = 20"
definition MAX_PACKET_HEADER_SIZE :: nat where "MAX_PACKET_HEADER_SIZE = PMS_HEADER + 10"
definition COMMON_HEADER :: nat where "COMMON_HEADER = 8"
definition DEVICETYPE_APP_BM :: nat where "DEVICETYPE_APP_BM = 100"

text \<open>Numbers in network order; \<open>enc32 (ntohl w)\<close> is the same for \<^verbatim>\<open>htonl\<close>.\<close>

definition htons_bytes :: "nat \<Rightarrow> bytes" where
  "htons_bytes n = [word_of_nat (n div 256), word_of_nat n]"

definition htonl_bytes :: "u32 \<Rightarrow> bytes" where
  "htonl_bytes w = enc32 (ntohl w)"

definition pms_header :: "int \<Rightarrow> u32 \<Rightarrow> u32 \<Rightarrow> u32 \<Rightarrow> u32 \<Rightarrow> u32 \<Rightarrow> bytes" where
  "pms_header ty version len agent src dst =
     word_of_int ty # ucast version # htons_bytes DEVICETYPE_APP_BM @ htonl_bytes len @ htonl_bytes agent @ enc32 src @ enc32 dst"

lemma length_pms_header [simp]: "length (pms_header ty v n a s d) = 20"
  by (simp add: pms_header_def htons_bytes_def htonl_bytes_def)

text \<open>
  \<^verbatim>\<open>encapsulate_normal_packet\<close>: the header is put before the data.  \<open>stale\<close> is the value of the address field if the text
  is no address.
\<close>

definition encapsulate_normal_packet :: "conf \<Rightarrow> u32 \<Rightarrow> u32 \<Rightarrow> pms_packet \<Rightarrow> pms_packet res" where
  "encapsulate_normal_packet c addr stale p =
     (let len = p_len p + word_of_nat PMS_HEADER;
          dst = (case inet_pton (p_ip p) of None \<Rightarrow> stale | Some w \<Rightarrow> w)
      in if p_data p < PMS_HEADER then Err OutOfBounds
         else res_map (\<lambda>mem. p\<lparr>p_len := len, p_data := p_data p - PMS_HEADER, p_mem := mem\<rparr>)
           (wr_bytes (p_mem p) (p_data p - PMS_HEADER) (pms_header (p_type p) (conf_version c) len (pma_id c) addr dst)))"

text \<open>\<^verbatim>\<open>encapsulate_packet\<close>: \<open>buf\<close> is the memory of the data, \<open>fresh\<close> what allocated memory holds.\<close>

definition encapsulate_packet :: "(nat \<Rightarrow> u8) \<Rightarrow> conf \<Rightarrow> u32 \<Rightarrow> u32 \<Rightarrow> bytes option \<Rightarrow> pms_packet \<Rightarrow> pms_packet res" where
  "encapsulate_packet fresh c addr stale buf p =
     (case buf of
        Some b \<Rightarrow>
          (let n = unat (p_len p); size = MAX_PACKET_HEADER_SIZE + n; e = size - 1
           in if n > length b then Err OutOfBounds
              else res_bind (wr_bytes (map fresh [0 ..< size]) (e - n) (take n b @ [0])) (\<lambda>mem.
                encapsulate_normal_packet c addr stale (p\<lparr>p_mem := mem, p_data := e - n, p_end := e\<rparr>)))
      | None \<Rightarrow>
          encapsulate_normal_packet c addr stale
            (p\<lparr>p_mem := map fresh [0 ..< MAX_PACKET_HEADER_SIZE], p_data := MAX_PACKET_HEADER_SIZE - 1, p_end := MAX_PACKET_HEADER_SIZE - 1, p_len := 0\<rparr>))"

text \<open>The bytes a send takes.\<close>

definition p_bytes :: "pms_packet \<Rightarrow> bytes res" where
  "p_bytes p = (if p_data p + unat (p_len p) \<le> length (p_mem p) then Ok (take (unat (p_len p)) (drop (p_data p) (p_mem p))) else Err OutOfBounds)"

definition PKT_TYPE_TCP :: nat where "PKT_TYPE_TCP = 1"
definition ALCA_VERSION :: nat where "ALCA_VERSION = 1"
definition ALCA_HEADER :: nat where "ALCA_HEADER = 20"

definition alca_packet :: "u32 \<Rightarrow> pms_packet \<Rightarrow> bytes res" where
  "alca_packet stale p =
     res_map (\<lambda>bs. word_of_nat PKT_TYPE_TCP # word_of_nat ALCA_VERSION # htons_bytes (unat (p_port p)) @
         enc32 (case inet_pton (p_ip p) of None \<Rightarrow> stale | Some w \<Rightarrow> w) @ htonl_bytes (p_len p + word_of_nat ALCA_HEADER) @ enc32 0 @ enc32 0 @ bs)
       (p_bytes p)"

section \<open>Receiving\<close>

text \<open>
  The loop for the rest of a packet, on a socket that blocks: it tries again after \<^verbatim>\<open>EAGAIN\<close>, and while nothing comes it
  waits.
\<close>

datatype rest_end = All bytes | Lost | Waiting

lemma sock_read_again:
  "sock_read n as = (WouldBlock, as') \<Longrightarrow> as \<noteq> [] \<Longrightarrow> length as' < length as"
  by (induction n as rule: sock_read.induct) (fastforce split: if_splits)+

lemma sock_read_length: "sock_read n as = (r, as') \<Longrightarrow> length as' \<le> length as"
  by (induction n as rule: sock_read.induct) (fastforce split: if_splits)+

function recv_rest :: "nat \<Rightarrow> bytes \<Rightarrow> arrival list \<Rightarrow> rest_end \<times> arrival list" where
  "recv_rest n got as =
     (if n = 0 then (All got, as)
      else case sock_read n as of
        (Bytes bs, as') \<Rightarrow> recv_rest (n - length bs) (got @ bs) as'
      | (WouldBlock, as') \<Rightarrow> if as = [] then (Waiting, as') else recv_rest n got as'
      | (_, as') \<Rightarrow> (Lost, as'))"
  by auto

termination recv_rest
proof (relation "measure (\<lambda>(n, _, as). n + length as)")
  fix n :: nat and got bs :: bytes and as as' :: "arrival list" and r
  assume n: "n \<noteq> 0" and r: "(r, as') = sock_read n as" "r = Bytes bs"
  then have "bs \<noteq> []" using sock_read_some(1) [of n as bs as'] by simp
  then have "n - length bs < n" using n by (cases bs) auto
  moreover have "length as' \<le> length as" using sock_read_length r by metis
  ultimately show "((n - length bs, got @ bs, as'), n, got, as) \<in> measure (\<lambda>(n, _, as). n + length as)" by simp
next
  fix n :: nat and got :: bytes and as as' :: "arrival list" and r
  assume "(r, as') = sock_read n as" "r = WouldBlock" "as \<noteq> []"
  then show "((n, got, as'), n, got, as) \<in> measure (\<lambda>(n, _, as). n + length as)"
    using sock_read_again [of n as as'] by simp
qed simp

declare recv_rest.simps [simp del]

text \<open>
  The common part of \<^verbatim>\<open>recv_packet\<close> (\<^verbatim>\<open>comm.c\<close>) and \<^verbatim>\<open>packet_handle\<close> (\<^verbatim>\<open>exterior_daemon.c\<close>): a first read into a zeroed buffer
  of \<open>cap\<close> bytes; the length is taken from the header; if it exceeds what was read, the packet is collected in new memory,
  whose size is computed in 32 bits.  The result is the memory and the length; or the connection fails or ends, or no byte
  came in time; or the loop waits for bytes that do not come.
\<close>

datatype recv_end = Got bytes u32 | Gone | Stuck

definition collect :: "nat \<Rightarrow> bytes \<Rightarrow> arrival list \<Rightarrow> (recv_end \<times> arrival list) res" where
  "collect cap bs as =
     res_bind (rd32 (bs @ replicate (cap - length bs) 0) 4) (\<lambda>w.
       let buf = bs @ replicate (cap - length bs) 0; len = ntohl w
       in if unat len \<le> length bs then Ok (Got buf len, as)
          else if unat (len + 1) < length bs then Err OutOfBounds
          else case recv_rest (unat len - length bs) bs as of
                 (All m, as') \<Rightarrow> Ok (Got (m @ [0]) len, as')
               | (Lost, as') \<Rightarrow> Ok (Gone, as')
               | (Waiting, as') \<Rightarrow> Ok (Stuck, as'))"

definition recv_first :: "nat \<Rightarrow> arrival list \<Rightarrow> (recv_end \<times> arrival list) res" where
  "recv_first cap as = (case sock_read cap as of (Bytes bs, as') \<Rightarrow> collect cap bs as' | (_, as') \<Rightarrow> Ok (Gone, as'))"

text \<open>\<^verbatim>\<open>recv_packet\<close>: the buffer is the one of the packet that was sent; a wait of the configured time without data fails.\<close>

definition recv_pms_packet :: "pms_packet \<Rightarrow> arrival list \<Rightarrow> (recv_end \<times> pms_packet) res" where
  "recv_pms_packet p as =
     res_map (\<lambda>(r, _). case r of
         Got m n \<Rightarrow> (r, p\<lparr>p_mem := m, p_data := 0, p_len := n, p_type := int (unat (m ! 0))\<rparr>)
       | _ \<Rightarrow> (r, p\<lparr>p_data := 0\<rparr>))
       (recv_first (p_end p) as)"

section \<open>One exchange\<close>

record pms_state =
  pma_addr :: u32
  xml_policy_buff :: bytes
  pms_out :: "(int \<times> bytes) list"   \<comment> \<open>what was sent, with the socket\<close>

datatype reply_handler = Handle_ops_ack | Handle_ops_ack_failed | Handle_pma_init_reply

definition OPS_PMS_PMA_INIT_REPLY :: int where "OPS_PMS_PMA_INIT_REPLY = 4"
definition OPS_PMS_PMA_INFO_ACK :: int where "OPS_PMS_PMA_INFO_ACK = 18"
definition OPS_PMS_PMA_INFO_ERR_ACK :: int where "OPS_PMS_PMA_INFO_ERR_ACK = 19"

definition new_ctl :: "int \<Rightarrow> 't ctl" where
  "new_ctl n = \<lparr>ctl_id = replicate (nat n) None, ctl_flag = replicate (nat n) 0, ctl_length = n\<rparr>"

definition data_handle :: "reply_handler ctl res" where
  "data_handle = add_ctls (new_ctl 1024) [(OPS_PMS_PMA_INFO_ACK, Handle_ops_ack), (OPS_PMS_PMA_INFO_ERR_ACK, Handle_ops_ack_failed),
     (OPS_PMS_PMA_INIT_REPLY, Handle_pma_init_reply)]"

text \<open>
  The reply to the first request carries the policies.  A reply shorter than its header makes the length negative: the
  allocation fails and the null pointer is written to.  The copy is then printed as a string, although nothing
  ends it: without a zero byte among the data the print reads behind the allocated memory.
\<close>

definition handle_pma_init_reply :: "pms_packet \<Rightarrow> pms_state \<Rightarrow> (int \<times> pms_state) res" where
  "handle_pma_init_reply p s =
     (let len = int_of_u32 (p_len p - word_of_nat PMS_HEADER)
      in if len < 0 then Err NullDeref
         else if p_data p + PMS_HEADER + nat len > length (p_mem p) then Err OutOfBounds
         else
           (let buff = take (nat len) (drop (p_data p + PMS_HEADER) (p_mem p))
            in if 0 \<notin> set buff then Err OutOfBounds else Ok (0, s\<lparr>xml_policy_buff := buff\<rparr>)))"

definition call_reply :: "pms_packet \<Rightarrow> reply_handler \<Rightarrow> pms_state \<Rightarrow> (int \<times> pms_state) res" where
  "call_reply p h s =
     (case h of Handle_ops_ack \<Rightarrow> Ok (0, s) | Handle_ops_ack_failed \<Rightarrow> Ok (-1, s) | Handle_pma_init_reply \<Rightarrow> handle_pma_init_reply p s)"

definition pms_reply_handle :: "pms_packet \<Rightarrow> pms_state \<Rightarrow> (int \<times> pms_state) res" where
  "pms_reply_handle p s = res_bind data_handle (\<lambda>c. run_ctl (call_reply p) c (p_type p) s)"

text \<open>
  What the system does during an exchange: the ends of the two attempts to connect, the address of this end, whether
  the sends succeed, and what comes back.
\<close>

record exchange =
  conn_pms :: attempt
  conn_alca :: attempt
  local_addr :: u32
  sends :: bool
  resends :: bool
  replies :: "arrival list"

text \<open>
  A send that succeeds takes all bytes: the socket of the exchange is a blocking one when the message is sent.
\<close>

definition send_packet :: "bool \<Rightarrow> pms_packet \<Rightarrow> pms_state \<Rightarrow> (bool \<times> pms_state) res" where
  "send_packet good p s =
     res_map (\<lambda>bs. if good \<and> p_sock p \<noteq> -1 then (True, s\<lparr>pms_out := pms_out s @ [(p_sock p, bs)]\<rparr>) else (False, s)) (p_bytes p)"

definition send_packet_by_alca :: "u32 \<Rightarrow> bool \<Rightarrow> pms_packet \<Rightarrow> pms_state \<Rightarrow> (bool \<times> pms_state) res" where
  "send_packet_by_alca stale good p s =
     res_map (\<lambda>bs. if good \<and> p_sock p \<noteq> -1 then (True, s\<lparr>pms_out := pms_out s @ [(p_sock p, bs)]\<rparr>) else (False, s)) (alca_packet stale p)"

text \<open>
  The choice of the connection by the communication type (0: direct, 1: the relay if direct fails, 2: the relay): the
  socket, whether the relay is used after a failure, and the address of this end; \<open>None\<close> if the function gives up.  The
  status of the agent never changes from \<^verbatim>\<open>NORMAL\<close>.
\<close>

definition choose_connection :: "conf \<Rightarrow> exchange \<Rightarrow> pms_state \<Rightarrow> (int \<times> bool \<times> pms_state) option" where
  "choose_connection c x s =
     (let sock = (if comm_type c = 2 then create_connect (conn_alca x) else create_connect (conn_pms x))
      in if sock \<noteq> -1 then Some (sock, False, s\<lparr>pma_addr := local_addr x\<rparr>)
         else if comm_type c = 1 then
           (let sock' = create_connect (conn_alca x) in if sock' = -1 then None else Some (sock', True, s))
         else if comm_type c = 0 then None
         else Some (sock, False, s))"

text \<open>The two ways to send; a direct send that fails is tried again in the form for the relay, on the same socket.\<close>

definition send_either :: "u32 \<Rightarrow> conf \<Rightarrow> exchange \<Rightarrow> bool \<Rightarrow> pms_packet \<Rightarrow> pms_state \<Rightarrow> (bool \<times> pms_state) res" where
  "send_either stale c x flag p s =
     (if comm_type c = 2 \<or> flag then send_packet_by_alca stale (sends x) p s
      else res_bind (send_packet (sends x) p s) (\<lambda>(good, s).
        if good then Ok (True, s)
        else if comm_type c = 1 then send_packet_by_alca stale (resends x) p s
        else if comm_type c = 0 then Ok (False, s)
        else Ok (True, s)))"

definition INET_ADDRSTRLEN :: nat where "INET_ADDRSTRLEN = 16"

definition send_message_to_pms ::
  "(nat \<Rightarrow> u8) \<Rightarrow> u32 \<Rightarrow> conf \<Rightarrow> exchange \<Rightarrow> string \<Rightarrow> u32 \<Rightarrow> int \<Rightarrow> bytes option \<Rightarrow> u32 \<Rightarrow> pms_state \<Rightarrow> (int option \<times> pms_state) res" where
  "send_message_to_pms fresh stale c x ip port ty buf len s =
     (case choose_connection c x s of
        None \<Rightarrow> Ok (Some (-1), s)
      | Some (sock, flag, s) \<Rightarrow>
          if length ip > INET_ADDRSTRLEN then Err OutOfBounds
          else res_bind (encapsulate_packet fresh c (pma_addr s) stale buf
                 \<lparr>p_ip = ip, p_port = port, p_sock = sock, p_len = len, p_type = ty, p_mem = [], p_data = 0, p_end = 0\<rparr>) (\<lambda>p.
               res_bind (send_either stale c x flag p s) (\<lambda>(good, s).
                 if \<not> good then Ok (Some (-1), s)
                 else res_bind (recv_pms_packet p (replies x)) (\<lambda>(r, p).
                   case r of
                     Gone \<Rightarrow> Ok (Some (-1), s)
                   | Stuck \<Rightarrow> Ok (None, s)
                   | Got _ _ \<Rightarrow> res_map (\<lambda>(ret, s). (Some (if ret = -1 then -1 else 0), s)) (pms_reply_handle p s)))))"

section \<open>Framing\<close>

text \<open>Bytes with moments of waiting, but without an end.\<close>

definition patient :: "arrival list \<Rightarrow> bool" where
  "patient as \<longleftrightarrow> Closed \<notin> set as \<and> Broken \<notin> set as"

lemma patient_simps [simp]: "patient []" "patient (Data bs # as) = patient as" "patient (Again # as) = patient as" "\<not> patient (Closed # as)" "\<not> patient (Broken # as)"
  by (auto simp: patient_def)

lemma sock_read_patient:
  assumes "patient as" "0 < n"
  shows "(\<exists>as'. sock_read n as = (WouldBlock, as') \<and> patient as' \<and> arriving as' = arriving as) \<or>
    (\<exists>bs as'. sock_read n as = (Bytes bs, as') \<and> bs \<noteq> [] \<and> length bs \<le> n \<and> patient as' \<and> arriving as = bs @ arriving as')"
  using assms by (induction n as rule: sock_read.induct) auto

lemma recv_rest_whole:
  assumes "patient as" "n \<le> length (arriving as)"
  shows "\<exists>as'. recv_rest n got as = (All (got @ take n (arriving as)), as') \<and> arriving as' = drop n (arriving as)"
  using assms
proof (induction n got as rule: recv_rest.induct)
  case (1 n got as)
  show ?case
  proof (cases "n = 0")
    case True
    then show ?thesis by (simp add: recv_rest.simps)
  next
    case False
    then have ne: "as \<noteq> []" using 1(4) by auto
    consider as' where "sock_read n as = (WouldBlock, as')" "patient as'" "arriving as' = arriving as"
      | bs as' where "sock_read n as = (Bytes bs, as')" "bs \<noteq> []" "length bs \<le> n" "patient as'" "arriving as = bs @ arriving as'"
      using sock_read_patient [OF 1(3), of n] False by blast
    then show ?thesis
    proof cases
      case (1 as')
      then show ?thesis using "1.IH"(2) [OF False 1(1) [symmetric] refl ne] "1.prems" False ne
        by (simp add: recv_rest.simps [of n got as])
    next
      case (2 bs as')
      then have "n - length bs \<le> length (arriving as')" using "1.prems" by simp
      then obtain a2 where "recv_rest (n - length bs) (got @ bs) as' = (All ((got @ bs) @ take (n - length bs) (arriving as')), a2)"
          "arriving a2 = drop (n - length bs) (arriving as')"
        using "1.IH"(1) [OF False 2(1) [symmetric] refl 2(4)] by blast
      then show ?thesis using 2 False by (simp add: recv_rest.simps [of n got as])
    qed
  qed
qed

text \<open>A whole message: its length field, in network order, is its length.\<close>

definition framed :: "bytes \<Rightarrow> bool" where
  "framed m \<longleftrightarrow> 8 \<le> length m \<and> length m < 4294967295 \<and> bytes_at m 4 (htonl_bytes (word_of_nat (length m)))"

lemma bytes_at_prefix: "bytes_at m q bs \<Longrightarrow> bytes_at (m @ r) q bs"
  by (auto simp: bytes_at_def nth_append)

lemma bytes_at_mid: "bytes_at (pre @ bs @ post) (length pre) bs"
  by (simp add: bytes_at_def nth_append)

lemma bytes_at_take: "bytes_at m q bs \<Longrightarrow> q + length bs \<le> n \<Longrightarrow> bytes_at (take n m) q bs"
  by (auto simp: bytes_at_def)

text \<open>A message is received whole, whatever its parts, if its header is not divided.\<close>

lemma recv_first_framed:
  assumes m: "framed m" and split: "bs @ arriving as = m @ r" and "patient as" and "8 \<le> length bs" "8 \<le> cap"
  shows "\<exists>mem as'. recv_first cap (Data bs # as) = Ok (Got mem (word_of_nat (length m)), as') \<and> take (length m) mem = m \<and> length m \<le> length mem \<and> mem \<noteq> []"
proof -
  define b where "b = take cap bs"
  define a where "a = (if length bs \<le> cap then as else Data (drop cap bs) # as)"
  have rd: "sock_read cap (Data bs # as) = (Bytes b, a)" using assms(4,5) by (auto simp: a_def b_def)
  have rf: "recv_first cap (Data bs # as) = collect cap b a" unfolding recv_first_def rd by simp
  have "b @ arriving a = bs @ arriving as" by (simp add: a_def b_def append.assoc [symmetric] del: append.assoc)
  then have ba: "b @ arriving a = m @ r" "patient a" "8 \<le> length b" using assms by (simp_all add: a_def b_def)
  have l: "unat (word_of_nat (length m) :: u32) = length m" using m by (simp add: framed_def unsigned_of_nat take_bit_eq_mod)
  have pre: "take 8 b = take 8 m" using arg_cong [OF ba(1), of "take 8"] ba(3) m by (simp add: framed_def)
  have "bytes_at (take 8 m) 4 (htonl_bytes (word_of_nat (length m)))" using m by (intro bytes_at_take) (auto simp: framed_def htonl_bytes_def)
  then have at: "bytes_at (b @ z) 4 (htonl_bytes (word_of_nat (length m)))" for z
    using bytes_at_prefix [of "take 8 b" 4 _ "drop 8 b @ z"] unfolding pre [symmetric] append.assoc [symmetric] append_take_drop_id by blast
  have rd32: "rd32 (b @ replicate (cap - length b) 0) 4 = Ok (ntohl (word_of_nat (length m)))"
    using rd32_at [OF at [unfolded htonl_bytes_def]] by simp
  show ?thesis
  proof (cases "length m \<le> length b")
    case True
    then have "take (length m) b = m" using arg_cong [OF ba(1), of "take (length m)"] by simp
    then show ?thesis using True ba(3)
      by (intro exI [of _ "b @ replicate (cap - length b) 0"] exI [of _ a]) (auto simp: rf collect_def rd32 Let_def l)
  next
    case False
    then have ext: "arriving a = drop (length b) m @ r" "m = b @ drop (length b) m"
      using arg_cong [OF ba(1), of "drop (length b)"] arg_cong [OF ba(1), of "take (length b)"] by auto (metis append_take_drop_id)
    have n: "length m - length b \<le> length (arriving a)" using ext(1) by simp
    obtain a2 where r2: "recv_rest (length m - length b) b a = (All (b @ take (length m - length b) (arriving a)), a2)"
      using recv_rest_whole [OF ba(2) n] by blast
    have all: "b @ take (length m - length b) (arriving a) = m" using ext False by simp
    have w: "length b \<le> unat ((word_of_nat (length m) :: u32) + 1)"
    proof -
      have "unat ((word_of_nat (length m) :: u32) + 1) = Suc (length m)"
        using m l by (simp add: framed_def unat_word_ariths)
      then show ?thesis using False by simp
    qed
    show ?thesis using False r2 all w l
      by (intro exI [of _ "m @ [0]"] exI [of _ a2]) (auto simp: rf collect_def rd32 Let_def)
  qed
qed

text \<open>What goes out for a message: the header and the data, without a copy error, whatever the memory held.\<close>

definition pms_message :: "conf \<Rightarrow> u32 \<Rightarrow> u32 \<Rightarrow> string \<Rightarrow> int \<Rightarrow> bytes \<Rightarrow> bytes" where
  "pms_message c addr stale ip ty data =
     pms_header ty (conf_version c) (word_of_nat (20 + length data)) (pma_id c) addr (case inet_pton ip of None \<Rightarrow> stale | Some w \<Rightarrow> w) @ data"

lemma framed_message: "length data < 4294967275 \<Longrightarrow> framed (pms_message c addr stale ip ty data)"
proof -
  assume l: "length data < 4294967275"
  define d where "d = (case inet_pton ip of None \<Rightarrow> stale | Some w \<Rightarrow> w)"
  define pre where "pre = [word_of_int ty, ucast (conf_version c)] @ htons_bytes DEVICETYPE_APP_BM"
  have m: "pms_message c addr stale ip ty data =
      pre @ htonl_bytes (word_of_nat (20 + length data)) @ (htonl_bytes (pma_id c) @ enc32 addr @ enc32 d @ data)"
    by (simp add: pms_message_def pms_header_def d_def pre_def)
  have pre: "length pre = 4" by (simp add: pre_def htons_bytes_def)
  then have len: "length (pms_message c addr stale ip ty data) = 20 + length data" by (simp add: m htonl_bytes_def)
  have "bytes_at (pms_message c addr stale ip ty data) 4 (htonl_bytes (word_of_nat (20 + length data)))"
    unfolding m pre [symmetric] by (rule bytes_at_mid)
  then show ?thesis using l by (simp add: framed_def len)
qed

lemma encapsulate_packet_message:
  assumes "p_len p = word_of_nat (length data)" "length data < 4294967266"
  shows "\<exists>p'. encapsulate_packet fresh c addr stale (Some data) p = Ok p' \<and> p_bytes p' = Ok (pms_message c addr stale (p_ip p) (p_type p) data) \<and>
    p_end p' = 29 + length data \<and> p_sock p' = p_sock p \<and> p_ip p' = p_ip p \<and> p_port p' = p_port p \<and> p_len p' = word_of_nat (20 + length data)"
proof -
  let ?n = "length data"
  let ?h = "pms_header (p_type p) (conf_version c) (word_of_nat (20 + ?n)) (pma_id c) addr (case inet_pton (p_ip p) of None \<Rightarrow> stale | Some w \<Rightarrow> w)"
  have n: "unat (p_len p) = ?n" "p_len p + 20 = word_of_nat (20 + ?n)"
    using assms by (simp_all add: unsigned_of_nat take_bit_eq_mod PMS_HEADER_def)
  have l: "unat (word_of_nat (20 + ?n) :: u32) = 20 + ?n" using assms(2) by (simp add: unsigned_of_nat take_bit_eq_mod del: of_nat_add)
  define F where "F = take 29 (map fresh [0 ..< 30 + ?n])"
  have F: "length F = 29" by (simp add: F_def)
  have w1: "wr_bytes (map fresh [0 ..< 30 + ?n]) 29 (data @ [0]) = Ok (F @ data @ [0])"
    by (simp add: wr_bytes_def F_def)
  have w2: "wr_bytes (F @ data @ [0]) 9 ?h = Ok (take 9 F @ ?h @ data @ [0])" using F by (simp add: wr_bytes_def)
  let ?p = "p\<lparr>p_mem := take 9 F @ ?h @ data @ [0], p_data := 9, p_end := 29 + ?n, p_len := word_of_nat (20 + ?n)\<rparr>"
  have "encapsulate_packet fresh c addr stale (Some data) p = Ok ?p"
    using w1 w2 by (simp add: encapsulate_packet_def encapsulate_normal_packet_def n MAX_PACKET_HEADER_SIZE_def PMS_HEADER_def Let_def del: of_nat_add)
  moreover have "p_bytes ?p = Ok (pms_message c addr stale (p_ip p) (p_type p) data)"
    using F by (simp add: p_bytes_def l pms_message_def del: of_nat_add)
  ultimately show ?thesis by (intro exI [of _ ?p]) simp
qed

section \<open>What an exchange does\<close>

text \<open>A table of handlers made by a list of registrations, as a map from types to handlers.\<close>

lemma new_ctl_dispatch:
  assumes "\<forall>(i, f) \<in> set es. 0 \<le> i \<and> i < n" "0 \<le> n" "j \<noteq> n"
  shows "\<exists>c. add_ctls (new_ctl n) es = Ok c \<and> (run_ctl call c j st = (case map_of (rev es) j of None \<Rightarrow> Ok (-1, st) | Some f \<Rightarrow> call f st))"
  using run_ctl_dispatches [of n "\<lparr>ctl_heap = [], ctls = Some []\<rparr>" 0 "\<lparr>ctl_heap = [new_ctl n], ctls = Some [0]\<rparr>" es j call st] assms
  by (simp add: create_ctl_def new_ctl_def)

lemma pms_reply_handle_type:
  assumes "p_type p \<noteq> 1024"
  shows "pms_reply_handle p s =
    (if p_type p = 4 then handle_pma_init_reply p s else if p_type p = 18 then Ok (0, s) else Ok (-1, s))"
proof -
  let ?es = "[(OPS_PMS_PMA_INFO_ACK, Handle_ops_ack), (OPS_PMS_PMA_INFO_ERR_ACK, Handle_ops_ack_failed), (OPS_PMS_PMA_INIT_REPLY, Handle_pma_init_reply)]"
  note defs = OPS_PMS_PMA_INFO_ACK_def OPS_PMS_PMA_INFO_ERR_ACK_def OPS_PMS_PMA_INIT_REPLY_def
  obtain c where "add_ctls (new_ctl 1024) ?es = Ok c"
      "run_ctl (call_reply p) c (p_type p) s = (case map_of (rev ?es) (p_type p) of None \<Rightarrow> Ok (-1, s) | Some f \<Rightarrow> call_reply p f s)"
    using new_ctl_dispatch [of ?es 1024 "p_type p" "call_reply p" s] assms by (auto simp: defs)
  then show ?thesis by (auto simp: pms_reply_handle_def data_handle_def defs call_reply_def)
qed

lemma pms_packet_length:
  assumes "20 \<le> n" "n < 2147483648"
  shows "int_of_u32 (word_of_nat n - word_of_nat PMS_HEADER) = int (n - 20)"
proof -
  have w: "(word_of_nat n :: u32) - word_of_nat PMS_HEADER = word_of_nat (n - 20)" using assms(1) by (simp add: PMS_HEADER_def of_nat_diff)
  have "word_of_nat (n - 20) < (0x80000000 :: u32)" using assms(2) by (simp add: word_less_nat_alt unsigned_of_nat take_bit_eq_mod)
  then show ?thesis using sint_small assms(2) by (simp add: w unsigned_of_nat take_bit_eq_mod)
qed

lemma init_reply_stores:
  assumes "p_data p = 0" "p_len p = word_of_nat (length m)" "take (length m) (p_mem p) = m" "20 \<le> length m" "length m < 2147483648"
  shows "handle_pma_init_reply p s = (if 0 \<in> set (drop 20 m) then Ok (0, s\<lparr>xml_policy_buff := drop 20 m\<rparr>) else Err OutOfBounds)"
proof -
  have len: "int_of_u32 (p_len p - word_of_nat PMS_HEADER) = int (length m - 20)" unfolding assms(2) by (rule pms_packet_length [OF assms(4,5)])
  have "take (length m - 20) (drop 20 (p_mem p)) = drop 20 m" using assms(3) by (metis drop_take)
  moreover have "length m \<le> length (p_mem p)" using assms(3) by (metis length_take min.cobounded1)
  ultimately show ?thesis using assms(1,4) unfolding handle_pma_init_reply_def Let_def len by (simp add: PMS_HEADER_def nat_diff_distrib)
qed

text \<open>The form of the bytes for the relay.\<close>

definition alca_message :: "u32 \<Rightarrow> string \<Rightarrow> u32 \<Rightarrow> bytes \<Rightarrow> bytes" where
  "alca_message stale ip port m =
     [1, 1] @ htons_bytes (unat port) @ enc32 (case inet_pton ip of None \<Rightarrow> stale | Some w \<Rightarrow> w) @ htonl_bytes (word_of_nat (length m + 20)) @ enc32 0 @ enc32 0 @ m"

definition relays :: "conf \<Rightarrow> bool \<Rightarrow> bool" where
  "relays c flag \<longleftrightarrow> comm_type c = 2 \<or> flag"

lemma send_either_sends:
  assumes "p_bytes p = Ok m" "p_len p = word_of_nat (length m)" "sends x" "p_sock p \<noteq> -1"
  shows "send_either stale c x flag p s =
    Ok (True, s\<lparr>pms_out := pms_out s @ [(p_sock p, if relays c flag then alca_message stale (p_ip p) (p_port p) m else m)]\<rparr>)"
  using assms
  by (simp add: send_either_def relays_def send_packet_def send_packet_by_alca_def alca_packet_def alca_message_def PKT_TYPE_TCP_def ALCA_VERSION_def ALCA_HEADER_def)

text \<open>
  C16. An exchange with the server that could connect, directly or to the relay, and send, with a complete reply of at least
  twenty bytes whose first eight come undivided and the rest in any parts: exactly one message goes out on that connection,
  the header and the data (wrapped for the relay).  The function returns 0 for an acknowledgement (type 18) and for the
  reply with the policies (type 4), whose data it stores and which must contain a zero byte, since it is printed as a
  string; for every other reply it returns -1.
\<close>

theorem send_message_to_pms_exchange:
  assumes conn: "choose_connection c x s = Some (sock, flag, s1)" "sock \<noteq> -1" and "sends x" "length ip \<le> 16"
    and data: "length data < 4294967266"
    and reply: "framed m" "20 \<le> length m" "replies x = Data bs # as" "bs @ arriving as = m @ r" "patient as" "8 \<le> length bs" "length m < 2147483648"
      "unat (m ! 0) = 4 \<Longrightarrow> 0 \<in> set (drop 20 m)"
  shows "\<exists>s'. send_message_to_pms fresh stale c x ip port ty (Some data) (word_of_nat (length data)) s =
      Ok (Some (if unat (m ! 0) \<in> {4, 18} then 0 else -1), s') \<and>
    pms_out s' = pms_out s1 @ [(sock, if relays c flag then alca_message stale ip port (pms_message c (pma_addr s1) stale ip ty data)
                                     else pms_message c (pma_addr s1) stale ip ty data)] \<and>
    xml_policy_buff s' = (if unat (m ! 0) = 4 then drop 20 m else xml_policy_buff s1)"
proof -
  let ?p0 = "\<lparr>p_ip = ip, p_port = port, p_sock = sock, p_len = word_of_nat (length data), p_type = ty, p_mem = [], p_data = 0, p_end = 0\<rparr>"
  let ?out = "pms_message c (pma_addr s1) stale ip ty data"
  obtain p where p: "encapsulate_packet fresh c (pma_addr s1) stale (Some data) ?p0 = Ok p" "p_bytes p = Ok ?out" "p_end p = 29 + length data"
      "p_sock p = sock" "p_ip p = ip" "p_port p = port" "p_len p = word_of_nat (20 + length data)"
    using encapsulate_packet_message [of ?p0 data fresh c "pma_addr s1" stale] data by auto
  define s2 where "s2 = s1\<lparr>pms_out := pms_out s1 @ [(sock, if relays c flag then alca_message stale ip port ?out else ?out)]\<rparr>"
  have sent: "send_either stale c x flag p s1 = Ok (True, s2)"
    using send_either_sends [OF p(2) _ assms(3)] p conn(2) by (simp add: pms_message_def s2_def)
  obtain mem as' where mem: "recv_first (p_end p) (replies x) = Ok (Got mem (word_of_nat (length m)), as')" "take (length m) mem = m" "length m \<le> length mem" "mem \<noteq> []"
    using recv_first_framed [OF reply(1,4-6), of "p_end p"] reply(3) p(3) by auto
  define q where "q = p\<lparr>p_mem := mem, p_data := 0, p_len := word_of_nat (length m), p_type := int (unat (mem ! 0))\<rparr>"
  have recv: "recv_pms_packet p (replies x) = Ok (Got mem (word_of_nat (length m)), q)" by (simp add: recv_pms_packet_def mem(1) q_def)
  have "mem ! 0 = m ! 0" using mem(2) reply(2) by (metis gr0I length_0_conv less_le_trans nth_take zero_less_numeral list.size(3) not_less)
  then have ty: "p_type q = int (unat (m ! 0))" "unat (m ! 0) < 256" using unsigned_less [of "m ! 0"] by (simp_all add: q_def)
  have init: "handle_pma_init_reply q s2 = Ok (0, s2\<lparr>xml_policy_buff := drop 20 m\<rparr>)" if "unat (m ! 0) = 4"
    using reply(8) [OF that] init_reply_stores [of q m s2] mem(2) reply(2,7) by (simp add: q_def)
  have handled: "pms_reply_handle q s2 = (if unat (m ! 0) = 4 then Ok (0, s2\<lparr>xml_policy_buff := drop 20 m\<rparr>) else if unat (m ! 0) = 18 then Ok (0, s2) else Ok (-1, s2))"
  proof -
    have "p_type q \<noteq> 1024" "(p_type q = 4) = (unat (m ! 0) = 4)" "(p_type q = 18) = (unat (m ! 0) = 18)" unfolding ty(1) using ty(2) by linarith+
    then show ?thesis unfolding pms_reply_handle_type [OF \<open>p_type q \<noteq> 1024\<close>] by (simp add: init)
  qed
  show ?thesis
    using assms(4) by (auto simp: send_message_to_pms_def conn(1) INET_ADDRSTRLEN_def p(1) sent recv handled) (simp_all add: s2_def)
qed

definition sample_reply :: bytes where
  "sample_reply = pms_message sample_conf 0 0 ''10.0.0.1'' 18 []"

definition sample_exchange :: exchange where
  "sample_exchange = \<lparr>conn_pms = In_progress 5 (Select_ready True False), conn_alca = Refused, local_addr = 0x0100000A, sends = True, resends = False,
     replies = [Data (take 12 sample_reply), Again, Data (drop 12 sample_reply)]\<rparr>"

lemma sample_reply_facts: "framed sample_reply" "length sample_reply = 20" "unat (sample_reply ! 0) = 18"
  using framed_message [of "[]" sample_conf 0 0 "''10.0.0.1''" 18] by (simp_all add: sample_reply_def pms_message_def) (simp add: pms_header_def)

theorem send_message_to_pms_exchange_witness:
  "\<exists>s'. send_message_to_pms (\<lambda>_. 0) 0 sample_conf sample_exchange ''10.0.0.1'' 9181 5 (Some [1, 2, 3]) 3 \<lparr>pma_addr = 0, xml_policy_buff = [], pms_out = []\<rparr> =
      Ok (Some 0, s') \<and> pms_out s' = [(5, pms_message sample_conf 0x0100000A 0 ''10.0.0.1'' 5 [1, 2, 3])]"
proof -
  let ?s = "\<lparr>pma_addr = 0, xml_policy_buff = [], pms_out = []\<rparr>"
  have conn: "choose_connection sample_conf sample_exchange ?s = Some (5, False, ?s\<lparr>pma_addr := 0x0100000A\<rparr>)"
    by (simp add: choose_connection_def sample_conf_def sample_exchange_def create_connect_def)
  have all: "take 12 sample_reply @ arriving [Again, Data (drop 12 sample_reply)] = sample_reply @ []" by simp
  have "sample_exchange = sample_exchange" "sends sample_exchange" "relays sample_conf False = False"
      "replies sample_exchange = Data (take 12 sample_reply) # [Again, Data (drop 12 sample_reply)]"
    by (simp_all add: sample_exchange_def relays_def sample_conf_def)
  with send_message_to_pms_exchange [OF conn _ _ _ _ sample_reply_facts(1) _ _ all, of "''10.0.0.1''" "[1, 2, 3]" "\<lambda>_. 0" 0 9181 5]
  show ?thesis by (auto simp: sample_reply_facts)
qed

text \<open>
  C17. A message that was encapsulated is read back by the receiving side: in whatever parts it arrives, the first of which holds at
  least the eight bytes that contain its length, with moments of waiting between them and bytes of another message behind
  it, the reader ends with the message in its memory: its type, its length, its data.
\<close>

theorem pms_message_roundtrip:
  assumes "p_len p = word_of_nat (length data)" "length data < 4294967266"
    and "encapsulate_packet fresh c addr stale (Some data) p = Ok p'" "p_bytes p' = Ok m"
    and "bs @ arriving as = m @ r" "patient as" "8 \<le> length bs" "8 \<le> cap"
  shows "\<exists>mem as'. recv_first cap (Data bs # as) = Ok (Got mem (word_of_nat (20 + length data)), as') \<and>
    mem ! 0 = word_of_int (p_type p) \<and> take (length data) (drop 20 mem) = data"
proof -
  have m: "m = pms_message c addr stale (p_ip p) (p_type p) data"
    using encapsulate_packet_message [OF assms(1,2), of fresh c addr stale] assms(3,4) by auto
  have len: "length m = 20 + length data" by (simp add: m pms_message_def)
  have f: "framed m" unfolding m using assms(2) by (intro framed_message) simp
  obtain mem as' where mem: "recv_first cap (Data bs # as) = Ok (Got mem (word_of_nat (length m)), as')" "take (length m) mem = m" "mem \<noteq> []"
    using recv_first_framed [OF f assms(5-8)] by blast
  have "mem ! 0 = m ! 0" using mem(2) len by (metis add_gr_0 nth_take zero_less_numeral)
  then have ty: "mem ! 0 = word_of_int (p_type p)" by (simp add: m pms_message_def pms_header_def)
  have "take (length data) (drop 20 mem) = drop 20 (take (20 + length data) mem)" by (simp add: drop_take)
  also have "\<dots> = data" using mem(2) len by (simp add: m pms_message_def)
  finally show ?thesis using mem(1) ty len by (intro exI [of _ mem] exI [of _ as'] conjI) simp_all
qed

theorem pms_message_roundtrip_witness:
  "\<exists>mem as'. recv_first 51200 (Data (take 9 (pms_message sample_conf 0 0 ''10.0.0.1'' 5 [7, 8])) # [Again, Data (drop 9 (pms_message sample_conf 0 0 ''10.0.0.1'' 5 [7, 8]))]) =
      Ok (Got mem 22, as') \<and> mem ! 0 = 5 \<and> take 2 (drop 20 mem) = [7, 8]"
proof -
  let ?p = "\<lparr>p_ip = ''10.0.0.1'', p_port = 9181, p_sock = 5, p_len = 2, p_type = 5, p_mem = [], p_data = 0, p_end = 0\<rparr>"
  let ?m = "pms_message sample_conf 0 0 ''10.0.0.1'' 5 [7, 8]"
  obtain p' where p': "encapsulate_packet (\<lambda>_. 0) sample_conf 0 0 (Some [7, 8]) ?p = Ok p'" "p_bytes p' = Ok ?m"
    using encapsulate_packet_message [of ?p "[7, 8]" "\<lambda>_. 0" sample_conf 0 0] by auto
  have l: "8 \<le> length (take 9 ?m)" by (simp add: pms_message_def)
  show ?thesis
    using pms_message_roundtrip [OF _ _ p', of "take 9 ?m" "[Again, Data (drop 9 ?m)]" "[]" 51200] l by (simp add: numeral_2_eq_2)
qed

text \<open>A header that announces the greatest length makes the reader allocate no memory at all, and copy into it.\<close>

lemma greatest_length_overflows:
  assumes "8 \<le> length bs" "length bs \<le> cap" "bytes_at bs 4 (htonl_bytes 0xFFFFFFFF)" "length bs < 4294967295"
  shows "recv_first cap (Data bs # as) = Err OutOfBounds"
proof -
  have "sock_read cap (Data bs # as) = (Bytes bs, as)" using assms(1,2) by auto
  then have rf: "recv_first cap (Data bs # as) = collect cap bs as" unfolding recv_first_def by simp
  have "rd32 (bs @ replicate (cap - length bs) 0) 4 = Ok (ntohl 0xFFFFFFFF)"
    by (rule rd32_at) (rule bytes_at_prefix [OF assms(3) [unfolded htonl_bytes_def]])
  then have "collect cap bs as = Err OutOfBounds" using assms(1,4) by (auto simp: collect_def Let_def)
  then show ?thesis by (simp only: rf)
qed

text \<open>A reply with policies that hold no zero byte is printed beyond the memory it was copied to.\<close>

lemma unterminated_policies_over_read:
  assumes "p_data p = 0" "p_len p = word_of_nat (length m)" "take (length m) (p_mem p) = m" "20 \<le> length m" "length m < 2147483648"
    "0 \<notin> set (drop 20 m)"
  shows "handle_pma_init_reply p s = Err OutOfBounds"
  using init_reply_stores [OF assms(1-5)] assms(6) by simp

text \<open>A reply with the policies that is shorter than its header makes the base module write to a null pointer.\<close>

lemma short_init_reply_crashes:
  assumes "p_len p < 20"
  shows "handle_pma_init_reply p s = Err NullDeref"
proof -
  have n: "unat (p_len p) < 20" using assms by (simp add: word_less_nat_alt)
  have "sint (p_len p - word_of_nat PMS_HEADER) = int (unat (p_len p)) - 20"
  proof -
    have "p_len p - word_of_nat PMS_HEADER = word_of_int (int (unat (p_len p)) - 20)" by (simp add: PMS_HEADER_def)
    then have "sint (p_len p - word_of_nat PMS_HEADER) = signed_take_bit 31 (int (unat (p_len p)) - 20)" by (simp only: sint_sbintrunc') simp
    also have "\<dots> = int (unat (p_len p)) - 20" using n zless_nat_eq_int_zless [of "unat (p_len p)" 20] by (intro signed_take_bit_int_eq_self) simp_all
    finally show ?thesis .
  qed
  then have "sint (p_len p - word_of_nat PMS_HEADER) < 0" using n by linarith
  then show ?thesis by (simp add: handle_pma_init_reply_def Let_def)
qed

end
