(* ===== verification/Base_Module.thy ===== *)
theory Base_Module
  imports Pms_Comm Ini Timer
begin

text \<open>
  The base module of the agent: the handlers of packets from the local modules and from the management server
  (\<^verbatim>\<open>comm/handler.c\<close>), the reader of a local connection (\<^verbatim>\<open>comm/interior_daemon.c\<close>) and the thread for a packet of the
  server (\<^verbatim>\<open>comm/exterior_daemon.c\<close>).  It passes packets between the modules and to the server, and keeps who has
  registered, the policies and the list of agents for those that register later.
\<close>

section \<open>State\<close>

record router_list =
  rl_devid :: u32
  rl_rid :: u32
  rl_ip :: u32

datatype bm_callback = Send_router_list_to_ic | Heart_beat_send

text \<open>
  \<open>bm_hung\<close> says that a call waits for ever for the rest of a reply.  \<open>bm_sent\<close> are the packets written to local sockets.
\<close>

record bm =
  bm_mods :: "module_register_table list"
  bm_status :: int
  bm_pms :: pms_state
  pma_buff :: bytes                    \<comment> \<open>\<^verbatim>\<open>global_pma_buff\<close>: its content up to its length\<close>
  rList :: "router_list list option"   \<comment> \<open>behind the header node; \<open>None\<close> before \<^verbatim>\<open>init_router_list\<close>\<close>
  router_list_timer :: u32
  bm_timers :: "bm_callback timer_state"
  bm_sent :: "(int \<times> bytes) list"
  bm_closed :: "int list"
  bm_hung :: bool

text \<open>
  What comes from outside: the configuration, the clock, which sockets accept data, the exchange with the server, the XML
  parser and printer, and the content of memory that is not initialised.
\<close>

record bm_env =
  be_conf :: conf
  be_now :: tm
  be_sends :: "int \<Rightarrow> bool"
  be_short :: "int \<Rightarrow> nat option"                 \<comment> \<open>a socket whose buffer has room for this number of bytes and one more only\<close>
  be_exchange :: exchange
  be_xml :: "string \<Rightarrow> xml_node option option"    \<comment> \<open>\<^verbatim>\<open>xmlParseDoc\<close> and its root\<close>
  be_text :: text_reader
  be_prop :: "xml_node \<Rightarrow> string \<Rightarrow> string option"
  be_dump :: "xml_node \<Rightarrow> bytes"
  be_stack :: bytes
  be_heap :: "nat \<Rightarrow> u8"
  be_stale :: u32

section \<open>Sending to a module\<close>

text \<open>
  What \<^verbatim>\<open>send\<close> takes of the bytes offered to it: on a non-blocking socket it can be a first part.  The callers do not look at
  the number, so the rest is lost.
\<close>

definition accepted_part :: "bm_env \<Rightarrow> int \<Rightarrow> bytes \<Rightarrow> bytes" where
  "accepted_part e sock bs = (case be_short e sock of None \<Rightarrow> bs | Some n \<Rightarrow> take (Suc n) bs)"

definition send_pkt :: "bm_env \<Rightarrow> int \<Rightarrow> bytes \<Rightarrow> bm \<Rightarrow> int \<times> bm" where
  "send_pkt e sock bs s =
     (if sock = 0 then (-1, s)
      else if \<not> be_sends e sock then (-1, s)
      else if bs = [] then (-2, s)
      else (int (length (accepted_part e sock bs)), s\<lparr>bm_sent := bm_sent s @ [(sock, accepted_part e sock bs)]\<rparr>))"

text \<open>The message about a module that has not registered names it, which is outside the names for an unknown number.\<close>

definition send_message_to_module :: "bm_env \<Rightarrow> int \<Rightarrow> nat \<Rightarrow> bytes \<Rightarrow> int \<Rightarrow> bm \<Rightarrow> (int \<times> bm) res" where
  "send_message_to_module e m ty data len s =
     (case find_register_table_by_id m (bm_mods s) of
        None \<Rightarrow> if m < 0 \<or> nat m \<ge> length modlist then Err OutOfBounds else Ok (-1, s)
      | Some r \<Rightarrow>
          if len < 0 \<or> nat len > length data then Err OutOfBounds
          else Ok (send_pkt e (m_sockfd r) (packet_header ty PMA_VERSION (HEADER_LEN + nat len) 0x123456 @ take (nat len) data) s))"

definition ICM_CONF :: nat where "ICM_CONF = 55"
definition DBM_CONF :: nat where "DBM_CONF = 56"
definition PEM_CONF :: nat where "PEM_CONF = 57"

definition ic_conf_bytes :: "ic_conf \<Rightarrow> bytes" where
  "ic_conf_bytes c = concat (map enc32 [ic_router_ip c, ic_local_ip c, ic_hello_ip c, ic_netmask c, ic_outside c, ic_device_type c, ic_pma_id c,
     ic_if_id c, h_hello_val c, h_dead_val c, l_hello_val c, l_dead_val c])"

definition dbm_conf_bytes :: "dbm_conf \<Rightarrow> bytes" where
  "dbm_conf_bytes c = concat (map enc32 [snapshoot_timeval c, policy_type c, db_pma_id c, db_router_id c])"

definition pea_conf_bytes :: "pea_conf \<Rightarrow> bytes" where
  "pea_conf_bytes c = concat (map enc32 [pe_router_ip c, pe_pma_id c, fast_mpls c, pe_device_type c])"

text \<open>For a module without a configuration the type and the length of the packet are not initialised.\<close>

definition send_config_to_module :: "bm_env \<Rightarrow> int \<Rightarrow> bm \<Rightarrow> (int \<times> bm) res" where
  "send_config_to_module e m s =
     (case find_register_table_by_id m (bm_mods s) of
        None \<Rightarrow> Ok (-1, s)
      | Some r \<Rightarrow>
          (let send = (\<lambda>ty bs. Ok (0, snd (send_pkt e (m_sockfd r) (packet_header ty PMA_VERSION (HEADER_LEN + length bs) 12345 @ bs) s)))
           in if m = ICM then send ICM_CONF (ic_conf_bytes (ic_config (be_conf e)))
              else if m = DBM then send DBM_CONF (dbm_conf_bytes (dbm_config (be_conf e)))
              else if m = PEM then send PEM_CONF (pea_conf_bytes (pea_config (be_conf e)))
              else Err UninitPointer))"

section \<open>The list of agents\<close>

definition find_router_by_id :: "u32 \<Rightarrow> router_list list \<Rightarrow> nat option" where
  "find_router_by_id i rs = find_index (\<lambda>r. rl_devid r = i) rs"

text \<open>A known agent only gets a new address; a new one is put at the front.\<close>

definition insert_router_list :: "u32 \<Rightarrow> u32 \<Rightarrow> u32 \<Rightarrow> router_list list \<Rightarrow> router_list list" where
  "insert_router_list devid rid ip rs =
     (case find_router_by_id devid rs of
        None \<Rightarrow> \<lparr>rl_devid = devid, rl_rid = rid, rl_ip = ip\<rparr> # rs
      | Some i \<Rightarrow> rs[i := (rs ! i)\<lparr>rl_ip := ip\<rparr>])"

definition router_bytes :: "router_list \<Rightarrow> bytes" where
  "router_bytes r = enc32 (rl_devid r) @ enc32 (rl_rid r) @ enc32 (rl_ip r)"

definition ROUTER_BUFF :: nat where "ROUTER_BUFF = 1024"

text \<open>The entries are written to 1024 bytes, then copied.\<close>

definition save_router_list_to_xml :: "bm \<Rightarrow> (int \<times> bm) res" where
  "save_router_list_to_xml s =
     (case rList s of
        None \<Rightarrow> Ok (-1, s)
      | Some rs \<Rightarrow>
          (let bs = concat (map router_bytes rs)
           in if length bs > ROUTER_BUFF \<or> length bs > MAXBUF then Err OutOfBounds else Ok (0, s\<lparr>pma_buff := bs\<rparr>)))"

definition PMA_LIST :: nat where "PMA_LIST = 54"
definition POLICY_LIST :: nat where "POLICY_LIST = 51"

definition send_router_list_to_ic :: "bm_env \<Rightarrow> bm \<Rightarrow> (int \<times> bm) res" where
  "send_router_list_to_ic e s =
     res_bind (save_router_list_to_xml s) (\<lambda>(ret, s).
       if ret = -1 then Ok (-1, s)
       else res_bind (send_message_to_module e ICM PMA_LIST (pma_buff s) (int (length (pma_buff s))) s) (\<lambda>(_, s).
         res_map (\<lambda>(_, ts). (0, s\<lparr>bm_timers := ts, router_list_timer := -1\<rparr>)) (unset_timer (router_list_timer s) (bm_timers s))))"

text \<open>
  \<^verbatim>\<open>process_neighbor_list\<close>: one entry for each element \<^verbatim>\<open>PMA\<close>.  The two addresses are variables of the function: an element
  that does not give one has that of an element before it.
\<close>

definition pma_child :: "text_reader \<Rightarrow> xml_node \<Rightarrow> u32 \<times> u32 \<Rightarrow> (u32 \<times> u32) res" where
  "pma_child nls n = (\<lambda>(router_addr, ctl_addr).
     if node_name n = ''router_id'' then
       (case nls (node_children n) of None \<Rightarrow> Err NullDeref
        | Some t \<Rightarrow> Ok (case inet_pton t of None \<Rightarrow> router_addr | Some w \<Rightarrow> w, ctl_addr))
     else if node_name n = ''agent_control_ip'' then
       (case nls (node_children n) of None \<Rightarrow> Err NullDeref
        | Some t \<Rightarrow> Ok (router_addr, case inet_pton t of None \<Rightarrow> ctl_addr | Some w \<Rightarrow> w))
     else Ok (router_addr, ctl_addr))"

definition pma_node :: "bm_env \<Rightarrow> xml_node \<Rightarrow> (u32 \<times> u32) \<times> router_list list \<Rightarrow> ((u32 \<times> u32) \<times> router_list list) res" where
  "pma_node e n = (\<lambda>(addrs, rs).
     if node_name n = ''timestamp'' then Ok (addrs, rs)
     else if node_name n = ''PMA'' then
       res_bind (strtol_ptr (be_prop e n ''id'')) (\<lambda>i.
         res_map (\<lambda>(ra, ca). ((ra, ca), insert_router_list (u32_of_int i) ra ca rs))
           (res_for (pma_child (be_text e)) (node_children n) addrs))
     else Ok (addrs, rs))"

definition process_neighbor_list :: "bm_env \<Rightarrow> string \<Rightarrow> bm \<Rightarrow> bm res" where
  "process_neighbor_list e xml s =
     (let s = (if rList s = None then s\<lparr>rList := Some []\<rparr> else s)
      in case be_xml e xml of
           None \<Rightarrow> Ok s
         | Some None \<Rightarrow> Ok s
         | Some (Some root) \<Rightarrow>
             res_bind (res_for (pma_node e) (node_children root) ((be_stale e, be_stale e), the (rList s))) (\<lambda>(_, rs).
               let s = s\<lparr>rList := Some rs\<rparr>
               in if router_list_timer s = -1
                  then (let (tid, ts) = set_timer True True 5 Send_router_list_to_ic None 0 (bm_timers s)
                        in Ok (s\<lparr>bm_timers := ts, router_list_timer := tid\<rparr>))
                  else res_map (\<lambda>(_, ts). s\<lparr>bm_timers := ts\<rparr>) (update_timer (router_list_timer s) (bm_timers s))))"

section \<open>Packets of the modules\<close>

definition MODREG :: nat where "MODREG = 1"
definition ACK :: nat where "ACK = 4"
definition RESPONSE_LEN :: nat where "RESPONSE_LEN = 108"

text \<open>
  \<^verbatim>\<open>pack_response_message\<close>: the number of the module, a zero, and the agent's number as text in a field of 100 bytes whose
  rest, like the checksum, is what the memory held.
\<close>

definition text_bytes :: "string \<Rightarrow> bytes" where
  "text_bytes t = map (\<lambda>c. word_of_nat (of_char c)) t"

definition bytes_text :: "bytes \<Rightarrow> string" where
  "bytes_text bs = map (\<lambda>b. char_of (unat b)) (takeWhile (\<lambda>b. b \<noteq> 0) bs)"

definition pack_response_message :: "(nat \<Rightarrow> u8) \<Rightarrow> u32 \<Rightarrow> u32 \<Rightarrow> u32 \<Rightarrow> string \<Rightarrow> bytes res" where
  "pack_response_message heap junk des ret info =
     (if length info \<ge> 100 then Err OutOfBounds
      else Ok (packet_header ACK PMA_VERSION (HEADER_LEN + RESPONSE_LEN) junk @ enc32 des @ enc32 ret @ text_bytes info @ [0] @ map heap [length info + 1 ..< 100]))"

text \<open>A registration: the answer, the configuration, and what was kept for the module.\<close>

definition after_register :: "bm_env \<Rightarrow> int \<Rightarrow> bool \<Rightarrow> bm \<Rightarrow> (int \<times> bm) res" where
  "after_register e m already s =
     (let s = (if (m = ICM \<or> m = DBM \<or> m = PEM) \<and> \<not> already then s\<lparr>bm_status := bm_status s + 1\<rparr> else s)
      in if m = ICM then
           res_bind (save_router_list_to_xml s) (\<lambda>(_, s).
             if pma_buff s \<noteq> [] then res_map (\<lambda>(_, s). (0, s)) (send_message_to_module e ICM PMA_LIST (pma_buff s) (int (length (pma_buff s))) s)
             else Ok (0, s))
         else if m = DBM then
           res_map (\<lambda>(_, s). (0, s))
             (send_message_to_module e DBM POLICY_LIST (xml_policy_buff (bm_pms s)) (int (length (xml_policy_buff (bm_pms s)))) s)
         else Ok (0, s))"

definition handle_local_module_register :: "bm_env \<Rightarrow> bytes \<Rightarrow> int \<Rightarrow> bm \<Rightarrow> (int \<times> bm) res" where
  "handle_local_module_register e pkt fd s =
     res_bind (rd32 pkt HEADER_LEN) (\<lambda>w.
       let m = int_of_u32 w
       in res_bind (insert_register_table (be_now e) m fd (bm_mods s)) (\<lambda>(already, t).
            let s = s\<lparr>bm_mods := t\<rparr>
            in res_bind (pack_response_message (be_heap e) (be_stale e) w 0 (dec_int (int_of_u32 (pma_id (be_conf e))))) (\<lambda>resp.
                 let (ret, s) = send_pkt e fd resp s
                 in if ret < 0 then Ok (-1, s\<lparr>bm_closed := bm_closed s @ [fd]\<rparr>)
                    else res_bind (send_config_to_module e m s) (\<lambda>(_, s). after_register e m (already \<noteq> 0) s))))"

text \<open>The data of a packet, and its length as the handlers compute it.\<close>

definition pkt_data :: "bytes \<Rightarrow> bytes" where "pkt_data pkt = drop HEADER_LEN pkt"
definition pkt_data_len :: "bytes \<Rightarrow> int" where "pkt_data_len pkt = int (pkt_len pkt) - int HEADER_LEN"

definition forward_to_module :: "bm_env \<Rightarrow> int \<Rightarrow> nat \<Rightarrow> bytes \<Rightarrow> bm \<Rightarrow> (int \<times> bm) res" where
  "forward_to_module e m ty pkt s = send_message_to_module e m ty (pkt_data pkt) (pkt_data_len pkt) s"

definition to_pms :: "bm_env \<Rightarrow> int \<Rightarrow> bytes \<Rightarrow> u32 \<Rightarrow> bm \<Rightarrow> (int \<times> bm) res" where
  "to_pms e ty data len s =
     res_map (\<lambda>(ret, ps). case ret of None \<Rightarrow> (0, s\<lparr>bm_pms := ps, bm_hung := True\<rparr>) | Some r \<Rightarrow> (r, s\<lparr>bm_pms := ps\<rparr>))
       (send_message_to_pms (be_heap e) (be_stale e) (be_conf e) (be_exchange e) (server_ip (be_conf e)) (server_port (be_conf e)) ty (Some data) len (bm_pms s))"

definition forward_to_pms :: "bm_env \<Rightarrow> int \<Rightarrow> bytes \<Rightarrow> bm \<Rightarrow> (int \<times> bm) res" where
  "forward_to_pms e ty pkt s = to_pms e ty (pkt_data pkt) (u32_of_int (pkt_data_len pkt)) s"

text \<open>The routing table is sent as a document with the agent's number and the time.\<close>

definition save_router_table_to_xml :: "bm_env \<Rightarrow> string \<Rightarrow> xml_node" where
  "save_router_table_to_xml e rtable =
     elem ''SNAPSHOT'' [XmlNode ''ROUTER'' [(''id'', dec_int (int_of_u32 (pma_id (be_conf e))))]
       [elem ''timestamp'' [text_node (PRINTTIME (be_now e))], elem ''LSDB'' [], elem ''Routing_table'' [elem ''IPV4'' [text_node rtable]]] []]"

definition OPS_PMA_ROUTING_TABLE :: int where "OPS_PMA_ROUTING_TABLE = 79"
definition OPS_PMA_LINKSTATE :: int where "OPS_PMA_LINKSTATE = 78"
definition OPS_PMA_DEVICE_INFO :: int where "OPS_PMA_DEVICE_INFO = 5"
definition OPS_PMA_OSPF_INTERFACE_INFO :: int where "OPS_PMA_OSPF_INTERFACE_INFO = 9"
definition OPS_PMA_BGP_INTERFACE_INFO :: int where "OPS_PMA_BGP_INTERFACE_INFO = 12"
definition OPS_PMA_TRAFFIC_INFO :: int where "OPS_PMA_TRAFFIC_INFO = 14"

definition handle_route_table_ic_to_pms :: "bm_env \<Rightarrow> bytes \<Rightarrow> bm \<Rightarrow> (int \<times> bm) res" where
  "handle_route_table_ic_to_pms e pkt s =
     (if pkt_data_len pkt < 0 \<or> nat (pkt_data_len pkt) > length (pkt_data pkt) then Err OutOfBounds
      else (let buff = be_dump e (save_router_table_to_xml e (bytes_text (take (nat (pkt_data_len pkt)) (pkt_data pkt))))
            in to_pms e OPS_PMA_ROUTING_TABLE buff (word_of_nat (length (takeWhile (\<lambda>b. b \<noteq> 0) buff))) s))"

datatype bm_handler = Module_register | Lsdb_snapshoot_to_pms | Network_info_to_pms | Add_lsa_to_dbm | Update_lsa_to_dbm | Add_route_to_pms
  | Ospf_spf_to_dbm | Policy_to_pea | Route_table_to_pms | Device_info_to_pms | Ospf_interface_to_pms | Bgp_interface_to_pms | Traffice_to_pms | Bgp_path_to_pms

definition OSPF_SPF :: nat where "OSPF_SPF = 31"
definition POLICY_INFO :: nat where "POLICY_INFO = 231"

definition module_handle :: "(int \<times> bm_handler) list" where
  "module_handle = [(1, Module_register), (22, Lsdb_snapshoot_to_pms), (21, Network_info_to_pms), (11, Add_lsa_to_dbm), (12, Update_lsa_to_dbm),
     (13, Add_route_to_pms), (31, Ospf_spf_to_dbm), (231, Policy_to_pea), (16, Route_table_to_pms), (15, Device_info_to_pms),
     (18, Ospf_interface_to_pms), (19, Bgp_interface_to_pms), (17, Traffice_to_pms), (20, Bgp_path_to_pms)]"

definition call_module_handler :: "bm_env \<Rightarrow> bytes \<Rightarrow> int \<Rightarrow> bm_handler \<Rightarrow> bm \<Rightarrow> (int \<times> bm) res" where
  "call_module_handler e pkt fd h s =
     (case h of
        Module_register \<Rightarrow> handle_local_module_register e pkt fd s
      | Lsdb_snapshoot_to_pms \<Rightarrow> forward_to_pms e OPS_PMA_LINKSTATE pkt s
      | Network_info_to_pms \<Rightarrow> Ok (0, s)
      | Add_lsa_to_dbm \<Rightarrow> forward_to_module e DBM (pkt_type pkt) pkt s
      | Update_lsa_to_dbm \<Rightarrow> forward_to_module e DBM (pkt_type pkt) pkt s
      | Add_route_to_pms \<Rightarrow> Ok (0, s)
      | Ospf_spf_to_dbm \<Rightarrow> forward_to_module e DBM OSPF_SPF pkt s
      | Policy_to_pea \<Rightarrow> forward_to_module e PEM (pkt_type pkt) pkt s
      | Route_table_to_pms \<Rightarrow> handle_route_table_ic_to_pms e pkt s
      | Device_info_to_pms \<Rightarrow> forward_to_pms e OPS_PMA_DEVICE_INFO pkt s
      | Ospf_interface_to_pms \<Rightarrow> forward_to_pms e OPS_PMA_OSPF_INTERFACE_INFO pkt s
      | Bgp_interface_to_pms \<Rightarrow> forward_to_pms e OPS_PMA_BGP_INTERFACE_INFO pkt s
      | Traffice_to_pms \<Rightarrow> forward_to_pms e OPS_PMA_TRAFFIC_INFO pkt s
      | Bgp_path_to_pms \<Rightarrow> forward_to_pms e OPS_PMA_ROUTING_TABLE pkt s)"

text \<open>Until two modules have registered every packet but a registration is dropped.\<close>

definition basemodule_check_status :: "bm \<Rightarrow> bool" where
  "basemodule_check_status s \<longleftrightarrow> bm_status s > 1"

definition module_data_handle :: "bm_env \<Rightarrow> bytes \<Rightarrow> int \<Rightarrow> bm \<Rightarrow> bm res" where
  "module_data_handle e pkt fd s =
     (if \<not> basemodule_check_status s \<and> pkt_type pkt \<noteq> MODREG then Ok s
      else res_bind (add_ctls (new_ctl 1024) module_handle) (\<lambda>c.
        res_map snd (run_ctl (call_module_handler e pkt fd) c (int (pkt_type pkt)) s)))"

section \<open>The reader of a local connection\<close>

text \<open>
  \<^verbatim>\<open>child_process\<close>: packets are read until nothing is there.  The data are stored behind as many bytes as the read of the
  header returned.  A packet longer than the limit, or one whose rest is not there yet, ends the function.
\<close>

function child_process :: "bm_env \<Rightarrow> int \<Rightarrow> arrival list \<Rightarrow> bm \<Rightarrow> (bm \<times> arrival list) res" where
  "child_process e fd as s =
     (if fd \<le> 0 then Ok (s, as)
      else case sock_read HEADER_LEN as of
        (Bytes bs, as1) \<Rightarrow>
          (let header = header_after (be_stack e) bs; n = pkt_len header
           in if n > MAXBUF + HEADER_LEN then Ok (s, as1)
              else res_bind (alloc_packet (be_heap e) header) (\<lambda>pkt.
                case read_body (n - HEADER_LEN) [] as1 of
                  (Complete b, as2) \<Rightarrow>
                    res_bind (module_data_handle e (take (length bs) pkt @ b @ drop (length bs + length b) pkt) fd s) (\<lambda>s.
                      if bm_hung s then Ok (s, as2) else child_process e fd as2 s)
                | (Forgotten, as2) \<Rightarrow> Ok (s, as2)
                | (Shut, as2) \<Rightarrow> Ok (s\<lparr>bm_closed := bm_closed s @ [fd]\<rparr>, as2)))
      | (_, as1) \<Rightarrow> Ok (s, as1))"
  by auto

termination child_process
proof (relation "measure (\<lambda>(_, _, as, _). length (arriving as))")
  fix e :: bm_env and fd :: int and as as1 as2 :: "arrival list" and s sa :: bm and r bs header n pkt rb b
  assume r: "(r, as1) = sock_read HEADER_LEN as" "r = Bytes bs"
    and rb: "(rb, as2) = read_body (n - HEADER_LEN) [] as1" "rb = Complete b"
  have "bs \<noteq> []" "arriving as = bs @ arriving as1" using r sock_read_some [of HEADER_LEN as bs as1] by (simp_all add: HEADER_LEN_def)
  moreover obtain cs where "arriving as1 = cs @ arriving as2" using rb read_body_arriving [of "n - HEADER_LEN" "[]" as1 b as2] by auto
  ultimately show "((e, fd, as2, sa), e, fd, as, s) \<in> measure (\<lambda>(_, _, as, _). length (arriving as))" by simp
qed simp

declare child_process.simps [simp del]

section \<open>Packets of the server\<close>

text \<open>
  The acknowledgement; its device type is not in network order.  The function returns 0 on success, and the handlers turn
  this into -1.
\<close>

definition send_ack_to_pms :: "bm_env \<Rightarrow> string \<Rightarrow> int \<Rightarrow> bm \<Rightarrow> int \<times> bm" where
  "send_ack_to_pms e ip fd s =
     (let ack = word_of_nat 18 # ucast (conf_version (be_conf e)) # enc16 DEVICETYPE_APP_BM @ htonl_bytes 20 @ htonl_bytes (pma_id (be_conf e)) @
                enc32 (pma_addr (bm_pms s)) @ enc32 (case inet_pton ip of None \<Rightarrow> be_stale e | Some w \<Rightarrow> w)
      in if be_sends e fd then (0, s\<lparr>bm_sent := bm_sent s @ [(fd, accepted_part e fd ack)]\<rparr>) else (-1, s))"

definition answered :: "int \<times> bm \<Rightarrow> int \<times> bm" where
  "answered = (\<lambda>(ret, s). (if ret \<noteq> 0 then 0 else -1, s))"

datatype up_handler = Policy_send | Mari_send | Neighbor_list | Tun_command | Trans_message

definition upload_handle :: "(int \<times> up_handler) list" where
  "upload_handle = [(17, Policy_send), (142, Mari_send), (16, Neighbor_list), (40, Tun_command), (6, Trans_message), (7, Trans_message),
     (10, Trans_message), (13, Trans_message), (71, Trans_message), (72, Trans_message), (73, Trans_message), (77, Trans_message), (7, Trans_message), (15, Trans_message)]"

definition BGP_MRAI :: nat where "BGP_MRAI = 60"
definition TC_TUNNEL_COMMAND :: nat where "TC_TUNNEL_COMMAND = 61"

definition pms_to_module :: "bm_env \<Rightarrow> int \<Rightarrow> nat \<Rightarrow> pms_packet \<Rightarrow> bm \<Rightarrow> (int \<times> bm) res" where
  "pms_to_module e m ty p s =
     res_map (\<lambda>(_, s). answered (send_ack_to_pms e (p_ip p) (p_sock p) s))
       (send_message_to_module e m ty (drop PMS_HEADER (p_mem p)) (int_of_u32 (p_len p - word_of_nat PMS_HEADER)) s)"

definition handle_ops_pms_neighbor_list :: "bm_env \<Rightarrow> pms_packet \<Rightarrow> bm \<Rightarrow> (int \<times> bm) res" where
  "handle_ops_pms_neighbor_list e p s =
     (if 0 \<notin> set (drop PMS_HEADER (p_mem p)) then Err OutOfBounds
      else res_map (\<lambda>s. answered (send_ack_to_pms e (p_ip p) (p_sock p) s))
        (process_neighbor_list e (bytes_text (drop PMS_HEADER (p_mem p))) s))"

definition ENORMERR :: int where "ENORMERR = -1"

definition handle_trans_message :: "bm_env \<Rightarrow> pms_packet \<Rightarrow> bm \<Rightarrow> (int \<times> bm) res" where
  "handle_trans_message e p s =
     (let len = p_len p - word_of_nat COMMON_HEADER
      in if len = 0 then Ok (ENORMERR, s)
         else res_map (\<lambda>(_, s). (0, s)) (to_pms e (p_type p) (drop COMMON_HEADER (p_mem p)) len s))"

definition call_up_handler :: "bm_env \<Rightarrow> pms_packet \<Rightarrow> up_handler \<Rightarrow> bm \<Rightarrow> (int \<times> bm) res" where
  "call_up_handler e p h s =
     (case h of
        Policy_send \<Rightarrow> pms_to_module e DBM POLICY_LIST p s
      | Mari_send \<Rightarrow> pms_to_module e PEM BGP_MRAI p s
      | Tun_command \<Rightarrow> pms_to_module e PEM TC_TUNNEL_COMMAND p s
      | Neighbor_list \<Rightarrow> handle_ops_pms_neighbor_list e p s
      | Trans_message \<Rightarrow> handle_trans_message e p s)"

definition EXT_MAXBUF :: nat where "EXT_MAXBUF = 51200"

text \<open>\<^verbatim>\<open>packet_handle\<close>, the thread of a connection from the server at \<open>ip\<close>; it may wait for ever.\<close>

definition packet_handle :: "bm_env \<Rightarrow> string \<Rightarrow> u32 \<Rightarrow> int \<Rightarrow> arrival list \<Rightarrow> bm \<Rightarrow> bm option res" where
  "packet_handle e ip port fd as s =
     res_bind (recv_first EXT_MAXBUF as) (\<lambda>(r, _).
       case r of
         Gone \<Rightarrow> Ok (Some (s\<lparr>bm_closed := bm_closed s @ [fd]\<rparr>))
       | Stuck \<Rightarrow> Ok None
       | Got mem len \<Rightarrow>
           res_bind (add_ctls (new_ctl 1024) upload_handle) (\<lambda>c.
             res_map (\<lambda>(_, s). if bm_hung s then None else Some (s\<lparr>bm_closed := bm_closed s @ [fd]\<rparr>))
               (run_ctl (call_up_handler e \<lparr>p_ip = ip, p_port = port, p_sock = fd, p_len = len, p_type = int (unat (mem ! 0)), p_mem = mem, p_data = 0, p_end = unat len\<rparr>)
                 c (int (unat (mem ! 0))) s)))"

end
