(* ===== verification/Base_Props.thy ===== *)
theory Base_Props
  imports Base_Module
begin

text \<open>
  What the base module does with the packets it receives: those of a local connection are handled one after the other as
  they were sent, those of the server reach the module they are for, and the count of registered modules is right.
\<close>

section \<open>Dispatch\<close>

lemma unat_u8: "unat (w :: u8) < 256"
  using unsigned_less [of w] by simp

lemma module_dispatch:
  "module_data_handle e pkt fd s =
    (if \<not> basemodule_check_status s \<and> pkt_type pkt \<noteq> MODREG then Ok s
     else case map_of (rev module_handle) (int (pkt_type pkt)) of None \<Rightarrow> Ok s | Some h \<Rightarrow> res_map snd (call_module_handler e pkt fd h s))"
proof -
  have "pkt_type pkt < 256" by (simp add: pkt_type_def unat_u8)
  then have ne: "int (pkt_type pkt) \<noteq> 1024" by simp
  obtain c where "add_ctls (new_ctl 1024) module_handle = Ok c"
      "run_ctl (call_module_handler e pkt fd) c (int (pkt_type pkt)) s =
        (case map_of (rev module_handle) (int (pkt_type pkt)) of None \<Rightarrow> Ok (-1, s) | Some f \<Rightarrow> call_module_handler e pkt fd f s)"
    using new_ctl_dispatch [OF _ _ ne, of module_handle "call_module_handler e pkt fd" s] by (auto simp: module_handle_def)
  then show ?thesis by (auto simp: module_data_handle_def split: option.splits)
qed

lemma upload_dispatch:
  "packet_handle e ip port fd as s =
    res_bind (recv_first EXT_MAXBUF as) (\<lambda>(r, _).
       case r of
         Gone \<Rightarrow> Ok (Some (s\<lparr>bm_closed := bm_closed s @ [fd]\<rparr>))
       | Stuck \<Rightarrow> Ok None
       | Got mem len \<Rightarrow>
           (let p = \<lparr>p_ip = ip, p_port = port, p_sock = fd, p_len = len, p_type = int (unat (mem ! 0)), p_mem = mem, p_data = 0, p_end = unat len\<rparr>
            in res_map (\<lambda>s. if bm_hung s then None else Some (s\<lparr>bm_closed := bm_closed s @ [fd]\<rparr>))
              (case map_of (rev upload_handle) (int (unat (mem ! 0))) of None \<Rightarrow> Ok s | Some h \<Rightarrow> res_map snd (call_up_handler e p h s))))"
proof -
  have key: "res_bind (add_ctls (new_ctl 1024) upload_handle) (\<lambda>c. res_map (\<lambda>(_, s). if bm_hung s then None else Some (s\<lparr>bm_closed := bm_closed s @ [fd]\<rparr>)) (run_ctl (call_up_handler e p) c (int (unat (b :: u8))) s)) =
      res_map (\<lambda>s. if bm_hung s then None else Some (s\<lparr>bm_closed := bm_closed s @ [fd]\<rparr>))
        (case map_of (rev upload_handle) (int (unat b)) of None \<Rightarrow> Ok s | Some h \<Rightarrow> res_map snd (call_up_handler e p h s))" for p b
  proof -
    have ne: "int (unat b) \<noteq> 1024" using unat_u8 [of b] by linarith
    obtain c where "add_ctls (new_ctl 1024) upload_handle = Ok c"
        "run_ctl (call_up_handler e p) c (int (unat b)) s = (case map_of (rev upload_handle) (int (unat b)) of None \<Rightarrow> Ok (-1, s) | Some f \<Rightarrow> call_up_handler e p f s)"
      using new_ctl_dispatch [OF _ _ ne, of upload_handle "call_up_handler e p" s] by (auto simp: upload_handle_def)
    moreover have "res_map (\<lambda>(_, s). g s) r = res_map g (res_map snd r)" for g :: "bm \<Rightarrow> bm option" and r :: "(int \<times> bm) res" by (cases r) auto
    ultimately show ?thesis by (simp split: option.split)
  qed
  show ?thesis by (simp only: packet_handle_def Let_def key)
qed

section \<open>Packets in order\<close>

text \<open>The packet as the base module holds it: the checksum is what the memory held.\<close>

definition heap_word :: "bm_env \<Rightarrow> u32" where
  "heap_word e = of_octets (unat (be_heap e 4)) (unat (be_heap e 5)) (unat (be_heap e 6)) (unat (be_heap e 7))"

lemma enc32_heap: "enc32 (heap_word e) = map (be_heap e) [4 ..< 8]"
proof -
  have "[4 ..< 8] = [4, 5, 6, 7 :: nat]" by (simp add: upt_rec)
  then show ?thesis by (simp add: enc32_def heap_word_def octet_of_octets unat_u8 del: One_nat_def)
qed

fun handle_all :: "bm_env \<Rightarrow> int \<Rightarrow> (nat \<times> bytes) list \<Rightarrow> bm \<Rightarrow> bm res" where
  "handle_all e fd [] s = Ok s"
| "handle_all e fd ((ty, data) # ms) s =
     res_bind (module_data_handle e (packet ty (heap_word e) data) fd s) (\<lambda>s. if bm_hung s then Ok s else handle_all e fd ms s)"

text \<open>Every read of a header returns the whole header.\<close>

fun undivided :: "nat list \<Rightarrow> arrival list \<Rightarrow> bool" where
  "undivided [] as = True"
| "undivided (n # ns) as =
     (case sock_read HEADER_LEN as of
        (Bytes bs, as1) \<Rightarrow> length bs = HEADER_LEN \<and> undivided ns (snd (read_body n [] as1))
      | _ \<Rightarrow> False)"

lemma child_process_packet:
  assumes fd: "0 < fd" and as: "steady as" "arriving as = packet ty c data @ rest" and hd: "sock_read HEADER_LEN as = (Bytes bs, as1)" "length bs = HEADER_LEN"
    and d: "length data \<le> MAXBUF"
  shows "\<exists>as2. read_body (length data) [] as1 = (Complete data, as2) \<and> steady as2 \<and> arriving as2 = rest \<and>
    child_process e fd as s = res_bind (module_data_handle e (packet ty (heap_word e) data) fd s) (\<lambda>s. if bm_hung s then Ok (s, as2) else child_process e fd as2 s)"
proof -
  let ?h = "packet_header ty PMA_VERSION (HEADER_LEN + length data) c"
  note rd = sock_read_some [OF hd(1)]
  have bs: "bs = ?h" "arriving as1 = data @ rest" "steady as1"
    using rd(3,4) as hd(2) by (simp_all add: HEADER_LEN_def packet_def append_eq_append_conv)
  obtain as2 where as2: "read_body (length data) [] as1 = (Complete data, as2)" "steady as2" "arriving as2 = rest"
    using read_body_whole [OF bs(3,2), of "[]"] by auto
  have h: "header_after (be_stack e) bs = bs @ drop 8 (be_stack e)" by (simp add: header_after_def bs(1))
  have n: "pkt_len (header_after (be_stack e) bs) = 8 + length data"
    using d unfolding h unfolding bs(1) pkt_len_header by (simp add: HEADER_LEN_def MAXBUF_def)
  have four: "take 4 (header_after (be_stack e) bs) = take 4 ?h" unfolding h unfolding bs(1) by simp
  define pkt where "pkt = take 4 ?h @ map (be_heap e) [4 ..< 8 + length data]"
  have alloc: "alloc_packet (be_heap e) (header_after (be_stack e) bs) = Ok pkt" by (simp add: alloc_packet_def n four pkt_def)
  have "[4 ..< 8 + length data] = [4 ..< 8] @ [8 ..< 8 + length data]" by (rule upt_add_eq_append) simp
  then have "take 8 pkt @ data @ drop (8 + length data) pkt = take 4 ?h @ map (be_heap e) [4 ..< 8] @ data" by (simp add: pkt_def)
  also have "\<dots> = packet ty (heap_word e) data"
    unfolding enc32_heap [symmetric] by (simp add: packet_def packet_header_def enc16_def)
  finally have mem: "take (length bs) pkt @ data @ drop (length bs + length data) pkt = packet ty (heap_word e) data"
    using hd(2) by (simp add: HEADER_LEN_def)
  have "child_process e fd as s = res_bind (module_data_handle e (packet ty (heap_word e) data) fd s) (\<lambda>s. if bm_hung s then Ok (s, as2) else child_process e fd as2 s)"
    using fd d unfolding child_process.simps [of e fd as] hd(1)
    by (simp add: n alloc mem as2(1) HEADER_LEN_def MAXBUF_def Let_def)
  with as2 show ?thesis by blast
qed

text \<open>
  C11. The packets of a local connection, of at most 50000 bytes of data each.  When each header comes in one read and the data
  behind it in whatever parts but without a moment in which nothing is there, reading the connection is the same as handling
  the packets one after the other in the order in which they were sent, each with its type and its data.  (A divided header and
  a pause within a packet are misread by the code.)
\<close>

theorem local_packets_handled_in_order:
  assumes "0 < fd" "steady as" "arriving as = concat (map (\<lambda>(ty, c, data). packet ty c data) ms)" "undivided (map (\<lambda>(_, _, data). length data) ms) as"
    "\<forall>(ty, c, data) \<in> set ms. length data \<le> 50000"
  shows "res_map fst (child_process e fd as s) = handle_all e fd (map (\<lambda>(ty, c, data). (ty, data)) ms) s"
  using assms(2-)
proof (induction ms arbitrary: as s)
  case Nil
  have "sock_read HEADER_LEN as = (WouldBlock, [])" using sock_read_steady [OF Nil(1), of HEADER_LEN] Nil(2) sock_read_some(1,3) by (fastforce simp: HEADER_LEN_def)
  then show ?case using assms(1) by (simp add: child_process.simps)
next
  case (Cons m ms)
  obtain ty c data where m: "m = (ty, c, data)" by (metis prod_cases3)
  obtain bs as1 where hd: "sock_read HEADER_LEN as = (Bytes bs, as1)" "length bs = HEADER_LEN"
      "undivided (map (\<lambda>(_, _, data). length data) ms) (snd (read_body (length data) [] as1))"
    using Cons.prems(3) by (auto simp: m split: prod.splits read_result.splits)
  have d: "length data \<le> MAXBUF" using Cons.prems(4) by (auto simp: m MAXBUF_def)
  have arr: "arriving as = packet ty c data @ concat (map (\<lambda>(ty, c, data). packet ty c data) ms)" using Cons.prems(2) by (simp add: m)
  obtain as2 where as2: "read_body (length data) [] as1 = (Complete data, as2)" "steady as2" "arriving as2 = concat (map (\<lambda>(ty, c, data). packet ty c data) ms)"
      "child_process e fd as s = res_bind (module_data_handle e (packet ty (heap_word e) data) fd s) (\<lambda>s. if bm_hung s then Ok (s, as2) else child_process e fd as2 s)"
    using child_process_packet [OF assms(1) Cons.prems(1) arr hd(1,2) d] by blast
  have IH: "res_map fst (child_process e fd as2 s) = handle_all e fd (map (\<lambda>(ty, c, data). (ty, data)) ms) s" for s
    using Cons.IH [OF as2(2,3)] hd(3) as2(1) Cons.prems(4) by simp
  show ?case by (cases "module_data_handle e (packet ty (heap_word e) data) fd s") (simp_all add: m as2(4) IH)
qed

definition sample_env :: bm_env where
  "sample_env = \<lparr>be_conf = sample_conf, be_now = \<lparr>tm_year = 114, tm_mon = 5, tm_mday = 10, tm_hour = 12, tm_min = 0, tm_sec = 7\<rparr>,
     be_sends = (\<lambda>_. True), be_short = (\<lambda>_. None), be_exchange = sample_exchange, be_xml = (\<lambda>_. None), be_text = text_of, be_prop = (\<lambda>n k. map_of (node_props n) k),
     be_dump = (\<lambda>_. []), be_stack = replicate 8 0, be_heap = (\<lambda>_. 0), be_stale = 0\<rparr>"

definition init_bm :: bm where
  "init_bm = \<lparr>bm_mods = module_manager_init, bm_status = 0, bm_pms = \<lparr>pma_addr = 0, xml_policy_buff = [], pms_out = []\<rparr>, pma_buff = [], rList = None,
     router_list_timer = -1, bm_timers = timer_state_init, bm_sent = [], bm_closed = [], bm_hung = False\<rparr>"

theorem local_packets_handled_in_order_witness:
  "res_map fst (child_process sample_env 7 [Data (take 10 (packet 1 0 (enc32 2))), Data (drop 10 (packet 1 0 (enc32 2)) @ packet 11 9 [5])] init_bm) =
     handle_all sample_env 7 [(1, enc32 2), (11, [5])] init_bm"
proof -
  have whole: "undivided [4, 1] [Data (take 10 (packet 1 0 (enc32 2))), Data (drop 10 (packet 1 0 (enc32 2)) @ packet 11 9 [5])]" by code_simp
  show ?thesis
    using local_packets_handled_in_order [of 7 "[Data (take 10 (packet 1 0 (enc32 2))), Data (drop 10 (packet 1 0 (enc32 2)) @ packet 11 9 [5])]"
        "[(1, 0, enc32 2), (11, 9, [5])]" sample_env init_bm] whole
    by simp
qed

text \<open>A single packet that has arrived in one part.\<close>

lemma single_packet_handled:
  assumes "0 < fd" "length data \<le> 50000"
  shows "res_map fst (child_process e fd [Data (packet ty c data)] s) = module_data_handle e (packet ty (heap_word e) data) fd s"
proof -
  have hd: "sock_read HEADER_LEN [Data (packet ty c data)] = (Bytes (take 8 (packet ty c data)), if data = [] then [] else [Data (drop 8 (packet ty c data))])"
    by (simp add: HEADER_LEN_def packet_def) (auto simp: packet_header_def)
  obtain as2 where as2: "steady as2" "arriving as2 = []"
      "child_process e fd [Data (packet ty c data)] s =
        res_bind (module_data_handle e (packet ty (heap_word e) data) fd s) (\<lambda>s. if bm_hung s then Ok (s, as2) else child_process e fd as2 s)"
    using child_process_packet [OF assms(1) _ _ hd, of ty c data "[]" e s] assms(2) by (auto simp: HEADER_LEN_def MAXBUF_def)
  have "sock_read HEADER_LEN as2 = (WouldBlock, [])" using sock_read_steady [OF as2(1), of HEADER_LEN] as2(2) sock_read_some(1,3) by (fastforce simp: HEADER_LEN_def)
  then have "child_process e fd as2 s = Ok (s, [])" for s using assms(1) by (simp add: child_process.simps)
  then show ?thesis by (cases "module_data_handle e (packet ty (heap_word e) data) fd s") (simp_all add: as2(3))
qed

text \<open>
  A packet whose end is not there yet is forgotten, and the rest of it is left to be read as the header of the next one.
\<close>

lemma packet_in_parts_lost:
  assumes "0 < fd" "arriving as1 = []" "steady as1" "data = d1 @ d2" "d2 \<noteq> []" "length data \<le> 50000"
  shows "child_process e fd (Data (packet_header ty PMA_VERSION (8 + length data) c @ d1) # Again # Data d2 # as) s = Ok (s, Data d2 # as)"
proof -
  let ?h = "packet_header ty PMA_VERSION (8 + length data) c"
  have rd: "sock_read HEADER_LEN (Data (?h @ d1) # Again # Data d2 # as) = (Bytes ?h, if d1 = [] then Again # Data d2 # as else Data d1 # Again # Data d2 # as)"
    by (simp add: HEADER_LEN_def) (auto simp: packet_header_def)
  have "pkt_len (header_after (be_stack e) ?h) = 8 + length data"
    using assms(6) unfolding header_after_def pkt_len_header by simp
  moreover have "read_body (length data) [] (if d1 = [] then Again # Data d2 # as else Data d1 # Again # Data d2 # as) = (Forgotten, Data d2 # as)"
  proof (cases "d1 = []")
    case True
    then show ?thesis using assms(4,5) by (simp add: read_body.simps)
  next
    case False
    have pos: "0 < length data" using assms(4,5) by simp
    have "sock_read (length data) (Data d1 # Again # Data d2 # as) = (Bytes d1, Again # Data d2 # as)" using False assms(4) by simp
    from read_body_step [OF pos this, of "[]"] show ?thesis using False assms(4,5) by (simp add: read_body.simps [of "length d2"])
  qed
  ultimately show ?thesis
    using assms(1,6) unfolding child_process.simps [of e fd "Data (?h @ d1) # Again # Data d2 # as" s] rd by (simp add: alloc_packet_def HEADER_LEN_def MAXBUF_def Let_def)
qed

section \<open>The count of modules\<close>

text \<open>The modules that have registered, of the three whose number is counted.\<close>

definition registered :: "bm \<Rightarrow> int set" where
  "registered s = {m. m \<in> {ICM, DBM, PEM} \<and> find_register_table_by_id m (bm_mods s) \<noteq> None}"

definition counted :: "bool \<Rightarrow> bm \<Rightarrow> bool" where
  "counted good s \<longleftrightarrow> wf_table (bm_mods s) \<and> 0 \<le> bm_status s \<and> bm_status s \<le> int (card (registered s)) \<and> (good \<longrightarrow> bm_status s = int (card (registered s)))"

text \<open>Everything but a registration leaves the table and the count alone.\<close>

definition same_mods :: "bm \<Rightarrow> bm \<Rightarrow> bool" where
  "same_mods s s' \<longleftrightarrow> bm_mods s' = bm_mods s \<and> bm_status s' = bm_status s"

lemma same_mods_refl [simp]: "same_mods s s"
  by (simp add: same_mods_def)

lemma same_mods_trans: "same_mods s t \<Longrightarrow> same_mods t u \<Longrightarrow> same_mods s u"
  by (simp add: same_mods_def)

lemma same_mods_counted: "same_mods s s' \<Longrightarrow> counted g s' = counted g s"
  by (simp add: same_mods_def counted_def registered_def)

lemma same_mods_updates [simp]:
  "same_mods s (s\<lparr>bm_sent := a\<rparr>)" "same_mods s (s\<lparr>bm_closed := b\<rparr>)" "same_mods s (s\<lparr>bm_pms := c\<rparr>)" "same_mods s (s\<lparr>bm_pms := c, bm_hung := h\<rparr>)"
  "same_mods s (s\<lparr>pma_buff := d\<rparr>)" "same_mods s (s\<lparr>bm_timers := t, router_list_timer := r\<rparr>)" "same_mods s (s\<lparr>bm_timers := t\<rparr>)" "same_mods s (s\<lparr>rList := l\<rparr>)"
  by (simp_all add: same_mods_def)

lemma send_pkt_same: "same_mods s (snd (send_pkt e sock bs s))"
  by (simp add: send_pkt_def)

lemma to_module_same: "send_message_to_module e m ty data len s = Ok (r, s') \<Longrightarrow> same_mods s s'"
  using send_pkt_same by (auto simp: send_message_to_module_def split: option.splits if_splits) (metis snd_conv)+

lemma config_same: "send_config_to_module e m s = Ok (r, s') \<Longrightarrow> same_mods s s'"
  using send_pkt_same by (auto simp: send_config_to_module_def Let_def split: option.splits if_splits)

lemma to_pms_same:
  assumes "to_pms e ty data len s = Ok (r, s')"
  shows "same_mods s s'"
proof -
  obtain ret ps where "(r, s') = (case ret of None \<Rightarrow> (0, s\<lparr>bm_pms := ps, bm_hung := True\<rparr>) | Some r \<Rightarrow> (r, s\<lparr>bm_pms := ps\<rparr>))"
    using assms unfolding to_pms_def res_map_Ok_iff by fast
  then show ?thesis by (cases ret) simp_all
qed

lemma save_list_same: "save_router_list_to_xml s = Ok (r, s') \<Longrightarrow> same_mods s s'"
  by (auto simp: save_router_list_to_xml_def Let_def split: option.splits if_splits)

lemma route_table_same: "handle_route_table_ic_to_pms e pkt s = Ok (r, s') \<Longrightarrow> same_mods s s'"
  by (auto simp: handle_route_table_ic_to_pms_def Let_def intro: to_pms_same split: if_splits)

lemma router_list_same: "send_router_list_to_ic e s = Ok (r, s') \<Longrightarrow> same_mods s s'"
  by (auto simp: send_router_list_to_ic_def res_bind_Ok_iff res_map_Ok_iff same_mods_def split: if_splits dest!: save_list_same to_module_same)

lemma neighbor_list_same: "process_neighbor_list e xml s = Ok s' \<Longrightarrow> same_mods s s'"
  by (auto simp: process_neighbor_list_def Let_def same_mods_def res_bind_Ok_iff res_map_Ok_iff split: option.splits if_splits prod.splits)

lemma ack_same: "same_mods s (snd (send_ack_to_pms e ip fd s))"
  by (simp add: send_ack_to_pms_def Let_def)

lemma answered_same: "answered (send_ack_to_pms e ip fd t) = (r, s') \<Longrightarrow> same_mods t s'"
  using ack_same [of t e ip fd] by (auto simp: answered_def split: prod.splits)

lemma pms_to_module_same: "pms_to_module e m ty p s = Ok (r, s') \<Longrightarrow> same_mods s s'"
  by (auto simp: pms_to_module_def res_map_Ok_iff dest!: to_module_same answered_same [OF sym] intro: same_mods_trans)

lemma up_handler_same:
  assumes "call_up_handler e p h s = Ok (r, s')"
  shows "same_mods s s'"
proof (cases h)
  case Neighbor_list
  then obtain t where "process_neighbor_list e (bytes_text (drop PMS_HEADER (p_mem p))) s = Ok t" "answered (send_ack_to_pms e (p_ip p) (p_sock p) t) = (r, s')"
    using assms by (auto simp: call_up_handler_def handle_ops_pms_neighbor_list_def res_map_Ok_iff split: if_splits)
  then show ?thesis using neighbor_list_same answered_same same_mods_trans by blast
next
  case Trans_message
  then show ?thesis using assms by (auto simp: call_up_handler_def handle_trans_message_def Let_def res_map_Ok_iff split: if_splits dest: to_pms_same)
qed (use assms in \<open>auto simp: call_up_handler_def dest: pms_to_module_same\<close>)

lemma finite_registered [simp]: "finite (registered s)"
  by (rule finite_subset [of _ "{ICM, DBM, PEM}"]) (auto simp: registered_def)

text \<open>What a registration does to the table: nothing, or the module is in it and the result says whether it was before.\<close>

lemma insert_registered:
  assumes "wf_table (bm_mods s)" "insert_register_table now m fd (bm_mods s) = Ok (already, t)"
  shows "wf_table t \<and> (already \<noteq> 0 \<and> registered (s\<lparr>bm_mods := t\<rparr>) = registered s \<or>
    already = 0 \<and> registered (s\<lparr>bm_mods := t\<rparr>) = (if m \<in> {ICM, DBM, PEM} then insert m (registered s) else registered s) \<and> m \<notin> registered s)"
proof (cases "0 < m \<and> m < 6 \<and> 0 < fd")
  case True
  then obtain t' where t': "insert_register_table now m fd (bm_mods s) = Ok (if find_register_table_by_id m (bm_mods s) = None then 0 else 1, t')" "wf_table t'"
      "find_register_table_by_id m t' = Some \<lparr>m_id = m, m_sockfd = fd, m_info = get_now_time now\<rparr>"
      "\<forall>k. k \<noteq> m \<longrightarrow> find_register_table_by_id k t' = find_register_table_by_id k (bm_mods s)"
    using register_then_find [OF assms(1), of m fd now] by blast
  then have "t = t'" "already = (if find_register_table_by_id m (bm_mods s) = None then 0 else 1)" using assms(2) by auto
  moreover have "(find_register_table_by_id k t' \<noteq> None) = (k = m \<or> find_register_table_by_id k (bm_mods s) \<noteq> None)" for k using t'(3,4) by auto
  then have "registered (s\<lparr>bm_mods := t'\<rparr>) = {k. k \<in> {ICM, DBM, PEM} \<and> (k = m \<or> find_register_table_by_id k (bm_mods s) \<noteq> None)}"
    unfolding registered_def by simp
  ultimately show ?thesis using t'(2) by (cases "find_register_table_by_id m (bm_mods s) = None") (auto simp: registered_def)
next
  case False
  then have "already = -1 \<and> t = bm_mods s"
    using assms(2) by (auto simp: insert_register_table_def MAX_MODULE_NUM_def Let_def split: if_splits)
  then show ?thesis using assms(1) by simp
qed

lemma after_register_mods:
  assumes "after_register e m already s = Ok (r, s')"
  shows "same_mods (if (m = ICM \<or> m = DBM \<or> m = PEM) \<and> \<not> already then s\<lparr>bm_status := bm_status s + 1\<rparr> else s) s'"
proof -
  define s1 where "s1 = (if (m = ICM \<or> m = DBM \<or> m = PEM) \<and> \<not> already then s\<lparr>bm_status := bm_status s + 1\<rparr> else s)"
  consider s2 where "save_router_list_to_xml s1 = Ok s2" "snd s2 = s' \<or> (\<exists>x. send_message_to_module e ICM PMA_LIST (pma_buff (snd s2)) (int (length (pma_buff (snd s2)))) (snd s2) = Ok (x, s'))"
    | x where "send_message_to_module e DBM POLICY_LIST (xml_policy_buff (bm_pms s1)) (int (length (xml_policy_buff (bm_pms s1)))) s1 = Ok (x, s')"
    | "s' = s1"
    using assms unfolding after_register_def s1_def [symmetric] Let_def
    by (auto simp: res_bind_Ok_iff res_map_Ok_iff split: if_splits)
  then have "same_mods s1 s'"
  proof cases
    case (1 s2)
    then have "same_mods s1 (snd s2)" using save_list_same [of s1 "fst s2" "snd s2"] by simp
    then show ?thesis using 1(2) to_module_same same_mods_trans by blast
  qed (simp_all add: to_module_same)
  then show ?thesis by (simp only: s1_def)
qed

lemma register_counted:
  assumes "counted g s" "handle_local_module_register e pkt fd s = Ok (r, s')" "0 < fd" "g \<longrightarrow> be_sends e fd"
  shows "counted g s'"
proof -
  obtain w where "rd32 pkt HEADER_LEN = Ok w" using assms(2) by (auto simp: handle_local_module_register_def res_bind_Ok_iff)
  define m where "m = int_of_u32 w"
  obtain already t resp where ins: "insert_register_table (be_now e) m fd (bm_mods s) = Ok (already, t)"
      and resp: "pack_response_message (be_heap e) (be_stale e) w 0 (dec_int (int_of_u32 (pma_id (be_conf e)))) = Ok resp"
    using assms(2) \<open>rd32 pkt HEADER_LEN = Ok w\<close> by (auto simp: handle_local_module_register_def res_bind_Ok_iff Let_def m_def)
  define s1 where "s1 = s\<lparr>bm_mods := t\<rparr>"
  obtain ret s2 where send: "send_pkt e fd resp s1 = (ret, s2)" by (cases "send_pkt e fd resp s1")
  have same: "same_mods s1 s2" using send_pkt_same [of s1 e fd resp] send by simp
  have step: "(if ret < 0 then Ok (-1, s2\<lparr>bm_closed := bm_closed s2 @ [fd]\<rparr>)
      else res_bind (send_config_to_module e m s2) (\<lambda>(_, s). after_register e m (already \<noteq> 0) s)) = Ok (r, s')"
    using assms(2) \<open>rd32 pkt HEADER_LEN = Ok w\<close> ins resp send unfolding m_def s1_def
    by (simp add: handle_local_module_register_def Let_def)
  note reg = insert_registered [OF _ ins]
  have base: "wf_table (bm_mods s)" "0 \<le> bm_status s" "bm_status s \<le> int (card (registered s))" "g \<longrightarrow> bm_status s = int (card (registered s))"
    using assms(1) by (simp_all add: counted_def)
  have s1: "bm_status s1 = bm_status s" "bm_mods s1 = t" by (simp_all add: s1_def)
  have inserted: "wf_table (bm_mods s1)" "bm_status s1 = bm_status s"
      "card (registered s1) = (if (m = ICM \<or> m = DBM \<or> m = PEM) \<and> already = 0 then Suc (card (registered s)) else card (registered s))"
    using reg [OF base(1)] unfolding s1_def [symmetric] by (auto simp: s1)
  show ?thesis
  proof (cases "ret < 0")
    case True
    have "\<not> g" using True send assms(3,4) by (auto simp: send_pkt_def split: if_splits) (use resp in \<open>auto simp: pack_response_message_def split: if_splits\<close>)
    moreover have "same_mods s1 s'" using step True same by (auto intro: same_mods_trans)
    moreover have "counted False s1" using inserted base(2,3) by (auto simp: counted_def)
    ultimately have "\<not> g" "counted False s'" using same_mods_counted by blast+
    then show ?thesis by (simp add: counted_def)
  next
    case False
    then obtain x s3 where s3: "send_config_to_module e m s2 = Ok (x, s3)" "after_register e m (already \<noteq> 0) s3 = Ok (r, s')"
      using step by (auto simp: res_bind_Ok_iff)
    have "same_mods s1 s3" using same config_same [OF s3(1)] same_mods_trans by blast
    moreover have "counted g (if (m = ICM \<or> m = DBM \<or> m = PEM) \<and> already = 0 then s1\<lparr>bm_status := bm_status s1 + 1\<rparr> else s1)"
    proof (cases "(m = ICM \<or> m = DBM \<or> m = PEM) \<and> already = 0")
      case True
      have "registered (s1\<lparr>bm_status := x\<rparr>) = registered s1" for x by (simp add: registered_def)
      then show ?thesis using True inserted base(2-4) by (simp add: counted_def)
    next
      case False
      then show ?thesis using inserted base(2-4) unfolding if_not_P [OF False] by (simp add: counted_def)
    qed
    ultimately have "counted g (if (m = ICM \<or> m = DBM \<or> m = PEM) \<and> \<not> already \<noteq> 0 then s3\<lparr>bm_status := bm_status s3 + 1\<rparr> else s3)"
      by (auto simp: same_mods_def counted_def registered_def split: if_splits)
    then show ?thesis using after_register_mods [OF s3(2)] same_mods_counted by blast
  qed
qed

lemma module_handler_counted:
  assumes "counted g s" "call_module_handler e pkt fd h s = Ok (r, s')" "0 < fd" "g \<longrightarrow> be_sends e fd"
  shows "counted g s'"
proof (cases "h = Module_register")
  case True
  then show ?thesis using assms(2) register_counted [OF assms(1) _ assms(3,4)] by (simp add: call_module_handler_def)
next
  case False
  then have "same_mods s s'"
    using assms(2) by (cases h) (simp_all add: call_module_handler_def forward_to_module_def forward_to_pms_def to_module_same to_pms_same route_table_same)
  then show ?thesis using assms(1) same_mods_counted by blast
qed

lemma module_data_counted:
  assumes "counted g s" "module_data_handle e pkt fd s = Ok s'" "0 < fd" "g \<longrightarrow> be_sends e fd"
  shows "counted g s'"
  using assms(2) module_handler_counted [OF assms(1) _ assms(3,4)] assms(1)
  by (auto simp: module_dispatch res_map_Ok_iff split: if_splits option.splits)

lemma child_process_counted:
  assumes "counted g s" "child_process e fd as s = Ok (s', as')" "g \<longrightarrow> be_sends e fd"
  shows "counted g s'"
  using assms
proof (induction e fd as s rule: child_process.induct)
  case (1 e fd as s)
  show ?case
  proof (cases "0 < fd")
    case False
    then show ?thesis using 1(2,3) by (simp add: child_process.simps)
  next
    case fd: True
    obtain r as1 where r: "sock_read HEADER_LEN as = (r, as1)" by (cases "sock_read HEADER_LEN as")
    show ?thesis
    proof (cases r)
      case (Bytes bs)
      let ?n = "pkt_len (header_after (be_stack e) bs)"
      obtain rb as2 where rb: "read_body (?n - HEADER_LEN) [] as1 = (rb, as2)" by (cases "read_body (?n - HEADER_LEN) [] as1")
      note step = 1(3) [unfolded child_process.simps [of e fd as s] r Bytes]
      show ?thesis
      proof (cases "?n > MAXBUF + HEADER_LEN")
        case True
        then show ?thesis using 1(2) step fd by simp
      next
        case False
        then obtain pkt where alloc: "alloc_packet (be_heap e) (header_after (be_stack e) bs) = Ok pkt"
          using step fd by (auto simp: Let_def res_bind_Ok_iff)
        show ?thesis
        proof (cases rb)
          case (Complete b)
          then obtain s1 where s1: "module_data_handle e (take (length bs) pkt @ b @ drop (length bs + length b) pkt) fd s = Ok s1"
              "(if bm_hung s1 then Ok (s1, as2) else child_process e fd as2 s1) = Ok (s', as')"
            using step fd False alloc rb by (auto simp: Let_def res_bind_Ok_iff)
          have c1: "counted g s1" by (rule module_data_counted [OF 1(2) s1(1) fd 1(4)])
          show ?thesis
          proof (cases "bm_hung s1")
            case True
            then show ?thesis using s1(2) c1 by simp
          next
            case False
            then show ?thesis using s1(2) c1 fd 1(4) \<open>\<not> MAXBUF + HEADER_LEN < ?n\<close>
              by (intro "1.IH" [OF _ r [symmetric] Bytes refl refl _ rb [symmetric] Complete]) simp_all
          qed
        qed (use step fd False alloc rb 1(2) same_mods_counted [OF same_mods_updates(2)] in \<open>auto simp: Let_def\<close>)
      qed
    qed (use 1(2,3) r in \<open>auto simp: child_process.simps [of e fd as s] split: if_splits\<close>)
  qed
qed

text \<open>
  The states of the base module: packets of local connections and of the server arrive in any order, whatever their bytes,
  and the timer for the list of agents runs off.  \<open>good\<close> says that no answer to a registration fails.
\<close>

inductive bm_reach :: "bool \<Rightarrow> bm \<Rightarrow> bool" for good where
  init: "bm_reach good init_bm"
| local: "bm_reach good s \<Longrightarrow> child_process e fd as s = Ok (s', as') \<Longrightarrow> good \<longrightarrow> be_sends e fd \<Longrightarrow> bm_reach good s'"
| server: "bm_reach good s \<Longrightarrow> packet_handle e ip port fd as s = Ok (Some s') \<Longrightarrow> bm_reach good s'"
| timer: "bm_reach good s \<Longrightarrow> send_router_list_to_ic e s = Ok (r, s') \<Longrightarrow> bm_reach good s'"

lemma packet_handle_same:
  assumes "packet_handle e ip port fd as s = Ok (Some s')"
  shows "same_mods s s'"
proof -
  obtain r a where r: "recv_first EXT_MAXBUF as = Ok (r, a)" using assms by (auto simp: upload_dispatch res_bind_Ok_iff)
  show ?thesis
  proof (cases r)
    case (Got mem len)
    define p where "p = \<lparr>p_ip = ip, p_port = port, p_sock = fd, p_len = len, p_type = int (unat (mem ! 0)), p_mem = mem, p_data = 0, p_end = unat len\<rparr>"
    define k where "k = int (unat (mem ! 0))"
    have "res_map (\<lambda>s. if bm_hung s then None else Some (s\<lparr>bm_closed := bm_closed s @ [fd]\<rparr>))
        (case map_of (rev upload_handle) k of None \<Rightarrow> Ok s | Some h \<Rightarrow> res_map snd (call_up_handler e p h s)) = Ok (Some s')"
      using assms unfolding upload_dispatch r Got Let_def k_def p_def by (simp only: res_bind.simps prod.case recv_end.case)
    then obtain s1 where s1: "(case map_of (rev upload_handle) k of None \<Rightarrow> Ok s | Some h \<Rightarrow> res_map snd (call_up_handler e p h s)) = Ok s1"
        "s' = s1\<lparr>bm_closed := bm_closed s1 @ [fd]\<rparr>"
      by (auto simp: res_map_Ok_iff split: if_splits)
    have "same_mods s s1" using s1(1) up_handler_same by (auto simp: res_map_Ok_iff split: option.splits)
    then show ?thesis using s1(2) same_mods_trans same_mods_updates(2) by blast
  qed (use assms r in \<open>auto simp: upload_dispatch\<close>)
qed

text \<open>
  C12. In every state of the base module its count of modules is at most the number of the three modules that have
  registered, so that no packet but a registration is handled before two of them have; and if every answer to a
  registration could be sent, it is that number, however often the modules register again.
\<close>

theorem bm_status_counts_modules:
  assumes "bm_reach good s"
  shows "0 \<le> bm_status s \<and> bm_status s \<le> int (card (registered s)) \<and> (good \<longrightarrow> bm_status s = int (card (registered s))) \<and>
    (basemodule_check_status s \<longrightarrow> 2 \<le> card (registered s)) \<and> wf_table (bm_mods s)"
proof -
  have "counted good s" using assms
  proof (induction rule: bm_reach.induct)
    case init
    have "registered init_bm = {}" by (auto simp: registered_def init_bm_def find_register_table_by_id_def module_manager_init_def ICM_def DBM_def PEM_def)
    then show ?case using wf_module_manager_init by (simp add: counted_def init_bm_def)
  next
    case (local s e fd as s' as')
    then show ?case using child_process_counted by blast
  next
    case (server s e ip port fd as s')
    then show ?case using packet_handle_same same_mods_counted by blast
  next
    case (timer s e r s')
    then show ?case using router_list_same same_mods_counted by blast
  qed
  then show ?thesis by (auto simp: counted_def basemodule_check_status_def)
qed

lemma response_fits: "\<exists>resp. pack_response_message heap junk des ret (dec_int (int_of_u32 w)) = Ok resp \<and> resp \<noteq> []"
proof -
  have "\<bar>int_of_u32 w\<bar> < 10 ^ 10" using sint_greater_eq [of w] sint_less [of w] by simp
  then have "length (dec_int (int_of_u32 w)) < 100" using length_dec_int [of "int_of_u32 w"] by simp
  then show ?thesis by (simp add: pack_response_message_def packet_header_def)
qed

text \<open>The first registration of the database module.\<close>

lemma register_new_dbm:
  assumes "wf_table (bm_mods s)" "find_register_table_by_id DBM (bm_mods s) = None" "0 < fd" "be_sends e fd" "xml_policy_buff (bm_pms s) = []"
  shows "\<exists>s'. handle_local_module_register e (packet 1 c (enc32 2)) fd s = Ok (0, s') \<and> bm_status s' = bm_status s + 1 \<and> bm_hung s' = bm_hung s"
proof -
  have w: "rd32 (packet 1 c (enc32 2)) HEADER_LEN = Ok 2"
    unfolding packet_def HEADER_LEN_def by (rule rd32_at) (use bytes_at_mid [of "packet_header 1 PMA_VERSION (8 + length (enc32 2)) c" "enc32 2" "[]"] in simp)
  have two: "int_of_u32 2 = DBM" by (simp add: DBM_def)
  obtain t where t: "insert_register_table (be_now e) DBM fd (bm_mods s) = Ok (0, t)"
      "find_register_table_by_id DBM t = Some \<lparr>m_id = DBM, m_sockfd = fd, m_info = get_now_time (be_now e)\<rparr>"
    using register_then_find [OF assms(1) _ _ assms(3), of DBM "be_now e"] assms(2) by (auto simp: DBM_def)
  obtain resp where resp: "pack_response_message (be_heap e) (be_stale e) 2 0 (dec_int (int_of_u32 (pma_id (be_conf e)))) = Ok resp" "resp \<noteq> []"
    using response_fits by blast
  define s1 where "s1 = s\<lparr>bm_mods := t, bm_sent := bm_sent s @ [(fd, accepted_part e fd resp)]\<rparr>"
  have s1: "send_pkt e fd resp (s\<lparr>bm_mods := t\<rparr>) = (int (length (accepted_part e fd resp)), s1)" using assms(3,4) resp(2) by (simp add: send_pkt_def s1_def)
  obtain s2 where s2: "send_config_to_module e DBM s1 = Ok (0, s2)" "bm_mods s2 = t" "bm_status s2 = bm_status s" "bm_hung s2 = bm_hung s" "xml_policy_buff (bm_pms s2) = []"
    using t(2) assms(5) by (auto simp: send_config_to_module_def s1_def ICM_def DBM_def send_pkt_def Let_def)
  define s2' where "s2' = s2\<lparr>bm_status := bm_status s2 + 1\<rparr>"
  obtain bs where bs: "send_message_to_module e DBM POLICY_LIST (xml_policy_buff (bm_pms s2')) (int (length (xml_policy_buff (bm_pms s2')))) s2' = Ok (send_pkt e fd bs s2')"
    using t(2) s2(2) by (simp add: send_message_to_module_def s2'_def)
  define s3 where "s3 = snd (send_pkt e fd bs s2')"
  have s3: "after_register e DBM False s2 = Ok (0, s3)" "bm_status s3 = bm_status s2 + 1" "bm_hung s3 = bm_hung s2"
    using bs by (simp_all add: after_register_def s2'_def [symmetric] s3_def Let_def ICM_def DBM_def case_prod_beta) (simp_all add: send_pkt_def s2'_def)
  have "handle_local_module_register e (packet 1 c (enc32 2)) fd s = Ok (0, s3)"
    unfolding handle_local_module_register_def w res_bind.simps Let_def two t(1) prod.case resp(1) s1 by (simp add: s2(1) s3(1))
  then show ?thesis using s2 s3 by auto
qed

theorem bm_status_counts_modules_witness:
  "\<exists>s. bm_reach True s \<and> bm_status s = 1 \<and> bm_status s = int (card (registered s)) \<and> wf_table (bm_mods s)"
proof -
  let ?a = "[Data (packet 1 0 (enc32 2))]"
  have "find_register_table_by_id DBM (bm_mods init_bm) = None" by (simp add: init_bm_def find_register_table_by_id_def module_manager_init_def DBM_def)
  then obtain s where s: "handle_local_module_register sample_env (packet 1 (heap_word sample_env) (enc32 2)) 7 init_bm = Ok (0, s)" "bm_status s = 1"
    using register_new_dbm [of init_bm 7 sample_env "heap_word sample_env"] wf_module_manager_init by (auto simp: init_bm_def sample_env_def)
  have "pkt_type (packet 1 (heap_word sample_env) (enc32 2)) = 1" by (simp add: packet_def pkt_fields_header)
  then have "module_data_handle sample_env (packet 1 (heap_word sample_env) (enc32 2)) 7 init_bm = Ok s"
    by (simp add: module_dispatch module_handle_def call_module_handler_def s(1) MODREG_def del: One_nat_def)
  then have "res_map fst (child_process sample_env 7 ?a init_bm) = Ok s"
    using single_packet_handled [of 7 "enc32 2" sample_env 1 0 init_bm] by simp
  then obtain as' where "child_process sample_env 7 ?a init_bm = Ok (s, as')" by (auto simp: res_map_Ok_iff)
  then have reach: "bm_reach True s" by (rule bm_reach.local [OF bm_reach.init]) (simp add: sample_env_def)
  from bm_status_counts_modules [OF reach] s(2) reach show ?thesis by (intro exI [of _ s]) simp
qed

text \<open>An answer that cannot be sent: the module stands in the table but is not counted, now or when it registers again.\<close>

lemma unanswered_not_counted:
  assumes "rd32 pkt HEADER_LEN = Ok w" "int_of_u32 w \<in> {ICM, DBM, PEM}" "wf_table (bm_mods s)" "0 < fd" "\<not> be_sends e fd"
  shows "\<exists>s'. handle_local_module_register e pkt fd s = Ok (-1, s') \<and> bm_status s' = bm_status s \<and> int_of_u32 w \<in> registered s'"
proof -
  have m: "0 < int_of_u32 w" "int_of_u32 w < 6" using assms(2) by (auto simp: ICM_def DBM_def PEM_def)
  obtain t where t: "insert_register_table (be_now e) (int_of_u32 w) fd (bm_mods s) = Ok (if find_register_table_by_id (int_of_u32 w) (bm_mods s) = None then 0 else 1, t)"
      "find_register_table_by_id (int_of_u32 w) t \<noteq> None"
    using register_then_find [OF assms(3) m assms(4), of "be_now e"] by auto
  obtain resp where resp: "pack_response_message (be_heap e) (be_stale e) w 0 (dec_int (int_of_u32 (pma_id (be_conf e)))) = Ok resp"
    using response_fits by blast
  have "send_pkt e fd resp (s\<lparr>bm_mods := t\<rparr>) = (-1, s\<lparr>bm_mods := t\<rparr>)" using assms(4,5) by (simp add: send_pkt_def)
  then have "handle_local_module_register e pkt fd s = Ok (-1, s\<lparr>bm_mods := t, bm_closed := bm_closed s @ [fd]\<rparr>)"
    unfolding handle_local_module_register_def assms(1) res_bind.simps Let_def t(1) prod.case resp by simp
  then show ?thesis using assms(2) t(2) by (auto simp: registered_def)
qed

section \<open>Packets of the server\<close>

lemma upload_types:
  "map_of (rev upload_handle) 17 = Some Policy_send" "map_of (rev upload_handle) 142 = Some Mari_send" "map_of (rev upload_handle) 40 = Some Tun_command"
  by (simp_all add: upload_handle_def)

definition pms_target :: "nat \<Rightarrow> (int \<times> nat) option" where
  "pms_target ty = (if ty = 17 then Some (DBM, POLICY_LIST) else if ty = 142 then Some (PEM, BGP_MRAI) else if ty = 40 then Some (PEM, TC_TUNNEL_COMMAND) else None)"

lemma packet_handle_target:
  assumes "recv_first EXT_MAXBUF as = Ok (Got mem len, as')" "mem ! 0 = b" "pms_target (unat b) = Some (m, ty)"
  shows "packet_handle e ip port fd as s =
    res_map (\<lambda>(_, s). if bm_hung s then None else Some (s\<lparr>bm_closed := bm_closed s @ [fd]\<rparr>))
      (pms_to_module e m ty \<lparr>p_ip = ip, p_port = port, p_sock = fd, p_len = len, p_type = int (unat b), p_mem = mem, p_data = 0, p_end = unat len\<rparr> s)"
proof -
  have r: "res_map g (res_map snd x) = res_map (\<lambda>(_, s). g s) x" for g :: "bm \<Rightarrow> bm option" and x :: "(int \<times> bm) res" by (cases x) auto
  consider "int (unat b) = 17" "m = DBM" "ty = POLICY_LIST" | "int (unat b) = 142" "m = PEM" "ty = BGP_MRAI" | "int (unat b) = 40" "m = PEM" "ty = TC_TUNNEL_COMMAND"
    using assms(3) unfolding pms_target_def by (metis Pair_inject int_ops(3) of_nat_numeral option.distinct(1) option.inject)
  then have "\<exists>h. map_of (rev upload_handle) (int (unat b)) = Some h \<and> (\<forall>p. call_up_handler e p h s = pms_to_module e m ty p s)"
  proof cases
    case 1
    show ?thesis unfolding 1 by (intro exI [of _ Policy_send]) (simp add: upload_types call_up_handler_def)
  next
    case 2
    show ?thesis unfolding 2 by (intro exI [of _ Mari_send]) (simp add: upload_types call_up_handler_def)
  next
    case 3
    show ?thesis unfolding 3 by (intro exI [of _ Tun_command]) (simp add: upload_types call_up_handler_def)
  qed
  then obtain h where h: "map_of (rev upload_handle) (int (unat b)) = Some h" "\<And>p. call_up_handler e p h s = pms_to_module e m ty p s" by blast
  show ?thesis unfolding upload_dispatch assms(1) res_bind.simps prod.case recv_end.case assms(2) h Let_def option.case r ..
qed

text \<open>
  C15. A packet of the server with policies (type 17), an interval for BGP (142) or a command for a tunnel (40), of 20 to 65547 bytes, whose
  first eight bytes come undivided and the rest in whatever parts, for a module that is registered, while the sends
  take all bytes: its data are passed whole to that module, in one packet of the right type, and then the server gets an
  acknowledgement.
\<close>

theorem server_packet_forwarded:
  assumes "framed m" "20 \<le> length m" "length m \<le> 65547" "bs @ arriving as = m @ r" "patient as" "8 \<le> length bs"
    and "pms_target (unat (m ! 0)) = Some (md, ty)" "find_register_table_by_id md (bm_mods s) = Some reg" "m_sockfd reg \<noteq> 0" "\<forall>k. be_sends e k \<and> be_short e k = None" "\<not> bm_hung s"
  shows "\<exists>ack s'. packet_handle e ip port fd (Data bs # as) s = Ok (Some s') \<and> length ack = 20 \<and> ack ! 0 = 18 \<and>
    bm_sent s' = bm_sent s @ [(m_sockfd reg, packet ty 0x123456 (drop 20 m)), (fd, ack)]"
proof -
  obtain mem as' where mem: "recv_first EXT_MAXBUF (Data bs # as) = Ok (Got mem (word_of_nat (length m)), as')" "take (length m) mem = m" "length m \<le> length mem"
    using recv_first_framed [OF assms(1,4-6), of EXT_MAXBUF] by (auto simp: EXT_MAXBUF_def)
  have "mem ! 0 = m ! 0" using mem(2) assms(2) by (metis gr0I less_le_trans not_less nth_take zero_less_numeral)
  note pt = packet_handle_target [OF mem(1) this assms(7), of e ip port fd s]
  have len: "int_of_u32 (word_of_nat (length m) - word_of_nat PMS_HEADER) = int (length m - 20)"
    using pms_packet_length [OF assms(2)] assms(3) by simp
  have data: "take (length m - 20) (drop 20 mem) = drop 20 m" using mem(2) by (metis drop_take)
  let ?out = "packet ty 0x123456 (drop 20 m)"
  have "send_message_to_module e md ty (drop 20 mem) (int (length m - 20)) s = Ok (send_pkt e (m_sockfd reg) ?out s)"
    using mem(3) by (simp add: send_message_to_module_def assms(8) data packet_def del: of_nat_diff)
  then have send: "send_message_to_module e md ty (drop 20 mem) (int (length m - 20)) s = Ok (int (length ?out), s\<lparr>bm_sent := bm_sent s @ [(m_sockfd reg, ?out)]\<rparr>)"
    using assms(9,10) by (simp add: send_pkt_def accepted_part_def packet_def packet_header_def)
  define ack where "ack = (18 :: u8) # ucast (conf_version (be_conf e)) # enc16 DEVICETYPE_APP_BM @ htonl_bytes 20 @ htonl_bytes (pma_id (be_conf e)) @
      enc32 (pma_addr (bm_pms s)) @ enc32 (case inet_pton ip of None \<Rightarrow> be_stale e | Some w \<Rightarrow> w)"
  have ack: "length ack = 20" "ack ! 0 = 18" by (simp_all add: ack_def htonl_bytes_def)
  let ?p = "\<lparr>p_ip = ip, p_port = port, p_sock = fd, p_len = word_of_nat (length m), p_type = int (unat (m ! 0)), p_mem = mem, p_data = 0, p_end = unat (word_of_nat (length m) :: u32)\<rparr>"
  have "pms_to_module e md ty ?p s = Ok (-1, s\<lparr>bm_sent := bm_sent s @ [(m_sockfd reg, ?out), (fd, ack)]\<rparr>)"
    unfolding pms_to_module_def pms_packet.simps len using assms(10) by (simp add: PMS_HEADER_def send [unfolded PMS_HEADER_def] answered_def send_ack_to_pms_def accepted_part_def ack_def Let_def del: of_nat_diff)
  then show ?thesis using ack assms(11) unfolding pt by (intro exI [of _ ack]) simp
qed

definition sample_server_packet :: "bytes \<Rightarrow> bytes" where
  "sample_server_packet = pms_message sample_conf 0 0 ''10.0.0.1'' 17"

definition registered_bm :: bm where
  "registered_bm = init_bm\<lparr>bm_mods := module_manager_init[2 := \<lparr>m_id = 2, m_sockfd = 9, m_info = []\<rparr>]\<rparr>"

lemma registered_dbm: "find_register_table_by_id DBM (bm_mods registered_bm) = Some \<lparr>m_id = 2, m_sockfd = 9, m_info = []\<rparr>"
  by (simp add: registered_bm_def init_bm_def find_register_table_by_id_def module_manager_init_def MAX_MODULE_NUM_def DBM_def)

lemma sample_server_packet_facts:
  "length d < 100 \<Longrightarrow> framed (sample_server_packet d)" "length (sample_server_packet d) = 20 + length d" "drop 20 (sample_server_packet d) = d"
  "pms_target (unat (sample_server_packet d ! 0)) = Some (DBM, POLICY_LIST)"
proof -
  show "length d < 100 \<Longrightarrow> framed (sample_server_packet d)" by (simp add: sample_server_packet_def framed_message)
  show "length (sample_server_packet d) = 20 + length d" "drop 20 (sample_server_packet d) = d" by (simp_all add: sample_server_packet_def pms_message_def)
  have "sample_server_packet d ! 0 = 17" by (simp add: sample_server_packet_def pms_message_def pms_header_def)
  then show "pms_target (unat (sample_server_packet d ! 0)) = Some (DBM, POLICY_LIST)" by (simp add: pms_target_def)
qed

theorem server_packet_forwarded_witness:
  "\<exists>ack s'. packet_handle sample_env ''10.0.0.1'' 9181 7 [Data (take 11 (sample_server_packet [1, 2, 3])), Again, Data (drop 11 (sample_server_packet [1, 2, 3]))] registered_bm = Ok (Some s') \<and>
    bm_sent s' = [(9, packet POLICY_LIST 0x123456 [1, 2, 3]), (7, ack)]"
proof -
  let ?m = "sample_server_packet [1, 2, 3]"
  have all: "take 11 ?m @ arriving [Again, Data (drop 11 ?m)] = ?m @ []" by simp
  have f: "framed ?m" by (rule sample_server_packet_facts(1)) simp
  have s: "bm_sent registered_bm = []" "\<not> bm_hung registered_bm" "\<forall>k. be_sends sample_env k \<and> be_short sample_env k = None" by (simp_all add: registered_bm_def init_bm_def sample_env_def)
  show ?thesis
    using server_packet_forwarded [OF f _ _ all _ _ sample_server_packet_facts(4) registered_dbm _ s(3,2), of "''10.0.0.1''" 9181 7]
    by (auto simp: sample_server_packet_facts(2,3) s(1))
qed




text \<open>A packet of a local connection that announces fewer than four bytes makes the base module write behind the memory it allocated.\<close>

lemma short_local_packet_faults:
  assumes "0 < fd" "n < 4"
  shows "child_process e fd [Data (packet_header ty v n c)] s = Err OutOfBounds"
proof -
  have rd: "sock_read HEADER_LEN [Data (packet_header ty v n c)] = (Bytes (packet_header ty v n c), [])" by (simp add: HEADER_LEN_def) (auto simp: packet_header_def)
  have "pkt_len (header_after (be_stack e) (packet_header ty v n c)) = n" using assms(2) unfolding header_after_def pkt_len_header by simp
  then show ?thesis
    using assms unfolding child_process.simps [of e fd "[Data (packet_header ty v n c)]" s] rd by (simp add: alloc_packet_def MAXBUF_def Let_def)
qed

end
