(* ===== verification/Module_Server.thy ===== *)
theory Module_Server
  imports Local_Msg Module_Manager
begin

text \<open>
  The part common to the modules of the agent (\<^verbatim>\<open>server/server.c\<close>, \<^verbatim>\<open>server/socket.c\<close>): a module connects to the base module,
  registers, waits for the answer and its configuration, and then passes every packet to its handler.  When the
  connection ends it starts again.  The handlers are those of the module; here the packets passed to them are collected.
\<close>

section \<open>State\<close>

definition M_STATUS_INITED :: nat where "M_STATUS_INITED = 1"
definition M_STATUS_LOGGING :: nat where "M_STATUS_LOGGING = 2"
definition M_STATUS_LOGGED :: nat where "M_STATUS_LOGGED = 3"
definition M_STATUS_WAITING :: nat where "M_STATUS_WAITING = 4"
definition M_STATUS_WORKING :: nat where "M_STATUS_WORKING = 6"
definition M_STATUS_OFFLINE :: nat where "M_STATUS_OFFLINE = 7"

definition MOD_REG :: nat where "MOD_REG = 1"
definition PKT_ACK :: nat where "PKT_ACK = 4"
definition SIGPIPE :: int where "SIGPIPE = 13"

record module_state =
  self_module :: nat
  conf_type :: nat
  handler_types :: "nat set"              \<comment> \<open>the types registered in \<^verbatim>\<open>packet_handler\<close>, besides \<^verbatim>\<open>ACK\<close>\<close>
  module_status :: nat
  connected :: bool                       \<comment> \<open>\<^verbatim>\<open>con_status\<close>\<close>
  bm_sock :: int
  sent_packets :: "bytes list"
  handled :: "(nat \<times> bytes) list"         \<comment> \<open>type and data of the packets passed to the module's handlers\<close>

section \<open>Sending\<close>

text \<open>A send that fails: only the error number 13 is taken for a lost connection.\<close>

datatype send_outcome = Sent | Send_error int

definition module_send_packet :: "send_outcome \<Rightarrow> bytes \<Rightarrow> module_state \<Rightarrow> int \<times> module_state" where
  "module_send_packet out pkt s =
     (if bm_sock s = 0 then (-1, s)
      else case out of
        Sent \<Rightarrow> (int (length (sent_bytes pkt)), s\<lparr>sent_packets := sent_packets s @ [sent_bytes pkt]\<rparr>)
      | Send_error errno \<Rightarrow> (-1, if errno = SIGPIPE then s\<lparr>connected := False, module_status := M_STATUS_OFFLINE\<rparr> else s))"

definition module_send_data :: "send_outcome \<Rightarrow> u32 \<Rightarrow> bytes \<Rightarrow> int \<Rightarrow> nat \<Rightarrow> module_state \<Rightarrow> (int \<times> module_state) res" where
  "module_send_data out junk data len ty s =
     res_map (\<lambda>r. case r of None \<Rightarrow> (-1, s) | Some pkt \<Rightarrow> module_send_packet out pkt s) (module_packet junk data len ty)"

definition reg_packet :: "nat \<Rightarrow> bytes" where
  "reg_packet m = packet_header MOD_REG PMA_VERSION (HEADER_LEN + 4) 0x123456 @ enc32 (word_of_nat m)"

section \<open>Receiving\<close>

text \<open>
  \<^verbatim>\<open>ack_handle\<close>: the answer to the registration; an answer for another module or with an error is ignored.  On success the
  module enters \<^verbatim>\<open>module_daemon\<close>, which first sets its status to waiting.
\<close>

definition ack_accepted :: "bytes \<Rightarrow> module_state \<Rightarrow> bool res" where
  "ack_accepted pkt s =
     res_bind (rd32 pkt HEADER_LEN) (\<lambda>des. res_map (\<lambda>ret. int_of_u32 des = int (self_module s) \<and> ret = 0) (rd32 pkt (HEADER_LEN + 4)))"

text \<open>
  \<^verbatim>\<open>module_get_data\<close> for a packet that was received.  The length in the packet is that of its data for the handlers.  The
  first result says whether the answer was accepted.
\<close>

definition handle_packet :: "bytes \<Rightarrow> module_state \<Rightarrow> (bool \<times> module_state) res" where
  "handle_packet pkt s =
     (let ty = pkt_type pkt
      in if pkt_version pkt \<noteq> PMA_VERSION then Ok (False, s)
         else
           (let flag = (module_status s = M_STATUS_WORKING \<or> module_status s = M_STATUS_LOGGING \<and> ty = PKT_ACK \<or> ty = conf_type s)
            in res_map (\<lambda>(acc, s). (acc, if ty = conf_type s then s\<lparr>module_status := M_STATUS_WORKING\<rparr> else s))
              (if \<not> flag then Ok (False, s)
               else if ty = PKT_ACK then res_map (\<lambda>acc. (acc, if acc then s\<lparr>module_status := M_STATUS_WAITING\<rparr> else s)) (ack_accepted pkt s)
               else if ty \<in> handler_types s then Ok (False, s\<lparr>handled := handled s @ [(ty, drop HEADER_LEN pkt)]\<rparr>)
               else Ok (False, s))))"

section \<open>A connection\<close>

text \<open>
  \<^verbatim>\<open>module_daemon\<close>: packets are read as long as the connection lasts.  It ends with the connection, or goes on waiting when
  nothing more comes.
\<close>

datatype session_end = Offline | Idle | Not_accepted

definition arrivals_size :: "arrival list \<Rightarrow> nat" where
  "arrivals_size as = length (arriving as) + length as"

lemma sock_read_size:
  assumes "sock_read n as = (r, as')" "0 < n"
  shows "arrivals_size as' \<le> arrivals_size as" "as \<noteq> [] \<Longrightarrow> r \<noteq> End \<Longrightarrow> arrivals_size as' < arrivals_size as"
  using assms by (induction n as rule: sock_read.induct) (auto simp: arrivals_size_def split: if_splits)

lemma recv_packet_size:
  assumes "recv_packet stack heap as = Ok (r, as')" "as \<noteq> []" "r \<noteq> Disconnected"
  shows "arrivals_size as' < arrivals_size as"
proof -
  obtain r1 as1 where r1: "sock_read HEADER_LEN as = (r1, as1)" by (cases "sock_read HEADER_LEN as")
  have "r1 \<noteq> End" using assms(1,3) r1 by (auto simp: recv_packet_def)
  then have lt: "arrivals_size as1 < arrivals_size as" using sock_read_size(2) [OF r1 _ assms(2)] by (simp add: HEADER_LEN_def)
  have "arrivals_size as' \<le> arrivals_size as1"
  proof (cases r1)
    case (Bytes bs)
    then obtain pkt where pkt: "alloc_packet heap (header_after stack bs) = Ok pkt" using assms(1) r1 by (auto simp: recv_packet_def res_bind_Ok_iff)
    show ?thesis
    proof (cases "pkt_len pkt \<le> HEADER_LEN")
      case True
      then show ?thesis using assms(1) r1 Bytes pkt by (auto simp: recv_packet_def split: if_splits)
    next
      case False
      obtain r2 as2 where r2: "sock_read (pkt_len pkt - HEADER_LEN) as1 = (r2, as2)" by (cases "sock_read (pkt_len pkt - HEADER_LEN) as1")
      then have "as' = as2" using assms(1) r1 Bytes pkt False by (cases r2) (auto simp: recv_packet_def)
      then show ?thesis using sock_read_size(1) [OF r2] False by simp
    qed
  qed (use assms(1) r1 in \<open>auto simp: recv_packet_def\<close>)
  with lt show ?thesis by simp
qed

function module_daemon :: "bytes \<Rightarrow> (nat \<Rightarrow> u8) \<Rightarrow> arrival list \<Rightarrow> module_state \<Rightarrow> (session_end \<times> module_state) res" where
  "module_daemon stack heap as s =
     (if as = [] then Ok (Idle, s)
      else case recv_packet stack heap as of
        Err e \<Rightarrow> Err e
      | Ok (r, as') \<Rightarrow>
          (case r of
             Disconnected \<Rightarrow> Ok (Offline, s\<lparr>connected := False, module_status := M_STATUS_OFFLINE\<rparr>)
           | Nothing \<Rightarrow> module_daemon stack heap as' s
           | Received pkt \<Rightarrow> (case handle_packet pkt s of Err e \<Rightarrow> Err e | Ok (_, s') \<Rightarrow> module_daemon stack heap as' s')))"
  by pat_completeness auto

termination module_daemon
  by (relation "measure (\<lambda>(_, _, as, _). arrivals_size as)") (auto intro: recv_packet_size)

declare module_daemon.simps [simp del]

text \<open>
  \<^verbatim>\<open>module_register\<close> on a connection that could be made: the registration is sent and one packet is read.  If it is not the
  answer the function returns, and with it the program.
\<close>

definition module_register :: "bytes \<Rightarrow> (nat \<Rightarrow> u8) \<Rightarrow> int \<Rightarrow> send_outcome \<Rightarrow> arrival list \<Rightarrow> module_state \<Rightarrow> (session_end \<times> module_state) res" where
  "module_register stack heap sock out as s =
     (let s = s\<lparr>module_status := M_STATUS_LOGGING, bm_sock := sock, connected := True\<rparr>;
          s = snd (module_send_packet out (reg_packet (self_module s)) s)
      in res_bind (recv_packet stack heap as) (\<lambda>(r, as').
           case r of
             Disconnected \<Rightarrow> Ok (Not_accepted, s\<lparr>connected := False\<rparr>)
           | Nothing \<Rightarrow> Ok (Not_accepted, s)
           | Received pkt \<Rightarrow> res_bind (handle_packet pkt s) (\<lambda>(acc, s).
               if acc then module_daemon stack heap as' s else Ok (Not_accepted, s))))"

text \<open>
  The life of a module (\<^verbatim>\<open>module_start\<close>): attempts to connect, each one failed or with what arrives on the connection; after
  a failure or a lost connection the next one.
\<close>

fun module_start :: "bytes \<Rightarrow> (nat \<Rightarrow> u8) \<Rightarrow> (int \<times> send_outcome \<times> arrival list) option list \<Rightarrow> module_state \<Rightarrow> (session_end \<times> module_state) res" where
  "module_start stack heap [] s = Ok (Idle, s\<lparr>module_status := M_STATUS_INITED\<rparr>)"
| "module_start stack heap (None # cs) s = module_start stack heap cs (s\<lparr>module_status := M_STATUS_INITED\<rparr>)"
| "module_start stack heap (Some (sock, out, as) # cs) s =
     res_bind (module_register stack heap sock out as s) (\<lambda>(e, s). if e = Offline then module_start stack heap cs s else Ok (e, s))"

section \<open>What a module handles\<close>

text \<open>The packet as a module holds it: the checksum is what the memory held.\<close>

definition fresh_word :: "(nat \<Rightarrow> u8) \<Rightarrow> u32" where
  "fresh_word heap = of_octets (unat (heap 4)) (unat (heap 5)) (unat (heap 6)) (unat (heap 7))"

lemma enc32_fresh: "enc32 (fresh_word heap) = map heap [4 ..< 8]"
proof -
  have "unat (w :: u8) < 256" for w using unsigned_less [of w] by simp
  moreover have "[4 ..< 8] = [4, 5, 6, 7 :: nat]" by (simp add: upt_rec)
  ultimately show ?thesis by (simp add: enc32_def fresh_word_def octet_of_octets del: One_nat_def)
qed

lemma recv_packet_whole:
  assumes "length data \<le> 65527"
  shows "recv_packet stack heap (Data (packet ty c data) # as) = Ok (Received (packet ty (fresh_word heap) data), as)"
proof -
  let ?h = "packet_header ty PMA_VERSION (HEADER_LEN + length data) c"
  let ?as1 = "if data = [] then as else Data data # as"
  have rd: "sock_read HEADER_LEN (Data (packet ty c data) # as) = (Bytes ?h, ?as1)"
    by (simp add: HEADER_LEN_def packet_def) (auto simp: packet_header_def)
  have n: "pkt_len (header_after stack ?h) = 8 + length data" using assms unfolding header_after_def pkt_len_header by (simp add: HEADER_LEN_def)
  define pkt where "pkt = take 4 ?h @ map heap [4 ..< 8 + length data]"
  have alloc: "alloc_packet heap (header_after stack ?h) = Ok pkt" unfolding alloc_packet_def n by (simp add: pkt_def header_after_def)
  have len: "pkt_len pkt = 8 + length data"
    using assms enc16_len [of "8 + length data"] by (simp add: pkt_def pkt_len_def packet_header_def nth_append HEADER_LEN_def)
  have split: "[4 ..< 8 + length data] = [4 ..< 8] @ [8 ..< 8 + length data]" by (rule upt_add_eq_append) simp
  have h: "take 8 pkt = packet_header ty PMA_VERSION (HEADER_LEN + length data) (fresh_word heap)"
    unfolding pkt_def split map_append enc32_fresh [symmetric] by (simp add: packet_header_def enc16_def)
  have pl: "length pkt = 8 + length data" by (simp add: pkt_def)
  show ?thesis
  proof (cases "data = []")
    case True
    then have "pkt = packet ty (fresh_word heap) data" using h pl by (simp add: packet_def)
    then show ?thesis unfolding recv_packet_def rd using True alloc len by (simp add: HEADER_LEN_def)
  next
    case False
    then have body: "sock_read (pkt_len pkt - HEADER_LEN) ?as1 = (Bytes data, as)" using len by (simp add: HEADER_LEN_def)
    have "take HEADER_LEN pkt @ data @ drop (HEADER_LEN + length data) pkt = packet ty (fresh_word heap) data"
      using h pl by (simp add: packet_def HEADER_LEN_def)
    then show ?thesis unfolding recv_packet_def rd using False alloc len body by (simp add: HEADER_LEN_def)
  qed
qed

lemma packet_fields: "ty < 256 \<Longrightarrow> pkt_type (packet ty c data) = ty" "pkt_version (packet ty c data) = PMA_VERSION" "drop HEADER_LEN (packet ty c data) = data"
  by (simp_all add: packet_def pkt_fields_header PMA_VERSION_def HEADER_LEN_def)

text \<open>A module that works passes every packet it has a handler for to it.\<close>

lemma handle_packet_working:
  assumes "module_status s = M_STATUS_WORKING" "ty < 256" "ty \<noteq> PKT_ACK"
  shows "handle_packet (packet ty c data) s = Ok (False, s\<lparr>handled := handled s @ (if ty \<in> handler_types s then [(ty, data)] else [])\<rparr>)"
  using assms by (auto simp: handle_packet_def packet_fields Let_def)

lemma module_daemon_working:
  assumes "module_status s = M_STATUS_WORKING" "\<forall>(ty, c, data) \<in> set ms. ty < 256 \<and> ty \<noteq> PKT_ACK \<and> length data \<le> 65527"
  shows "module_daemon stack heap (map (\<lambda>(ty, c, data). Data (packet ty c data)) ms) s =
    Ok (Idle, s\<lparr>handled := handled s @ map (\<lambda>(ty, c, data). (ty, data)) (filter (\<lambda>(ty, _, _). ty \<in> handler_types s) ms)\<rparr>)"
  using assms
proof (induction ms arbitrary: s)
  case Nil
  then show ?case by (simp add: module_daemon.simps)
next
  case (Cons m ms)
  obtain ty c data where m: "m = (ty, c, data)" by (metis prod_cases3)
  let ?s = "s\<lparr>handled := handled s @ (if ty \<in> handler_types s then [(ty, data)] else [])\<rparr>"
  have rd: "recv_packet stack heap (Data (packet ty c data) # map (\<lambda>(ty, c, data). Data (packet ty c data)) ms) =
      Ok (Received (packet ty (fresh_word heap) data), map (\<lambda>(ty, c, data). Data (packet ty c data)) ms)"
    using Cons.prems(2) by (intro recv_packet_whole) (simp add: m)
  have h: "handle_packet (packet ty (fresh_word heap) data) s = Ok (False, ?s)" using handle_packet_working Cons.prems by (auto simp: m)
  show ?case
    using Cons.IH [of ?s] Cons.prems by (simp add: m module_daemon.simps [of stack heap "Data (packet ty c data) # _"] rd h)
qed

text \<open>The answer of the base module is accepted by the module it is for.\<close>

lemma ack_accepted_answer:
  assumes "self_module s < 2 ^ 31"
  shows "ack_accepted (packet PKT_ACK c (enc32 (word_of_nat (self_module s)) @ enc32 0 @ info)) s = Ok True"
proof -
  let ?ack = "enc32 (word_of_nat (self_module s)) @ enc32 0 @ info"
  let ?h = "packet_header PKT_ACK PMA_VERSION (HEADER_LEN + length ?ack) c"
  have des: "rd32 (packet PKT_ACK c ?ack) HEADER_LEN = Ok (word_of_nat (self_module s))"
  proof (rule rd32_at)
    have "bytes_at (?h @ enc32 (word_of_nat (self_module s)) @ enc32 0 @ info) (length ?h) (enc32 (word_of_nat (self_module s)))"
      by (simp add: bytes_at_def nth_append)
    then show "bytes_at (packet PKT_ACK c ?ack) HEADER_LEN (enc32 (word_of_nat (self_module s)))" by (simp add: packet_def HEADER_LEN_def)
  qed
  have ret: "rd32 (packet PKT_ACK c ?ack) (HEADER_LEN + 4) = Ok 0"
  proof (rule rd32_at)
    have "bytes_at ((?h @ enc32 (word_of_nat (self_module s))) @ enc32 0 @ info) (length (?h @ enc32 (word_of_nat (self_module s)))) (enc32 0)"
      by (simp add: bytes_at_def nth_append)
    then show "bytes_at (packet PKT_ACK c ?ack) (HEADER_LEN + 4) (enc32 0)" by (simp add: packet_def HEADER_LEN_def)
  qed
  have self: "int_of_u32 (word_of_nat (self_module s)) = int (self_module s)" using assms by (simp add: sint_uint unsigned_of_nat take_bit_eq_mod signed_take_bit_int_eq_self_iff)
  show ?thesis by (simp add: ack_accepted_def des ret self)
qed

text \<open>
  C13. A module that registers and gets the answer, its configuration and then packets, each arriving in one part: it sends
  exactly its registration, handles the configuration and then every packet it has a handler for, in order, with the data
  as they were sent, and goes on waiting.
\<close>

theorem module_handles_packets_in_order:
  assumes "sock \<noteq> 0" "conf_type s < 256" "conf_type s \<noteq> PKT_ACK" "conf_type s \<in> handler_types s" "self_module s < 2 ^ 31"
    "length info = 100" "length cdata \<le> 65527" "\<forall>(ty, c, data) \<in> set ms. ty < 256 \<and> ty \<noteq> PKT_ACK \<and> length data \<le> 65527"
  shows "\<exists>s'. module_register stack heap sock Sent
      (Data (packet PKT_ACK c1 (enc32 (word_of_nat (self_module s)) @ enc32 0 @ info)) # Data (packet (conf_type s) c2 cdata) #
        map (\<lambda>(ty, c, data). Data (packet ty c data)) ms) s = Ok (Idle, s') \<and>
    handled s' = handled s @ (conf_type s, cdata) # map (\<lambda>(ty, c, data). (ty, data)) (filter (\<lambda>(ty, _, _). ty \<in> handler_types s) ms) \<and>
    sent_packets s' = sent_packets s @ [reg_packet (self_module s)] \<and> module_status s' = M_STATUS_WORKING"
proof -
  let ?ms = "map (\<lambda>(ty, c, data). Data (packet ty c data)) ms"
  let ?ack = "enc32 (word_of_nat (self_module s)) @ enc32 0 @ info"
  define s1 where "s1 = s\<lparr>module_status := M_STATUS_LOGGING, bm_sock := sock, connected := True, sent_packets := sent_packets s @ [reg_packet (self_module s)]\<rparr>"
  have "sent_bytes (reg_packet (self_module s)) = reg_packet (self_module s)"
    unfolding reg_packet_def sent_bytes_def pkt_len_header by (simp add: HEADER_LEN_def)
  then have sent: "snd (module_send_packet Sent (reg_packet (self_module s)) (s\<lparr>module_status := M_STATUS_LOGGING, bm_sock := sock, connected := True\<rparr>)) = s1"
    using assms(1) by (simp add: module_send_packet_def s1_def)
  have rd1: "recv_packet stack heap (Data (packet PKT_ACK c1 ?ack) # as) = Ok (Received (packet PKT_ACK (fresh_word heap) ?ack), as)" for as
    by (intro recv_packet_whole) (simp add: assms(6))
  have rd2: "recv_packet stack heap (Data (packet (conf_type s) c2 cdata) # ?ms) = Ok (Received (packet (conf_type s) (fresh_word heap) cdata), ?ms)"
    by (rule recv_packet_whole [OF assms(7)])
  have "ack_accepted (packet PKT_ACK (fresh_word heap) ?ack) s1 = Ok True"
    using ack_accepted_answer [of s1 "fresh_word heap" info] assms(5) by (simp add: s1_def)
  then have h1: "handle_packet (packet PKT_ACK (fresh_word heap) ?ack) s1 = Ok (True, s1\<lparr>module_status := M_STATUS_WAITING\<rparr>)"
    using assms(3) by (simp add: handle_packet_def packet_fields PKT_ACK_def s1_def Let_def)
  let ?s2 = "s1\<lparr>module_status := M_STATUS_WORKING, handled := handled s @ [(conf_type s, cdata)]\<rparr>"
  have h2: "handle_packet (packet (conf_type s) (fresh_word heap) cdata) (s1\<lparr>module_status := M_STATUS_WAITING\<rparr>) = Ok (False, ?s2)"
    using assms(2-4) by (simp add: handle_packet_def packet_fields s1_def Let_def M_STATUS_WAITING_def M_STATUS_WORKING_def)
  have "module_daemon stack heap (Data (packet (conf_type s) c2 cdata) # ?ms) (s1\<lparr>module_status := M_STATUS_WAITING\<rparr>) = module_daemon stack heap ?ms ?s2"
    unfolding module_daemon.simps [of stack heap "Data (packet (conf_type s) c2 cdata) # ?ms"] rd2 by (simp add: h2)
  also have "\<dots> = Ok (Idle, ?s2\<lparr>handled := handled ?s2 @ map (\<lambda>(ty, c, data). (ty, data)) (filter (\<lambda>(ty, _, _). ty \<in> handler_types ?s2) ms)\<rparr>)"
    by (rule module_daemon_working) (use assms(8) in simp_all)
  finally have run: "module_daemon stack heap (Data (packet (conf_type s) c2 cdata) # ?ms) (s1\<lparr>module_status := M_STATUS_WAITING\<rparr>) =
      Ok (Idle, ?s2\<lparr>handled := handled ?s2 @ map (\<lambda>(ty, c, data). (ty, data)) (filter (\<lambda>(ty, _, _). ty \<in> handler_types ?s2) ms)\<rparr>)" .
  show ?thesis unfolding module_register_def Let_def by (simp add: sent rd1 h1 run) (simp add: s1_def)
qed

definition sample_module :: module_state where
  "sample_module = \<lparr>self_module = 2, conf_type = 56, handler_types = {11, 12, 51, 56, 31}, module_status = 1, connected = False, bm_sock = 0, sent_packets = [], handled = []\<rparr>"

theorem module_handles_packets_in_order_witness:
  "\<exists>s'. module_register (replicate 8 0) (\<lambda>_. 0) 5 Sent
      [Data (packet PKT_ACK 7 (enc32 2 @ enc32 0 @ replicate 100 0)), Data (packet 56 8 [1, 2]), Data (packet 11 9 [3]), Data (packet 99 9 [4]), Data (packet 31 9 [])]
      sample_module = Ok (Idle, s') \<and>
    handled s' = [(56, [1, 2]), (11, [3]), (31, [])] \<and> sent_packets s' = [reg_packet 2]"
  using module_handles_packets_in_order [of 5 sample_module "replicate 100 0" "[1, 2]" "[(11, 9, [3]), (99, 9, [4]), (31, 9, [])]" "replicate 8 0" "\<lambda>_. 0" 7 8]
  by (auto simp: sample_module_def PKT_ACK_def)

section \<open>Nothing before the configuration\<close>

lemma handle_packet_once:
  assumes "handle_packet pkt s = Ok (acc, s')" "conf_type s \<in> handler_types s" "conf_type s \<noteq> PKT_ACK"
  shows "conf_type s' = conf_type s \<and> handler_types s' = handler_types s \<and>
    (\<exists>hs. handled s' = handled s @ hs \<and> (module_status s \<noteq> M_STATUS_WORKING \<longrightarrow>
       (if hs = [] then module_status s' \<noteq> M_STATUS_WORKING else fst (hd hs) = conf_type s)))"
proof -
  define ty where "ty = pkt_type pkt"
  define flag where "flag = (module_status s = M_STATUS_WORKING \<or> module_status s = M_STATUS_LOGGING \<and> ty = PKT_ACK \<or> ty = conf_type s)"
  note run = assms(1) [unfolded handle_packet_def Let_def ty_def [symmetric] flag_def [symmetric]]
  consider "pkt_version pkt \<noteq> PMA_VERSION" | "pkt_version pkt = PMA_VERSION" "\<not> flag" | "pkt_version pkt = PMA_VERSION" "flag" "ty = PKT_ACK"
    | "pkt_version pkt = PMA_VERSION" "flag" "ty \<noteq> PKT_ACK" "ty \<in> handler_types s" | "pkt_version pkt = PMA_VERSION" "flag" "ty \<noteq> PKT_ACK" "ty \<notin> handler_types s"
    by blast
  then show ?thesis
  proof cases
    case 1
    then show ?thesis using run by auto
  next
    case 2
    then have "s' = s" using run by (auto simp: flag_def)
    then show ?thesis by simp
  next
    case 3
    have "s' = s \<or> s' = s\<lparr>module_status := M_STATUS_WAITING\<rparr>"
    proof (cases "ack_accepted pkt s")
      case (Ok a)
      then show ?thesis using run 3 assms(3) by (cases a) auto
    next
      case (Err x)
      then show ?thesis using run 3 by simp
    qed
    then have "conf_type s' = conf_type s" "handler_types s' = handler_types s" "handled s' = handled s @ []"
        "module_status s \<noteq> M_STATUS_WORKING \<longrightarrow> module_status s' \<noteq> M_STATUS_WORKING"
      by (auto simp: M_STATUS_WORKING_def M_STATUS_WAITING_def)
    then show ?thesis by simp
  next
    case 4
    then have "handled s' = handled s @ [(ty, drop HEADER_LEN pkt)]" "conf_type s' = conf_type s" "handler_types s' = handler_types s"
      using run by (auto split: if_splits)
    moreover have "module_status s \<noteq> M_STATUS_WORKING \<longrightarrow> ty = conf_type s" using 4 by (auto simp: flag_def)
    ultimately show ?thesis by simp
  next
    case 5
    then have "s' = s" "module_status s = M_STATUS_WORKING" using run assms(2) by (auto simp: flag_def split: if_splits)
    then show ?thesis by simp
  qed
qed

lemma module_daemon_configured_first:
  assumes "module_daemon stack heap as s = Ok (e, s')" "conf_type s \<in> handler_types s" "conf_type s \<noteq> PKT_ACK"
  shows "\<exists>hs. handled s' = handled s @ hs \<and> (module_status s \<noteq> M_STATUS_WORKING \<longrightarrow> hs = [] \<or> fst (hd hs) = conf_type s)"
  using assms
proof (induction stack heap as s rule: module_daemon.induct)
  case (1 stack heap as s)
  show ?case
  proof (cases "as = []")
    case True
    then show ?thesis using 1(3) by (simp add: module_daemon.simps)
  next
    case False
    obtain r as' where r: "recv_packet stack heap as = Ok (r, as')"
      using 1(3) False by (cases "recv_packet stack heap as") (auto simp: module_daemon.simps [of stack heap as s])
    show ?thesis
    proof (cases r)
      case (Received pkt)
      obtain acc s1 where s1: "handle_packet pkt s = Ok (acc, s1)"
        using 1(3) False r Received by (cases "handle_packet pkt s") (auto simp: module_daemon.simps [of stack heap as s])
      then have run: "module_daemon stack heap as' s1 = Ok (e, s')" using 1(3) False r Received by (simp add: module_daemon.simps [of stack heap as s])
      note once = handle_packet_once [OF s1 1(4,5)]
      obtain hs1 where hs1: "handled s1 = handled s @ hs1" "module_status s \<noteq> M_STATUS_WORKING \<longrightarrow>
          (if hs1 = [] then module_status s1 \<noteq> M_STATUS_WORKING else fst (hd hs1) = conf_type s)" using once by blast
      obtain hs2 where hs2: "handled s' = handled s1 @ hs2" "module_status s1 \<noteq> M_STATUS_WORKING \<longrightarrow> hs2 = [] \<or> fst (hd hs2) = conf_type s1"
        using "1.IH"(1) [OF False r refl Received s1 refl run] once 1(4,5) by auto
      show ?thesis using hs1 hs2 once by (intro exI [of _ "hs1 @ hs2"]) (auto simp: hd_append split: if_splits)
    next
      case Nothing
      then have "module_daemon stack heap as' s = Ok (e, s')" using 1(3) False r by (simp add: module_daemon.simps [of stack heap as s])
      then show ?thesis using "1.IH"(2) [OF False r refl Nothing] 1(4,5) by blast
    next
      case Disconnected
      then show ?thesis using 1(3) False r by (auto simp: module_daemon.simps [of stack heap as s])
    qed
  qed
qed

text \<open>
  C14. On every connection, whatever arrives on it and however it is divided, as long as the run meets no fault: no packet is passed to a
  handler of the module before one of the type of its configuration.  (The acknowledgement of the registration, which
  \<^verbatim>\<open>ack_handle\<close> treats, is not counted among the handlers of the module.)
\<close>

theorem configuration_handled_first:
  assumes "module_register stack heap sock out as s = Ok (e, s')" "conf_type s \<in> handler_types s" "conf_type s \<noteq> PKT_ACK"
  shows "\<exists>hs. handled s' = handled s @ hs \<and> (hs = [] \<or> fst (hd hs) = conf_type s)"
proof -
  define s1 where "s1 = snd (module_send_packet out (reg_packet (self_module s)) (s\<lparr>module_status := M_STATUS_LOGGING, bm_sock := sock, connected := True\<rparr>))"
  have s1: "handled s1 = handled s" "conf_type s1 = conf_type s" "handler_types s1 = handler_types s" "module_status s1 \<noteq> M_STATUS_WORKING"
    by (auto simp: s1_def module_send_packet_def M_STATUS_LOGGING_def M_STATUS_WORKING_def M_STATUS_OFFLINE_def split: send_outcome.splits)
  obtain r as' where r: "recv_packet stack heap as = Ok (r, as')"
    using assms(1) by (auto simp: module_register_def Let_def res_bind_Ok_iff)
  show ?thesis
  proof (cases r)
    case (Received pkt)
    obtain acc s2 where s2: "handle_packet pkt s1 = Ok (acc, s2)" "(if acc then module_daemon stack heap as' s2 else Ok (Not_accepted, s2)) = Ok (e, s')"
      using assms(1) r Received by (auto simp: module_register_def Let_def res_bind_Ok_iff s1_def)
    note once = handle_packet_once [OF s2(1)]
    obtain hs1 where hs1: "handled s2 = handled s @ hs1" "if hs1 = [] then module_status s2 \<noteq> M_STATUS_WORKING else fst (hd hs1) = conf_type s"
        "conf_type s2 = conf_type s" "handler_types s2 = handler_types s"
      using once assms(2,3) s1 by auto
    show ?thesis
    proof (cases acc)
      case True
      then obtain hs2 where "handled s' = handled s2 @ hs2" "module_status s2 \<noteq> M_STATUS_WORKING \<longrightarrow> hs2 = [] \<or> fst (hd hs2) = conf_type s2"
        using module_daemon_configured_first [of stack heap as' s2 e s'] s2(2) hs1 assms(2,3) by auto
      then show ?thesis using hs1 by (intro exI [of _ "hs1 @ hs2"]) (auto simp: hd_append split: if_splits)
    next
      case False
      then show ?thesis using s2(2) hs1 by (auto split: if_splits)
    qed
  qed (use assms(1) r s1 in \<open>auto simp: module_register_def Let_def s1_def [symmetric]\<close>)
qed

theorem configuration_handled_first_witness:
  "\<exists>s'. module_register (replicate 8 0) (\<lambda>_. 0) 5 Sent
      [Data (packet PKT_ACK 7 (enc32 2 @ enc32 0)), Data (packet 11 9 [3]), Data (packet 56 8 [1, 2]), Data (packet 11 9 [4])] sample_module = Ok (Idle, s') \<and>
    handled s' = [(56, [1, 2]), (11, [4])] \<and> (\<exists>hs. handled s' = handled sample_module @ hs \<and> (hs = [] \<or> fst (hd hs) = 56))"
proof -
  let ?as = "[Data (packet PKT_ACK 7 (enc32 2 @ enc32 0)), Data (packet 11 9 [3]), Data (packet 56 8 [1, 2]), Data (packet 11 9 [4])]"
  have "res_map (\<lambda>(e, s'). (e, handled s')) (module_register (replicate 8 0) (\<lambda>_. 0) 5 Sent ?as sample_module) = Ok (Idle, [(56, [1, 2]), (11, [4])])"
    by code_simp
  then obtain s' where s': "module_register (replicate 8 0) (\<lambda>_. 0) 5 Sent ?as sample_module = Ok (Idle, s')" "handled s' = [(56, [1, 2]), (11, [4])]"
    by (cases "module_register (replicate 8 0) (\<lambda>_. 0) 5 Sent ?as sample_module") auto
  have "conf_type sample_module \<in> handler_types sample_module" "conf_type sample_module \<noteq> PKT_ACK" "conf_type sample_module = 56" by code_simp+
  with configuration_handled_first [OF s'(1)] s' show ?thesis by auto
qed

text \<open>A packet whose data arrive in two parts: the first part is taken for the whole, the rest of the memory is what it held.\<close>

lemma divided_data_accepted:
  assumes "d1 \<noteq> []" "d2 \<noteq> []" "length d1 + length d2 \<le> 65527"
  shows "\<exists>pkt. recv_packet stack heap (Data (packet_header ty PMA_VERSION (8 + length d1 + length d2) c) # Data d1 # Data d2 # as) = Ok (Received pkt, Data d2 # as) \<and>
    drop 8 pkt = d1 @ map heap [8 + length d1 ..< 8 + length d1 + length d2]"
proof -
  let ?n = "8 + length d1 + length d2"
  let ?h = "packet_header ty PMA_VERSION ?n c"
  have rd: "sock_read HEADER_LEN (Data ?h # Data d1 # Data d2 # as) = (Bytes ?h, Data d1 # Data d2 # as)" by (simp add: HEADER_LEN_def) (auto simp: packet_header_def)
  have n: "pkt_len (header_after stack ?h) = ?n" using assms(3) unfolding header_after_def pkt_len_header by simp
  define pkt where "pkt = take 4 ?h @ map heap [4 ..< ?n]"
  have alloc: "alloc_packet heap (header_after stack ?h) = Ok pkt" unfolding alloc_packet_def n by (simp add: pkt_def header_after_def)
  have len: "pkt_len pkt = ?n" using assms(3) enc16_len [of ?n] by (simp add: pkt_def pkt_len_def packet_header_def nth_append)
  have body: "sock_read (pkt_len pkt - HEADER_LEN) (Data d1 # Data d2 # as) = (Bytes d1, Data d2 # as)" using assms(1) by (simp add: len HEADER_LEN_def)
  have "recv_packet stack heap (Data ?h # Data d1 # Data d2 # as) = Ok (Received (take HEADER_LEN pkt @ d1 @ drop (HEADER_LEN + length d1) pkt), Data d2 # as)"
    unfolding recv_packet_def rd using alloc len body assms by (simp add: HEADER_LEN_def)
  moreover have "drop 8 (take HEADER_LEN pkt @ d1 @ drop (HEADER_LEN + length d1) pkt) = d1 @ map heap [8 + length d1 ..< ?n]"
    by (simp add: pkt_def HEADER_LEN_def drop_map)
  ultimately show ?thesis by blast
qed

end
