(* ===== verification/Router_Cmd.thy ===== *)
theory Router_Cmd
  imports Bytes Conf Ini
begin

text \<open>
  The commands with which the agent changes the router: the scripts for intervals, costs and routes
  (\<^verbatim>\<open>snmp/snmp/routerset.c\<close>) and the commands for tunnels (\<^verbatim>\<open>command/routercmd.c\<close>).  A command is a text that goes to
  \<^verbatim>\<open>system\<close>; the calls of the MPLS library, which is not part of the sources, are kept as they are made.
\<close>

section \<open>Effects\<close>

datatype router_act = System string | Add_mpls_in u32 string string | Add_mpls_mid u32 u32 | Add_mpls_end u32
  | Add_iptables "string option" string u32

text \<open>
  The name that the router at an address answers to an SNMP request (empty if it does not answer), what \<^verbatim>\<open>system\<close> returns, and
  the key that the MPLS library makes up for a label.
\<close>

record router_env =
  sys_name :: "string \<Rightarrow> string"
  sys_ret :: "string \<Rightarrow> int"
  mpls_key :: "u32 \<Rightarrow> string \<Rightarrow> string \<Rightarrow> u32"

definition MAX_LEN :: nat where "MAX_LEN = 200"
definition HUAWEI_SYSTEMNAME :: string where "HUAWEI_SYSTEMNAME = ''Huawei''"
definition FILEPATH :: string where "FILEPATH = ''./tcl/''"

text \<open>\<^verbatim>\<open>sprintf\<close> to a buffer of the given size, with its closing zero.\<close>

definition sprintf_to :: "nat \<Rightarrow> string \<Rightarrow> string res" where
  "sprintf_to cap text = (if length text < cap then Ok text else Err OutOfBounds)"

fun strstr :: "string \<Rightarrow> string \<Rightarrow> bool" where
  "strstr hay needle = (take (length needle) hay = needle \<or> (case hay of [] \<Rightarrow> False | _ # hay' \<Rightarrow> strstr hay' needle))"

declare strstr.simps [simp del]

text \<open>The text, the buffer and the call of \<^verbatim>\<open>system\<close>.\<close>

definition run_command :: "router_env \<Rightarrow> nat \<Rightarrow> string \<Rightarrow> router_act list \<Rightarrow> (int \<times> router_act list) res" where
  "run_command e cap text acts = res_map (\<lambda>t. (sys_ret e t, acts @ [System t])) (sprintf_to cap text)"

section \<open>Scripts\<close>

definition is_huawei :: "router_env \<Rightarrow> string \<Rightarrow> bool" where
  "is_huawei e ip \<longleftrightarrow> sys_name e ip = HUAWEI_SYSTEMNAME"

definition expect_text :: "string \<Rightarrow> string list \<Rightarrow> string" where
  "expect_text file ws = ''expect '' @ FILEPATH @ file @ concat (map (\<lambda>w. CHR '' '' # w) ws)"

definition route_script :: "string \<Rightarrow> string \<Rightarrow> router_env \<Rightarrow> string option \<Rightarrow> string option \<Rightarrow> string option \<Rightarrow> string option \<Rightarrow> router_act list \<Rightarrow> (int \<times> router_act list) res" where
  "route_script huawei quagga e routerIp desIp netMsk nextHop acts =
     (case (routerIp, desIp, netMsk, nextHop) of
        (Some ip, Some des, Some m, Some nh) \<Rightarrow> run_command e MAX_LEN (expect_text (if is_huawei e ip then huawei else quagga) [ip, des, m, nh]) acts
      | _ \<Rightarrow> Ok (-1, acts))"

definition addStaticRoute :: "router_env \<Rightarrow> string option \<Rightarrow> string option \<Rightarrow> string option \<Rightarrow> string option \<Rightarrow> router_act list \<Rightarrow> (int \<times> router_act list) res" where
  "addStaticRoute = route_script ''add_route_huawei.tcl'' ''add_route_quagga.tcl''"

definition removeStaticRoute :: "router_env \<Rightarrow> string option \<Rightarrow> string option \<Rightarrow> string option \<Rightarrow> string option \<Rightarrow> router_act list \<Rightarrow> (int \<times> router_act list) res" where
  "removeStaticRoute = route_script ''remove_route_huawei.tcl'' ''remove_route_quagga.tcl''"

text \<open>The name of an interface: a number gets the prefix of the router's system.\<close>

definition if_name :: "router_env \<Rightarrow> string \<Rightarrow> string \<Rightarrow> string" where
  "if_name e ip eth =
     (if is_huawei e ip then (if strstr eth ''GigabitEthernet'' then eth else ''GigabitEthernet0/0/'' @ eth)
      else (if strstr eth ''eth'' then eth else ''eth'' @ eth))"

definition if_script :: "string \<Rightarrow> string \<Rightarrow> router_env \<Rightarrow> string option \<Rightarrow> string option \<Rightarrow> string option \<Rightarrow> router_act list \<Rightarrow> (int \<times> router_act list) res" where
  "if_script huawei quagga e routerIp ethIdNum val acts =
     (case (routerIp, ethIdNum, val) of
        (Some ip, Some eth, Some v) \<Rightarrow> run_command e MAX_LEN (expect_text (if is_huawei e ip then huawei else quagga) [ip, if_name e ip eth, v]) acts
      | _ \<Rightarrow> Ok (-1, acts))"

definition setHelloInteval :: "router_env \<Rightarrow> string option \<Rightarrow> string option \<Rightarrow> string option \<Rightarrow> router_act list \<Rightarrow> (int \<times> router_act list) res" where
  "setHelloInteval = if_script ''set_hello_huawei.tcl'' ''set_hello_quagga.tcl''"

definition setDeadInteval :: "router_env \<Rightarrow> string option \<Rightarrow> string option \<Rightarrow> string option \<Rightarrow> router_act list \<Rightarrow> (int \<times> router_act list) res" where
  "setDeadInteval = if_script ''set_dead_huawei.tcl'' ''set_dead_quagga.tcl''"

definition setCost :: "router_env \<Rightarrow> string option \<Rightarrow> string option \<Rightarrow> string option \<Rightarrow> router_act list \<Rightarrow> (int \<times> router_act list) res" where
  "setCost = if_script ''set_cost_huawei.tcl'' ''set_cost_quagga.tcl''"

definition setRetransmitInteval :: "router_env \<Rightarrow> string option \<Rightarrow> string option \<Rightarrow> string option \<Rightarrow> router_act list \<Rightarrow> (int \<times> router_act list) res" where
  "setRetransmitInteval = if_script ''set_retransmit_huawei.tcl'' ''set_retransmit_quagga.tcl''"

definition setBgpPeerUpdateInterval :: "router_env \<Rightarrow> string option \<Rightarrow> string option \<Rightarrow> string option \<Rightarrow> int \<Rightarrow> router_act list \<Rightarrow> (int \<times> router_act list) res" where
  "setBgpPeerUpdateInterval e routerIp bgpAreaId peerIp interval acts =
     (case (routerIp, bgpAreaId, peerIp) of
        (Some ip, Some as_id, Some peer) \<Rightarrow>
          run_command e MAX_LEN (expect_text (if is_huawei e ip then ''set_bgpupdateinterval_huawei.tcl'' else ''set_bgpupdateinterval_quagga.tcl'')
            [ip, as_id, peer, dec_int interval]) acts
      | _ \<Rightarrow> Ok (-1, acts))"

section \<open>Commands for tunnels\<close>

record tunnelcmd =
  tc_type :: u32
  src_ip :: string
  dst_ip :: string
  next_ip :: string
  out_if :: string
  in_label :: u32
  out_label :: u32
  outport :: u32

definition ROUTER_CMD_PATH :: string where "ROUTER_CMD_PATH = ''command/sh-cmd/''"





text \<open>\<^verbatim>\<open>printf("%02x")\<close>.\<close>

definition hex_digit :: "nat \<Rightarrow> char" where
  "hex_digit d = (if d < 10 then char_of (48 + d) else char_of (87 + d))"

fun hex_nat :: "nat \<Rightarrow> string" where
  "hex_nat n = (if n < 16 then [hex_digit n] else hex_nat (n div 16) @ [hex_digit (n mod 16)])"

declare hex_nat.simps [simp del]

definition hex02 :: "u32 \<Rightarrow> string" where
  "hex02 w = (if unat w < 16 then CHR ''0'' # hex_nat (unat w) else hex_nat (unat w))"

text \<open>The arguments of the script: those that are given, in this order.\<close>

definition cmd_args :: "tunnelcmd \<Rightarrow> string list" where
  "cmd_args cmd =
     (if src_ip cmd \<noteq> [] then [src_ip cmd] else []) @
     (if dst_ip cmd \<noteq> [] then [dst_ip cmd] else []) @
     (if out_label cmd \<noteq> 0 then [dec_int (int_of_u32 (out_label cmd))] else []) @
     (if in_label cmd \<noteq> 0 then [dec_int (int_of_u32 (in_label cmd))] else []) @
     (if out_if cmd \<noteq> [] then [out_if cmd] else []) @
     (if next_ip cmd \<noteq> [] then [next_ip cmd] else []) @
     (if outport cmd \<noteq> 0 then [dec_int (int_of_u32 (outport cmd))] else [])"

definition cmd_text :: "tunnelcmd \<Rightarrow> string" where
  "cmd_text cmd = ROUTER_CMD_PATH @ hex02 (tc_type cmd) @ '' '' @ concat (map (\<lambda>w. w @ '' '') (cmd_args cmd))"

definition runRouterCmd :: "router_env \<Rightarrow> bool \<Rightarrow> tunnelcmd \<Rightarrow> router_act list \<Rightarrow> (int \<times> router_act list) res" where
  "runRouterCmd e fastmpls cmd acts =
     (if fastmpls then
        (let rkey = mpls_key e (out_label cmd) (out_if cmd) (next_ip cmd);
             add_in = Add_mpls_in (out_label cmd) (out_if cmd) (next_ip cmd)
         in Ok (0, acts @
              (if tc_type cmd = 1 then [add_in, Add_iptables (if src_ip cmd \<noteq> [] then Some (src_ip cmd) else None) (dst_ip cmd) rkey]
               else if tc_type cmd = 2 then [Add_mpls_end (in_label cmd), add_in, Add_mpls_mid (in_label cmd) rkey]
               else if tc_type cmd = 3 then [Add_mpls_end (in_label cmd)]
               else [])))
      else res_map (\<lambda>(ret, acts). (if ret \<noteq> 0 then -1 else 0, acts)) (run_command e 1024 (cmd_text cmd) acts))"





section \<open>Numbers\<close>











lemma length_hex_nat: "n < 16 ^ Suc k \<Longrightarrow> length (hex_nat n) \<le> Suc k"
proof (induction k arbitrary: n)
  case 0
  then show ?case by (simp add: hex_nat.simps)
next
  case (Suc k)
  show ?case
  proof (cases "n < 16")
    case True
    then show ?thesis by (simp add: hex_nat.simps)
  next
    case False
    have "n div 16 < 16 ^ Suc k" using Suc.prems by (simp add: div_less_iff_less_mult mult.commute)
    with Suc.IH have "length (hex_nat (n div 16)) \<le> Suc k" by blast
    with False show ?thesis by (subst hex_nat.simps) simp
  qed
qed

lemma length_hex02: "length (hex02 w) \<le> 9"
  using length_hex_nat [of "unat w" 7] unsigned_less [of w, where ?'a = nat] by (simp add: hex02_def)

section \<open>A tunnel command\<close>






lemma dec_int_length: "length (dec_int (int_of_u32 w)) \<le> 11"
  using sint_ge [of w] sint_lt [of w] by (intro length_dec_int) simp

lemma cmd_text_fits:
  assumes "length (src_ip cmd) < 50" "length (dst_ip cmd) < 50" "length (out_if cmd) < 50" "length (next_ip cmd) < 50"
  shows "length (cmd_text cmd) < 1024"
proof -
  have w: "\<And>w :: u32. length (dec_int (int_of_u32 w)) \<le> 49" 
  proof -
    fix w :: u32
    show "length (dec_int (int_of_u32 w)) \<le> 49" using dec_int_length [of w] by linarith
  qed
  have "length (concat (map (\<lambda>w. w @ '' '') ws)) \<le> 50 * length ws" if "\<forall>w \<in> set ws. length w \<le> 49" for ws :: "string list"
    using that by (induction ws) auto
  moreover have "\<forall>w \<in> set (cmd_args cmd). length w \<le> 49" using assms w by (auto simp: cmd_args_def)
  moreover have "length (cmd_args cmd) \<le> 7" by (simp add: cmd_args_def split del: if_split) (simp split: if_split)
  ultimately have "length (concat (map (\<lambda>w. w @ '' '') (cmd_args cmd))) \<le> 50 * 7" by (meson le_trans mult_le_mono2)
  then show ?thesis using length_hex02 [of "tc_type cmd"] by (simp add: cmd_text_def ROUTER_CMD_PATH_def)
qed


definition sample_tunnel :: tunnelcmd where
  "sample_tunnel = \<lparr>tc_type = 1, src_ip = [], dst_ip = ''10.0.0.9'', next_ip = ''10.0.0.1'', out_if = ''eth0'', in_label = 0, out_label = 17, outport = 0\<rparr>"





text \<open>A text of the document goes to the shell as it is, with whatever commands it contains.\<close>

lemma tunnel_field_is_shell_text:
  assumes "length t < 50" "t \<noteq> []"
  shows "\<exists>a b. runRouterCmd e False (sample_tunnel\<lparr>out_if := t\<rparr>) [] = Ok (if sys_ret e (a @ t @ b) \<noteq> 0 then -1 else 0, [System (a @ t @ b)])"
proof -
  have fits: "length (cmd_text (sample_tunnel\<lparr>out_if := t\<rparr>)) < 1024" using assms(1) by (intro cmd_text_fits) (simp_all add: sample_tunnel_def)
  have "cmd_text (sample_tunnel\<lparr>out_if := t\<rparr>) = (ROUTER_CMD_PATH @ hex02 1 @ '' 10.0.0.9 '' @ dec_int (int_of_u32 17) @ '' '') @ t @ '' 10.0.0.1 ''"
    using assms(2) by (simp add: cmd_text_def cmd_args_def sample_tunnel_def)
  then obtain a b where ab: "cmd_text (sample_tunnel\<lparr>out_if := t\<rparr>) = a @ t @ b" by blast
  have "runRouterCmd e False (sample_tunnel\<lparr>out_if := t\<rparr>) [] = Ok (if sys_ret e (a @ t @ b) \<noteq> 0 then -1 else 0, [System (a @ t @ b)])"
    using fits unfolding runRouterCmd_def run_command_def sprintf_to_def ab by simp
  then show ?thesis by blast
qed

end
