(* ===== verification/Spec2Isabelle.thy ===== *)
theory Spec2Isabelle
  imports Control Module_Manager Timer Ddc_Paths Fah Lsdb Cr_List Lsd_Protocol Route_Dump Poll_Daemon Log_System Router_Daemon Base_Props Module_Server Router_Cmd
begin

text \<open>
  Verification library of the PMA agent, the policy management agent of a router.

  \<^bold>\<open>The program.\<close>  The agent runs beside an OSPF or BGP router as a group of processes, configured by
  \<^verbatim>\<open>conf/\<close>.  The base module keeps a register of the local modules (\<^verbatim>\<open>mmanager/\<close>, \<^verbatim>\<open>control/\<close>), passes packets between them
  and the management server and exchanges messages with the server (\<^verbatim>\<open>comm/\<close>); the modules connect to it and
  register (\<^verbatim>\<open>server/server.c\<close>, \<^verbatim>\<open>server/socket.c\<close>).  The information module ICM reads the router's interfaces, sends hello packets
  to the agents of the neighbouring routers, floods and exchanges link states with them (\<^verbatim>\<open>lsd/\<close> on the
  event loop \<^verbatim>\<open>lib/thread.c\<close>) and keeps them in a database (\<^verbatim>\<open>lsdb/\<close>).  Its polling threads
  (\<^verbatim>\<open>utils/thread_daemon.c\<close>) watch the routes of the kernel or of the router (\<^verbatim>\<open>netlink/\<close>, \<^verbatim>\<open>router/routertable.c\<close>) and the
  interfaces (\<^verbatim>\<open>router/interface.c\<close>) and report to the server.  Every change of the database is sent to the decision module DBM, which computes all shortest paths of an area (\<^verbatim>\<open>ddc/ddc.c\<close>), and when a link
  fails weighs the damage (\<^verbatim>\<open>ddc/fah.c\<close>), looks it up in a table of policies (\<^verbatim>\<open>policy/\<close>) and sends the hello
  and dead intervals to apply to the enforcement module PEM.  All processes log through a ring in shared memory that
  a daemon empties (\<^verbatim>\<open>logger/\<close>, \<^verbatim>\<open>lib/shmem.c\<close>, \<^verbatim>\<open>lib/semph.c\<close>).

  \<^bold>\<open>Theories.\<close>
  \<^item> \<open>Prelude\<close>: machine integers, faults of a C run as values (\<open>Err\<close>), error codes of \<^verbatim>\<open>utils/pma_err.h\<close>,
    counting loops, decimal output.
  \<^item> \<open>Control\<close> (\<^verbatim>\<open>control/control.c\<close>): tables of message handlers.  A registered handler is dispatched to; the
    bounds check admits one index too many.
  \<^item> \<open>Module_Manager\<close> (\<^verbatim>\<open>mmanager/module_manager.c\<close>): the register of modules; what is registered is found, the
    printed table fits its buffer, ids without a name read behind an array.
  \<^item> \<open>Timer\<close> (\<^verbatim>\<open>timer/timer.c\<close>): the array of periodic timers.  Every sequence of operations but \<^verbatim>\<open>clear_timer\<close>
    keeps it well formed, a timer fires at exactly its period, and \<^verbatim>\<open>clear_timer\<close> breaks the next tick.
  \<^item> \<open>Xml\<close> (\<^verbatim>\<open>utils/xml.c\<close>) and \<open>Policy_Table\<close> (\<^verbatim>\<open>policy/\<close>): reading a policy document into the table of at most
    twenty policies, and looking a damage value up.
  \<^item> \<open>Ddc\<close>, \<open>Spf\<close>, \<open>Ddc_Paths\<close> (\<^verbatim>\<open>ddc/ddc.c\<close>): the matrix of an area, the Dijkstra runs and the recorded paths.
    \<open>Spf\<close> shows one run to be a shortest-path computation with equal-cost next hops (invariant of the settled and
    estimated nodes), \<open>Ddc_Paths\<close> that the initialisation gives a matrix such runs can work on, that all runs
    together make the matrix shortest (of parallel links the last one counts, which is a finding), that tracing ends and records each path under exactly its links, and
    that the damage after a failure is the importance of the paths over the failed link.
  \<^item> \<open>Fah\<close> (\<^verbatim>\<open>ddc/fah.c\<close>, \<^verbatim>\<open>send_policy\<close> of \<^verbatim>\<open>server/dbm.c\<close>): the reaction to a failure, in single-precision
    arithmetic, with the faults of the policy choice.
  \<^item> \<open>Lsdb\<close> (\<^verbatim>\<open>lsdb/\<close>): the link-state database; it refines a finite map from link keys to link states.
  \<^item> \<open>Cr_List\<close> (\<^verbatim>\<open>utils/list.c\<close>): the intrusive lists at the level of their pointers; on a well-formed ring they
    are the list operations by which the other theories model chains.
  \<^item> \<open>Thread_Pool\<close> (\<^verbatim>\<open>lib/thread.c\<close>): the event loop; each thread is in exactly one list, timers are sorted, and a
    fetch serves events, due timers and descriptors in that order.  It provides the interface
    \<open>timer_service\<close> to the link-state daemon.
  \<^item> \<open>Lsd_State\<close> (\<^verbatim>\<open>lsd_if.c\<close>, \<^verbatim>\<open>lsd_socket.c\<close>, \<^verbatim>\<open>lsd_event.c\<close>, \<^verbatim>\<open>lsdsrv.c\<close>), \<open>Lsd_Flood\<close> (\<^verbatim>\<open>lsd_flood.c\<close>, \<^verbatim>\<open>lsd_utils.c\<close>),
    \<open>Lsd_Hello\<close> (\<^verbatim>\<open>lsd_exchange.c\<close>, \<^verbatim>\<open>lsd_hello.c\<close>, \<^verbatim>\<open>lsd_handler.c\<close>): the daemon, one definition per function.
    \<open>Lsd_Timers\<close>, \<open>Lsd_Invariant\<close>, \<open>Lsd_Handlers\<close> state what holds of its state between two callbacks (the pending timers
    of an interface are those its protocol states call for, no timer pointer is stale, an exchange runs only with
    a detected neighbour) and that every callback keeps it; \<open>Lsd_Safety\<close> concludes that no reachable state
    fails an assertion or follows a bad pointer; \<open>Lsd_Protocol\<close> shows what the protocols achieve
    (newest advertisement wins, floods and exchanges are delivered in order and end when their packets are
    acknowledged) and four ways they fail.
  \<^item> \<open>Inet\<close>: texts of addresses and masks, \<^verbatim>\<open>atoi\<close> and \<^verbatim>\<open>strtol\<close>, the mask functions of \<^verbatim>\<open>netlink/route.c\<close>,
    \<^verbatim>\<open>router/routertable.c\<close> and \<^verbatim>\<open>router/interface.c\<close>; a length that \<^verbatim>\<open>getmask\<close> prints is read back, other masks are rounded.
    \<open>Bytes\<close>: memory as a list of bytes, with reads that fault outside, used by all theories about packets.
  \<^item> \<open>Netlink\<close> (\<^verbatim>\<open>netlink/netlink.c\<close>), \<open>Route_Table\<close> (\<^verbatim>\<open>netlink/route.c\<close>, \<^verbatim>\<open>router/routertable.c\<close>), \<open>Route_Dump\<close>: messages and
    attributes of netlink, the list of routes and its two sources, the watch for changes.  Attributes are collected
    without reading outside a message; a round keeps the routes of the source and the first route ever
    entered; \<open>Route_Dump\<close> composes both from the bytes of a kernel's answer to the table and the message sent.
  \<^item> \<open>Ini\<close> (\<^verbatim>\<open>utils/ini.c\<close>, \<^verbatim>\<open>utils/utils.c\<close>) and \<open>Poll_Daemon\<close> (\<^verbatim>\<open>utils/thread_daemon.c\<close>, settings of \<^verbatim>\<open>server/icm.c\<close>): the reader of
    configuration files and the polling threads; from the text of the file to the schedule of calls.
  \<^item> \<open>Shm_Queue\<close> (\<^verbatim>\<open>lib/shmem.c\<close>, \<^verbatim>\<open>log_writer\<close> and \<^verbatim>\<open>log_reader\<close>), \<open>Logger\<close> (\<^verbatim>\<open>logger/logger.c\<close>), \<open>Log_System\<close> (with \<^verbatim>\<open>logger_daemon.c\<close> and
    \<^verbatim>\<open>lib/semph.c\<close>): the ring in shared memory refines a list of nineteen messages (interface \<open>bounded_fifo\<close>),
    enabled types are logged, and in every interleaving of callers and daemon the messages arrive in order without
    deadlock, until a twentieth message crashes the daemon.
  \<^item> \<open>Router_If\<close>, \<open>If_Report\<close> (\<^verbatim>\<open>router/interface.c\<close>, \<^verbatim>\<open>router/router.c\<close>, \<^verbatim>\<open>pma_list_handle\<close> of \<^verbatim>\<open>server/icm.c\<close>), \<open>Router_Daemon\<close>: the table of
    the router's interfaces, its update from SNMP rows, the rounds that compare it with the router and the
    documents they send; an update keeps the link-state daemon in its reachable states.
  \<^item> \<open>Router_Cmd\<close> (\<^verbatim>\<open>command/routercmd.c\<close>, \<^verbatim>\<open>snmp/snmp/routerset.c\<close>): the commands by which the router is changed; a tunnel command is
    run as the document of the server says.
  \<^item> \<open>Conf\<close> (\<^verbatim>\<open>conf/conf.c\<close>): the configuration document; what it says is read into every field.
  \<^item> \<open>Local_Msg\<close> (\<^verbatim>\<open>server/socket.c\<close>, packets of \<^verbatim>\<open>comm/interior_daemon.c\<close>), \<open>Module_Server\<close> (\<^verbatim>\<open>server/server.c\<close>): packets between the
    processes of the agent and the life of a module on a connection; packets are handled in order, none before
    the configuration.
  \<^item> \<open>Pms_Comm\<close> (\<^verbatim>\<open>comm/comm.c\<close>): messages to the server, directly or over the relay, and its replies.  \<open>Base_Module\<close>, \<open>Base_Props\<close>
    (\<^verbatim>\<open>comm/handler.c\<close>, \<^verbatim>\<open>comm/interior_daemon.c\<close>, \<^verbatim>\<open>comm/exterior_daemon.c\<close>): the handlers of local packets and of packets of the
    server, registration, configuration, the list of agents; local packets are handled in order, the status counts
    the modules, packets of the server reach their module.

  \<^bold>\<open>State.\<close>  A C structure is a record, a global variable a field of the state of its component, a pointer to an object
  that is never freed an index into the list of all objects of its kind, a chain the list of its indices.
  Integers are words where wrap-around or conversion can be observed.  Undefined behaviour is a result \<open>Err\<close>:
  theorems that an operation returns exclude it, and theorems of kind error exhibit it.

  \<^bold>\<open>Simplifications.\<close>  The callbacks of the link-state daemon, the reading of the interfaces and the update of the interface table
  are single steps, although the code runs the last two in other threads without a lock; the same holds for the
  operations on the timer array.  The log system is the exception: there a step is one semaphore operation or one
  critical section.  Clock values are below \<open>2\<^sup>3\<^sup>1 - 5000\<close> seconds (the beginning of 2038) and descriptors below
  \<^verbatim>\<open>FD_SETSIZE\<close>.  A send on a blocking socket (modules, server exchange) takes all bytes or fails; on the non-blocking
  sockets of the base module it may take a first part.  The handle of a database is the database itself, as
  on a machine whose addresses fit \<^verbatim>\<open>id_t\<close>.  Signed overflow in the importance sums is the wrap-around of the
  compiled code.  Database queries succeed.  Memory that is not initialised is an argument, and allocation
  succeeds unless its size is negative.

  \<^bold>\<open>Bounds and fuel.\<close>  Loops are structural recursions on the list they run over or counting loops.  Those with fuel are
  the search of \<^verbatim>\<open>cr_list_add_in_order\<close> (the number of nodes suffices), the tracing loop of
  \<^verbatim>\<open>record_short_path\<close> (the number of routers suffices, since costs fall along a route) and the messages of one
  netlink datagram (the number of bytes suffices): the theorems show that \<open>OutOfFuel\<close> does not occur.  The fetch loop of the
  event loop runs over a list with the results of \<^verbatim>\<open>select\<close>; there \<open>OutOfFuel\<close> says that it is still waiting at the end
  of the list.  Loops that read a socket run over the list of arrivals and end with it.

  \<^bold>\<open>Parameters.\<close>  libxml2's parser, printer, property and text functions, the rows of the SQLite database and of the SNMP client,
  the answers of the kernel, the clock, descriptors that are ready, sends that succeed and bytes that arrive are arguments;
  what is assumed of them is stated in the theorems, and each has a witness.

  \<^bold>\<open>Not modelled.\<close>  Creating sockets, processes and threads, the listeners (epoll, accept), printing to the terminal, and freeing of
  memory; the SNMP client (\<^verbatim>\<open>snmp/\<close>, requests to the net-snmp library), the SQL statements of \<^verbatim>\<open>db/\<close>, the terminal
  (\<^verbatim>\<open>vty/\<close>), the login (\<^verbatim>\<open>reg/\<close>), the reduced copy \<^verbatim>\<open>comm/comm_lite.c\<close>, the parts of \<^verbatim>\<open>lib/\<close> copied from
  GNU Zebra other than the event loop; of the logger \<^verbatim>\<open>log_package_json\<close> (never called), \<^verbatim>\<open>log_close\<close> and the undoing of
  semaphore operations at the exit of a process; what a module does after its registration was not accepted.  Interleaving of
  the processes other than in the log system is not modelled: each theory is about one process, and the messages between
  them are lists.
\<close>

end
